(* ===== verification/Prelude.thy ===== *)
theory Prelude
  imports Main "HOL-Library.Word"
begin

text \<open>
  Shared ground of the development: the machine integer types of the firmware
  (\<^verbatim>\<open>arch/cc.h\<close>), the fact collections the component theories fill, and
  generic lemmas on lists and words.
\<close>

unbundle bit_operations_syntax

section \<open>Machine integers\<close>

type_synonym u8 = "8 word"
type_synonym u16 = "16 word"
type_synonym u32 = "32 word"
type_synonym byte = u8
type_synonym bytes = "byte list"

section \<open>Fact collections\<close>

named_theorems hw_simps \<open>effect of one hardware clock or bus access\<close>
named_theorems inv_intros \<open>preservation of a component's invariant\<close>
named_theorems layout_simps \<open>sizes and offsets that are compile-time constants\<close>

section \<open>Lists\<close>

lemma list_ex_upt [simp]: "list_ex P [0..<n] \<longleftrightarrow> (\<exists>i<n. P i)"
  by (auto simp: list_ex_iff)

lemma list_all_upt [simp]: "list_all P [0..<n] \<longleftrightarrow> (\<forall>i<n. P i)"
  by (auto simp: list_all_iff)

lemma nth_update_diff [simp]: "i \<noteq> j \<Longrightarrow> xs[i := v] ! j = xs ! j"
  by simp

section \<open>Words\<close>

lemma word_and_one_zero_iff: "(w AND 1 = 0) \<longleftrightarrow> \<not> bit w 0" for w :: "'a::len word"
  by (metis and_one_eq even_iff_mod_2_eq_zero bit_0)

lemma unat_less_exp: "unat w < 2 ^ LENGTH('a)" for w :: "'a::len word"
  by (rule unsigned_less)

lemma unat_of_nat_small: "n < 2 ^ LENGTH('a) \<Longrightarrow> unat (of_nat n :: 'a::len word) = n"
  by (simp add: unat_of_nat)

lemma unat_ucast_widen:
  "LENGTH('a) \<le> LENGTH('b) \<Longrightarrow> unat (ucast w :: 'b::len word) = unat w"
  for w :: "'a::len word"
proof (simp add: unsigned_ucast_eq)
  assume "LENGTH('a) \<le> LENGTH('b)"
  then have "(2::nat) ^ LENGTH('a) \<le> 2 ^ LENGTH('b)" by (intro power_increasing) simp_all
  then have "unat w < 2 ^ LENGTH('b)" using unat_less_exp [of w] by linarith
  then show "take_bit LENGTH('b) (unat w) = unat w" by (rule take_bit_nat_eq_self)
qed

lemma word_Suc_le_exp:
  fixes a b :: "'a::len word"
  assumes "a \<noteq> b" "unat a \<le> unat b"
  shows "unat (a + 1) = Suc (unat a)"
proof -
  have "unat a < unat b" using assms by (metis le_neq_implies_less word_unat_eq_iff)
  then have "Suc (unat a) < 2 ^ LENGTH('a)"
    using unat_less_exp [of b] by linarith
  then show ?thesis by (simp add: unat_word_ariths)
qed

text \<open>The byte masks of the C code.\<close>

lemma bit_byte_masks:
  "bit (0xff :: int) n \<longleftrightarrow> n < 8" "bit (0xff00 :: int) n \<longleftrightarrow> 8 \<le> n \<and> n < 16"
  "bit (0xff0000 :: int) n \<longleftrightarrow> 16 \<le> n \<and> n < 24" "bit (0xff000000 :: int) n \<longleftrightarrow> 24 \<le> n \<and> n < 32"
  "bit (0xffff :: int) n \<longleftrightarrow> n < 16" "bit (0xffff0000 :: int) n \<longleftrightarrow> 16 \<le> n \<and> n < 32"
proof -
  have b: "bit (push_bit i (mask k) :: int) n \<longleftrightarrow> i \<le> n \<and> n < i + k" for i k
    by (auto simp: bit_simps)
  have m: "(0xff :: int) = push_bit 0 (mask 8)" "(0xff00 :: int) = push_bit 8 (mask 8)"
    "(0xff0000 :: int) = push_bit 16 (mask 8)" "(0xff000000 :: int) = push_bit 24 (mask 8)"
    "(0xffff :: int) = push_bit 0 (mask 16)" "(0xffff0000 :: int) = push_bit 16 (mask 16)"
    by (simp_all add: mask_eq_exp_minus_1 push_bit_eq_mult)
  show "bit (0xff :: int) n \<longleftrightarrow> n < 8" "bit (0xff00 :: int) n \<longleftrightarrow> 8 \<le> n \<and> n < 16"
    "bit (0xff0000 :: int) n \<longleftrightarrow> 16 \<le> n \<and> n < 24" "bit (0xff000000 :: int) n \<longleftrightarrow> 24 \<le> n \<and> n < 32"
    "bit (0xffff :: int) n \<longleftrightarrow> n < 16" "bit (0xffff0000 :: int) n \<longleftrightarrow> 16 \<le> n \<and> n < 32"
    unfolding m b by simp_all
qed

lemma unat_take_bit: "unat (take_bit n w) = unat w mod 2 ^ n" for w :: "'a::len word"
  unfolding take_bit_eq_mod [of n "unat w", symmetric] by (rule unsigned_take_bit_eq)

lemma unat_and_bytes:
  "unat (w AND 0xff) = unat w mod 256" "unat (w AND 0xffff) = unat w mod 65536" for w :: "'a::len word"
  using unat_take_bit [of 8 w] unat_take_bit [of 16 w] by (simp_all add: take_bit_eq_mask mask_eq_exp_minus_1)

lemma unat_drop_bit: "unat (drop_bit n w) = unat w div 2 ^ n" for w :: "'a::len word"
  unfolding drop_bit_eq_div [of n "unat w", symmetric] by (rule unat_drop_bit_eq)

lemma unat_push_bit: "unat w * 2 ^ n < 2 ^ LENGTH('a) \<Longrightarrow> unat (push_bit n w) = unat w * 2 ^ n"
  for w :: "'a::len word"
proof -
  assume h: "unat w * 2 ^ n < 2 ^ LENGTH('a)"
  have "unat (push_bit n w) = take_bit LENGTH('a) (push_bit n (unat w))" by (rule unsigned_push_bit_eq)
  with h show ?thesis unfolding push_bit_eq_mult [of n "unat w"] take_bit_eq_mod by simp
qed

lemma byte_bit_high [simp]: "8 \<le> n \<Longrightarrow> \<not> bit a n" for a :: byte
  using bit_imp_le_length [of a n] by auto

lemma unat_or_disjoint:
  fixes a b :: "'a::len word"
  assumes "a AND b = 0" "unat a + unat b < 2 ^ LENGTH('a)"
  shows "unat (a OR b) = unat a + unat b"
  using assms by (simp add: disjunctive_add_eq_or [symmetric] unat_word_ariths)

section \<open>Little-endian bytes of a word\<close>

text \<open>
  \<^verbatim>\<open>memcpy\<close> between a 32-bit variable and a byte buffer on the little-endian CPU:
  \<open>le_word\<close> of up to four bytes copied into a zero word, \<open>le_bytes\<close> the bytes of a word.
\<close>

fun le_word :: "bytes \<Rightarrow> u32" where
  "le_word [] = 0"
| "le_word (b # bs) = ucast b OR push_bit 8 (le_word bs)"

definition le_bytes :: "u32 \<Rightarrow> bytes" where
  "le_bytes w = map (\<lambda>i. ucast (drop_bit (8 * i) w)) [0..<4]"

lemma bit_le_word:
  "bit (le_word bs) n \<longleftrightarrow> n < 32 \<and> n div 8 < length bs \<and> bit (bs ! (n div 8)) (n mod 8)"
proof (induction bs arbitrary: n)
  case (Cons b bs)
  show ?case
  proof (cases "n < 8")
    case True
    then show ?thesis by (auto simp: bit_simps)
  next
    case False
    then obtain m where "n = m + 8" by (metis le_add_diff_inverse2 not_less)
    moreover have "(m + 8) div 8 = Suc (m div 8)" by simp
    ultimately show ?thesis
      by (auto simp: bit_simps Cons.IH dest: bit_imp_le_length)
  qed
qed simp

lemma length_le_bytes [simp]: "length (le_bytes w) = 4"
  by (simp add: le_bytes_def)

lemma le_word_le_bytes [simp]: "le_word (le_bytes w) = w"
proof (rule bit_word_eqI)
  fix n assume "n < LENGTH(32)"
  then have n: "n < 32" "n div 8 < 4" "8 * (n div 8) + n mod 8 = n" by auto
  then have "bit (le_bytes w ! (n div 8)) (n mod 8) = bit w (8 * (n div 8) + n mod 8)"
    unfolding le_bytes_def by (subst nth_map) (simp_all add: bit_simps)
  then show "bit (le_word (le_bytes w)) n = bit w n"
    unfolding bit_le_word length_le_bytes using n by metis
qed

lemma le_bytes_inject: "le_bytes v = le_bytes w \<longleftrightarrow> v = w"
  by (metis le_word_le_bytes)

lemma le_bytes_le_word:
  assumes "length bs \<le> 4"
  shows "take (length bs) (le_bytes (le_word bs)) = bs"
proof (rule nth_equalityI)
  show len: "length (take (length bs) (le_bytes (le_word bs))) = length bs"
    using assms by (simp add: le_bytes_def)
  fix i assume "i < length (take (length bs) (le_bytes (le_word bs)))"
  then have i: "i < length bs" "i < 4" using assms len by auto
  have "(ucast (drop_bit (8 * i) (le_word bs)) :: byte) = bs ! i"
  proof (rule bit_word_eqI)
    fix n assume n: "n < LENGTH(8)"
    then have "(8 * i + n) div 8 = i" "(8 * i + n) mod 8 = n" "8 * i + n < 32" using i by auto
    then show "bit (ucast (drop_bit (8 * i) (le_word bs)) :: byte) n = bit (bs ! i) n"
      using i n by (simp add: bit_simps bit_le_word)
  qed
  then show "take (length bs) (le_bytes (le_word bs)) ! i = bs ! i"
    using i by (simp add: le_bytes_def)
qed

end
