(* ===== verification/Register_File.thy ===== *)
theory Register_File
  imports Prelude
begin

text \<open>
  The interface between the firmware and a memory-mapped peripheral: a store to a valid word
  offset changes that register, to the part of the stored word the register keeps, and no
  other. The firmware's loading loops are proved against it once.
\<close>

locale register_file =
  fixes ready :: "'b \<Rightarrow> bool"
    and store :: "nat \<Rightarrow> u32 \<Rightarrow> 'b \<Rightarrow> 'b"
    and view :: "'b \<Rightarrow> nat \<Rightarrow> 'v"
    and kept :: "u32 \<Rightarrow> 'v"
    and limit :: nat
  assumes store_ready: "ready b \<Longrightarrow> off < limit \<Longrightarrow> ready (store off d b)"
    and store_view: "ready b \<Longrightarrow> off < limit \<Longrightarrow> view (store off d b) = (view b)(off := kept d)"
begin

lemma fold_store_ready:
  "ready b \<Longrightarrow> \<forall>o' \<in> set offs. o' < limit \<Longrightarrow> ready (fold (\<lambda>o'. store o' (f o')) offs b)"
  by (induction offs arbitrary: b) (auto simp: store_ready)

lemma fold_store_view:
  "ready b \<Longrightarrow> \<forall>o' \<in> set offs. o' < limit \<Longrightarrow>
   view (fold (\<lambda>o'. store o' (f o')) offs b) =
     (\<lambda>o'. if o' \<in> set offs then kept (f o') else view b o')"
proof (induction offs arbitrary: b)
  case (Cons x xs)
  then have "ready (store x (f x) b)" by (simp add: store_ready)
  with Cons show ?case by (auto simp: store_view fun_eq_iff)
qed auto

lemma fill_view:
  assumes "ready b" "n \<le> limit"
  shows "view (fold (\<lambda>o'. store o' (f o')) [0..<n] b) =
     (\<lambda>o'. if o' < n then kept (f o') else view b o')"
  using fold_store_view [of b "[0..<n]" f] assms by auto

lemma fill_ready:
  assumes "ready b" "n \<le> limit"
  shows "ready (fold (\<lambda>o'. store o' (f o')) [0..<n] b)"
  using fold_store_ready [of b "[0..<n]" f] assms by auto

end

end
