(* ===== verification/Wishbone.thy ===== *)
theory Wishbone
  imports Prelude
begin

text \<open>
  The Wishbone bus signals a master drives (the ports \<^verbatim>\<open>wb_*\<close> of the slaves under
  \<^verbatim>\<open>soc/\<close>; \<^verbatim>\<open>wb_sel\<close> is accepted and ignored by both slaves), with the
  request patterns of a store and a load.
\<close>

record wb_in =
  wb_cyc :: bool
  wb_stb :: bool
  wb_we :: bool
  wb_adr :: "9 word"
  wb_dat_w :: u32

text \<open>
  A bus master keeps its request up in the cycle in which it makes it and in the next one, in which
  the slaves of this SoC acknowledge (lemmas \<open>wb_ack_handshake\<close> and \<open>echo_ack_handshake\<close>); a read samples the data
  in the acknowledge cycle. Between two accesses of the CPU any number of idle cycles may pass:
  \<open>delay n\<close> of them before the \<open>n\<close>-th access.
\<close>

definition wb_idle :: wb_in where
  "wb_idle = \<lparr>wb_cyc = False, wb_stb = False, wb_we = False, wb_adr = 0, wb_dat_w = 0\<rparr>"

definition wb_store :: "9 word \<Rightarrow> u32 \<Rightarrow> wb_in" where
  "wb_store a d = \<lparr>wb_cyc = True, wb_stb = True, wb_we = True, wb_adr = a, wb_dat_w = d\<rparr>"

definition wb_load :: "9 word \<Rightarrow> wb_in" where
  "wb_load a = \<lparr>wb_cyc = True, wb_stb = True, wb_we = False, wb_adr = a, wb_dat_w = 0\<rparr>"

end
