(* ===== verification/Sat_Hardware.thy ===== *)
theory Sat_Hardware
  imports Wishbone
begin

text \<open>
  The SAT accelerator, cycle by cycle: the brute-force solver of
  \<^verbatim>\<open>soc/sat_solver.py\<close> (class \<^verbatim>\<open>BruteForceSAT\<close>), the Wishbone register file
  around it of \<^verbatim>\<open>soc/sat_slave.py\<close> (class \<^verbatim>\<open>SATSlave\<close>), and the bus accesses the
  firmware's volatile loads and stores turn into.
\<close>

section \<open>The solver core\<close>

definition MAX_VARS :: nat where [layout_simps]: "MAX_VARS = 10"
definition MAX_CLAUSES :: nat where [layout_simps]: "MAX_CLAUSES = 20"
definition CLAUSE_LEN :: nat where [layout_simps]: "CLAUSE_LEN = 10"

text \<open>Input ports of \<^verbatim>\<open>BruteForceSAT\<close>.\<close>

record sat_in =
  start :: bool
  n_vars :: "4 word"
  n_clauses :: "5 word"
  lit_var :: "nat \<Rightarrow> nat \<Rightarrow> 4 word"
  lit_neg :: "nat \<Rightarrow> nat \<Rightarrow> bool"
  lit_used :: "nat \<Rightarrow> nat \<Rightarrow> bool"

text \<open>Its registers; the output ports are wired to the last four.\<close>

record sat_core =
  assignment :: "10 word"
  running :: bool
  done_r :: bool
  sat_r :: bool
  model_r :: "10 word"
  cycles_r :: "20 word"

text \<open>
  \<^verbatim>\<open>word_select\<close> beyond the ten assignment bits reads zero, as \<open>bit\<close> does.
\<close>

definition lit_val :: "sat_in \<Rightarrow> 10 word \<Rightarrow> nat \<Rightarrow> nat \<Rightarrow> bool" where
  "lit_val i a c l =
     (let var_val = bit a (unat (lit_var i c l))
      in (if lit_neg i c l then \<not> var_val else var_val) \<and> lit_used i c l)"

definition clause_sat :: "sat_in \<Rightarrow> 10 word \<Rightarrow> nat \<Rightarrow> bool" where
  "clause_sat i a c = list_ex (\<lambda>l. lit_val i a c l) [0..<CLAUSE_LEN]"

definition all_sat :: "sat_in \<Rightarrow> 10 word \<Rightarrow> bool" where
  "all_sat i a =
     list_all (\<lambda>c. clause_sat i a c \<or> c \<ge> unat (n_clauses i)) [0..<MAX_CLAUSES]"

definition max_assign :: "sat_in \<Rightarrow> 10 word" where
  "max_assign i = push_bit (unat (n_vars i)) 1 - 1"

definition sat_tick :: "sat_in \<Rightarrow> sat_core \<Rightarrow> sat_core" where
  "sat_tick i s =
     (if start i then
        s\<lparr>assignment := 0, done_r := False, sat_r := False, model_r := 0,
          cycles_r := 0, running := True\<rparr>
      else if running s then
        (let s' = s\<lparr>cycles_r := cycles_r s + 1\<rparr>
         in if all_sat i (assignment s) then
              s'\<lparr>done_r := True, sat_r := True, model_r := assignment s, running := False\<rparr>
            else if assignment s = max_assign i then
              s'\<lparr>done_r := True, sat_r := False, running := False\<rparr>
            else s'\<lparr>assignment := assignment s + 1\<rparr>)
      else s)"

section \<open>The Wishbone register file\<close>

definition LIT_BASE :: nat where [layout_simps]: "LIT_BASE = 8"
definition LIT_COUNT :: nat where [layout_simps]: "LIT_COUNT = MAX_CLAUSES * CLAUSE_LEN"

record sat_slave =
  core :: sat_core
  start_r :: bool
  n_vars_r :: "4 word"
  n_clauses_r :: "5 word"
  lit_regs :: "6 word list"
  wb_ack :: bool

text \<open>The wiring of the registers to the solver's inputs.\<close>

definition core_in :: "sat_slave \<Rightarrow> sat_in" where
  "core_in s =
     \<lparr>start = start_r s, n_vars = n_vars_r s, n_clauses = n_clauses_r s,
      lit_var = (\<lambda>c l. ucast (lit_regs s ! (c * CLAUSE_LEN + l))),
      lit_neg = (\<lambda>c l. bit (lit_regs s ! (c * CLAUSE_LEN + l)) 4),
      lit_used = (\<lambda>c l. bit (lit_regs s ! (c * CLAUSE_LEN + l)) 5)\<rparr>"

definition active_write :: "wb_in \<Rightarrow> sat_slave \<Rightarrow> bool" where
  "active_write w s = (wb_cyc w \<and> wb_stb w \<and> wb_we w \<and> \<not> wb_ack s)"

text \<open>
  The write \<^verbatim>\<open>Switch\<close>: address 0 pulses \<^verbatim>\<open>start\<close>, 1 and 2 hold the dimensions,
  8 to 207 the literals; other addresses are ignored.
\<close>

definition reg_write :: "9 word \<Rightarrow> u32 \<Rightarrow> sat_slave \<Rightarrow> sat_slave" where
  "reg_write a d s =
     (if a = 0 then s\<lparr>start_r := bit d 0\<rparr>
      else if a = 1 then s\<lparr>n_vars_r := ucast d\<rparr>
      else if a = 2 then s\<lparr>n_clauses_r := ucast d\<rparr>
      else if LIT_BASE \<le> unat a \<and> unat a < LIT_BASE + LIT_COUNT then
        s\<lparr>lit_regs := (lit_regs s)[unat a - LIT_BASE := ucast d]\<rparr>
      else s)"

text \<open>The combinational read multiplexer.\<close>

definition wb_dat_r :: "sat_slave \<Rightarrow> 9 word \<Rightarrow> u32" where
  "wb_dat_r s a =
     (if a = 0 then of_bool (done_r (core s)) OR push_bit 1 (of_bool (sat_r (core s)))
      else if a = 3 then ucast (model_r (core s))
      else if a = 4 then ucast (cycles_r (core s))
      else 0)"

text \<open>
  One rising clock edge. All right-hand sides read the registers before the edge; where two
  statements drive \<^verbatim>\<open>start_r\<close> the later one, the bus write, wins.
\<close>

definition slave_tick :: "wb_in \<Rightarrow> sat_slave \<Rightarrow> sat_slave" where
  "slave_tick w s =
     (let s1 = s\<lparr>core := sat_tick (core_in s) (core s)\<rparr>;
          s2 = (if start_r s then s1\<lparr>start_r := False\<rparr> else s1);
          s3 = s2\<lparr>wb_ack := (wb_cyc w \<and> wb_stb w \<and> \<not> wb_ack s)\<rparr>
      in if active_write w s then reg_write (wb_adr w) (wb_dat_w w) s3 else s3)"

definition sat_slave_reset :: sat_slave where
  "sat_slave_reset =
     \<lparr>core = \<lparr>assignment = 0, running = False, done_r = False, sat_r = False,
              model_r = 0, cycles_r = 0\<rparr>,
      start_r = False, n_vars_r = 0, n_clauses_r = 0,
      lit_regs = replicate LIT_COUNT 0, wb_ack = False\<rparr>"

section \<open>Bus accesses\<close>

definition idle_ticks :: "nat \<Rightarrow> sat_slave \<Rightarrow> sat_slave" where
  "idle_ticks n = slave_tick wb_idle ^^ n"

definition bus_cycle :: "wb_in \<Rightarrow> sat_slave \<Rightarrow> u32 \<times> sat_slave" where
  "bus_cycle w s =
     (let s1 = slave_tick w s in (wb_dat_r s1 (wb_adr w), slave_tick w s1))"

record sat_bus =
  slave :: sat_slave
  accesses :: nat
  delay :: "nat \<Rightarrow> nat"

definition sat_reg_write :: "nat \<Rightarrow> u32 \<Rightarrow> sat_bus \<Rightarrow> sat_bus" where
  "sat_reg_write off d b =
     b\<lparr>slave := snd (bus_cycle (wb_store (of_nat off) d)
                      (idle_ticks (delay b (accesses b)) (slave b))),
       accesses := Suc (accesses b)\<rparr>"

definition sat_reg_read :: "nat \<Rightarrow> sat_bus \<Rightarrow> u32 \<times> sat_bus" where
  "sat_reg_read off b =
     (case bus_cycle (wb_load (of_nat off)) (idle_ticks (delay b (accesses b)) (slave b))
      of (v, s) \<Rightarrow> (v, b\<lparr>slave := s, accesses := Suc (accesses b)\<rparr>))"

section \<open>What the hardware keeps\<close>

text \<open>
  \<open>slave_ready\<close>: between two formulas no search runs, no start pulse is pending and no
  bus cycle is open. \<open>searching\<close> and \<open>solved\<close> describe the two phases of a search:
  every assignment below the current one has failed; the search is over and its verdict is right.
\<close>

definition slave_ready :: "sat_slave \<Rightarrow> bool" where
  "slave_ready s \<longleftrightarrow> \<not> running (core s) \<and> \<not> start_r s \<and> \<not> wb_ack s \<and>
     length (lit_regs s) = LIT_COUNT"

definition no_model_below :: "sat_in \<Rightarrow> nat \<Rightarrow> bool" where
  "no_model_below i n \<longleftrightarrow> (\<forall>k<n. \<not> all_sat i (of_nat k))"

definition searching :: "sat_in \<Rightarrow> sat_core \<Rightarrow> bool" where
  "searching i s \<longleftrightarrow> running s \<and> \<not> done_r s \<and>
     unat (assignment s) \<le> unat (max_assign i) \<and> no_model_below i (unat (assignment s)) \<and>
     cycles_r s = ucast (assignment s)"

definition solved :: "sat_in \<Rightarrow> sat_core \<Rightarrow> bool" where
  "solved i s \<longleftrightarrow> \<not> running s \<and> done_r s \<and>
     (if sat_r s
      then all_sat i (model_r s) \<and> unat (model_r s) \<le> unat (max_assign i) \<and>
           no_model_below i (unat (model_r s))
      else no_model_below i (Suc (unat (max_assign i)))) \<and>
     unat (cycles_r s) \<le> Suc (unat (max_assign i))"

definition search_active :: "sat_in \<Rightarrow> sat_core \<Rightarrow> bool" where
  "search_active i s \<longleftrightarrow> searching i s \<or> solved i s"

definition steps_left :: "sat_in \<Rightarrow> sat_core \<Rightarrow> nat" where
  "steps_left i s = (if running s then Suc (unat (max_assign i) - unat (assignment s)) else 0)"

section \<open>Properties of the hardware\<close>

lemma wb_ack_handshake:
  assumes "\<not> wb_ack s" "wb_cyc w" "wb_stb w"
  shows "wb_ack (slave_tick w s)" "\<not> wb_ack (slave_tick w (slave_tick w s))"
  using assms by (auto simp: slave_tick_def Let_def reg_write_def)

lemma tick_ready: "slave_ready s \<Longrightarrow> slave_tick wb_idle s = s"
  by (simp add: slave_tick_def slave_ready_def sat_tick_def core_in_def active_write_def wb_idle_def)

lemma idle_ready [hw_simps]: "slave_ready s \<Longrightarrow> idle_ticks n s = s"
  unfolding idle_ticks_def by (induction n) (simp_all add: tick_ready)

lemma reg_write_ready: "slave_ready s \<Longrightarrow> a \<noteq> 0 \<Longrightarrow> slave_ready (reg_write a d s)"
  by (auto simp: slave_ready_def reg_write_def)

lemma store_ready [hw_simps]:
  assumes "slave_ready s" "a \<noteq> 0"
  shows "snd (bus_cycle (wb_store a d) s) = reg_write a d s"
proof -
  have 1: "slave_tick (wb_store a d) s = (reg_write a d s)\<lparr>wb_ack := True\<rparr>"
    using assms by (auto simp: slave_tick_def slave_ready_def sat_tick_def core_in_def
        active_write_def wb_store_def reg_write_def)
  have "slave_ready (reg_write a d s)" using assms by (rule reg_write_ready)
  then have 2: "slave_tick (wb_store a d) ((reg_write a d s)\<lparr>wb_ack := True\<rparr>) = reg_write a d s"
    by (simp add: slave_tick_def slave_ready_def sat_tick_def core_in_def
        active_write_def wb_store_def)
  show ?thesis by (simp add: bus_cycle_def 1 2)
qed

lemma max_assign_unat:
  assumes "unat (n_vars i) \<le> MAX_VARS"
  shows "unat (max_assign i) = 2 ^ unat (n_vars i) - 1"
proof -
  have "(push_bit (unat (n_vars i)) 1 :: 10 word) = of_nat (2 ^ unat (n_vars i))" 
    by (simp add: push_bit_eq_mult)
  then have m: "max_assign i = of_nat (2 ^ unat (n_vars i) - 1)" 
    by (simp add: max_assign_def)
  have "(2::nat) ^ unat (n_vars i) \<le> 2 ^ 10" using assms by (intro power_increasing) (simp_all add: layout_simps)
  then have "2 ^ unat (n_vars i) - 1 < (2::nat) ^ LENGTH(10)" by simp 
  then show ?thesis unfolding m by (rule unat_of_nat_small)
qed

lemma no_model_below_Suc [simp]:
  "no_model_below i (Suc n) \<longleftrightarrow> no_model_below i n \<and> \<not> all_sat i (of_nat n)"
  by (auto simp: no_model_below_def less_Suc_eq)

lemma unat_cycles: "unat (ucast (a :: 10 word) + 1 :: 20 word) = Suc (unat a)"
proof -
  have "unat a < 1024" using unat_less_exp [of a] by simp
  then show ?thesis by (simp add: unat_word_ariths unat_ucast_widen)
qed

lemma searching_tick:
  assumes "searching i s" "\<not> start i"
  shows "if all_sat i (assignment s) \<or> assignment s = max_assign i then solved i (sat_tick i s)
         else searching i (sat_tick i s) \<and> unat (assignment (sat_tick i s)) = Suc (unat (assignment s))"
proof -
  have n: "unat (assignment s + 1) = Suc (unat (assignment s))" if "assignment s \<noteq> max_assign i"
    using assms that by (intro word_Suc_le_exp) (auto simp: searching_def)
  have c: "(ucast (assignment s + 1) :: 20 word) = ucast (assignment s) + 1" if "assignment s \<noteq> max_assign i"
    using n [OF that] by (simp add: word_unat_eq_iff unat_cycles unat_ucast_widen)
  show ?thesis
  proof (cases "all_sat i (assignment s) \<or> assignment s = max_assign i")
    case True
    then show ?thesis using assms
      by (auto simp: searching_def solved_def sat_tick_def unat_cycles Let_def)
  next
    case False
    then have "unat (assignment s) \<noteq> unat (max_assign i)" by (simp add: word_unat_eq_iff)
    with False assms n c show ?thesis
      by (auto simp: searching_def sat_tick_def Let_def le_less)
  qed
qed

lemma solved_tick: "solved i s \<Longrightarrow> \<not> start i \<Longrightarrow> sat_tick i s = s"
  by (simp add: solved_def sat_tick_def)

lemma search_active_tick:
  assumes "search_active i s" "\<not> start i"
  shows "search_active i (sat_tick i s)"
    "steps_left i (sat_tick i s) \<le> steps_left i s - 1"
proof -
  have "search_active i (sat_tick i s) \<and> steps_left i (sat_tick i s) \<le> steps_left i s - 1"
  proof (cases "solved i s")
    case True
    then show ?thesis using assms solved_tick [OF True]
      by (simp add: search_active_def solved_def steps_left_def)
  next
    case False
    with assms have "searching i s" by (simp add: search_active_def)
    from searching_tick [OF this assms(2)] this show ?thesis
      by (auto simp: search_active_def solved_def searching_def steps_left_def split: if_splits)
  qed
  then show "search_active i (sat_tick i s)" "steps_left i (sat_tick i s) \<le> steps_left i s - 1"
    by auto
qed

lemma search_active_ticks:
  assumes "search_active i s" "\<not> start i"
  shows "search_active i ((sat_tick i ^^ n) s)"
    "steps_left i ((sat_tick i ^^ n) s) \<le> steps_left i s - n"
proof -
  have "search_active i ((sat_tick i ^^ n) s) \<and> steps_left i ((sat_tick i ^^ n) s) \<le> steps_left i s - n"
    using assms
  proof (induction n)
    case (Suc n)
    then show ?case using search_active_tick [of i "(sat_tick i ^^ n) s"] by fastforce
  qed simp
  then show "search_active i ((sat_tick i ^^ n) s)" "steps_left i ((sat_tick i ^^ n) s) \<le> steps_left i s - n"
    by auto
qed

lemma search_active_cases:
  assumes "search_active i s"
  shows "done_r s \<longleftrightarrow> solved i s" "running s \<longleftrightarrow> searching i s" "steps_left i s = 0 \<longleftrightarrow> solved i s"
  using assms by (auto simp: search_active_def searching_def solved_def steps_left_def)

lemma solved_ticks: "solved i s \<Longrightarrow> \<not> start i \<Longrightarrow> (sat_tick i ^^ n) s = s"
  by (induction n) (simp_all add: solved_tick)

lemma search_terminates:
  assumes "search_active i s" "\<not> start i" "steps_left i s \<le> n"
  shows "solved i ((sat_tick i ^^ n) s)"
  using search_active_ticks [OF assms(1,2), of n] assms(3) search_active_cases by simp

subsection \<open>The bus during a search\<close>

lemma core_in_core [simp]: "core_in (s\<lparr>core := c\<rparr>) = core_in s"
  and core_in_ack [simp]: "core_in (s\<lparr>wb_ack := b\<rparr>) = core_in s"
  and start_core_in [simp]: "start (core_in s) = start_r s"
  and n_vars_core_in [simp]: "n_vars (core_in s) = n_vars_r s"
  and n_clauses_core_in [simp]: "n_clauses (core_in s) = n_clauses_r s"
  by (simp_all add: core_in_def)

lemma wb_dat_r_ack [simp]: "wb_dat_r (s\<lparr>wb_ack := b\<rparr>) a = wb_dat_r s a"
  by (simp add: wb_dat_r_def)

lemma quiet_tick:
  assumes "\<not> wb_we w" "\<not> start_r s"
  shows "slave_tick w s = s\<lparr>core := sat_tick (core_in s) (core s),
           wb_ack := (wb_cyc w \<and> wb_stb w \<and> \<not> wb_ack s)\<rparr>"
  using assms by (simp add: slave_tick_def active_write_def)

lemma idle_quiet:
  assumes "\<not> start_r s" "\<not> wb_ack s"
  shows "idle_ticks n s = s\<lparr>core := (sat_tick (core_in s) ^^ n) (core s)\<rparr>"
  using assms
proof (induction n)
  case (Suc n)
  then show ?case
    by (simp add: idle_ticks_def quiet_tick wb_idle_def)
qed (simp add: idle_ticks_def)

lemma load_quiet:
  assumes "\<not> start_r s" "\<not> wb_ack s"
  shows "bus_cycle (wb_load a) s =
     (wb_dat_r (s\<lparr>core := sat_tick (core_in s) (core s)\<rparr>) a,
      s\<lparr>core := (sat_tick (core_in s) ^^ 2) (core s)\<rparr>)"
  using assms by (simp add: bus_cycle_def quiet_tick wb_load_def numeral_2_eq_2)

lemma sat_reg_read_quiet [hw_simps]:
  fixes b :: sat_bus
  assumes "\<not> start_r (slave b)" "\<not> wb_ack (slave b)"
  defines "i \<equiv> core_in (slave b)" and "d \<equiv> delay b (accesses b)"
  shows "sat_reg_read off b =
     (wb_dat_r ((slave b)\<lparr>core := (sat_tick i ^^ Suc d) (core (slave b))\<rparr>) (of_nat off),
      b\<lparr>slave := (slave b)\<lparr>core := (sat_tick i ^^ (d + 2)) (core (slave b))\<rparr>,
        accesses := Suc (accesses b)\<rparr>)"
  using assms by (simp add: sat_reg_read_def load_quiet idle_quiet funpow_add numeral_2_eq_2 funpow_swap1)

lemma store_start:
  assumes "slave_ready s"
  shows "snd (bus_cycle (wb_store 0 1) s) =
    s\<lparr>core := sat_tick ((core_in s)\<lparr>start := True\<rparr>) (core s)\<rparr>"
  using assms
  by (simp add: bus_cycle_def slave_tick_def slave_ready_def sat_tick_def core_in_def
        active_write_def wb_store_def reg_write_def)

lemma start_searching:
  "searching i (sat_tick (i'\<lparr>start := True\<rparr>) s)"
  by (simp add: searching_def sat_tick_def no_model_below_def)

end
