(* ===== verification/Sat_Host.thy ===== *)
theory Sat_Host
  imports Prelude
begin

text \<open>
  The host side of the SAT service, \<^verbatim>\<open>host/sat_host.py\<close>: the encoding of a CNF formula
  into a request packet and the decoding of the reply, with the meaning of a formula.
\<close>

section \<open>CNF formulas\<close>

text \<open>A formula is a list of clauses of signed variable numbers, as in the DIMACS format.\<close>

type_synonym cnf = "int list list"

definition lit_holds :: "(nat \<Rightarrow> bool) \<Rightarrow> int \<Rightarrow> bool" where
  "lit_holds v l = (if l > 0 then v (nat l) else \<not> v (nat (- l)))"

definition cnf_holds :: "(nat \<Rightarrow> bool) \<Rightarrow> cnf \<Rightarrow> bool" where
  "cnf_holds v f = list_all (list_ex (lit_holds v)) f"

definition satisfiable :: "cnf \<Rightarrow> bool" where
  "satisfiable f \<longleftrightarrow> (\<exists>v. cnf_holds v f)"

text \<open>The formulas the accelerator has room for.\<close>

definition wf_cnf :: "nat \<Rightarrow> cnf \<Rightarrow> bool" where
  "wf_cnf n f \<longleftrightarrow> 1 \<le> n \<and> n \<le> 10 \<and> 1 \<le> length f \<and> length f \<le> 20 \<and>
     list_all (\<lambda>c. length c \<le> 10 \<and> list_all (\<lambda>l. l \<noteq> 0 \<and> \<bar>l\<bar> \<le> int n) c) f"

section \<open>The wire format\<close>

definition PROTO_START :: byte where [layout_simps]: "PROTO_START = 0xAA"
definition PROTO_END :: byte where [layout_simps]: "PROTO_END = 0xFF"
definition PROTO_TERM :: byte where [layout_simps]: "PROTO_TERM = 0x00"
definition RESP_SAT :: byte where [layout_simps]: "RESP_SAT = 0x01"
definition RESP_UNSAT :: byte where [layout_simps]: "RESP_UNSAT = 0x00"

definition encode_lit :: "int \<Rightarrow> byte" where
  "encode_lit l =
     (if l > 0 then word_of_int (l AND 0x7F) else word_of_int ((- l AND 0x7F) OR 0x80))"

definition encode_clause :: "int list \<Rightarrow> bytes" where
  "encode_clause c = map encode_lit c @ [PROTO_TERM]"

definition encode_packet :: "nat \<Rightarrow> cnf \<Rightarrow> bytes" where
  "encode_packet n f =
     [PROTO_START, word_of_int (int n AND 0xFF), word_of_int (int (length f) AND 0xFF)]
     @ concat (map encode_clause f) @ [PROTO_END]"

datatype sat_result =
    TIMEOUT
  | UNSAT
  | SAT "nat \<rightharpoonup> bool"
  | ERROR bytes

fun decode_assignment :: "bytes \<Rightarrow> (nat \<rightharpoonup> bool) \<Rightarrow> (nat \<rightharpoonup> bool)" where
  "decode_assignment [] m = m"
| "decode_assignment (b # bs) m =
     (if b = PROTO_END then m
      else decode_assignment bs (m(unat (b AND 0x7F) \<mapsto> bit (drop_bit 7 b) 0)))"

definition decode_response :: "bytes \<Rightarrow> sat_result" where
  "decode_response data =
     (case data of
        [] \<Rightarrow> TIMEOUT
      | b # bs \<Rightarrow>
          if b = RESP_UNSAT then UNSAT
          else if b = RESP_SAT then SAT (decode_assignment bs Map.empty)
          else ERROR data)"

text \<open>
  The receiving half of \<^verbatim>\<open>solve\<close>, over the bytes the connection delivers before it ends:
  \<^verbatim>\<open>_recv_exact\<close> returns fewer bytes only at the end of the stream.
\<close>

definition recv_exact :: "nat \<Rightarrow> bytes \<Rightarrow> bytes \<times> bytes" where
  "recv_exact n stream = (take n stream, drop n stream)"

definition solve_reply :: "nat \<Rightarrow> bytes \<Rightarrow> sat_result" where
  "solve_reply n stream =
     (case recv_exact 1 stream of
        ([], _) \<Rightarrow> TIMEOUT
      | (b # bs, rest) \<Rightarrow>
          if b = RESP_UNSAT then decode_response [b, PROTO_END]
          else if b = RESP_SAT then decode_response ((b # bs) @ fst (recv_exact (n + 1) rest))
          else ERROR [b])"

end
