(* ===== verification/Lwip_Types.thy ===== *)
theory Lwip_Types
  imports Prelude
begin

text \<open>
  Types of the lwIP raw API that the applications and the stack share: the error codes of
  \<^verbatim>\<open>lwip/err.h\<close>, and the calls a TCP callback of the application makes into the stack.
\<close>

datatype err_t =
    ERR_OK | ERR_MEM | ERR_BUF | ERR_TIMEOUT | ERR_RTE | ERR_INPROGRESS | ERR_VAL
  | ERR_WOULDBLOCK | ERR_USE | ERR_ALREADY | ERR_ISCONN | ERR_CONN | ERR_IF
  | ERR_ABRT | ERR_RST | ERR_CLSD | ERR_ARG

text \<open>
  The payloads of a pbuf chain, one byte string per pbuf; \<^verbatim>\<open>tot_len\<close> of its first pbuf is
  the number of bytes in it.
\<close>

type_synonym chain = "bytes list"

definition tot_len :: "chain \<Rightarrow> u16" where
  "tot_len p = of_nat (length (concat p))"

text \<open>
  The calls a receive callback makes on its connection and its pbuf, in program order. The
  callbacks below hand nothing but these calls to the stack, so that their effect on it is the
  sequence of their calls.
\<close>

datatype lwip_call =
    Tcp_close
  | Tcp_recved u16
  | Pbuf_free
  | Tcp_write bytes
  | Tcp_output

text \<open>
  A network interface (\<^verbatim>\<open>struct netif\<close>), without its name and the driver's state pointer. Addresses are in network
  order. A function pointer is the function it points to, among the functions of this firmware.
\<close>

datatype netif_input_fn = Null_input | Ethernet_input
datatype netif_output_fn = Netif_null_output_ip4 | Etharp_output
datatype netif_linkoutput_fn = Null_linkoutput | Low_level_output

record netif =
  nif_next :: "nat option"
  ip_addr :: u32
  netmask :: u32
  gw :: u32
  nif_input :: netif_input_fn
  nif_output :: netif_output_fn
  nif_linkoutput :: netif_linkoutput_fn
  mtu :: u16
  hwaddr :: bytes
  hwaddr_len :: u8
  netif_flags :: u8
  if_num :: u8

definition NETIF_FLAG_UP :: u8 where "NETIF_FLAG_UP = 0x01"
definition NETIF_FLAG_BROADCAST :: u8 where "NETIF_FLAG_BROADCAST = 0x02"
definition NETIF_FLAG_LINK_UP :: u8 where "NETIF_FLAG_LINK_UP = 0x04"
definition NETIF_FLAG_ETHARP :: u8 where "NETIF_FLAG_ETHARP = 0x08"
definition NETIF_FLAG_ETHERNET :: u8 where "NETIF_FLAG_ETHERNET = 0x10"

lemmas netif_flag_defs =
  NETIF_FLAG_UP_def NETIF_FLAG_BROADCAST_def NETIF_FLAG_LINK_UP_def NETIF_FLAG_ETHARP_def NETIF_FLAG_ETHERNET_def

end
