(* ===== verification/Lwip_Def.thy ===== *)
theory Lwip_Def
  imports Prelude
begin

text \<open>
  lwIP's base routines, \<^verbatim>\<open>core/def.c\<close> with the macros of \<^verbatim>\<open>lwip/def.h\<close> for a
  little-endian machine: byte order conversion and the replacements for non-standard string
  functions. A C string is the list of its characters; the byte after the last one reads as 0.
\<close>

section \<open>Byte order\<close>

definition LWIP_MAKEU32 :: "u32 \<Rightarrow> u32 \<Rightarrow> u32 \<Rightarrow> u32 \<Rightarrow> u32" where
  "LWIP_MAKEU32 a b c d =
     push_bit 24 (a AND 0xff) OR push_bit 16 (b AND 0xff) OR push_bit 8 (c AND 0xff) OR (d AND 0xff)"

definition PP_HTONS :: "u16 \<Rightarrow> u16" where
  "PP_HTONS x = push_bit 8 (x AND 0x00ff) OR drop_bit 8 (x AND 0xff00)"

definition PP_HTONL :: "u32 \<Rightarrow> u32" where
  "PP_HTONL x = push_bit 24 (x AND 0x000000ff) OR push_bit 8 (x AND 0x0000ff00) OR
     drop_bit 8 (x AND 0x00ff0000) OR drop_bit 24 (x AND 0xff000000)"

definition lwip_htons :: "u16 \<Rightarrow> u16" where
  "lwip_htons n = PP_HTONS n"

definition lwip_htonl :: "u32 \<Rightarrow> u32" where
  "lwip_htonl n = PP_HTONL n"

text \<open>The two bytes of a \<^verbatim>\<open>u16_t\<close> in memory, and the value of two bytes.\<close>

definition le16_bytes :: "u16 \<Rightarrow> bytes" where
  "le16_bytes w = [ucast w, ucast (drop_bit 8 w)]"

definition le16 :: "byte \<Rightarrow> byte \<Rightarrow> u16" where
  "le16 b0 b1 = ucast b0 OR push_bit 8 (ucast b1)"

section \<open>String functions\<close>

definition char0 :: "bytes \<Rightarrow> byte" where
  "char0 s = (case s of [] \<Rightarrow> 0 | c # _ \<Rightarrow> c)"

text \<open>The C library's \<^verbatim>\<open>strncmp\<close>.\<close>

fun strncmp :: "bytes \<Rightarrow> bytes \<Rightarrow> nat \<Rightarrow> int" where
  "strncmp s t 0 = 0"
| "strncmp s t (Suc n) =
     (if char0 s \<noteq> char0 t then uint (char0 s) - uint (char0 t)
      else if char0 s = 0 then 0 else strncmp (tl s) (tl t) n)"

fun strnstr_loop :: "nat \<Rightarrow> bytes \<Rightarrow> bytes \<Rightarrow> nat \<Rightarrow> nat option" where
  "strnstr_loop p [] token n = None"
| "strnstr_loop p (c # s) token n =
     (if c \<noteq> 0 \<and> p + length token \<le> n then
        (if c = char0 token \<and> strncmp (c # s) token (length token) = 0 then Some p
         else strnstr_loop (Suc p) s token n)
      else None)"

definition lwip_strnstr :: "bytes \<Rightarrow> bytes \<Rightarrow> nat \<Rightarrow> nat option" where
  "lwip_strnstr buffer token n =
     (if length token = 0 then Some 0 else strnstr_loop 0 buffer token n)"

text \<open>The comparison of two characters inside both loops: whether they differ beyond case.\<close>

definition chars_differ :: "byte \<Rightarrow> byte \<Rightarrow> bool" where
  "chars_differ c1 c2 \<longleftrightarrow>
     c1 \<noteq> c2 \<and>
     (let c1_upc = c1 OR 0x20
      in if 0x61 \<le> c1_upc \<and> c1_upc \<le> 0x7a then (let c2_upc = c2 OR 0x20 in c1_upc \<noteq> c2_upc) else True)"

fun lwip_stricmp :: "bytes \<Rightarrow> bytes \<Rightarrow> int" where
  "lwip_stricmp [] str2 = (if chars_differ 0 (char0 str2) then 1 else 0)"
| "lwip_stricmp (c1 # str1) str2 =
     (if chars_differ c1 (char0 str2) then 1
      else if c1 \<noteq> 0 then lwip_stricmp str1 (tl str2) else 0)"

text \<open>\<^verbatim>\<open>len\<close> is decremented before it is tested, so a length of 0 wraps around.\<close>

fun lwip_strnicmp :: "bytes \<Rightarrow> bytes \<Rightarrow> u32 \<Rightarrow> int" where
  "lwip_strnicmp [] str2 len = (if chars_differ 0 (char0 str2) then 1 else 0)"
| "lwip_strnicmp (c1 # str1) str2 len =
     (if chars_differ c1 (char0 str2) then 1
      else if len - 1 \<noteq> 0 \<and> c1 \<noteq> 0 then lwip_strnicmp str1 (tl str2) (len - 1) else 0)"

section \<open>Integer to string\<close>

text \<open>
  \<open>result\<close> is the output array, all \<^verbatim>\<open>bufsize\<close> bytes of it; \<open>res\<close> and \<open>tmp\<close> are offsets
  into it. (For \<^verbatim>\<open>INT_MIN\<close> the source negates out of range; \<open>number\<close> here is any integer.)
\<close>

function itoa_digits :: "nat \<Rightarrow> nat \<Rightarrow> nat \<Rightarrow> bytes \<Rightarrow> nat \<times> nat \<times> bytes" where
  "itoa_digits res n tmp result =
     (if n \<noteq> 0 \<and> tmp > res
      then itoa_digits res (n div 10) (tmp - 1) (result[tmp - 1 := of_nat (48 + n mod 10)])
      else (n, tmp, result))"
  by auto
termination by (relation "measure (\<lambda>(res, n, tmp, result). tmp)") auto

definition memmove :: "nat \<Rightarrow> nat \<Rightarrow> nat \<Rightarrow> bytes \<Rightarrow> bytes" where
  "memmove dst src n b = take dst b @ take n (drop src b) @ drop (dst + n) b"

definition lwip_itoa :: "bytes \<Rightarrow> int \<Rightarrow> bytes" where
  "lwip_itoa result number =
     (let bufsize = length result; n = nat \<bar>number\<bar>
      in if bufsize < 2 then (if bufsize = 1 then result[0 := 0] else result)
         else
           (let (res, r1) = (if number < 0 then (1, result[0 := 0x2d]) else (0, result));
                r2 = r1[bufsize - 1 := 0];
                (n', tmp, r3) = itoa_digits res n (bufsize - 1) r2
            in if n' \<noteq> 0 then r3[0 := 0]
               else if r3 ! tmp = 0 then r3[res := 0x30, Suc res := 0]
               else memmove res tmp (bufsize - tmp) r3))"

text \<open>The decimal digits of a number, most significant first.\<close>

fun decimal :: "nat \<Rightarrow> bytes" where
  "decimal n = (if n < 10 then [of_nat (48 + n)] else decimal (n div 10) @ [of_nat (48 + n mod 10)])"

definition decimal_int :: "int \<Rightarrow> bytes" where
  "decimal_int i = (if i < 0 then [0x2d] else []) @ decimal (nat \<bar>i\<bar>)"

text \<open>ASCII lower case.\<close>

definition lower :: "byte \<Rightarrow> byte" where
  "lower c = (if 0x41 \<le> c \<and> c \<le> 0x5a then c + 0x20 else c)"

declare itoa_digits.simps [simp del] decimal.simps [simp del]

section \<open>Byte order: lemmas\<close>

lemma htons_bytes: "le16_bytes (lwip_htons w) = rev (le16_bytes w)"
  by (auto simp: le16_bytes_def lwip_htons_def PP_HTONS_def bit_simps bit_byte_masks intro!: bit_word_eqI)

lemma htons_htons [simp]: "lwip_htons (lwip_htons w) = w"
  by (rule bit_word_eqI) (auto simp: lwip_htons_def PP_HTONS_def bit_simps bit_byte_masks)

lemma htonl_bytes: "le_bytes (lwip_htonl w) = rev (le_bytes w)"
proof -
  have u: "[0..<4] = [0, 1, 2, 3 :: nat]" by (simp add: upt_rec)
  show ?thesis unfolding le_bytes_def u
    by (auto simp: lwip_htonl_def PP_HTONL_def bit_simps bit_byte_masks intro!: bit_word_eqI)
qed

lemma htonl_htonl [simp]: "lwip_htonl (lwip_htonl w) = w"
  using htonl_bytes [of w] htonl_bytes [of "lwip_htonl w"] by (simp add: le_bytes_inject)

lemma le16_bytes_le16 [simp]: "le16_bytes (le16 a b) = [a, b]"
  by (auto simp: le16_bytes_def le16_def bit_simps dest: bit_imp_le_length intro!: bit_word_eqI)

lemma unat_le16: "unat (le16 a b) = unat a + 256 * unat b"
proof -
  have b: "unat (ucast b :: u16) = unat b" "unat (ucast a :: u16) = unat a" "unat b < 256" "unat a < 256"
    using unat_less_exp [of a] unat_less_exp [of b] by (simp_all add: unat_ucast_widen)
  then have p: "unat (push_bit 8 (ucast b :: u16)) = unat b * 256" by (simp add: unat_push_bit)
  have "(ucast a :: u16) AND push_bit 8 (ucast b) = 0"
    by (rule bit_word_eqI) (auto simp: bit_simps)
  then show ?thesis unfolding le16_def using b p by (simp add: unat_or_disjoint)
qed

lemma le16_le16_bytes: "le16 (ucast w) (ucast (drop_bit 8 w)) = w" for w :: u16
  by (rule bit_word_eqI) (auto simp: le16_def bit_simps)

lemma unat_htons: "unat (lwip_htons w) = 256 * (unat w mod 256) + unat w div 256"
proof -
  have "unat (lwip_htons w) = unat (le16 (ucast (drop_bit 8 w)) (ucast w))"
    using htons_bytes [of w] le16_le16_bytes [of "lwip_htons w"] by (simp add: le16_bytes_def)
  also have "\<dots> = unat w div 256 + 256 * (unat w mod 256)"
    using unat_less_exp [of w] by (simp add: unat_le16 unsigned_ucast_eq take_bit_eq_mod unat_drop_bit)
  finally show ?thesis by simp
qed

section \<open>String functions: lemmas\<close>

text \<open>\<open>token\<close> occurs in \<open>s\<close> at offset \<open>i\<close>.\<close>

definition occurs_at :: "bytes \<Rightarrow> bytes \<Rightarrow> nat \<Rightarrow> bool" where
  "occurs_at token s i \<longleftrightarrow> take (length token) (drop i s) = token"

text \<open>The characters of the C string in a buffer: those before the first 0.\<close>

definition cstr :: "bytes \<Rightarrow> bytes" where
  "cstr b = takeWhile (\<lambda>c. c \<noteq> 0) b"

lemma char0_simps [simp]: "char0 [] = 0" "char0 (c # s) = c"
  by (simp_all add: char0_def)

lemma strncmp_token: "0 \<notin> set t \<Longrightarrow> strncmp s t (length t) = 0 \<longleftrightarrow> take (length t) s = t"
proof (induction t arbitrary: s)
  case (Cons c t)
  then show ?case by (cases s) (auto simp: unsigned_eq_0_iff dest: unsigned_word_eqI)
qed simp

lemma strnstr_loop_finds:
  assumes "0 \<notin> set s" "0 \<notin> set token" "token \<noteq> []"
  shows "strnstr_loop p s token n = Some i \<longleftrightarrow>
    (\<exists>j. i = p + j \<and> i + length token \<le> n \<and> occurs_at token s j \<and> (\<forall>k<j. \<not> occurs_at token s k))"
  using assms(1)
proof (induction s arbitrary: p)
  case Nil
  then show ?case using assms(3) by (auto simp: occurs_at_def)
next
  case (Cons c s)
  have h: "c = char0 token \<and> strncmp (c # s) token (length token) = 0 \<longleftrightarrow> occurs_at token (c # s) 0"
    using assms(3) unfolding strncmp_token [OF assms(2)] by (cases token) (auto simp: occurs_at_def)
  have o: "occurs_at token (c # s) (Suc j) = occurs_at token s j" for j by (simp add: occurs_at_def)
  have all: "(\<forall>k<Suc j. P k) \<longleftrightarrow> P 0 \<and> (\<forall>k<j. P (Suc k))" for P and j :: nat
    using less_Suc_eq_0_disj by auto
  have c: "c \<noteq> 0" "0 \<notin> set s" using Cons.prems by auto
  have eq: "strnstr_loop p (c # s) token n =
      (if p + length token \<le> n then
         (if occurs_at token (c # s) 0 then Some p else strnstr_loop (Suc p) s token n) else None)"
    using c(1) by (simp only: strnstr_loop.simps h) simp
  show ?case
  proof (cases "p + length token \<le> n \<and> \<not> occurs_at token (c # s) 0")
    case True
    then have "strnstr_loop p (c # s) token n = strnstr_loop (Suc p) s token n"
      unfolding eq by simp
    moreover have "(\<exists>j. i = p + j \<and> i + length token \<le> n \<and> occurs_at token (c # s) j \<and>
        (\<forall>k<j. \<not> occurs_at token (c # s) k)) \<longleftrightarrow>
      (\<exists>j. i = Suc p + j \<and> i + length token \<le> n \<and> occurs_at token s j \<and> (\<forall>k<j. \<not> occurs_at token s k))"
      (is "(\<exists>j. ?P j) \<longleftrightarrow> (\<exists>j. ?Q j)")
    proof -
      have PQ: "?P (Suc j) = ?Q j" for j using True by (simp add: o all)
      have P0: "\<not> ?P 0" using True by simp
      show ?thesis
      proof
        assume "\<exists>j. ?P j"
        then obtain j where "?P j" ..
        then show "\<exists>j. ?Q j" using P0 PQ by (cases j) (auto simp only:)
      qed (use PQ in blast)
    qed
    ultimately show ?thesis using Cons.IH [OF c(2), of "Suc p"] by simp
  next
    case False
    then show ?thesis unfolding eq by (auto; metis gr0I)
  qed
qed

lemma strnstr_some:
  assumes "0 \<notin> set buf" "0 \<notin> set token" "token \<noteq> []"
  shows "lwip_strnstr buf token n = Some i \<longleftrightarrow>
      i + length token \<le> n \<and> occurs_at token buf i \<and> (\<forall>k<i. \<not> occurs_at token buf k)"
  using assms strnstr_loop_finds [OF assms, of 0 n i] by (simp add: lwip_strnstr_def)

lemma strnstr_none:
  assumes "0 \<notin> set buf" "0 \<notin> set token" "token \<noteq> []"
  shows "lwip_strnstr buf token n = None \<longleftrightarrow> (\<forall>i. i + length token \<le> n \<longrightarrow> \<not> occurs_at token buf i)"
proof
  assume "lwip_strnstr buf token n = None"
  then have no: "\<not> (i + length token \<le> n \<and> occurs_at token buf i \<and> (\<forall>k<i. \<not> occurs_at token buf k))" for i
    using strnstr_some [OF assms, of n i] by simp
  have "i + length token \<le> n \<longrightarrow> \<not> occurs_at token buf i" for i
    by (induction i rule: less_induct) (use no in \<open>meson add_le_mono1 less_or_eq_imp_le order_trans\<close>)
  then show "\<forall>i. i + length token \<le> n \<longrightarrow> \<not> occurs_at token buf i" ..
qed (use strnstr_some [OF assms] in \<open>cases "lwip_strnstr buf token n"; auto\<close>)

lemma unat_or_32: "unat (c OR 0x20) = (if odd (unat c div 32) then unat c else unat c + 32)" for c :: byte
proof -
  have b: "bit c 5 \<longleftrightarrow> odd (unat c div 32)" using bit_unsigned_iff [of c 5] by (auto simp: bit_iff_odd dest: bit_imp_le_length)
  have t: "(0x20 :: int) = push_bit 5 1" by (simp add: push_bit_eq_mult)
  have i: "bit (0x20 :: int) n \<longleftrightarrow> n = 5" for n unfolding t bit_push_bit_iff by (auto simp: bit_1_iff)
  show ?thesis
  proof (cases "bit c 5")
    case True
    then have "c OR 0x20 = c" by (intro bit_word_eqI) (auto simp: bit_or_iff i)
    then show ?thesis using True b by simp
  next
    case False
    then have d: "c AND 0x20 = 0" by (intro bit_word_eqI) (auto simp: bit_and_iff i)
    have "unat c div 32 \<noteq> 7" "unat c < 256" using False b unat_less_exp [of c] by auto
    then have "unat c < 224" by linarith
    then show ?thesis using unat_or_disjoint [OF d] False b by simp
  qed
qed

lemma unat_lower: "unat (lower c) = (if 65 \<le> unat c \<and> unat c \<le> 90 then unat c + 32 else unat c)"
  by (auto simp: lower_def word_le_nat_alt unat_word_ariths)

lemma letter_cases:
  "0x61 \<le> c OR 0x20 \<and> c OR 0x20 \<le> 0x7a \<longleftrightarrow> 0x61 \<le> lower c \<and> lower c \<le> 0x7a"
  "(if 0x61 \<le> lower c \<and> lower c \<le> 0x7a then c OR 0x20 else c) = lower c" for c :: byte
proof -
  let ?u = "unat c"
  have u: "?u < 64 \<or> 64 \<le> ?u \<and> ?u < 96 \<and> ?u div 32 = 2 \<or> 96 \<le> ?u \<and> ?u < 128 \<and> ?u div 32 = 3 \<or> 128 \<le> ?u"
    by linarith
  have "97 \<le> unat (c OR 0x20) \<and> unat (c OR 0x20) \<le> 122 \<longleftrightarrow> 97 \<le> unat (lower c) \<and> unat (lower c) \<le> 122"
    using u unfolding unat_or_32 unat_lower by (elim disjE; simp)
  moreover have "97 \<le> unat (lower c) \<and> unat (lower c) \<le> 122 \<Longrightarrow> unat (c OR 0x20) = unat (lower c)"
    using u unfolding unat_or_32 unat_lower by (elim disjE; simp split: if_splits)
  moreover have "\<not> (97 \<le> unat (lower c) \<and> unat (lower c) \<le> 122) \<Longrightarrow> unat c = unat (lower c)"
    unfolding unat_lower by (simp split: if_splits)
  ultimately show "0x61 \<le> c OR 0x20 \<and> c OR 0x20 \<le> 0x7a \<longleftrightarrow> 0x61 \<le> lower c \<and> lower c \<le> 0x7a"
    "(if 0x61 \<le> lower c \<and> lower c \<le> 0x7a then c OR 0x20 else c) = lower c"
    by (simp_all add: word_le_nat_alt word_unat_eq_iff)
qed

lemma chars_differ_lower: "chars_differ c d \<longleftrightarrow> lower c \<noteq> lower d"
  using letter_cases [of c] letter_cases [of d] unfolding chars_differ_def Let_def
  by (auto split: if_splits)

lemma lower_0 [simp]: "lower c = 0 \<longleftrightarrow> c = 0" "0 = lower c \<longleftrightarrow> c = 0" "lower 0 = 0"
  by (auto simp: word_unat_eq_iff unat_lower)

lemma stricmp_lower:
  "0 \<notin> set s \<Longrightarrow> 0 \<notin> set t \<Longrightarrow> lwip_stricmp s t = (if map lower s = map lower t then 0 else 1)"
proof (induction s t rule: lwip_stricmp.induct)
  case (1 t)
  then show ?case by (cases t) (auto simp: chars_differ_lower)
next
  case (2 c s t)
  with 2 show ?case by (cases t) (auto simp: chars_differ_lower)
qed

lemma strnicmp_lower:
  "0 \<notin> set s \<Longrightarrow> 0 \<notin> set t \<Longrightarrow> n \<noteq> 0 \<Longrightarrow>
   lwip_strnicmp s t n = (if map lower (take (unat n) s) = map lower (take (unat n) t) then 0 else 1)"
proof (induction s t n rule: lwip_strnicmp.induct)
  case (1 t n)
  then obtain k where "unat n = Suc k" by (metis not0_implies_Suc unat_eq_zero)
  with 1 show ?case by (cases t) (auto simp: chars_differ_lower)
next
  case (2 c s t n)
  then obtain k where k: "unat n = Suc k" by (metis not0_implies_Suc unat_eq_zero)
  with "2.prems"(3) have m: "unat (n - 1) = k" by (simp add: unat_minus_one)
  have z: "n - 1 = 0 \<longleftrightarrow> k = 0" using m by (auto simp: unat_eq_zero)
  show ?case
  proof (cases t)
    case Nil
    with 2 k z show ?thesis by (auto simp: chars_differ_lower)
  next
    case (Cons d u)
    with 2 k m z show ?thesis by (auto simp: chars_differ_lower)
  qed
qed

section \<open>Integer to string: lemmas\<close>

definition digits :: "nat \<Rightarrow> bytes" where
  "digits n = (if n = 0 then [] else decimal n)"

lemma digits_step: "n \<noteq> 0 \<Longrightarrow> digits n = digits (n div 10) @ [of_nat (48 + n mod 10)]"
  using decimal.simps [of n] by (auto simp: digits_def)

lemma digit_nonzero: "k < 10 \<Longrightarrow> (of_nat (48 + k) :: byte) \<noteq> 0"
proof
  assume "k < 10" "(of_nat (48 + k) :: byte) = 0"
  then have "unat (of_nat (48 + k) :: byte) = 48 + k" by (intro unat_of_nat_small) simp
  with \<open>of_nat (48 + k) = 0\<close> show False by simp
qed

lemma decimal_nonzero: "0 \<notin> set (decimal n)"
proof (induction n rule: decimal.induct)
  case (1 n)
  show ?case
    using 1 digit_nonzero [of n] digit_nonzero [of "n mod 10"] by (subst decimal.simps) (auto dest: sym)
qed

lemma decimal_not_Nil: "decimal n \<noteq> []"
  by (subst decimal.simps) simp

lemma itoa_digits_inv:
  assumes "itoa_digits res n tmp r = (n', tmp', r')" "res \<le> tmp" "tmp < length r"
  shows "length r' = length r \<and> take res r' = take res r \<and> res \<le> tmp' \<and> tmp' < length r \<and>
    digits n @ drop tmp r = digits n' @ drop tmp' r' \<and> (n' = 0 \<or> tmp' = res)"
  using assms
proof (induction res n tmp r rule: itoa_digits.induct)
  case (1 res n tmp r)
  show ?case
  proof (cases "n \<noteq> 0 \<and> tmp > res")
    case True
    let ?r = "r[tmp - 1 := of_nat (48 + n mod 10)]"
    have "itoa_digits res (n div 10) (tmp - 1) ?r = (n', tmp', r')"
      using "1.prems"(1) True by (subst (asm) itoa_digits.simps) simp
    with 1 True have ih: "length r' = length r" "take res r' = take res ?r" "res \<le> tmp'" "tmp' < length r"
      "digits (n div 10) @ drop (tmp - 1) ?r = digits n' @ drop tmp' r'" "n' = 0 \<or> tmp' = res"
      by auto
    have "drop (tmp - 1) ?r = of_nat (48 + n mod 10) # drop tmp r"
      using True "1.prems"(3) by (subst Cons_nth_drop_Suc [symmetric]) (auto simp: drop_update_cancel)
    moreover have "take res ?r = take res r" using True by (intro take_update_cancel) linarith
    ultimately show ?thesis using ih True by (simp add: digits_step)
  next
    case False
    then show ?thesis using 1 by (subst (asm) itoa_digits.simps) auto
  qed
qed

lemma cstr_append_0: "0 \<notin> set s \<Longrightarrow> cstr (s @ 0 # t) = s"
  by (induction s) (auto simp: cstr_def)

lemma itoa_cstr:
  "cstr (lwip_itoa r i) = (if length (decimal_int i) < length r then decimal_int i else [])"
proof (cases "length r < 2")
  case True
  then consider "r = []" | a where "r = [a]" by (cases r; cases "tl r") auto
  then show ?thesis
    by cases (auto simp: lwip_itoa_def cstr_def decimal_int_def decimal_not_Nil)
next
  case False
  define res r1 where "res = (if i < 0 then 1 else 0 :: nat)" and "r1 = (if i < 0 then r[0 := 0x2d] else r)"
  define sign where "sign = (if i < 0 then [0x2d] else [] :: bytes)"
  define n where "n = nat \<bar>i\<bar>"
  obtain n' tmp r3 where d: "itoa_digits res n (length r - 1) (r1[length r - 1 := 0]) = (n', tmp, r3)"
    by (metis prod_cases3)
  have len: "length r1 = length r" by (simp add: r1_def)
  have tk: "take res (r1[length r - 1 := 0]) = sign" "length sign = res" "0 \<notin> set sign"
    using False by (cases r; auto simp: r1_def res_def sign_def split: nat.splits)+
  have dr: "drop (length r - 1) (r1[length r - 1 := 0]) = [0]"
    using False len by (subst Cons_nth_drop_Suc [symmetric]) auto
  have p: "res \<le> length r - 1" "length r - 1 < length (r1[length r - 1 := 0])"
    using False len by (auto simp: res_def)
  have inv: "length r3 = length r" "take res r3 = sign"
    "res \<le> tmp" "tmp < length r" "digits n @ [0] = digits n' @ drop tmp r3" "n' = 0 \<or> tmp = res"
    using itoa_digits_inv [OF d p] unfolding tk(1) dr by (simp_all add: len)
  have it: "lwip_itoa r i = (if n' \<noteq> 0 then r3[0 := 0] else if r3 ! tmp = 0 then r3[res := 0x30, Suc res := 0]
      else memmove res tmp (length r - tmp) r3)"
    using False d by (simp add: lwip_itoa_def Let_def n_def [symmetric] res_def r1_def split_beta split: if_splits)
  show ?thesis
  proof (cases "n' = 0")
    case True
    then have dt: "drop tmp r3 = digits n @ [0]" using inv by (simp add: digits_def)
    show ?thesis
    proof (cases "n = 0")
      case True
      then have "i = 0" by (simp add: n_def)
      obtain a b t where "r3 = a # b # t" using False inv(1) by (cases r3; cases "tl r3") auto
      moreover have "r3 ! tmp = 0" using dt True inv(1,4) by (simp add: digits_def flip: Cons_nth_drop_Suc)
      moreover have "decimal 0 = [0x30]" by (simp add: decimal.simps)
      ultimately show ?thesis using it \<open>n' = 0\<close> \<open>i = 0\<close> False
        by (simp add: res_def cstr_def decimal_int_def)
    next
      case n: False
      then have dg: "digits n = decimal n" by (simp add: digits_def)
      have "r3 ! tmp = hd (drop tmp r3)" using inv by (simp add: hd_drop_conv_nth)
      also have "\<dots> = hd (decimal n)" using dt dg decimal_not_Nil by simp
      finally have "r3 ! tmp \<noteq> 0" using decimal_nonzero [of n] decimal_not_Nil [of n] by (metis hd_in_set)
      then have "lwip_itoa r i = sign @ take (length r - tmp) (drop tmp r3) @ drop (res + (length r - tmp)) r3"
        using it True inv(2) by (simp add: memmove_def)
      moreover have "take (length r - tmp) (drop tmp r3) = drop tmp r3" using inv(1) by simp
      ultimately have "lwip_itoa r i = sign @ decimal n @ 0 # drop (res + (length r - tmp)) r3"
        using dt dg by simp
      moreover have "length (decimal n) + 1 = length r - tmp"
        using dt dg inv(1) by (metis length_append_singleton length_drop Suc_eq_plus1)
      then have "length (decimal_int i) < length r"
        using inv(3,4) tk(2) by (simp add: decimal_int_def sign_def [symmetric] n_def [symmetric])
      ultimately show ?thesis
        using cstr_append_0 [of "sign @ decimal n"] tk(3) decimal_nonzero [of n]
        by (simp add: decimal_int_def sign_def n_def)
    qed
  next
    case False
    then have "length (digits n) + 1 = length (digits n') + (length r - res)"
      using inv by (metis length_append length_drop length_append_singleton Suc_eq_plus1)
    moreover have "digits n' \<noteq> []" using False by (simp add: digits_def decimal_not_Nil)
    moreover have "length (digits n) \<le> length (decimal n)" by (simp add: digits_def)
    moreover have "length (decimal_int i) = res + length (decimal n)"
      by (simp add: decimal_int_def res_def n_def)
    ultimately have "\<not> length (decimal_int i) < length r"
      using inv(3,4) length_greater_0_conv [of "digits n'"] by linarith
    moreover have "cstr (lwip_itoa r i) = []" using it False inv(1) \<open>\<not> length r < 2\<close>
      by (cases r3) (auto simp: cstr_def)
    ultimately show ?thesis by simp
  qed
qed

section \<open>Claims\<close>

text \<open>
  \<^verbatim>\<open>lwip_htons\<close> and \<^verbatim>\<open>lwip_htonl\<close> convert between host and network order: stored on the
  little-endian machine, the converted value has the bytes of the original in reverse, that is most
  significant byte first, and converting twice gives the value back.
\<close>

lemma byte_order:
  "le16_bytes (lwip_htons h) = rev (le16_bytes h) \<and> le_bytes (lwip_htonl w) = rev (le_bytes w) \<and>
   lwip_htons (lwip_htons h) = h \<and> lwip_htonl (lwip_htonl w) = w"
  by (simp add: htons_bytes htonl_bytes)

text \<open>
  \<^verbatim>\<open>lwip_itoa\<close> writes the decimal representation of the number, with its sign, as a C string when
  it fits the buffer including the terminating 0, and the empty string otherwise; it keeps the buffer's size.
\<close>

lemma lwip_itoa_decimal:
  "cstr (lwip_itoa buf number) =
     (if length (decimal_int number) < length buf then decimal_int number else [])"
  by (rule itoa_cstr)

text \<open>
  \<^verbatim>\<open>lwip_strnstr\<close> returns the first position where the token occurs entirely within the first
  \<open>n\<close> characters, and nothing when there is none.
\<close>

lemma lwip_strnstr_first:
  assumes "0 \<notin> set buf" "0 \<notin> set token" "token \<noteq> []"
  shows "(lwip_strnstr buf token n = Some i \<longleftrightarrow>
      i + length token \<le> n \<and> occurs_at token buf i \<and> (\<forall>k<i. \<not> occurs_at token buf k)) \<and>
    (lwip_strnstr buf token n = None \<longleftrightarrow> (\<forall>j. j + length token \<le> n \<longrightarrow> \<not> occurs_at token buf j))"
  using strnstr_some [OF assms] strnstr_none [OF assms] by blast

text \<open>
  \<^verbatim>\<open>lwip_stricmp\<close> and, for a positive length, \<^verbatim>\<open>lwip_strnicmp\<close> return 0 exactly when the
  strings (their first \<open>n\<close> characters) agree up to the case of ASCII letters, and 1 otherwise.
\<close>

lemma lwip_stricmp_case_insensitive:
  assumes "0 \<notin> set s" "0 \<notin> set t" "n \<noteq> 0"
  shows "lwip_stricmp s t = (if map lower s = map lower t then 0 else 1) \<and>
    lwip_strnicmp s t n = (if map lower (take (unat n) s) = map lower (take (unat n) t) then 0 else 1)"
  using stricmp_lower [OF assms(1,2)] strnicmp_lower [OF assms] by blast

end
