(* ===== verification/Inet_Chksum.thy ===== *)
theory Inet_Chksum
  imports Lwip_Def
begin

text \<open>
  The Internet checksum, \<^verbatim>\<open>core/inet_chksum.c\<close>: the three implementations of
  \<^verbatim>\<open>lwip_standard_chksum\<close> (the build selects the second, \<^verbatim>\<open>LWIP_CHKSUM_ALGORITHM\<close> is 2
  by default), and the checksums over memory, pbuf chains and pseudo headers built on it. They are
  compared with the definition of RFC 1071. A buffer is its address and its bytes.
\<close>

section \<open>The checksum routines\<close>

definition SWAP_BYTES_IN_WORD :: "u32 \<Rightarrow> u32" where
  "SWAP_BYTES_IN_WORD w = push_bit 8 (w AND 0xff) OR drop_bit 8 (w AND 0xff00)"

definition FOLD_U32T :: "u32 \<Rightarrow> u32" where
  "FOLD_U32T u = drop_bit 16 u + (u AND 0x0000ffff)"

text \<open>The three bulk loops; each returns the sum and the bytes that are left.\<close>

fun sum_be :: "bytes \<Rightarrow> u32 \<Rightarrow> u32 \<times> bytes" where
  "sum_be (a # b # bs) acc = sum_be bs (acc + ucast (push_bit 8 (ucast a) OR ucast b :: u16))"
| "sum_be bs acc = (acc, bs)"

fun sum_le :: "bytes \<Rightarrow> u32 \<Rightarrow> u32 \<times> bytes" where
  "sum_le (a # b # bs) s = sum_le bs (s + ucast (le16 a b))"
| "sum_le bs s = (s, bs)"

definition add_carry :: "u32 \<Rightarrow> u32 \<Rightarrow> u32" where
  "add_carry s w = (let tmp = s + w in if tmp < s then tmp + 1 else tmp)"

fun sum_unrolled :: "bytes \<Rightarrow> u32 \<Rightarrow> u32 \<times> bytes" where
  "sum_unrolled (a # b # c # d # e # f # g # h # bs) s =
     sum_unrolled bs (add_carry (add_carry s (le_word [a, b, c, d])) (le_word [e, f, g, h]))"
| "sum_unrolled bs s = (s, bs)"

definition lwip_standard_chksum_1 :: "bytes \<Rightarrow> u16" where
  "lwip_standard_chksum_1 data =
     (let (acc, rest) = sum_be data 0;
          acc = (case rest of [] \<Rightarrow> acc | c # _ \<Rightarrow> acc + ucast (push_bit 8 (ucast c :: u16)));
          acc = drop_bit 16 acc + (acc AND 0x0000ffff);
          acc = (if acc AND 0xffff0000 \<noteq> 0 then drop_bit 16 acc + (acc AND 0x0000ffff) else acc)
      in lwip_htons (ucast acc))"

text \<open>The bytes in front of and behind the aligned bulk go to the high and low byte of \<open>t\<close>.\<close>

definition lead_byte :: "bool \<Rightarrow> bytes \<Rightarrow> u16 \<times> bytes" where
  "lead_byte is_odd data =
     (case data of
        b # pb \<Rightarrow> (if is_odd then (push_bit 8 (ucast b), pb) else (0, data))
      | [] \<Rightarrow> (0, []))"

definition tail_byte :: "u16 \<Rightarrow> bytes \<Rightarrow> u16" where
  "tail_byte t rest = (case rest of [] \<Rightarrow> t | c # _ \<Rightarrow> (t AND 0xff00) OR ucast c)"

definition lwip_standard_chksum :: "u32 \<Rightarrow> bytes \<Rightarrow> u16" where
  "lwip_standard_chksum dataptr data =
     (let is_odd = (dataptr AND 1 \<noteq> 0);
          (t, pb) = lead_byte is_odd data;
          (s, rest) = sum_le pb 0;
          t = tail_byte t rest;
          s = s + ucast t;
          s = FOLD_U32T s;
          s = FOLD_U32T s;
          s = (if is_odd then SWAP_BYTES_IN_WORD s else s)
      in ucast s)"

definition lwip_standard_chksum_3 :: "u32 \<Rightarrow> bytes \<Rightarrow> u16" where
  "lwip_standard_chksum_3 dataptr data =
     (let is_odd = (dataptr AND 1 \<noteq> 0);
          (t, ps) = lead_byte is_odd data;
          ptr = (if is_odd \<and> data \<noteq> [] then dataptr + 1 else dataptr);
          (s, pl) =
            (case ps of
               a # b # pl \<Rightarrow> (if ptr AND 3 \<noteq> 0 then (ucast (le16 a b), pl) else (0, ps))
             | _ \<Rightarrow> (0, ps));
          (s, ps) = sum_unrolled pl s;
          s = FOLD_U32T s;
          (s, rest) = sum_le ps s;
          t = tail_byte t rest;
          s = s + ucast t;
          s = FOLD_U32T s;
          s = FOLD_U32T s;
          s = (if is_odd then SWAP_BYTES_IN_WORD s else s)
      in ucast s)"

definition inet_chksum :: "u32 \<Rightarrow> bytes \<Rightarrow> u16" where
  "inet_chksum dataptr data = NOT (lwip_standard_chksum dataptr data)"

section \<open>Checksums over pbuf chains\<close>

type_synonym segment = "u32 \<times> bytes"

text \<open>The loop over the chain: accumulator and \<open>swapped\<close> flag.\<close>

fun chksum_chain :: "segment list \<Rightarrow> bool \<Rightarrow> u32 \<Rightarrow> bool \<times> u32" where
  "chksum_chain [] swapped acc = (swapped, acc)"
| "chksum_chain ((payload, data) # q) swapped acc =
     (let acc = FOLD_U32T (acc + ucast (lwip_standard_chksum payload data))
      in if length data mod 2 \<noteq> 0 then chksum_chain q (\<not> swapped) (SWAP_BYTES_IN_WORD acc)
         else chksum_chain q swapped acc)"

definition inet_chksum_pbuf :: "segment list \<Rightarrow> u16" where
  "inet_chksum_pbuf p =
     (let (swapped, acc) = chksum_chain p False 0;
          acc = (if swapped then SWAP_BYTES_IN_WORD acc else acc)
      in ucast (NOT (acc AND 0xffff)))"

definition inet_cksum_pseudo_base :: "segment list \<Rightarrow> u8 \<Rightarrow> u16 \<Rightarrow> u32 \<Rightarrow> u16" where
  "inet_cksum_pseudo_base p proto proto_len acc =
     (let (swapped, acc) = chksum_chain p False acc;
          acc = (if swapped then SWAP_BYTES_IN_WORD acc else acc);
          acc = acc + ucast (lwip_htons (ucast proto));
          acc = acc + ucast (lwip_htons proto_len);
          acc = FOLD_U32T acc;
          acc = FOLD_U32T acc
      in ucast (NOT (acc AND 0xffff)))"

text \<open>The sum of the two addresses, folded (the first half of both pseudo checksums).\<close>

definition addr_sum :: "u32 \<Rightarrow> u32 \<Rightarrow> u32" where
  "addr_sum src dest =
     (let acc = (src AND 0xffff);
          acc = acc + (drop_bit 16 src AND 0xffff);
          acc = acc + (dest AND 0xffff);
          acc = acc + (drop_bit 16 dest AND 0xffff);
          acc = FOLD_U32T acc
      in FOLD_U32T acc)"

definition inet_chksum_pseudo :: "segment list \<Rightarrow> u8 \<Rightarrow> u16 \<Rightarrow> u32 \<Rightarrow> u32 \<Rightarrow> u16" where
  "inet_chksum_pseudo p proto proto_len src dest =
     inet_cksum_pseudo_base p proto proto_len (addr_sum src dest)"

definition ip_chksum_pseudo :: "segment list \<Rightarrow> u8 \<Rightarrow> u16 \<Rightarrow> u32 \<Rightarrow> u32 \<Rightarrow> u16" where
  "ip_chksum_pseudo p proto proto_len src dest = inet_chksum_pseudo p proto proto_len src dest"

text \<open>
  The partial variants sum the first \<open>chksum_len\<close> bytes of the chain. The assertion in the loop is
  a failure, \<open>None\<close>, since a failed assertion stops the firmware.
\<close>

fun chksum_chain_partial :: "segment list \<Rightarrow> u16 \<Rightarrow> bool \<Rightarrow> u32 \<Rightarrow> (bool \<times> u32) option" where
  "chksum_chain_partial [] chksum_len swapped acc = Some (swapped, acc)"
| "chksum_chain_partial ((payload, data) # q) chksum_len swapped acc =
     (if chksum_len = 0 then Some (swapped, acc)
      else
        (let chklen = (if (of_nat (length data) :: u16) > chksum_len then chksum_len else of_nat (length data));
             acc = acc + ucast (lwip_standard_chksum payload (take (unat chklen) data));
             chksum_len = chksum_len - chklen
         in if \<not> chksum_len < 0x7fff then None
            else
              (let acc = FOLD_U32T acc
               in if length data mod 2 \<noteq> 0
                  then chksum_chain_partial q chksum_len (\<not> swapped) (SWAP_BYTES_IN_WORD acc)
                  else chksum_chain_partial q chksum_len swapped acc)))"

definition inet_cksum_pseudo_partial_base ::
  "segment list \<Rightarrow> u8 \<Rightarrow> u16 \<Rightarrow> u16 \<Rightarrow> u32 \<Rightarrow> u16 option" where
  "inet_cksum_pseudo_partial_base p proto proto_len chksum_len acc =
     (case chksum_chain_partial p chksum_len False acc of
        None \<Rightarrow> None
      | Some (swapped, acc) \<Rightarrow>
          (let acc = (if swapped then SWAP_BYTES_IN_WORD acc else acc);
               acc = acc + ucast (lwip_htons (ucast proto));
               acc = acc + ucast (lwip_htons proto_len);
               acc = FOLD_U32T acc;
               acc = FOLD_U32T acc
           in Some (ucast (NOT (acc AND 0xffff)))))"

definition inet_chksum_pseudo_partial ::
  "segment list \<Rightarrow> u8 \<Rightarrow> u16 \<Rightarrow> u16 \<Rightarrow> u32 \<Rightarrow> u32 \<Rightarrow> u16 option" where
  "inet_chksum_pseudo_partial p proto proto_len chksum_len src dest =
     inet_cksum_pseudo_partial_base p proto proto_len chksum_len (addr_sum src dest)"

definition ip_chksum_pseudo_partial ::
  "segment list \<Rightarrow> u8 \<Rightarrow> u16 \<Rightarrow> u16 \<Rightarrow> u32 \<Rightarrow> u32 \<Rightarrow> u16 option" where
  "ip_chksum_pseudo_partial p proto proto_len chksum_len src dest =
     inet_chksum_pseudo_partial p proto proto_len chksum_len src dest"

section \<open>Reference: RFC 1071\<close>

text \<open>
  The 16-bit one's complement sum of the big-endian words of the data, padded with a zero byte, and the
  checksum, its complement; the pseudo header of RFC 793. Addresses are the \<^verbatim>\<open>u32_t\<close> values that
  hold their four bytes in network order.
\<close>

definition oc_add :: "nat \<Rightarrow> nat \<Rightarrow> nat" where
  "oc_add a b = (if a + b > 65535 then a + b - 65535 else a + b)"

fun rfc1071_sum :: "bytes \<Rightarrow> nat" where
  "rfc1071_sum [] = 0"
| "rfc1071_sum [a] = 256 * unat a"
| "rfc1071_sum (a # b # bs) = oc_add (256 * unat a + unat b) (rfc1071_sum bs)"

definition rfc1071_checksum :: "bytes \<Rightarrow> u16" where
  "rfc1071_checksum bs = NOT (of_nat (rfc1071_sum bs))"

definition pseudo_header :: "u8 \<Rightarrow> u16 \<Rightarrow> u32 \<Rightarrow> u32 \<Rightarrow> bytes" where
  "pseudo_header proto len src dest =
     le_bytes src @ le_bytes dest @ [0, proto] @ le16_bytes (lwip_htons len)"

definition chain_bytes :: "segment list \<Rightarrow> bytes" where
  "chain_bytes p = concat (map snd p)"

section \<open>Residues modulo 65535\<close>

text \<open>
  Two sums up to 65535 that agree modulo 65535 and vanish together are equal; so a routine is right when
  it keeps the residue and the zero. \<open>oc n m\<close> states both.
\<close>

definition oc :: "nat \<Rightarrow> nat \<Rightarrow> bool" where
  "oc m n \<longleftrightarrow> m mod 65535 = n mod 65535 \<and> (m = 0 \<longleftrightarrow> n = 0)"

lemma oc_refl [simp]: "oc n n"
  by (simp add: oc_def)

lemma oc_sym: "oc m n \<Longrightarrow> oc n m"
  by (auto simp: oc_def)

lemma oc_trans [trans]: "oc k m \<Longrightarrow> oc m n \<Longrightarrow> oc k n"
  by (auto simp: oc_def)

lemma oc_add_mono: "oc a b \<Longrightarrow> oc c d \<Longrightarrow> oc (a + c) (b + d)"
  unfolding oc_def by (metis add_is_0 mod_add_cong)

lemma oc_mult: "oc a b \<Longrightarrow> 0 < k \<Longrightarrow> oc (k * a) (k * b)"
  unfolding oc_def by (metis mod_mult_cong mult_is_0 less_numeral_extra(3))

lemma oc_eq:
  assumes "oc m n" "m \<le> 65535" "n \<le> 65535"
  shows "m = n"
proof -
  have top: "k = 65535" if "k mod 65535 = 0" "k \<noteq> 0" "k \<le> 65535" for k :: nat
  proof (rule ccontr)
    assume "k \<noteq> 65535"
    with that(3) have "k < 65535" by simp
    with that(1,2) show False by simp
  qed
  consider "m = 65535" | "n = 65535" | "m < 65535" "n < 65535" using assms by linarith
  then show ?thesis
  proof cases
    case 1
    then show ?thesis using assms top [of n] by (simp add: oc_def)
  next
    case 2
    then show ?thesis using assms top [of m] by (simp add: oc_def)
  next
    case 3
    then show ?thesis using assms by (simp add: oc_def)
  qed
qed

lemma oc_swap_swap: "oc (256 * (256 * n)) n"
proof -
  have "256 * (256 * n) = 65535 * n + n" by simp
  then have "256 * (256 * n) mod 65535 = n mod 65535" by (metis mod_mult_self4)
  then show ?thesis by (simp add: oc_def)
qed

lemma oc_cancel: "oc (256 * m) (256 * n) \<Longrightarrow> oc m n"
  by (meson oc_mult oc_swap_swap oc_sym oc_trans zero_less_numeral)

text \<open>Folding the upper half onto the lower one, and swapping the bytes of a half.\<close>

lemma oc_fold: "oc (n div 65536 + n mod 65536) n"
proof -
  have e: "n = 65535 * (n div 65536) + (n div 65536 + n mod 65536)" by simp
  have "n mod 65535 = (n div 65536 + n mod 65536) mod 65535" by (subst e) (rule mod_mult_self4)
  moreover have "n div 65536 + n mod 65536 = 0 \<longleftrightarrow> n = 0" by (metis add_is_0 div_mult_mod_eq mult_0 div_0 mod_0)
  ultimately show ?thesis by (simp add: oc_def)
qed

lemma oc_swap: "oc (256 * (n mod 256) + n div 256) (256 * n)"
proof -
  have e: "256 * n = 65535 * (n div 256) + (256 * (n mod 256) + n div 256)"
    using div_mult_mod_eq [of n 256] by linarith
  have "256 * n mod 65535 = (256 * (n mod 256) + n div 256) mod 65535" by (subst e) (rule mod_mult_self4)
  moreover have "256 * (n mod 256) + n div 256 = 0 \<longleftrightarrow> n = 0" using div_mult_mod_eq [of n 256] by linarith
  ultimately show ?thesis by (simp add: oc_def)
qed

lemma unat_FOLD: "unat (FOLD_U32T u) = unat u div 65536 + unat u mod 65536"
proof -
  have "unat u < 4294967296" using unat_less_exp [of u] by simp
  then have "unat u div 65536 + unat u mod 65536 < 4294967296" by linarith
  then show ?thesis by (simp add: FOLD_U32T_def unat_word_ariths unat_drop_bit unat_and_bytes)
qed

lemma FOLD_oc: "oc (unat (FOLD_U32T u)) (unat u)"
  unfolding unat_FOLD by (rule oc_fold)

lemma FOLD_bounds:
  "unat (FOLD_U32T u) \<le> 131070" "unat u \<le> 131070 \<Longrightarrow> unat (FOLD_U32T u) \<le> 65535"
proof -
  have "unat u < 4294967296" "unat u = 65536 * (unat u div 65536) + unat u mod 65536" "unat u mod 65536 \<le> 65535"
    using unat_less_exp [of u] by simp_all
  then show "unat (FOLD_U32T u) \<le> 131070" "unat u \<le> 131070 \<Longrightarrow> unat (FOLD_U32T u) \<le> 65535"
    unfolding unat_FOLD by linarith+
qed

lemma FOLD_FOLD:
  "oc (unat (FOLD_U32T (FOLD_U32T u))) (unat u)" "unat (FOLD_U32T (FOLD_U32T u)) \<le> 65535"
  using FOLD_oc FOLD_bounds oc_trans by blast+

lemma unat_SWAP:
  assumes "unat w \<le> 65535"
  shows "unat (SWAP_BYTES_IN_WORD w) = 256 * (unat w mod 256) + unat w div 256"
proof -
  have lo: "unat (push_bit 8 (w AND 0xff)) = 256 * (unat w mod 256)"
  proof -
    have "unat (w AND 0xff) * 2 ^ 8 < 2 ^ LENGTH(32)" by (simp add: unat_and_bytes)
    from unat_push_bit [OF this] show ?thesis by (simp only: unat_and_bytes) simp
  qed
  have "drop_bit 8 (w AND 0xff00) = drop_bit 8 w AND 0xff"
    by (rule bit_word_eqI) (auto simp: bit_simps bit_byte_masks)
  then have hi: "unat (drop_bit 8 (w AND 0xff00)) = unat w div 256"
    using assms by (simp add: unat_and_bytes unat_drop_bit)
  have "push_bit 8 (w AND 0xff) AND drop_bit 8 (w AND 0xff00) = 0"
    by (rule bit_word_eqI) (auto simp: bit_simps bit_byte_masks)
  moreover have "256 * (unat w mod 256) + unat w div 256 < 4294967296" using assms by linarith
  ultimately show ?thesis unfolding SWAP_BYTES_IN_WORD_def lo [symmetric] hi [symmetric]
    by (intro unat_or_disjoint) simp_all
qed

lemma SWAP_oc:
  "unat w \<le> 65535 \<Longrightarrow> oc (unat (SWAP_BYTES_IN_WORD w)) (256 * unat w)"
  "unat w \<le> 65535 \<Longrightarrow> unat (SWAP_BYTES_IN_WORD w) \<le> 65535"
  by (simp_all add: unat_SWAP oc_swap)

lemma htons_oc: "oc (unat (lwip_htons h)) (256 * unat h)"
  unfolding unat_htons by (rule oc_swap)

lemma u16_le: "unat h \<le> 65535" for h :: u16
  using unat_less_exp [of h] by simp

section \<open>Sums of words\<close>

fun be_sum :: "bytes \<Rightarrow> nat" where
  "be_sum [] = 0"
| "be_sum [a] = 256 * unat a"
| "be_sum (a # b # bs) = 256 * unat a + unat b + be_sum bs"

fun le_sum :: "bytes \<Rightarrow> nat" where
  "le_sum [] = 0"
| "le_sum [a] = unat a"
| "le_sum (a # b # bs) = unat a + 256 * unat b + le_sum bs"

lemma be_sum_Cons: "be_sum (c # bs) = 256 * unat c + le_sum bs"
  by (induction bs arbitrary: c rule: le_sum.induct) auto

lemma be_le: "oc (be_sum bs) (256 * le_sum bs)"
proof (induction bs rule: le_sum.induct)
  case (3 a b bs)
  have "oc (256 * unat a + unat b) (256 * unat a + 256 * (256 * unat b))"
    by (intro oc_add_mono oc_refl oc_sym [OF oc_swap_swap])
  from oc_add_mono [OF this 3] show ?case by (simp add: algebra_simps)
qed auto

lemma be_sum_bound: "be_sum bs \<le> 65535 * ((length bs + 1) div 2)"
proof (induction bs rule: be_sum.induct)
  case (2 a)
  then show ?case using unat_less_exp [of a] by simp
next
  case (3 a b bs)
  then show ?case using unat_less_exp [of a] unat_less_exp [of b] by simp
qed simp

lemma le_sum_bound: "le_sum bs \<le> 65535 * ((length bs + 1) div 2)"
proof (induction bs rule: le_sum.induct)
  case (2 a)
  then show ?case using unat_less_exp [of a] by simp
next
  case (3 a b bs)
  then show ?case using unat_less_exp [of a] unat_less_exp [of b] by simp
qed simp

lemma sums_fit:
  assumes "length bs \<le> 0x20000"
  shows "be_sum bs \<le> 4294901760" "le_sum bs \<le> 4294901760"
proof -
  have "(length bs + 1) div 2 \<le> (0x20000 + 1) div 2" using assms by (intro div_le_mono) simp
  then have "(length bs + 1) div 2 \<le> 65536" by simp
  with be_sum_bound [of bs] le_sum_bound [of bs] show "be_sum bs \<le> 4294901760" "le_sum bs \<le> 4294901760"
    by linarith+
qed

lemma rfc1071_bound: "rfc1071_sum bs \<le> 65535"
proof (induction bs rule: rfc1071_sum.induct)
  case (2 a)
  then show ?case using unat_less_exp [of a] by simp
next
  case (3 a b bs)
  then show ?case using unat_less_exp [of a] unat_less_exp [of b] by (auto simp: oc_add_def)
qed simp

lemma oc_oc_add: "oc (oc_add a b) (a + b)"
proof (cases "a + b > 65535")
  case True
  then have "(a + b - 65535) mod 65535 = (a + b) mod 65535" by (simp add: le_mod_geq)
  with True show ?thesis by (auto simp: oc_add_def oc_def)
qed (simp add: oc_add_def)

lemma rfc1071_oc: "oc (rfc1071_sum bs) (be_sum bs)"
proof (induction bs rule: rfc1071_sum.induct)
  case (3 a b bs)
  have "oc (rfc1071_sum (a # b # bs)) (256 * unat a + unat b + rfc1071_sum bs)" by (simp add: oc_oc_add)
  also have "oc \<dots> (256 * unat a + unat b + be_sum bs)" by (intro oc_add_mono oc_refl 3)
  finally show ?case by simp
qed auto

text \<open>A routine is right when its result keeps the little-endian sum.\<close>

lemma chksum_rightI:
  assumes "oc (unat h) (le_sum bs)"
  shows "unat (lwip_htons h) = rfc1071_sum bs"
proof (rule oc_eq)
  have "oc (unat (lwip_htons h)) (256 * unat h)" by (rule htons_oc)
  also have "oc \<dots> (256 * le_sum bs)" by (rule oc_mult [OF assms]) simp
  also have "oc \<dots> (be_sum bs)" by (rule oc_sym [OF be_le])
  also have "oc \<dots> (rfc1071_sum bs)" by (rule oc_sym [OF rfc1071_oc])
  finally show "oc (unat (lwip_htons h)) (rfc1071_sum bs)" .
qed (auto simp: u16_le rfc1071_bound)

section \<open>The three routines\<close>

lemma unat_ucast_le16 [simp]: "unat (ucast (le16 a b) :: u32) = unat a + 256 * unat b"
  by (simp add: unat_ucast_widen unat_le16)

lemma be16: "push_bit 8 (ucast a) OR ucast b = le16 b a"
  by (simp add: le16_def or.commute)

lemma le16_0: "le16 0 b = push_bit 8 (ucast b)" "le16 a 0 = ucast a"
  by (simp_all add: le16_def)

lemma unat_u32_add: "unat a + unat b < 4294967296 \<Longrightarrow> unat (a + b) = unat a + unat b" for a b :: u32
  by (simp add: unat_word_ariths)

lemma sum_le_spec:
  assumes "sum_le bs s = (s', rest)" "unat s + le_sum bs < 4294967296"
  shows "length rest \<le> 1 \<and> unat s' + le_sum rest = unat s + le_sum bs"
  using assms
proof (induction bs s rule: sum_le.induct)
  case (1 a b bs s)
  then have "unat (s + ucast (le16 a b)) = unat s + (unat a + 256 * unat b)"
    by (simp add: unat_u32_add)
  with 1 show ?case by simp
qed auto

lemma sum_be_spec:
  assumes "sum_be bs s = (s', rest)" "unat s + be_sum bs < 4294967296"
  shows "length rest \<le> 1 \<and> unat s' + be_sum rest = unat s + be_sum bs"
  using assms
proof (induction bs s rule: sum_be.induct)
  case (1 a b bs s)
  then have "unat (s + ucast (le16 b a)) = unat s + (unat b + 256 * unat a)"
    by (simp add: unat_u32_add)
  with 1 show ?case by (simp add: be16)
qed auto

lemma lead_byte_spec:
  assumes "lead_byte is_odd data = (t, pb)"
  obtains b where "t = le16 0 b" "if is_odd then be_sum data = 256 * unat b + le_sum pb else b = 0 \<and> pb = data"
    "length pb \<le> length data"
proof (cases data)
  case Nil
  with assms that [of 0] show ?thesis by (simp add: lead_byte_def le16_def)
next
  case (Cons c bs)
  with assms that [of 0] that [of c] show ?thesis
    by (cases is_odd) (auto simp: lead_byte_def le16_0 be_sum_Cons)
qed

lemma tail_byte_spec:
  assumes "length rest \<le> 1"
  shows "unat (tail_byte (le16 0 b) rest) = 256 * unat b + le_sum rest"
proof (cases rest)
  case Nil
  then show ?thesis by (simp add: tail_byte_def unat_le16)
next
  case (Cons c cs)
  have "(le16 0 b AND 0xff00) OR ucast c = le16 c b"
    by (rule bit_word_eqI) (auto simp: le16_def bit_simps bit_byte_masks)
  with Cons assms show ?thesis by (simp add: tail_byte_def unat_le16)
qed

text \<open>The common end of versions 2 and 3.\<close>

lemma unat_ucast_u16: "unat w \<le> 65535 \<Longrightarrow> unat (ucast w :: u16) = unat w" for w :: u32
  by (simp add: unsigned_ucast_eq take_bit_nat_eq_self)

lemma chksum_finish:
  "oc (unat (ucast (if is_odd then SWAP_BYTES_IN_WORD (FOLD_U32T (FOLD_U32T s)) else FOLD_U32T (FOLD_U32T s)) :: u16))
     (if is_odd then 256 * unat s else unat s)"
proof -
  note f = FOLD_FOLD [of s]
  have "oc (256 * unat (FOLD_U32T (FOLD_U32T s))) (256 * unat s)" by (rule oc_mult [OF f(1)]) simp
  with SWAP_oc [OF f(2)] oc_trans have "oc (unat (SWAP_BYTES_IN_WORD (FOLD_U32T (FOLD_U32T s)))) (256 * unat s)"
    by blast
  with f SWAP_oc(2) [OF f(2)] show ?thesis by (simp add: unat_ucast_u16)
qed

lemma chksum_end:
  assumes "oc (unat s) (256 * unat b + le_sum pb)"
    "if is_odd then be_sum data = 256 * unat b + le_sum pb else b = 0 \<and> pb = data"
  shows "oc (unat (ucast (if is_odd then SWAP_BYTES_IN_WORD (FOLD_U32T (FOLD_U32T s)) else FOLD_U32T (FOLD_U32T s)) :: u16))
     (le_sum data)"
proof (cases is_odd)
  case True
  have "oc (256 * unat s) (256 * be_sum data)" using assms True by (intro oc_mult) auto
  also have "oc \<dots> (256 * (256 * le_sum data))" by (intro oc_mult be_le) simp
  also have "oc \<dots> (le_sum data)" by (rule oc_swap_swap)
  finally show ?thesis using True oc_trans [OF chksum_finish [of is_odd s]] by simp
next
  case False
  then show ?thesis using assms oc_trans [OF chksum_finish [of is_odd s]] by simp
qed

lemma standard_chksum_oc:
  assumes "length data \<le> 0x20000"
  shows "oc (unat (lwip_standard_chksum a data)) (le_sum data)"
proof -
  let ?odd = "a AND 1 \<noteq> 0"
  obtain t pb where l: "lead_byte ?odd data = (t, pb)" by (metis prod.exhaust)
  then obtain b where b: "t = le16 0 b"
    "if ?odd then be_sum data = 256 * unat b + le_sum pb else b = 0 \<and> pb = data" "length pb \<le> length data"
    by (rule lead_byte_spec)
  obtain s rest where r: "sum_le pb 0 = (s, rest)" by (metis prod.exhaust)
  have bound: "256 * unat b + le_sum pb < 4294967296"
  proof (cases ?odd)
    case True
    with sums_fit [OF assms] b(2) show ?thesis by simp
  next
    case False
    with sums_fit [OF assms] b(2) show ?thesis by simp
  qed
  with sum_le_spec [OF r] have s: "length rest \<le> 1" "unat s + le_sum rest = le_sum pb" by auto
  have "unat (s + ucast (tail_byte t rest)) = 256 * unat b + le_sum pb"
    using s bound tail_byte_spec [OF s(1)] b(1) by (simp add: unat_u32_add unat_ucast_widen)
  then have "oc (unat (s + ucast (tail_byte t rest))) (256 * unat b + le_sum pb)" by simp
  from chksum_end [OF this b(2)] show ?thesis
    by (simp add: lwip_standard_chksum_def l r Let_def)
qed

lemma standard_chksum_1_oc:
  assumes "length data \<le> 0x20000"
  shows "unat (lwip_htons (lwip_standard_chksum_1 data)) = rfc1071_sum data"
proof -
  obtain s rest where r: "sum_be data 0 = (s, rest)" by (metis prod.exhaust)
  have bound: "be_sum data < 4294967296" using sums_fit [OF assms] by linarith
  with sum_be_spec [OF r] have s: "length rest \<le> 1" "unat s + be_sum rest = be_sum data" by auto
  define u where "u = (case rest of [] \<Rightarrow> s | c # _ \<Rightarrow> s + ucast (push_bit 8 (ucast c :: u16)))"
  have u: "unat u = be_sum data"
  proof (cases rest)
    case (Cons c cs)
    have p: "unat (ucast (push_bit 8 (ucast c :: u16)) :: u32) = 256 * unat c"
      using unat_ucast_le16 [of 0 c] by (simp add: le16_0)
    show ?thesis using Cons s bound p by (simp add: u_def unat_u32_add)
  qed (use s in \<open>simp add: u_def\<close>)
  define v where "v = (if FOLD_U32T u AND 0xffff0000 \<noteq> 0 then FOLD_U32T (FOLD_U32T u) else FOLD_U32T u)"
  have small: "w AND 0xffff0000 = 0 \<Longrightarrow> unat w \<le> 65535" for w :: u32
  proof -
    assume z: "w AND 0xffff0000 = 0"
    have "drop_bit 16 w = drop_bit 16 (w AND 0xffff0000)"
      by (rule bit_word_eqI) (auto simp: bit_simps bit_byte_masks dest: bit_imp_le_length)
    then have "unat w div 65536 = 0" using z unat_drop_bit [of 16 w] by simp
    then show ?thesis by (simp add: div_eq_0_iff)
  qed
  have v: "oc (unat v) (be_sum data)" "unat v \<le> 65535"
    using FOLD_oc [of u] FOLD_FOLD [of u] small by (auto simp: v_def u)
  have "lwip_standard_chksum_1 data = lwip_htons (ucast v)"
    by (simp add: lwip_standard_chksum_1_def r Let_def u_def v_def FOLD_U32T_def)
  then have "unat (lwip_htons (lwip_standard_chksum_1 data)) = unat v" using v(2) by (simp add: unat_ucast_u16)
  moreover have "unat v = rfc1071_sum data"
    by (rule oc_eq [OF oc_trans [OF v(1) oc_sym [OF rfc1071_oc]] v(2) rfc1071_bound])
  ultimately show ?thesis by simp
qed

lemma add_carry_oc: "oc (unat (add_carry s w)) (unat s + unat w)"
proof -
  have b: "unat s < 4294967296" "unat w < 4294967296" using unat_less_exp [of s] unat_less_exp [of w] by simp_all
  show ?thesis
  proof (cases "unat s + unat w < 4294967296")
    case True
    then have "unat (s + w) = unat s + unat w" by (rule unat_u32_add)
    then show ?thesis by (simp add: add_carry_def Let_def word_less_nat_alt)
  next
    case False
    then have u: "unat (s + w) = unat s + unat w - 4294967296"
      using b by (simp add: unat_word_ariths mod_if)
    then have "unat (s + w + 1) = unat s + unat w - 4294967295"
      using b False unat_u32_add [of "s + w" 1] by simp
    moreover have "s + w < s" using u b False by (simp add: word_less_nat_alt)
    ultimately have c: "unat (add_carry s w) = unat s + unat w - 65535 * 65537"
      by (simp add: add_carry_def)
    have "(unat s + unat w) mod 65535 = (unat s + unat w - 65535 * 65537 + 65535 * 65537) mod 65535"
      using False by simp
    also have "\<dots> = unat (add_carry s w) mod 65535" unfolding c by (rule mod_mult_self2)
    finally have "(unat s + unat w) mod 65535 = unat (add_carry s w) mod 65535" .
    moreover have "unat (add_carry s w) = 0 \<longleftrightarrow> unat s + unat w = 0" using False c by linarith
    ultimately show ?thesis unfolding oc_def by metis
  qed
qed

lemma unat_byte_or: "unat w < 16777216 \<Longrightarrow> unat (ucast b OR push_bit 8 w) = unat b + 256 * unat w"
  for w :: u32 and b :: byte
proof -
  assume h: "unat w < 16777216"
  have "(ucast b :: u32) AND push_bit 8 w = 0"
    by (rule bit_word_eqI) (auto simp: bit_simps)
  moreover have "unat (push_bit 8 w) = 256 * unat w" using h unat_push_bit [of w 8] by simp
  moreover have "unat (ucast b :: u32) = unat b" "unat b < 256"
    using unat_less_exp [of b] by (simp_all add: unat_ucast_widen)
  ultimately show ?thesis using h by (simp add: unat_or_disjoint)
qed

lemma le_word4_oc: "oc (unat (le_word [a, b, c, d])) (unat a + 256 * unat b + (unat c + 256 * unat d))"
proof -
  have x: "unat a < 256" "unat b < 256" "unat c < 256" "unat d < 256"
    using unat_less_exp [of a] unat_less_exp [of b] unat_less_exp [of c] unat_less_exp [of d] by simp_all
  have d: "unat (le_word [d]) = unat d" by (simp add: unat_ucast_widen)
  have c: "unat (le_word [c, d]) = unat c + 256 * unat d"
    using x d unat_byte_or [of "le_word [d]" c] by simp
  have b: "unat (le_word [b, c, d]) = unat b + 256 * (unat c + 256 * unat d)"
    using x c unat_byte_or [of "le_word [c, d]" b] by simp
  have "unat (le_word [a, b, c, d]) = unat a + 256 * unat b + 256 * (256 * (unat c + 256 * unat d))"
    using x b unat_byte_or [of "le_word [b, c, d]" a] by simp
  moreover have "oc (256 * (256 * (unat c + 256 * unat d))) (unat c + 256 * unat d)" by (rule oc_swap_swap)
  ultimately show ?thesis by (metis oc_add_mono oc_refl)
qed

lemma sum_unrolled_spec:
  assumes "sum_unrolled bs s = (s', rest)"
  shows "length rest \<le> 7 \<and> oc (unat s' + le_sum rest) (unat s + le_sum bs)"
  using assms
proof (induction bs s rule: sum_unrolled.induct)
  case (1 a b c d e f g h bs s)
  let ?x = "le_word [a, b, c, d]" and ?y = "le_word [e, f, g, h]"
  have "length rest \<le> 7" "oc (unat s' + le_sum rest) (unat (add_carry (add_carry s ?x) ?y) + le_sum bs)"
    using 1 by auto
  note this(2)
  also have "oc \<dots> (unat (add_carry s ?x) + unat ?y + le_sum bs)"
    by (intro oc_add_mono add_carry_oc oc_refl)
  also have "oc \<dots> (unat s + unat ?x + unat ?y + le_sum bs)"
    by (intro oc_add_mono add_carry_oc oc_refl)
  also have "oc \<dots> (unat s + (unat a + 256 * unat b + (unat c + 256 * unat d)) +
      (unat e + 256 * unat f + (unat g + 256 * unat h)) + le_sum bs)"
    by (intro oc_add_mono le_word4_oc oc_refl)
  finally show ?case using \<open>length rest \<le> 7\<close> by (simp add: algebra_simps)
qed auto

lemma standard_chksum_3_oc: "oc (unat (lwip_standard_chksum_3 a data)) (le_sum data)"
proof -
  let ?odd = "a AND 1 \<noteq> 0"
  obtain t ps where l: "lead_byte ?odd data = (t, ps)" by (metis prod.exhaust)
  then obtain b where b: "t = le16 0 b"
    "if ?odd then be_sum data = 256 * unat b + le_sum ps else b = 0 \<and> ps = data"
    by (rule lead_byte_spec)
  define ptr where "ptr = (if ?odd \<and> data \<noteq> [] then a + 1 else a)"
  obtain s1 pl where p: "(case ps of x # y # pl \<Rightarrow> (if ptr AND 3 \<noteq> 0 then (ucast (le16 x y), pl) else (0, ps))
             | _ \<Rightarrow> (0, ps)) = (s1 :: u32, pl)" by (metis prod.exhaust)
  have s1: "unat s1 + le_sum pl = le_sum ps"
    using p by (auto split: list.splits if_splits)
  obtain s2 qs where u: "sum_unrolled pl s1 = (s2, qs)" by (metis prod.exhaust)
  from sum_unrolled_spec [OF u] s1 have s2: "length qs \<le> 7" "oc (unat s2 + le_sum qs) (le_sum ps)" by auto
  obtain s3 rest where r: "sum_le qs (FOLD_U32T s2) = (s3, rest)" by (metis prod.exhaust)
  have q: "le_sum qs \<le> 262140" using le_sum_bound [of qs] s2(1) by linarith
  with sum_le_spec [OF r] FOLD_bounds(1) [of s2]
  have s3: "length rest \<le> 1" "unat s3 + le_sum rest = unat (FOLD_U32T s2) + le_sum qs" by auto
  have "unat b < 256" using unat_less_exp [of b] by simp
  then have "unat (s3 + ucast (tail_byte t rest)) = unat s3 + (256 * unat b + le_sum rest)"
    using s3 q FOLD_bounds(1) [of s2] tail_byte_spec [OF s3(1)] b(1) by (simp add: unat_u32_add unat_ucast_widen)
  then have "unat (s3 + ucast (tail_byte t rest)) = 256 * unat b + (unat (FOLD_U32T s2) + le_sum qs)"
    using s3(2) by simp
  also have "oc \<dots> (256 * unat b + (unat s2 + le_sum qs))" by (intro oc_add_mono FOLD_oc oc_refl)
  also have "oc \<dots> (256 * unat b + le_sum ps)" by (intro oc_add_mono s2(2) oc_refl)
  finally show ?thesis
    unfolding lwip_standard_chksum_3_def Let_def l prod.case ptr_def [symmetric] p u r
    by (rule chksum_end [OF _ b(2)])
qed

section \<open>Chains\<close>

lemma le_sum_append:
  "oc (le_sum (xs @ ys)) (le_sum xs + (if even (length xs) then le_sum ys else 256 * le_sum ys))"
proof (induction xs rule: le_sum.induct)
  case (2 a)
  have "oc (256 * le_sum (a # ys)) (256 * unat a + le_sum ys)"
    using be_le [of "a # ys"] oc_sym by (simp add: be_sum_Cons)
  also have "oc \<dots> (256 * unat a + 256 * (256 * le_sum ys))"
    by (intro oc_add_mono oc_refl oc_sym [OF oc_swap_swap])
  finally have "oc (256 * le_sum (a # ys)) (256 * (unat a + 256 * le_sum ys))" by (simp add: algebra_simps)
  then show ?case using oc_cancel by simp
next
  case (3 a b xs)
  from oc_add_mono [OF oc_refl [of "unat a + 256 * unat b"] 3] show ?case by (simp add: add.assoc)
qed simp

text \<open>The accumulator of the chain loop: the sum so far, with its bytes swapped after an odd length.\<close>

definition chain_acc :: "bool \<Rightarrow> nat \<Rightarrow> u32 \<Rightarrow> bool" where
  "chain_acc swapped n acc \<longleftrightarrow> unat acc \<le> 65535 \<and> oc (unat acc) (if swapped then 256 * n else n)"

lemma chain_acc_add:
  fixes h :: u16
  assumes "chain_acc (odd (length xs)) (n + le_sum xs) acc" "oc (unat h) (le_sum ys)"
  shows "chain_acc (odd (length xs)) (n + le_sum (xs @ ys)) (FOLD_U32T (acc + ucast h))"
proof -
  let ?a = "FOLD_U32T (acc + ucast h)"
  let ?m = "n + le_sum xs" and ?t = "n + le_sum (xs @ ys)"
  have acc: "unat acc \<le> 65535" "oc (unat acc) (if odd (length xs) then 256 * ?m else ?m)"
    using assms(1) by (auto simp: chain_acc_def)
  have u: "unat (acc + ucast h) = unat acc + unat h"
    using acc(1) u16_le [of h] by (simp add: unat_u32_add unat_ucast_widen)
  have bound: "unat ?a \<le> 65535" using acc(1) u16_le [of h] u by (intro FOLD_bounds) simp
  have tot: "oc (?m + (if even (length xs) then le_sum ys else 256 * le_sum ys)) ?t"
    using oc_sym [OF oc_add_mono [OF oc_refl [of n] le_sum_append [of xs ys]]] by (simp add: add.assoc)
  have f: "oc (unat ?a) (unat acc + unat h)" using FOLD_oc [of "acc + ucast h"] u by simp
  show ?thesis
  proof (cases "odd (length xs)")
    case True
    note f
    also have "oc (unat acc + unat h) (256 * ?m + 256 * (256 * le_sum ys))"
      using acc(2) True assms(2) oc_trans [OF _ oc_sym [OF oc_swap_swap]] by (intro oc_add_mono) auto
    also have "\<dots> = 256 * (?m + 256 * le_sum ys)" by (simp add: algebra_simps)
    also have "oc \<dots> (256 * ?t)" using tot True by (intro oc_mult) auto
    finally show ?thesis using True bound by (simp add: chain_acc_def)
  next
    case False
    note f
    also have "oc (unat acc + unat h) (?m + le_sum ys)" using acc(2) False assms(2) by (intro oc_add_mono) auto
    also have "oc \<dots> ?t" using tot False by simp
    finally show ?thesis using False bound by (simp add: chain_acc_def)
  qed
qed

lemma chain_acc_swap:
  assumes "chain_acc swapped n acc"
  shows "chain_acc (\<not> swapped) n (SWAP_BYTES_IN_WORD acc)"
proof -
  have a: "unat acc \<le> 65535" "oc (unat acc) (if swapped then 256 * n else n)"
    using assms by (simp_all add: chain_acc_def)
  have "oc (unat (SWAP_BYTES_IN_WORD acc)) (256 * unat acc)" by (rule SWAP_oc(1) [OF a(1)])
  also have "oc \<dots> (256 * (if swapped then 256 * n else n))" by (rule oc_mult [OF a(2)]) simp
  also have "oc \<dots> (if swapped then n else 256 * n)"
    using oc_swap_swap [of n] by (cases swapped) (simp_all only: if_True if_False oc_refl)
  finally show ?thesis using SWAP_oc(2) [OF a(1)] by (cases swapped) (simp_all add: chain_acc_def)
qed

lemma chain_acc_step:
  fixes h :: u16
  assumes "chain_acc (odd (length xs)) (n + le_sum xs) acc" "oc (unat h) (le_sum ys)"
  shows "let acc = FOLD_U32T (acc + ucast h)
    in chain_acc (odd (length (xs @ ys))) (n + le_sum (xs @ ys)) (if odd (length ys) then SWAP_BYTES_IN_WORD acc else acc)"
  using chain_acc_add [OF assms] chain_acc_swap [OF chain_acc_add [OF assms]] by (simp add: Let_def)

lemma chksum_chain_acc:
  assumes "chksum_chain p (odd (length xs)) acc = (swapped, acc')"
    "chain_acc (odd (length xs)) (n + le_sum xs) acc" "\<forall>(a, q) \<in> set p. length q \<le> 0x20000"
  shows "chain_acc swapped (n + le_sum (xs @ chain_bytes p)) acc'"
  using assms
proof (induction p arbitrary: xs acc)
  case Nil
  then show ?case by (simp add: chain_bytes_def)
next
  case (Cons s p)
  obtain a q where s: "s = (a, q)" by (metis prod.exhaust)
  let ?acc = "FOLD_U32T (acc + ucast (lwip_standard_chksum a q))"
  have "oc (unat (lwip_standard_chksum a q)) (le_sum q)" using Cons.prems(3) s by (intro standard_chksum_oc) auto
  from chain_acc_step [OF Cons.prems(2) this]
  have step: "chain_acc (odd (length (xs @ q))) (n + le_sum (xs @ q)) (if odd (length q) then SWAP_BYTES_IN_WORD ?acc else ?acc)"
    by (simp add: Let_def)
  have "chksum_chain p (odd (length (xs @ q))) (if odd (length q) then SWAP_BYTES_IN_WORD ?acc else ?acc) = (swapped, acc')"
    using Cons.prems(1) s by (cases "odd (length q)"; cases "odd (length xs)") (simp_all add: Let_def mod_2_eq_odd)
  from Cons.IH [OF this step] Cons.prems(3) s show ?case by (simp add: chain_bytes_def)
qed

text \<open>The end of the chain loop: the bytes swapped back.\<close>

lemma chain_acc_end:
  assumes "chain_acc swapped n acc"
  shows "oc (unat (if swapped then SWAP_BYTES_IN_WORD acc else acc)) n"
    "unat (if swapped then SWAP_BYTES_IN_WORD acc else acc) \<le> 65535"
  using assms chain_acc_swap [OF assms] by (auto simp: chain_acc_def)

lemma complement_u16: "ucast (NOT (acc AND 0xffff)) = (NOT (ucast acc) :: u16)" for acc :: u32
  by (rule bit_word_eqI) (auto simp: bit_simps bit_byte_masks)

lemma checksum_rightI:
  fixes acc :: u32
  assumes "oc (unat acc) (le_sum bs)" "unat acc \<le> 65535"
  shows "ucast (NOT (acc AND 0xffff)) = lwip_htons (rfc1071_checksum bs)"
proof -
  have "unat (lwip_htons (ucast acc)) = rfc1071_sum bs"
    using assms by (intro chksum_rightI) (simp add: unat_ucast_u16)
  then have "lwip_htons (ucast acc) = of_nat (rfc1071_sum bs)" by (metis of_nat_unat ucast_id)
  then have "NOT (lwip_htons (ucast acc)) = rfc1071_checksum bs" by (simp add: rfc1071_checksum_def)
  moreover have "NOT (lwip_htons h) = lwip_htons (NOT h)" for h
    by (rule bit_word_eqI) (auto simp: lwip_htons_def PP_HTONS_def bit_simps bit_byte_masks)
  ultimately have "lwip_htons (NOT (ucast acc)) = rfc1071_checksum bs" by simp
  then show ?thesis unfolding complement_u16 by (metis htons_htons)
qed

lemma inet_chksum_rfc1071:
  assumes "length data \<le> 0x20000"
  shows "inet_chksum a data = lwip_htons (rfc1071_checksum data)"
proof -
  let ?h = "lwip_standard_chksum a data"
  have "unat (ucast ?h :: u32) = unat ?h" by (simp add: unat_ucast_widen)
  then have "ucast (NOT (ucast ?h AND 0xffff :: u32)) = lwip_htons (rfc1071_checksum data)"
    using standard_chksum_oc [OF assms, of a] u16_le [of ?h] by (intro checksum_rightI) auto
  moreover have "ucast (ucast ?h :: u32) = ?h" by (rule bit_word_eqI) (auto simp: bit_simps)
  ultimately show ?thesis unfolding complement_u16 inet_chksum_def by simp
qed

lemma inet_chksum_pbuf_rfc1071:
  assumes "\<forall>(a, q) \<in> set p. length q \<le> 0x20000"
  shows "inet_chksum_pbuf p = lwip_htons (rfc1071_checksum (chain_bytes p))"
proof -
  obtain swapped acc where c: "chksum_chain p False 0 = (swapped, acc)" by (metis prod.exhaust)
  have "chain_acc False 0 0" by (simp add: chain_acc_def)
  with chksum_chain_acc [of p "[]" 0 swapped acc 0] c assms
  have "chain_acc swapped (le_sum (chain_bytes p)) acc" by simp
  from checksum_rightI [OF chain_acc_end [OF this]] show ?thesis
    by (simp add: inet_chksum_pbuf_def c Let_def)
qed

lemma le_sum_le_bytes: "oc (le_sum (le_bytes w)) (unat w)"
proof -
  obtain a b c d where w: "le_bytes w = [a, b, c, d]"
    by (simp add: le_bytes_def upt_rec)
  then have "w = le_word [a, b, c, d]" by (metis le_word_le_bytes)
  with le_word4_oc [of a b c d] w show ?thesis by (simp add: oc_sym add.assoc)
qed

lemma addr_sum_oc:
  "oc (unat (addr_sum src dest)) (le_sum (le_bytes src @ le_bytes dest))" "unat (addr_sum src dest) \<le> 65535"
proof -
  let ?w = "(src AND 0xffff) + (drop_bit 16 src AND 0xffff) + (dest AND 0xffff) + (drop_bit 16 dest AND 0xffff)"
  have half: "unat (v AND 0xffff) = unat v mod 65536" "unat (drop_bit 16 v AND 0xffff) = unat v div 65536" for v :: u32
    using unat_less_exp [of v] by (simp_all add: unat_and_bytes unat_drop_bit)
  have small: "unat v mod 65536 < 65536" "unat v div 65536 < 65536" for v :: u32
    using unat_less_exp [of v] by simp_all
  have "unat ?w = (unat src div 65536 + unat src mod 65536) + (unat dest div 65536 + unat dest mod 65536)"
    using small [of src] small [of dest] by (simp add: unat_u32_add half unat_drop_bit)
  also have "oc \<dots> (unat src + unat dest)" by (intro oc_add_mono oc_fold)
  also have "oc \<dots> (le_sum (le_bytes src) + le_sum (le_bytes dest))"
    by (intro oc_add_mono oc_sym [OF le_sum_le_bytes])
  also have "oc \<dots> (le_sum (le_bytes src @ le_bytes dest))"
    using oc_sym [OF le_sum_append [of "le_bytes src" "le_bytes dest"]] by simp
  finally have w: "oc (unat ?w) (le_sum (le_bytes src @ le_bytes dest))" .
  have a: "addr_sum src dest = FOLD_U32T (FOLD_U32T ?w)" by (simp add: addr_sum_def)
  show "oc (unat (addr_sum src dest)) (le_sum (le_bytes src @ le_bytes dest))"
    unfolding a by (rule oc_trans [OF FOLD_FOLD(1) w])
  show "unat (addr_sum src dest) \<le> 65535" unfolding a by (rule FOLD_FOLD(2))
qed

text \<open>Adding the protocol and the length, the end of both pseudo checksums.\<close>

lemma pseudo_end:
  assumes "oc (unat acc) (le_sum (le_bytes src @ le_bytes dest) + le_sum bs)" "unat acc \<le> 65535"
  shows "ucast (NOT (FOLD_U32T (FOLD_U32T (acc + ucast (lwip_htons (ucast proto)) + ucast (lwip_htons len))) AND 0xffff)) =
    lwip_htons (rfc1071_checksum (pseudo_header proto len src dest @ bs))"
proof (rule checksum_rightI)
  let ?w = "acc + ucast (lwip_htons (ucast proto)) + ucast (lwip_htons len)"
  have u: "unat ?w = unat acc + unat (lwip_htons (ucast proto)) + unat (lwip_htons len)"
    using assms(2) u16_le [of "lwip_htons (ucast proto)"] u16_le [of "lwip_htons len"]
    by (simp add: unat_u32_add unat_ucast_widen)
  have p: "unat (lwip_htons (ucast proto)) = 256 * unat proto"
    using unat_less_exp [of proto] by (simp add: unat_htons unat_ucast_widen)
  have l: "le_sum (le16_bytes h @ ys) = unat h + le_sum ys" for h ys
    using unat_le16 [of "ucast h" "ucast (drop_bit 8 h)"] by (simp add: le16_bytes_def le16_le16_bytes)
  let ?a = "le_bytes src @ le_bytes dest"
  have "oc (unat ?w) (le_sum ?a + (256 * unat proto + (unat (lwip_htons len) + le_sum bs)))"
    using oc_add_mono [OF assms(1) oc_refl [of "256 * unat proto + unat (lwip_htons len)"]]
    unfolding u p by (simp add: algebra_simps)
  also have "\<dots> = le_sum ?a + le_sum ([0, proto] @ le16_bytes (lwip_htons len) @ bs)" by (simp add: l)
  also have "oc \<dots> (le_sum (?a @ [0, proto] @ le16_bytes (lwip_htons len) @ bs))"
    using oc_sym [OF le_sum_append [of ?a "[0, proto] @ le16_bytes (lwip_htons len) @ bs"]] by simp
  finally have "oc (unat ?w) (le_sum (pseudo_header proto len src dest @ bs))" by (simp add: pseudo_header_def)
  with FOLD_FOLD(1) [of ?w] oc_trans show "oc (unat (FOLD_U32T (FOLD_U32T ?w))) (le_sum (pseudo_header proto len src dest @ bs))"
    by blast
qed (rule FOLD_FOLD)

lemma inet_chksum_pseudo_rfc1071:
  assumes "\<forall>(a, q) \<in> set p. length q \<le> 0x20000"
  shows "inet_chksum_pseudo p proto len src dest =
    lwip_htons (rfc1071_checksum (pseudo_header proto len src dest @ chain_bytes p))"
proof -
  obtain swapped acc where c: "chksum_chain p False (addr_sum src dest) = (swapped, acc)" by (metis prod.exhaust)
  have "chain_acc False (le_sum (le_bytes src @ le_bytes dest)) (addr_sum src dest)"
    using addr_sum_oc by (simp add: chain_acc_def)
  with chksum_chain_acc [of p "[]" "addr_sum src dest" swapped acc "le_sum (le_bytes src @ le_bytes dest)"] c assms
  have "chain_acc swapped (le_sum (le_bytes src @ le_bytes dest) + le_sum (chain_bytes p)) acc" by simp
  from pseudo_end [OF chain_acc_end [OF this]] show ?thesis
    by (simp add: inet_chksum_pseudo_def inet_cksum_pseudo_base_def c Let_def)
qed

text \<open>
  The partial loop stops inside the chain; the flag and the accumulator are swapped together even in the
  pbuf where it stops, so the sum is that of the bytes counted.
\<close>

lemma chksum_chain_partial_acc:
  assumes "chain_acc (odd (length xs)) (n + le_sum xs) acc" "\<forall>(a, q) \<in> set p. length q \<le> 0xffff"
    "unat k \<le> length (chain_bytes p)" "unat k < 0x7fff"
  shows "\<exists>swapped acc'. chksum_chain_partial p k (odd (length xs)) acc = Some (swapped, acc') \<and>
    chain_acc swapped (n + le_sum (xs @ take (unat k) (chain_bytes p))) acc'"
  using assms
proof (induction p arbitrary: xs acc k)
  case Nil
  then show ?case by (simp add: chain_bytes_def)
next
  case (Cons s p)
  obtain a q where s: "s = (a, q)" by (metis prod.exhaust)
  have q: "length q \<le> 0xffff" using Cons.prems(2) s by simp
  then have uq: "unat (of_nat (length q) :: u16) = length q" by (intro unat_of_nat_small) simp
  show ?case
  proof (cases "k = 0")
    case True
    then show ?thesis using Cons.prems(1) s by simp
  next
    case k: False
    define c where "c = (if (of_nat (length q) :: u16) > k then k else of_nat (length q))"
    have c: "unat c = min (unat k) (length q)" using uq by (auto simp: c_def word_less_nat_alt)
    have kc: "unat (k - c) = unat k - min (unat k) (length q)" using c by (subst unat_sub) (auto simp: word_le_nat_alt)
    have lt: "k - c < 0x7fff" using kc Cons.prems(4) by (simp add: word_less_nat_alt)
    let ?y = "take (unat c) q"
    let ?acc = "FOLD_U32T (acc + ucast (lwip_standard_chksum a ?y))"
    have "oc (unat (lwip_standard_chksum a ?y)) (le_sum ?y)" using q by (intro standard_chksum_oc) simp
    note add = chain_acc_add [OF Cons.prems(1) this]
    have ev: "chksum_chain_partial (s # p) k sw acc =
        (if odd (length q) then chksum_chain_partial p (k - c) (\<not> sw) (SWAP_BYTES_IN_WORD ?acc)
         else chksum_chain_partial p (k - c) sw ?acc)" for sw
      using k lt s by (simp add: Let_def c_def [symmetric] mod_2_eq_odd)
    show ?thesis
    proof (cases "unat k \<le> length q")
      case True
      then have e: "k - c = 0" using kc by (simp add: unat_eq_zero)
      have y: "take (unat k) (chain_bytes (s # p)) = ?y" using True c s by (simp add: chain_bytes_def min_def)
      have stop: "chksum_chain_partial p 0 sw b = Some (sw, b)" for sw b by (cases p) auto
      show ?thesis unfolding ev e stop y using add chain_acc_swap [OF add] by (cases "odd (length q)") auto
    next
      case False
      then have e: "?y = q" "unat (k - c) = unat k - length q" using c kc by auto
      have step: "chain_acc (odd (length (xs @ q))) (n + le_sum (xs @ q))
          (if odd (length q) then SWAP_BYTES_IN_WORD ?acc else ?acc)"
        using add chain_acc_swap [OF add] e(1) by simp
      have "\<exists>swapped acc'. chksum_chain_partial p (k - c) (odd (length (xs @ q)))
          (if odd (length q) then SWAP_BYTES_IN_WORD ?acc else ?acc) = Some (swapped, acc') \<and>
          chain_acc swapped (n + le_sum ((xs @ q) @ take (unat (k - c)) (chain_bytes p))) acc'"
        by (rule Cons.IH [OF step]) (use Cons.prems s e False in \<open>auto simp: chain_bytes_def\<close>)
      then show ?thesis unfolding ev using False s e by (cases "odd (length q)") (simp_all add: chain_bytes_def)
    qed
  qed
qed

lemma inet_chksum_pseudo_partial_rfc1071:
  assumes "\<forall>(a, q) \<in> set p. length q \<le> 0xffff" "unat k \<le> length (chain_bytes p)" "unat k < 0x7fff"
  shows "inet_chksum_pseudo_partial p proto len k src dest =
    Some (lwip_htons (rfc1071_checksum (pseudo_header proto len src dest @ take (unat k) (chain_bytes p))))"
proof -
  have "chain_acc False (le_sum (le_bytes src @ le_bytes dest)) (addr_sum src dest)"
    using addr_sum_oc by (simp add: chain_acc_def)
  with chksum_chain_partial_acc [of "[]" "le_sum (le_bytes src @ le_bytes dest)" "addr_sum src dest" p k] assms
  obtain swapped acc where c: "chksum_chain_partial p k False (addr_sum src dest) = Some (swapped, acc)"
    "chain_acc swapped (le_sum (le_bytes src @ le_bytes dest) + le_sum (take (unat k) (chain_bytes p))) acc"
    by auto
  from pseudo_end [OF chain_acc_end [OF c(2)]] show ?thesis
    by (simp add: inet_chksum_pseudo_partial_def inet_cksum_pseudo_partial_base_def c(1) Let_def)
qed

section \<open>What the checksum is good for\<close>

lemma rfc1071_eqI: "oc (le_sum xs) (le_sum ys) \<Longrightarrow> rfc1071_sum xs = rfc1071_sum ys"
  by (rule oc_eq) (meson be_le oc_mult oc_sym oc_trans rfc1071_oc zero_less_numeral, simp_all add: rfc1071_bound)

lemma rfc1071_cong: "rfc1071_sum xs = rfc1071_sum ys \<Longrightarrow> oc (le_sum xs) (le_sum ys)"
  by (metis be_le oc_cancel oc_sym oc_trans rfc1071_oc)

lemma rfc1071_checksum_eq_iff: "rfc1071_checksum xs = rfc1071_checksum ys \<longleftrightarrow> rfc1071_sum xs = rfc1071_sum ys"
proof -
  have "unat (of_nat (rfc1071_sum zs) :: u16) = rfc1071_sum zs" for zs
    using rfc1071_bound [of zs] by (intro unat_of_nat_small) simp
  moreover have "NOT a = NOT b \<longleftrightarrow> a = b" for a b :: u16 by (metis bit.double_compl)
  ultimately show ?thesis unfolding rfc1071_checksum_def by metis
qed

lemma rfc1071_filled:
  assumes "even (length pre)"
  shows "rfc1071_sum (pre @ le16_bytes (lwip_htons (rfc1071_checksum (pre @ [0, 0] @ post))) @ post) = 65535"
proof -
  let ?z = "pre @ [0, 0] @ post" and ?c = "lwip_htons (rfc1071_checksum (pre @ [0, 0] @ post))"
  let ?f = "pre @ le16_bytes ?c @ post"
  have b: "rfc1071_sum ?z \<le> 65535" by (rule rfc1071_bound)
  have c: "unat (rfc1071_checksum ?z) = 65535 - rfc1071_sum ?z"
  proof -
    have n: "NOT w = - 1 - w" "w \<le> - 1" for w :: u16 by (simp_all add: not_eq_complement)
    have "unat (of_nat (rfc1071_sum ?z) :: u16) = rfc1071_sum ?z" using b by (intro unat_of_nat_small) simp
    then show ?thesis unfolding rfc1071_checksum_def n(1) by (subst unat_sub) (simp_all add: n(2) unsigned_minus_1_eq_mask mask_eq_exp_minus_1)
  qed
  have bytes: "le16_bytes ?c = [ucast (drop_bit 8 (rfc1071_checksum ?z)), ucast (rfc1071_checksum ?z)]"
    unfolding htons_bytes by (simp add: le16_bytes_def)
  have be: "be_sum (pre @ xs) = be_sum pre + be_sum xs" for xs
    using assms by (induction pre rule: be_sum.induct) auto
  have "be_sum (le16_bytes ?c @ post) = unat (rfc1071_checksum ?z) + be_sum post"
    unfolding bytes using unat_le16 [of "ucast (rfc1071_checksum ?z)" "ucast (drop_bit 8 (rfc1071_checksum ?z))"]
    by (simp add: le16_le16_bytes)
  then have "be_sum ?f = be_sum ?z + (65535 - rfc1071_sum ?z)" using c by (simp add: be)
  moreover have "oc (be_sum ?z + (65535 - rfc1071_sum ?z)) (rfc1071_sum ?z + (65535 - rfc1071_sum ?z))"
    by (intro oc_add_mono oc_refl oc_sym [OF rfc1071_oc])
  ultimately have "oc (be_sum ?f) 65535" using b by simp
  then have "oc (rfc1071_sum ?f) 65535" using rfc1071_oc oc_trans by blast
  then show ?thesis by (rule oc_eq) (simp_all add: rfc1071_bound)
qed

lemma be_sum_update:
  assumes "i < length xs"
  shows "\<exists>m k. (k = 1 \<or> k = 256) \<and> be_sum xs = m + k * unat (xs ! i) \<and> be_sum (xs[i := v]) = m + k * unat v"
  using assms
proof (induction xs arbitrary: i rule: be_sum.induct)
  case (2 a)
  then show ?case by (intro exI [of _ 0] exI [of _ 256]) auto
next
  case (3 a b bs)
  consider "i = 0" | "i = 1" | j where "i = Suc (Suc j)" "j < length bs"
    using "3.prems" by (cases i; cases "i - 1") auto
  then show ?case
  proof cases
    case 1
    then show ?thesis by (intro exI [of _ "unat b + be_sum bs"] exI [of _ 256]) auto
  next
    case 2
    then show ?thesis by (intro exI [of _ "256 * unat a + be_sum bs"] exI [of _ 1]) auto
  next
    case 3
    from "3.IH" [OF 3(2)] obtain m k where "k = 1 \<or> k = 256" "be_sum bs = m + k * unat (bs ! j)"
      "be_sum (bs[j := v]) = m + k * unat v" by blast
    with 3 show ?thesis by (intro exI [of _ "256 * unat a + unat b + m"] exI [of _ k]) auto
  qed
qed simp

lemma no_small_multiple:
  assumes "k = 1 \<or> k = 256" "x < 256" "y < 256" "x \<noteq> y"
  shows "\<not> 65535 dvd int k * (int x - int y)"
proof
  assume d: "65535 dvd int k * (int x - int y)"
  have "int k * (int x - int y) \<noteq> 0" using assms by auto
  then have "65535 \<le> \<bar>int k * (int x - int y)\<bar>" using dvd_imp_le_int [OF _ d] by simp
  moreover have "\<bar>int x - int y\<bar> \<le> 255" using assms by linarith
  then have "\<bar>int k * (int x - int y)\<bar> \<le> 65280" using assms(1) by (auto simp: abs_mult)
  ultimately show False by simp
qed

lemma rfc1071_byte_change:
  assumes "i < length xs" "v \<noteq> xs ! i"
  shows "rfc1071_sum (xs[i := v]) \<noteq> rfc1071_sum xs"
proof
  assume eq: "rfc1071_sum (xs[i := v]) = rfc1071_sum xs"
  obtain m k where k: "k = 1 \<or> k = 256" "be_sum xs = m + k * unat (xs ! i)" "be_sum (xs[i := v]) = m + k * unat v"
    using be_sum_update [OF assms(1)] by blast
  have "oc (m + k * unat v) (m + k * unat (xs ! i))"
    using eq rfc1071_oc [of "xs[i := v]"] rfc1071_oc [of xs] oc_sym oc_trans unfolding k(2,3) by metis
  then have "int ((m + k * unat v) mod 65535) = int ((m + k * unat (xs ! i)) mod 65535)" by (simp only: oc_def)
  then have "int (m + k * unat v) mod 65535 = int (m + k * unat (xs ! i)) mod 65535"
    by (simp only: of_nat_mod of_nat_numeral)
  then have "65535 dvd int k * (int (unat v) - int (unat (xs ! i)))"
    by (simp add: mod_eq_dvd_iff algebra_simps)
  moreover have "unat v < 256" "unat (xs ! i) < 256" "unat v \<noteq> unat (xs ! i)"
    using unat_less_exp [of v] unat_less_exp [of "xs ! i"] assms(2) by (auto simp: word_unat_eq_iff)
  ultimately show False using k(1) no_small_multiple by blast
qed

lemma checksum_zero: "lwip_htons (rfc1071_checksum xs) = 0 \<longleftrightarrow> rfc1071_sum xs = 65535"
proof -
  have "lwip_htons h = 0 \<longleftrightarrow> h = 0" for h by (metis htons_htons lwip_htons_def PP_HTONS_def and_zero_eq zero_and_eq push_bit_of_0 drop_bit_of_0 or.left_neutral)
  moreover have "unat (of_nat (rfc1071_sum xs) :: u16) = rfc1071_sum xs"
    using rfc1071_bound [of xs] by (intro unat_of_nat_small) simp
  moreover have "NOT w = 0 \<longleftrightarrow> w = - 1" for w :: u16 by (metis bit.double_compl bit.compl_zero)
  moreover have "w = - 1 \<longleftrightarrow> unat w = 65535" for w :: u16
    by (simp add: word_unat_eq_iff unsigned_minus_1_eq_mask mask_eq_exp_minus_1)
  ultimately show ?thesis by (simp add: rfc1071_checksum_def)
qed

section \<open>Claims\<close>

text \<open>
  C18: The three implementations of \<^verbatim>\<open>lwip_standard_chksum\<close> agree, whatever the alignment of the
  buffer, for all lengths up to the documented 0x20000, and return the RFC 1071 sum in network order.
\<close>

theorem standard_chksum_versions:
  assumes "length data \<le> 0x20000"
  shows "lwip_standard_chksum ptr data = lwip_htons (of_nat (rfc1071_sum data)) \<and>
    lwip_standard_chksum_1 data = lwip_standard_chksum ptr data \<and>
    lwip_standard_chksum_3 ptr data = lwip_standard_chksum ptr data"
proof -
  have e: "unat (lwip_htons h) = rfc1071_sum data \<Longrightarrow> h = lwip_htons (of_nat (rfc1071_sum data))" for h
    by (metis htons_htons of_nat_unat ucast_id)
  have "lwip_standard_chksum ptr data = lwip_htons (of_nat (rfc1071_sum data))"
    by (rule e [OF chksum_rightI [OF standard_chksum_oc [OF assms]]])
  moreover have "lwip_standard_chksum_1 data = lwip_htons (of_nat (rfc1071_sum data))"
    by (rule e [OF standard_chksum_1_oc [OF assms]])
  moreover have "lwip_standard_chksum_3 ptr data = lwip_htons (of_nat (rfc1071_sum data))"
    by (rule e [OF chksum_rightI [OF standard_chksum_3_oc]])
  ultimately show ?thesis by simp
qed

theorem standard_chksum_versions_witness:
  "lwip_standard_chksum 3 [1, 2, 3, 4, 5] = lwip_htons 0x0906 \<and>
   lwip_standard_chksum_3 3 [1, 2, 3, 4, 5] = lwip_standard_chksum 3 [1, 2, 3, 4, 5]"
proof -
  have h: "length [1, 2, 3, 4, 5 :: byte] \<le> 0x20000" by simp
  show ?thesis using standard_chksum_versions [OF h, of 3] by (simp add: oc_add_def)
qed

text \<open>
  C19: \<^verbatim>\<open>inet_chksum_pbuf\<close> over a chain is the RFC 1071 checksum of the bytes of the chain put together:
  it does not depend on where the chain is cut, on odd pbuf lengths or on the alignment of the payloads.
\<close>

theorem inet_chksum_pbuf_concat:
  assumes "\<forall>(a, q) \<in> set p. length q \<le> 0x20000"
  shows "inet_chksum_pbuf p = lwip_htons (rfc1071_checksum (concat (map snd p)))"
  using inet_chksum_pbuf_rfc1071 [OF assms] by (simp add: chain_bytes_def)

theorem inet_chksum_pbuf_concat_witness:
  "inet_chksum_pbuf [(0, [1, 2, 3]), (1, [4, 5])] = lwip_htons (rfc1071_checksum [1, 2, 3, 4, 5])"
proof -
  have h: "\<forall>(a, q) \<in> set [(0 :: u32, [1, 2, 3 :: byte]), (1, [4, 5])]. length q \<le> 0x20000" by simp
  show ?thesis using inet_chksum_pbuf_concat [OF h] by simp
qed

text \<open>
  C20: \<^verbatim>\<open>inet_chksum_pseudo\<close>, used for every TCP segment, is the RFC 1071 checksum of the pseudo header
  of RFC 793 (source, destination, zero, protocol, length) followed by the bytes of the chain; the partial
  variant covers the first \<open>k\<close> bytes of the chain and passes its assertion for \<open>k\<close> below 0x7fff.
\<close>

theorem inet_chksum_pseudo_header:
  assumes "\<forall>(a, q) \<in> set p. length q \<le> 0xffff" "unat k \<le> length (concat (map snd p))" "unat k < 0x7fff"
  shows "inet_chksum_pseudo p proto len src dest =
      lwip_htons (rfc1071_checksum (pseudo_header proto len src dest @ concat (map snd p))) \<and>
    inet_chksum_pseudo_partial p proto len k src dest =
      Some (lwip_htons (rfc1071_checksum (pseudo_header proto len src dest @ take (unat k) (concat (map snd p)))))"
proof -
  have "\<forall>(a, q) \<in> set p. length q \<le> 0x20000" using assms(1) by fastforce
  with assms inet_chksum_pseudo_rfc1071 [of p] inet_chksum_pseudo_partial_rfc1071 [of p k] show ?thesis
    by (simp add: chain_bytes_def)
qed

theorem inet_chksum_pseudo_header_witness:
  "inet_chksum_pseudo [(2, [9, 8, 7])] 6 3 0x6401A8C0 0x6501A8C0 =
      lwip_htons (rfc1071_checksum (pseudo_header 6 3 0x6401A8C0 0x6501A8C0 @ [9, 8, 7])) \<and>
    inet_chksum_pseudo_partial [(2, [9, 8, 7])] 6 3 2 0x6401A8C0 0x6501A8C0 =
      Some (lwip_htons (rfc1071_checksum (pseudo_header 6 3 0x6401A8C0 0x6501A8C0 @ [9, 8])))"
proof -
  have h: "\<forall>(a, q) \<in> set [(2 :: u32, [9, 8, 7 :: byte])]. length q \<le> 0xffff"
    "unat (2 :: u16) \<le> length (concat (map snd [(2 :: u32, [9, 8, 7 :: byte])]))" "unat (2 :: u16) < 0x7fff"
    by simp_all
  show ?thesis using inet_chksum_pseudo_header [OF h, where proto = 6 and len = 3 and src = "0x6401A8C0" and dest = "0x6501A8C0"] by simp
qed

text \<open>
  Filling in a checksum makes the packet verify. When the checksum of a packet with a zeroed, even-aligned
  checksum field is stored in that field, \<^verbatim>\<open>inet_chksum\<close> over the whole packet is 0, the test that
  \<^verbatim>\<open>ip4_input\<close>, \<^verbatim>\<open>icmp_input\<close> and \<^verbatim>\<open>tcp_input\<close> make; when afterwards any single byte is changed
  the checksum is no longer 0.
\<close>

lemma inet_chksum_verifies:
  assumes "even (length pre)" "length pre + length post + 2 \<le> 0x20000"
    "packet = pre @ le16_bytes (inet_chksum ptr (pre @ [0, 0] @ post)) @ post"
    "i < length packet" "v \<noteq> packet ! i"
  shows "inet_chksum ptr' packet = 0 \<and> inet_chksum ptr' (packet[i := v]) \<noteq> 0"
proof -
  have len: "length packet \<le> 0x20000" "length (pre @ [0, 0] @ post) \<le> 0x20000"
    using assms(2,3) by (simp_all add: le16_bytes_def)
  have "rfc1071_sum packet = 65535"
    unfolding assms(3) inet_chksum_rfc1071 [OF len(2)] by (rule rfc1071_filled [OF assms(1)])
  moreover have "rfc1071_sum (packet[i := v]) \<noteq> rfc1071_sum packet" by (rule rfc1071_byte_change [OF assms(4,5)])
  ultimately show ?thesis using len(1) by (simp add: inet_chksum_rfc1071 checksum_zero)
qed

end
