(* ===== verification/Ip4_Addr.thy ===== *)
theory Ip4_Addr
  imports Lwip_Types Lwip_Def
begin

text \<open>
  IPv4 addresses, \<^verbatim>\<open>core/ipv4/ip4_addr.c\<close> with the macros of \<^verbatim>\<open>lwip/ip4_addr.h\<close> it uses and the
  character classes of \<^verbatim>\<open>lwip/arch.h\<close>. An address is the \<^verbatim>\<open>u32_t\<close> that holds its four bytes in
  network order.
\<close>

section \<open>Classification\<close>

definition IPADDR_NONE :: u32 where "IPADDR_NONE = 0xffffffff"
definition IPADDR_ANY :: u32 where "IPADDR_ANY = 0"
definition IPADDR_BROADCAST :: u32 where "IPADDR_BROADCAST = 0xffffffff"

definition IP4_ADDR :: "u32 \<Rightarrow> u32 \<Rightarrow> u32 \<Rightarrow> u32 \<Rightarrow> u32" where
  "IP4_ADDR a b c d = PP_HTONL (LWIP_MAKEU32 a b c d)"

definition ip4_addr_netcmp :: "u32 \<Rightarrow> u32 \<Rightarrow> u32 \<Rightarrow> bool" where
  "ip4_addr_netcmp addr1 addr2 m \<longleftrightarrow> addr1 AND m = addr2 AND m"

definition ip4_addr_isany_val :: "u32 \<Rightarrow> bool" where
  "ip4_addr_isany_val addr \<longleftrightarrow> addr = IPADDR_ANY"

definition ip4_addr_ismulticast :: "u32 \<Rightarrow> bool" where
  "ip4_addr_ismulticast addr \<longleftrightarrow> addr AND PP_HTONL 0xf0000000 = PP_HTONL 0xe0000000"

definition ip4_addr_islinklocal :: "u32 \<Rightarrow> bool" where
  "ip4_addr_islinklocal addr \<longleftrightarrow> addr AND PP_HTONL 0xffff0000 = PP_HTONL 0xa9fe0000"

definition ip4_addr_isloopback :: "u32 \<Rightarrow> bool" where
  "ip4_addr_isloopback addr \<longleftrightarrow> addr AND PP_HTONL 0xff000000 = PP_HTONL (push_bit 24 127)"

definition ip4_addr_isbroadcast_u32 :: "u32 \<Rightarrow> netif \<Rightarrow> bool" where
  "ip4_addr_isbroadcast_u32 addr nif =
     (if NOT addr = IPADDR_ANY \<or> addr = IPADDR_ANY then True
      else if netif_flags nif AND NETIF_FLAG_BROADCAST = 0 then False
      else if addr = ip_addr nif then False
      else if ip4_addr_netcmp addr (ip_addr nif) (netmask nif) \<and>
              addr AND NOT (netmask nif) = IPADDR_BROADCAST AND NOT (netmask nif) then True
      else False)"

text \<open>The two loops over the mask bits, from bit \<open>n - 1\<close> down: position of the first zero, then no one.\<close>

fun first_zero :: "u32 \<Rightarrow> nat \<Rightarrow> nat" where
  "first_zero nm 0 = 0"
| "first_zero nm (Suc i) = (if nm AND push_bit i 1 = 0 then Suc i else first_zero nm i)"

fun no_one :: "u32 \<Rightarrow> nat \<Rightarrow> bool" where
  "no_one nm 0 = True"
| "no_one nm (Suc i) = (if nm AND push_bit i 1 \<noteq> 0 then False else no_one nm i)"

definition ip4_addr_netmask_valid :: "u32 \<Rightarrow> bool" where
  "ip4_addr_netmask_valid nm =
     (let nm_hostorder = lwip_htonl nm in no_one nm_hostorder (first_zero nm_hostorder 32))"

section \<open>From text\<close>

definition lwip_in_range :: "byte \<Rightarrow> byte \<Rightarrow> byte \<Rightarrow> bool" where
  "lwip_in_range c lo up \<longleftrightarrow> lo \<le> c \<and> c \<le> up"

definition lwip_isdigit :: "byte \<Rightarrow> bool" where
  "lwip_isdigit c \<longleftrightarrow> lwip_in_range c 0x30 0x39"

definition lwip_isxdigit :: "byte \<Rightarrow> bool" where
  "lwip_isxdigit c \<longleftrightarrow> lwip_isdigit c \<or> lwip_in_range c 0x61 0x66 \<or> lwip_in_range c 0x41 0x46"

definition lwip_islower :: "byte \<Rightarrow> bool" where
  "lwip_islower c \<longleftrightarrow> lwip_in_range c 0x61 0x7a"

definition lwip_isspace :: "byte \<Rightarrow> bool" where
  "lwip_isspace c \<longleftrightarrow> c = 0x20 \<or> c = 0x0c \<or> c = 0x0a \<or> c = 0x0d \<or> c = 0x09 \<or> c = 0x0b"

text \<open>The inner loop collects a number in \<open>val\<close>, the arithmetic wrapping at 32 bits.\<close>

fun scan_digits :: "u32 \<Rightarrow> bytes \<Rightarrow> u32 \<Rightarrow> u32 \<times> bytes" where
  "scan_digits base [] val = (val, [])"
| "scan_digits base (c # cp) val =
     (if lwip_isdigit c then
        (if base = 8 \<and> ucast c - 0x30 \<ge> (8 :: u32) then (val, c # cp)
         else scan_digits base cp (val * base + (ucast c - 0x30)))
      else if base = 16 \<and> lwip_isxdigit c then
        scan_digits base cp (push_bit 4 val OR (ucast c + 10 - (if lwip_islower c then 0x61 else 0x41)))
      else (val, c # cp))"

definition scan_number :: "bytes \<Rightarrow> (u32 \<times> bytes) option" where
  "scan_number cp =
     (if \<not> lwip_isdigit (char0 cp) then None
      else if char0 cp = 0x30 then
        (let cp = tl cp
         in if char0 cp = 0x78 \<or> char0 cp = 0x58 then Some (scan_digits 16 (tl cp) 0)
            else Some (scan_digits 8 cp 0))
      else Some (scan_digits 10 cp 0))"

text \<open>The outer loop: the values before the dots, the last value, and the text behind it.\<close>

function aton_parts :: "bytes \<Rightarrow> u32 list \<Rightarrow> (u32 list \<times> u32 \<times> bytes) option" where
  "aton_parts cp parts =
     (case scan_number cp of
        None \<Rightarrow> None
      | Some (val, cp) \<Rightarrow>
          if char0 cp = 0x2e then
            (if length parts \<ge> 3 then None else aton_parts (tl cp) (parts @ [val]))
          else Some (parts, val, cp))"
  by auto
termination by (relation "measure (\<lambda>(cp, parts). 4 - length parts)") auto

declare aton_parts.simps [simp del]

definition concoct :: "u32 list \<Rightarrow> u32 \<Rightarrow> u32 option" where
  "concoct parts val =
     (case parts of
        [] \<Rightarrow> Some val
      | [a] \<Rightarrow> if val > 0xffffff \<or> a > 0xff then None else Some (val OR push_bit 24 a)
      | [a, b] \<Rightarrow>
          if val > 0xffff \<or> a > 0xff \<or> b > 0xff then None
          else Some (val OR (push_bit 24 a OR push_bit 16 b))
      | [a, b, c] \<Rightarrow>
          if val > 0xff \<or> a > 0xff \<or> b > 0xff \<or> c > 0xff then None
          else Some (val OR (push_bit 24 a OR push_bit 16 b OR push_bit 8 c))
      | _ \<Rightarrow> None)"

definition ip4addr_aton :: "bytes \<Rightarrow> u32 option" where
  "ip4addr_aton cp =
     (case aton_parts cp [] of
        None \<Rightarrow> None
      | Some (parts, val, cp) \<Rightarrow>
          if char0 cp \<noteq> 0 \<and> \<not> lwip_isspace (char0 cp) then None
          else (case concoct parts val of None \<Rightarrow> None | Some val \<Rightarrow> Some (lwip_htonl val)))"

definition ipaddr_addr :: "bytes \<Rightarrow> u32" where
  "ipaddr_addr cp = (case ip4addr_aton cp of Some val \<Rightarrow> val | None \<Rightarrow> IPADDR_NONE)"

section \<open>To text\<close>

definition IP4ADDR_STRLEN_MAX :: nat where [layout_simps]: "IP4ADDR_STRLEN_MAX = 16"

text \<open>The \<^verbatim>\<open>do\<close> loop leaves the digits of one address byte, last one first, in \<^verbatim>\<open>inv\<close>.\<close>

function inv_digits :: "byte \<Rightarrow> bytes" where
  "inv_digits ap = (0x30 + ap mod 10) # (if ap div 10 \<noteq> 0 then inv_digits (ap div 10) else [])"
  by auto
termination
proof (relation "measure unat")
  fix ap :: byte assume "ap div 10 \<noteq> 0"
  then have "unat (ap div 10) \<noteq> 0" by (simp only: unat_eq_zero not_False_eq_True)
  then show "(ap div 10, ap) \<in> measure unat" by (simp add: unat_div)
qed simp

declare inv_digits.simps [simp del]

text \<open>\<open>None\<close> is the NULL that the function returns when the buffer is too small.\<close>

fun put_chars :: "int \<Rightarrow> bytes \<Rightarrow> nat \<times> bytes \<Rightarrow> (nat \<times> bytes) option" where
  "put_chars buflen [] st = Some st"
| "put_chars buflen (c # cs) (len, buf) =
     (if int len \<ge> buflen then None else put_chars buflen cs (Suc len, buf[len := c]))"

fun ntoa_loop :: "int \<Rightarrow> bytes \<Rightarrow> nat \<times> bytes \<Rightarrow> (nat \<times> bytes) option" where
  "ntoa_loop buflen [] st = Some st"
| "ntoa_loop buflen (ap # aps) st =
     (case put_chars buflen (rev (inv_digits ap)) st of
        None \<Rightarrow> None
      | Some st \<Rightarrow>
          (case put_chars buflen [0x2e] st of None \<Rightarrow> None | Some st \<Rightarrow> ntoa_loop buflen aps st))"

definition ip4addr_ntoa_r :: "u32 \<Rightarrow> bytes \<Rightarrow> int \<Rightarrow> bytes option" where
  "ip4addr_ntoa_r addr buf buflen =
     (case ntoa_loop buflen (le_bytes addr) (0, buf) of
        None \<Rightarrow> None
      | Some (rp, buf) \<Rightarrow> Some (buf[rp - 1 := 0]))"

text \<open>The result points to a static buffer, which is passed in here.\<close>

definition ip4addr_ntoa :: "u32 \<Rightarrow> bytes \<Rightarrow> bytes option" where
  "ip4addr_ntoa addr str = ip4addr_ntoa_r addr str (int IP4ADDR_STRLEN_MAX)"

text \<open>Dotted decimal notation.\<close>

fun dotted :: "bytes \<Rightarrow> bytes" where
  "dotted [] = []"
| "dotted [b] = decimal (unat b)"
| "dotted (b # bs) = decimal (unat b) @ 0x2e # dotted bs"

section \<open>Netmasks\<close>

lemmas and_push_1 = push_bit_eq_mult and_exp_eq_0_iff_not_bit word_and_one_zero_iff

lemma no_one_iff: "no_one nm n \<longleftrightarrow> (\<forall>i<n. \<not> bit nm i)"
  by (induction n) (auto simp: and_push_1 less_Suc_eq)

lemma first_zero_spec:
  "first_zero nm n \<le> n \<and> (\<forall>i. first_zero nm n \<le> i \<and> i < n \<longrightarrow> bit nm i) \<and>
   (first_zero nm n \<noteq> 0 \<longrightarrow> \<not> bit nm (first_zero nm n - 1))"
  by (induction n) (auto simp: and_push_1 less_Suc_eq)

lemma netmask_valid_iff:
  "ip4_addr_netmask_valid nm \<longleftrightarrow> (\<exists>k\<le>32. lwip_htonl nm = NOT (mask k))"
proof -
  define h where "h = lwip_htonl nm"
  have eq: "h = NOT (mask k) \<longleftrightarrow> (\<forall>i<32. bit h i \<longleftrightarrow> k \<le> i)" if "k \<le> 32" for k
  proof
    assume "h = NOT (mask k)"
    then show "\<forall>i<32. bit h i \<longleftrightarrow> k \<le> i" by (auto simp: bit_simps)
  next
    assume "\<forall>i<32. bit h i \<longleftrightarrow> k \<le> i"
    then show "h = NOT (mask k)" by (intro bit_word_eqI) (auto simp: bit_simps)
  qed
  note f = first_zero_spec [of h 32]
  show ?thesis
  proof
    assume "ip4_addr_netmask_valid nm"
    then have z: "\<forall>i<first_zero h 32. \<not> bit h i" by (simp add: ip4_addr_netmask_valid_def h_def no_one_iff Let_def)
    have "\<forall>i<32. bit h i \<longleftrightarrow> first_zero h 32 \<le> i" using z f by (meson not_le)
    then show "\<exists>k\<le>32. lwip_htonl nm = NOT (mask k)" using f eq h_def by blast
  next
    assume "\<exists>k\<le>32. lwip_htonl nm = NOT (mask k)"
    then obtain k where k: "k \<le> 32" "\<forall>i<32. bit h i \<longleftrightarrow> k \<le> i" using eq h_def by blast
    have "first_zero h 32 \<le> k"
    proof (rule ccontr)
      assume "\<not> first_zero h 32 \<le> k"
      then have "first_zero h 32 - 1 < 32" "k \<le> first_zero h 32 - 1" "first_zero h 32 \<noteq> 0" using f by linarith+
      with f k(2) show False by blast
    qed
    then show "ip4_addr_netmask_valid nm" using k by (auto simp: ip4_addr_netmask_valid_def h_def [symmetric] no_one_iff Let_def)
  qed
qed

section \<open>Printing\<close>

lemma inv_digits_decimal: "rev (inv_digits b) = decimal (unat b)"
proof (induction b rule: inv_digits.induct)
  case (1 ap)
  have d: "0x30 + ap mod 10 = of_nat (48 + unat ap mod 10)"
  proof -
    have "unat ap mod 10 < 2 ^ LENGTH(8)" by simp
    then have "unat (of_nat (unat ap mod 10) :: byte) = unat ap mod 10" by (rule unat_of_nat_small)
    then have "ap mod 10 = of_nat (unat ap mod 10)" by (simp add: word_unat_eq_iff unat_mod)
    then show ?thesis by simp
  qed
  have z: "ap div 10 = 0 \<longleftrightarrow> unat ap < 10" by (simp add: word_unat_eq_iff unat_div div_eq_0_iff)
  show ?case
  proof (cases "ap div 10 = 0")
    case True
    then have "unat ap < 10" using z by simp
    with True d show ?thesis by (subst inv_digits.simps, subst decimal.simps) simp
  next
    case False
    then have "\<not> unat ap < 10" using z by simp
    with False d 1 show ?thesis
      by (subst inv_digits.simps, subst decimal.simps) (simp add: unat_div)
  qed
qed

lemma put_chars_eq:
  "len + length cs \<le> length buf \<Longrightarrow>
   put_chars buflen cs (len, buf) =
     (if cs = [] \<or> int (len + length cs) \<le> buflen
      then Some (len + length cs, take len buf @ cs @ drop (len + length cs) buf) else None)"
proof (induction cs arbitrary: len buf)
  case (Cons c cs)
  have e: "take (Suc len) (buf[len := c]) = take len buf @ [c]" using Cons.prems
    by (simp add: take_Suc_conv_app_nth)
  show ?case
    using Cons.prems Cons.IH [of "Suc len" "buf[len := c]"] e by (cases cs) auto
qed simp

definition dots :: "bytes \<Rightarrow> bytes" where
  "dots bs = concat (map (\<lambda>b. decimal (unat b) @ [0x2e]) bs)"

lemma dotted_dots: "bs \<noteq> [] \<Longrightarrow> dots bs = dotted bs @ [0x2e]"
  by (induction bs rule: dotted.induct) (auto simp: dots_def)

lemma ntoa_loop_eq:
  "len + length (dots bs) \<le> length buf \<Longrightarrow>
   ntoa_loop buflen bs (len, buf) =
     (if bs = [] \<or> int (len + length (dots bs)) \<le> buflen
      then Some (len + length (dots bs), take len buf @ dots bs @ drop (len + length (dots bs)) buf) else None)"
proof (induction bs arbitrary: len buf)
  case (Cons b bs)
  let ?d = "decimal (unat b)"
  have l: "length (dots (b # bs)) = Suc (length ?d + length (dots bs))" by (simp add: dots_def)
  have p1: "put_chars buflen (rev (inv_digits b)) (len, buf) =
      (if int (len + length ?d) \<le> buflen then Some (len + length ?d, take len buf @ ?d @ drop (len + length ?d) buf) else None)"
    using Cons.prems l by (subst inv_digits_decimal, subst put_chars_eq) (auto simp: decimal_not_Nil)
  let ?b1 = "take len buf @ ?d @ drop (len + length ?d) buf"
  have lb: "length ?b1 = length buf" using Cons.prems l by simp
  have p2: "put_chars buflen [0x2e] (len + length ?d, ?b1) =
      (if int (len + length ?d + 1) \<le> buflen
       then Some (len + length ?d + 1, take len buf @ ?d @ [0x2e] @ drop (len + length ?d + 1) buf) else None)"
    using Cons.prems l lb by (subst put_chars_eq) auto
  let ?b2 = "take len buf @ ?d @ [0x2e] @ drop (len + length ?d + 1) buf"
  have "ntoa_loop buflen bs (len + length ?d + 1, ?b2) =
     (if bs = [] \<or> int (len + length ?d + 1 + length (dots bs)) \<le> buflen
      then Some (len + length ?d + 1 + length (dots bs),
        take (len + length ?d + 1) ?b2 @ dots bs @ drop (len + length ?d + 1 + length (dots bs)) ?b2) else None)"
    using Cons.prems l by (intro Cons.IH) simp
  then show ?case using p1 p2 l Cons.prems by (auto simp: dots_def add_ac)
qed (simp add: dots_def)

lemma decimal_length: "n < 1000 \<Longrightarrow> length (decimal n) \<le> 3"
  by (subst decimal.simps, subst decimal.simps, subst decimal.simps) auto

lemma dotted_nonzero: "0 \<notin> set (dotted bs)"
  by (induction bs rule: dotted.induct) (auto simp: decimal_nonzero)

lemma le_bytes_4: obtains a b c d where "le_bytes w = [a, b, c, d]"
  by (simp add: le_bytes_def upt_rec)

lemma dotted_length: "length (dotted (le_bytes addr)) \<le> 15"
proof -
  obtain a b c d where w: "le_bytes addr = [a, b, c, d]" by (rule le_bytes_4)
  have "length (decimal (unat x)) \<le> 3" for x :: byte
    using unat_less_exp [of x] by (intro decimal_length) simp
  from this [of a] this [of b] this [of c] this [of d] show ?thesis unfolding w by simp
qed

lemma ntoa_r_eq:
  assumes "length buf = n" "length (dotted (le_bytes addr)) < n"
  shows "\<exists>b. ip4addr_ntoa_r addr buf (int n) = Some b \<and> cstr b = dotted (le_bytes addr) \<and> length b = n"
proof -
  let ?s = "dotted (le_bytes addr)"
  have ne: "le_bytes addr \<noteq> []" using length_le_bytes [of addr] by force
  have d: "dots (le_bytes addr) = ?s @ [0x2e]" by (rule dotted_dots [OF ne])
  have "ntoa_loop (int n) (le_bytes addr) (0, buf) =
      Some (Suc (length ?s), ?s @ 0x2e # drop (Suc (length ?s)) buf)"
    using assms by (subst ntoa_loop_eq) (simp_all add: d)
  then have "ip4addr_ntoa_r addr buf (int n) = Some (?s @ 0 # drop (Suc (length ?s)) buf)"
    by (simp add: ip4addr_ntoa_r_def list_update_append)
  moreover have "cstr (?s @ 0 # drop (Suc (length ?s)) buf) = ?s" by (rule cstr_append_0 [OF dotted_nonzero])
  ultimately show ?thesis using assms by simp
qed

section \<open>Parsing\<close>

lemma digit_char:
  assumes "k < 10"
  shows "lwip_isdigit (of_nat (48 + k))" "(ucast (of_nat (48 + k) :: byte) :: u32) - 0x30 = of_nat k"
    "of_nat (48 + k) = (0x30 :: byte) \<longleftrightarrow> k = 0"
proof -
  have u: "unat (of_nat (48 + k) :: byte) = 48 + k" using assms by (intro unat_of_nat_small) simp
  show "lwip_isdigit (of_nat (48 + k))"
    using assms u by (simp add: lwip_isdigit_def lwip_in_range_def word_le_nat_alt)
  have "(ucast (of_nat (48 + k) :: byte) :: u32) = of_nat (unat (of_nat (48 + k) :: byte))"
    by (simp add: unsigned_of_nat)
  then show "(ucast (of_nat (48 + k) :: byte) :: u32) - 0x30 = of_nat k" unfolding u by simp
  show "of_nat (48 + k) = (0x30 :: byte) \<longleftrightarrow> k = 0"
    using u by (simp add: word_unat_eq_iff)
qed

lemma scan_decimal:
  "scan_digits 10 (decimal n @ rest) val = scan_digits 10 rest (val * 10 ^ length (decimal n) + of_nat n)"
proof (induction n arbitrary: rest val rule: decimal.induct)
  case (1 n)
  show ?case
  proof (cases "n < 10")
    case True
    then have d: "decimal n = [of_nat (48 + n)]" by (subst decimal.simps) simp
    show ?thesis unfolding d using digit_char [OF True] by simp
  next
    case False
    let ?k = "n mod 10"
    have d: "decimal n = decimal (n div 10) @ [of_nat (48 + ?k)]" using False by (subst decimal.simps) simp
    have k: "?k < 10" by simp
    have "(of_nat n :: u32) = of_nat (10 * (n div 10) + ?k)" by simp
    then have n: "(of_nat n :: u32) = of_nat (n div 10) * 10 + of_nat ?k" by (simp only: of_nat_add of_nat_mult) simp
    have "scan_digits 10 (decimal n @ rest) val = scan_digits 10 (of_nat (48 + ?k) # rest)
        (val * 10 ^ length (decimal (n div 10)) + of_nat (n div 10))"
      unfolding d using "1.IH" [OF False, of "of_nat (48 + ?k) # rest" val] by simp
    also have "\<dots> = scan_digits 10 rest ((val * 10 ^ length (decimal (n div 10)) + of_nat (n div 10)) * 10 + of_nat ?k)"
      using digit_char [OF k] by simp
    finally show ?thesis unfolding d n by (simp add: algebra_simps)
  qed
qed

lemma hd_decimal: "\<exists>k<10. \<exists>s. decimal n = of_nat (48 + k) # s \<and> (k = 0 \<longleftrightarrow> n = 0)"
proof (induction n rule: decimal.induct)
  case (1 n)
  show ?case
  proof (cases "n < 10")
    case True
    then show ?thesis by (subst decimal.simps) auto
  next
    case False
    from "1.IH" [OF False] obtain k s where "k < 10" "decimal (n div 10) = of_nat (48 + k) # s" "k = 0 \<longleftrightarrow> n div 10 = 0"
      by metis
    moreover have "n div 10 \<noteq> 0" "n \<noteq> 0" using False by auto
    ultimately show ?thesis using False by (subst decimal.simps) auto
  qed
qed

text \<open>A decimal number is read back up to the first character that cannot continue it.\<close>

lemma scan_number_decimal:
  assumes "\<not> lwip_isdigit (char0 rest)" "char0 rest \<noteq> 0x78" "char0 rest \<noteq> 0x58"
  shows "scan_number (decimal n @ rest) = Some (of_nat n, rest)"
proof -
  obtain k s where k: "k < 10" "decimal n = of_nat (48 + k) # s" "k = 0 \<longleftrightarrow> n = 0" using hd_decimal by blast
  have stop: "scan_digits base rest val = (val, rest)" if "base = 8 \<or> base = 10" for base val
    using assms(1) that by (cases rest) auto
  show ?thesis
  proof (cases "n = 0")
    case True
    then have "decimal n = [0x30]" by (subst decimal.simps) simp
    then show ?thesis using assms True stop [of 8 0]
      by (simp add: scan_number_def lwip_isdigit_def lwip_in_range_def Let_def)
  next
    case False
    then have "char0 (decimal n @ rest) \<noteq> 0x30" "lwip_isdigit (char0 (decimal n @ rest))"
      using k digit_char [OF k(1)] by auto
    then show ?thesis using scan_decimal [of n rest 0] stop [of 10 "of_nat n"]
      by (simp add: scan_number_def)
  qed
qed

lemma scan_number_dot: "scan_number (decimal n @ 0x2e # rest) = Some (of_nat n, 0x2e # rest)"
  by (rule scan_number_decimal) (simp_all add: lwip_isdigit_def lwip_in_range_def)

lemma scan_number_end: "scan_number (decimal n) = Some (of_nat n, [])"
  using scan_number_decimal [of "[]" n] by (simp add: lwip_isdigit_def lwip_in_range_def)

lemma aton_dotted:
  "aton_parts (dotted [a, b, c, d]) [] = Some ([ucast a, ucast b, ucast c], ucast d, [])"
proof -
  have u: "of_nat (unat x) = (ucast x :: u32)" for x :: byte by simp
  show ?thesis
    by (simp add: aton_parts.simps [of "dotted _"] aton_parts.simps [of "decimal _ @ _"] aton_parts.simps [of "decimal _"]
        scan_number_dot scan_number_end)
qed

lemma concoct_bytes:
  "concoct [ucast a, ucast b, ucast c] (ucast d) = Some (le_word [d, c, b, a])" for a b c d :: byte
proof -
  have "\<not> (0xff :: u32) < ucast x" for x :: byte
    using unat_less_exp [of x] by (simp add: word_less_nat_alt unat_ucast_widen)
  then show ?thesis by (simp add: concoct_def push_bit_or or.assoc or.commute or.left_commute)
qed

lemma aton_dotted_addr: "ip4addr_aton (dotted (le_bytes addr)) = Some addr"
proof -
  obtain a b c d where w: "le_bytes addr = [a, b, c, d]" by (rule le_bytes_4)
  have "le_bytes (lwip_htonl (le_word [d, c, b, a])) = rev (le_bytes (le_word [d, c, b, a]))" by (rule htonl_bytes)
  also have "le_bytes (le_word [d, c, b, a]) = [d, c, b, a]"
    using le_bytes_le_word [of "[d, c, b, a]"] by (simp del: le_word.simps)
  finally have "lwip_htonl (le_word [d, c, b, a]) = addr" using w by (simp add: le_bytes_inject [symmetric] del: le_word.simps)
  then show ?thesis unfolding ip4addr_aton_def w aton_dotted by (simp add: concoct_bytes del: le_word.simps)
qed

section \<open>Claims\<close>

text \<open>
  C24: Printing an address and parsing the result gives the address back. \<^verbatim>\<open>ip4addr_ntoa\<close> always fits its
  16-byte buffer and leaves the dotted decimal notation there as a C string, which \<^verbatim>\<open>ip4addr_aton\<close> accepts
  with the same address.
\<close>

theorem ip4addr_round_trip:
  assumes "length str = IP4ADDR_STRLEN_MAX"
  shows "\<exists>buf. ip4addr_ntoa addr str = Some buf \<and> cstr buf = dotted (le_bytes addr) \<and>
    ip4addr_aton (cstr buf) = Some addr"
proof -
  have "length (dotted (le_bytes addr)) < IP4ADDR_STRLEN_MAX" using dotted_length [of addr] by (simp add: layout_simps)
  from ntoa_r_eq [OF assms this] obtain b where b: "ip4addr_ntoa addr str = Some b" "cstr b = dotted (le_bytes addr)"
    by (auto simp: ip4addr_ntoa_def)
  then show ?thesis using aton_dotted_addr [of addr] by auto
qed

theorem ip4addr_round_trip_witness:
  "\<exists>buf. ip4addr_ntoa 0x6501A8C0 (replicate 16 0) = Some buf \<and> cstr buf = dotted (le_bytes 0x6501A8C0) \<and>
    ip4addr_aton (cstr buf) = Some 0x6501A8C0"
  by (rule ip4addr_round_trip) (simp add: layout_simps)

text \<open>
  \<^verbatim>\<open>ip4_addr_netmask_valid\<close> accepts exactly the netmasks that, in host order, are ones followed by
  zeros: the complements of the 33 low-bit masks.
\<close>

lemma netmask_valid_prefix:
  "ip4_addr_netmask_valid nm = (\<exists>k. k \<le> 32 \<and> lwip_htonl nm = NOT (mask k))"
  using netmask_valid_iff [of nm] by auto

text \<open>Numbers of any size in dotted notation.\<close>

definition dotted4 :: "nat \<Rightarrow> nat \<Rightarrow> nat \<Rightarrow> nat \<Rightarrow> bytes" where
  "dotted4 a b c d = decimal a @ 0x2e # decimal b @ 0x2e # decimal c @ 0x2e # decimal d"

lemma aton_parts_dotted4: "aton_parts (dotted4 a b c d) [] = Some ([of_nat a, of_nat b, of_nat c], of_nat d, [])"
  by (simp add: dotted4_def aton_parts.simps [of "decimal _ @ _"] aton_parts.simps [of "decimal _"] scan_number_dot scan_number_end)

lemma of_nat_beyond: "(of_nat n :: u32) > 0xff \<longleftrightarrow> \<not> n mod 2 ^ 32 \<le> 255"
  by (simp add: word_less_nat_alt unat_of_nat not_le)

lemma of_nat_period: "of_nat (n + k * 2 ^ 32) = (of_nat n :: u32)"
  by (simp only: word_unat_eq_iff unat_of_nat) simp

lemma small_part: "n mod 2 ^ 32 \<le> 255 \<Longrightarrow> of_nat n AND 0xff = (of_nat n :: u32)"
proof -
  assume "n mod 2 ^ 32 \<le> 255"
  then have "unat (of_nat n :: u32) < 2 ^ 8" by (simp add: unat_of_nat)
  then have "take_bit 8 (of_nat n :: u32) = of_nat n"
    by (simp only: word_unat_eq_iff unat_take_bit) simp
  then show ?thesis by (simp add: take_bit_eq_mask mask_eq_exp_minus_1)
qed

text \<open>
  C26: \<^verbatim>\<open>ip4addr_aton\<close> collects every number in 32 bits and does not check it for overflow before it compares it with the size
  of an address part. So, for numbers of any size, it sees only the remainders modulo 2^32: a lone number is always
  accepted, four numbers are accepted exactly when their remainders are at most 255, and adding a multiple of 2^32
  to a part, as in ``4294967297.1.1.1'', never changes the result.
\<close>

theorem aton_overflow:
  "ip4addr_aton (decimal n) = Some (lwip_htonl (of_nat n)) \<and>
   ip4addr_aton (dotted4 a b c d) =
     (if a mod 2 ^ 32 \<le> 255 \<and> b mod 2 ^ 32 \<le> 255 \<and> c mod 2 ^ 32 \<le> 255 \<and> d mod 2 ^ 32 \<le> 255
      then Some (IP4_ADDR (of_nat a) (of_nat b) (of_nat c) (of_nat d)) else None) \<and>
   ip4addr_aton (dotted4 (a + k * 2 ^ 32) (b + l * 2 ^ 32) (c + m * 2 ^ 32) (d + j * 2 ^ 32)) = ip4addr_aton (dotted4 a b c d)"
proof -
  have "ip4addr_aton (decimal n) = Some (lwip_htonl (of_nat n))"
    by (simp add: ip4addr_aton_def aton_parts.simps [of "decimal _"] scan_number_end concoct_def)
  moreover have "ip4addr_aton (dotted4 a b c d) =
      (if a mod 2 ^ 32 \<le> 255 \<and> b mod 2 ^ 32 \<le> 255 \<and> c mod 2 ^ 32 \<le> 255 \<and> d mod 2 ^ 32 \<le> 255
       then Some (IP4_ADDR (of_nat a) (of_nat b) (of_nat c) (of_nat d)) else None)"
  proof (cases "a mod 2 ^ 32 \<le> 255 \<and> b mod 2 ^ 32 \<le> 255 \<and> c mod 2 ^ 32 \<le> 255 \<and> d mod 2 ^ 32 \<le> 255")
    case True
    then have "of_nat x AND 0xff = (of_nat x :: u32)" if "x \<in> {a, b, c, d}" for x
      using that by (auto intro: small_part)
    then show ?thesis
      using True by (simp add: ip4addr_aton_def aton_parts_dotted4 concoct_def of_nat_beyond IP4_ADDR_def LWIP_MAKEU32_def lwip_htonl_def ac_simps)
  next
    case False
    then show ?thesis by (auto simp: ip4addr_aton_def aton_parts_dotted4 concoct_def of_nat_beyond)
  qed
  moreover have "ip4addr_aton (dotted4 (a + k * 2 ^ 32) (b + l * 2 ^ 32) (c + m * 2 ^ 32) (d + j * 2 ^ 32)) = ip4addr_aton (dotted4 a b c d)"
    by (simp only: ip4addr_aton_def aton_parts_dotted4 of_nat_period)
  ultimately show ?thesis by blast
qed

end
