(* ===== verification/Sys_Arch.thy ===== *)
theory Sys_Arch
  imports Prelude
begin

text \<open>
  The platform glue of the TCP firmware, \<^verbatim>\<open>sys_arch.c\<close>: the millisecond clock, the pseudo-random
  generator and \<^verbatim>\<open>memcmp\<close>. The hardware timer is LiteX's and not part of the repository: what its register
  reads is an argument of the operations, and \<open>counts_down\<close> states what is relied on.
\<close>

definition sys_now :: "u32 \<Rightarrow> u32 \<Rightarrow> u32" where
  "sys_now clock_frequency value = NOT value div (clock_frequency div 1000)"

text \<open>\<open>value\<close> is what the timer register reads when the state is still 0.\<close>

definition rand :: "u32 \<Rightarrow> u32 \<Rightarrow> u32 \<times> u32" where
  "rand value rand_state =
     (let s = (if rand_state = 0 then NOT value XOR 0xdeadbeef else rand_state);
          s = s * 1664525 + 1013904223
      in (drop_bit 16 s AND 0x7fff, s))"

text \<open>\<open>a\<close> and \<open>b\<close> are the memory from the two pointers on.\<close>

fun memcmp :: "bytes \<Rightarrow> bytes \<Rightarrow> nat \<Rightarrow> int" where
  "memcmp (x # a) (y # b) (Suc n) = (if x \<noteq> y then uint x - uint y else memcmp a b n)"
| "memcmp a b n = 0"

section \<open>Lemmas\<close>

text \<open>
  The timer as LiteX documents it: \<open>timer k\<close> is the counter \<open>k\<close> clock cycles after \<^verbatim>\<open>main\<close> has enabled it with the load and
  reload value 0xffffffff. It counts down by one a cycle and is reloaded when it has reached zero.
\<close>

definition counts_down :: "(nat \<Rightarrow> u32) \<Rightarrow> bool" where
  "counts_down timer \<longleftrightarrow> timer 0 = 0xffffffff \<and> (\<forall>k. timer (Suc k) = (if timer k = 0 then 0xffffffff else timer k - 1))"

lemma counts_down_ticks: "counts_down timer \<Longrightarrow> timer k = 0xffffffff - of_nat k"
proof (induction k)
  case (Suc k)
  then have "timer (Suc k) = timer k - 1" by (auto simp: counts_down_def)
  then show ?case using Suc by simp
qed (simp add: counts_down_def)

lemma counts_down_example: "counts_down (\<lambda>k. 0xffffffff - of_nat k)"
  by (auto simp: counts_down_def)

lemma sys_now_ticks:
  assumes "counts_down timer"
  shows "unat (sys_now f (timer k)) = (k mod 2 ^ 32) div (unat f div 1000)"
proof -
  have "NOT (timer k) = of_nat k" by (simp add: counts_down_ticks [OF assms] not_eq_complement)
  then have "unat (NOT (timer k)) = k mod 2 ^ 32" by (simp add: unat_of_nat)
  then show ?thesis by (simp add: sys_now_def unat_div)
qed

lemma rand_range: "unat (fst (rand v s)) < 32768"
proof -
  have m: "(0x7fff :: u32) = mask 15" by (simp add: mask_eq_exp_minus_1)
  have "unat (w AND 0x7fff) < 32768" for w :: u32
    unfolding m using unat_take_bit [of 15 w] by (simp add: take_bit_eq_mask)
  then show ?thesis by (simp add: rand_def Let_def)
qed

lemma memcmp_zero:
  "n \<le> length a \<Longrightarrow> n \<le> length b \<Longrightarrow> memcmp a b n = 0 \<longleftrightarrow> take n a = take n b"
  by (induction a b n rule: memcmp.induct) (auto dest: unsigned_word_eqI)

lemma memcmp_sign:
  "n \<le> length a \<Longrightarrow> n \<le> length b \<Longrightarrow>
   memcmp a b n < 0 \<longleftrightarrow> (\<exists>i<n. take i a = take i b \<and> a ! i < b ! i)"
proof (induction a b n rule: memcmp.induct)
  case (1 x a y b n)
  have s: "(\<exists>i<Suc n. P i) \<longleftrightarrow> P 0 \<or> (\<exists>i<n. P (Suc i))" for P :: "nat \<Rightarrow> bool"
    using less_Suc_eq_0_disj by auto
  show ?case
  proof (cases "x = y")
    case True
    then show ?thesis using 1 by (simp add: s)
  next
    case False
    then show ?thesis by (simp add: s word_less_def)
  qed
qed auto

section \<open>Claims\<close>

text \<open>
  C25: The clock is the number of clock cycles since the last wrap of the counter, in milliseconds. So it shows the elapsed
  time before the first wrap; at every wrap, the n-th after n * 2^32 cycles, it falls from its greatest value
  \<open>(2^32 - 1) div (f div 1000)\<close> (85899 at 50 MHz) to 0 within one cycle, and it never exceeds that value. Its differences are
  not elapsed times modulo 2^32.
\<close>

theorem sys_now_wraps_early:
  assumes "counts_down timer" "1000 \<le> f"
  shows "unat (sys_now f (timer k)) = (k mod 2 ^ 32) div (unat f div 1000) \<and>
    (k < 2 ^ 32 \<longrightarrow> unat (sys_now f (timer k)) = k div (unat f div 1000)) \<and>
    unat (sys_now f (timer (n * 2 ^ 32 + (2 ^ 32 - 1)))) = (2 ^ 32 - 1) div (unat f div 1000) \<and>
    sys_now f (timer (n * 2 ^ 32 + 2 ^ 32)) = 0 \<and>
    unat (sys_now f (timer k)) \<le> (2 ^ 32 - 1) div (unat f div 1000)"
proof -
  note now = sys_now_ticks [OF assms(1)]
  have "k mod 2 ^ 32 \<le> 2 ^ 32 - 1" by (simp add: less_Suc_eq_le [symmetric])
  then have "unat (sys_now f (timer k)) \<le> (2 ^ 32 - 1) div (unat f div 1000)" unfolding now by (rule div_le_mono)
  moreover have "(n * 2 ^ 32 + (2 ^ 32 - 1)) mod 2 ^ 32 = 2 ^ 32 - (1 :: nat)" by (simp only: mod_mult_self3) simp
  moreover have "(n * 2 ^ 32 + 2 ^ 32) mod 2 ^ 32 = (0 :: nat)" by simp
  then have "sys_now f (timer (n * 2 ^ 32 + 2 ^ 32)) = 0" using now [of f "n * 2 ^ 32 + 2 ^ 32"] by (simp add: unat_eq_zero)
  ultimately show ?thesis using now [of f k] now [of f "n * 2 ^ 32 + (2 ^ 32 - 1)"] by simp
qed

theorem sys_now_wraps_early_witness:
  "unat (sys_now 50000000 (0xffffffff - of_nat 8589934591)) = 85899 \<and> sys_now 50000000 (0xffffffff - of_nat 8589934592) = 0"
  using sys_now_wraps_early [OF counts_down_example, of 50000000 0 1] by simp

text \<open>
  The replacement \<^verbatim>\<open>memcmp\<close> is that of the C library: 0 exactly when the first \<open>n\<close> bytes agree, and
  negative exactly when at the first difference the first operand's byte is the smaller one.
\<close>

lemma memcmp_lexicographic:
  assumes "n \<le> length a" "n \<le> length b"
  shows "(memcmp a b n = 0 \<longleftrightarrow> take n a = take n b) \<and>
    (memcmp a b n < 0 \<longleftrightarrow> (\<exists>i<n. take i a = take i b \<and> a ! i < b ! i))"
  using memcmp_zero [OF assms] memcmp_sign [OF assms] by simp

end
