(* ===== verification/Timeouts.thy ===== *)
theory Timeouts
  imports Sys_Arch "HOL-Library.Multiset"
begin

text \<open>
  The timer list of the stack, \<^verbatim>\<open>core/timeouts.c\<close>. The linked list of \<^verbatim>\<open>struct sys_timeo\<close> is the
  list of its nodes in the order of their \<^verbatim>\<open>next\<close> pointers; nodes come from a pool of
  \<^verbatim>\<open>MEMP_NUM_SYS_TIMEOUT\<close> elements, of which \<open>timeo_free\<close> are free. What the timers call is
  code of other modules and acts on a state \<open>'w\<close> of the rest of the system: it is passed as a
  \<open>timer_env\<close>. \<open>None\<close> is a failed assertion, which stops the firmware, or a loop that does not end.
\<close>

section \<open>State\<close>

definition LWIP_MAX_TIMEOUT :: u32 where "LWIP_MAX_TIMEOUT = 0x7fffffff"

definition TIME_LESS_THAN :: "u32 \<Rightarrow> u32 \<Rightarrow> bool" where
  "TIME_LESS_THAN t compare_to \<longleftrightarrow> t - compare_to > LWIP_MAX_TIMEOUT"

definition TCP_TMR_INTERVAL :: u32 where "TCP_TMR_INTERVAL = 250"
definition ARP_TMR_INTERVAL :: u32 where "ARP_TMR_INTERVAL = 1000"

text \<open>The intervals of \<^verbatim>\<open>lwip_cyclic_timers\<close>: \<^verbatim>\<open>tcp_tmr\<close> and \<^verbatim>\<open>etharp_tmr\<close> in this configuration.\<close>

definition lwip_cyclic_timers :: "u32 list" where
  "lwip_cyclic_timers = [TCP_TMR_INTERVAL, ARP_TMR_INTERVAL]"

datatype timeout_handler =
    Tcpip_tcp_timer
  | Lwip_cyclic_timer
  | Other_handler nat

record sys_timeo =
  timeo_time :: u32
  timeo_h :: "timeout_handler option"
  timeo_arg :: nat

record timers =
  next_timeout :: "sys_timeo list"
  timeo_free :: nat
  current_timeout_due_time :: u32
  tcpip_tcp_timer_active :: bool

record 'w timer_env =
  env_now :: "'w \<Rightarrow> u32 \<times> 'w"
  env_cyclic :: "nat \<Rightarrow> 'w \<times> timers \<Rightarrow> ('w \<times> timers) option"
  env_other :: "nat \<Rightarrow> nat \<Rightarrow> 'w \<times> timers \<Rightarrow> ('w \<times> timers) option"
  env_tcp_pcbs :: "'w \<Rightarrow> bool"
  env_check_free_ooseq :: "'w \<times> timers \<Rightarrow> ('w \<times> timers) option"

section \<open>Setting and removing timers\<close>

text \<open>The search for the place of a new node: behind \<open>t\<close> and before the first later node.\<close>

fun link_behind :: "sys_timeo \<Rightarrow> sys_timeo \<Rightarrow> sys_timeo list \<Rightarrow> sys_timeo list" where
  "link_behind timeout t [] = [t, timeout]"
| "link_behind timeout t (n # ns) =
     (if TIME_LESS_THAN (timeo_time timeout) (timeo_time n) then t # timeout # n # ns
      else t # link_behind timeout n ns)"

fun link_timeout :: "sys_timeo \<Rightarrow> sys_timeo list \<Rightarrow> sys_timeo list" where
  "link_timeout timeout [] = [timeout]"
| "link_timeout timeout (n # ns) =
     (if TIME_LESS_THAN (timeo_time timeout) (timeo_time n) then timeout # n # ns
      else link_behind timeout n ns)"

definition sys_timeout_abs :: "u32 \<Rightarrow> timeout_handler option \<Rightarrow> nat \<Rightarrow> timers \<Rightarrow> timers option" where
  "sys_timeout_abs abs_time handler arg ts =
     (if timeo_free ts = 0 then None
      else
        Some (ts\<lparr>timeo_free := timeo_free ts - 1,
                 next_timeout := link_timeout \<lparr>timeo_time = abs_time, timeo_h = handler, timeo_arg = arg\<rparr>
                                   (next_timeout ts)\<rparr>))"

definition sys_timeout :: "u32 \<Rightarrow> u32 \<Rightarrow> timeout_handler option \<Rightarrow> nat \<Rightarrow> timers \<Rightarrow> timers option" where
  "sys_timeout now msecs handler arg ts =
     (if msecs \<le> 0xffffffff div 4 then sys_timeout_abs (now + msecs) handler arg ts else None)"

fun unlink_first :: "timeout_handler option \<Rightarrow> nat \<Rightarrow> sys_timeo list \<Rightarrow> sys_timeo list option" where
  "unlink_first handler arg [] = None"
| "unlink_first handler arg (t # ts) =
     (if timeo_h t = handler \<and> timeo_arg t = arg then Some ts
      else (case unlink_first handler arg ts of None \<Rightarrow> None | Some ts' \<Rightarrow> Some (t # ts')))"

definition sys_untimeout :: "timeout_handler option \<Rightarrow> nat \<Rightarrow> timers \<Rightarrow> timers" where
  "sys_untimeout handler arg ts =
     (case unlink_first handler arg (next_timeout ts) of
        None \<Rightarrow> ts
      | Some l \<Rightarrow> ts\<lparr>next_timeout := l, timeo_free := Suc (timeo_free ts)\<rparr>)"

definition sys_timeouts_init :: "u32 \<Rightarrow> timers \<Rightarrow> timers option" where
  "sys_timeouts_init now ts =
     foldl (\<lambda>r i. case r of None \<Rightarrow> None
                 | Some ts \<Rightarrow> sys_timeout now (lwip_cyclic_timers ! i) (Some Lwip_cyclic_timer) i ts)
       (Some ts) [1..<length lwip_cyclic_timers]"

definition sys_restart_timeouts :: "u32 \<Rightarrow> timers \<Rightarrow> timers" where
  "sys_restart_timeouts now ts =
     (case next_timeout ts of
        [] \<Rightarrow> ts
      | n # _ \<Rightarrow>
          (let base = timeo_time n
           in ts\<lparr>next_timeout := map (\<lambda>t. t\<lparr>timeo_time := (timeo_time t - base) + now\<rparr>) (next_timeout ts)\<rparr>))"

definition SYS_TIMEOUTS_SLEEPTIME_INFINITE :: u32 where
  "SYS_TIMEOUTS_SLEEPTIME_INFINITE = 0xffffffff"

definition sys_timeouts_sleeptime :: "u32 \<Rightarrow> timers \<Rightarrow> u32 option" where
  "sys_timeouts_sleeptime now ts =
     (case next_timeout ts of
        [] \<Rightarrow> Some SYS_TIMEOUTS_SLEEPTIME_INFINITE
      | n # _ \<Rightarrow>
          (if TIME_LESS_THAN (timeo_time n) now then Some 0
           else
             (let ret = timeo_time n - now
              in if ret \<le> LWIP_MAX_TIMEOUT then Some ret else None)))"

section \<open>Running timers\<close>

definition tcpip_tcp_timer :: "'w timer_env \<Rightarrow> 'w \<times> timers \<Rightarrow> ('w \<times> timers) option" where
  "tcpip_tcp_timer env s =
     (case env_cyclic env 0 s of
        None \<Rightarrow> None
      | Some (w, ts) \<Rightarrow>
          (if env_tcp_pcbs env w then
             (let (now, w) = env_now env w
              in case sys_timeout now TCP_TMR_INTERVAL (Some Tcpip_tcp_timer) 0 ts of
                   None \<Rightarrow> None | Some ts \<Rightarrow> Some (w, ts))
           else Some (w, ts\<lparr>tcpip_tcp_timer_active := False\<rparr>)))"

definition tcp_timer_needed :: "'w timer_env \<Rightarrow> 'w \<times> timers \<Rightarrow> ('w \<times> timers) option" where
  "tcp_timer_needed env s =
     (case s of (w, ts) \<Rightarrow>
        (if \<not> tcpip_tcp_timer_active ts \<and> env_tcp_pcbs env w then
           (let ts = ts\<lparr>tcpip_tcp_timer_active := True\<rparr>;
                (now, w) = env_now env w
            in case sys_timeout now TCP_TMR_INTERVAL (Some Tcpip_tcp_timer) 0 ts of
                 None \<Rightarrow> None | Some ts \<Rightarrow> Some (w, ts))
         else Some (w, ts)))"

definition lwip_cyclic_timer :: "'w timer_env \<Rightarrow> nat \<Rightarrow> 'w \<times> timers \<Rightarrow> ('w \<times> timers) option" where
  "lwip_cyclic_timer env arg s =
     (case env_cyclic env arg s of
        None \<Rightarrow> None
      | Some (w, ts) \<Rightarrow>
          (let (now, w) = env_now env w;
               interval_ms = lwip_cyclic_timers ! arg;
               next_timeout_time = current_timeout_due_time ts + interval_ms
           in case sys_timeout_abs
                     (if TIME_LESS_THAN next_timeout_time now then now + interval_ms else next_timeout_time)
                     (Some Lwip_cyclic_timer) arg ts of
                None \<Rightarrow> None | Some ts \<Rightarrow> Some (w, ts)))"

definition call_handler ::
  "'w timer_env \<Rightarrow> timeout_handler option \<Rightarrow> nat \<Rightarrow> 'w \<times> timers \<Rightarrow> ('w \<times> timers) option" where
  "call_handler env handler arg s =
     (case handler of
        None \<Rightarrow> Some s
      | Some Tcpip_tcp_timer \<Rightarrow> tcpip_tcp_timer env s
      | Some Lwip_cyclic_timer \<Rightarrow> lwip_cyclic_timer env arg s
      | Some (Other_handler n) \<Rightarrow> env_other env n arg s)"

partial_function (option) check_loop :: "'w timer_env \<Rightarrow> u32 \<Rightarrow> 'w \<times> timers \<Rightarrow> ('w \<times> timers) option" where
  "check_loop env now s =
     (case env_check_free_ooseq env s of
        None \<Rightarrow> None
      | Some (w, ts) \<Rightarrow>
          (case next_timeout ts of
             [] \<Rightarrow> Some (w, ts)
           | t # rest \<Rightarrow>
               (if TIME_LESS_THAN now (timeo_time t) then Some (w, ts)
                else
                  (case call_handler env (timeo_h t) (timeo_arg t)
                          (w, ts\<lparr>next_timeout := rest, current_timeout_due_time := timeo_time t,
                                 timeo_free := Suc (timeo_free ts)\<rparr>) of
                     None \<Rightarrow> None
                   | Some s \<Rightarrow> check_loop env now s))))"

definition sys_check_timeouts :: "'w timer_env \<Rightarrow> 'w \<times> timers \<Rightarrow> ('w \<times> timers) option" where
  "sys_check_timeouts env s =
     (case s of (w, ts) \<Rightarrow> (case env_now env w of (now, w) \<Rightarrow> check_loop env now (w, ts)))"

text \<open>The state of the module after start-up: no timer, the whole pool free.\<close>

definition MEMP_NUM_SYS_TIMEOUT :: nat where "MEMP_NUM_SYS_TIMEOUT = 2"

definition timers_reset :: timers where
  "timers_reset = \<lparr>next_timeout = [], timeo_free = MEMP_NUM_SYS_TIMEOUT, current_timeout_due_time = 0,
     tcpip_tcp_timer_active = False\<rparr>"

section \<open>Time as a linear order\<close>

text \<open>
  Seen from a base \<open>b\<close>, times less than 2^31 later are ordered as their distances from the base, and the
  wrap-around comparison is that order.
\<close>

definition off :: "u32 \<Rightarrow> u32 \<Rightarrow> nat" where
  "off b t = unat (t - b)"

abbreviation toff :: "u32 \<Rightarrow> sys_timeo \<Rightarrow> nat" where
  "toff b t \<equiv> off b (timeo_time t)"

lemma unat_diff_u32: "unat (a - b) = (if unat b \<le> unat a then unat a - unat b else unat a + 4294967296 - unat b)" for a b :: u32
proof (cases "unat b \<le> unat a")
  case True
  then show ?thesis by (simp add: unat_sub word_le_nat_alt)
next
  case False
  have "unat a < 4294967296" "unat b < 4294967296" using unat_less_exp [of a] unat_less_exp [of b] by simp_all
  with False show ?thesis by (simp add: unat_sub_if')
qed

lemma time_less_off:
  assumes "off b s < 2 ^ 31" "off b t < 2 ^ 31"
  shows "TIME_LESS_THAN s t \<longleftrightarrow> off b s < off b t"
proof -
  have e: "s - t = (s - b) - (t - b)" by simp
  have "unat (s - t) = (if off b t \<le> off b s then off b s - off b t else off b s + 4294967296 - off b t)"
    unfolding off_def by (subst e) (rule unat_diff_u32)
  then show ?thesis using assms
    by (auto simp: TIME_LESS_THAN_def LWIP_MAX_TIMEOUT_def word_less_nat_alt)
qed

lemma off_add: "off b t + unat d < 2 ^ 32 \<Longrightarrow> off b (t + d) = off b t + unat d"
proof -
  assume h: "off b t + unat d < 2 ^ 32"
  have e: "t + d - b = (t - b) + d" by simp
  show ?thesis using h unfolding off_def e by (simp add: unat_word_ariths)
qed

text \<open>All timers lie in the window from 2^30 before to 2^30 after the present, in order.\<close>

definition time_window :: "u32 \<Rightarrow> sys_timeo list \<Rightarrow> bool" where
  "time_window b l \<longleftrightarrow> (\<forall>t \<in> set l. toff b t < 2 ^ 31) \<and> sorted (map (toff b) l)"

lemma link_behind_props:
  assumes "toff b x < 2 ^ 31" "\<forall>u \<in> set (t # l). toff b u < 2 ^ 31" "sorted (map (toff b) (t # l))" "toff b t \<le> toff b x"
  shows "sorted (map (toff b) (link_behind x t l)) \<and> mset (link_behind x t l) = mset (x # t # l)"
  using assms(2-4)
proof (induction l arbitrary: t)
  case Nil
  then show ?case by simp
next
  case (Cons n l)
  have n: "toff b n < 2 ^ 31" using Cons.prems by simp
  note less = time_less_off [OF assms(1) n]
  show ?case
  proof (cases "TIME_LESS_THAN (timeo_time x) (timeo_time n)")
    case True
    then show ?thesis using Cons.prems less by auto
  next
    case False
    have prem: "\<forall>u \<in> set (n # l). toff b u < 2 ^ 31" "sorted (map (toff b) (n # l))" "toff b n \<le> toff b x"
      using Cons.prems False less by auto
    note ih = Cons.IH [OF prem]
    then have "set (link_behind x n l) = set (x # n # l)" by (metis mset_eq_setD)
    then show ?thesis using ih False Cons.prems by auto
  qed
qed

lemma link_timeout_props:
  assumes "toff b x < 2 ^ 31" "time_window b l"
  shows "time_window b (link_timeout x l)" "mset (link_timeout x l) = mset (x # l)"
proof -
  have "sorted (map (toff b) (link_timeout x l)) \<and> mset (link_timeout x l) = mset (x # l)"
  proof (cases l)
    case (Cons n ns)
    have n: "toff b n < 2 ^ 31" using assms(2) Cons by (simp add: time_window_def)
    note less = time_less_off [OF assms(1) n]
    show ?thesis
    proof (cases "TIME_LESS_THAN (timeo_time x) (timeo_time n)")
      case True
      then show ?thesis using assms(2) Cons less by (auto simp: time_window_def)
    next
      case False
      then show ?thesis using link_behind_props [OF assms(1), of n ns] assms(2) Cons less
        by (auto simp: time_window_def)
    qed
  qed simp
  moreover from this have "set (link_timeout x l) = set (x # l)" by (metis mset_eq_setD)
  ultimately show "mset (link_timeout x l) = mset (x # l)" "time_window b (link_timeout x l)"
    using assms by (auto simp: time_window_def)
qed

section \<open>Invariant\<close>

text \<open>
  In this firmware only the stack sets timers: the ARP timer is always in the list, the TCP timer exactly
  when it is marked active, and the pool holds the rest.
\<close>

definition timer_keys :: "timers \<Rightarrow> (timeout_handler option \<times> nat) multiset" where
  "timer_keys ts = mset (map (\<lambda>t. (timeo_h t, timeo_arg t)) (next_timeout ts))"

definition timers_inv :: "timers \<Rightarrow> bool" where
  "timers_inv ts \<longleftrightarrow>
     timer_keys ts = {# (Some Lwip_cyclic_timer, 1) #} +
       (if tcpip_tcp_timer_active ts then {# (Some Tcpip_tcp_timer, 0) #} else {#}) \<and>
     length (next_timeout ts) + timeo_free ts = MEMP_NUM_SYS_TIMEOUT"

definition window_base :: "u32 \<Rightarrow> u32" where
  "window_base now = now - 2 ^ 30"

lemma off_now: "off (window_base now) now = 2 ^ 30"
  by (simp add: off_def window_base_def)

lemma off_later: "unat (n - now) < 2 ^ 29 \<Longrightarrow> off (window_base now) n = 2 ^ 30 + unat (n - now)"
  using off_add [of "window_base now" now "n - now"] off_now [of now] by simp

lemma expired_off:
  "off (window_base now) t < 2 ^ 31 \<Longrightarrow> TIME_LESS_THAN now t \<longleftrightarrow> 2 ^ 30 < off (window_base now) t"
  using time_less_off [of "window_base now" now t] off_now [of now] by simp

lemma sys_timeout_abs_inv:
  assumes "timeo_free ts \<noteq> 0" "off b abs_time < 2 ^ 31" "time_window b (next_timeout ts)"
  shows "\<exists>ts'. sys_timeout_abs abs_time h arg ts = Some ts' \<and> time_window b (next_timeout ts') \<and>
    mset (next_timeout ts') = add_mset \<lparr>timeo_time = abs_time, timeo_h = h, timeo_arg = arg\<rparr> (mset (next_timeout ts)) \<and>
    timeo_free ts' = timeo_free ts - 1 \<and> tcpip_tcp_timer_active ts' = tcpip_tcp_timer_active ts"
  using assms link_timeout_props [of b "\<lparr>timeo_time = abs_time, timeo_h = h, timeo_arg = arg\<rparr>" "next_timeout ts"]
  by (simp add: sys_timeout_abs_def)

text \<open>How much is left to do for the expired timers: a timer that falls due again at once runs twice.\<close>

definition weight :: "u32 \<Rightarrow> sys_timeo \<Rightarrow> nat" where
  "weight now t = (if toff (window_base now) t < 2 ^ 30 then 2 else if toff (window_base now) t = 2 ^ 30 then 1 else 0)"

definition workload :: "u32 \<Rightarrow> timers \<Rightarrow> nat" where
  "workload now ts = sum_mset (image_mset (weight now) (mset (next_timeout ts)))"

text \<open>The state in which the loop calls the handler of the first timer.\<close>

definition popped :: "sys_timeo \<Rightarrow> sys_timeo list \<Rightarrow> timers \<Rightarrow> timers" where
  "popped t rest ts = ts\<lparr>next_timeout := rest, current_timeout_due_time := timeo_time t, timeo_free := Suc (timeo_free ts)\<rparr>"

lemma popped_sel [simp]:
  "next_timeout (popped t rest ts) = rest" "current_timeout_due_time (popped t rest ts) = timeo_time t"
  "timeo_free (popped t rest ts) = Suc (timeo_free ts)"
  "tcpip_tcp_timer_active (popped t rest ts) = tcpip_tcp_timer_active ts"
  by (simp_all add: popped_def)

lemma tcp_handler_step:
  assumes "timers_inv ts" "time_window (window_base now) (next_timeout ts)"
    "next_timeout ts = t # rest" "timeo_h t = Some Tcpip_tcp_timer" "timeo_arg t = 0"
    and w1: "env_cyclic env 0 (w, popped t rest ts) = Some (w1, popped t rest ts)"
    and n: "env_now env w1 = (n, w2)" and n2: "unat (n - now) < 2 ^ 29"
  shows "\<exists>w' ts'. tcpip_tcp_timer env (w, popped t rest ts) = Some (w', ts') \<and> (w' = w1 \<or> w' = w2) \<and> timers_inv ts' \<and>
    time_window (window_base now) (next_timeout ts') \<and> workload now ts' + weight now t \<le> workload now ts"
proof -
  have act: "tcpip_tcp_timer_active ts" and keys: "mset (map (\<lambda>t. (timeo_h t, timeo_arg t)) rest) = {# (Some Lwip_cyclic_timer, 1) #}"
    and len: "length rest + Suc (timeo_free ts) = MEMP_NUM_SYS_TIMEOUT"
    using assms(1,3-5) by (auto simp: timers_inv_def timer_keys_def split: if_splits)
  have win: "time_window (window_base now) rest" using assms(2,3) by (simp add: time_window_def)
  have load: "workload now ts = weight now t + sum_mset (image_mset (weight now) (mset rest))"
    using assms(3) by (simp add: workload_def)
  show ?thesis
  proof (cases "env_tcp_pcbs env w1")
    case False
    have inv: "timers_inv ((popped t rest ts)\<lparr>tcpip_tcp_timer_active := False\<rparr>)"
      using keys len by (simp add: timers_inv_def timer_keys_def)
    show ?thesis using False w1 inv win load
      by (simp add: tcpip_tcp_timer_def workload_def)
  next
    case True
    have o: "off (window_base now) (n + TCP_TMR_INTERVAL) = 2 ^ 30 + unat (n - now) + 250"
      using off_add [of "window_base now" n TCP_TMR_INTERVAL] off_later [OF n2] n2 by (simp add: TCP_TMR_INTERVAL_def)
    then have o31: "off (window_base now) (n + TCP_TMR_INTERVAL) < 2 ^ 31" using n2 by simp
    obtain ts' where ts': "sys_timeout_abs (n + TCP_TMR_INTERVAL) (Some Tcpip_tcp_timer) 0 (popped t rest ts) = Some ts'"
      "time_window (window_base now) (next_timeout ts')"
      "mset (next_timeout ts') = add_mset \<lparr>timeo_time = n + TCP_TMR_INTERVAL, timeo_h = Some Tcpip_tcp_timer, timeo_arg = 0\<rparr> (mset rest)"
      "timeo_free ts' = timeo_free ts" "tcpip_tcp_timer_active ts'"
      using sys_timeout_abs_inv [of "popped t rest ts" "window_base now", OF _ o31] win act by auto
    have w0: "weight now \<lparr>timeo_time = n + TCP_TMR_INTERVAL, timeo_h = Some Tcpip_tcp_timer, timeo_arg = 0\<rparr> = 0"
      using o by (simp add: weight_def)
    have inv: "timers_inv ts'"
      using keys len ts' size_mset [of "next_timeout ts'"] by (simp add: timers_inv_def timer_keys_def)
    have "TCP_TMR_INTERVAL \<le> 0xffffffff div 4" by (simp add: TCP_TMR_INTERVAL_def)
    then show ?thesis using True w1 n ts' inv load w0
      by (simp add: tcpip_tcp_timer_def sys_timeout_def workload_def)
  qed
qed

lemma cyclic_handler_step:
  assumes "timers_inv ts" "time_window (window_base now) (next_timeout ts)"
    "next_timeout ts = t # rest" "timeo_h t = Some Lwip_cyclic_timer" "timeo_arg t = 1"
    "toff (window_base now) t \<le> 2 ^ 30"
    and w1: "env_cyclic env 1 (w, popped t rest ts) = Some (w1, popped t rest ts)"
    and n: "env_now env w1 = (n, w2)" and n2: "unat (n - now) < 2 ^ 29"
  shows "\<exists>ts'. lwip_cyclic_timer env 1 (w, popped t rest ts) = Some (w2, ts') \<and> timers_inv ts' \<and>
    time_window (window_base now) (next_timeout ts') \<and> workload now ts' < workload now ts"
proof -
  have keys: "mset (map (\<lambda>t. (timeo_h t, timeo_arg t)) rest) =
      (if tcpip_tcp_timer_active ts then {# (Some Tcpip_tcp_timer, 0) #} else {#})"
    and len: "length rest + Suc (timeo_free ts) = MEMP_NUM_SYS_TIMEOUT"
    using assms(1,3-5) by (auto simp: timers_inv_def timer_keys_def)
  have win: "time_window (window_base now) rest" using assms(2,3) by (simp add: time_window_def)
  have load: "workload now ts = weight now t + sum_mset (image_mset (weight now) (mset rest))"
    using assms(3) by (simp add: workload_def)
  have iv: "lwip_cyclic_timers ! 1 = 1000" "unat (1000 :: u32) = 1000"
    by (simp_all add: lwip_cyclic_timers_def ARP_TMR_INTERVAL_def)
  define nt where "nt = timeo_time t + 1000"
  have ont: "off (window_base now) nt = toff (window_base now) t + 1000"
    using off_add [of "window_base now" "timeo_time t" 1000] assms(6) by (simp add: nt_def)
  have on: "off (window_base now) n = 2 ^ 30 + unat (n - now)" by (rule off_later [OF n2])
  have on1: "off (window_base now) (n + 1000) = 2 ^ 30 + unat (n - now) + 1000"
    using off_add [of "window_base now" n 1000] on n2 by simp
  define at where "at = (if TIME_LESS_THAN nt n then n + 1000 else nt)"
  let ?x = "\<lparr>timeo_time = at, timeo_h = Some Lwip_cyclic_timer, timeo_arg = 1\<rparr>"
  have less: "TIME_LESS_THAN nt n \<longleftrightarrow> off (window_base now) nt < off (window_base now) n"
    using ont on n2 assms(6) by (intro time_less_off) simp_all
  have o31: "off (window_base now) at < 2 ^ 31" using ont on1 n2 assms(6) by (simp add: at_def)
  have wt: "weight now ?x < weight now t"
    using less ont on on1 assms(6) by (auto simp: at_def weight_def)
  obtain ts' where ts': "sys_timeout_abs at (Some Lwip_cyclic_timer) 1 (popped t rest ts) = Some ts'"
    "time_window (window_base now) (next_timeout ts')" "mset (next_timeout ts') = add_mset ?x (mset rest)"
    "timeo_free ts' = timeo_free ts" "tcpip_tcp_timer_active ts' = tcpip_tcp_timer_active ts"
    using sys_timeout_abs_inv [of "popped t rest ts" "window_base now", OF _ o31] win by auto
  have inv: "timers_inv ts'"
    using keys len ts' size_mset [of "next_timeout ts'"] by (simp add: timers_inv_def timer_keys_def)
  have "lwip_cyclic_timer env 1 (w, popped t rest ts) = Some (w2, ts')"
    using w1 n ts'(1) iv unfolding at_def nt_def
    by (cases "TIME_LESS_THAN (timeo_time t + 1000) n") (simp_all add: lwip_cyclic_timer_def Let_def)
  then show ?thesis using ts'(2,3) inv load wt by (simp add: workload_def)
qed

text \<open>There are at most two timers, so a call runs at most four handlers.\<close>

lemma workload_bound: "timers_inv ts \<Longrightarrow> workload now ts \<le> 4"
proof -
  assume "timers_inv ts"
  then have "length (next_timeout ts) \<le> 2" by (simp add: timers_inv_def MEMP_NUM_SYS_TIMEOUT_def)
  moreover have "sum_list (map (weight now) l) \<le> 2 * length l" for l by (induction l) (auto simp: weight_def)
  from this [of "next_timeout ts"] have "workload now ts \<le> 2 * length (next_timeout ts)"
    by (simp add: workload_def sum_mset_sum_list [symmetric] flip: mset_map)
  ultimately show ?thesis by linarith
qed

lemma init_inv:
  "\<exists>ts. sys_timeouts_init now timers_reset = Some ts \<and> timers_inv ts \<and> time_window (window_base now) (next_timeout ts)"
proof -
  have "off (window_base now) (now + 1000) = 2 ^ 30 + 1000"
    using off_add [of "window_base now" now 1000] by (simp add: off_now)
  then show ?thesis
    by (simp add: sys_timeouts_init_def lwip_cyclic_timers_def ARP_TMR_INTERVAL_def sys_timeout_def
        sys_timeout_abs_def timers_reset_def MEMP_NUM_SYS_TIMEOUT_def timers_inv_def timer_keys_def time_window_def)
qed

section \<open>Claims\<close>

text \<open>
  C22: Setting a timer keeps the list in the order in which the timers fall due, also across the wrap-around of
  the millisecond counter, and adds exactly the new timer; it fails only when the pool is empty.
\<close>

theorem sys_timeout_abs_sorted:
  assumes "time_window b (next_timeout ts)" "off b abs_time < 2 ^ 31" "timeo_free ts \<noteq> 0"
  shows "\<exists>ts'. sys_timeout_abs abs_time h arg ts = Some ts' \<and> time_window b (next_timeout ts') \<and>
    mset (next_timeout ts') =
      add_mset \<lparr>timeo_time = abs_time, timeo_h = h, timeo_arg = arg\<rparr> (mset (next_timeout ts))"
  using sys_timeout_abs_inv [OF assms(3,2,1)] by blast

text \<open>A timer set just behind the wrap-around goes behind one that is due just before it.\<close>

theorem sys_timeout_abs_sorted_witness:
  "\<exists>ts'. sys_timeout_abs 20 None 7 (timers_reset\<lparr>next_timeout := [\<lparr>timeo_time = 0xfffffff8, timeo_h = None, timeo_arg = 3\<rparr>]\<rparr>) = Some ts' \<and>
    time_window 0xfffffff0 (next_timeout ts') \<and>
    mset (next_timeout ts') = {# \<lparr>timeo_time = 20, timeo_h = None, timeo_arg = 7\<rparr>, \<lparr>timeo_time = 0xfffffff8, timeo_h = None, timeo_arg = 3\<rparr> #}"
proof -
  let ?ts = "timers_reset\<lparr>next_timeout := [\<lparr>timeo_time = 0xfffffff8, timeo_h = None, timeo_arg = 3\<rparr>]\<rparr>"
  have h: "time_window 0xfffffff0 (next_timeout ?ts)" "off 0xfffffff0 20 < 2 ^ 31" "timeo_free ?ts \<noteq> 0"
    by (simp_all add: timers_reset_def time_window_def off_def MEMP_NUM_SYS_TIMEOUT_def)
  show ?thesis using sys_timeout_abs_sorted [OF h, of None 7] by simp
qed

end
