(* ===== verification/Mem.thy ===== *)
theory Mem
  imports Prelude
begin

text \<open>
  The heap, \<^verbatim>\<open>core/mem.c\<close>, in the configuration of the firmware (3 KiB, alignment 4, no overflow or
  sanity checks). A \<^verbatim>\<open>struct mem\<close> is named by its offset from \<^verbatim>\<open>ram\<close>, which is what
  \<^verbatim>\<open>mem_to_ptr\<close> and \<^verbatim>\<open>ptr_to_mem\<close> convert; pointers to the data are absolute addresses.
  The headers are a map of their own: programs write only inside the blocks they own. \<open>None\<close> as the
  result of an operation is a failed assertion, which stops the firmware, or a loop that does not end.
\<close>

section \<open>Layout\<close>

definition MEM_ALIGNMENT :: nat where [layout_simps]: "MEM_ALIGNMENT = 4"

definition LWIP_MEM_ALIGN_SIZE :: "nat \<Rightarrow> nat" where
  "LWIP_MEM_ALIGN_SIZE sz = (sz + MEM_ALIGNMENT - 1) div MEM_ALIGNMENT * MEM_ALIGNMENT"

definition MIN_SIZE_ALIGNED :: nat where [layout_simps]: "MIN_SIZE_ALIGNED = 12"
definition SIZEOF_STRUCT_MEM :: nat where [layout_simps]: "SIZEOF_STRUCT_MEM = 8"
definition MEM_SIZE_ALIGNED :: nat where [layout_simps]: "MEM_SIZE_ALIGNED = 3072"

text \<open>A cast to \<^verbatim>\<open>mem_size_t\<close>, and subtraction of unsigned 32-bit integers.\<close>

definition mem_size :: "nat \<Rightarrow> nat" where
  "mem_size n = n mod 65536"

definition usub :: "nat \<Rightarrow> nat \<Rightarrow> nat" where
  "usub a b = (a + 4294967296 - b) mod 4294967296"

record smem =
  mnext :: nat
  mprev :: nat
  mused :: nat

record heap =
  ram :: nat
  hdr :: "nat \<Rightarrow> smem"
  lfree :: nat

definition set_hdr :: "nat \<Rightarrow> (smem \<Rightarrow> smem) \<Rightarrow> heap \<Rightarrow> heap" where
  "set_hdr ptr f h = h\<lparr>hdr := (hdr h)(ptr := f (hdr h ptr))\<rparr>"

section \<open>Initialisation\<close>

definition mem_init :: "nat \<Rightarrow> heap \<Rightarrow> heap" where
  "mem_init ram_heap h =
     \<lparr>ram = LWIP_MEM_ALIGN_SIZE ram_heap,
      hdr = (hdr h)(0 := \<lparr>mnext = MEM_SIZE_ALIGNED, mprev = 0, mused = 0\<rparr>,
                    MEM_SIZE_ALIGNED := \<lparr>mnext = MEM_SIZE_ALIGNED, mprev = MEM_SIZE_ALIGNED, mused = 1\<rparr>),
      lfree = 0\<rparr>"

section \<open>Freeing\<close>

definition plug_forward :: "nat \<Rightarrow> heap \<Rightarrow> heap" where
  "plug_forward mem h =
     (let nmem = mnext (hdr h mem)
      in if mem \<noteq> nmem \<and> mused (hdr h nmem) = 0 \<and> nmem \<noteq> MEM_SIZE_ALIGNED then
           (let h = (if lfree h = nmem then h\<lparr>lfree := mem\<rparr> else h);
                h = set_hdr mem (\<lambda>m. m\<lparr>mnext := mnext (hdr h nmem)\<rparr>) h
            in if mnext (hdr h nmem) \<noteq> MEM_SIZE_ALIGNED
               then set_hdr (mnext (hdr h nmem)) (\<lambda>m. m\<lparr>mprev := mem\<rparr>) h else h)
         else h)"

definition plug_backward :: "nat \<Rightarrow> heap \<Rightarrow> heap" where
  "plug_backward mem h =
     (let pmem = mprev (hdr h mem)
      in if pmem \<noteq> mem \<and> mused (hdr h pmem) = 0 then
           (let h = (if lfree h = mem then h\<lparr>lfree := pmem\<rparr> else h);
                h = set_hdr pmem (\<lambda>m. m\<lparr>mnext := mnext (hdr h mem)\<rparr>) h
            in if mnext (hdr h mem) \<noteq> MEM_SIZE_ALIGNED
               then set_hdr (mnext (hdr h mem)) (\<lambda>m. m\<lparr>mprev := pmem\<rparr>) h else h)
         else h)"

definition plug_holes :: "nat \<Rightarrow> heap \<Rightarrow> heap option" where
  "plug_holes mem h =
     (if mem < MEM_SIZE_ALIGNED \<and> mused (hdr h mem) = 0 \<and> mnext (hdr h mem) \<le> MEM_SIZE_ALIGNED
      then Some (plug_backward mem (plug_forward mem h))
      else None)"

definition mem_link_valid :: "nat \<Rightarrow> heap \<Rightarrow> bool" where
  "mem_link_valid mem h =
     (let nmem = mnext (hdr h mem); pmem = mprev (hdr h mem)
      in \<not> (nmem > MEM_SIZE_ALIGNED \<or> pmem > MEM_SIZE_ALIGNED \<or>
            (pmem \<noteq> mem \<and> mnext (hdr h pmem) \<noteq> mem) \<or>
            (nmem \<noteq> MEM_SIZE_ALIGNED \<and> mprev (hdr h nmem) \<noteq> mem)))"

definition mem_free :: "nat option \<Rightarrow> heap \<Rightarrow> heap option" where
  "mem_free rmem h =
     (case rmem of
        None \<Rightarrow> Some h
      | Some rmem \<Rightarrow>
          if rmem mod MEM_ALIGNMENT \<noteq> 0 then None
          else if rmem < ram h + SIZEOF_STRUCT_MEM \<or> rmem + MIN_SIZE_ALIGNED > ram h + MEM_SIZE_ALIGNED then None
          else
            (let mem = rmem - SIZEOF_STRUCT_MEM - ram h
             in if mused (hdr h mem) = 0 then None
                else if \<not> mem_link_valid mem h then None
                else
                  (let h = set_hdr mem (\<lambda>m. m\<lparr>mused := 0\<rparr>) h;
                       h = (if mem < lfree h then h\<lparr>lfree := mem\<rparr> else h)
                   in plug_holes mem h)))"

section \<open>Shrinking\<close>

text \<open>The two ways of giving the rest of the block back: a free block behind it grows, or a new one appears.\<close>

definition trim_move :: "nat \<Rightarrow> nat \<Rightarrow> heap \<Rightarrow> heap option" where
  "trim_move ptr newsize h =
     (let mem2 = mnext (hdr h ptr)
      in if mem2 = MEM_SIZE_ALIGNED then None
         else
           (let nxt = mnext (hdr h mem2);
                ptr2 = mem_size (ptr + SIZEOF_STRUCT_MEM + newsize);
                h = (if lfree h = mem2 then h\<lparr>lfree := ptr2\<rparr> else h);
                h = set_hdr ptr2 (\<lambda>m. m\<lparr>mused := 0, mnext := nxt, mprev := ptr\<rparr>) h;
                h = set_hdr ptr (\<lambda>m. m\<lparr>mnext := ptr2\<rparr>) h
            in Some (if nxt \<noteq> MEM_SIZE_ALIGNED then set_hdr nxt (\<lambda>m. m\<lparr>mprev := ptr2\<rparr>) h else h)))"

definition trim_split :: "nat \<Rightarrow> nat \<Rightarrow> heap \<Rightarrow> heap option" where
  "trim_split ptr newsize h =
     (let ptr2 = mem_size (ptr + SIZEOF_STRUCT_MEM + newsize); nxt = mnext (hdr h ptr)
      in if nxt = MEM_SIZE_ALIGNED then None
         else
           (let h = (if ptr2 < lfree h then h\<lparr>lfree := ptr2\<rparr> else h);
                h = set_hdr ptr2 (\<lambda>m. m\<lparr>mused := 0, mnext := nxt, mprev := ptr\<rparr>) h;
                h = set_hdr ptr (\<lambda>m. m\<lparr>mnext := ptr2\<rparr>) h
            in Some (if nxt \<noteq> MEM_SIZE_ALIGNED then set_hdr nxt (\<lambda>m. m\<lparr>mprev := ptr2\<rparr>) h else h)))"

definition mem_trim :: "nat \<Rightarrow> nat \<Rightarrow> heap \<Rightarrow> (nat option \<times> heap) option" where
  "mem_trim rmem new_size h =
     (let newsize = mem_size (LWIP_MEM_ALIGN_SIZE new_size);
          newsize = (if newsize < MIN_SIZE_ALIGNED then MIN_SIZE_ALIGNED else newsize)
      in if newsize > MEM_SIZE_ALIGNED \<or> newsize < new_size then Some (None, h)
         else if rmem < ram h \<or> rmem \<ge> ram h + MEM_SIZE_ALIGNED then None
         else
           (let ptr = mem_size (rmem - ram h + 65536 - SIZEOF_STRUCT_MEM);
                sz = mem_size (usub (mem_size (usub (mnext (hdr h ptr)) ptr)) SIZEOF_STRUCT_MEM)
            in if newsize > sz then None
               else if newsize = sz then Some (Some rmem, h)
               else if mused (hdr h (mnext (hdr h ptr))) = 0 then
                 (case trim_move ptr newsize h of None \<Rightarrow> None | Some h \<Rightarrow> Some (Some rmem, h))
               else if newsize + SIZEOF_STRUCT_MEM + MIN_SIZE_ALIGNED \<le> sz then
                 (case trim_split ptr newsize h of None \<Rightarrow> None | Some h \<Rightarrow> Some (Some rmem, h))
               else Some (Some rmem, h)))"

section \<open>Allocating\<close>

definition malloc_split :: "nat \<Rightarrow> nat \<Rightarrow> heap \<Rightarrow> heap option" where
  "malloc_split sz ptr h =
     (let nxt = mnext (hdr h ptr)
      in if usub nxt (ptr + SIZEOF_STRUCT_MEM) \<ge> sz + SIZEOF_STRUCT_MEM + MIN_SIZE_ALIGNED then
           (let ptr2 = mem_size (ptr + SIZEOF_STRUCT_MEM + sz)
            in if ptr2 = MEM_SIZE_ALIGNED then None
               else
                 (let h = set_hdr ptr2 (\<lambda>m. m\<lparr>mused := 0, mnext := nxt, mprev := ptr\<rparr>) h;
                      h = set_hdr ptr (\<lambda>m. m\<lparr>mnext := ptr2, mused := 1\<rparr>) h
                  in Some (if nxt \<noteq> MEM_SIZE_ALIGNED then set_hdr nxt (\<lambda>m. m\<lparr>mprev := ptr2\<rparr>) h else h)))
         else Some (set_hdr ptr (\<lambda>m. m\<lparr>mused := 1\<rparr>) h))"

partial_function (option) next_free :: "nat \<Rightarrow> heap \<Rightarrow> nat option" where
  "next_free cur h =
     (if mused (hdr h cur) \<noteq> 0 \<and> cur \<noteq> MEM_SIZE_ALIGNED then next_free (mnext (hdr h cur)) h else Some cur)"

definition adjust_lfree :: "nat \<Rightarrow> heap \<Rightarrow> heap option" where
  "adjust_lfree mem h =
     (if mem = lfree h then
        (case next_free (lfree h) h of
           None \<Rightarrow> None
         | Some cur \<Rightarrow>
             (let h = h\<lparr>lfree := cur\<rparr>
              in if lfree h = MEM_SIZE_ALIGNED \<or> mused (hdr h (lfree h)) = 0 then Some h else None))
      else Some h)"

definition malloc_take :: "nat \<Rightarrow> nat \<Rightarrow> heap \<Rightarrow> (nat option \<times> heap) option" where
  "malloc_take sz ptr h =
     (case malloc_split sz ptr h of
        None \<Rightarrow> None
      | Some h \<Rightarrow>
          (case adjust_lfree ptr h of
             None \<Rightarrow> None
           | Some h \<Rightarrow>
               if ram h + ptr + SIZEOF_STRUCT_MEM + sz \<le> ram h + MEM_SIZE_ALIGNED \<and>
                  (ram h + ptr + SIZEOF_STRUCT_MEM) mod MEM_ALIGNMENT = 0 \<and> (ram h + ptr) mod MEM_ALIGNMENT = 0
               then Some (Some (ram h + ptr + SIZEOF_STRUCT_MEM), h)
               else None))"

partial_function (option) malloc_scan :: "nat \<Rightarrow> nat \<Rightarrow> heap \<Rightarrow> (nat option \<times> heap) option" where
  "malloc_scan sz ptr h =
     (if ptr < MEM_SIZE_ALIGNED - sz then
        (if mused (hdr h ptr) = 0 \<and> usub (mnext (hdr h ptr)) (ptr + SIZEOF_STRUCT_MEM) \<ge> sz
         then malloc_take sz ptr h
         else malloc_scan sz (mnext (hdr h ptr)) h)
      else Some (None, h))"

definition alloc_size :: "nat \<Rightarrow> nat" where
  "alloc_size size_in =
     (let sz = mem_size (LWIP_MEM_ALIGN_SIZE size_in)
      in if sz < MIN_SIZE_ALIGNED then MIN_SIZE_ALIGNED else sz)"

definition mem_malloc :: "nat \<Rightarrow> heap \<Rightarrow> (nat option \<times> heap) option" where
  "mem_malloc size_in h =
     (if size_in = 0 then Some (None, h)
      else
        (let sz = alloc_size size_in
         in if sz > MEM_SIZE_ALIGNED \<or> sz < size_in then Some (None, h)
            else malloc_scan sz (lfree h) h))"

text \<open>\<open>mem_calloc\<close> also returns the number of bytes it sets to zero at the result.\<close>

definition mem_calloc :: "nat \<Rightarrow> nat \<Rightarrow> heap \<Rightarrow> ((nat \<times> nat) option \<times> heap) option" where
  "mem_calloc count sz h =
     (let asize = count * sz
      in if mem_size asize \<noteq> asize then Some (None, h)
         else
           (case mem_malloc (mem_size asize) h of
              None \<Rightarrow> None
            | Some (p, h) \<Rightarrow> Some (map_option (\<lambda>p. (p, asize)) p, h)))"

section \<open>The blocks of a heap\<close>

text \<open>A heap is seen as the list of its blocks in address order: the size with the header, and whether it is in use.\<close>

type_synonym blocks = "(nat \<times> bool) list"

definition total :: "blocks \<Rightarrow> nat" where
  "total bs = sum_list (map fst bs)"

lemma total_simps [simp]:
  "total [] = 0" "total ((n, u) # bs) = n + total bs" "total (xs @ ys) = total xs + total ys"
  by (simp_all add: total_def)

fun chain :: "(nat \<Rightarrow> smem) \<Rightarrow> nat \<Rightarrow> nat \<Rightarrow> blocks \<Rightarrow> bool" where
  "chain H p k [] = True"
| "chain H p k ((n, u) # bs) =
     (H k = \<lparr>mnext = k + n, mprev = p, mused = of_bool u\<rparr> \<and> 20 \<le> n \<and> 4 dvd n \<and> chain H k (k + n) bs)"

fun last_off :: "nat \<Rightarrow> nat \<Rightarrow> blocks \<Rightarrow> nat" where
  "last_off p k [] = p"
| "last_off p k ((n, u) # bs) = last_off k (k + n) bs"

fun first_free :: "nat \<Rightarrow> blocks \<Rightarrow> nat" where
  "first_free k [] = k"
| "first_free k ((n, u) # bs) = (if u then first_free (k + n) bs else k)"

fun separated :: "blocks \<Rightarrow> bool" where
  "separated [] = True"
| "separated (b # bs) = ((bs \<noteq> [] \<longrightarrow> snd b \<or> snd (hd bs)) \<and> separated bs)"

definition heap_blocks :: "heap \<Rightarrow> blocks \<Rightarrow> bool" where
  "heap_blocks h bs \<longleftrightarrow>
     ram h mod 4 = 0 \<and> chain (hdr h) 0 0 bs \<and> total bs = MEM_SIZE_ALIGNED \<and>
     hdr h MEM_SIZE_ALIGNED = \<lparr>mnext = MEM_SIZE_ALIGNED, mprev = MEM_SIZE_ALIGNED, mused = 1\<rparr> \<and>
     lfree h = first_free 0 bs"

definition heap_inv :: "heap \<Rightarrow> blocks \<Rightarrow> bool" where
  "heap_inv h bs \<longleftrightarrow> heap_blocks h bs \<and> separated bs"

lemma chain_append [simp]:
  "chain H p k (xs @ ys) \<longleftrightarrow> chain H p k xs \<and> chain H (last_off p k xs) (k + total xs) ys"
  by (induction H p k xs rule: chain.induct) (auto simp: add.assoc)

lemma last_off_append [simp]: "last_off p k (xs @ ys) = last_off (last_off p k xs) (k + total xs) ys"
  by (induction p k xs rule: last_off.induct) (auto simp: add.assoc)

lemma first_free_append:
  "first_free k (xs @ ys) = (if list_all snd xs then first_free (k + total xs) ys else first_free k xs)"
  by (induction k xs rule: first_free.induct) (auto simp: add.assoc)

lemma first_free_bounds: "k \<le> first_free k bs" "first_free k bs \<le> k + total bs"
  by (induction k bs rule: first_free.induct) auto

lemma first_free_less: "chain H p k bs \<Longrightarrow> \<not> list_all snd bs \<Longrightarrow> first_free k bs < k + total bs"
  by (induction H p k bs rule: chain.induct) (auto split: if_splits)

lemma first_free_used: "list_all snd bs \<Longrightarrow> first_free k bs = k + total bs"
  by (induction k bs rule: first_free.induct) auto

lemma last_off_range: "chain H p k bs \<Longrightarrow> bs \<noteq> [] \<Longrightarrow> k \<le> last_off p k bs \<and> last_off p k bs + 20 \<le> k + total bs"
proof (induction H p k bs rule: chain.induct)
  case (2 H p k n u bs)
  then show ?case by (cases "bs = []") auto
qed simp

lemma chain_frame [simp]:
  "x < k \<or> k + total bs \<le> x \<Longrightarrow> chain (H(x := v)) p k bs = chain H p k bs"
  by (induction H p k bs rule: chain.induct) (auto simp: add.assoc)

lemma chain_pos: "chain H p k bs \<Longrightarrow> bs \<noteq> [] \<Longrightarrow> 20 \<le> total bs"
  by (cases bs) auto

lemma chain_total_0: "chain H p k bs \<Longrightarrow> total bs = 0 \<longleftrightarrow> bs = []"
  using chain_pos by fastforce

lemma chain_dvd: "chain H p k bs \<Longrightarrow> 4 dvd total bs"
  by (induction H p k bs rule: chain.induct) auto

lemma chain_cong:
  "(\<And>x. k \<le> x \<Longrightarrow> x < k + total bs \<Longrightarrow> H' x = H x) \<Longrightarrow> chain H p k bs \<Longrightarrow> chain H' p k bs"
  by (induction H p k bs rule: chain.induct) (auto simp: add.assoc)

text \<open>
  Every operation replaces some blocks by others that cover the same range and links the block behind them
  to the last one. This is the only fact about headers that the proofs below use.
\<close>

lemma chain_splice:
  assumes old: "chain H 0 0 (xs @ mid @ zs)"
    and new: "chain H' (last_off 0 0 xs) (total xs) mid'" "total mid' = total mid"
    and same: "\<And>x. x < total xs \<or> total (xs @ mid) < x \<Longrightarrow> x < total (xs @ mid @ zs) \<Longrightarrow> H' x = H x"
    and link: "zs \<noteq> [] \<Longrightarrow> H' (total (xs @ mid)) = (H (total (xs @ mid)))\<lparr>mprev := last_off 0 0 (xs @ mid')\<rparr>"
  shows "chain H' 0 0 (xs @ mid' @ zs)"
proof -
  have "chain H 0 0 xs" using old by simp
  then have "chain H' 0 0 xs" by (rule chain_cong [rotated]) (rule same, simp_all)
  moreover have "chain H' (last_off 0 0 (xs @ mid')) (total xs + total mid) zs"
  proof (cases zs)
    case (Cons z zs')
    obtain n u where z: "z = (n, u)" by (cases z)
    let ?e = "total xs + total mid"
    from old Cons z have tl: "chain H ?e (?e + n) zs'" and n: "20 \<le> n" "4 dvd n"
      and he: "H ?e = \<lparr>mnext = ?e + n, mprev = last_off 0 0 (xs @ mid), mused = of_bool u\<rparr>" by auto
    have "chain H' ?e (?e + n) zs'" by (rule chain_cong [OF _ tl]) (rule same, use n Cons z in simp_all)
    moreover have "H' ?e = (H ?e)\<lparr>mprev := last_off 0 0 (xs @ mid')\<rparr>" using link Cons by simp
    ultimately show ?thesis using he n Cons z by simp
  qed simp
  ultimately show ?thesis using new by simp
qed

section \<open>Freeing merges neighbours\<close>

definition join :: "nat \<times> bool \<Rightarrow> blocks \<Rightarrow> blocks" where
  "join b bs =
     (case bs of [] \<Rightarrow> [b] | c # cs \<Rightarrow> if \<not> snd b \<and> \<not> snd c then (fst b + fst c, False) # cs else b # bs)"

lemma plug_forward_blocks:
  assumes "heap_blocks h (xs @ (n, False) # ys)"
  shows "heap_blocks (plug_forward (total xs) h) (xs @ join (n, False) ys)" "ram (plug_forward (total xs) h) = ram h"
proof -
  let ?h = "plug_forward (total xs) h"
  have c: "chain (hdr h) 0 0 (xs @ [(n, False)] @ ys)" "total xs + n + total ys = 3072" "20 \<le> n"
    "lfree h = first_free 0 (xs @ [(n, False)] @ ys)" "ram h mod 4 = 0"
    "hdr h 3072 = \<lparr>mnext = 3072, mprev = 3072, mused = 1\<rparr>"
    using assms by (auto simp: heap_blocks_def layout_simps)
  have "heap_blocks ?h (xs @ join (n, False) ys) \<and> ram ?h = ram h"
  proof (cases "\<exists>m zs. ys = (m, False) # zs")
    case True
    then obtain m zs where ys: "ys = (m, False) # zs" by blast
    have lf: "lfree h \<noteq> total xs + n"
      using c first_free_bounds [of 0 xs] by (auto simp: first_free_append)
    have m: "20 \<le> m" using c ys by simp
    have z: "total xs + n + m = 3072 \<longleftrightarrow> zs = []"
      using c ys chain_total_0 [of "hdr h" "total xs + n" "total xs + n + m" zs] by auto
    have "chain (hdr ?h) 0 0 (xs @ [(n + m, False)] @ zs)"
      by (rule chain_splice [where H = "hdr h" and mid = "[(n, False), (m, False)]"])
        (use c ys m lf z in \<open>auto simp: plug_forward_def Let_def set_hdr_def layout_simps add.assoc\<close>)
    moreover have "hdr ?h 3072 = hdr h 3072"
      using c ys m lf z by (auto simp: plug_forward_def Let_def set_hdr_def layout_simps)
    ultimately show ?thesis
      using c ys lf by (auto simp: heap_blocks_def layout_simps plug_forward_def Let_def set_hdr_def first_free_append join_def)
  next
    case False
    then have "join (n, False) ys = (n, False) # ys" by (cases ys) (auto simp: join_def)
    moreover have "?h = h"
      using c False by (cases ys) (auto simp: plug_forward_def Let_def layout_simps)
    ultimately show ?thesis using assms by simp
  qed
  then show "heap_blocks ?h (xs @ join (n, False) ys)" "ram ?h = ram h" by auto
qed

lemma plug_backward_merge:
  assumes "heap_blocks h (ws @ (k, False) # (n, False) # zs)"
  shows "heap_blocks (plug_backward (total ws + k) h) (ws @ (k + n, False) # zs)"
    "ram (plug_backward (total ws + k) h) = ram h"
proof -
  let ?h = "plug_backward (total ws + k) h"
  have c: "chain (hdr h) 0 0 (ws @ [(k, False), (n, False)] @ zs)" "total ws + k + n + total zs = 3072"
    "20 \<le> n" "20 \<le> k" "lfree h = first_free 0 (ws @ (k, False) # (n, False) # zs)" "ram h mod 4 = 0"
    "hdr h 3072 = \<lparr>mnext = 3072, mprev = 3072, mused = 1\<rparr>"
    using assms by (auto simp: heap_blocks_def layout_simps)
  have lf: "lfree h \<noteq> total ws + k"
    using c first_free_bounds [of 0 ws] by (auto simp: first_free_append)
  have z: "total ws + k + n = 3072 \<longleftrightarrow> zs = []"
    using c chain_total_0 [of "hdr h" "total ws + k" "total ws + k + n" zs] by auto
  have "chain (hdr ?h) 0 0 (ws @ [(k + n, False)] @ zs)"
    by (rule chain_splice [where H = "hdr h" and mid = "[(k, False), (n, False)]"])
      (use c lf z in \<open>auto simp: plug_backward_def Let_def set_hdr_def layout_simps add.assoc\<close>)
  moreover have "hdr ?h 3072 = hdr h 3072"
    using c lf z by (auto simp: plug_backward_def Let_def set_hdr_def layout_simps)
  ultimately show "heap_blocks ?h (ws @ (k + n, False) # zs)" "ram ?h = ram h"
    using c lf by (auto simp: heap_blocks_def layout_simps plug_backward_def Let_def set_hdr_def first_free_append)
qed

lemma plug_backward_none:
  assumes "heap_blocks h (xs @ (n, False) # zs)" "xs = [] \<or> snd (last xs)"
  shows "plug_backward (total xs) h = h"
proof (cases xs rule: rev_cases)
  case (snoc ws b)
  with assms show ?thesis
    by (cases b) (auto simp: heap_blocks_def plug_backward_def Let_def)
qed (use assms in \<open>auto simp: heap_blocks_def plug_backward_def Let_def\<close>)

text \<open>What freeing promises: the block list with the block marked free and all adjacent free blocks merged.\<close>

definition coalesce :: "blocks \<Rightarrow> blocks" where
  "coalesce bs = foldr join bs []"

lemma separated_append:
  "separated (xs @ ys) \<longleftrightarrow> separated xs \<and> separated ys \<and> (xs = [] \<or> ys = [] \<or> snd (last xs) \<or> snd (hd ys))"
  by (induction xs) (auto simp: hd_append)

lemma join_separated: "separated bs \<Longrightarrow> separated (join b bs)"
  by (cases bs) (auto simp: join_def)

lemma join_apart: "bs = [] \<or> snd b \<or> snd (hd bs) \<Longrightarrow> join b bs = b # bs"
  by (cases bs) (auto simp: join_def)

lemma foldr_join: "separated ws \<Longrightarrow> ws = [] \<or> bs = [] \<or> snd (last ws) \<or> snd (hd bs) \<Longrightarrow> foldr join ws bs = ws @ bs"
proof (induction ws)
  case (Cons w ws)
  then show ?case by (cases ws) (simp_all add: join_apart)
qed simp

lemma coalesce_separated: "separated (coalesce bs)"
  unfolding coalesce_def by (induction bs) (auto intro: join_separated)

lemma separated_coalesce [simp]: "separated bs \<Longrightarrow> coalesce bs = bs"
  by (simp add: coalesce_def foldr_join)

lemma plug_holes_blocks:
  assumes "heap_blocks h (xs @ (n, False) # ys)" "separated xs" "separated ys"
  shows "\<exists>h'. plug_holes (total xs) h = Some h' \<and> heap_inv h' (coalesce (xs @ (n, False) # ys)) \<and> ram h' = ram h"
proof -
  let ?f = "plug_forward (total xs) h"
  have "\<exists>m zs. join (n, False) ys = (m, False) # zs"
    by (auto simp: join_def split: list.splits)
  then obtain m zs where j: "join (n, False) ys = (m, False) # zs" by blast
  have pre: "total xs < 3072" "mused (hdr h (total xs)) = 0" "mnext (hdr h (total xs)) \<le> 3072"
    using assms by (auto simp: heap_blocks_def layout_simps)
  have f: "heap_blocks ?f (xs @ (m, False) # zs)" "ram ?f = ram h"
    using plug_forward_blocks [OF assms(1)] j by simp_all
  have cl: "coalesce (xs @ (n, False) # ys) = foldr join xs ((m, False) # zs)"
    using assms(3) by (simp add: coalesce_def foldr_join j flip: j)
  have "heap_blocks (plug_backward (total xs) ?f) (coalesce (xs @ (n, False) # ys)) \<and>
        ram (plug_backward (total xs) ?f) = ram h"
  proof (cases "xs = [] \<or> snd (last xs)")
    case True
    then show ?thesis using plug_backward_none [OF f(1)] f cl foldr_join [OF assms(2), of "(m, False) # zs"] by auto
  next
    case False
    then obtain ws k where xs: "xs = ws @ [(k, False)]"
      by (cases xs rule: rev_cases) auto
    have "foldr join ws ((k + m, False) # zs) = ws @ (k + m, False) # zs"
      by (rule foldr_join) (use assms(2) xs in \<open>auto simp: separated_append\<close>)
    then show ?thesis using plug_backward_merge [of ?f ws k m zs] f cl xs by (simp add: join_def)
  qed
  then show ?thesis
    using pre by (simp add: plug_holes_def layout_simps heap_inv_def coalesce_separated)
qed

lemma mem_link_valid_blocks:
  assumes "heap_blocks h (xs @ (n, u) # ys)"
  shows "mem_link_valid (total xs) h"
proof -
  have "xs = [] \<or> mnext (hdr h (last_off 0 0 xs)) = total xs \<and> last_off 0 0 xs < total xs"
    using assms by (cases xs rule: rev_cases) (auto simp: heap_blocks_def)
  moreover have "total xs + n = 3072 \<or> mprev (hdr h (total xs + n)) = total xs"
    using assms by (cases ys) (auto simp: heap_blocks_def layout_simps)
  ultimately show ?thesis
    using assms by (auto simp: mem_link_valid_def heap_blocks_def layout_simps)
qed

lemma mem_free_blocks:
  assumes "heap_inv h (xs @ (n, True) # ys)"
  shows "\<exists>h'. mem_free (Some (ram h + total xs + 8)) h = Some h' \<and>
           heap_inv h' (coalesce (xs @ (n, False) # ys)) \<and> ram h' = ram h"
proof -
  let ?g = "set_hdr (total xs) (\<lambda>m. m\<lparr>mused := 0\<rparr>) h"
  let ?g' = "if total xs < lfree ?g then ?g\<lparr>lfree := total xs\<rparr> else ?g"
  have b: "heap_blocks h (xs @ (n, True) # ys)" "separated xs" "separated ys"
    using assms by (auto simp: heap_inv_def separated_append)
  have c: "chain (hdr h) 0 0 (xs @ [(n, True)] @ ys)" "20 \<le> n" "total xs + n + total ys = 3072" "4 dvd ram h"
    "hdr h (total xs) = \<lparr>mnext = total xs + n, mprev = last_off 0 0 xs, mused = 1\<rparr>"
    using b by (auto simp: heap_blocks_def layout_simps)
  have l: "ys \<noteq> [] \<Longrightarrow> (hdr h (total xs + n))\<lparr>mprev := total xs\<rparr> = hdr h (total xs + n)"
    using c by (cases ys) auto
  have "chain (hdr ?g) 0 0 (xs @ [(n, False)] @ ys)"
    by (rule chain_splice [where H = "hdr h" and mid = "[(n, True)]"]) (use c l in \<open>auto simp: set_hdr_def\<close>)
  moreover have "lfree ?g' = first_free 0 (xs @ (n, False) # ys)"
    using b c first_free_bounds [of 0 xs] first_free_bounds [of "total xs + n" ys]
    by (auto simp: set_hdr_def heap_blocks_def first_free_append)
  ultimately have "heap_blocks ?g' (xs @ (n, False) # ys)"
    using b c by (auto simp: heap_blocks_def layout_simps set_hdr_def)
  moreover have "mem_link_valid (total xs) h" using b mem_link_valid_blocks by blast
  moreover have "4 dvd total xs" using c chain_dvd [of "hdr h" 0 0 xs] by simp
  ultimately show ?thesis
    using plug_holes_blocks [of ?g' xs n ys] b c
    by (auto simp: mem_free_def layout_simps Let_def set_hdr_def mod_0_imp_dvd)
qed

section \<open>Allocating is first fit\<close>

definition carve :: "nat \<Rightarrow> nat \<Rightarrow> blocks \<Rightarrow> blocks" where
  "carve n m bs = (if n + 28 \<le> m then (n + 8, True) # (m - (n + 8), False) # bs else (m, True) # bs)"

fun first_fit :: "nat \<Rightarrow> blocks \<Rightarrow> (nat \<times> blocks) option" where
  "first_fit n [] = None"
| "first_fit n ((m, u) # bs) =
     (if \<not> u \<and> n + 8 \<le> m then Some (0, carve n m bs)
      else map_option (\<lambda>(k, bs'). (m + k, (m, u) # bs')) (first_fit n bs))"

lemma usub_le [simp]: "b \<le> a \<Longrightarrow> a < 4294967296 \<Longrightarrow> usub a b = a - b"
  by (simp add: usub_def mod_if)

lemma mem_size_less [simp]: "n < 65536 \<Longrightarrow> mem_size n = n"
  by (simp add: mem_size_def)

lemma total_carve [simp]: "n + 8 \<le> m \<Longrightarrow> total (carve n m bs) = m + total bs"
  by (simp add: carve_def)

lemma malloc_split_chain:
  assumes "chain (hdr h) 0 0 (xs @ (m, False) # ys)" "total xs + m + total ys = 3072" "n + 8 \<le> m" "12 \<le> n" "4 dvd n"
  shows "\<exists>H. malloc_split n (total xs) h = Some (h\<lparr>hdr := H\<rparr>) \<and> chain H 0 0 (xs @ carve n m ys) \<and> H 3072 = hdr h 3072"
proof -
  have c: "chain (hdr h) 0 0 (xs @ [(m, False)] @ ys)" "4 dvd m"
    "hdr h (total xs) = \<lparr>mnext = total xs + m, mprev = last_off 0 0 xs, mused = 0\<rparr>"
    using assms by auto
  have l: "ys \<noteq> [] \<Longrightarrow> (hdr h (total xs + m))\<lparr>mprev := total xs\<rparr> = hdr h (total xs + m)"
    using c by (cases ys) auto
  have z: "total xs + m = 3072 \<longleftrightarrow> ys = []"
    using assms chain_total_0 [of "hdr h" "total xs" "total xs + m" ys] by auto
  show ?thesis
  proof (cases "n + 28 \<le> m")
    case True
    let ?k = "total xs + 8 + n"
    let ?H = "(hdr h)(?k := (hdr h ?k)\<lparr>mused := 0, mnext := total xs + m, mprev := total xs\<rparr>,
                       total xs := (hdr h (total xs))\<lparr>mnext := ?k, mused := 1\<rparr>)"
    let ?H' = "if ys = [] then ?H else ?H(total xs + m := (?H (total xs + m))\<lparr>mprev := ?k\<rparr>)"
    have "malloc_split n (total xs) h = Some (h\<lparr>hdr := ?H'\<rparr>)"
      using True assms c z by (auto simp: malloc_split_def Let_def set_hdr_def layout_simps add.assoc)
    moreover have "chain ?H' 0 0 (xs @ [(n + 8, True), (m - (n + 8), False)] @ ys)"
      by (rule chain_splice [where H = "hdr h" and mid = "[(m, False)]"])
        (use True assms c z in \<open>auto simp: dvd_diff_nat ac_simps\<close>)
    ultimately show ?thesis using True assms z by (auto simp: carve_def)
  next
    case False
    let ?H = "(hdr h)(total xs := (hdr h (total xs))\<lparr>mused := 1\<rparr>)"
    have "malloc_split n (total xs) h = Some (h\<lparr>hdr := ?H\<rparr>)"
      using False assms c by (auto simp: malloc_split_def Let_def set_hdr_def layout_simps)
    moreover have "chain ?H 0 0 (xs @ [(m, True)] @ ys)"
      by (rule chain_splice [where H = "hdr h" and mid = "[(m, False)]"]) (use assms c l in auto)
    ultimately show ?thesis using False assms by (auto simp: carve_def)
  qed
qed

lemma next_free_blocks:
  "chain (hdr h) p k bs \<Longrightarrow> k + total bs = MEM_SIZE_ALIGNED \<Longrightarrow> next_free k h = Some (first_free k bs)"
proof (induction "hdr h" p k bs rule: chain.induct)
  case (2 p k n u bs)
  then show ?case by (subst next_free.simps) (auto simp: layout_simps)
qed (subst next_free.simps, simp)

lemma first_free_free:
  "chain H p k bs \<Longrightarrow> first_free k bs \<noteq> k + total bs \<Longrightarrow> mused (H (first_free k bs)) = 0"
  by (induction H p k bs rule: chain.induct) auto

lemma separated_carve:
  "separated (xs @ (m, False) # ys) \<Longrightarrow> separated (xs @ carve n m ys)"
  by (auto simp: separated_append carve_def)

lemma malloc_take_blocks:
  assumes inv: "heap_inv h (xs @ (m, False) # ys)" and n: "n + 8 \<le> m" "12 \<le> n" "4 dvd n"
  shows "\<exists>h'. malloc_take n (total xs) h = Some (Some (ram h + total xs + 8), h') \<and>
           heap_inv h' (xs @ carve n m ys) \<and> ram h' = ram h"
proof -
  let ?bs = "xs @ carve n m ys"
  have b: "chain (hdr h) 0 0 (xs @ (m, False) # ys)" "total xs + m + total ys = 3072" "4 dvd ram h"
    "lfree h = first_free 0 (xs @ (m, False) # ys)" "hdr h 3072 = \<lparr>mnext = 3072, mprev = 3072, mused = 1\<rparr>"
    using inv by (auto simp: heap_inv_def heap_blocks_def layout_simps)
  obtain H where H: "malloc_split n (total xs) h = Some (h\<lparr>hdr := H\<rparr>)" "chain H 0 0 ?bs" "H 3072 = hdr h 3072"
    using malloc_split_chain [OF b(1,2) n] by blast
  let ?g = "h\<lparr>hdr := H\<rparr>"
  have "adjust_lfree (total xs) ?g = Some (?g\<lparr>lfree := first_free 0 ?bs\<rparr>)"
  proof (cases "list_all snd xs")
    case True
    have c: "chain H (last_off 0 0 xs) (total xs) (carve n m ys)" using H by simp
    have "next_free (total xs) ?g = Some (first_free (total xs) (carve n m ys))"
      by (rule next_free_blocks) (use c b n in \<open>simp_all add: layout_simps\<close>)
    moreover have "first_free (total xs) (carve n m ys) = 3072 \<or> mused (H (first_free (total xs) (carve n m ys))) = 0"
      using first_free_free [OF c] b n by (cases "first_free (total xs) (carve n m ys) = 3072") simp_all
    ultimately show ?thesis using True b n
      by (auto simp: adjust_lfree_def first_free_append layout_simps)
  next
    case False
    have "chain (hdr h) 0 0 xs" using b by simp
    from first_free_less [OF this False] False b show ?thesis
      by (auto simp: adjust_lfree_def first_free_append)
  qed
  moreover have "4 dvd total xs" using b chain_dvd [of "hdr h" 0 0 xs] by simp
  ultimately show ?thesis
    using H b n inv separated_carve
    by (auto simp: malloc_take_def heap_inv_def heap_blocks_def layout_simps mod_0_imp_dvd)
qed

lemma first_fit_fits: "first_fit n bs = Some (k, bs') \<Longrightarrow> k + n + 8 \<le> total bs"
  by (induction n bs arbitrary: k bs' rule: first_fit.induct) (fastforce split: if_splits)+

definition fit_result :: "nat \<Rightarrow> heap \<Rightarrow> (nat \<times> blocks) option \<Rightarrow> blocks \<Rightarrow> (nat option \<times> heap) option \<Rightarrow> bool" where
  "fit_result base h fit bs r \<longleftrightarrow>
     (case fit of
        None \<Rightarrow> r = Some (None, h)
      | Some (k, bs') \<Rightarrow> (\<exists>h'. r = Some (Some (base + k + 8), h') \<and> heap_inv h' (bs @ bs') \<and> ram h' = ram h))"

lemma malloc_scan_blocks:
  assumes "heap_inv h (xs @ ys)" "12 \<le> n" "4 dvd n" "n \<le> 3072"
  shows "fit_result (ram h + total xs) h (first_fit n ys) xs (malloc_scan n (total xs) h)"
  using assms(1)
proof (induction ys arbitrary: xs)
  case Nil
  then show ?case
    by (subst malloc_scan.simps) (auto simp: fit_result_def heap_inv_def heap_blocks_def layout_simps)
next
  case (Cons b ys)
  obtain m u where b: "b = (m, u)" by (cases b)
  have c: "hdr h (total xs) = \<lparr>mnext = total xs + m, mprev = last_off 0 0 xs, mused = of_bool u\<rparr>"
    "total xs + m + total ys = 3072" "20 \<le> m"
    using Cons.prems b by (auto simp: heap_inv_def heap_blocks_def layout_simps)
  consider (stop) "3072 - n \<le> total xs" | (hit) "total xs < 3072 - n" "\<not> u" "n + 8 \<le> m"
    | (miss) "total xs < 3072 - n" "u \<or> \<not> n + 8 \<le> m" by linarith
  then show ?case
  proof cases
    case stop
    have "first_fit n (b # ys) = None"
      using first_fit_fits [of n "b # ys"] stop c b by (cases "first_fit n (b # ys)") auto
    then show ?thesis using stop by (subst malloc_scan.simps) (simp add: fit_result_def layout_simps)
  next
    case hit
    then have "malloc_scan n (total xs) h = malloc_take n (total xs) h"
      using c by (subst malloc_scan.simps) (auto simp: layout_simps)
    then show ?thesis using hit b malloc_take_blocks [of h xs m ys n] Cons.prems assms by (simp add: fit_result_def)
  next
    case miss
    then have "malloc_scan n (total xs) h = malloc_scan n (total (xs @ [b])) h"
      using c b by (subst malloc_scan.simps) (auto simp: layout_simps)
    moreover have "first_fit n (b # ys) = map_option (\<lambda>(k, bs'). (m + k, (m, u) # bs')) (first_fit n ys)"
      using miss b by auto
    ultimately show ?thesis
      using Cons.IH [of "xs @ [b]"] Cons.prems b
      by (auto simp: fit_result_def add.assoc split: option.splits)
  qed
qed

lemma first_fit_used:
  "list_all snd xs \<Longrightarrow> first_fit n (xs @ ys) = map_option (\<lambda>(k, bs). (total xs + k, xs @ bs)) (first_fit n ys)"
proof (induction xs)
  case Nil
  show ?case by (simp add: option.map_ident_strong split_beta)
next
  case (Cons b xs)
  then show ?case by (cases b) (auto simp: option.map_comp comp_def split_beta add.assoc intro: option.map_cong)
qed

lemma first_free_takeWhile: "first_free k bs = k + total (takeWhile snd bs)"
  by (induction k bs rule: first_free.induct) auto

text \<open>What \<open>mem_malloc\<close> promises, on the list of blocks.\<close>

definition alloc_spec :: "nat \<Rightarrow> blocks \<Rightarrow> (nat \<times> blocks) option" where
  "alloc_spec k bs = (if k = 0 \<or> 3072 < k then None else first_fit (max 12 ((k + 3) div 4 * 4)) bs)"

lemma mem_malloc_blocks:
  assumes "heap_inv h bs" "k < 65536"
  shows "fit_result (ram h) h (alloc_spec k bs) [] (mem_malloc k h)"
proof -
  let ?n = "max 12 ((k + 3) div 4 * 4)"
  let ?xs = "takeWhile snd bs" and ?ys = "dropWhile snd bs"
  have al: "LWIP_MEM_ALIGN_SIZE k = (k + 3) div 4 * 4"
    by (simp add: LWIP_MEM_ALIGN_SIZE_def layout_simps)
  have ge: "k \<le> (k + 3) div 4 * 4" "(k + 3) div 4 * 4 < k + 4" by linarith+
  consider (zero) "k = 0" | (big) "3072 < k" | (fit) "0 < k" "k \<le> 3072" by linarith
  then show ?thesis
  proof cases
    case big
    have "3072 < alloc_size k \<or> alloc_size k < k"
      using big ge assms(2) by (auto simp: alloc_size_def al Let_def layout_simps mem_size_def mod_if)
    then show ?thesis
      using big by (auto simp: mem_malloc_def Let_def fit_result_def alloc_spec_def layout_simps)
  next
    case fit
    have le: "(k + 3) div 4 * 4 \<le> 3072" using fit div_le_mono [of "k + 3" 3075 4] by simp
    then have sz: "alloc_size k = ?n"
      by (auto simp: alloc_size_def al Let_def layout_simps)
    have used: "list_all snd ?xs" by (auto simp: list_all_iff dest: set_takeWhileD)
    have "lfree h = total ?xs"
      using assms by (simp add: heap_inv_def heap_blocks_def first_free_takeWhile)
    then have "mem_malloc k h = malloc_scan ?n (total ?xs) h"
      using fit sz le ge by (auto simp: mem_malloc_def Let_def layout_simps)
    moreover have "fit_result (ram h + total ?xs) h (first_fit ?n ?ys) ?xs (malloc_scan ?n (total ?xs) h)"
      by (rule malloc_scan_blocks) (use assms le in \<open>auto simp: max_def\<close>)
    ultimately show ?thesis
      using fit first_fit_used [OF used, of ?n ?ys]
      by (auto simp: fit_result_def alloc_spec_def add.assoc split: option.splits)
  qed (simp add: mem_malloc_def fit_result_def alloc_spec_def)
qed

section \<open>Shrinking\<close>

text \<open>
  What \<open>mem_trim\<close> promises for a block of size \<open>m\<close> followed by \<open>ys\<close>. The last block of the heap is only shrunk
  when nothing is to be given back: otherwise an assertion of the code fails.
\<close>

definition trim_spec :: "nat \<Rightarrow> nat \<Rightarrow> blocks \<Rightarrow> blocks option" where
  "trim_spec n m ys =
     (if n + 8 = m then Some ((m, True) # ys)
      else if ys \<noteq> [] \<and> \<not> snd (hd ys) then Some ((n + 8, True) # (m + fst (hd ys) - (n + 8), False) # tl ys)
      else if n + 28 \<le> m then
        (if ys = [] then None else Some ((n + 8, True) # (m - (n + 8), False) # ys))
      else Some ((m, True) # ys))"

lemma trim_move_blocks:
  assumes "heap_inv h (xs @ (m, True) # (j, False) # zs)" "12 \<le> n" "n + 8 < m" "4 dvd n"
  shows "\<exists>h'. trim_move (total xs) n h = Some h' \<and>
           heap_inv h' (xs @ (n + 8, True) # (m + j - (n + 8), False) # zs) \<and> ram h' = ram h"
proof -
  have c: "chain (hdr h) 0 0 (xs @ [(m, True), (j, False)] @ zs)" "4 dvd m" "4 dvd j" "20 \<le> j"
    "hdr h (total xs) = \<lparr>mnext = total xs + m, mprev = last_off 0 0 xs, mused = 1\<rparr>"
    "hdr h (total xs + m) = \<lparr>mnext = total xs + m + j, mprev = total xs, mused = 0\<rparr>"
    "total xs + m + j + total zs = 3072" "lfree h = first_free 0 (xs @ [(m, True), (j, False)] @ zs)"
    "hdr h 3072 = \<lparr>mnext = 3072, mprev = 3072, mused = 1\<rparr>" "ram h mod 4 = 0"
    "separated (xs @ (m, True) # (j, False) # zs)"
    using assms by (auto simp: heap_inv_def heap_blocks_def layout_simps)
  have z: "total xs + m + j = 3072 \<longleftrightarrow> zs = []"
    using c chain_total_0 [of "hdr h" "total xs + m" "total xs + m + j" zs] by auto
  let ?k = "total xs + 8 + n"
  let ?H = "(hdr h)(?k := (hdr h ?k)\<lparr>mused := 0, mnext := total xs + m + j, mprev := total xs\<rparr>,
                     total xs := (hdr h (total xs))\<lparr>mnext := ?k\<rparr>)"
  let ?H' = "if zs = [] then ?H else ?H(total xs + m + j := (?H (total xs + m + j))\<lparr>mprev := ?k\<rparr>)"
  let ?l = "if lfree h = total xs + m then ?k else lfree h"
  have t: "trim_move (total xs) n h = Some (h\<lparr>hdr := ?H', lfree := ?l\<rparr>)"
    using assms c z by (auto simp: trim_move_def Let_def set_hdr_def layout_simps add.assoc)
  have "chain ?H' 0 0 (xs @ [(n + 8, True), (m + j - (n + 8), False)] @ zs)"
    by (rule chain_splice [where H = "hdr h" and mid = "[(m, True), (j, False)]"])
      (use assms c z in \<open>auto simp: dvd_diff_nat ac_simps\<close>)
  moreover have "?H' 3072 = hdr h 3072" using assms c z by auto
  moreover have "?l = first_free 0 (xs @ (n + 8, True) # (m + j - (n + 8), False) # zs)"
    using c first_free_less [of "hdr h" 0 0 xs] by (auto simp: first_free_append)
  ultimately have "heap_inv (h\<lparr>hdr := ?H', lfree := ?l\<rparr>) (xs @ (n + 8, True) # (m + j - (n + 8), False) # zs)"
    using c assms by (auto simp: heap_inv_def heap_blocks_def layout_simps separated_append)
  with t show ?thesis by simp
qed

lemma trim_split_blocks:
  assumes "heap_inv h (xs @ (m, True) # ys)" "12 \<le> n" "n + 28 \<le> m" "4 dvd n" "ys \<noteq> []" "snd (hd ys)"
  shows "\<exists>h'. trim_split (total xs) n h = Some h' \<and>
           heap_inv h' (xs @ (n + 8, True) # (m - (n + 8), False) # ys) \<and> ram h' = ram h"
proof -
  have c: "chain (hdr h) 0 0 (xs @ [(m, True)] @ ys)" "4 dvd m"
    "hdr h (total xs) = \<lparr>mnext = total xs + m, mprev = last_off 0 0 xs, mused = 1\<rparr>"
    "total xs + m + total ys = 3072" "lfree h = first_free 0 (xs @ [(m, True)] @ ys)"
    "hdr h 3072 = \<lparr>mnext = 3072, mprev = 3072, mused = 1\<rparr>" "ram h mod 4 = 0"
    "separated (xs @ (m, True) # ys)"
    using assms by (auto simp: heap_inv_def heap_blocks_def layout_simps)
  have z: "total xs + m \<noteq> 3072"
    using c assms(5) chain_total_0 [of "hdr h" "total xs" "total xs + m" ys] by auto
  let ?k = "total xs + 8 + n"
  let ?H = "(hdr h)(?k := (hdr h ?k)\<lparr>mused := 0, mnext := total xs + m, mprev := total xs\<rparr>,
                     total xs := (hdr h (total xs))\<lparr>mnext := ?k\<rparr>)"
  let ?H' = "?H(total xs + m := (?H (total xs + m))\<lparr>mprev := ?k\<rparr>)"
  let ?l = "if ?k < lfree h then ?k else lfree h"
  have t: "trim_split (total xs) n h = Some (h\<lparr>hdr := ?H', lfree := ?l\<rparr>)"
    using assms c z by (auto simp: trim_split_def Let_def set_hdr_def layout_simps add.assoc)
  have "chain ?H' 0 0 (xs @ [(n + 8, True), (m - (n + 8), False)] @ ys)"
    by (rule chain_splice [where H = "hdr h" and mid = "[(m, True)]"])
      (use assms c in \<open>auto simp: dvd_diff_nat ac_simps\<close>)
  moreover have "?H' 3072 = hdr h 3072" using assms c z by auto
  moreover have "?l = first_free 0 (xs @ (n + 8, True) # (m - (n + 8), False) # ys)"
    using c assms first_free_bounds(2) [of 0 xs] first_free_bounds(1) [of "total xs + m" ys]
    by (auto simp: first_free_append)
  ultimately have "heap_inv (h\<lparr>hdr := ?H', lfree := ?l\<rparr>) (xs @ (n + 8, True) # (m - (n + 8), False) # ys)"
    using c assms by (auto simp: heap_inv_def heap_blocks_def layout_simps separated_append)
  with t show ?thesis by simp
qed

definition trim_result :: "nat \<Rightarrow> heap \<Rightarrow> blocks \<Rightarrow> blocks option \<Rightarrow> (nat option \<times> heap) option \<Rightarrow> bool" where
  "trim_result p h xs spec r \<longleftrightarrow>
     (case spec of
        None \<Rightarrow> r = None
      | Some bs \<Rightarrow> (\<exists>h'. r = Some (Some p, h') \<and> heap_inv h' (xs @ bs) \<and> ram h' = ram h))"

lemma mem_trim_cases:
  assumes "hdr h k = \<lparr>mnext = k + m, mprev = p, mused = u\<rparr>" "k + m \<le> 3072" "n + 8 \<le> m" "12 \<le> n" "r \<le> n"
    "max 12 (mem_size (LWIP_MEM_ALIGN_SIZE r)) = n"
  shows "mem_trim (ram h + k + 8) r h =
      (if n + 8 = m then Some (Some (ram h + k + 8), h)
       else if mused (hdr h (k + m)) = 0 then
         (case trim_move k n h of None \<Rightarrow> None | Some h' \<Rightarrow> Some (Some (ram h + k + 8), h'))
       else if n + 28 \<le> m then
         (case trim_split k n h of None \<Rightarrow> None | Some h' \<Rightarrow> Some (Some (ram h + k + 8), h'))
       else Some (Some (ram h + k + 8), h))"
proof -
  have p: "mem_size (ram h + k + 8 - ram h + 65536 - 8) = k" using assms by (simp add: mem_size_def)
  have sz: "mem_size (usub (mem_size (usub (k + m) k)) 8) = m - 8" using assms by simp
  have n: "(if mem_size (LWIP_MEM_ALIGN_SIZE r) < 12 then 12 else mem_size (LWIP_MEM_ALIGN_SIZE r)) = n"
    using assms by auto
  have i: "n \<le> 3072" "r \<le> n" "k + 8 < 3072" "n \<le> m - 8" "n = m - 8 \<longleftrightarrow> n + 8 = m" "n + 8 + 12 \<le> m - 8 \<longleftrightarrow> n + 28 \<le> m"
    using assms by auto
  show ?thesis
    unfolding mem_trim_def Let_def layout_simps p assms(1) n using i sz by simp
qed

lemma mem_trim_blocks:
  assumes inv: "heap_inv h (xs @ (m, True) # ys)" and k: "max 12 ((k + 3) div 4 * 4) + 8 \<le> m"
  shows "trim_result (ram h + total xs + 8) h xs (trim_spec (max 12 ((k + 3) div 4 * 4)) m ys)
           (mem_trim (ram h + total xs + 8) k h)"
proof -
  define n where "n = max 12 ((k + 3) div 4 * 4)"
  let ?p = "ram h + total xs + 8"
  have c: "hdr h (total xs) = \<lparr>mnext = total xs + m, mprev = last_off 0 0 xs, mused = 1\<rparr>"
    "total xs + m + total ys = 3072" "20 \<le> m" "chain (hdr h) (total xs) (total xs + m) ys" "4 dvd m"
    "hdr h 3072 = \<lparr>mnext = 3072, mprev = 3072, mused = 1\<rparr>"
    using inv by (auto simp: heap_inv_def heap_blocks_def layout_simps)
  have "k \<le> (k + 3) div 4 * 4" by linarith
  then have n: "12 \<le> n" "n + 8 \<le> m" "k \<le> n" "4 dvd n" "(k + 3) div 4 * 4 \<le> n"
    using k by (auto simp: n_def max_def)
  have "mem_size (LWIP_MEM_ALIGN_SIZE k) = (k + 3) div 4 * 4"
    using n c by (simp add: LWIP_MEM_ALIGN_SIZE_def layout_simps)
  then have t: "mem_trim ?p k h =
      (if n + 8 = m then Some (Some ?p, h)
       else if mused (hdr h (total xs + m)) = 0 then
         (case trim_move (total xs) n h of None \<Rightarrow> None | Some h \<Rightarrow> Some (Some ?p, h))
       else if n + 28 \<le> m then
         (case trim_split (total xs) n h of None \<Rightarrow> None | Some h \<Rightarrow> Some (Some ?p, h))
       else Some (Some ?p, h))"
    using c n by (intro mem_trim_cases) (auto simp: n_def)
  have used: "mused (hdr h (total xs + m)) = of_bool (ys = [] \<or> snd (hd ys))"
    using c by (cases ys) auto
  consider (exact) "n + 8 = m"
    | (move) "n + 8 < m" "ys \<noteq> []" "\<not> snd (hd ys)"
    | (split) "n + 28 \<le> m" "ys \<noteq> []" "snd (hd ys)"
    | (lst) "n + 28 \<le> m" "ys = []"
    | (keep) "n + 8 < m" "m < n + 28" "ys = [] \<or> snd (hd ys)" using n by linarith
  then have "trim_result ?p h xs (trim_spec n m ys) (mem_trim ?p k h)"
  proof cases
    case move
    then obtain j zs where ys: "ys = (j, False) # zs" by (cases ys) auto
    obtain h' where "trim_move (total xs) n h = Some h'"
      "heap_inv h' (xs @ (n + 8, True) # (m + j - (n + 8), False) # zs)" "ram h' = ram h"
      using trim_move_blocks [of h xs m j zs n] inv n move ys by auto
    then show ?thesis using t used move ys by (simp add: trim_result_def trim_spec_def)
  next
    case split
    then obtain h' where "trim_split (total xs) n h = Some h'"
      "heap_inv h' (xs @ (n + 8, True) # (m - (n + 8), False) # ys)" "ram h' = ram h"
      using trim_split_blocks [of h xs m ys n] inv n by auto
    then show ?thesis using t used split by (simp add: trim_result_def trim_spec_def)
  next
    case lst
    then have "trim_split (total xs) n h = None" using c by (simp add: trim_split_def Let_def layout_simps)
    then show ?thesis using lst t used by (simp add: trim_result_def trim_spec_def)
  next
    case keep
    then show ?thesis using t used inv by (auto simp: trim_result_def trim_spec_def)
  qed (use t inv in \<open>simp add: trim_result_def trim_spec_def\<close>)
  then show ?thesis by (simp add: n_def)
qed

end
