(* ===== verification/Allocator.thy ===== *)
theory Allocator
  imports Prelude
begin

text \<open>
  The contract between the memory managers of the stack and their callers: what is allocated is aligned, apart
  from everything else that is allocated, and stays allocated until it is released. The heap and the pools both
  provide it.
\<close>

locale allocator =
  fixes inv :: "'s \<Rightarrow> bool" and table :: "'s \<Rightarrow> nat \<rightharpoonup> nat" and fits :: "nat \<Rightarrow> bool"
    and alloc :: "nat \<Rightarrow> 's \<Rightarrow> (nat option \<times> 's) option" and free :: "nat \<Rightarrow> 's \<Rightarrow> 's option"
  assumes apart: "inv s \<Longrightarrow> table s p = Some a \<Longrightarrow> table s q = Some b \<Longrightarrow> p < q \<Longrightarrow> p + a \<le> q"
    and aligned: "inv s \<Longrightarrow> table s p = Some a \<Longrightarrow> 4 dvd p"
    and alloc_ok: "inv s \<Longrightarrow> fits k \<Longrightarrow>
      \<exists>r s'. alloc k s = Some (r, s') \<and> inv s' \<and>
        (case r of None \<Rightarrow> s' = s | Some p \<Rightarrow> table s p = None \<and> (\<exists>a\<ge>k. table s' = (table s)(p \<mapsto> a)))"
    and free_ok: "inv s \<Longrightarrow> table s p = Some a \<Longrightarrow> \<exists>s'. free p s = Some s' \<and> inv s' \<and> table s' = (table s)(p := None)"
begin

text \<open>
  A client runs a script of requests: allocations of a size, and releases of its oldest allocation. It never gets
  stuck, what it holds is live, and no two things it holds overlap.
\<close>

fun client :: "nat list \<Rightarrow> (nat \<times> nat) list \<times> 's \<Rightarrow> ((nat \<times> nat) list \<times> 's) option" where
  "client [] c = Some c"
| "client (k # ks) (own, s) =
     (if k = 0 then
        (case own of
           [] \<Rightarrow> client ks (own, s)
         | (p, n) # own' \<Rightarrow> Option.bind (free p s) (\<lambda>s'. client ks (own', s')))
      else
        Option.bind (alloc k s) (\<lambda>(r, s'). client ks (case r of None \<Rightarrow> own | Some p \<Rightarrow> own @ [(p, k)], s')))"

definition holds :: "(nat \<times> nat) list \<Rightarrow> 's \<Rightarrow> bool" where
  "holds own s \<longleftrightarrow> inv s \<and> distinct (map fst own) \<and> (\<forall>x\<in>set own. \<exists>a\<ge>snd x. table s (fst x) = Some a)"

lemma holds_free:
  assumes "holds ((p, n) # own) s"
  shows "\<exists>s'. free p s = Some s' \<and> holds own s'"
proof -
  from assms obtain a where "inv s" "table s p = Some a" by (auto simp: holds_def)
  then obtain s' where "free p s = Some s'" "inv s'" "table s' = (table s)(p := None)" using free_ok by blast
  moreover have "\<forall>x\<in>set own. fst x \<noteq> p" using assms by (force simp: holds_def)
  ultimately show ?thesis using assms by (auto simp: holds_def)
qed

lemma holds_alloc:
  assumes "holds own s" "fits k"
  shows "\<exists>r s'. alloc k s = Some (r, s') \<and> holds (case r of None \<Rightarrow> own | Some p \<Rightarrow> own @ [(p, k)]) s'"
proof -
  have "inv s" using assms by (simp add: holds_def)
  from alloc_ok [OF this assms(2)] obtain r s' where s': "alloc k s = Some (r, s')" "inv s'"
    "case r of None \<Rightarrow> s' = s | Some p \<Rightarrow> table s p = None \<and> (\<exists>a\<ge>k. table s' = (table s)(p \<mapsto> a))"
    by blast
  have "holds (case r of None \<Rightarrow> own | Some p \<Rightarrow> own @ [(p, k)]) s'"
  proof (cases r)
    case (Some p)
    then obtain a where "table s p = None" "k \<le> a" "table s' = (table s)(p \<mapsto> a)" using s' by auto
    moreover from this have "\<forall>x\<in>set own. fst x \<noteq> p" using assms by (force simp: holds_def)
    ultimately show ?thesis using Some s'(2) assms by (auto simp: holds_def)
  qed (use s' assms in auto)
  with s' show ?thesis by blast
qed

text \<open>What every request keeps, a whole script keeps.\<close>

lemma client_keeps:
  assumes "\<And>p n own s. Q ((p, n) # own) s \<Longrightarrow> \<exists>s'. free p s = Some s' \<and> Q own s'"
    and "\<And>k own s. Q own s \<Longrightarrow> fits k \<Longrightarrow> \<exists>r s'. alloc k s = Some (r, s') \<and> Q (case r of None \<Rightarrow> own | Some p \<Rightarrow> own @ [(p, k)]) s'"
  shows "Q own s \<Longrightarrow> \<forall>k\<in>set ks. k = 0 \<or> fits k \<Longrightarrow> \<exists>own' s'. client ks (own, s) = Some (own', s') \<and> Q own' s'"
proof (induction ks arbitrary: own s)
  case (Cons k ks)
  have ks: "\<forall>k\<in>set ks. k = 0 \<or> fits k" using Cons.prems by simp
  consider (idle) "k = 0" "own = []" | (free) p n own' where "k = 0" "own = (p, n) # own'" | (alloc) "k \<noteq> 0" "fits k"
    using Cons.prems by (cases own) auto
  then show ?case
  proof cases
    case idle
    then show ?thesis using Cons.IH [OF Cons.prems(1) ks] by simp
  next
    case free
    then obtain s' where "free p s = Some s'" "Q own' s'" using assms(1) Cons.prems(1) by blast
    then show ?thesis using Cons.IH [OF _ ks] free by simp
  next
    case alloc
    then obtain r s' where "alloc k s = Some (r, s')" "Q (case r of None \<Rightarrow> own | Some p \<Rightarrow> own @ [(p, k)]) s'"
      using assms(2) Cons.prems(1) by blast
    then show ?thesis using Cons.IH [OF _ ks] alloc by simp
  qed
qed simp

lemma client_safe:
  "holds own s \<Longrightarrow> \<forall>k\<in>set ks. k = 0 \<or> fits k \<Longrightarrow> \<exists>own' s'. client ks (own, s) = Some (own', s') \<and> holds own' s'"
  using client_keeps [of holds] holds_free holds_alloc by blast

text \<open>A client that starts with everything that is live stays the owner of everything that is live.\<close>

definition owns :: "(nat \<times> nat) list \<Rightarrow> 's \<Rightarrow> bool" where
  "owns own s \<longleftrightarrow> holds own s \<and> dom (table s) = fst ` set own"

lemma owns_free:
  assumes "owns ((p, n) # own) s"
  shows "\<exists>s'. free p s = Some s' \<and> owns own s'"
proof -
  from assms obtain a where "inv s" "table s p = Some a" by (auto simp: owns_def holds_def)
  then obtain s' where "free p s = Some s'" "table s' = (table s)(p := None)" using free_ok by blast
  moreover obtain s2 where "free p s = Some s2" "holds own s2" using holds_free [of p n own s] assms by (auto simp: owns_def)
  moreover have "p \<notin> fst ` set own" using assms by (auto simp: owns_def holds_def)
  ultimately show ?thesis using assms by (auto simp: owns_def)
qed

lemma owns_alloc:
  assumes "owns own s" "fits k"
  shows "\<exists>r s'. alloc k s = Some (r, s') \<and> owns (case r of None \<Rightarrow> own | Some p \<Rightarrow> own @ [(p, k)]) s'"
proof -
  have h: "holds own s" "inv s" using assms by (auto simp: owns_def holds_def)
  from alloc_ok [OF h(2) assms(2)] obtain r s' where s': "alloc k s = Some (r, s')"
    "case r of None \<Rightarrow> s' = s | Some p \<Rightarrow> table s p = None \<and> (\<exists>a\<ge>k. table s' = (table s)(p \<mapsto> a))" by blast
  moreover have "holds (case r of None \<Rightarrow> own | Some p \<Rightarrow> own @ [(p, k)]) s'" using holds_alloc [OF h(1) assms(2)] s'(1) by auto
  moreover have "dom (table s') = fst ` set (case r of None \<Rightarrow> own | Some p \<Rightarrow> own @ [(p, k)])"
  proof (cases r)
    case (Some p)
    then obtain a where "table s' = (table s)(p \<mapsto> a)" using s'(2) by auto
    then have "dom (table s') = insert p (dom (table s))" by simp
    then show ?thesis using Some assms(1) by (simp add: owns_def)
  qed (use s'(2) assms(1) in \<open>simp add: owns_def\<close>)
  ultimately show ?thesis by (auto simp: owns_def)
qed

lemma client_owns:
  "owns own s \<Longrightarrow> \<forall>k\<in>set ks. k = 0 \<or> fits k \<Longrightarrow> \<exists>own' s'. client ks (own, s) = Some (own', s') \<and> owns own' s'"
  using client_keeps [of owns] owns_free owns_alloc by blast

lemma holds_live: "holds own s \<Longrightarrow> (p, m) \<in> set own \<Longrightarrow> \<exists>a\<ge>m. table s p = Some a"
  by (force simp: holds_def)

lemma holds_apart: "holds own s \<Longrightarrow> (p, m) \<in> set own \<Longrightarrow> (q, n) \<in> set own \<Longrightarrow> p < q \<Longrightarrow> p + m \<le> q"
proof -
  assume "holds own s" "(p, m) \<in> set own" "(q, n) \<in> set own" "p < q"
  moreover from this holds_live obtain a b where "table s p = Some a" "m \<le> a" "table s q = Some b" by meson
  ultimately show "p + m \<le> q" using apart [of s p a q b] by (simp add: holds_def)
qed

end

end
