(* ===== verification/Mem_Heap.thy ===== *)
theory Mem_Heap
  imports Mem Allocator
begin

text \<open>The heap as an allocator, and the properties of its operations.\<close>

section \<open>Live allocations\<close>

text \<open>
  The table of live allocations maps the address of each to the number of bytes it may use. It can be read off
  the headers, so the invariant is a property of the heap alone.
\<close>

fun walk :: "nat \<Rightarrow> (nat \<Rightarrow> smem) \<Rightarrow> nat \<Rightarrow> blocks" where
  "walk 0 H k = []"
| "walk (Suc f) H k = (if k < MEM_SIZE_ALIGNED then (mnext (H k) - k, mused (H k) \<noteq> 0) # walk f H (mnext (H k)) else [])"

definition blocks_of :: "heap \<Rightarrow> blocks" where
  "blocks_of h = walk 154 (hdr h) 0"

definition heap_ok :: "heap \<Rightarrow> bool" where
  "heap_ok h = heap_inv h (blocks_of h)"

fun owned :: "nat \<Rightarrow> blocks \<Rightarrow> nat \<rightharpoonup> nat" where
  "owned k [] = Map.empty"
| "owned k ((n, u) # bs) = (if u then (owned (k + n) bs)(k + 8 \<mapsto> n - 8) else owned (k + n) bs)"

definition live :: "heap \<Rightarrow> nat \<rightharpoonup> nat" where
  "live h = owned (ram h) (blocks_of h)"

lemma walk_chain:
  "chain H p k bs \<Longrightarrow> k + total bs = 3072 \<Longrightarrow> length bs < f \<Longrightarrow> walk f H k = bs"
proof (induction f arbitrary: p k bs)
  case (Suc f)
  then show ?case by (cases bs) (auto simp: layout_simps)
qed simp

lemma chain_length: "chain H p k bs \<Longrightarrow> 20 * length bs \<le> total bs"
  by (induction H p k bs rule: chain.induct) auto

lemma blocks_of_eq: "heap_inv h bs \<Longrightarrow> blocks_of h = bs"
  using chain_length [of "hdr h" 0 0 bs]
  by (auto simp: blocks_of_def heap_inv_def heap_blocks_def layout_simps intro: walk_chain)

lemma heap_ok_iff: "heap_ok h \<longleftrightarrow> (\<exists>bs. heap_inv h bs)"
  using blocks_of_eq by (auto simp: heap_ok_def)

lemma live_eq: "heap_inv h bs \<Longrightarrow> live h = owned (ram h) bs"
  by (simp add: live_def blocks_of_eq)


definition proper :: "blocks \<Rightarrow> bool" where
  "proper bs \<longleftrightarrow> (\<forall>b\<in>set bs. 20 \<le> fst b \<and> 4 dvd fst b)"

lemma proper_simps [simp]:
  "proper []" "proper ((n, u) # bs) \<longleftrightarrow> 20 \<le> n \<and> 4 dvd n \<and> proper bs" "proper (xs @ ys) \<longleftrightarrow> proper xs \<and> proper ys"
  by (auto simp: proper_def)

lemma chain_proper: "chain H p k bs \<Longrightarrow> proper bs"
  by (induction H p k bs rule: chain.induct) auto

lemma owned_range: "proper bs \<Longrightarrow> owned j bs q = Some a \<Longrightarrow> j + 8 \<le> q \<and> q + a \<le> j + total bs"
  by (induction j bs rule: owned.induct) (auto split: if_splits)

lemma owned_before: "proper bs \<Longrightarrow> q < j + 8 \<Longrightarrow> owned j bs q = None"
  using owned_range [of bs j q] by (cases "owned j bs q") auto

lemma owned_apart:
  "proper bs \<Longrightarrow> owned j bs p = Some a \<Longrightarrow> owned j bs q = Some b \<Longrightarrow> p < q \<Longrightarrow> p + a \<le> q"
proof (induction j bs rule: owned.induct)
  case (2 j n u bs)
  then show ?case using owned_range [of bs "j + n" p a] owned_range [of bs "j + n" q b]
    by (auto split: if_splits)
qed simp

lemma owned_aligned: "proper bs \<Longrightarrow> 4 dvd j \<Longrightarrow> owned j bs p = Some a \<Longrightarrow> 4 dvd p"
  by (induction j bs rule: owned.induct) (auto split: if_splits)

lemma owned_block:
  "owned j bs p = Some a \<Longrightarrow> \<exists>xs n ys. bs = xs @ (n, True) # ys \<and> p = j + total xs + 8 \<and> a = n - 8"
proof (induction j bs rule: owned.induct)
  case (2 j n u bs)
  show ?case
  proof (cases "u \<and> p = j + 8")
    case True
    then show ?thesis using 2 by (intro exI [of _ "[]"]) auto
  next
    case False
    then obtain xs m ys where "bs = xs @ (m, True) # ys" "p = j + n + total xs + 8" "a = m - 8"
      using 2 by (auto split: if_splits)
    then show ?thesis by (intro exI [of _ "(n, u) # xs"]) auto
  qed
qed simp

lemma owned_join: "owned j (join b bs) = owned j (b # bs)"
  by (cases b; cases bs) (auto simp: join_def add.assoc)

lemma owned_coalesce: "owned j (coalesce bs) = owned j bs"
proof (induction bs arbitrary: j)
  case (Cons b bs)
  then show ?case by (cases b) (simp add: coalesce_def owned_join fun_upd_def)
qed (simp add: coalesce_def)

lemma owned_free:
  "proper (xs @ (n, True) # ys) \<Longrightarrow>
     owned j (xs @ (n, False) # ys) = (owned j (xs @ (n, True) # ys))(j + total xs + 8 := None)"
proof (induction xs arbitrary: j)
  case Nil
  then show ?case using owned_before [of ys "j + 8" "j + n"] by auto
next
  case (Cons b xs)
  then show ?case by (cases b) (auto simp: add.assoc fun_upd_twist)
qed

lemma owned_alloc:
  "proper bs \<Longrightarrow> first_fit n bs = Some (k, bs') \<Longrightarrow>
     owned j bs (j + k + 8) = None \<and> (\<exists>a\<ge>n. owned j bs' = (owned j bs)(j + k + 8 \<mapsto> a))"
proof (induction bs arbitrary: j k bs')
  case (Cons b bs)
  obtain m u where b: "b = (m, u)" by (cases b)
  show ?case
  proof (cases "\<not> u \<and> n + 8 \<le> m")
    case True
    then have k: "k = 0" "bs' = carve n m bs" "proper bs" "20 \<le> m" using Cons.prems b by auto
    let ?a = "if n + 28 \<le> m then n else m - 8"
    have "owned (j + m) bs (j + 8) = None" using k owned_before by simp
    moreover have "owned j bs' = (owned j (b # bs))(j + 8 \<mapsto> ?a)"
      using True k b by (auto simp: carve_def fun_eq_iff)
    moreover have "n \<le> ?a" using True by auto
    ultimately show ?thesis using True k b by auto
  next
    case False
    then obtain k' bs'' where k: "first_fit n bs = Some (k', bs'')" "k = m + k'" "bs' = (m, u) # bs''"
      using Cons.prems b by auto
    moreover have m: "20 \<le> m" "proper bs" using Cons.prems b by auto
    ultimately obtain a where a: "owned (j + m) bs (j + m + k' + 8) = None" "n \<le> a"
      "owned (j + m) bs'' = (owned (j + m) bs)(j + m + k' + 8 \<mapsto> a)" using Cons.IH [of k' bs'' "j + m"] by blast
    then have "owned j bs' = (owned j (b # bs))(j + k + 8 \<mapsto> a)" using k b m by (auto simp: fun_eq_iff add.assoc)
    then show ?thesis using a k b m by (auto simp: add.assoc)
  qed
qed simp

section \<open>The heap keeps the contract\<close>

lemma heap_inv_proper: "heap_inv h bs \<Longrightarrow> proper bs \<and> 4 dvd ram h"
  using chain_proper by (auto simp: heap_inv_def heap_blocks_def)

lemma mem_malloc_live:
  assumes "heap_ok h" "k < 65536"
  shows "\<exists>r h'. mem_malloc k h = Some (r, h') \<and> heap_ok h' \<and>
    (case r of None \<Rightarrow> h' = h | Some p \<Rightarrow> live h p = None \<and> (\<exists>a\<ge>k. live h' = (live h)(p \<mapsto> a)))"
proof -
  from assms obtain bs where inv: "heap_inv h bs" by (auto simp: heap_ok_iff)
  have fit: "fit_result (ram h) h (alloc_spec k bs) [] (mem_malloc k h)" by (rule mem_malloc_blocks [OF inv assms(2)])
  show ?thesis
  proof (cases "alloc_spec k bs")
    case None
    then show ?thesis using fit assms by (simp add: fit_result_def)
  next
    case (Some x)
    then obtain j bs' where x: "alloc_spec k bs = Some (j, bs')" by (cases x) simp
    then obtain h' where h': "mem_malloc k h = Some (Some (ram h + j + 8), h')" "heap_inv h' bs'" "ram h' = ram h"
      using fit by (auto simp: fit_result_def)
    have "first_fit (max 12 ((k + 3) div 4 * 4)) bs = Some (j, bs')" using x by (simp add: alloc_spec_def split: if_splits)
    from owned_alloc [OF _ this, of "ram h"] heap_inv_proper [OF inv]
    obtain a where "owned (ram h) bs (ram h + j + 8) = None" "max 12 ((k + 3) div 4 * 4) \<le> a"
      "owned (ram h) bs' = (owned (ram h) bs)(ram h + j + 8 \<mapsto> a)" by blast
    moreover from this have "k \<le> a" by linarith
    ultimately show ?thesis using h' inv by (auto simp: heap_ok_iff live_eq)
  qed
qed

lemma mem_free_live:
  assumes "heap_ok h" "live h p = Some a"
  shows "\<exists>h'. mem_free (Some p) h = Some h' \<and> heap_ok h' \<and> live h' = (live h)(p := None)"
proof -
  from assms obtain bs where inv: "heap_inv h bs" by (auto simp: heap_ok_iff)
  then obtain xs n ys where bs: "bs = xs @ (n, True) # ys" "p = ram h + total xs + 8"
    using assms owned_block [of "ram h" bs p a] by (auto simp: live_eq)
  obtain h' where "mem_free (Some p) h = Some h'" "heap_inv h' (coalesce (xs @ (n, False) # ys))" "ram h' = ram h"
    using mem_free_blocks inv bs by blast
  moreover have "proper bs" using heap_inv_proper inv by blast
  ultimately show ?thesis
    using inv bs owned_free [of xs n ys "ram h"] by (auto simp: heap_ok_iff live_eq owned_coalesce)
qed

interpretation mem_heap: allocator heap_ok live "\<lambda>k. k < 65536" mem_malloc "\<lambda>p. mem_free (Some p)"
proof unfold_locales
  show "heap_ok h \<Longrightarrow> live h p = Some a \<Longrightarrow> live h q = Some b \<Longrightarrow> p < q \<Longrightarrow> p + a \<le> q" for h p q a b
    using owned_apart heap_inv_proper by (metis heap_ok_def live_def)
  show "heap_ok h \<Longrightarrow> live h p = Some a \<Longrightarrow> 4 dvd p" for h p a
    using owned_aligned heap_inv_proper by (metis heap_ok_def live_def)
qed (fact mem_malloc_live mem_free_live)+

lemma mem_init_ok: "heap_ok (mem_init a h)" and mem_init_live: "live (mem_init a h) = Map.empty"
proof -
  have "heap_inv (mem_init a h) [(3072, False)]"
    by (simp add: heap_inv_def heap_blocks_def mem_init_def LWIP_MEM_ALIGN_SIZE_def layout_simps)
  then show "heap_ok (mem_init a h)" "live (mem_init a h) = Map.empty" by (auto simp: heap_ok_iff live_eq)
qed

text \<open>Releasing what was just allocated undoes the allocation.\<close>

lemma join_join: "join (m, False) (join (n, False) bs) = join (m + n, False) bs"
  by (cases bs) (auto simp: join_def)

lemma first_fit_undo:
  assumes "separated bs" "first_fit n bs = Some (k, bs')"
  shows "\<exists>xs m ys. bs' = xs @ (m, True) # ys \<and> total xs = k \<and> coalesce (xs @ (m, False) # ys) = bs"
proof -
  have "\<exists>xs m ys. bs = xs @ (m, False) # ys \<and> bs' = xs @ carve n m ys \<and> total xs = k \<and> n + 8 \<le> m"
    using assms(2)
  proof (induction bs arbitrary: k bs')
    case (Cons b bs)
    obtain m u where b: "b = (m, u)" by (cases b)
    show ?case
    proof (cases "\<not> u \<and> n + 8 \<le> m")
      case True
      then show ?thesis using Cons.prems b by (intro exI [of _ "[]"]) auto
    next
      case False
      then obtain k' bs'' where k: "first_fit n bs = Some (k', bs'')" "k = m + k'" "bs' = (m, u) # bs''"
        using Cons.prems b by auto
      from Cons.IH [OF k(1)] obtain xs m' ys where
        "bs = xs @ (m', False) # ys \<and> bs'' = xs @ carve n m' ys \<and> total xs = k' \<and> n + 8 \<le> m'" by blast
      then show ?thesis using k b by (intro exI [of _ "(m, u) # xs"]) auto
    qed
  qed simp
  then obtain xs m ys where x: "bs = xs @ (m, False) # ys" "bs' = xs @ carve n m ys" "total xs = k" "n + 8 \<le> m" by blast
  have "coalesce bs = bs" using assms(1) by simp
  moreover have "coalesce (xs @ (n + 8, False) # (m - (n + 8), False) # ys) = coalesce bs"
    using x by (simp add: coalesce_def join_join)
  ultimately show ?thesis using x by (cases "n + 28 \<le> m") (auto simp: carve_def)
qed

section \<open>Properties\<close>

text \<open>
  C31: Memory safety of the heap. From \<open>mem_init\<close> on, a client that allocates sizes of its choice and releases its
  allocations in order never runs into a failed assertion or an endless loop; what it holds is aligned and any
  two allocations it holds occupy disjoint ranges of bytes.
\<close>

theorem mem_client_safe:
  assumes "\<forall>k\<in>set ks. k < 65536"
  shows "\<exists>own h. mem_heap.client ks ([], mem_init a h0) = Some (own, h) \<and>
    (\<forall>(p, m)\<in>set own. 4 dvd p) \<and>
    (\<forall>(p, m)\<in>set own. \<forall>(q, n)\<in>set own. p < q \<longrightarrow> p + m \<le> q) \<and> distinct (map fst own)"
proof -
  have "mem_heap.holds [] (mem_init a h0)" by (simp add: mem_heap.holds_def mem_init_ok)
  from mem_heap.client_safe [OF this, of ks] assms
  obtain own h where c: "mem_heap.client ks ([], mem_init a h0) = Some (own, h)" "mem_heap.holds own h" by auto
  moreover have "4 dvd p" if "(p, m) \<in> set own" for p m
    using mem_heap.aligned mem_heap.holds_live that c by (metis mem_heap.holds_def)
  ultimately show ?thesis using mem_heap.holds_apart by (intro exI) (auto simp: mem_heap.holds_def)
qed

definition heap0 :: heap where
  "heap0 = mem_init 5 \<lparr>ram = 0, hdr = (\<lambda>_. \<lparr>mnext = 0, mprev = 0, mused = 0\<rparr>), lfree = 0\<rparr>"

theorem mem_client_safe_witness:
  "(\<exists>own h. mem_heap.client [100, 2000, 2000, 0, 50] ([], mem_init 5 heap0) = Some (own, h) \<and> distinct (map fst own))"
  using mem_client_safe [of "[100, 2000, 2000, 0, 50]" 5 heap0] by auto

text \<open>
  C32: \<open>mem_malloc\<close> is first fit: it takes the lowest free block that can hold the request, splits off what remains
  when that is large enough for a block of its own, and fails exactly when no free block fits or the request is
  empty or larger than the heap.
\<close>

theorem mem_malloc_first_fit:
  assumes "heap_ok h" "k < 65536"
  shows "case alloc_spec k (blocks_of h) of
      None \<Rightarrow> mem_malloc k h = Some (None, h)
    | Some (j, bs) \<Rightarrow>
        \<exists>h'. mem_malloc k h = Some (Some (ram h + j + 8), h') \<and> heap_ok h' \<and> blocks_of h' = bs \<and> ram h' = ram h"
proof -
  have "fit_result (ram h) h (alloc_spec k (blocks_of h)) [] (mem_malloc k h)"
    using assms mem_malloc_blocks by (simp add: heap_ok_def)
  then show ?thesis
    using blocks_of_eq by (fastforce simp: fit_result_def heap_ok_iff split: option.splits prod.splits)
qed

lemma heap0_ok: "heap_ok heap0" and heap0_blocks: "blocks_of heap0 = [(3072, False)]"
proof -
  have "heap_inv heap0 [(3072, False)]"
    by (simp add: heap0_def heap_inv_def heap_blocks_def mem_init_def LWIP_MEM_ALIGN_SIZE_def layout_simps)
  then show "heap_ok heap0" "blocks_of heap0 = [(3072, False)]" by (auto simp: heap_ok_iff blocks_of_eq)
qed

definition heap1 :: "bool \<Rightarrow> heap" where
  "heap1 used = heap0\<lparr>hdr := (hdr heap0)(0 := \<lparr>mnext = 1000, mprev = 0, mused = 1\<rparr>, 1000 := \<lparr>mnext = 3072, mprev = 0, mused = of_bool used\<rparr>),
     lfree := if used then 3072 else 1000\<rparr>"

lemma heap1_ok: "heap_ok (heap1 u)" and heap1_blocks: "blocks_of (heap1 u) = [(1000, True), (2072, u)]" and heap1_ram: "ram (heap1 u) = 8"
proof -
  show "ram (heap1 u) = 8" by (simp add: heap1_def heap0_def mem_init_def LWIP_MEM_ALIGN_SIZE_def layout_simps)
  have "heap_inv (heap1 u) [(1000, True), (2072, u)]"
    by (auto simp: heap1_def heap0_def heap_inv_def heap_blocks_def mem_init_def LWIP_MEM_ALIGN_SIZE_def layout_simps)
  then show "heap_ok (heap1 u)" "blocks_of (heap1 u) = [(1000, True), (2072, u)]" by (auto simp: heap_ok_iff blocks_of_eq)
qed

theorem mem_malloc_first_fit_witness:
  "heap_ok heap0 \<and> (\<exists>h'. mem_malloc 100 heap0 = Some (Some 16, h') \<and> blocks_of h' = [(108, True), (2964, False)])"
  using mem_malloc_first_fit [of heap0 100] heap0_ok
  by (simp add: heap0_blocks alloc_spec_def carve_def) (auto simp: heap0_def mem_init_def LWIP_MEM_ALIGN_SIZE_def layout_simps)

text \<open>
  C33: \<open>mem_free\<close> of an allocated block marks it free and merges it with its free neighbours; nothing else changes,
  and none of its plausibility checks fails.
\<close>

theorem mem_free_coalesces:
  assumes "heap_ok h" "blocks_of h = xs @ (n, True) # ys"
  shows "\<exists>h'. mem_free (Some (ram h + total xs + 8)) h = Some h' \<and> heap_ok h' \<and> ram h' = ram h \<and>
           blocks_of h' = coalesce (xs @ (n, False) # ys)"
  using mem_free_blocks [of h xs n ys] assms blocks_of_eq by (fastforce simp: heap_ok_def heap_ok_iff)

theorem mem_free_coalesces_witness:
  "heap_ok (heap1 False) \<and> blocks_of (heap1 False) = [] @ (1000, True) # [(2072, False)] \<and>
   (\<exists>h'. mem_free (Some 16) (heap1 False) = Some h' \<and> blocks_of h' = [(3072, False)])"
  using mem_free_coalesces [of "heap1 False" "[]" 1000 "[(2072, False)]"]
  by (auto simp: heap1_ok heap1_blocks heap1_ram coalesce_def join_def)

text \<open>Releasing what was just allocated restores the blocks of the heap as they were.\<close>

lemma mem_malloc_free_round_trip:
  assumes "heap_ok h" "k < 65536" "mem_malloc k h = Some (Some p, h')"
  shows "\<exists>h''. mem_free (Some p) h' = Some h'' \<and> heap_ok h'' \<and> blocks_of h'' = blocks_of h \<and> lfree h'' = lfree h"
proof -
  have inv: "heap_inv h (blocks_of h)" using assms by (simp add: heap_ok_def)
  have "fit_result (ram h) h (alloc_spec k (blocks_of h)) [] (mem_malloc k h)"
    using inv assms mem_malloc_blocks by blast
  then obtain j bs where j: "alloc_spec k (blocks_of h) = Some (j, bs)" "p = ram h + j + 8" "heap_inv h' bs" "ram h' = ram h"
    using assms(3) by (auto simp: fit_result_def split: option.splits)
  then have "\<exists>n. first_fit n (blocks_of h) = Some (j, bs)" by (auto simp: alloc_spec_def split: if_splits)
  then obtain xs m ys where bs: "bs = xs @ (m, True) # ys" "total xs = j" "coalesce (xs @ (m, False) # ys) = blocks_of h"
    using first_fit_undo inv by (metis heap_inv_def)
  obtain h'' where "mem_free (Some p) h' = Some h''" "heap_inv h'' (blocks_of h)"
    using mem_free_blocks [of h' xs m ys] j bs by auto
  then show ?thesis using inv blocks_of_eq heap_ok_iff by (metis heap_blocks_def heap_inv_def)
qed

text \<open>
  C34: \<open>mem_trim\<close> shrinks a block in place: a free block behind it grows, or a new free block appears between it and
  its successor when the rest is large enough, and otherwise nothing changes. The last block of the heap is the
  exception: the code asserts that the block has a successor, so giving back the end of the last block fails.
\<close>

theorem mem_trim_shrinks:
  assumes "heap_ok h" "blocks_of h = xs @ (m, True) # ys" "max 12 ((k + 3) div 4 * 4) + 8 \<le> m"
  shows "case trim_spec (max 12 ((k + 3) div 4 * 4)) m ys of
      None \<Rightarrow> mem_trim (ram h + total xs + 8) k h = None
    | Some bs \<Rightarrow> \<exists>h'. mem_trim (ram h + total xs + 8) k h = Some (Some (ram h + total xs + 8), h') \<and>
                   heap_ok h' \<and> blocks_of h' = xs @ bs"
  using mem_trim_blocks [of h xs m ys k] assms blocks_of_eq
  by (fastforce simp: trim_result_def heap_ok_def heap_ok_iff split: option.splits)

theorem mem_trim_shrinks_witness:
  "heap_ok (heap1 True) \<and> blocks_of (heap1 True) = [(1000, True)] @ (2072, True) # [] \<and>
   mem_trim 1016 100 (heap1 True) = None \<and>
   (\<exists>h'. mem_trim 16 100 (heap1 True) = Some (Some 16, h') \<and> blocks_of h' = [(108, True), (892, False), (2072, True)])"
  using mem_trim_shrinks [of "heap1 True" "[(1000, True)]" 2072 "[]" 100]
    mem_trim_shrinks [of "heap1 True" "[]" 1000 "[(2072, True)]" 100]
  by (auto simp: heap1_ok heap1_blocks heap1_ram trim_spec_def)

end
