(* ===== verification/Memp.thy ===== *)
theory Memp
  imports Mem Allocator
begin

text \<open>
  The pools of fixed-size elements, \<^verbatim>\<open>core/memp.c\<close>. The free elements of a pool form a linked list through their
  first word, \<open>link\<close>. The descriptors carry the element size, the number of elements and the address of the
  memory, which the linker chooses.
\<close>

section \<open>Pools\<close>

datatype memp_t = MEMP_TCP_PCB | MEMP_TCP_PCB_LISTEN | MEMP_TCP_SEG | MEMP_SYS_TIMEOUT | MEMP_PBUF | MEMP_PBUF_POOL

definition memp_pools :: "memp_t list" where
  "memp_pools = [MEMP_TCP_PCB, MEMP_TCP_PCB_LISTEN, MEMP_TCP_SEG, MEMP_SYS_TIMEOUT, MEMP_PBUF, MEMP_PBUF_POOL]"

record memp_desc =
  dsize :: nat
  dnum :: nat
  dbase :: nat

record pools =
  desc :: "memp_t \<Rightarrow> memp_desc"
  tab :: "memp_t \<Rightarrow> nat option"
  link :: "nat \<Rightarrow> nat option"

definition push_elem :: "memp_t \<Rightarrow> nat \<Rightarrow> pools \<Rightarrow> pools" where
  "push_elem t memp s = s\<lparr>link := (link s)(memp := tab s t), tab := (tab s)(t \<mapsto> memp)\<rparr>"

fun carve_elems :: "nat \<Rightarrow> nat \<Rightarrow> memp_t \<Rightarrow> pools \<Rightarrow> pools" where
  "carve_elems 0 memp t s = s"
| "carve_elems (Suc i) memp t s = carve_elems i (memp + dsize (desc s t)) t (push_elem t memp s)"

definition memp_init_pool :: "memp_t \<Rightarrow> pools \<Rightarrow> pools" where
  "memp_init_pool t s =
     carve_elems (dnum (desc s t)) (LWIP_MEM_ALIGN_SIZE (dbase (desc s t))) t (s\<lparr>tab := (tab s)(t := None)\<rparr>)"

definition memp_init :: "pools \<Rightarrow> pools" where
  "memp_init s = fold memp_init_pool memp_pools s"

definition do_memp_malloc_pool :: "memp_t \<Rightarrow> pools \<Rightarrow> (nat option \<times> pools) option" where
  "do_memp_malloc_pool t s =
     (case tab s t of
        Some memp \<Rightarrow>
          (let s = s\<lparr>tab := (tab s)(t := link s memp)\<rparr>
           in if memp mod MEM_ALIGNMENT = 0 then Some (Some memp, s) else None)
      | None \<Rightarrow> Some (None, s))"

definition memp_malloc :: "memp_t \<Rightarrow> pools \<Rightarrow> (nat option \<times> pools) option" where
  "memp_malloc t s = do_memp_malloc_pool t s"

definition do_memp_free_pool :: "memp_t \<Rightarrow> nat \<Rightarrow> pools \<Rightarrow> pools option" where
  "do_memp_free_pool t mem s = (if mem mod MEM_ALIGNMENT = 0 then Some (push_elem t mem s) else None)"

definition memp_free :: "memp_t \<Rightarrow> nat option \<Rightarrow> pools \<Rightarrow> pools option" where
  "memp_free t mem s = (case mem of None \<Rightarrow> Some s | Some mem \<Rightarrow> do_memp_free_pool t mem s)"

text \<open>The variants for a pool given by its descriptor; \<open>None\<close> is the null descriptor.\<close>

definition memp_malloc_pool :: "memp_t option \<Rightarrow> pools \<Rightarrow> (nat option \<times> pools) option" where
  "memp_malloc_pool t s = (case t of None \<Rightarrow> None | Some t \<Rightarrow> do_memp_malloc_pool t s)"

definition memp_free_pool :: "memp_t option \<Rightarrow> nat option \<Rightarrow> pools \<Rightarrow> pools option" where
  "memp_free_pool t mem s =
     (case t of None \<Rightarrow> None | Some t \<Rightarrow> (case mem of None \<Rightarrow> Some s | Some mem \<Rightarrow> do_memp_free_pool t mem s))"

section \<open>The invariant\<close>

fun lseg :: "(nat \<Rightarrow> nat option) \<Rightarrow> nat option \<Rightarrow> nat list \<Rightarrow> bool" where
  "lseg L a [] = (a = None)"
| "lseg L a (x # xs) = (a = Some x \<and> lseg L (L x) xs)"

fun follow :: "nat \<Rightarrow> (nat \<Rightarrow> nat option) \<Rightarrow> nat option \<Rightarrow> nat list" where
  "follow 0 L a = []"
| "follow (Suc f) L a = (case a of None \<Rightarrow> [] | Some x \<Rightarrow> x # follow f L (L x))"

definition elems :: "memp_desc \<Rightarrow> nat list" where
  "elems d = map (\<lambda>i. LWIP_MEM_ALIGN_SIZE (dbase d) + i * dsize d) [0..<dnum d]"

definition pool_end :: "memp_desc \<Rightarrow> nat" where
  "pool_end d = LWIP_MEM_ALIGN_SIZE (dbase d) + dnum d * dsize d"

definition desc_ok :: "(memp_t \<Rightarrow> memp_desc) \<Rightarrow> bool" where
  "desc_ok d \<longleftrightarrow>
     (\<forall>t. 4 dvd dsize (d t) \<and> 0 < dsize (d t)) \<and>
     (\<forall>t u. t \<noteq> u \<longrightarrow>
        pool_end (d t) \<le> LWIP_MEM_ALIGN_SIZE (dbase (d u)) \<or> pool_end (d u) \<le> LWIP_MEM_ALIGN_SIZE (dbase (d t)))"

definition free_elems :: "pools \<Rightarrow> memp_t \<Rightarrow> nat list" where
  "free_elems s t = follow (Suc (dnum (desc s t))) (link s) (tab s t)"

definition pools_inv_on :: "memp_t set \<Rightarrow> pools \<Rightarrow> (memp_t \<Rightarrow> nat list) \<Rightarrow> bool" where
  "pools_inv_on T s F \<longleftrightarrow>
     desc_ok (desc s) \<and>
     (\<forall>t\<in>T. lseg (link s) (tab s t) (F t) \<and> distinct (F t) \<and> set (F t) \<subseteq> set (elems (desc s t)))"

abbreviation pools_inv :: "pools \<Rightarrow> (memp_t \<Rightarrow> nat list) \<Rightarrow> bool" where
  "pools_inv \<equiv> pools_inv_on UNIV"

lemmas pools_inv_def = pools_inv_on_def [of UNIV]

definition pools_ok :: "pools \<Rightarrow> bool" where
  "pools_ok s = pools_inv s (free_elems s)"

definition pool_live :: "memp_t \<Rightarrow> pools \<Rightarrow> nat \<rightharpoonup> nat" where
  "pool_live t s p =
     (if p \<in> set (elems (desc s t)) \<and> p \<notin> set (free_elems s t) then Some (dsize (desc s t)) else None)"

lemma lseg_follow: "lseg L a xs \<Longrightarrow> length xs < f \<Longrightarrow> follow f L a = xs"
proof (induction f arbitrary: a xs)
  case (Suc f)
  then show ?case by (cases xs) auto
qed simp

lemma lseg_frame: "x \<notin> set xs \<Longrightarrow> lseg (L(x := v)) a xs = lseg L a xs"
  by (induction xs arbitrary: a) auto

lemma length_elems [simp]: "length (elems d) = dnum d"
  by (simp add: elems_def)

lemma distinct_elems: "0 < dsize d \<Longrightarrow> distinct (elems d)"
  by (auto simp: elems_def distinct_map inj_on_def)

lemma elems_range:
  "x \<in> set (elems d) \<Longrightarrow> LWIP_MEM_ALIGN_SIZE (dbase d) \<le> x \<and> x + dsize d \<le> pool_end d"
proof -
  assume "x \<in> set (elems d)"
  then obtain i where "i < dnum d" "x = LWIP_MEM_ALIGN_SIZE (dbase d) + i * dsize d" by (auto simp: elems_def)
  moreover from this have "Suc i * dsize d \<le> dnum d * dsize d" by (intro mult_le_mono1) simp
  ultimately show ?thesis by (simp add: pool_end_def)
qed

lemma elems_aligned: "4 dvd dsize d \<Longrightarrow> x \<in> set (elems d) \<Longrightarrow> x mod 4 = 0"
  by (auto simp: elems_def LWIP_MEM_ALIGN_SIZE_def layout_simps)

lemma elems_apart:
  assumes "x \<in> set (elems d)" "y \<in> set (elems d)" "x < y"
  shows "x + dsize d \<le> y"
proof -
  obtain i j where "x = LWIP_MEM_ALIGN_SIZE (dbase d) + i * dsize d" "y = LWIP_MEM_ALIGN_SIZE (dbase d) + j * dsize d"
    using assms by (auto simp: elems_def)
  moreover from this have "Suc i * dsize d \<le> j * dsize d"
    using assms(3) by (intro mult_le_mono1) (auto simp: Suc_le_eq)
  ultimately show ?thesis by simp
qed

lemma pools_apart:
  assumes "desc_ok d" "t \<noteq> u" "x \<in> set (elems (d t))"
  shows "x \<notin> set (elems (d u))"
proof
  assume "x \<in> set (elems (d u))"
  then have "LWIP_MEM_ALIGN_SIZE (dbase (d u)) \<le> x" "x + dsize (d u) \<le> pool_end (d u)" using elems_range by blast+
  moreover have "LWIP_MEM_ALIGN_SIZE (dbase (d t)) \<le> x" "x + dsize (d t) \<le> pool_end (d t)" using elems_range assms by blast+
  moreover have "0 < dsize (d t)" "0 < dsize (d u)" using assms by (auto simp: desc_ok_def)
  moreover have "pool_end (d t) \<le> LWIP_MEM_ALIGN_SIZE (dbase (d u)) \<or> pool_end (d u) \<le> LWIP_MEM_ALIGN_SIZE (dbase (d t))"
    using assms by (auto simp: desc_ok_def)
  ultimately show False by linarith
qed

lemma pools_invD:
  assumes "pools_inv s F"
  shows "lseg (link s) (tab s t) (F t)" "distinct (F t)" "set (F t) \<subseteq> set (elems (desc s t))"
  using assms by (simp_all add: pools_inv_def)

lemma pools_inv_length: "pools_inv s F \<Longrightarrow> length (F t) \<le> dnum (desc s t)"
  by (metis UNIV_I card_mono distinct_card List.finite_set card_length length_elems order_trans pools_inv_def)

lemma pools_inv_free: "pools_inv s F \<Longrightarrow> free_elems s = F"
  using pools_inv_length by (fastforce simp: free_elems_def pools_inv_def le_imp_less_Suc simp del: follow.simps intro: lseg_follow)

lemma pools_ok_iff: "pools_ok s \<longleftrightarrow> (\<exists>F. pools_inv s F)"
  using pools_inv_free by (auto simp: pools_ok_def)

lemma pools_inv_aligned: "pools_inv s F \<Longrightarrow> x \<in> set (elems (desc s t)) \<Longrightarrow> x mod 4 = 0"
  using elems_aligned [of "desc s t" x] by (simp add: pools_inv_def desc_ok_def)

section \<open>The operations\<close>

lemma push_elem_inv:
  assumes "pools_inv_on T s F" "t \<in> T" "x \<in> set (elems (desc s t))" "x \<notin> set (F t)"
  shows "pools_inv_on T (push_elem t x s) (F(t := x # F t))"
proof -
  have "x \<notin> set (F u)" if "u \<noteq> t" "u \<in> T" for u
    using that assms pools_apart [of "desc s" t u x] by (auto simp: pools_inv_on_def)
  then show ?thesis using assms by (auto simp: pools_inv_on_def push_elem_def lseg_frame)
qed

lemma memp_malloc_inv:
  assumes "pools_inv s F"
  shows "memp_malloc t s =
      (case F t of
         [] \<Rightarrow> Some (None, s)
       | x # xs \<Rightarrow> Some (Some x, s\<lparr>tab := (tab s)(t := link s x)\<rparr>))"
    "F t = x # xs \<Longrightarrow> pools_inv (s\<lparr>tab := (tab s)(t := link s x)\<rparr>) (F(t := xs))"
proof -
  have F: "lseg (link s) (tab s t) (F t)" "distinct (F t)" "set (F t) \<subseteq> set (elems (desc s t))"
    using assms by (simp_all add: pools_inv_def)
  have "x mod 4 = 0" if "x \<in> set (F t)" for x using pools_inv_aligned assms that F by blast
  then show "memp_malloc t s = (case F t of [] \<Rightarrow> Some (None, s)
      | x # xs \<Rightarrow> Some (Some x, s\<lparr>tab := (tab s)(t := link s x)\<rparr>))"
    using F by (auto simp: memp_malloc_def do_memp_malloc_pool_def layout_simps split: list.splits)
  show "F t = x # xs \<Longrightarrow> pools_inv (s\<lparr>tab := (tab s)(t := link s x)\<rparr>) (F(t := xs))"
    using assms F by (simp add: pools_inv_def)
qed

lemma memp_free_inv:
  assumes "pools_inv s F" "x \<in> set (elems (desc s t))" "x \<notin> set (F t)"
  shows "memp_free t (Some x) s = Some (push_elem t x s)"
  using assms pools_inv_aligned by (simp add: memp_free_def do_memp_free_pool_def layout_simps)

lemma desc_push [simp]: "desc (push_elem t x s) = desc s"
  by (simp add: push_elem_def)

lemma carve_elems_inv:
  "pools_inv_on T s F \<Longrightarrow> t \<in> T \<Longrightarrow> n + length (F t) = dnum (desc s t) \<Longrightarrow>
     rev (F t) = map (\<lambda>i. LWIP_MEM_ALIGN_SIZE (dbase (desc s t)) + i * dsize (desc s t)) [0..<length (F t)] \<Longrightarrow>
     pools_inv_on T (carve_elems n (LWIP_MEM_ALIGN_SIZE (dbase (desc s t)) + length (F t) * dsize (desc s t)) t s)
       (F(t := rev (elems (desc s t)))) \<and>
     desc (carve_elems n (LWIP_MEM_ALIGN_SIZE (dbase (desc s t)) + length (F t) * dsize (desc s t)) t s) = desc s"
proof (induction n arbitrary: s F)
  case 0
  then have "F t = rev (elems (desc s t))" by (simp add: elems_def rev_swap)
  then show ?case using 0 by (auto simp: fun_upd_idem)
next
  case (Suc n)
  let ?x = "LWIP_MEM_ALIGN_SIZE (dbase (desc s t)) + length (F t) * dsize (desc s t)"
  let ?F = "F(t := ?x # F t)"
  have x: "?x \<in> set (elems (desc s t))" using Suc.prems by (auto simp: elems_def)
  have "0 < dsize (desc s t)" using Suc.prems(1) by (auto simp: pools_inv_on_def desc_ok_def)
  moreover have "set (F t) = (\<lambda>i. LWIP_MEM_ALIGN_SIZE (dbase (desc s t)) + i * dsize (desc s t)) ` {0..<length (F t)}"
    by (metis Suc.prems(4) set_rev set_map set_upt)
  ultimately have n: "?x \<notin> set (F t)" by auto
  have "pools_inv_on T (push_elem t ?x s) ?F" using push_elem_inv Suc.prems x n by blast
  moreover have "rev (?F t) = map (\<lambda>i. LWIP_MEM_ALIGN_SIZE (dbase (desc s t)) + i * dsize (desc s t)) [0..<length (?F t)]"
    using Suc.prems(4) by simp
  moreover have "?x + dsize (desc s t) = LWIP_MEM_ALIGN_SIZE (dbase (desc s t)) + length (?F t) * dsize (desc s t)" by simp
  moreover have "n + length (?F t) = dnum (desc s t)" using Suc.prems(3) by simp
  ultimately have "pools_inv_on T (carve_elems n (?x + dsize (desc s t)) t (push_elem t ?x s)) (?F(t := rev (elems (desc s t)))) \<and>
      desc (carve_elems n (?x + dsize (desc s t)) t (push_elem t ?x s)) = desc s"
    using Suc.IH [of "push_elem t ?x s" ?F] Suc.prems(2) by (simp only: desc_push simp_thms)
  then show ?case by (simp only: carve_elems.simps fun_upd_upd simp_thms)
qed

lemma memp_init_pool_inv:
  assumes "pools_inv_on T s F"
  shows "pools_inv_on (insert t T) (memp_init_pool t s) (F(t := rev (elems (desc s t)))) \<and> desc (memp_init_pool t s) = desc s"
proof -
  have "pools_inv_on (insert t T) (s\<lparr>tab := (tab s)(t := None)\<rparr>) (F(t := []))"
    using assms by (auto simp: pools_inv_on_def)
  from carve_elems_inv [OF this, of t "dnum (desc s t)"] show ?thesis by (simp add: memp_init_pool_def)
qed

lemma memp_init_inv:
  assumes "desc_ok (desc s)"
  shows "pools_inv (memp_init s) (\<lambda>t. rev (elems (desc s t)))" "desc (memp_init s) = desc s"
proof -
  have step: "pools_inv_on (insert t T) (memp_init_pool t r) (F(t := rev (elems (desc s t)))) \<and> desc (memp_init_pool t r) = desc s"
    if "pools_inv_on T r F \<and> desc r = desc s" for t T r F
    using that memp_init_pool_inv [of T r F t] by metis
  have "pools_inv_on {} s (\<lambda>_. []) \<and> desc s = desc s" using assms by (simp add: pools_inv_on_def)
  note all = step [OF step [OF step [OF step [OF step [OF step [OF this]]]]],
      of MEMP_PBUF_POOL MEMP_PBUF MEMP_SYS_TIMEOUT MEMP_TCP_SEG MEMP_TCP_PCB_LISTEN MEMP_TCP_PCB]
  have U: "{MEMP_PBUF_POOL, MEMP_PBUF, MEMP_SYS_TIMEOUT, MEMP_TCP_SEG, MEMP_TCP_PCB_LISTEN, MEMP_TCP_PCB} = UNIV"
    using memp_t.exhaust by auto
  have F: "((\<lambda>_. [])(MEMP_TCP_PCB := g MEMP_TCP_PCB, MEMP_TCP_PCB_LISTEN := g MEMP_TCP_PCB_LISTEN, MEMP_TCP_SEG := g MEMP_TCP_SEG,
      MEMP_SYS_TIMEOUT := g MEMP_SYS_TIMEOUT, MEMP_PBUF := g MEMP_PBUF, MEMP_PBUF_POOL := g MEMP_PBUF_POOL)) = g" for g :: "memp_t \<Rightarrow> nat list"
    by (rule ext, rename_tac t, case_tac t) simp_all
  show "pools_inv (memp_init s) (\<lambda>t. rev (elems (desc s t)))" "desc (memp_init s) = desc s"
    using all U F [of "\<lambda>t. rev (elems (desc s t))"] by (simp_all add: memp_init_def memp_pools_def)
qed

section \<open>A pool is an allocator\<close>

lemma pool_live_eq: "pools_inv s F \<Longrightarrow>
    pool_live t s = (\<lambda>p. if p \<in> set (elems (desc s t)) \<and> p \<notin> set (F t) then Some (dsize (desc s t)) else None)"
  by (simp add: fun_eq_iff pool_live_def pools_inv_free)

lemma memp_malloc_live:
  assumes "pools_ok s"
  shows "\<exists>r s'. memp_malloc t s = Some (r, s') \<and> pools_ok s' \<and> desc s' = desc s \<and>
    (\<forall>u. u \<noteq> t \<longrightarrow> pool_live u s' = pool_live u s) \<and>
    (case r of None \<Rightarrow> s' = s
     | Some p \<Rightarrow> pool_live t s p = None \<and> p \<in> set (elems (desc s t)) \<and> pool_live t s' = (pool_live t s)(p \<mapsto> dsize (desc s t)))"
proof -
  obtain F where F: "pools_inv s F" using assms by (auto simp: pools_ok_iff)
  show ?thesis
  proof (cases "F t")
    case Nil
    then show ?thesis using memp_malloc_inv(1) [OF F, of t] assms by simp
  next
    case (Cons x xs)
    let ?s = "s\<lparr>tab := (tab s)(t := link s x)\<rparr>"
    have inv: "pools_inv ?s (F(t := xs))" using memp_malloc_inv(2) [OF F Cons] .
    have x: "x \<in> set (elems (desc s t))" "x \<notin> set xs" using pools_invD [OF F, of t] Cons by auto
    have "pool_live t ?s = (pool_live t s)(x \<mapsto> dsize (desc s t))"
      using x Cons by (auto simp: pool_live_eq [OF inv] pool_live_eq [OF F] fun_eq_iff)
    moreover have "pool_live t s x = None" using Cons by (simp add: pool_live_eq [OF F])
    moreover have "pool_live u ?s = pool_live u s" if "u \<noteq> t" for u
      using that by (auto simp: pool_live_eq [OF inv] pool_live_eq [OF F] fun_eq_iff)
    ultimately show ?thesis using memp_malloc_inv(1) [OF F, of t] Cons inv x by (auto simp: pools_ok_iff)
  qed
qed

lemma memp_free_live:
  assumes "pools_ok s" "pool_live t s p = Some a"
  shows "\<exists>s'. memp_free t (Some p) s = Some s' \<and> pools_ok s' \<and> desc s' = desc s \<and>
    (\<forall>u. u \<noteq> t \<longrightarrow> pool_live u s' = pool_live u s) \<and> pool_live t s' = (pool_live t s)(p := None)"
proof -
  obtain F where F: "pools_inv s F" using assms by (auto simp: pools_ok_iff)
  have p: "p \<in> set (elems (desc s t))" "p \<notin> set (F t)"
    using assms by (auto simp: pool_live_eq [OF F] split: if_splits)
  have inv: "pools_inv (push_elem t p s) (F(t := p # F t))" using push_elem_inv [OF F] p by simp
  moreover have "pool_live t (push_elem t p s) = (pool_live t s)(p := None)"
    by (auto simp: pool_live_eq [OF inv] pool_live_eq [OF F] fun_eq_iff)
  moreover have "pool_live u (push_elem t p s) = pool_live u s" if "u \<noteq> t" for u
    using that by (auto simp: pool_live_eq [OF inv] pool_live_eq [OF F] fun_eq_iff)
  ultimately show ?thesis using memp_free_inv [OF F p] by (auto simp: pools_ok_iff)
qed

interpretation memp: allocator "\<lambda>s. pools_ok s \<and> desc s = d" "pool_live t" "\<lambda>k. k \<le> dsize (d t)"
  "\<lambda>k. memp_malloc t" "\<lambda>p. memp_free t (Some p)" for d t
proof unfold_locales
  show "p + a \<le> q" if "pools_ok s \<and> desc s = d" "pool_live t s p = Some a" "pool_live t s q = Some b" "p < q" for s p q a b
    using that elems_apart [of p "desc s t" q] by (auto simp: pool_live_def split: if_splits)
  show "4 dvd p" if "pools_ok s \<and> desc s = d" "pool_live t s p = Some a" for s p a
    using that pools_inv_aligned by (auto simp: pool_live_def pools_ok_def split: if_splits)
  show "\<exists>r s'. memp_malloc t s = Some (r, s') \<and> (pools_ok s' \<and> desc s' = d) \<and>
      (case r of None \<Rightarrow> s' = s | Some p \<Rightarrow> pool_live t s p = None \<and> (\<exists>a\<ge>k. pool_live t s' = (pool_live t s)(p \<mapsto> a)))"
    if "pools_ok s \<and> desc s = d" "k \<le> dsize (d t)" for s k
    using memp_malloc_live [of s t] that by (fastforce split: option.splits)
  show "\<exists>s'. memp_free t (Some p) s = Some s' \<and> (pools_ok s' \<and> desc s' = d) \<and> pool_live t s' = (pool_live t s)(p := None)"
    if "pools_ok s \<and> desc s = d" "pool_live t s p = Some a" for s p a
    using memp_free_live [of s t p a] that by auto
qed

section \<open>Properties\<close>

text \<open>
  C35: A pool hands out each of its elements once. From \<open>memp_init\<close> on, a client that takes elements and gives back its oldest one, in
  any order, never fails an assertion; what it holds are distinct aligned elements of the pool that do not overlap, these are
  exactly the elements that are off the free list, and the next allocation is refused exactly when the client holds as many
  as the pool has. Otherwise it gets an element that it does not hold yet.
\<close>

theorem memp_exhaustion:
  assumes "desc_ok (desc s0)" "\<forall>k\<in>set ks. k \<le> dsize (desc s0 t)"
  shows "\<exists>own s. memp.client t ks ([], memp_init s0) = Some (own, s) \<and>
    distinct (map fst own) \<and> fst ` set own = dom (pool_live t s) \<and>
    (\<forall>(p, m)\<in>set own. p \<in> set (elems (desc s0 t)) \<and> 4 dvd p \<and> (\<forall>(q, n)\<in>set own. p < q \<longrightarrow> p + dsize (desc s0 t) \<le> q)) \<and>
    (if length own = dnum (desc s0 t) then memp_malloc t s = Some (None, s)
     else \<exists>p s'. memp_malloc t s = Some (Some p, s') \<and> p \<in> set (elems (desc s0 t)) \<and> p \<notin> fst ` set own)"
proof -
  have "memp.owns (desc s0) t [] (memp_init s0)"
    unfolding memp.owns_def memp.holds_def using memp_init_inv [OF assms(1)]
    by (auto simp: pools_ok_iff pool_live_eq [OF memp_init_inv(1) [OF assms(1)]])
  from memp.client_owns [OF this, of ks] assms
  obtain own s where c: "memp.client t ks ([], memp_init s0) = Some (own, s)" and o: "memp.owns (desc s0) t own s" by auto
  then have ok: "pools_ok s" "desc s = desc s0" and d: "distinct (map fst own)" "dom (pool_live t s) = fst ` set own"
    unfolding memp.owns_def memp.holds_def by auto
  obtain F where F: "pools_inv s F" using ok by (auto simp: pools_ok_iff)
  have live: "dom (pool_live t s) = set (elems (desc s0 t)) - set (F t)"
    by (auto simp: pool_live_eq [OF F] ok(2) split: if_splits)
  have own: "p \<in> set (elems (desc s0 t)) \<and> 4 dvd p" if "(p, m) \<in> set own" for p m
  proof -
    have p: "p \<in> set (elems (desc s0 t))" using that d(2) live by (force simp: image_iff)
    then show ?thesis using pools_inv_aligned [OF F, of p t] by (simp add: ok(2) mod_eq_0_iff_dvd)
  qed
  have "length own + length (F t) = dnum (desc s0 t)"
  proof -
    have "card (set (elems (desc s0 t)) - set (F t)) = card (set (elems (desc s0 t))) - card (set (F t))"
      using pools_invD(3) [OF F, of t] ok(2) by (intro card_Diff_subset) auto
    moreover have "card (set (elems (desc s0 t))) = dnum (desc s0 t)"
      using assms(1) by (simp add: distinct_card distinct_elems desc_ok_def)
    moreover have "card (fst ` set own) = length own" using d(1) distinct_card [of "map fst own"] by simp
    ultimately show ?thesis
      using d(2) live pools_inv_length [OF F, of t] distinct_card [OF pools_invD(2) [OF F, of t]] ok(2) by simp
  qed
  then have "if length own = dnum (desc s0 t) then memp_malloc t s = Some (None, s)
     else \<exists>p s'. memp_malloc t s = Some (Some p, s') \<and> p \<in> set (elems (desc s0 t)) \<and> p \<notin> fst ` set own"
    using memp_malloc_inv(1) [OF F, of t] pools_invD(3) [OF F, of t] d(2) live ok(2) by (cases "F t") auto
  then show ?thesis using c d own elems_apart [of _ "desc s0 t"] by (intro exI [of _ own] exI [of _ s]) auto
qed

definition desc0 :: "memp_t \<Rightarrow> memp_desc" where
  "desc0 t = (case t of
     MEMP_TCP_PCB \<Rightarrow> \<lparr>dsize = 160, dnum = 2, dbase = 1000\<rparr>
   | MEMP_TCP_PCB_LISTEN \<Rightarrow> \<lparr>dsize = 32, dnum = 1, dbase = 2000\<rparr>
   | MEMP_TCP_SEG \<Rightarrow> \<lparr>dsize = 20, dnum = 16, dbase = 3000\<rparr>
   | MEMP_SYS_TIMEOUT \<Rightarrow> \<lparr>dsize = 16, dnum = 2, dbase = 4000\<rparr>
   | MEMP_PBUF \<Rightarrow> \<lparr>dsize = 16, dnum = 8, dbase = 5000\<rparr>
   | MEMP_PBUF_POOL \<Rightarrow> \<lparr>dsize = 1540, dnum = 4, dbase = 6000\<rparr>)"

definition pools0 :: pools where
  "pools0 = \<lparr>desc = desc0, tab = (\<lambda>_. None), link = (\<lambda>_. None)\<rparr>"

lemma desc0_ok: "desc_ok desc0"
proof -
  have "4 dvd dsize (desc0 t) \<and> 0 < dsize (desc0 t)" for t by (cases t) (simp_all add: desc0_def)
  moreover have "pool_end (desc0 t) \<le> LWIP_MEM_ALIGN_SIZE (dbase (desc0 u)) \<or>
      pool_end (desc0 u) \<le> LWIP_MEM_ALIGN_SIZE (dbase (desc0 t))" if "t \<noteq> u" for t u
    using that by (cases t; cases u) (simp_all add: desc0_def pool_end_def LWIP_MEM_ALIGN_SIZE_def layout_simps)
  ultimately show ?thesis by (simp add: desc_ok_def)
qed

text \<open>The pool of the two TCP control blocks: the third allocation is refused, and after a release the next one succeeds.\<close>

theorem memp_exhaustion_witness:
  "desc_ok (desc pools0) \<and>
   (\<exists>own s. memp.client MEMP_TCP_PCB [160, 160, 160] ([], memp_init pools0) = Some (own, s) \<and> distinct (map fst own) \<and>
      (if length own = 2 then memp_malloc MEMP_TCP_PCB s = Some (None, s) else \<exists>p s'. memp_malloc MEMP_TCP_PCB s = Some (Some p, s'))) \<and>
   (\<exists>own s. memp.client MEMP_TCP_PCB [160, 160, 0] ([], memp_init pools0) = Some (own, s) \<and> distinct (map fst own))"
proof -
  have d: "desc pools0 = desc0" "desc_ok (desc pools0)" using desc0_ok by (simp_all add: pools0_def)
  show ?thesis
    using d memp_exhaustion [OF d(2), of "[160, 160, 160]" MEMP_TCP_PCB] memp_exhaustion [OF d(2), of "[160, 160, 0]" MEMP_TCP_PCB]
    by (fastforce simp: desc0_def)
qed

end
