(* ===== verification/Pbuf.thy ===== *)
theory Pbuf
  imports Mem_Heap Memp Lwip_Types "HOL-Library.Monad_Syntax"
begin

text \<open>
  Packet buffers, \<^verbatim>\<open>core/pbuf.c\<close>. The state holds the heap and the pools that provide the memory, the bytes of
  the memory, and the \<^verbatim>\<open>struct pbuf\<close> at each address. As in the allocators, \<open>None\<close> as the result of an operation
  is a failed assertion or a loop that does not end; an error that the code reports is a value.
\<close>

section \<open>State\<close>

record pbuf =
  nxt :: "nat option"
  payload :: nat
  ptot :: u16
  plen :: u16
  type_internal :: u8
  pflags :: u8
  pref :: u8
  if_idx :: u8

record mstate =
  hp :: heap
  pl :: pools
  ram_bytes :: "nat \<Rightarrow> byte"
  pbufs :: "nat \<Rightarrow> pbuf"
  ooseq_pending :: bool

datatype pbuf_layer = PBUF_TRANSPORT | PBUF_IP | PBUF_LINK | PBUF_RAW_TX | PBUF_RAW

fun layer_offset :: "pbuf_layer \<Rightarrow> u16" where
  "layer_offset PBUF_TRANSPORT = 54"
| "layer_offset PBUF_IP = 34"
| "layer_offset PBUF_LINK = 14"
| "layer_offset PBUF_RAW_TX = 0"
| "layer_offset PBUF_RAW = 0"

datatype pbuf_type = PBUF_RAM | PBUF_ROM | PBUF_REF | PBUF_POOL

fun type_code :: "pbuf_type \<Rightarrow> u16" where
  "type_code PBUF_RAM = 0x0280"
| "type_code PBUF_ROM = 0x0001"
| "type_code PBUF_REF = 0x0041"
| "type_code PBUF_POOL = 0x0182"

definition PBUF_TYPE_FLAG_STRUCT_DATA_CONTIGUOUS :: u8 where "PBUF_TYPE_FLAG_STRUCT_DATA_CONTIGUOUS = 0x80"
definition PBUF_TYPE_FLAG_DATA_VOLATILE :: u8 where "PBUF_TYPE_FLAG_DATA_VOLATILE = 0x40"
definition PBUF_TYPE_ALLOC_SRC_MASK :: u8 where "PBUF_TYPE_ALLOC_SRC_MASK = 0x0f"
definition PBUF_TYPE_ALLOC_SRC_MASK_STD_HEAP :: u8 where "PBUF_TYPE_ALLOC_SRC_MASK_STD_HEAP = 0"
definition PBUF_TYPE_ALLOC_SRC_MASK_STD_MEMP_PBUF :: u8 where "PBUF_TYPE_ALLOC_SRC_MASK_STD_MEMP_PBUF = 1"
definition PBUF_TYPE_ALLOC_SRC_MASK_STD_MEMP_PBUF_POOL :: u8 where "PBUF_TYPE_ALLOC_SRC_MASK_STD_MEMP_PBUF_POOL = 2"

lemmas pbuf_type_defs =
  PBUF_TYPE_FLAG_STRUCT_DATA_CONTIGUOUS_def PBUF_TYPE_FLAG_DATA_VOLATILE_def PBUF_TYPE_ALLOC_SRC_MASK_def
  PBUF_TYPE_ALLOC_SRC_MASK_STD_HEAP_def PBUF_TYPE_ALLOC_SRC_MASK_STD_MEMP_PBUF_def
  PBUF_TYPE_ALLOC_SRC_MASK_STD_MEMP_PBUF_POOL_def

definition SIZEOF_STRUCT_PBUF :: nat where [layout_simps]: "SIZEOF_STRUCT_PBUF = 16"
definition PBUF_POOL_BUFSIZE_ALIGNED :: nat where [layout_simps]: "PBUF_POOL_BUFSIZE_ALIGNED = 1524"

definition LWIP_MEM_ALIGN :: "nat \<Rightarrow> nat" where
  "LWIP_MEM_ALIGN addr = (addr + MEM_ALIGNMENT - 1) div MEM_ALIGNMENT * MEM_ALIGNMENT"

definition pbuf_get_allocsrc :: "pbuf \<Rightarrow> u8" where
  "pbuf_get_allocsrc p = type_internal p AND PBUF_TYPE_ALLOC_SRC_MASK"

definition PBUF_NEEDS_COPY :: "pbuf \<Rightarrow> bool" where
  "PBUF_NEEDS_COPY p = (type_internal p AND PBUF_TYPE_FLAG_DATA_VOLATILE \<noteq> 0)"

definition set_pbuf :: "nat \<Rightarrow> (pbuf \<Rightarrow> pbuf) \<Rightarrow> 'a mstate_scheme \<Rightarrow> 'a mstate_scheme" where
  "set_pbuf p f w = w\<lparr>pbufs := (pbufs w)(p := f (pbufs w p))\<rparr>"

definition memcpy :: "nat \<Rightarrow> nat \<Rightarrow> nat \<Rightarrow> 'a mstate_scheme \<Rightarrow> 'a mstate_scheme" where
  "memcpy dst src n w =
     w\<lparr>ram_bytes := (\<lambda>a. if dst \<le> a \<and> a < dst + n then ram_bytes w (src + (a - dst)) else ram_bytes w a)\<rparr>"

text \<open>The allocators on the part of the state they work on.\<close>

definition heap_malloc :: "nat \<Rightarrow> 'a mstate_scheme \<Rightarrow> (nat option \<times> 'a mstate_scheme) option" where
  "heap_malloc k w = do { (r, h) \<leftarrow> mem_malloc k (hp w); Some (r, w\<lparr>hp := h\<rparr>) }"

definition heap_free :: "nat \<Rightarrow> 'a mstate_scheme \<Rightarrow> 'a mstate_scheme option" where
  "heap_free p w = do { h \<leftarrow> mem_free (Some p) (hp w); Some (w\<lparr>hp := h\<rparr>) }"

definition heap_trim :: "nat \<Rightarrow> nat \<Rightarrow> 'a mstate_scheme \<Rightarrow> (nat option \<times> 'a mstate_scheme) option" where
  "heap_trim p k w = do { (r, h) \<leftarrow> mem_trim p k (hp w); Some (r, w\<lparr>hp := h\<rparr>) }"

definition pool_malloc :: "memp_t \<Rightarrow> 'a mstate_scheme \<Rightarrow> (nat option \<times> 'a mstate_scheme) option" where
  "pool_malloc t w = do { (r, s) \<leftarrow> memp_malloc t (pl w); Some (r, w\<lparr>pl := s\<rparr>) }"

definition pool_free :: "memp_t \<Rightarrow> nat \<Rightarrow> 'a mstate_scheme \<Rightarrow> 'a mstate_scheme option" where
  "pool_free t p w = do { s \<leftarrow> memp_free t (Some p) (pl w); Some (w\<lparr>pl := s\<rparr>) }"

section \<open>Freeing\<close>

definition pbuf_dealloc :: "nat \<Rightarrow> 'a mstate_scheme \<Rightarrow> 'a mstate_scheme option" where
  "pbuf_dealloc p w =
     (let alloc_src = pbuf_get_allocsrc (pbufs w p)
      in if alloc_src = PBUF_TYPE_ALLOC_SRC_MASK_STD_MEMP_PBUF_POOL then pool_free MEMP_PBUF_POOL p w
         else if alloc_src = PBUF_TYPE_ALLOC_SRC_MASK_STD_MEMP_PBUF then pool_free MEMP_PBUF p w
         else if alloc_src = PBUF_TYPE_ALLOC_SRC_MASK_STD_HEAP then heap_free p w
         else None)"

partial_function (option) free_loop :: "nat option \<Rightarrow> u8 \<Rightarrow> 'a mstate_scheme \<Rightarrow> (u8 \<times> 'a mstate_scheme) option" where
  "free_loop p count w =
     (case p of
        None \<Rightarrow> Some (count, w)
      | Some p \<Rightarrow>
          if pref (pbufs w p) = 0 then None
          else
            (let w = set_pbuf p (\<lambda>b. b\<lparr>pref := pref b - 1\<rparr>) w
             in if pref (pbufs w p) = 0 then
                  (let q = nxt (pbufs w p)
                   in Option.bind (pbuf_dealloc p w) (\<lambda>w. free_loop q (count + 1) w))
                else Some (count, w)))"

definition pbuf_free :: "nat option \<Rightarrow> 'a mstate_scheme \<Rightarrow> (u8 \<times> 'a mstate_scheme) option" where
  "pbuf_free p w = (case p of None \<Rightarrow> None | Some p \<Rightarrow> free_loop (Some p) 0 w)"

section \<open>Allocating\<close>

definition pbuf_init_alloced_pbuf ::
  "nat \<Rightarrow> nat \<Rightarrow> u16 \<Rightarrow> u16 \<Rightarrow> pbuf_type \<Rightarrow> u8 \<Rightarrow> 'a mstate_scheme \<Rightarrow> 'a mstate_scheme" where
  "pbuf_init_alloced_pbuf p pay tot len type flags w =
     set_pbuf p (\<lambda>_. \<lparr>nxt = None, payload = pay, ptot = tot, plen = len, type_internal = ucast (type_code type),
                     pflags = flags, pref = 1, if_idx = 0\<rparr>) w"

definition pbuf_alloc_reference ::
  "nat \<Rightarrow> u16 \<Rightarrow> pbuf_type \<Rightarrow> 'a mstate_scheme \<Rightarrow> (nat option \<times> 'a mstate_scheme) option" where
  "pbuf_alloc_reference pay len type w =
     (if type \<noteq> PBUF_REF \<and> type \<noteq> PBUF_ROM then None
      else do {
        (p, w) \<leftarrow> pool_malloc MEMP_PBUF w;
        case p of
          None \<Rightarrow> Some (None, w)
        | Some p \<Rightarrow> Some (Some p, pbuf_init_alloced_pbuf p pay len len type 0 w)
      })"

definition pbuf_pool_is_empty :: "'a mstate_scheme \<Rightarrow> 'a mstate_scheme" where
  "pbuf_pool_is_empty w = w\<lparr>ooseq_pending := True\<rparr>"

partial_function (option) alloc_pool_loop ::
  "nat option \<Rightarrow> nat option \<Rightarrow> u16 \<Rightarrow> u16 \<Rightarrow> 'a mstate_scheme \<Rightarrow> (nat option \<times> 'a mstate_scheme) option" where
  "alloc_pool_loop p lst rem_len offset w =
     Option.bind (pool_malloc MEMP_PBUF_POOL w) (\<lambda>(q, w).
       case q of
         None \<Rightarrow>
           (let w = pbuf_pool_is_empty w
            in case p of
                 None \<Rightarrow> Some (None, w)
               | Some p \<Rightarrow> Option.bind (pbuf_free (Some p) w) (\<lambda>(_, w). Some (None, w)))
       | Some q \<Rightarrow>
           (let qlen = min rem_len (of_nat (PBUF_POOL_BUFSIZE_ALIGNED - LWIP_MEM_ALIGN_SIZE (unat offset)));
                w = pbuf_init_alloced_pbuf q (LWIP_MEM_ALIGN (q + SIZEOF_STRUCT_PBUF + unat offset)) rem_len qlen PBUF_POOL 0 w
            in if payload (pbufs w q) mod MEM_ALIGNMENT \<noteq> 0 then None
               else
                 (let w = (case lst of None \<Rightarrow> w | Some lst \<Rightarrow> set_pbuf lst (\<lambda>b. b\<lparr>nxt := Some q\<rparr>) w);
                      p = (case p of None \<Rightarrow> Some q | Some p \<Rightarrow> Some p);
                      rem_len = rem_len - qlen
                  in if rem_len > 0 then alloc_pool_loop p (Some q) rem_len 0 w else Some (p, w))))"

definition pbuf_alloc ::
  "pbuf_layer \<Rightarrow> u16 \<Rightarrow> pbuf_type \<Rightarrow> 'a mstate_scheme \<Rightarrow> (nat option \<times> 'a mstate_scheme) option" where
  "pbuf_alloc layer len type w =
     (let offset = layer_offset layer
      in case type of
           PBUF_REF \<Rightarrow> pbuf_alloc_reference 0 len PBUF_REF w
         | PBUF_ROM \<Rightarrow> pbuf_alloc_reference 0 len PBUF_ROM w
         | PBUF_POOL \<Rightarrow> alloc_pool_loop None None len offset w
         | PBUF_RAM \<Rightarrow>
             (let payload_len = mem_size (LWIP_MEM_ALIGN_SIZE (unat offset) + LWIP_MEM_ALIGN_SIZE (unat len));
                  alloc_len = mem_size (LWIP_MEM_ALIGN_SIZE SIZEOF_STRUCT_PBUF + payload_len)
              in if payload_len < LWIP_MEM_ALIGN_SIZE (unat len) \<or> alloc_len < LWIP_MEM_ALIGN_SIZE (unat len)
                 then Some (None, w)
                 else do {
                   (p, w) \<leftarrow> heap_malloc alloc_len w;
                   case p of
                     None \<Rightarrow> Some (None, w)
                   | Some p \<Rightarrow>
                       (let w = pbuf_init_alloced_pbuf p (LWIP_MEM_ALIGN (p + SIZEOF_STRUCT_PBUF + unat offset)) len len PBUF_RAM 0 w
                        in if payload (pbufs w p) mod MEM_ALIGNMENT \<noteq> 0 then None else Some (Some p, w))
                 }))"

section \<open>Shrinking\<close>

partial_function (option) realloc_skip ::
  "nat \<Rightarrow> u16 \<Rightarrow> u16 \<Rightarrow> 'a mstate_scheme \<Rightarrow> (nat \<times> u16 \<times> 'a mstate_scheme) option" where
  "realloc_skip q rem_len shrink w =
     (if rem_len > plen (pbufs w q) then
        (let rem_len = rem_len - plen (pbufs w q);
             w = set_pbuf q (\<lambda>b. b\<lparr>ptot := ptot b - shrink\<rparr>) w
         in case nxt (pbufs w q) of None \<Rightarrow> None | Some q \<Rightarrow> realloc_skip q rem_len shrink w)
      else Some (q, rem_len, w))"

definition pbuf_realloc :: "nat option \<Rightarrow> u16 \<Rightarrow> 'a mstate_scheme \<Rightarrow> 'a mstate_scheme option" where
  "pbuf_realloc p new_len w =
     (case p of
        None \<Rightarrow> None
      | Some p \<Rightarrow>
          if new_len \<ge> ptot (pbufs w p) then Some w
          else do {
            (q, rem_len, w) \<leftarrow> realloc_skip p new_len (ptot (pbufs w p) - new_len) w;
            (q, w) \<leftarrow>
              (if pbuf_get_allocsrc (pbufs w q) = PBUF_TYPE_ALLOC_SRC_MASK_STD_HEAP \<and> rem_len \<noteq> plen (pbufs w q)
               then heap_trim q (mem_size (usub (payload (pbufs w q)) q + unat rem_len)) w
               else Some (Some q, w));
            case q of
              None \<Rightarrow> None
            | Some q \<Rightarrow> do {
                let w = set_pbuf q (\<lambda>b. b\<lparr>plen := rem_len, ptot := rem_len\<rparr>) w;
                w \<leftarrow> (case nxt (pbufs w q) of
                        None \<Rightarrow> Some w
                      | Some n \<Rightarrow> do { (_, w) \<leftarrow> pbuf_free (Some n) w; Some w });
                Some (set_pbuf q (\<lambda>b. b\<lparr>nxt := None\<rparr>) w)
              }
          })"

section \<open>Headers\<close>

text \<open>The functions that move the payload pointer return 0 on success.\<close>

definition pbuf_add_header_impl :: "nat \<Rightarrow> nat \<Rightarrow> bool \<Rightarrow> 'a mstate_scheme \<Rightarrow> u8 \<times> 'a mstate_scheme" where
  "pbuf_add_header_impl p header_size_increment force w =
     (if header_size_increment > 0xffff then (1, w)
      else if header_size_increment = 0 then (0, w)
      else
        (let increment_magnitude = of_nat header_size_increment :: u16; b = pbufs w p
         in if increment_magnitude + ptot b < increment_magnitude then (1, w)
            else
              (let payload' = usub (payload b) header_size_increment;
                   done = (0, set_pbuf p (\<lambda>b. b\<lparr>payload := payload', plen := plen b + increment_magnitude,
                                               ptot := ptot b + increment_magnitude\<rparr>) w)
               in if type_internal b AND PBUF_TYPE_FLAG_STRUCT_DATA_CONTIGUOUS \<noteq> 0 then
                    (if payload' < p + SIZEOF_STRUCT_PBUF then (1, w) else done)
                  else if force then done else (1, w))))"

definition pbuf_add_header :: "nat \<Rightarrow> nat \<Rightarrow> 'a mstate_scheme \<Rightarrow> u8 \<times> 'a mstate_scheme" where
  "pbuf_add_header p header_size_increment w = pbuf_add_header_impl p header_size_increment False w"

definition pbuf_add_header_force :: "nat \<Rightarrow> nat \<Rightarrow> 'a mstate_scheme \<Rightarrow> u8 \<times> 'a mstate_scheme" where
  "pbuf_add_header_force p header_size_increment w = pbuf_add_header_impl p header_size_increment True w"

definition pbuf_remove_header :: "nat \<Rightarrow> nat \<Rightarrow> 'a mstate_scheme \<Rightarrow> u8 \<times> 'a mstate_scheme" where
  "pbuf_remove_header p header_size_decrement w =
     (if header_size_decrement > 0xffff then (1, w)
      else if header_size_decrement = 0 then (0, w)
      else
        (let increment_magnitude = of_nat header_size_decrement :: u16
         in if increment_magnitude > plen (pbufs w p) then (1, w)
            else (0, set_pbuf p (\<lambda>b. b\<lparr>payload := payload b + header_size_decrement, plen := plen b - increment_magnitude,
                                      ptot := ptot b - increment_magnitude\<rparr>) w)))"

definition pbuf_header_impl :: "nat \<Rightarrow> int \<Rightarrow> bool \<Rightarrow> 'a mstate_scheme \<Rightarrow> u8 \<times> 'a mstate_scheme" where
  "pbuf_header_impl p header_size_increment force w =
     (if header_size_increment < 0 then pbuf_remove_header p (nat (- header_size_increment)) w
      else pbuf_add_header_impl p (nat header_size_increment) force w)"

definition pbuf_header :: "nat \<Rightarrow> int \<Rightarrow> 'a mstate_scheme \<Rightarrow> u8 \<times> 'a mstate_scheme" where
  "pbuf_header p header_size_increment w = pbuf_header_impl p header_size_increment False w"

definition pbuf_header_force :: "nat \<Rightarrow> int \<Rightarrow> 'a mstate_scheme \<Rightarrow> u8 \<times> 'a mstate_scheme" where
  "pbuf_header_force p header_size_increment w = pbuf_header_impl p header_size_increment True w"

partial_function (option) free_header_loop ::
  "nat option \<Rightarrow> u16 \<Rightarrow> 'a mstate_scheme \<Rightarrow> (nat option \<times> 'a mstate_scheme) option" where
  "free_header_loop p free_left w =
     (case p of
        None \<Rightarrow> Some (None, w)
      | Some p \<Rightarrow>
          if free_left = 0 then Some (Some p, w)
          else if free_left \<ge> plen (pbufs w p) then
            (let f = p; free_left = free_left - plen (pbufs w p); q = nxt (pbufs w p);
                 w = set_pbuf f (\<lambda>b. b\<lparr>nxt := None\<rparr>) w
             in Option.bind (pbuf_free (Some f) w) (\<lambda>(_, w). free_header_loop q free_left w))
          else Some (Some p, snd (pbuf_remove_header p (unat free_left) w)))"

definition pbuf_free_header :: "nat option \<Rightarrow> u16 \<Rightarrow> 'a mstate_scheme \<Rightarrow> (nat option \<times> 'a mstate_scheme) option" where
  "pbuf_free_header q size' w = free_header_loop q size' w"

section \<open>Chains\<close>

partial_function (option) clen_loop :: "nat option \<Rightarrow> u16 \<Rightarrow> 'a mstate_scheme \<Rightarrow> u16 option" where
  "clen_loop p n w = (case p of None \<Rightarrow> Some n | Some p \<Rightarrow> clen_loop (nxt (pbufs w p)) (n + 1) w)"

definition pbuf_clen :: "nat option \<Rightarrow> 'a mstate_scheme \<Rightarrow> u16 option" where
  "pbuf_clen p w = clen_loop p 0 w"

definition pbuf_ref :: "nat option \<Rightarrow> 'a mstate_scheme \<Rightarrow> 'a mstate_scheme option" where
  "pbuf_ref p w =
     (case p of
        None \<Rightarrow> Some w
      | Some p \<Rightarrow>
          (let w = set_pbuf p (\<lambda>b. b\<lparr>pref := pref b + 1\<rparr>) w
           in if pref (pbufs w p) > 0 then Some w else None))"

partial_function (option) cat_loop :: "nat \<Rightarrow> nat \<Rightarrow> 'a mstate_scheme \<Rightarrow> (nat \<times> 'a mstate_scheme) option" where
  "cat_loop p t w =
     (case nxt (pbufs w p) of
        None \<Rightarrow> Some (p, w)
      | Some q \<Rightarrow> cat_loop q t (set_pbuf p (\<lambda>b. b\<lparr>ptot := ptot b + ptot (pbufs w t)\<rparr>) w))"

definition pbuf_cat :: "nat option \<Rightarrow> nat option \<Rightarrow> 'a mstate_scheme \<Rightarrow> 'a mstate_scheme option" where
  "pbuf_cat h t w =
     (case (h, t) of
        (Some h, Some t) \<Rightarrow> do {
          (p, w) \<leftarrow> cat_loop h t w;
          if ptot (pbufs w p) \<noteq> plen (pbufs w p) then None
          else Some (set_pbuf p (\<lambda>b. b\<lparr>ptot := ptot b + ptot (pbufs w t), nxt := Some t\<rparr>) w)
        }
      | _ \<Rightarrow> Some w)"

definition pbuf_chain :: "nat option \<Rightarrow> nat option \<Rightarrow> 'a mstate_scheme \<Rightarrow> 'a mstate_scheme option" where
  "pbuf_chain h t w = do { w \<leftarrow> pbuf_cat h t w; pbuf_ref t w }"

definition pbuf_dechain :: "nat \<Rightarrow> 'a mstate_scheme \<Rightarrow> (nat option \<times> 'a mstate_scheme) option" where
  "pbuf_dechain p w = do {
     let q = nxt (pbufs w p);
     (tail_gone, w) \<leftarrow>
       (case q of
          None \<Rightarrow> Some (1, w)
        | Some q \<Rightarrow>
            if int (unat (ptot (pbufs w q))) \<noteq> int (unat (ptot (pbufs w p))) - int (unat (plen (pbufs w p))) then None
            else
              (let w = set_pbuf q (\<lambda>b. b\<lparr>ptot := ptot (pbufs w p) - plen (pbufs w p)\<rparr>) w;
                   w = set_pbuf p (\<lambda>b. b\<lparr>nxt := None, ptot := plen b\<rparr>) w
               in pbuf_free (Some q) w));
     if ptot (pbufs w p) \<noteq> plen (pbufs w p) then None
     else Some (if tail_gone > 0 then None else q, w)
   }"

section \<open>Copying\<close>

partial_function (option) copy_loop ::
  "nat \<Rightarrow> nat \<Rightarrow> u16 \<Rightarrow> nat \<Rightarrow> nat \<Rightarrow> 'a mstate_scheme \<Rightarrow> (err_t \<times> 'a mstate_scheme) option" where
  "copy_loop p_to p_from copy_len offset_to offset_from w =
     (let len_to = unat (plen (pbufs w p_to)); len_from = unat (plen (pbufs w p_from));
          len_calc = (if usub len_to offset_to \<ge> usub len_from offset_from
                      then usub len_from offset_from else usub len_to offset_to);
          len = of_nat (min (unat copy_len) len_calc) :: u16;
          w = memcpy (payload (pbufs w p_to) + offset_to) (payload (pbufs w p_from) + offset_from) (unat len) w;
          offset_to = offset_to + unat len; offset_from = offset_from + unat len; copy_len = copy_len - len
      in if offset_to > len_to \<or> offset_from > len_from then None
         else
           (let (offset_from, p_from') = (if offset_from \<ge> len_from then (0, nxt (pbufs w p_from)) else (offset_from, Some p_from))
            in if p_from' = None \<and> copy_len \<noteq> 0 then Some (ERR_ARG, w)
               else
                 (let (offset_to, p_to') = (if offset_to = len_to then (0, nxt (pbufs w p_to)) else (offset_to, Some p_to))
                  in if p_to' = None \<and> copy_len \<noteq> 0 then Some (ERR_ARG, w)
                     else if (case p_from' of None \<Rightarrow> False
                              | Some p \<Rightarrow> plen (pbufs w p) = ptot (pbufs w p) \<and> nxt (pbufs w p) \<noteq> None) then Some (ERR_VAL, w)
                     else if (case p_to' of None \<Rightarrow> False
                              | Some p \<Rightarrow> plen (pbufs w p) = ptot (pbufs w p) \<and> nxt (pbufs w p) \<noteq> None) then Some (ERR_VAL, w)
                     else if copy_len = 0 then Some (ERR_OK, w)
                     else copy_loop (the p_to') (the p_from') copy_len offset_to offset_from w)))"

definition pbuf_copy_partial_pbuf ::
  "nat option \<Rightarrow> nat option \<Rightarrow> u16 \<Rightarrow> u16 \<Rightarrow> 'a mstate_scheme \<Rightarrow> (err_t \<times> 'a mstate_scheme) option" where
  "pbuf_copy_partial_pbuf p_to p_from copy_len offset w =
     (case p_from of
        None \<Rightarrow> Some (ERR_ARG, w)
      | Some p_from \<Rightarrow>
          if ptot (pbufs w p_from) < copy_len then Some (ERR_ARG, w)
          else
            (case p_to of
               None \<Rightarrow> Some (ERR_ARG, w)
             | Some p_to \<Rightarrow>
                 if unat (ptot (pbufs w p_to)) < unat offset + unat copy_len then Some (ERR_ARG, w)
                 else copy_loop p_to p_from copy_len (unat offset) 0 w))"

definition pbuf_copy :: "nat option \<Rightarrow> nat option \<Rightarrow> 'a mstate_scheme \<Rightarrow> (err_t \<times> 'a mstate_scheme) option" where
  "pbuf_copy p_to p_from w =
     (case p_from of
        None \<Rightarrow> Some (ERR_ARG, w)
      | Some p \<Rightarrow> pbuf_copy_partial_pbuf p_to p_from (ptot (pbufs w p)) 0 w)"

definition pbuf_clone ::
  "pbuf_layer \<Rightarrow> pbuf_type \<Rightarrow> nat \<Rightarrow> 'a mstate_scheme \<Rightarrow> (nat option \<times> 'a mstate_scheme) option" where
  "pbuf_clone layer type p w = do {
     (q, w) \<leftarrow> pbuf_alloc layer (ptot (pbufs w p)) type w;
     case q of
       None \<Rightarrow> Some (None, w)
     | Some q \<Rightarrow> do {
         (err, w) \<leftarrow> pbuf_copy (Some q) (Some p) w;
         if err = ERR_OK then Some (Some q, w) else None
       }
   }"

definition pbuf_coalesce :: "nat \<Rightarrow> pbuf_layer \<Rightarrow> 'a mstate_scheme \<Rightarrow> (nat \<times> 'a mstate_scheme) option" where
  "pbuf_coalesce p layer w =
     (if nxt (pbufs w p) = None then Some (p, w)
      else do {
        (q, w) \<leftarrow> pbuf_clone layer PBUF_RAM p w;
        case q of
          None \<Rightarrow> Some (p, w)
        | Some q \<Rightarrow> do { (_, w) \<leftarrow> pbuf_free (Some p) w; Some (q, w) }
      })"

partial_function (option) copy_partial_loop ::
  "nat option \<Rightarrow> nat \<Rightarrow> u16 \<Rightarrow> u16 \<Rightarrow> u16 \<Rightarrow> u16 \<Rightarrow> 'a mstate_scheme \<Rightarrow> (u16 \<times> 'a mstate_scheme) option" where
  "copy_partial_loop p dataptr len offset left copied_total w =
     (case p of
        None \<Rightarrow> Some (copied_total, w)
      | Some p \<Rightarrow>
          if len = 0 then Some (copied_total, w)
          else if offset \<noteq> 0 \<and> offset \<ge> plen (pbufs w p) then
            copy_partial_loop (nxt (pbufs w p)) dataptr len (offset - plen (pbufs w p)) left copied_total w
          else
            (let buf_copy_len = plen (pbufs w p) - offset;
                 buf_copy_len = (if buf_copy_len > len then len else buf_copy_len);
                 w = memcpy (dataptr + unat left) (payload (pbufs w p) + unat offset) (unat buf_copy_len) w
             in copy_partial_loop (nxt (pbufs w p)) dataptr (len - buf_copy_len) 0 (left + buf_copy_len)
                  (copied_total + buf_copy_len) w))"

definition pbuf_copy_partial ::
  "nat option \<Rightarrow> nat option \<Rightarrow> u16 \<Rightarrow> u16 \<Rightarrow> 'a mstate_scheme \<Rightarrow> (u16 \<times> 'a mstate_scheme) option" where
  "pbuf_copy_partial buf dataptr len offset w =
     (case (buf, dataptr) of
        (Some buf, Some dataptr) \<Rightarrow> copy_partial_loop (Some buf) dataptr len offset 0 0 w
      | _ \<Rightarrow> Some (0, w))"

partial_function (option) pbuf_skip_const :: "nat option \<Rightarrow> u16 \<Rightarrow> 'a mstate_scheme \<Rightarrow> (nat option \<times> u16) option" where
  "pbuf_skip_const q offset_left w =
     (case q of
        None \<Rightarrow> Some (None, offset_left)
      | Some q \<Rightarrow>
          if plen (pbufs w q) \<le> offset_left
          then pbuf_skip_const (nxt (pbufs w q)) (offset_left - plen (pbufs w q)) w
          else Some (Some q, offset_left))"

definition pbuf_skip :: "nat option \<Rightarrow> u16 \<Rightarrow> 'a mstate_scheme \<Rightarrow> (nat option \<times> u16) option" where
  "pbuf_skip p in_offset w = pbuf_skip_const p in_offset w"

definition pbuf_get_contiguous ::
  "nat option \<Rightarrow> nat option \<Rightarrow> nat \<Rightarrow> u16 \<Rightarrow> u16 \<Rightarrow> 'a mstate_scheme \<Rightarrow> (nat option \<times> 'a mstate_scheme) option" where
  "pbuf_get_contiguous p buffer bufsize len offset w =
     (if p = None \<or> buffer = None \<or> bufsize < unat len then Some (None, w)
      else do {
        (q, out_offset) \<leftarrow> pbuf_skip_const p offset w;
        case q of
          None \<Rightarrow> Some (None, w)
        | Some q \<Rightarrow>
            if unat (plen (pbufs w q)) \<ge> unat out_offset + unat len
            then Some (Some (payload (pbufs w q) + unat out_offset), w)
            else do {
              (n, w) \<leftarrow> pbuf_copy_partial (Some q) buffer len out_offset w;
              Some (if n \<noteq> len then None else buffer, w)
            }
      })"

partial_function (option) take_loop ::
  "nat option \<Rightarrow> nat \<Rightarrow> nat \<Rightarrow> nat \<Rightarrow> 'a mstate_scheme \<Rightarrow> (nat \<times> 'a mstate_scheme) option" where
  "take_loop p dataptr total_copy_len copied_total w =
     (if total_copy_len = 0 then Some (copied_total, w)
      else
        (case p of
           None \<Rightarrow> None
         | Some p \<Rightarrow>
             (let buf_copy_len = (if total_copy_len > unat (plen (pbufs w p)) then unat (plen (pbufs w p)) else total_copy_len);
                  w = memcpy (payload (pbufs w p)) (dataptr + copied_total) buf_copy_len w
              in take_loop (nxt (pbufs w p)) dataptr (total_copy_len - buf_copy_len) (copied_total + buf_copy_len) w)))"

definition pbuf_take :: "nat option \<Rightarrow> nat option \<Rightarrow> u16 \<Rightarrow> 'a mstate_scheme \<Rightarrow> (err_t \<times> 'a mstate_scheme) option" where
  "pbuf_take buf dataptr len w =
     (case (buf, dataptr) of
        (Some buf, Some dataptr) \<Rightarrow>
          if ptot (pbufs w buf) < len then Some (ERR_MEM, w)
          else do {
            (copied_total, w) \<leftarrow> take_loop (Some buf) dataptr (unat len) 0 w;
            if copied_total = unat len then Some (ERR_OK, w) else None
          }
      | _ \<Rightarrow> Some (ERR_ARG, w))"

definition pbuf_take_at ::
  "nat option \<Rightarrow> nat \<Rightarrow> u16 \<Rightarrow> u16 \<Rightarrow> 'a mstate_scheme \<Rightarrow> (err_t \<times> 'a mstate_scheme) option" where
  "pbuf_take_at buf dataptr len offset w = do {
     (q, target_offset) \<leftarrow> pbuf_skip buf offset w;
     case q of
       None \<Rightarrow> Some (ERR_MEM, w)
     | Some q \<Rightarrow>
         if unat (ptot (pbufs w q)) \<ge> unat target_offset + unat len then
           (if target_offset \<ge> plen (pbufs w q) then None
            else
              (let first_copy_len = of_nat (min (unat (plen (pbufs w q)) - unat target_offset) (unat len)) :: u16;
                   w = memcpy (payload (pbufs w q) + unat target_offset) dataptr (unat first_copy_len) w;
                   remaining_len = len - first_copy_len
               in if remaining_len > 0
                  then pbuf_take (nxt (pbufs w q)) (Some (dataptr + unat first_copy_len)) remaining_len w
                  else Some (ERR_OK, w)))
         else Some (ERR_MEM, w)
   }"

section \<open>Single bytes, comparing and searching\<close>

definition pbuf_try_get_at :: "nat option \<Rightarrow> u16 \<Rightarrow> 'a mstate_scheme \<Rightarrow> int option" where
  "pbuf_try_get_at p offset w = do {
     (q, q_idx) \<leftarrow> pbuf_skip_const p offset w;
     Some (case q of
       None \<Rightarrow> -1
     | Some q \<Rightarrow> if plen (pbufs w q) > q_idx then uint (ram_bytes w (payload (pbufs w q) + unat q_idx)) else -1)
   }"

definition pbuf_get_at :: "nat option \<Rightarrow> u16 \<Rightarrow> 'a mstate_scheme \<Rightarrow> u8 option" where
  "pbuf_get_at p offset w = do { ret \<leftarrow> pbuf_try_get_at p offset w; Some (if ret \<ge> 0 then word_of_int ret else 0) }"

definition pbuf_put_at :: "nat option \<Rightarrow> u16 \<Rightarrow> u8 \<Rightarrow> 'a mstate_scheme \<Rightarrow> 'a mstate_scheme option" where
  "pbuf_put_at p offset v w = do {
     (q, q_idx) \<leftarrow> pbuf_skip p offset w;
     Some (case q of
       None \<Rightarrow> w
     | Some q \<Rightarrow>
         if plen (pbufs w q) > q_idx then w\<lparr>ram_bytes := (ram_bytes w)(payload (pbufs w q) + unat q_idx := v)\<rparr> else w)
   }"

fun memcmp_loop :: "nat \<Rightarrow> nat option \<Rightarrow> u16 \<Rightarrow> nat \<Rightarrow> u16 \<Rightarrow> 'a mstate_scheme \<Rightarrow> u16 option" where
  "memcmp_loop 0 q start s2 i w = Some 0"
| "memcmp_loop (Suc n) q start s2 i w =
     (case pbuf_get_at q (start + i) w of
        None \<Rightarrow> None
      | Some a \<Rightarrow>
          if a \<noteq> ram_bytes w (s2 + unat i) then Some (of_nat (min (unat i + 1) 0xffff))
          else memcmp_loop n q start s2 (i + 1) w)"

definition pbuf_memcmp :: "nat \<Rightarrow> u16 \<Rightarrow> nat \<Rightarrow> u16 \<Rightarrow> 'a mstate_scheme \<Rightarrow> u16 option" where
  "pbuf_memcmp p offset s2 n w =
     (if unat (ptot (pbufs w p)) < unat offset + unat n then Some 0xffff
      else do {
        (q, start) \<leftarrow> pbuf_skip_const (Some p) offset w;
        memcmp_loop (unat n) q start s2 0 w
      })"

partial_function (option) memfind_loop :: "nat \<Rightarrow> nat \<Rightarrow> u16 \<Rightarrow> u16 \<Rightarrow> u16 \<Rightarrow> 'a mstate_scheme \<Rightarrow> u16 option" where
  "memfind_loop p mem mem_len i max_cmp_start w =
     (if i \<le> max_cmp_start then
        Option.bind (pbuf_memcmp p i mem mem_len w) (\<lambda>plus.
          if plus = 0 then Some i else memfind_loop p mem mem_len (i + 1) max_cmp_start w)
      else Some 0xffff)"

definition pbuf_memfind :: "nat \<Rightarrow> nat \<Rightarrow> u16 \<Rightarrow> u16 \<Rightarrow> 'a mstate_scheme \<Rightarrow> u16 option" where
  "pbuf_memfind p mem mem_len start_offset w =
     (let max_cmp_start = ptot (pbufs w p) - mem_len
      in if unat (ptot (pbufs w p)) \<ge> unat mem_len + unat start_offset
         then memfind_loop p mem mem_len start_offset max_cmp_start w
         else Some 0xffff)"

text \<open>\<open>strlen\<close> of the string at an address, over memory in which it ends.\<close>

partial_function (option) strlen :: "nat \<Rightarrow> nat \<Rightarrow> 'a mstate_scheme \<Rightarrow> nat option" where
  "strlen a n w = (if ram_bytes w (a + n) = 0 then Some n else strlen a (n + 1) w)"

definition pbuf_strstr :: "nat \<Rightarrow> nat option \<Rightarrow> 'a mstate_scheme \<Rightarrow> u16 option" where
  "pbuf_strstr p substr w =
     (case substr of
        None \<Rightarrow> Some 0xffff
      | Some substr \<Rightarrow>
          if ram_bytes w substr = 0 \<or> ptot (pbufs w p) = 0xffff then Some 0xffff
          else do {
            substr_len \<leftarrow> strlen substr 0 w;
            if substr_len \<ge> 0xffff then Some 0xffff else pbuf_memfind p substr (of_nat substr_len) 0 w
          })"

end
