(* ===== verification/Pbuf_Data.thy ===== *)
theory Pbuf_Data
  imports Pbuf
begin

text \<open>
  What the data of a packet is, and that the functions which read, write, compare and search packets work on it as if
  it were one contiguous buffer.
\<close>

section \<open>Bytes in memory\<close>

definition store :: "nat \<Rightarrow> bytes \<Rightarrow> (nat \<Rightarrow> byte) \<Rightarrow> nat \<Rightarrow> byte" where
  "store a bs m = (\<lambda>x. if a \<le> x \<and> x < a + length bs then bs ! (x - a) else m x)"

definition fetch :: "(nat \<Rightarrow> byte) \<Rightarrow> nat \<Rightarrow> nat \<Rightarrow> bytes" where
  "fetch m a n = map m [a..<a + n]"

lemma length_fetch [simp]: "length (fetch m a n) = n"
  by (simp add: fetch_def)

lemma fetch_0 [simp]: "fetch m a 0 = []"
  by (simp add: fetch_def)

lemma nth_fetch [simp]: "i < n \<Longrightarrow> fetch m a n ! i = m (a + i)"
  by (simp add: fetch_def)

lemma fetch_take [simp]: "take k (fetch m a n) = fetch m a (min k n)"
  by (intro nth_equalityI) auto

lemma fetch_drop [simp]: "drop k (fetch m a n) = fetch m (a + k) (n - k)"
  by (intro nth_equalityI) (auto simp: add.assoc)

lemma fetch_append: "fetch m a n @ fetch m (a + n) k = fetch m a (n + k)"
  by (intro nth_equalityI) (auto simp: nth_append)

lemma store_Nil [simp]: "store a [] m = m"
  by (auto simp: store_def fun_eq_iff)

lemma store_append: "store (a + length xs) ys (store a xs m) = store a (xs @ ys) m"
  by (auto simp: store_def fun_eq_iff nth_append)

lemma fetch_store [simp]: "fetch (store a bs m) a (length bs) = bs"
  by (intro nth_equalityI) (auto simp: store_def)

lemma fetch_store_apart: "a + length bs \<le> b \<or> b + n \<le> a \<Longrightarrow> fetch (store a bs m) b n = fetch m b n"
  by (intro nth_equalityI) (auto simp: store_def)

lemma fetch_store_in:
  "a \<le> b \<Longrightarrow> b + n \<le> a + length bs \<Longrightarrow> fetch (store a bs m) b n = take n (drop (b - a) bs)"
  by (intro nth_equalityI) (auto simp: store_def)

lemma memcpy_store: "memcpy dst src n w = w\<lparr>ram_bytes := store dst (fetch (ram_bytes w) src n) (ram_bytes w)\<rparr>"
proof -
  have "(\<lambda>a. if dst \<le> a \<and> a < dst + n then ram_bytes w (src + (a - dst)) else ram_bytes w a) =
    store dst (fetch (ram_bytes w) src n) (ram_bytes w)"
    by (rule ext) (auto simp: store_def)
  then show ?thesis by (simp only: memcpy_def)
qed

section \<open>The data of a packet\<close>

abbreviation nxts :: "'a mstate_scheme \<Rightarrow> nat \<Rightarrow> nat option" where
  "nxts w \<equiv> \<lambda>a. nxt (pbufs w a)"

definition seg :: "'a mstate_scheme \<Rightarrow> nat \<Rightarrow> bytes" where
  "seg w a = fetch (ram_bytes w) (payload (pbufs w a)) (unat (plen (pbufs w a)))"

definition contents :: "'a mstate_scheme \<Rightarrow> nat list \<Rightarrow> bytes" where
  "contents w ps = concat (map (seg w) ps)"

definition lens :: "'a mstate_scheme \<Rightarrow> nat list \<Rightarrow> nat" where
  "lens w ps = sum_list (map (\<lambda>a. unat (plen (pbufs w a))) ps)"

fun tot_ok :: "'a mstate_scheme \<Rightarrow> nat list \<Rightarrow> bool" where
  "tot_ok w [] = True"
| "tot_ok w (a # ps) = (unat (ptot (pbufs w a)) = unat (plen (pbufs w a)) + lens w ps \<and> tot_ok w ps)"

text \<open>A packet: a chain of pbufs whose length fields agree.\<close>

definition packet :: "'a mstate_scheme \<Rightarrow> nat \<Rightarrow> nat list \<Rightarrow> bool" where
  "packet w p ps \<longleftrightarrow> ps \<noteq> [] \<and> lseg (nxts w) (Some p) ps \<and> tot_ok w ps"

text \<open>The payloads lie outside a range of addresses.\<close>

definition outside :: "'a mstate_scheme \<Rightarrow> nat list \<Rightarrow> nat \<Rightarrow> nat \<Rightarrow> bool" where
  "outside w ps lo hi \<longleftrightarrow> (\<forall>a\<in>set ps. payload (pbufs w a) + unat (plen (pbufs w a)) \<le> lo \<or> hi \<le> payload (pbufs w a))"

lemma contents_simps [simp]:
  "contents w [] = []" "contents w (a # ps) = seg w a @ contents w ps" "contents w (ps @ qs) = contents w ps @ contents w qs"
  by (simp_all add: contents_def)

lemma lens_simps [simp]:
  "lens w [] = 0" "lens w (a # ps) = unat (plen (pbufs w a)) + lens w ps" "lens w (ps @ qs) = lens w ps + lens w qs"
  by (simp_all add: lens_def)

lemma length_seg [simp]: "length (seg w a) = unat (plen (pbufs w a))"
  by (simp add: seg_def)

lemma length_contents [simp]: "length (contents w ps) = lens w ps"
  by (induction ps) auto

lemma outside_simps [simp]:
  "outside w [] lo hi"
  "outside w (a # ps) lo hi \<longleftrightarrow> (payload (pbufs w a) + unat (plen (pbufs w a)) \<le> lo \<or> hi \<le> payload (pbufs w a)) \<and> outside w ps lo hi"
  by (auto simp: outside_def)

lemma outside_mono: "outside w ps lo hi \<Longrightarrow> lo \<le> lo' \<Longrightarrow> hi' \<le> hi \<Longrightarrow> outside w ps lo' hi'"
  by (fastforce simp: outside_def)

lemma contents_store:
  "outside w ps lo hi \<Longrightarrow> lo \<le> a \<Longrightarrow> a + length bs \<le> hi \<Longrightarrow>
     contents (w\<lparr>ram_bytes := store a bs (ram_bytes w)\<rparr>) ps = contents w ps"
  by (induction ps) (auto simp: seg_def fetch_store_apart)

lemma lens_ram [simp]: "lens (w\<lparr>ram_bytes := m\<rparr>) ps = lens w ps"
  by (simp add: lens_def)

lemma outside_ram [simp]: "outside (w\<lparr>ram_bytes := m\<rparr>) ps lo hi = outside w ps lo hi"
  by (simp add: outside_def)

lemma tot_ok_ram [simp]: "tot_ok (w\<lparr>ram_bytes := m\<rparr>) ps = tot_ok w ps"
  by (induction ps) simp_all

lemma packet_ram [simp]: "packet (w\<lparr>ram_bytes := m\<rparr>) p ps = packet w p ps"
  by (simp add: packet_def)

lemma packet_total: "packet w p ps \<Longrightarrow> unat (ptot (pbufs w p)) = lens w ps"
  by (cases ps) (auto simp: packet_def)

lemma packet_lens: "packet w p ps \<Longrightarrow> lens w ps < 65536"
  using packet_total [of w p ps] unat_less_exp [of "ptot (pbufs w p)"] by simp

section \<open>Reading\<close>

lemma copy_partial_loop_reads:
  assumes "lseg (nxts w) p ps" "D = take (unat len) (drop (unat offset) (contents w ps))"
    "outside w ps (d + unat left) (d + unat left + length D)" "unat left + length D < 65536"
  shows "copy_partial_loop p d len offset left copied w =
    Some (copied + of_nat (length D), w\<lparr>ram_bytes := store (d + unat left) D (ram_bytes w)\<rparr>)"
  using assms
proof (induction ps arbitrary: p len offset left copied w D)
  case Nil
  then show ?case by (subst copy_partial_loop.simps) simp
next
  case (Cons a ps)
  let ?b = "pbufs w a"
  have p: "p = Some a" "lseg (nxts w) (nxt ?b) ps" using Cons.prems by simp_all
  consider (finish) "len = 0" | (skip) "len \<noteq> 0" "offset \<noteq> 0" "plen ?b \<le> offset"
    | (copy) "len \<noteq> 0" "\<not> (offset \<noteq> 0 \<and> plen ?b \<le> offset)" by blast
  then show ?case
  proof cases
    case finish
    then show ?thesis using Cons.prems by (subst copy_partial_loop.simps) simp
  next
    case skip
    then have "unat (offset - plen ?b) = unat offset - unat (plen ?b)" "unat (plen ?b) \<le> unat offset"
      by (simp_all add: unat_sub word_le_nat_alt)
    then have "D = take (unat len) (drop (unat (offset - plen ?b)) (contents w ps))"
      using Cons.prems(2) by simp
    from Cons.IH [OF p(2) this] Cons.prems(3,4) show ?thesis
      using skip p(1) by (subst copy_partial_loop.simps) simp
  next
    case copy
    let ?k = "plen ?b - offset"
    let ?c = "if len < ?k then len else ?k"
    let ?D1 = "take (unat len) (drop (unat offset) (seg w a))"
    let ?D2 = "take (unat (len - ?c)) (drop (unat (0 :: u16)) (contents w ps))"
    have ol: "unat offset \<le> unat (plen ?b)" using copy by (auto simp: word_le_nat_alt)
    then have "unat ?k = unat (plen ?b) - unat offset" by (simp add: unat_sub word_le_nat_alt)
    then have c: "unat ?c = length ?D1" by (auto simp: word_less_nat_alt)
    have lc: "unat (len - ?c) = unat len - unat ?c" by (simp add: unat_sub word_le_nat_alt c)
    have "unat len + unat offset - unat (plen ?b) = unat len - length ?D1" using ol by (auto simp: min_def)
    then have D: "D = ?D1 @ ?D2" using Cons.prems(2) ol lc c by simp
    then have lft: "unat (left + ?c) = unat left + length ?D1"
      using Cons.prems(4) c by (simp only: unat_word_ariths) simp
    let ?w = "w\<lparr>ram_bytes := store (d + unat left) ?D1 (ram_bytes w)\<rparr>"
    have w: "memcpy (d + unat left) (payload ?b + unat offset) (unat ?c) w = ?w"
      by (simp only: memcpy_store c) (simp add: seg_def)
    have out: "outside w ps (d + unat left) (d + unat left + length D)" using Cons.prems(3) by simp
    have "contents ?w ps = contents w ps" by (rule contents_store [OF out]) (simp_all add: D)
    moreover have "outside ?w ps (d + unat (left + ?c)) (d + unat (left + ?c) + length ?D2)"
      using outside_mono [OF out] by (simp only: outside_ram lft D) simp
    ultimately have IH: "copy_partial_loop (nxt ?b) d (len - ?c) 0 (left + ?c) (copied + ?c) ?w =
      Some (copied + ?c + of_nat (length ?D2), ?w\<lparr>ram_bytes := store (d + unat (left + ?c)) ?D2 (ram_bytes ?w)\<rparr>)"
      using Cons.prems(4) p(2) D lft by (intro Cons.IH) simp_all
    have "copy_partial_loop p d len offset left copied w =
      copy_partial_loop (nxt ?b) d (len - ?c) 0 (left + ?c) (copied + ?c) ?w"
      using copy p(1) w by (subst copy_partial_loop.simps) (auto simp: Let_def)
    moreover have "of_nat (length ?D1) = ?c" unfolding c [symmetric] by simp
    then have "copied + ?c + of_nat (length ?D2) = copied + of_nat (length D)"
      by (simp only: D length_append of_nat_add add.assoc)
    ultimately show ?thesis using IH store_append [of "d + unat left" ?D1 ?D2 "ram_bytes w"] lft D by (simp add: add.assoc)
  qed
qed

section \<open>Writing\<close>

fun apart :: "'a mstate_scheme \<Rightarrow> nat list \<Rightarrow> bool" where
  "apart w [] = True"
| "apart w (a # ps) =
     (outside w ps (payload (pbufs w a)) (payload (pbufs w a) + unat (plen (pbufs w a))) \<and> apart w ps)"

definition inside :: "'a mstate_scheme \<Rightarrow> nat list \<Rightarrow> nat \<Rightarrow> bool" where
  "inside w ps x \<longleftrightarrow> (\<exists>a\<in>set ps. payload (pbufs w a) \<le> x \<and> x < payload (pbufs w a) + unat (plen (pbufs w a)))"

lemma inside_simps [simp]:
  "\<not> inside w [] x"
  "inside w (a # ps) x \<longleftrightarrow> (payload (pbufs w a) \<le> x \<and> x < payload (pbufs w a) + unat (plen (pbufs w a))) \<or> inside w ps x"
  by (auto simp: inside_def)

lemma apart_ram [simp]: "apart (w\<lparr>ram_bytes := m\<rparr>) ps = apart w ps"
  by (induction ps) simp_all

lemma inside_ram [simp]: "inside (w\<lparr>ram_bytes := m\<rparr>) ps x = inside w ps x"
  by (simp add: inside_def)

lemma outside_not_inside: "outside w ps lo hi \<Longrightarrow> lo \<le> x \<Longrightarrow> x < hi \<Longrightarrow> \<not> inside w ps x"
  by (fastforce simp: outside_def inside_def)

lemma fetch_cong: "(\<And>x. a \<le> x \<Longrightarrow> x < a + n \<Longrightarrow> m x = m' x) \<Longrightarrow> fetch m a n = fetch m' a n"
  by (auto simp: fetch_def)

lemma take_loop_writes:
  assumes "lseg (nxts w) p ps" "n \<le> lens w ps" "apart w ps" "outside w ps (d + k) (d + k + n)"
  shows "\<exists>m. take_loop p d n k w = Some (k + n, w\<lparr>ram_bytes := m\<rparr>) \<and>
    contents (w\<lparr>ram_bytes := m\<rparr>) ps = fetch (ram_bytes w) (d + k) n @ drop n (contents w ps) \<and>
    (\<forall>x. \<not> inside w ps x \<longrightarrow> m x = ram_bytes w x)"
  using assms
proof (induction ps arbitrary: p n k w)
  case Nil
  then show ?case by (intro exI [of _ "ram_bytes w"]) (subst take_loop.simps, simp)
next
  case (Cons a ps)
  let ?b = "pbufs w a"
  show ?case
  proof (cases "n = 0")
    case True
    then show ?thesis by (intro exI [of _ "ram_bytes w"]) (subst take_loop.simps, simp)
  next
    case False
    define c where "c = min n (unat (plen ?b))"
    let ?D = "fetch (ram_bytes w) (d + k) c"
    define w' where "w' = w\<lparr>ram_bytes := store (payload ?b) ?D (ram_bytes w)\<rparr>"
    have p: "p = Some a" "lseg (nxts w') (nxt ?b) ps" and ap: "apart w' ps"
      and out: "outside w ps (payload ?b) (payload ?b + unat (plen ?b))" using Cons.prems by (simp_all add: w'_def)
    have step: "take_loop p d n k w = take_loop (nxt ?b) d (n - c) (k + c) w'"
      using False p(1) by (subst take_loop.simps) (auto simp: memcpy_store Let_def min_def c_def w'_def)
    have "outside w' ps (d + (k + c)) (d + (k + c) + (n - c))" "n - c \<le> lens w' ps"
      using Cons.prems(2,4) by (auto simp: w'_def c_def elim: outside_mono)
    from Cons.IH [OF p(2) this(2) ap this(1)] obtain m where
      m: "take_loop (nxt ?b) d (n - c) (k + c) w' = Some (k + c + (n - c), w'\<lparr>ram_bytes := m\<rparr>)"
      "contents (w'\<lparr>ram_bytes := m\<rparr>) ps = fetch (ram_bytes w') (d + (k + c)) (n - c) @ drop (n - c) (contents w' ps)"
      "\<forall>x. \<not> inside w' ps x \<longrightarrow> m x = ram_bytes w' x" by blast
    have "fetch (ram_bytes w') (d + (k + c)) (n - c) = fetch (ram_bytes w) (d + (k + c)) (n - c)"
      using Cons.prems(4) by (auto simp: w'_def c_def intro!: fetch_store_apart)
    moreover have "contents w' ps = contents w ps"
      unfolding w'_def by (rule contents_store [OF out]) (simp_all add: c_def)
    moreover have "seg (w\<lparr>ram_bytes := m\<rparr>) a = ?D @ drop n (seg w a)"
    proof -
      have "fetch m (payload ?b) (unat (plen ?b)) = fetch (ram_bytes w') (payload ?b) (unat (plen ?b))"
        using m(3) outside_not_inside [OF out] by (intro fetch_cong) (simp add: w'_def)
      also have "\<dots> = ?D @ drop n (seg w a)"
        by (rule nth_equalityI) (auto simp: w'_def c_def store_def seg_def nth_append)
      finally show ?thesis by (simp add: seg_def)
    qed
    ultimately have "contents (w\<lparr>ram_bytes := m\<rparr>) (a # ps) = fetch (ram_bytes w) (d + k) n @ drop n (contents w (a # ps))"
      using m(2) fetch_append [of "ram_bytes w" "d + k" c "n - c"]
      by (cases "n \<le> unat (plen ?b)") (simp_all add: add.assoc w'_def c_def)
    moreover have "\<forall>x. \<not> inside w (a # ps) x \<longrightarrow> m x = ram_bytes w x"
      using m(3) by (auto simp: store_def w'_def c_def)
    ultimately show ?thesis using step m(1) by (intro exI [of _ m]) (simp add: w'_def c_def)
  qed
qed

section \<open>Positions in a packet\<close>

lemma lseg_suffix: "lseg L p (xs @ y # ys) \<Longrightarrow> lseg L (Some y) (y # ys)"
  by (induction xs arbitrary: p) auto

lemma pbuf_skip_const_spec:
  assumes "lseg (nxts w) p ps" "unat off < lens w ps"
  shows "\<exists>qs a rs. ps = qs @ a # rs \<and> lens w qs \<le> unat off \<and> unat off - lens w qs < unat (plen (pbufs w a)) \<and>
    pbuf_skip_const p off w = Some (Some a, of_nat (unat off - lens w qs))"
  using assms
proof (induction ps arbitrary: p off)
  case (Cons a ps)
  have p: "p = Some a" "lseg (nxts w) (nxts w a) ps" using Cons.prems by simp_all
  show ?case
  proof (cases "plen (pbufs w a) \<le> off")
    case True
    then have o: "unat (off - plen (pbufs w a)) = unat off - unat (plen (pbufs w a))" "unat (plen (pbufs w a)) \<le> unat off"
      by (simp_all add: unat_sub word_le_nat_alt)
    then have "unat (off - plen (pbufs w a)) < lens w ps" using Cons.prems(2) by simp
    from Cons.IH [OF p(2) this] obtain qs b rs where
      qs: "ps = qs @ b # rs" "lens w qs \<le> unat (off - plen (pbufs w a))"
      "unat (off - plen (pbufs w a)) - lens w qs < unat (plen (pbufs w b))"
      "pbuf_skip_const (nxts w a) (off - plen (pbufs w a)) w = Some (Some b, of_nat (unat (off - plen (pbufs w a)) - lens w qs))"
      by blast
    have "unat (off - plen (pbufs w a)) - lens w qs = unat off - lens w (a # qs)" using o by simp
    moreover have "pbuf_skip_const p off w = pbuf_skip_const (nxts w a) (off - plen (pbufs w a)) w"
      using True p(1) by (subst pbuf_skip_const.simps) simp
    ultimately show ?thesis
      using qs o by (intro exI [where x = "a # qs"], intro exI [where x = b], intro exI [where x = rs]) simp
  next
    case False
    then show ?thesis
      using p(1) by (intro exI [where x = "[]"], intro exI [where x = a], intro exI [where x = ps])
        (subst pbuf_skip_const.simps, simp add: word_le_nat_alt)
  qed
qed simp

lemma pbuf_skip_const_beyond:
  "lseg (nxts w) p ps \<Longrightarrow> lens w ps \<le> unat off \<Longrightarrow> \<exists>k. pbuf_skip_const p off w = Some (None, k)"
proof (induction ps arbitrary: p off)
  case Nil
  then show ?case by (subst pbuf_skip_const.simps) simp
next
  case (Cons a ps)
  then have le: "unat (plen (pbufs w a)) \<le> unat off" by simp
  then have "unat (off - plen (pbufs w a)) = unat off - unat (plen (pbufs w a))" by (simp add: unat_sub word_le_nat_alt)
  with Cons.IH [of "nxts w a" "off - plen (pbufs w a)"] Cons.prems le show ?case
    by (subst pbuf_skip_const.simps) (auto simp: word_le_nat_alt)
qed

lemma contents_nth:
  "lens w qs \<le> i \<Longrightarrow> i - lens w qs < unat (plen (pbufs w a)) \<Longrightarrow>
     contents w (qs @ a # rs) ! i = ram_bytes w (payload (pbufs w a) + (i - lens w qs))"
  by (simp add: nth_append seg_def)

lemma pbuf_get_at_spec:
  assumes "lseg (nxts w) p ps"
  shows "pbuf_get_at p off w = Some (if unat off < lens w ps then contents w ps ! unat off else 0)"
proof (cases "unat off < lens w ps")
  case True
  from pbuf_skip_const_spec [OF assms True] obtain qs a rs where
    s: "ps = qs @ a # rs" "lens w qs \<le> unat off" "unat off - lens w qs < unat (plen (pbufs w a))"
    "pbuf_skip_const p off w = Some (Some a, of_nat (unat off - lens w qs))" by blast
  have "unat (of_nat (unat off - lens w qs) :: u16) = unat off - lens w qs"
    using unat_less_exp [of off] by (intro unat_of_nat_small) simp
  with s True contents_nth [of w qs "unat off" a rs] show ?thesis
    by (simp add: pbuf_get_at_def pbuf_try_get_at_def word_less_nat_alt)
next
  case False
  then show ?thesis using pbuf_skip_const_beyond [OF assms, of off] by (auto simp: pbuf_get_at_def pbuf_try_get_at_def)
qed

section \<open>Comparing and searching\<close>

lemma memcmp_loop_spec:
  assumes "lseg (nxts w) q qs" "unat start + unat i + n \<le> lens w qs" "lens w qs < 65536"
  shows "\<exists>r. memcmp_loop n q start s2 i w = Some r \<and>
    (r = 0 \<longleftrightarrow> take n (drop (unat start + unat i) (contents w qs)) = fetch (ram_bytes w) (s2 + unat i) n)"
  using assms
proof (induction n arbitrary: i)
  case (Suc n)
  have si: "unat (start + i) = unat start + unat i" "unat (i + 1) = unat i + 1"
    using Suc.prems by (simp_all add: unat_word_ariths)
  have at: "pbuf_get_at q (start + i) w = Some (contents w qs ! (unat start + unat i))"
    using Suc.prems pbuf_get_at_spec [OF Suc.prems(1), of "start + i"] si by simp
  have split: "take (Suc n) (drop (unat start + unat i) (contents w qs)) =
      contents w qs ! (unat start + unat i) # take n (drop (unat start + unat (i + 1)) (contents w qs))"
    "fetch (ram_bytes w) (s2 + unat i) (Suc n) = ram_bytes w (s2 + unat i) # fetch (ram_bytes w) (s2 + unat (i + 1)) n"
    using Suc.prems si by (auto simp: fetch_def upt_rec take_Suc_conv_app_nth Cons_nth_drop_Suc [symmetric])
  obtain r where "memcmp_loop n q start s2 (i + 1) w = Some r"
    "r = 0 \<longleftrightarrow> take n (drop (unat start + unat (i + 1)) (contents w qs)) = fetch (ram_bytes w) (s2 + unat (i + 1)) n"
    using Suc.IH [of "i + 1"] Suc.prems si by auto
  moreover have "of_nat (min (unat i + 1) 0xffff) \<noteq> (0 :: u16)"
  proof
    assume "of_nat (min (unat i + 1) 0xffff) = (0 :: u16)"
    moreover have "unat (of_nat (min (unat i + 1) 0xffff) :: u16) = min (unat i + 1) 0xffff"
      by (rule unat_of_nat_small) simp
    ultimately show False by simp
  qed
  ultimately show ?case using at unfolding split by auto
qed simp

lemma pbuf_memcmp_spec:
  assumes "packet w p ps" "unat off + unat n \<le> lens w ps"
  shows "\<exists>r. pbuf_memcmp p off s2 n w = Some r \<and>
    (r = 0 \<longleftrightarrow> take (unat n) (drop (unat off) (contents w ps)) = fetch (ram_bytes w) s2 (unat n))"
proof (cases "unat off < lens w ps")
  case True
  have ls: "lseg (nxts w) (Some p) ps" using assms by (simp add: packet_def)
  from pbuf_skip_const_spec [OF this True] obtain qs a rs where
    s: "ps = qs @ a # rs" "lens w qs \<le> unat off" "unat off - lens w qs < unat (plen (pbufs w a))"
    "pbuf_skip_const (Some p) off w = Some (Some a, of_nat (unat off - lens w qs))" by blast
  let ?st = "of_nat (unat off - lens w qs) :: u16"
  have st: "unat ?st = unat off - lens w qs" using unat_less_exp [of off] by (intro unat_of_nat_small) simp
  have "lseg (nxts w) (Some a) (a # rs)" using ls unfolding s(1) by (rule lseg_suffix)
  from memcmp_loop_spec [OF this, of ?st 0 "unat n" s2] show ?thesis
    using s assms packet_lens [OF assms(1)] st packet_total [OF assms(1)]
    by (auto simp: pbuf_memcmp_def)
next
  case False
  then have "unat n = 0" "lens w ps \<le> unat off" using assms by linarith+
  moreover from this have "n = 0" by (simp add: unat_eq_zero)
  moreover obtain k where "pbuf_skip_const (Some p) off w = Some (None, k)"
    using pbuf_skip_const_beyond assms False by (metis leI packet_def)
  ultimately show ?thesis using assms packet_total [OF assms(1)] by (simp add: pbuf_memcmp_def)
qed

definition found_at :: "bytes \<Rightarrow> bytes \<Rightarrow> nat \<Rightarrow> bool" where
  "found_at C M j \<longleftrightarrow> j + length M \<le> length C \<and> take (length M) (drop j C) = M"

lemma memfind_loop_spec:
  assumes "packet w p ps" "unat m \<le> lens w ps" "unat mx = lens w ps - unat m" "M = fetch (ram_bytes w) mem (unat m)"
  shows "\<exists>r. memfind_loop p mem m i mx w = Some r \<and>
    (if \<exists>j\<ge>unat i. found_at (contents w ps) M j
     then unat i \<le> unat r \<and> found_at (contents w ps) M (unat r) \<and> (\<forall>j. unat i \<le> j \<and> j < unat r \<longrightarrow> \<not> found_at (contents w ps) M j)
     else r = 0xffff)"
proof (induction "Suc (unat mx) - unat i" arbitrary: i rule: less_induct)
  case less
  show ?case
  proof (cases "i \<le> mx")
    case False
    then have "\<nexists>j. unat i \<le> j \<and> found_at (contents w ps) M j"
      using assms by (auto simp: found_at_def word_le_nat_alt)
    then show ?thesis using False by (subst memfind_loop.simps) auto
  next
    case True
    then have le: "unat i + unat m \<le> lens w ps" using assms by (simp add: word_le_nat_alt)
    from pbuf_memcmp_spec [OF assms(1) this] obtain r where
      r: "pbuf_memcmp p i mem m w = Some r" "r = 0 \<longleftrightarrow> found_at (contents w ps) M (unat i)"
      using assms(4) le by (auto simp: found_at_def)
    show ?thesis
    proof (cases "r = 0")
      case z: True
      then show ?thesis using True r by (subst memfind_loop.simps) auto
    next
      case nz: False
      have "unat i \<noteq> 65535"
      proof
        assume "unat i = 65535"
        then have "unat m = 0" using le packet_lens [OF assms(1)] by simp
        then show False using nz r(2) le assms(4) by (simp add: found_at_def)
      qed
      then have si: "unat (i + 1) = unat i + 1" using unat_less_exp [of i] by (simp add: unat_word_ariths)
      then have "Suc (unat mx) - unat (i + 1) < Suc (unat mx) - unat i" using True by (simp add: word_le_nat_alt)
      from less [OF this] obtain r' where r': "memfind_loop p mem m (i + 1) mx w = Some r'"
        "if \<exists>j\<ge>unat (i + 1). found_at (contents w ps) M j
         then unat (i + 1) \<le> unat r' \<and> found_at (contents w ps) M (unat r') \<and>
           (\<forall>j. unat (i + 1) \<le> j \<and> j < unat r' \<longrightarrow> \<not> found_at (contents w ps) M j)
         else r' = 0xffff" by blast
      have shift: "unat i \<le> j \<Longrightarrow> found_at (contents w ps) M j \<Longrightarrow> unat (i + 1) \<le> j" for j
        using nz r(2) si by (cases "j = unat i") simp_all
      have "memfind_loop p mem m i mx w = Some r'"
        using True r(1) nz r'(1) by (subst memfind_loop.simps) simp
      moreover have "if \<exists>j\<ge>unat i. found_at (contents w ps) M j
         then unat i \<le> unat r' \<and> found_at (contents w ps) M (unat r') \<and>
           (\<forall>j. unat i \<le> j \<and> j < unat r' \<longrightarrow> \<not> found_at (contents w ps) M j)
         else r' = 0xffff"
      proof (cases "\<exists>j\<ge>unat i. found_at (contents w ps) M j")
        case True
        then have ex: "\<exists>j\<ge>unat (i + 1). found_at (contents w ps) M j" using shift by blast
        have r2: "unat (i + 1) \<le> unat r'" "found_at (contents w ps) M (unat r')"
          "\<And>j. unat (i + 1) \<le> j \<Longrightarrow> j < unat r' \<Longrightarrow> \<not> found_at (contents w ps) M j"
          using r'(2) unfolding if_P [OF ex] by blast+
        then have "\<forall>j. unat i \<le> j \<and> j < unat r' \<longrightarrow> \<not> found_at (contents w ps) M j" using shift by blast
        moreover have "unat i \<le> unat r'" using r2(1) si by simp
        ultimately show ?thesis unfolding if_P [OF True] using r2(2) by blast
      next
        case False
        then have "\<not> (\<exists>j\<ge>unat (i + 1). found_at (contents w ps) M j)" using si by auto
        from r'(2) [unfolded if_not_P [OF this]] show ?thesis unfolding if_not_P [OF False] .
      qed
      ultimately show ?thesis by blast
    qed
  qed
qed

section \<open>Properties\<close>

text \<open>A packet of two pbufs with the bytes 1 to 6, for the examples; the memory behind it is free.\<close>

definition sample :: mstate where
  "sample = \<lparr>hp = heap0, pl = pools0,
     ram_bytes = (\<lambda>a. if 500 \<le> a \<and> a < 504 then of_nat (a - 499) else if 600 \<le> a \<and> a < 602 then of_nat (a - 595) else 0),
     pbufs = (\<lambda>a. if a = 100 then \<lparr>nxt = Some 200, payload = 500, ptot = 6, plen = 4, type_internal = 0x82, pflags = 0, pref = 1, if_idx = 0\<rparr>
                  else \<lparr>nxt = None, payload = 600, ptot = 2, plen = 2, type_internal = 0x82, pflags = 0, pref = 1, if_idx = 0\<rparr>),
     ooseq_pending = False\<rparr>"

lemma sample_packet: "packet sample 100 [100, 200]" "contents sample [100, 200] = [1, 2, 3, 4, 5, 6]"
  by (simp_all add: packet_def sample_def seg_def fetch_def upt_rec)

text \<open>
  \<open>pbuf_copy_partial\<close> copies the requested bytes of the packet, wherever the chain is cut, to the buffer and returns
  their number; what it copies ends with the packet when more is requested than the packet has.
\<close>

lemma pbuf_copy_partial_reads:
  assumes "packet w p ps" "D = take (unat len) (drop (unat offset) (contents w ps))" "outside w ps d (d + length D)"
  shows "pbuf_copy_partial (Some p) (Some d) len offset w =
    Some (of_nat (length D), w\<lparr>ram_bytes := store d D (ram_bytes w)\<rparr>)"
proof -
  have "length D < 65536" using assms packet_lens [OF assms(1)] by simp
  then show ?thesis
    using copy_partial_loop_reads [of w "Some p" ps D len offset d 0 0] assms
    by (simp add: pbuf_copy_partial_def packet_def)
qed

text \<open>
  C30: What \<open>pbuf_take\<close> writes into a packet is what \<open>pbuf_copy_partial\<close> reads back from it; the rest of the packet's
  data is unchanged, and so is all memory outside the packet.
\<close>

theorem pbuf_take_copy_round_trip:
  assumes "packet w p ps" "apart w ps" "unat len \<le> lens w ps" "outside w ps src (src + unat len)" "outside w ps d (d + unat len)"
  shows "\<exists>w'. pbuf_take (Some p) (Some src) len w = Some (ERR_OK, w') \<and> packet w' p ps \<and>
    contents w' ps = fetch (ram_bytes w) src (unat len) @ drop (unat len) (contents w ps) \<and>
    (\<forall>x. \<not> inside w ps x \<longrightarrow> ram_bytes w' x = ram_bytes w x) \<and>
    pbuf_copy_partial (Some p) (Some d) len 0 w' =
      Some (len, w'\<lparr>ram_bytes := store d (fetch (ram_bytes w) src (unat len)) (ram_bytes w')\<rparr>)"
proof -
  let ?D = "fetch (ram_bytes w) src (unat len)"
  have ls: "lseg (nxts w) (Some p) ps" using assms by (simp add: packet_def)
  obtain m where m: "take_loop (Some p) src (unat len) 0 w = Some (unat len, w\<lparr>ram_bytes := m\<rparr>)"
    "contents (w\<lparr>ram_bytes := m\<rparr>) ps = ?D @ drop (unat len) (contents w ps)"
    "\<forall>x. \<not> inside w ps x \<longrightarrow> m x = ram_bytes w x"
    using take_loop_writes [OF ls assms(3,2), of src 0] assms(4) by auto
  let ?w = "w\<lparr>ram_bytes := m\<rparr>"
  have "pbuf_take (Some p) (Some src) len w = Some (ERR_OK, ?w)"
    using m(1) assms(3) packet_total [OF assms(1)] by (simp add: pbuf_take_def word_less_nat_alt)
  moreover have "unat len < 65536" using assms(3) packet_lens [OF assms(1)] by simp
  moreover have "copy_partial_loop (Some p) d len 0 0 0 ?w = Some (0 + of_nat (length ?D), ?w\<lparr>ram_bytes := store (d + unat (0 :: u16)) ?D (ram_bytes ?w)\<rparr>)"
    by (rule copy_partial_loop_reads) (use ls m assms calculation(2) in simp_all)
  ultimately show ?thesis using m assms(1) by (intro exI [of _ ?w]) (simp add: pbuf_copy_partial_def)
qed

theorem pbuf_take_copy_round_trip_witness:
  "packet sample 100 [100, 200] \<and> apart sample [100, 200] \<and> outside sample [100, 200] 800 805 \<and> outside sample [100, 200] 900 905 \<and>
   (\<exists>w'. pbuf_take (Some 100) (Some 800) 5 sample = Some (ERR_OK, w') \<and> contents w' [100, 200] = [0, 0, 0, 0, 0, 6])"
proof -
  have "apart sample [100, 200]" "outside sample [100, 200] 800 805" "outside sample [100, 200] 900 905"
    "fetch (ram_bytes sample) 800 5 = [0, 0, 0, 0, 0]" "lens sample [100, 200] = 6"
    by (simp_all add: sample_def fetch_def upt_rec)
  then show ?thesis
    using pbuf_take_copy_round_trip [of sample 100 "[100, 200]" 5 800 900] sample_packet
    by (auto simp del: contents_simps lens_simps outside_simps apart.simps)
qed

text \<open>
  \<open>pbuf_memfind\<close> returns the first position at or after the start offset at which the packet's data contains the
  pattern, and 0xFFFF exactly when there is none; it always returns.
\<close>

lemma pbuf_memfind_first:
  assumes "packet w p ps" "M = fetch (ram_bytes w) mem (unat mem_len)"
  shows "\<exists>r. pbuf_memfind p mem mem_len start w = Some r \<and>
    (if \<exists>j\<ge>unat start. found_at (contents w ps) M j
     then unat start \<le> unat r \<and> found_at (contents w ps) M (unat r) \<and>
       (\<forall>j. unat start \<le> j \<and> j < unat r \<longrightarrow> \<not> found_at (contents w ps) M j)
     else r = 0xffff)"
proof (cases "unat mem_len + unat start \<le> lens w ps")
  case True
  have "unat (ptot (pbufs w p) - mem_len) = lens w ps - unat mem_len"
    using True packet_total [OF assms(1)] by (simp add: unat_sub word_le_nat_alt)
  then show ?thesis
    using memfind_loop_spec [OF assms(1), of mem_len "ptot (pbufs w p) - mem_len" M mem start] True assms packet_total [OF assms(1)]
    by (simp add: pbuf_memfind_def)
next
  case False
  then have no: "\<not> (\<exists>j\<ge>unat start. found_at (contents w ps) M j)" using assms(2) by (auto simp: found_at_def)
  have "pbuf_memfind p mem mem_len start w = Some 0xffff"
    using False packet_total [OF assms(1)] by (simp add: pbuf_memfind_def Let_def)
  then show ?thesis unfolding if_not_P [OF no] by blast
qed

end
