(* ===== verification/Pbuf_Alloc.thy ===== *)
theory Pbuf_Alloc
  imports Pbuf_Data
begin

text \<open>
  The life of packet buffers: what \<open>pbuf_alloc\<close> takes from the heap and the pools, what \<open>pbuf_free\<close> gives back, and
  that nothing is lost in between. The proofs rest on the allocator contract alone.
\<close>

section \<open>What is allocated\<close>

datatype source = Heap | Pool memp_t

type_synonym tables = "(nat \<rightharpoonup> nat) \<times> (memp_t \<Rightarrow> nat \<rightharpoonup> nat)"

definition tables :: "'a mstate_scheme \<Rightarrow> tables" where
  "tables w = (live (hp w), \<lambda>t. pool_live t (pl w))"

definition mem_ok :: "'a mstate_scheme \<Rightarrow> bool" where
  "mem_ok w \<longleftrightarrow> heap_ok (hp w) \<and> pools_ok (pl w) \<and> dsize (desc (pl w) MEMP_PBUF_POOL) = 1540"

definition source_of :: "pbuf \<Rightarrow> source option" where
  "source_of b =
     (if pbuf_get_allocsrc b = PBUF_TYPE_ALLOC_SRC_MASK_STD_MEMP_PBUF_POOL then Some (Pool MEMP_PBUF_POOL)
      else if pbuf_get_allocsrc b = PBUF_TYPE_ALLOC_SRC_MASK_STD_MEMP_PBUF then Some (Pool MEMP_PBUF)
      else if pbuf_get_allocsrc b = PBUF_TYPE_ALLOC_SRC_MASK_STD_HEAP then Some Heap else None)"

fun entry :: "source \<Rightarrow> nat \<Rightarrow> tables \<Rightarrow> nat option" where
  "entry Heap a T = fst T a"
| "entry (Pool t) a T = snd T t a"

fun set_entry :: "source \<Rightarrow> nat \<Rightarrow> nat option \<Rightarrow> tables \<Rightarrow> tables" where
  "set_entry Heap a v T = ((fst T)(a := v), snd T)"
| "set_entry (Pool t) a v T = (fst T, (snd T)(t := (snd T t)(a := v)))"

lemma entry_set_entry [simp]: "entry s a (set_entry s' b v T) = (if s = s' \<and> a = b then v else entry s a T)"
  by (cases s; cases s') auto

definition held :: "'a mstate_scheme \<Rightarrow> nat \<Rightarrow> bool" where
  "held w a \<longleftrightarrow> (\<exists>s n. source_of (pbufs w a) = Some s \<and> entry s a (tables w) = Some n)"

text \<open>The state except the allocators and the pbufs, and except the allocators.\<close>

definition same_data :: "'a mstate_scheme \<Rightarrow> 'a mstate_scheme \<Rightarrow> bool" where
  "same_data w w' \<longleftrightarrow>
     ram_bytes w' = ram_bytes w \<and> ooseq_pending w' = ooseq_pending w \<and> mstate.more w' = mstate.more w"

definition same_rest :: "'a mstate_scheme \<Rightarrow> 'a mstate_scheme \<Rightarrow> bool" where
  "same_rest w w' \<longleftrightarrow> same_data w w' \<and> pbufs w' = pbufs w"

lemma same_data_trans: "same_data u v \<Longrightarrow> same_data v w \<Longrightarrow> same_data u w"
  by (simp add: same_data_def)

lemma pbuf_dealloc_tables:
  assumes "mem_ok w" "source_of (pbufs w a) = Some s" "entry s a (tables w) = Some n"
  shows "\<exists>w'. pbuf_dealloc a w = Some w' \<and> mem_ok w' \<and> tables w' = set_entry s a None (tables w) \<and> same_rest w w'"
proof (cases s)
  case Heap
  obtain h where h: "mem_free (Some a) (hp w) = Some h" "heap_ok h" "live h = (live (hp w))(a := None)"
    using assms mem_heap.free_ok [of "hp w" a n] Heap by (auto simp: mem_ok_def tables_def)
  then have "pbuf_dealloc a w = Some (w\<lparr>hp := h\<rparr>)"
    using assms Heap by (auto simp: pbuf_dealloc_def source_of_def heap_free_def Let_def pbuf_type_defs split: if_splits)
  then show ?thesis using h assms Heap by (auto simp: mem_ok_def tables_def same_rest_def same_data_def)
next
  case (Pool t)
  obtain q where q: "memp_free t (Some a) (pl w) = Some q" "pools_ok q" "desc q = desc (pl w)"
    "\<forall>u. u \<noteq> t \<longrightarrow> pool_live u q = pool_live u (pl w)" "pool_live t q = (pool_live t (pl w))(a := None)"
    using assms memp_free_live [of "pl w" t a n] Pool by (auto simp: mem_ok_def tables_def)
  then have "pbuf_dealloc a w = Some (w\<lparr>pl := q\<rparr>)"
    using assms Pool by (auto simp: pbuf_dealloc_def source_of_def pool_free_def Let_def pbuf_type_defs split: if_splits)
  then show ?thesis using q assms Pool by (auto simp: mem_ok_def tables_def same_rest_def same_data_def fun_eq_iff)
qed

section \<open>Reference counts\<close>

text \<open>
  Freeing gives back the pbufs at the front of the chain that nobody else refers to, and takes one reference from
  the first pbuf that somebody else refers to.
\<close>

definition drops :: "'a mstate_scheme \<Rightarrow> nat list \<Rightarrow> nat" where
  "drops w ps = length (takeWhile (\<lambda>a. pref (pbufs w a) = 1) ps)"

fun give_back :: "'a mstate_scheme \<Rightarrow> nat list \<Rightarrow> tables \<Rightarrow> tables" where
  "give_back w [] T = T"
| "give_back w (a # ps) T = give_back w ps (set_entry (the (source_of (pbufs w a))) a None T)"

lemma lseg_unique: "lseg L p xs \<Longrightarrow> lseg L p ys \<Longrightarrow> xs = ys"
proof (induction xs arbitrary: p ys)
  case Nil
  then show ?case by (cases ys) auto
next
  case (Cons x xs)
  then show ?case by (cases ys) auto
qed

lemma lseg_distinct: "lseg L p xs \<Longrightarrow> distinct xs"
proof (induction xs arbitrary: p)
  case (Cons x xs)
  have "x \<notin> set xs"
  proof
    assume "x \<in> set xs"
    then obtain as bs where xs: "xs = as @ x # bs" by (auto simp: in_set_conv_decomp)
    have "lseg L (Some x) (x # bs)" using Cons.prems lseg_suffix [of L p "x # as" x bs] xs by simp
    from lseg_unique [OF this, of "x # xs"] Cons.prems have "bs = xs" by simp
    then show False using xs by simp
  qed
  then show ?case using Cons by auto
qed simp

lemma lseg_cong: "(\<And>a. a \<in> set xs \<Longrightarrow> L a = L' a) \<Longrightarrow> lseg L p xs = lseg L' p xs"
  by (induction xs arbitrary: p) auto

lemma drops_cong: "(\<And>a. a \<in> set ps \<Longrightarrow> pref (pbufs w a) = pref (pbufs w' a)) \<Longrightarrow> drops w ps = drops w' ps"
  by (simp add: drops_def cong: takeWhile_cong)

lemma give_back_cong:
  "(\<And>a. a \<in> set ps \<Longrightarrow> source_of (pbufs w a) = source_of (pbufs w' a)) \<Longrightarrow> give_back w ps T = give_back w' ps T"
  by (induction ps arbitrary: T) auto

lemma source_of_pref [simp]: "source_of (b\<lparr>pref := n\<rparr>) = source_of b"
  by (simp add: source_of_def pbuf_get_allocsrc_def)

lemma free_loop_spec:
  assumes "mem_ok w" "lseg (nxts w) p ps" "\<forall>a\<in>set ps. held w a \<and> pref (pbufs w a) \<noteq> 0"
  shows "\<exists>w'. free_loop p count w = Some (count + of_nat (drops w ps), w') \<and> mem_ok w' \<and>
    tables w' = give_back w (take (drops w ps) ps) (tables w) \<and> same_data w w' \<and>
    (\<forall>a. a \<notin> set ps \<longrightarrow> pbufs w' a = pbufs w a) \<and>
    (\<forall>a\<in>set (drop (drops w ps) ps). pbufs w' a =
       (if a = ps ! drops w ps then (pbufs w a)\<lparr>pref := pref (pbufs w a) - 1\<rparr> else pbufs w a))"
  using assms
proof (induction ps arbitrary: p count w)
  case Nil
  then show ?case by (subst free_loop.simps) (simp add: drops_def same_data_def)
next
  case (Cons a ps)
  let ?w = "set_pbuf a (\<lambda>b. b\<lparr>pref := pref b - 1\<rparr>) w"
  have p: "p = Some a" "lseg (nxts w) (nxts w a) ps" using Cons.prems by simp_all
  have dist: "a \<notin> set ps" using lseg_distinct [OF Cons.prems(2)] by simp
  have pb: "pbufs ?w = (pbufs w)(a := (pbufs w a)\<lparr>pref := pref (pbufs w a) - 1\<rparr>)" "tables ?w = tables w" "mem_ok ?w"
    "same_data w ?w"
    using Cons.prems(1) by (simp_all add: set_pbuf_def tables_def mem_ok_def same_data_def)
  show ?case
  proof (cases "pref (pbufs w a) = 1")
    case False
    then have "drops w (a # ps) = 0" by (simp add: drops_def)
    moreover have "free_loop p count w = Some (count, ?w)"
      using False Cons.prems(3) p(1) pb(1) by (subst free_loop.simps) (simp add: Let_def)
    ultimately show ?thesis using pb dist by auto
  next
    case True
    obtain s n where s: "source_of (pbufs w a) = Some s" "entry s a (tables w) = Some n"
      using Cons.prems(3) by (auto simp: held_def)
    then obtain w2 where w2: "pbuf_dealloc a ?w = Some w2" "mem_ok w2" "tables w2 = set_entry s a None (tables w)" "same_rest ?w w2"
      using pbuf_dealloc_tables [OF pb(3), of a s n] pb by auto
    have pb2: "pbufs w2 = pbufs ?w" "same_data w w2"
      using w2(4) pb(4) same_data_trans by (auto simp: same_rest_def)
    have ls: "lseg (nxts w2) (nxts w a) ps"
      using p(2) dist by (subst lseg_cong [where L' = "nxts w"]) (auto simp: pb2 pb)
    have "held w2 b \<and> pref (pbufs w2 b) \<noteq> 0" if "b \<in> set ps" for b
    proof -
      have "b \<noteq> a" using that dist by auto
      then have "pbufs w2 b = pbufs w b" "\<And>s'. entry s' b (tables w2) = entry s' b (tables w)" by (simp_all add: pb2 pb w2(3))
      then show ?thesis using Cons.prems(3) that by (simp add: held_def)
    qed
    then have "\<forall>b\<in>set ps. held w2 b \<and> pref (pbufs w2 b) \<noteq> 0" by blast
    from Cons.IH [OF w2(2) ls this, of "count + 1"] obtain w' where
      w': "free_loop (nxts w a) (count + 1) w2 = Some (count + 1 + of_nat (drops w2 ps), w')" "mem_ok w'"
      "tables w' = give_back w2 (take (drops w2 ps) ps) (tables w2)" "same_data w2 w'"
      "\<forall>b. b \<notin> set ps \<longrightarrow> pbufs w' b = pbufs w2 b"
      "\<forall>b\<in>set (drop (drops w2 ps) ps). pbufs w' b =
         (if b = ps ! drops w2 ps then (pbufs w2 b)\<lparr>pref := pref (pbufs w2 b) - 1\<rparr> else pbufs w2 b)" by blast
    have d: "drops w2 ps = drops w ps" by (rule drops_cong) (use dist in \<open>auto simp: pb2 pb\<close>)
    have d': "drops w (a # ps) = Suc (drops w ps)" using True by (simp add: drops_def)
    have "free_loop p count w = free_loop (nxts w a) (count + 1) w2"
      using True p(1) w2(1) pb(1) by (subst free_loop.simps) (simp add: Let_def)
    moreover have "give_back w2 (take (drops w ps) ps) T = give_back w (take (drops w ps) ps) T" for T
      by (rule give_back_cong) (use dist in \<open>auto simp: pb2 pb dest: in_set_takeD\<close>)
    moreover have "\<forall>b. b \<notin> set (a # ps) \<longrightarrow> pbufs w' b = pbufs w b" using w'(5) by (auto simp: pb2 pb)
    moreover have "\<forall>b\<in>set (drop (drops w (a # ps)) (a # ps)). pbufs w' b =
        (if b = (a # ps) ! drops w (a # ps) then (pbufs w b)\<lparr>pref := pref (pbufs w b) - 1\<rparr> else pbufs w b)"
      using w'(6) dist by (auto simp: d d' pb2 pb dest: in_set_dropD)
    moreover have "same_data w w'" using same_data_trans pb2(2) w'(4) by blast
    moreover have "tables w' = give_back w (take (drops w (a # ps)) (a # ps)) (tables w)"
      using w'(3) calculation(2) by (simp add: d d' s(1) w2(3))
    ultimately show ?thesis using w'(1,2) by (intro exI [of _ w']) (simp add: d d' add.assoc)
  qed
qed

section \<open>Fresh packets\<close>

definition fresh_pbuf :: "'a mstate_scheme \<Rightarrow> 'a mstate_scheme \<Rightarrow> nat \<Rightarrow> bool" where
  "fresh_pbuf w w' a \<longleftrightarrow>
     pref (pbufs w' a) = 1 \<and>
     (\<exists>s n. source_of (pbufs w' a) = Some s \<and> entry s a (tables w) = None \<and> entry s a (tables w') = Some n \<and>
        a + 16 \<le> payload (pbufs w' a) \<and> payload (pbufs w' a) + unat (plen (pbufs w' a)) \<le> a + n)"

definition fresh_packet :: "'a mstate_scheme \<Rightarrow> 'a mstate_scheme \<Rightarrow> nat \<Rightarrow> nat list \<Rightarrow> u16 \<Rightarrow> bool" where
  "fresh_packet w w' p ps len \<longleftrightarrow>
     packet w' p ps \<and> lens w' ps = unat len \<and> (\<forall>a\<in>set ps. fresh_pbuf w w' a) \<and>
     give_back w' ps (tables w') = tables w \<and> mem_ok w' \<and> same_data w w' \<and> (\<forall>b. b \<notin> set ps \<longrightarrow> pbufs w' b = pbufs w b)"

lemma fresh_packet_free:
  assumes "fresh_packet w w' p ps len"
  shows "\<exists>w''. pbuf_free (Some p) w' = Some (of_nat (length ps), w'') \<and> mem_ok w'' \<and> tables w'' = tables w \<and> same_data w w''"
proof -
  have ls: "lseg (nxts w') (Some p) ps" and h: "\<forall>a\<in>set ps. held w' a \<and> pref (pbufs w' a) \<noteq> 0" and ok: "mem_ok w'"
    using assms by (auto simp: fresh_packet_def packet_def fresh_pbuf_def held_def)
  have d: "drops w' ps = length ps"
    using assms by (simp add: drops_def fresh_packet_def fresh_pbuf_def takeWhile_eq_all_conv [THEN iffD2])
  from free_loop_spec [OF ok ls h, of 0] obtain w'' where
    "free_loop (Some p) 0 w' = Some (of_nat (length ps), w'')" "mem_ok w''" "tables w'' = give_back w' ps (tables w')" "same_data w' w''"
    unfolding d by auto
  then show ?thesis using assms same_data_trans by (auto simp: pbuf_free_def fresh_packet_def)
qed

lemma align_dvd [simp]: "4 dvd LWIP_MEM_ALIGN_SIZE n" "LWIP_MEM_ALIGN_SIZE n mod 4 = 0"
  by (simp_all add: LWIP_MEM_ALIGN_SIZE_def layout_simps)

lemma align_ge: "n \<le> LWIP_MEM_ALIGN_SIZE n" "LWIP_MEM_ALIGN_SIZE n < n + 4"
  unfolding LWIP_MEM_ALIGN_SIZE_def layout_simps by linarith+

lemma LWIP_MEM_ALIGN_base: "4 dvd a \<Longrightarrow> LWIP_MEM_ALIGN (a + 16 + n) = a + 16 + LWIP_MEM_ALIGN_SIZE n"
proof -
  assume "4 dvd a"
  then obtain k where "a = 4 * k" by (rule dvdE)
  moreover have "(4 * (k + 4) + (n + 3)) div 4 = k + 4 + (n + 3) div 4" by (rule div_mult_self4) simp
  ultimately show ?thesis by (simp add: LWIP_MEM_ALIGN_def LWIP_MEM_ALIGN_SIZE_def layout_simps ac_simps)
qed

lemma layer_offset_le: "unat (layer_offset l) \<le> 54" "LWIP_MEM_ALIGN_SIZE (unat (layer_offset l)) \<le> 56"
  by (cases l; simp add: LWIP_MEM_ALIGN_SIZE_def layout_simps)+

lemma source_init:
  "type_internal b = ucast (type_code t) \<Longrightarrow>
     source_of b = Some (case t of PBUF_RAM \<Rightarrow> Heap | PBUF_POOL \<Rightarrow> Pool MEMP_PBUF_POOL | _ \<Rightarrow> Pool MEMP_PBUF)"
  by (cases t) (simp_all add: source_of_def pbuf_get_allocsrc_def pbuf_type_defs)

text \<open>A pbuf from the heap, with room for the headers of the layers below in front of its payload.\<close>

definition ram_pbuf :: "'a mstate_scheme \<Rightarrow> pbuf_layer \<Rightarrow> u16 \<Rightarrow> nat \<Rightarrow> bool" where
  "ram_pbuf w layer len p \<longleftrightarrow>
     pbufs w p = \<lparr>nxt = None, payload = p + 16 + LWIP_MEM_ALIGN_SIZE (unat (layer_offset layer)), ptot = len, plen = len,
                  type_internal = 0x80, pflags = 0, pref = 1, if_idx = 0\<rparr> \<and>
     (\<exists>a. live (hp w) p = Some a \<and> payload (pbufs w p) + LWIP_MEM_ALIGN_SIZE (unat len) \<le> p + a)"

lemma pbuf_alloc_ram_at:
  assumes "mem_ok w"
  shows "\<exists>r w'. pbuf_alloc layer len PBUF_RAM w = Some (r, w') \<and>
    (case r of None \<Rightarrow> w' = w | Some p \<Rightarrow> fresh_packet w w' p [p] len \<and> ram_pbuf w' layer len p)"
proof -
  let ?off = "LWIP_MEM_ALIGN_SIZE (unat (layer_offset layer))" and ?len = "LWIP_MEM_ALIGN_SIZE (unat len)"
  define k where "k = mem_size (16 + mem_size (?off + ?len))"
  show ?thesis
  proof (cases "mem_size (?off + ?len) < ?len \<or> k < ?len")
    case True
    moreover have "LWIP_MEM_ALIGN_SIZE 16 = 16" by (simp add: LWIP_MEM_ALIGN_SIZE_def layout_simps)
    ultimately have "pbuf_alloc layer len PBUF_RAM w = Some (None, w)"
      by (auto simp: pbuf_alloc_def Let_def layout_simps k_def)
    then show ?thesis by simp
  next
    case False
    have len: "unat len \<le> ?len" "?len \<le> 65540" "?off \<le> 56"
      using align_ge [of "unat len"] unat_less_exp [of len] layer_offset_le [of layer] by auto
    have "?len \<le> (?off + ?len) mod 65536" "?len \<le> (16 + mem_size (?off + ?len)) mod 65536"
      using False by (simp_all add: k_def mem_size_def not_less)
    then have x: "mem_size (?off + ?len) = ?off + ?len" "16 + ?off + ?len < 65536"
      using len by (auto simp: mem_size_def mod_if split: if_splits)
    then have k: "k = 16 + ?off + ?len" "k < 65536" by (simp_all add: k_def)
    have "LWIP_MEM_ALIGN_SIZE 16 = 16" by (simp add: LWIP_MEM_ALIGN_SIZE_def layout_simps)
    then have al: "pbuf_alloc layer len PBUF_RAM w = do {
        (p, w) \<leftarrow> heap_malloc k w;
        case p of
          None \<Rightarrow> Some (None, w)
        | Some p \<Rightarrow>
            (let w = pbuf_init_alloced_pbuf p (LWIP_MEM_ALIGN (p + 16 + unat (layer_offset layer))) len len PBUF_RAM 0 w
             in if payload (pbufs w p) mod 4 \<noteq> 0 then None else Some (Some p, w)) }"
      using False unfolding pbuf_alloc_def Let_def layout_simps by (simp add: k_def)
    have "heap_ok (hp w)" using assms by (simp add: mem_ok_def)
    from mem_heap.alloc_ok [OF this k(2)] obtain r h where
      r: "mem_malloc k (hp w) = Some (r, h)" "heap_ok h"
      "case r of None \<Rightarrow> h = hp w | Some p \<Rightarrow> live (hp w) p = None \<and> (\<exists>a\<ge>k. live h = (live (hp w))(p \<mapsto> a))"
      by blast
    show ?thesis
    proof (cases r)
      case None
      then show ?thesis using r al by (simp add: heap_malloc_def)
    next
      case (Some p)
      then obtain a where a: "live (hp w) p = None" "k \<le> a" "live h = (live (hp w))(p \<mapsto> a)" using r by auto
      have "4 dvd p" using mem_heap.aligned [OF r(2), of p a] a by simp
      then have pay: "LWIP_MEM_ALIGN (p + 16 + unat (layer_offset layer)) = p + 16 + ?off" by (rule LWIP_MEM_ALIGN_base)
      let ?w = "pbuf_init_alloced_pbuf p (p + 16 + ?off) len len PBUF_RAM 0 (w\<lparr>hp := h\<rparr>)"
      have "pbuf_alloc layer len PBUF_RAM w = Some (Some p, ?w)"
        using al r(1) Some pay \<open>4 dvd p\<close>
        by (simp add: heap_malloc_def Let_def pbuf_init_alloced_pbuf_def set_pbuf_def mod_add_eq)
      moreover have "fresh_packet w ?w p [p] len"
      proof -
        have b: "pbufs ?w p = \<lparr>nxt = None, payload = p + 16 + ?off, ptot = len, plen = len, type_internal = ucast (type_code PBUF_RAM),
            pflags = 0, pref = 1, if_idx = 0\<rparr>" "\<And>q. q \<noteq> p \<Longrightarrow> pbufs ?w q = pbufs w q"
          "tables ?w = set_entry Heap p (Some a) (tables w)" "mem_ok ?w" "same_data w ?w"
          using a assms r(2)
          by (simp_all add: pbuf_init_alloced_pbuf_def set_pbuf_def tables_def mem_ok_def same_data_def)
        have src: "source_of (pbufs ?w p) = Some Heap" using source_init [of "pbufs ?w p" PBUF_RAM] b(1) by simp
        have "packet ?w p [p]" "lens ?w [p] = unat len" by (simp_all add: packet_def b(1))
        moreover have "entry Heap p (tables w) = None" using a(1) by (simp add: tables_def)
        moreover have "give_back ?w [p] (tables ?w) = tables w"
          using a(1) by (simp add: src b(3)) (simp add: tables_def fun_upd_idem)
        moreover have "fresh_pbuf w ?w p"
          unfolding fresh_pbuf_def using src a k len b(3) calculation(3)
          by (intro conjI exI [of _ Heap] exI [of _ a]) (simp_all add: b(1))
        ultimately show ?thesis using b by (simp add: fresh_packet_def)
      qed
      moreover have "ram_pbuf ?w layer len p"
        using a k by (simp add: ram_pbuf_def pbuf_init_alloced_pbuf_def set_pbuf_def)
      ultimately show ?thesis by auto
    qed
  qed
qed

lemma pbuf_alloc_ram:
  assumes "mem_ok w"
  shows "\<exists>r w'. pbuf_alloc layer len PBUF_RAM w = Some (r, w') \<and>
    (case r of None \<Rightarrow> w' = w | Some p \<Rightarrow> fresh_packet w w' p [p] len)"
proof -
  obtain r w' where "pbuf_alloc layer len PBUF_RAM w = Some (r, w')"
    "case r of None \<Rightarrow> w' = w | Some p \<Rightarrow> fresh_packet w w' p [p] len \<and> ram_pbuf w' layer len p"
    using pbuf_alloc_ram_at [OF assms, of layer len] by blast
  then show ?thesis by (cases r) auto
qed

section \<open>Chains from the pool\<close>

fun tot_plus :: "'a mstate_scheme \<Rightarrow> nat \<Rightarrow> nat list \<Rightarrow> bool" where
  "tot_plus w r [] = True"
| "tot_plus w r (a # ps) = (unat (ptot (pbufs w a)) = unat (plen (pbufs w a)) + lens w ps + r \<and> tot_plus w r ps)"

lemma tot_plus_0: "tot_plus w 0 ps = tot_ok w ps"
  by (induction ps) auto

definition with_elems :: "nat list \<Rightarrow> tables \<Rightarrow> tables" where
  "with_elems ps T = (fst T, (snd T)(MEMP_PBUF_POOL := (\<lambda>a. if a \<in> set ps then Some 1540 else snd T MEMP_PBUF_POOL a)))"

definition pool_pbuf :: "pbuf \<Rightarrow> nat \<Rightarrow> bool" where
  "pool_pbuf b a \<longleftrightarrow>
     pref b = 1 \<and> type_internal b = 0x82 \<and> a + 16 \<le> payload b \<and> payload b + unat (plen b) \<le> a + 1540"

text \<open>The loop invariant: \<open>ps\<close> are the elements taken so far, \<open>r\<close> bytes remain.\<close>

definition building :: "'a mstate_scheme \<Rightarrow> 'a mstate_scheme \<Rightarrow> nat list \<Rightarrow> nat \<Rightarrow> bool" where
  "building w0 w ps r \<longleftrightarrow>
     mem_ok w \<and> same_data w0 w \<and> desc (pl w) = desc (pl w0) \<and> tables w = with_elems ps (tables w0) \<and>
     (\<forall>a\<in>set ps. snd (tables w0) MEMP_PBUF_POOL a = None \<and> pool_pbuf (pbufs w a) a) \<and>
     (\<forall>a. a \<notin> set ps \<longrightarrow> pbufs w a = pbufs w0 a) \<and>
     lseg (nxts w) (if ps = [] then None else Some (hd ps)) ps \<and> tot_plus w r ps"

lemma pool_source: "type_internal b = 0x82 \<Longrightarrow> source_of b = Some (Pool MEMP_PBUF_POOL)"
  by (simp add: source_of_def pbuf_get_allocsrc_def pbuf_type_defs)

lemma give_back_elems:
  assumes "\<forall>a\<in>set ps. source_of (pbufs w a) = Some (Pool MEMP_PBUF_POOL) \<and> snd T MEMP_PBUF_POOL a = None" "distinct ps"
  shows "give_back w ps (with_elems ps T) = T"
  using assms
proof (induction ps)
  case Nil
  then show ?case by (cases T) (simp add: with_elems_def)
next
  case (Cons a ps)
  then have "set_entry (Pool MEMP_PBUF_POOL) a None (with_elems (a # ps) T) = with_elems ps T"
    by (auto simp: with_elems_def fun_eq_iff)
  then show ?case using Cons by simp
qed

lemma building_fresh:
  assumes "building w0 w ps 0" "ps \<noteq> []" "lens w ps = unat len"
  shows "fresh_packet w0 w (hd ps) ps len"
proof -
  have b: "lseg (nxts w) (Some (hd ps)) ps" "tot_ok w ps" "mem_ok w" "same_data w0 w" "tables w = with_elems ps (tables w0)"
    "\<forall>a\<in>set ps. snd (tables w0) MEMP_PBUF_POOL a = None \<and> pool_pbuf (pbufs w a) a" "\<forall>a. a \<notin> set ps \<longrightarrow> pbufs w a = pbufs w0 a"
    using assms by (auto simp: building_def tot_plus_0)
  have src: "\<forall>a\<in>set ps. source_of (pbufs w a) = Some (Pool MEMP_PBUF_POOL)" using b(6) pool_source by (auto simp: pool_pbuf_def)
  have "give_back w ps (tables w) = tables w0"
    using give_back_elems [of ps w "tables w0"] src b lseg_distinct by auto
  moreover have "fresh_pbuf w0 w a" if "a \<in> set ps" for a
    unfolding fresh_pbuf_def using that b(5,6) src
    by (intro conjI exI [of _ "Pool MEMP_PBUF_POOL"] exI [of _ 1540]) (auto simp: pool_pbuf_def with_elems_def)
  ultimately show ?thesis using assms(2,3) b by (auto simp: fresh_packet_def packet_def)
qed

lemma lseg_extend:
  "lseg L (Some p) ps \<Longrightarrow> q \<notin> set ps \<Longrightarrow> ps \<noteq> [] \<Longrightarrow> L' (last ps) = Some q \<Longrightarrow> L' q = None \<Longrightarrow>
     (\<And>a. a \<in> set ps \<Longrightarrow> a \<noteq> last ps \<Longrightarrow> L' a = L a) \<Longrightarrow> lseg L' (Some p) (ps @ [q])"
proof (induction ps arbitrary: p)
  case (Cons a ps)
  show ?case
  proof (cases "ps = []")
    case False
    have "a \<noteq> last ps" using lseg_distinct [OF Cons.prems(1)] False by auto
    moreover obtain b where "L a = Some b" "lseg L (Some b) ps" using Cons.prems False by (cases ps) auto
    ultimately show ?thesis using Cons.IH [of b] Cons.prems False by auto
  qed (use Cons.prems in simp)
qed simp

lemma lens_cong: "(\<And>a. a \<in> set ps \<Longrightarrow> plen (pbufs w a) = plen (pbufs w' a)) \<Longrightarrow> lens w ps = lens w' ps"
  by (induction ps) auto

lemma tot_plus_pending [simp]: "tot_plus (w\<lparr>ooseq_pending := b\<rparr>) r ps = tot_plus w r ps"
  by (induction ps) (auto simp: lens_def)

lemma tot_plus_extend:
  assumes "tot_plus w r ps" "\<And>a. a \<in> set ps \<Longrightarrow> plen (pbufs w' a) = plen (pbufs w a) \<and> ptot (pbufs w' a) = ptot (pbufs w a)"
    "unat (ptot (pbufs w' q)) = r" "unat (plen (pbufs w' q)) \<le> r"
  shows "tot_plus w' (r - unat (plen (pbufs w' q))) (ps @ [q])"
  using assms
proof (induction ps)
  case (Cons a ps)
  have "lens w' ps = lens w ps" by (rule lens_cong) (use Cons.prems in auto)
  then show ?case using Cons by auto
qed simp

lemma building_extend:
  assumes b: "building w0 w ps r" and q: "pools_ok s" "desc s = desc (pl w)" "\<forall>u. u \<noteq> MEMP_PBUF_POOL \<longrightarrow> pool_live u s = pool_live u (pl w)"
      "pool_live MEMP_PBUF_POOL (pl w) q = None" "pool_live MEMP_PBUF_POOL s = (pool_live MEMP_PBUF_POOL (pl w))(q \<mapsto> 1540)"
    and l: "unat qlen \<le> unat r'" "r = unat r'" "q + 16 \<le> pay" "pay + unat qlen \<le> q + 1540"
    and w2: "w2 = pbuf_init_alloced_pbuf q pay r' qlen PBUF_POOL 0 (w\<lparr>pl := s\<rparr>)"
    and w3: "w3 = (if ps = [] then w2 else set_pbuf (last ps) (\<lambda>b. b\<lparr>nxt := Some q\<rparr>) w2)"
  shows "building w0 w3 (ps @ [q]) (r - unat qlen)"
proof -
  have w: "mem_ok w" "same_data w0 w" "tables w = with_elems ps (tables w0)"
    "\<forall>a\<in>set ps. snd (tables w0) MEMP_PBUF_POOL a = None \<and> pool_pbuf (pbufs w a) a"
    "\<forall>a. a \<notin> set ps \<longrightarrow> pbufs w a = pbufs w0 a" "lseg (nxts w) (if ps = [] then None else Some (hd ps)) ps" "tot_plus w r ps"
    using b by (auto simp: building_def)
  have "snd (with_elems ps (tables w0)) MEMP_PBUF_POOL q = None"
    unfolding w(3) [symmetric] using q(4) by (simp add: tables_def)
  then have qn: "q \<notin> set ps" "snd (tables w0) MEMP_PBUF_POOL q = None" by (auto simp: with_elems_def split: if_splits)
  have pq: "pbufs w3 q = \<lparr>nxt = None, payload = pay, ptot = r', plen = qlen, type_internal = 0x82, pflags = 0, pref = 1, if_idx = 0\<rparr>"
    using qn(1) by (auto simp: w3 w2 pbuf_init_alloced_pbuf_def set_pbuf_def dest: last_in_set)
  have pa: "pbufs w3 a = (if ps \<noteq> [] \<and> a = last ps then (pbufs w a)\<lparr>nxt := Some q\<rparr> else pbufs w a)" if "a \<noteq> q" for a
    using that by (auto simp: w3 w2 pbuf_init_alloced_pbuf_def set_pbuf_def)
  have rest: "hp w3 = hp w" "pl w3 = s" "same_data w w3"
    by (auto simp: w3 w2 pbuf_init_alloced_pbuf_def set_pbuf_def same_data_def)
  have "tables w3 = with_elems (ps @ [q]) (tables w0)"
  proof -
    have "tables w3 = set_entry (Pool MEMP_PBUF_POOL) q (Some 1540) (tables w)"
      using q(3,5) rest by (auto simp: tables_def fun_eq_iff)
    then show ?thesis by (auto simp: w(3) with_elems_def fun_eq_iff)
  qed
  moreover have "mem_ok w3" using w(1) q(1,2) rest by (simp add: mem_ok_def)
  moreover have "same_data w0 w3" using same_data_trans w(2) rest(3) by blast
  moreover have "lseg (nxts w3) (Some (hd (ps @ [q]))) (ps @ [q])"
  proof (cases "ps = []")
    case False
    have "a \<in> set ps \<Longrightarrow> a \<noteq> last ps \<Longrightarrow> nxts w3 a = nxts w a" for a using pa [of a] qn(1) by (cases "a = q") auto
    moreover have "last ps \<noteq> q" using False qn(1) last_in_set by metis
    ultimately show ?thesis
      using lseg_extend [of "nxts w" "hd ps" ps q "nxts w3"] w(6) False qn(1) pq pa [of "last ps"] by auto
  qed (simp add: pq)
  moreover have "tot_plus w3 (r - unat qlen) (ps @ [q])"
  proof -
    have "plen (pbufs w3 a) = plen (pbufs w a) \<and> ptot (pbufs w3 a) = ptot (pbufs w a)" if "a \<in> set ps" for a
      using pa [of a] that qn(1) by (cases "a = q") auto
    then show ?thesis using tot_plus_extend [OF w(7), of w3 q] l(1,2) by (simp add: pq)
  qed
  moreover have "\<forall>a\<in>set (ps @ [q]). snd (tables w0) MEMP_PBUF_POOL a = None \<and> pool_pbuf (pbufs w3 a) a"
  proof
    fix a
    assume "a \<in> set (ps @ [q])"
    then show "snd (tables w0) MEMP_PBUF_POOL a = None \<and> pool_pbuf (pbufs w3 a) a"
      using w(4) qn l(3,4) pa [of a] by (cases "a = q") (auto simp: pq pool_pbuf_def)
  qed
  moreover have "\<forall>a. a \<notin> set (ps @ [q]) \<longrightarrow> pbufs w3 a = pbufs w0 a"
    using w(5) pa by (auto dest: last_in_set)
  moreover have "desc (pl w3) = desc (pl w0)" using b q(2) rest(2) by (simp add: building_def)
  ultimately show ?thesis by (simp add: building_def)
qed

lemma building_abandon:
  assumes "building w0 w ps r" "ps \<noteq> []"
  shows "\<exists>c w'. pbuf_free (Some (hd ps)) w = Some (c, w') \<and> mem_ok w' \<and> tables w' = tables w0 \<and> same_data w w'"
proof -
  have b: "lseg (nxts w) (Some (hd ps)) ps" "mem_ok w" "tables w = with_elems ps (tables w0)"
    "\<forall>a\<in>set ps. snd (tables w0) MEMP_PBUF_POOL a = None \<and> pool_pbuf (pbufs w a) a"
    using assms by (auto simp: building_def)
  have src: "\<forall>a\<in>set ps. source_of (pbufs w a) = Some (Pool MEMP_PBUF_POOL)" using b(4) pool_source by (auto simp: pool_pbuf_def)
  then have h: "\<forall>a\<in>set ps. held w a \<and> pref (pbufs w a) \<noteq> 0"
    using b(3,4) by (auto simp: held_def with_elems_def pool_pbuf_def)
  have "drops w ps = length ps"
    using b(4) by (simp add: drops_def pool_pbuf_def takeWhile_eq_all_conv [THEN iffD2])
  moreover have "give_back w ps (tables w) = tables w0"
    using give_back_elems [of ps w "tables w0"] src b lseg_distinct by auto
  ultimately show ?thesis
    using free_loop_spec [OF b(2,1) h, of 0] by (auto simp: pbuf_free_def)
qed

lemma alloc_pool_loop_spec:
  assumes "building w0 w ps (unat rem)" "lens w ps + unat rem = unat len" "unat offset \<le> 54"
  shows "\<exists>r w'. alloc_pool_loop (if ps = [] then None else Some (hd ps)) (if ps = [] then None else Some (last ps)) rem offset w = Some (r, w') \<and>
    (case r of
       None \<Rightarrow> mem_ok w' \<and> tables w' = tables w0 \<and> ram_bytes w' = ram_bytes w0
     | Some p \<Rightarrow> \<exists>ps. ps \<noteq> [] \<and> p = hd ps \<and> building w0 w' ps 0 \<and> lens w' ps = unat len)"
  using assms
proof (induction "unat rem" arbitrary: rem w ps offset rule: less_induct)
  case less
  let ?p = "if ps = [] then None else Some (hd ps)" and ?l = "if ps = [] then None else Some (last ps)"
  let ?off = "LWIP_MEM_ALIGN_SIZE (unat offset)"
  have b: "mem_ok w" "tables w = with_elems ps (tables w0)" "same_data w0 w" using less.prems(1) by (auto simp: building_def)
  have off: "?off < unat offset + 4" "?off \<le> 57" using align_ge [of "unat offset"] less.prems(3) by auto
  obtain r s where r: "memp_malloc MEMP_PBUF_POOL (pl w) = Some (r, s)" "pools_ok s" "desc s = desc (pl w)"
    "\<forall>u. u \<noteq> MEMP_PBUF_POOL \<longrightarrow> pool_live u s = pool_live u (pl w)"
    "case r of None \<Rightarrow> s = pl w
     | Some p \<Rightarrow> pool_live MEMP_PBUF_POOL (pl w) p = None \<and> p \<in> set (elems (desc (pl w) MEMP_PBUF_POOL)) \<and>
         pool_live MEMP_PBUF_POOL s = (pool_live MEMP_PBUF_POOL (pl w))(p \<mapsto> dsize (desc (pl w) MEMP_PBUF_POOL))"
    using memp_malloc_live [of "pl w" MEMP_PBUF_POOL] b(1) by (auto simp: mem_ok_def)
  show ?case
  proof (cases r)
    case None
    let ?w = "w\<lparr>ooseq_pending := True\<rparr>"
    have w: "pool_malloc MEMP_PBUF_POOL w = Some (None, w)" using None r by (simp add: pool_malloc_def)
    show ?thesis
    proof (cases "ps = []")
      case True
      then have "alloc_pool_loop ?p ?l rem offset w = Some (None, ?w)"
        using w by (subst alloc_pool_loop.simps) (simp add: pbuf_pool_is_empty_def)
      then show ?thesis using b True by (auto simp: mem_ok_def tables_def same_data_def with_elems_def)
    next
      case False
      have "building (w0\<lparr>ooseq_pending := True\<rparr>) ?w ps (unat rem)"
        using less.prems(1) by (auto simp: building_def mem_ok_def same_data_def tables_def) 
      from building_abandon [OF this False] obtain c w' where
        "pbuf_free (Some (hd ps)) ?w = Some (c, w')" "mem_ok w'" "tables w' = tables w0" "same_data ?w w'"
        by (auto simp: tables_def)
      then show ?thesis using w False b
        by (subst alloc_pool_loop.simps) (auto simp: pbuf_pool_is_empty_def same_data_def)
    qed
  next
    case (Some q)
    have sz: "dsize (desc (pl w) MEMP_PBUF_POOL) = 1540" and pok: "pools_ok (pl w)" using b(1) by (simp_all add: mem_ok_def)
    have q: "pool_live MEMP_PBUF_POOL (pl w) q = None" "pool_live MEMP_PBUF_POOL s = (pool_live MEMP_PBUF_POOL (pl w))(q \<mapsto> 1540)"
      and qe: "q \<in> set (elems (desc (pl w) MEMP_PBUF_POOL))"
      using r(5) Some sz by auto
    have q4: "4 dvd q" using pools_inv_aligned qe pok by (auto simp: pools_ok_iff)
    have pay: "LWIP_MEM_ALIGN (q + 16 + unat offset) = q + 16 + ?off" by (rule LWIP_MEM_ALIGN_base [OF q4])
    define qlen where "qlen = min rem (of_nat (1524 - ?off))"
    have cap: "unat (of_nat (1524 - ?off) :: u16) = 1524 - ?off" by (rule unat_of_nat_small) simp
    then have ql: "unat qlen = min (unat rem) (1524 - ?off)" by (auto simp: qlen_def min_def word_le_nat_alt)
    then have rm: "unat (rem - qlen) = unat rem - unat qlen" by (simp add: unat_sub word_le_nat_alt)
    define w2 where "w2 = pbuf_init_alloced_pbuf q (q + 16 + ?off) rem qlen PBUF_POOL 0 (w\<lparr>pl := s\<rparr>)"
    define w3 where "w3 = (if ps = [] then w2 else set_pbuf (last ps) (\<lambda>b. b\<lparr>nxt := Some q\<rparr>) w2)"
    have bld: "building w0 w3 (ps @ [q]) (unat (rem - qlen))"
      unfolding rm by (rule building_extend [OF less.prems(1) r(2-4) q _ _ _ _ w2_def w3_def]) (use ql off in auto)
    have pw: "payload (pbufs w2 q) = q + 16 + ?off" by (simp add: w2_def pbuf_init_alloced_pbuf_def set_pbuf_def)
    have step: "alloc_pool_loop ?p ?l rem offset w =
        (if rem - qlen > 0 then alloc_pool_loop (Some (hd (ps @ [q]))) (Some q) (rem - qlen) 0 w3 else Some (Some (hd (ps @ [q])), w3))"
      using r(1) Some q4 pw by (subst alloc_pool_loop.simps)
        (auto simp: pool_malloc_def Let_def layout_simps pay qlen_def [symmetric] w2_def [symmetric] w3_def hd_append mod_add_eq)
    have "lens w3 (ps @ [q]) + unat (rem - qlen) = unat len"
    proof -
      have "q \<notin> set ps" using bld lseg_distinct by (fastforce simp: building_def)
      then have "lens w3 ps = lens w ps" "plen (pbufs w3 q) = qlen"
        by (auto simp: w3_def w2_def pbuf_init_alloced_pbuf_def set_pbuf_def intro!: lens_cong)
      then show ?thesis using less.prems(2) rm ql by simp
    qed
    note next_inv = bld this
    show ?thesis
    proof (cases "rem - qlen > 0")
      case True
      then have "0 < unat (rem - qlen)" by (simp add: word_less_nat_alt)
      then have "unat (rem - qlen) < unat rem" using rm ql off by auto
      from less.hyps [OF this next_inv, of 0] show ?thesis using step True by simp
    next
      case False
      then have "unat (rem - qlen) = 0" by (simp add: word_less_nat_alt)
      then show ?thesis using next_inv step False by (auto intro!: exI [of _ "ps @ [q]"])
    qed
  qed
qed

section \<open>Properties\<close>

lemma pbuf_alloc_pool_building:
  assumes "mem_ok w"
  shows "\<exists>r w'. pbuf_alloc layer len PBUF_POOL w = Some (r, w') \<and>
    (case r of
       None \<Rightarrow> mem_ok w' \<and> tables w' = tables w \<and> ram_bytes w' = ram_bytes w
     | Some p \<Rightarrow> \<exists>ps. ps \<noteq> [] \<and> p = hd ps \<and> building w w' ps 0 \<and> lens w' ps = unat len)"
proof -
  have "building w w [] (unat len)"
    using assms by (simp add: building_def same_data_def with_elems_def)
  from alloc_pool_loop_spec [OF this, of len "layer_offset layer"] show ?thesis
    using layer_offset_le(1) [of layer] by (simp add: pbuf_alloc_def)
qed

lemma pbuf_alloc_pool:
  assumes "mem_ok w"
  shows "\<exists>r w'. pbuf_alloc layer len PBUF_POOL w = Some (r, w') \<and>
    (case r of
       None \<Rightarrow> mem_ok w' \<and> tables w' = tables w \<and> ram_bytes w' = ram_bytes w
     | Some p \<Rightarrow> \<exists>ps. fresh_packet w w' p ps len)"
  using pbuf_alloc_pool_building [OF assms, of layer len] building_fresh [of w]
  by (fastforce split: option.splits)

text \<open>
  C27: Allocating a packet in the heap or from the pool always returns. On success the packet has the requested length, in
  pbufs that were not in use, each with one reference and its payload inside the memory allocated for it and behind
  the pbuf structure; all other pbufs and the data in memory are unchanged. On failure nothing remains allocated,
  even if the pool ran out in the middle of a chain.
\<close>

theorem pbuf_alloc_fresh:
  assumes "mem_ok w" "type = PBUF_RAM \<or> type = PBUF_POOL"
  shows "\<exists>r w'. pbuf_alloc layer len type w = Some (r, w') \<and>
    (case r of
       None \<Rightarrow> mem_ok w' \<and> tables w' = tables w \<and> ram_bytes w' = ram_bytes w
     | Some p \<Rightarrow> \<exists>ps. fresh_packet w w' p ps len)"
  using assms(2)
proof
  assume "type = PBUF_RAM"
  then show ?thesis using pbuf_alloc_ram [OF assms(1), of layer len] assms(1) by (fastforce split: option.splits)
next
  assume "type = PBUF_POOL"
  then show ?thesis using pbuf_alloc_pool [OF assms(1)] by simp
qed

lemma sample_ok: "mem_ok (sample\<lparr>pl := memp_init pools0\<rparr>)"
  using heap0_ok memp_init_inv [of pools0] desc0_ok
  by (auto simp: mem_ok_def sample_def pools_ok_iff pools0_def desc0_def)

theorem pbuf_alloc_fresh_witness:
  "mem_ok (sample\<lparr>pl := memp_init pools0\<rparr>) \<and>
   (\<exists>r w'. pbuf_alloc PBUF_RAW 3000 PBUF_POOL (sample\<lparr>pl := memp_init pools0\<rparr>) = Some (r, w') \<and>
     (case r of None \<Rightarrow> tables w' = tables (sample\<lparr>pl := memp_init pools0\<rparr>)
      | Some p \<Rightarrow> \<exists>ps. lens w' ps = 3000))"
  using pbuf_alloc_fresh [OF sample_ok, of PBUF_POOL PBUF_RAW 3000] sample_ok
  by (fastforce simp: fresh_packet_def split: option.splits)

text \<open>
  C28: \<open>pbuf_free\<close> follows the reference counts: it deallocates the pbufs at the front of the chain that have one
  reference, returns their number, takes one reference from the first pbuf that has more, and changes nothing else.
  Exactly the memory of the deallocated pbufs goes back to where it came from.
\<close>

theorem pbuf_free_refcount:
  assumes "mem_ok w" "lseg (nxts w) (Some p) ps" "\<forall>a\<in>set ps. held w a \<and> pref (pbufs w a) \<noteq> 0"
  shows "\<exists>w'. pbuf_free (Some p) w = Some (of_nat (drops w ps), w') \<and> mem_ok w' \<and>
    tables w' = give_back w (take (drops w ps) ps) (tables w) \<and> ram_bytes w' = ram_bytes w \<and>
    (\<forall>a. a \<notin> set ps \<longrightarrow> pbufs w' a = pbufs w a) \<and>
    (\<forall>a\<in>set (drop (drops w ps) ps). pbufs w' a =
       (if a = ps ! drops w ps then (pbufs w a)\<lparr>pref := pref (pbufs w a) - 1\<rparr> else pbufs w a))"
  using free_loop_spec [OF assms, of 0] by (auto simp: pbuf_free_def same_data_def)

definition sample_ram :: mstate where
  "sample_ram = sample\<lparr>hp := heap1 False, pl := memp_init pools0, pbufs := (\<lambda>_.
     \<lparr>nxt = None, payload = 32, ptot = 10, plen = 10, type_internal = 0x80, pflags = 0, pref = 1, if_idx = 0\<rparr>)\<rparr>"

lemma sample_ram_held: "mem_ok sample_ram" "lseg (nxts sample_ram) (Some 16) [16]" "held sample_ram 16" "pref (pbufs sample_ram 16) = 1"
proof -
  have "live (heap1 False) = owned 8 [(1000, True), (2072, False)]"
    by (simp add: live_def heap1_blocks heap1_ram)
  then have "live (heap1 False) 16 = Some 992" by simp
  then show "held sample_ram 16"
    by (auto simp: held_def sample_ram_def tables_def source_of_def pbuf_get_allocsrc_def pbuf_type_defs)
qed (use sample_ok heap1_ok in \<open>auto simp: sample_ram_def mem_ok_def\<close>)

theorem pbuf_free_refcount_witness:
  "mem_ok sample_ram \<and> lseg (nxts sample_ram) (Some 16) [16] \<and> held sample_ram 16 \<and> pref (pbufs sample_ram 16) = 1 \<and>
   (\<exists>w'. pbuf_free (Some 16) sample_ram = Some (1, w') \<and> mem_ok w')"
  using pbuf_free_refcount [of sample_ram 16 "[16]"] sample_ram_held by (auto simp: drops_def)

text \<open>C29: A packet that is allocated and freed leaves the heap and the pools as they were: nothing leaks.\<close>

theorem pbuf_alloc_free_no_leak:
  assumes "mem_ok w" "type = PBUF_RAM \<or> type = PBUF_POOL" "pbuf_alloc layer len type w = Some (Some p, w')"
  shows "\<exists>c w''. pbuf_free (Some p) w' = Some (c, w'') \<and> mem_ok w'' \<and> tables w'' = tables w \<and> ram_bytes w'' = ram_bytes w"
proof -
  have "\<exists>ps. fresh_packet w w' p ps len"
    using assms pbuf_alloc_ram [OF assms(1), of layer len] pbuf_alloc_pool [OF assms(1), of layer len] by auto
  then show ?thesis using fresh_packet_free by (fastforce simp: same_data_def)
qed

theorem pbuf_alloc_free_no_leak_witness:
  "\<exists>p w' c w''. mem_ok (sample\<lparr>pl := memp_init pools0\<rparr>) \<and>
     pbuf_alloc PBUF_RAW 100 PBUF_RAM (sample\<lparr>pl := memp_init pools0\<rparr>) = Some (Some p, w') \<and>
     pbuf_free (Some p) w' = Some (c, w'') \<and> tables w'' = tables (sample\<lparr>pl := memp_init pools0\<rparr>)"
proof -
  let ?w = "sample\<lparr>pl := memp_init pools0\<rparr>"
  have hp: "hp ?w = heap0" "ram heap0 = 8" by (simp_all add: sample_def heap0_def mem_init_def LWIP_MEM_ALIGN_SIZE_def layout_simps)
  then obtain h' where "mem_malloc 116 heap0 = Some (Some 16, h')"
    using mem_malloc_blocks [of heap0 "blocks_of heap0" 116] heap0_ok
    by (auto simp: heap_ok_def heap0_blocks fit_result_def alloc_spec_def)
  then have "\<exists>w'. pbuf_alloc PBUF_RAW 100 PBUF_RAM ?w = Some (Some 16, w')"
    unfolding pbuf_alloc_def heap_malloc_def hp
    by (simp add: Let_def LWIP_MEM_ALIGN_SIZE_def LWIP_MEM_ALIGN_def layout_simps mem_size_def pbuf_init_alloced_pbuf_def set_pbuf_def)
  then obtain w' where w': "pbuf_alloc PBUF_RAW 100 PBUF_RAM ?w = Some (Some 16, w')" by blast
  from pbuf_alloc_free_no_leak [OF sample_ok _ this] w' show ?thesis using sample_ok by blast
qed

end
