(* ===== verification/Header_Fields.thy ===== *)
theory Header_Fields
  imports Pbuf_Alloc Lwip_Def
begin

text \<open>
  Reading and writing the fields of a packed protocol header in memory: one, two and four bytes in the byte order of
  the machine, which is little-endian, and byte arrays.
\<close>

definition get8 :: "nat \<Rightarrow> 'a mstate_scheme \<Rightarrow> u8" where
  "get8 a w = ram_bytes w a"

definition get16 :: "nat \<Rightarrow> 'a mstate_scheme \<Rightarrow> u16" where
  "get16 a w = le16 (ram_bytes w a) (ram_bytes w (a + 1))"

definition get32 :: "nat \<Rightarrow> 'a mstate_scheme \<Rightarrow> u32" where
  "get32 a w = le_word (fetch (ram_bytes w) a 4)"

definition get_bytes :: "nat \<Rightarrow> nat \<Rightarrow> 'a mstate_scheme \<Rightarrow> bytes" where
  "get_bytes a n w = fetch (ram_bytes w) a n"

definition put_bytes :: "nat \<Rightarrow> bytes \<Rightarrow> 'a mstate_scheme \<Rightarrow> 'a mstate_scheme" where
  "put_bytes a bs w = w\<lparr>ram_bytes := store a bs (ram_bytes w)\<rparr>"

definition put8 :: "nat \<Rightarrow> u8 \<Rightarrow> 'a mstate_scheme \<Rightarrow> 'a mstate_scheme" where
  "put8 a v w = put_bytes a [v] w"

definition put16 :: "nat \<Rightarrow> u16 \<Rightarrow> 'a mstate_scheme \<Rightarrow> 'a mstate_scheme" where
  "put16 a v w = put_bytes a (le16_bytes v) w"

definition put32 :: "nat \<Rightarrow> u32 \<Rightarrow> 'a mstate_scheme \<Rightarrow> 'a mstate_scheme" where
  "put32 a v w = put_bytes a (le_bytes v) w"

end
