(* ===== verification/Pbuf_Frame.thy ===== *)
theory Pbuf_Frame
  imports Header_Fields
begin

text \<open>
  What no operation on packet buffers changes, whether or not the buffers are well formed: where the heap and the pools
  lie in memory, and the part of the state that belongs to the layers above.
\<close>

definition static :: "'a mstate_scheme \<Rightarrow> nat \<times> (memp_t \<Rightarrow> memp_desc) \<times> 'a" where
  "static w = (ram (hp w), desc (pl w), mstate.more w)"

section \<open>The allocators\<close>

lemma set_hdr_ram [simp]: "ram (set_hdr p f h) = ram h"
  by (simp add: set_hdr_def)

lemma plug_ram [simp]: "ram (plug_forward m h) = ram h" "ram (plug_backward m h) = ram h"
  by (simp_all add: plug_forward_def plug_backward_def Let_def)

lemma mem_free_ram: "mem_free p h = Some h' \<Longrightarrow> ram h' = ram h"
  by (auto simp: mem_free_def plug_holes_def Let_def split: option.splits if_splits)

lemma malloc_split_ram: "malloc_split n p h = Some h' \<Longrightarrow> ram h' = ram h"
  by (auto simp: malloc_split_def Let_def split: if_splits)

lemma adjust_lfree_ram: "adjust_lfree p h = Some h' \<Longrightarrow> ram h' = ram h"
  by (auto simp: adjust_lfree_def Let_def split: option.splits if_splits)

lemma malloc_take_ram: "malloc_take n p h = Some y \<Longrightarrow> ram (snd y) = ram h"
  by (auto simp: malloc_take_def split: option.splits if_splits dest!: malloc_split_ram adjust_lfree_ram)

lemma malloc_scan_ram: "malloc_scan n p h = Some y \<Longrightarrow> ram (snd y) = ram h"
  by (erule malloc_scan.raw_induct [rotated]) (auto split: if_splits dest: malloc_take_ram)

lemma mem_malloc_ram: "mem_malloc n h = Some y \<Longrightarrow> ram (snd y) = ram h"
  by (auto simp: mem_malloc_def Let_def split: if_splits dest: malloc_scan_ram)

lemma trim_ram: "trim_move p n h = Some h' \<Longrightarrow> ram h' = ram h" "trim_split p n h = Some h' \<Longrightarrow> ram h' = ram h"
  by (auto simp: trim_move_def trim_split_def Let_def split: if_splits)

lemma mem_trim_ram: "mem_trim p n h = Some y \<Longrightarrow> ram (snd y) = ram h"
proof -
  have aux: "ram (snd y) = ram h"
    if "(if a then Some (None, h) else if b then None else if c then None else if d then Some (Some p, h)
         else if e then (case trim_move q k h of None \<Rightarrow> None | Some h \<Rightarrow> Some (Some p, h))
         else if g then (case trim_split q k h of None \<Rightarrow> None | Some h \<Rightarrow> Some (Some p, h)) else Some (Some p, h)) = Some y"
    for a b c d e g q k
    using that by (auto split: option.splits if_splits dest!: trim_ram)
  show "mem_trim p n h = Some y \<Longrightarrow> ram (snd y) = ram h" unfolding mem_trim_def Let_def by (rule aux)
qed

lemma memp_malloc_desc: "memp_malloc t s = Some y \<Longrightarrow> desc (snd y) = desc s"
  by (auto simp: memp_malloc_def do_memp_malloc_pool_def Let_def split: option.splits if_splits)

lemma memp_free_desc: "memp_free t p s = Some s' \<Longrightarrow> desc s' = desc s"
  by (auto simp: memp_free_def do_memp_free_pool_def push_elem_def split: option.splits if_splits)

section \<open>Packet buffers\<close>

named_theorems static_simps

lemma static_updates [static_simps]:
  "static (set_pbuf p f w) = static w" "static (memcpy d s n w) = static w" "static (put_bytes a bs w) = static w"
  "static (put8 a x w) = static w" "static (put16 a y w) = static w" "static (put32 a z w) = static w"
  "static (pbuf_init_alloced_pbuf p q t l ty fl w) = static w" "static (pbuf_pool_is_empty w) = static w"
  "static (w\<lparr>ram_bytes := m\<rparr>) = static w" "static (w\<lparr>pbufs := b\<rparr>) = static w"
  by (simp_all add: static_def set_pbuf_def memcpy_def put_bytes_def put8_def put16_def put32_def pbuf_init_alloced_pbuf_def
      pbuf_pool_is_empty_def)

lemma heap_static:
  "heap_malloc k w = Some y \<Longrightarrow> static (snd y) = static w" "heap_free p w = Some w' \<Longrightarrow> static w' = static w"
  "heap_trim p k w = Some y \<Longrightarrow> static (snd y) = static w"
  by (auto simp: heap_malloc_def heap_free_def heap_trim_def static_def bind_eq_Some_conv
      dest: mem_malloc_ram mem_free_ram mem_trim_ram)

lemma pool_static:
  "pool_malloc t w = Some y \<Longrightarrow> static (snd y) = static w" "pool_free t p w = Some w' \<Longrightarrow> static w' = static w"
  by (auto simp: pool_malloc_def pool_free_def static_def bind_eq_Some_conv dest: memp_malloc_desc memp_free_desc)

lemma pbuf_dealloc_static: "pbuf_dealloc p w = Some w' \<Longrightarrow> static w' = static w"
  by (auto simp: pbuf_dealloc_def Let_def split: if_splits dest: heap_static pool_static)

lemma free_loop_static: "free_loop p c w = Some y \<Longrightarrow> static (snd y) = static w"
  by (erule free_loop.raw_induct [rotated])
    (auto simp: Let_def bind_eq_Some_conv static_simps split: option.splits if_splits dest!: pbuf_dealloc_static)

lemma pbuf_free_static: "pbuf_free p w = Some y \<Longrightarrow> static (snd y) = static w"
  by (auto simp: pbuf_free_def split: option.splits dest: free_loop_static)

lemma alloc_pool_loop_static: "alloc_pool_loop p l r off w = Some y \<Longrightarrow> static (snd y) = static w"
proof (erule alloc_pool_loop.raw_induct [rotated], goal_cases)
  case (1 f p l r off w y)
  note IH = 1(1) and body = 1(2)
  from body obtain q w1 where a: "pool_malloc MEMP_PBUF_POOL w = Some (q, w1)" by (auto simp: bind_eq_Some_conv)
  then have s: "static w1 = static w" using pool_static(1) [OF a] by simp
  show ?case
  proof (cases q)
    case None
    then show ?thesis using body a s
      by (auto simp: Let_def bind_eq_Some_conv static_simps split: option.splits dest!: pbuf_free_static)
  next
    case (Some q)
    then show ?thesis using body a s
      by (auto simp: Let_def static_simps split: option.splits if_splits dest!: IH)
  qed
qed

lemma pbuf_alloc_static:
  assumes "pbuf_alloc l n t w = Some y"
  shows "static (snd y) = static w"
proof (cases t)
  case PBUF_RAM
  then show ?thesis using assms
    by (auto simp: pbuf_alloc_def Let_def bind_eq_Some_conv static_simps split: option.splits if_splits dest!: heap_static)
next
  case PBUF_POOL
  then show ?thesis using assms by (auto simp: pbuf_alloc_def dest: alloc_pool_loop_static)
qed (use assms in \<open>auto simp: pbuf_alloc_def pbuf_alloc_reference_def bind_eq_Some_conv static_simps
      split: option.splits if_splits dest!: pool_static\<close>)

lemma header_static [static_simps]:
  "static (snd (pbuf_add_header_impl p k b w)) = static w" "static (snd (pbuf_add_header p k w)) = static w"
  "static (snd (pbuf_remove_header p k w)) = static w" "static (snd (pbuf_header_force p j w)) = static w"
  by (simp_all add: pbuf_add_header_impl_def pbuf_add_header_def pbuf_remove_header_def pbuf_header_force_def pbuf_header_impl_def
      Let_def static_simps)

lemma pbuf_ref_static: "pbuf_ref p w = Some w' \<Longrightarrow> static w' = static w"
  by (auto simp: pbuf_ref_def Let_def static_simps split: option.splits if_splits)

lemma realloc_skip_static: "realloc_skip q r s w = Some y \<Longrightarrow> static (snd (snd y)) = static w"
  by (erule realloc_skip.raw_induct [rotated]) (auto simp: Let_def static_simps split: option.splits if_splits)

lemma pbuf_realloc_static:
  assumes "pbuf_realloc p n w = Some w'"
  shows "static w' = static w"
proof (cases "\<exists>q. p = Some q \<and> n < ptot (pbufs w q)")
  case False
  then show ?thesis using assms by (auto simp: pbuf_realloc_def not_less split: option.splits)
next
  case True
  then obtain a where p: "p = Some a" "\<not> ptot (pbufs w a) \<le> n" by auto
  obtain q r w1 where 1: "realloc_skip a n (ptot (pbufs w a) - n) w = Some (q, r, w1)"
    using assms p by (cases "realloc_skip a n (ptot (pbufs w a) - n) w") (auto simp: pbuf_realloc_def)
  define trim where "trim = (if pbuf_get_allocsrc (pbufs w1 q) = PBUF_TYPE_ALLOC_SRC_MASK_STD_HEAP \<and> r \<noteq> plen (pbufs w1 q)
     then heap_trim q (mem_size (usub (payload (pbufs w1 q)) q + unat r)) w1 else Some (Some q, w1))"
  have r: "pbuf_realloc p n w = Option.bind trim (\<lambda>(q, w). case q of None \<Rightarrow> None
      | Some q \<Rightarrow> do {
          let w = set_pbuf q (\<lambda>b. b\<lparr>plen := r, ptot := r\<rparr>) w;
          w \<leftarrow> (case nxt (pbufs w q) of None \<Rightarrow> Some w | Some n \<Rightarrow> do { (_, w) \<leftarrow> pbuf_free (Some n) w; Some w });
          Some (set_pbuf q (\<lambda>b. b\<lparr>nxt := None\<rparr>) w)
        })"
    using p 1 by (simp add: pbuf_realloc_def trim_def)
  obtain q2 w2 where 2: "trim = Some (Some q2, w2)"
    using assms unfolding r by (cases trim) (auto split: option.splits)
  have "static w1 = static w" using realloc_skip_static [OF 1] by simp
  moreover have "static w2 = static w1" using 2 heap_static(3) by (fastforce simp: trim_def split: if_splits)
  moreover have "static w' = static w2"
    using assms unfolding r 2
    by (auto simp: static_simps bind_eq_Some_conv Let_def split: option.splits dest!: pbuf_free_static)
  ultimately show ?thesis by simp
qed

lemma copy_loop_static: "copy_loop a b n i j w = Some y \<Longrightarrow> static (snd y) = static w"
proof (erule copy_loop.raw_induct [rotated], goal_cases)
  case (1 f a b n i j w y)
  have aux: "static (snd y) = static w"
    if "(if A then None
         else case X of (x, p) \<Rightarrow>
           if B p then Some (e1, v)
           else case Y of (z, q) \<Rightarrow>
             if C q then Some (e2, v) else if D p then Some (e3, v) else if E q then Some (e4, v)
             else if F then Some (e5, v) else f (the q) (the p) k z x v) = Some y" "static v = static w"
    for A X B Y C D E F k v e1 e2 e3 e4 e5
    using that 1(1) by (auto split: if_splits prod.splits)
  show ?case by (rule aux [OF 1(2) [unfolded Let_def]]) (simp add: static_simps)
qed

lemma pbuf_copy_static: "pbuf_copy a b w = Some y \<Longrightarrow> static (snd y) = static w"
  by (auto simp: pbuf_copy_def pbuf_copy_partial_pbuf_def split: option.splits if_splits dest: copy_loop_static)

lemma pbuf_clone_static: "pbuf_clone l t p w = Some y \<Longrightarrow> static (snd y) = static w"
  by (auto simp: pbuf_clone_def bind_eq_Some_conv split: option.splits if_splits dest!: pbuf_alloc_static pbuf_copy_static)

end
