(* ===== verification/Ethernetif.thy ===== *)
theory Ethernetif
  imports Pbuf_Frame
begin

text \<open>
  The driver of the LiteEth MAC, \<^verbatim>\<open>firmware-tcp/ethernetif.c\<close>. The MAC itself is not part of the repository: the values
  its registers return are fields of the state, which any environment may set, and what the driver tells the MAC to
  transmit is recorded. The receive and transmit slots are memory like any other.
\<close>

section \<open>The MAC as the driver sees it\<close>

definition ETHMAC_SLOT_SIZE :: nat where [layout_simps]: "ETHMAC_SLOT_SIZE = 2048"
definition ETHMAC_RX_SLOTS :: nat where [layout_simps]: "ETHMAC_RX_SLOTS = 2"
definition ETHMAC_TX_SLOTS :: nat where [layout_simps]: "ETHMAC_TX_SLOTS = 2"
definition ETH_HWADDR_LEN :: nat where [layout_simps]: "ETH_HWADDR_LEN = 6"

text \<open>
  \<open>reader_ready\<close> gives the outcome of each successive read of the ready register; \<open>sent\<close> lists the slot and the bytes of
  each transmission that was started.
\<close>

record ethmac =
  mac_base :: nat
  reader_ready :: "nat \<Rightarrow> bool"
  reader_polls :: nat
  reader_slot :: u32
  reader_length :: u32
  sent :: "(u32 \<times> bytes) list"
  writer_pending :: bool
  writer_slot :: u32
  writer_length :: u32
  reader_pending :: bool
  leds :: u8

record dstate = mstate +
  netifs :: "nat \<Rightarrow> netif"
  mac :: ethmac
  txslot :: u32

definition set_mac :: "(ethmac \<Rightarrow> ethmac) \<Rightarrow> 'a dstate_scheme \<Rightarrow> 'a dstate_scheme" where
  "set_mac f w = w\<lparr>mac := f (mac w)\<rparr>"

definition set_netif :: "nat \<Rightarrow> (netif \<Rightarrow> netif) \<Rightarrow> 'a dstate_scheme \<Rightarrow> 'a dstate_scheme" where
  "set_netif n f w = w\<lparr>netifs := (netifs w)(n := f (netifs w n))\<rparr>"

definition debug_leds_out_write :: "u8 \<Rightarrow> 'a dstate_scheme \<Rightarrow> 'a dstate_scheme" where
  "debug_leds_out_write v w = set_mac (\<lambda>m. m\<lparr>leds := v\<rparr>) w"

definition tx_slot_addr :: "u32 \<Rightarrow> 'a dstate_scheme \<Rightarrow> nat" where
  "tx_slot_addr s w = mac_base (mac w) + ETHMAC_SLOT_SIZE * (ETHMAC_RX_SLOTS + unat s)"

definition ethmac_sram_reader_start_write :: "'a dstate_scheme \<Rightarrow> 'a dstate_scheme" where
  "ethmac_sram_reader_start_write w =
     set_mac (\<lambda>m. m\<lparr>sent := sent m @
       [(reader_slot m, get_bytes (tx_slot_addr (reader_slot m) w) (unat (reader_length m)) w)]\<rparr>) w"

section \<open>Transmit\<close>

definition tx_buf :: "'a dstate_scheme \<Rightarrow> nat" where
  "tx_buf w = tx_slot_addr (txslot w) w"

partial_function (option) wait_ready :: "'a dstate_scheme \<Rightarrow> 'a dstate_scheme option" where
  "wait_ready w =
     (let r = reader_ready (mac w) (reader_polls (mac w)); w = set_mac (\<lambda>m. m\<lparr>reader_polls := reader_polls m + 1\<rparr>) w
      in if r then Some w else wait_ready w)"

text \<open>The loop that flattens the chain returns \<open>None\<close> as the length when the frame is too large.\<close>

partial_function (option) tx_copy ::
  "nat option \<Rightarrow> nat \<Rightarrow> u32 \<Rightarrow> 'a dstate_scheme \<Rightarrow> (u32 option \<times> 'a dstate_scheme) option" where
  "tx_copy q dst len w =
     (case q of
        None \<Rightarrow> Some (Some len, w)
      | Some q \<Rightarrow>
          (let qlen = plen (pbufs w q)
           in if unat (len + ucast qlen) > ETHMAC_SLOT_SIZE then Some (None, w)
              else tx_copy (nxt (pbufs w q)) dst (len + ucast qlen) (memcpy (dst + unat len) (payload (pbufs w q)) (unat qlen) w)))"

definition low_level_output :: "nat \<Rightarrow> nat \<Rightarrow> 'a dstate_scheme \<Rightarrow> (err_t \<times> 'a dstate_scheme) option" where
  "low_level_output nif p w = do {
     w \<leftarrow> wait_ready (debug_leds_out_write 0x0E w);
     let w = debug_leds_out_write 0x0F w;
     (len, w) \<leftarrow> tx_copy (Some p) (tx_buf w) 0 w;
     case len of
       None \<Rightarrow> Some (ERR_BUF, w)
     | Some len \<Rightarrow>
         (let w = set_mac (\<lambda>m. m\<lparr>reader_slot := txslot w, reader_length := len\<rparr>) w;
              w = ethmac_sram_reader_start_write w;
              w = w\<lparr>txslot := (txslot w + 1) mod of_nat ETHMAC_TX_SLOTS\<rparr>
          in Some (ERR_OK, debug_leds_out_write 0x0B w))
   }"

section \<open>Receive\<close>

partial_function (option) rx_copy ::
  "nat option \<Rightarrow> nat \<Rightarrow> u32 \<Rightarrow> u32 \<Rightarrow> 'a dstate_scheme \<Rightarrow> 'a dstate_scheme option" where
  "rx_copy q src copied rxlen w =
     (case q of
        None \<Rightarrow> Some w
      | Some q \<Rightarrow>
          (let qlen = ucast (plen (pbufs w q));
               chunk = (if copied + qlen \<le> rxlen then qlen else rxlen - copied)
           in rx_copy (nxt (pbufs w q)) src (copied + chunk) rxlen
                (memcpy (payload (pbufs w q)) (src + unat copied) (unat chunk) w)))"

definition low_level_input :: "nat \<Rightarrow> 'a dstate_scheme \<Rightarrow> (nat option \<times> 'a dstate_scheme) option" where
  "low_level_input nif w =
     (if \<not> writer_pending (mac w) then Some (None, w)
      else do {
        let rxlen = writer_length (mac w);
        let src = mac_base (mac w) + ETHMAC_SLOT_SIZE * unat (writer_slot (mac w));
        (p, w) \<leftarrow> pbuf_alloc PBUF_RAW (ucast rxlen) PBUF_POOL w;
        w \<leftarrow> (case p of None \<Rightarrow> Some w | Some _ \<Rightarrow> rx_copy p src 0 rxlen w);
        Some (p, set_mac (\<lambda>m. m\<lparr>writer_pending := False\<rparr>) w)
      })"

section \<open>Initialisation\<close>

definition fpga_mac :: bytes where
  "fpga_mac = [0x02, 0x00, 0x00, 0x00, 0x00, 0x01]"

definition ethernetif_init :: "nat \<Rightarrow> 'a dstate_scheme \<Rightarrow> err_t \<times> 'a dstate_scheme" where
  "ethernetif_init n w =
     (let w = set_netif n (\<lambda>f. f\<lparr>hwaddr_len := of_nat ETH_HWADDR_LEN, hwaddr := fpga_mac, mtu := 1500,
                netif_flags := NETIF_FLAG_BROADCAST OR NETIF_FLAG_ETHARP OR NETIF_FLAG_LINK_UP,
                nif_output := Etharp_output, nif_linkoutput := Low_level_output\<rparr>) w;
          w = set_mac (\<lambda>m. m\<lparr>writer_pending := False, reader_pending := False\<rparr>) w
      in (ERR_OK, w\<lparr>txslot := 0\<rparr>))"

section \<open>What the driver changes\<close>

text \<open>
  A transmission changes nothing but the MAC's transmit registers, the transmit slots and the choice of the next slot.
\<close>

definition tx_area :: "'a dstate_scheme \<Rightarrow> nat \<Rightarrow> bool" where
  "tx_area w x \<longleftrightarrow> tx_slot_addr 0 w \<le> x \<and> x < tx_slot_addr 0 w + ETHMAC_TX_SLOTS * ETHMAC_SLOT_SIZE"

definition same_but_tx :: "'a dstate_scheme \<Rightarrow> 'a dstate_scheme \<Rightarrow> bool" where
  "same_but_tx w w' \<longleftrightarrow>
     hp w' = hp w \<and> pl w' = pl w \<and> pbufs w' = pbufs w \<and> ooseq_pending w' = ooseq_pending w \<and> netifs w' = netifs w \<and>
     dstate.more w' = dstate.more w \<and> mac_base (mac w') = mac_base (mac w) \<and> reader_ready (mac w') = reader_ready (mac w) \<and>
     writer_pending (mac w') = writer_pending (mac w) \<and> writer_slot (mac w') = writer_slot (mac w) \<and>
     writer_length (mac w') = writer_length (mac w) \<and> (\<forall>x. \<not> tx_area w x \<longrightarrow> ram_bytes w' x = ram_bytes w x)"

text \<open>The MAC becomes ready sooner or later, however often it is asked.\<close>

definition tx_alive :: "'a dstate_scheme \<Rightarrow> bool" where
  "tx_alive w \<longleftrightarrow> (\<forall>n. \<exists>k\<ge>n. reader_ready (mac w) k) \<and> txslot w < of_nat ETHMAC_TX_SLOTS"

lemma set_mac_sel [simp]:
  "hp (set_mac f w) = hp w" "pl (set_mac f w) = pl w" "pbufs (set_mac f w) = pbufs w" "ram_bytes (set_mac f w) = ram_bytes w"
  "ooseq_pending (set_mac f w) = ooseq_pending w" "netifs (set_mac f w) = netifs w" "txslot (set_mac f w) = txslot w"
  "mac (set_mac f w) = f (mac w)" "dstate.more (set_mac f w) = dstate.more w"
  by (simp_all add: set_mac_def)

lemma wait_ready_returns:
  "reader_polls (mac w) \<le> k \<Longrightarrow> reader_ready (mac w) k \<Longrightarrow> \<exists>n. wait_ready w = Some (set_mac (\<lambda>m. m\<lparr>reader_polls := n\<rparr>) w)"
proof (induction "k - reader_polls (mac w)" arbitrary: w)
  case 0
  then have "reader_ready (mac w) (reader_polls (mac w))" by simp
  then show ?case by (subst wait_ready.simps) (auto simp: set_mac_def)
next
  case (Suc d)
  let ?w = "set_mac (\<lambda>m. m\<lparr>reader_polls := reader_polls m + 1\<rparr>) w"
  have "\<exists>n. wait_ready ?w = Some (set_mac (\<lambda>m. m\<lparr>reader_polls := n\<rparr>) ?w)"
    using Suc.prems Suc.hyps(2) by (intro Suc.hyps(1)) simp_all
  then show ?case by (subst wait_ready.simps) (auto simp: set_mac_def Let_def)
qed

lemma tx_copy_fits:
  assumes "lseg (nxts w) q ps" "unat len + lens w ps \<le> ETHMAC_SLOT_SIZE"
    "outside w ps (dst + unat len) (dst + unat len + lens w ps)"
  shows "tx_copy q dst len w =
    Some (Some (len + of_nat (lens w ps)), w\<lparr>ram_bytes := store (dst + unat len) (contents w ps) (ram_bytes w)\<rparr>)"
  using assms
proof (induction ps arbitrary: q len w)
  case Nil
  then show ?case by (subst tx_copy.simps) simp
next
  case (Cons a ps)
  let ?b = "pbufs w a"
  let ?w = "w\<lparr>ram_bytes := store (dst + unat len) (seg w a) (ram_bytes w)\<rparr>"
  have q: "q = Some a" "lseg (nxts ?w) (nxt ?b) ps" using Cons.prems by simp_all
  have len: "unat (len + ucast (plen ?b)) = unat len + unat (plen ?b)"
    using Cons.prems(2) by (simp add: unat_word_ariths unat_ucast_widen layout_simps)
  have step: "tx_copy q dst len w = tx_copy (nxt ?b) dst (len + ucast (plen ?b)) ?w"
    using q Cons.prems(2) len by (subst tx_copy.simps) (simp add: Let_def memcpy_store seg_def)
  have out: "outside w ps (dst + unat len) (dst + unat len + (unat (plen ?b) + lens w ps))" using Cons.prems(3) by simp
  then have c: "contents ?w ps = contents w ps" by (rule contents_store) simp_all
  have "tx_copy (nxt ?b) dst (len + ucast (plen ?b)) ?w = Some (Some (len + ucast (plen ?b) + of_nat (lens ?w ps)),
      ?w\<lparr>ram_bytes := store (dst + unat (len + ucast (plen ?b))) (contents ?w ps) (ram_bytes ?w)\<rparr>)"
    using Cons.prems(2) outside_mono [OF out] len by (intro Cons.IH q(2)) (simp_all add: add.assoc)
  moreover have "len + ucast (plen ?b) + of_nat (lens ?w ps) = len + of_nat (lens w (a # ps))" by (simp add: add.assoc)
  moreover have "?w\<lparr>ram_bytes := store (dst + unat (len + ucast (plen ?b))) (contents ?w ps) (ram_bytes ?w)\<rparr> =
      w\<lparr>ram_bytes := store (dst + unat len) (contents w (a # ps)) (ram_bytes w)\<rparr>"
    using store_append [of "dst + unat len" "seg w a" "contents w ps" "ram_bytes w"] by (simp add: c len add.assoc)
  ultimately show ?case unfolding step by (simp only:)
qed

lemma tx_copy_too_large:
  assumes "lseg (nxts w) q ps" "unat len \<le> ETHMAC_SLOT_SIZE" "ETHMAC_SLOT_SIZE < unat len + lens w ps"
  shows "\<exists>m. tx_copy q dst len w = Some (None, w\<lparr>ram_bytes := m\<rparr>) \<and>
    (\<forall>x. x < dst \<or> dst + ETHMAC_SLOT_SIZE \<le> x \<longrightarrow> m x = ram_bytes w x)"
  using assms
proof (induction ps arbitrary: q len w)
  case (Cons a ps)
  let ?b = "pbufs w a"
  let ?w = "memcpy (dst + unat len) (payload ?b) (unat (plen ?b)) w"
  have q: "q = Some a" "lseg (nxts ?w) (nxt ?b) ps" "lens ?w ps = lens w ps" using Cons.prems by (simp_all add: memcpy_store)
  have len: "unat (len + ucast (plen ?b)) = unat len + unat (plen ?b)"
    using Cons.prems(2) unat_less_exp [of "plen ?b"] by (simp add: unat_word_ariths unat_ucast_widen layout_simps)
  show ?case
  proof (cases "ETHMAC_SLOT_SIZE < unat len + unat (plen ?b)")
    case True
    then show ?thesis using q len by (intro exI [of _ "ram_bytes w"]) (subst tx_copy.simps, simp add: Let_def)
  next
    case False
    then have step: "tx_copy q dst len w = tx_copy (nxt ?b) dst (len + ucast (plen ?b)) ?w"
      using q len by (subst tx_copy.simps) (simp add: Let_def)
    obtain m where m: "tx_copy (nxt ?b) dst (len + ucast (plen ?b)) ?w = Some (None, ?w\<lparr>ram_bytes := m\<rparr>)"
      "\<forall>x. x < dst \<or> dst + ETHMAC_SLOT_SIZE \<le> x \<longrightarrow> m x = ram_bytes ?w x"
      using Cons.IH [OF q(2), of "len + ucast (plen ?b)"] False Cons.prems(3) len q(3) by auto
    moreover have "x < dst \<or> dst + ETHMAC_SLOT_SIZE \<le> x \<Longrightarrow> ram_bytes ?w x = ram_bytes w x" for x
      using False by (auto simp: memcpy_def)
    ultimately show ?thesis using step by (intro exI [of _ m]) (auto simp: memcpy_def)
  qed
qed simp

lemma slot_in_tx_area:
  "txslot w < of_nat ETHMAC_TX_SLOTS \<Longrightarrow> tx_buf w \<le> x \<Longrightarrow> x < tx_buf w + ETHMAC_SLOT_SIZE \<Longrightarrow> tx_area w x"
  by (auto simp: tx_area_def tx_buf_def tx_slot_addr_def word_less_nat_alt layout_simps)

lemma low_level_output_spec:
  assumes "packet w p ps" "tx_alive w" "outside w ps (tx_buf w) (tx_buf w + ETHMAC_SLOT_SIZE)"
  shows "\<exists>e w'. low_level_output nif p w = Some (e, w') \<and> same_but_tx w w' \<and> tx_alive w' \<and>
    (if lens w ps \<le> ETHMAC_SLOT_SIZE
     then e = ERR_OK \<and> sent (mac w') = sent (mac w) @ [(txslot w, contents w ps)] \<and> txslot w' = (txslot w + 1) mod of_nat ETHMAC_TX_SLOTS
     else e = ERR_BUF \<and> sent (mac w') = sent (mac w) \<and> txslot w' = txslot w)"
proof -
  let ?w0 = "debug_leds_out_write 0x0E w"
  have ls: "lseg (nxts w) (Some p) ps" using assms(1) by (simp add: packet_def)
  obtain k where "reader_polls (mac ?w0) \<le> k" "reader_ready (mac ?w0) k"
    using assms(2) by (auto simp: tx_alive_def debug_leds_out_write_def)
  then obtain n where n: "wait_ready ?w0 = Some (set_mac (\<lambda>m. m\<lparr>reader_polls := n\<rparr>) ?w0)" using wait_ready_returns by blast
  define w1 where "w1 = debug_leds_out_write 0x0F (set_mac (\<lambda>m. m\<lparr>reader_polls := n\<rparr>) ?w0)"
  have w1: "pbufs w1 = pbufs w" "ram_bytes w1 = ram_bytes w" "tx_buf w1 = tx_buf w" "txslot w1 = txslot w" "sent (mac w1) = sent (mac w)"
    "hp w1 = hp w" "pl w1 = pl w" "ooseq_pending w1 = ooseq_pending w" "netifs w1 = netifs w" "dstate.more w1 = dstate.more w"
    "mac_base (mac w1) = mac_base (mac w)" "reader_ready (mac w1) = reader_ready (mac w)" "writer_pending (mac w1) = writer_pending (mac w)"
    "writer_slot (mac w1) = writer_slot (mac w)" "writer_length (mac w1) = writer_length (mac w)"
    by (simp_all add: w1_def debug_leds_out_write_def tx_buf_def tx_slot_addr_def)
  have "seg w1 = seg w" by (simp add: fun_eq_iff seg_def w1)
  then have c: "contents w1 ps = contents w ps" "lens w1 ps = lens w ps" "\<And>lo hi. outside w1 ps lo hi = outside w ps lo hi"
    by (simp_all add: contents_def lens_def outside_def w1)
  have ls1: "lseg (nxts w1) (Some p) ps" using ls by (simp add: w1)
  have slot: "txslot w < 2" using assms(2) by (simp add: tx_alive_def layout_simps)
  have area: "x < tx_buf w \<or> tx_buf w + ETHMAC_SLOT_SIZE \<le> x" if "\<not> tx_area w x" for x
    using that slot_in_tx_area [of w x] slot by (cases "tx_buf w \<le> x"; cases "x < tx_buf w + 2048") (auto simp: layout_simps)
  show ?thesis
  proof (cases "lens w ps \<le> ETHMAC_SLOT_SIZE")
    case True
    let ?r = "store (tx_buf w) (contents w ps) (ram_bytes w)"
    have "outside w ps (tx_buf w) (tx_buf w + lens w ps)" using outside_mono [OF assms(3)] True by simp
    then have tx: "tx_copy (Some p) (tx_buf w) 0 w1 = Some (Some (of_nat (lens w ps)), w1\<lparr>ram_bytes := ?r\<rparr>)"
      using tx_copy_fits [OF ls1, of 0 "tx_buf w"] True by (simp add: c w1)
    have "unat (of_nat (lens w ps) :: u32) = lens w ps" using True by (intro unat_of_nat_small) (simp add: layout_simps)
    then have "low_level_output nif p w = Some (ERR_OK, debug_leds_out_write 0x0B
        (set_mac (\<lambda>m. m\<lparr>reader_slot := txslot w, reader_length := of_nat (lens w ps), sent := sent (mac w) @ [(txslot w, contents w ps)]\<rparr>)
          (w1\<lparr>ram_bytes := ?r, txslot := (txslot w + 1) mod of_nat ETHMAC_TX_SLOTS\<rparr>)))"
      using fetch_store [of "tx_buf w" "contents w ps" "ram_bytes w"]
      by (simp only: low_level_output_def n Let_def w1_def [symmetric] w1(3) tx Option.bind.simps prod.case option.case)
        (simp add: w1 ethmac_sram_reader_start_write_def get_bytes_def tx_slot_addr_def tx_buf_def set_mac_def debug_leds_out_write_def)
    moreover have "?r x = ram_bytes w x" if "\<not> tx_area w x" for x
      using area [OF that] True by (auto simp: store_def)
    moreover have "(txslot w + 1) mod 2 < 2" by (rule word_mod_less_divisor) simp
    ultimately show ?thesis using True assms(2) by (auto simp: same_but_tx_def tx_alive_def debug_leds_out_write_def w1 layout_simps)
  next
    case False
    obtain m where m: "tx_copy (Some p) (tx_buf w) 0 w1 = Some (None, w1\<lparr>ram_bytes := m\<rparr>)"
      "\<forall>x. x < tx_buf w \<or> tx_buf w + ETHMAC_SLOT_SIZE \<le> x \<longrightarrow> m x = ram_bytes w x"
      using tx_copy_too_large [OF ls1, of 0 "tx_buf w"] False by (auto simp: c w1)
    then have "low_level_output nif p w = Some (ERR_BUF, w1\<lparr>ram_bytes := m\<rparr>)"
      using n by (simp add: low_level_output_def w1_def [symmetric] w1)
    moreover have "m x = ram_bytes w x" if "\<not> tx_area w x" for x
      using area [OF that] m(2) by blast
    ultimately show ?thesis using False assms(2) by (auto simp: same_but_tx_def tx_alive_def w1)
  qed
qed

section \<open>Receiving a frame\<close>

lemma rx_copy_writes:
  assumes "lseg (nxts w) q ps" "unat rxlen = unat copied + lens w ps" "apart w ps" "outside w ps (src + unat copied) (src + unat rxlen)"
  shows "\<exists>m. rx_copy q src copied rxlen w = Some (w\<lparr>ram_bytes := m\<rparr>) \<and>
    contents (w\<lparr>ram_bytes := m\<rparr>) ps = fetch (ram_bytes w) (src + unat copied) (lens w ps) \<and>
    (\<forall>x. \<not> inside w ps x \<longrightarrow> m x = ram_bytes w x)"
  using assms
proof (induction ps arbitrary: q copied w)
  case Nil
  then show ?case by (intro exI [of _ "ram_bytes w"]) (subst rx_copy.simps, simp)
next
  case (Cons a ps)
  let ?b = "pbufs w a"
  let ?n = "unat (plen ?b)"
  let ?D = "fetch (ram_bytes w) (src + unat copied) ?n"
  define w' where "w' = w\<lparr>ram_bytes := store (payload ?b) ?D (ram_bytes w)\<rparr>"
  have q: "q = Some a" "lseg (nxts w') (nxt ?b) ps" and ap: "apart w' ps"
    and out: "outside w ps (payload ?b) (payload ?b + ?n)" using Cons.prems by (simp_all add: w'_def)
  have cp: "unat (copied + ucast (plen ?b)) = unat copied + ?n"
    using Cons.prems(2) unat_less_exp [of rxlen] by (simp add: unat_word_ariths unat_ucast_widen)
  then have "copied + ucast (plen ?b) \<le> rxlen" using Cons.prems(2) by (simp add: word_le_nat_alt)
  then have step: "rx_copy q src copied rxlen w = rx_copy (nxt ?b) src (copied + ucast (plen ?b)) rxlen w'"
    using q(1) by (subst rx_copy.simps) (simp add: memcpy_store w'_def Let_def unat_ucast_widen)
  have "outside w' ps (src + unat (copied + ucast (plen ?b))) (src + unat rxlen)" "lens w' ps = lens w ps"
    using Cons.prems(4) cp by (auto simp: w'_def elim: outside_mono)
  then obtain m where m: "rx_copy (nxt ?b) src (copied + ucast (plen ?b)) rxlen w' = Some (w'\<lparr>ram_bytes := m\<rparr>)"
    "contents (w'\<lparr>ram_bytes := m\<rparr>) ps = fetch (ram_bytes w') (src + unat copied + ?n) (lens w ps)"
    "\<forall>x. \<not> inside w' ps x \<longrightarrow> m x = ram_bytes w' x"
    using Cons.IH [OF q(2) _ ap, of "copied + ucast (plen ?b)"] Cons.prems(2) cp by (auto simp: add.assoc)
  have "fetch (ram_bytes w') (src + unat copied + ?n) (lens w ps) = fetch (ram_bytes w) (src + unat copied + ?n) (lens w ps)"
    using Cons.prems(2,4) by (auto simp: w'_def intro!: fetch_store_apart)
  moreover have "seg (w\<lparr>ram_bytes := m\<rparr>) a = ?D"
  proof -
    have "fetch m (payload ?b) ?n = fetch (ram_bytes w') (payload ?b) ?n"
      using m(3) outside_not_inside [OF out] by (intro fetch_cong) (simp add: w'_def)
    then show ?thesis using fetch_store [of "payload ?b" ?D "ram_bytes w"] by (simp add: seg_def w'_def)
  qed
  ultimately have "contents (w\<lparr>ram_bytes := m\<rparr>) (a # ps) = fetch (ram_bytes w) (src + unat copied) (lens w (a # ps))"
    using m(2) fetch_append [of "ram_bytes w" "src + unat copied" ?n "lens w ps"] by (simp add: w'_def)
  moreover have "\<forall>x. \<not> inside w (a # ps) x \<longrightarrow> m x = ram_bytes w x" using m(3) by (auto simp: store_def w'_def)
  ultimately show ?case using step m(1) by (intro exI [of _ m]) (simp add: w'_def)
qed

text \<open>The payloads of the pbufs taken from the pool do not overlap, and lie in the elements of the pool.\<close>

lemma building_range:
  assumes "building w0 w ps r" "a \<in> set ps"
  shows "a \<in> set (elems (desc (pl w) MEMP_PBUF_POOL)) \<and> a \<le> payload (pbufs w a) \<and>
    payload (pbufs w a) + unat (plen (pbufs w a)) \<le> a + 1540"
proof -
  have "pool_live MEMP_PBUF_POOL (pl w) a = Some 1540" "pool_pbuf (pbufs w a) a"
    using assms by (auto simp: building_def tables_def with_elems_def fun_eq_iff split: if_splits)
  then show ?thesis by (auto simp: pool_live_def pool_pbuf_def split: if_splits)
qed

lemma building_apart:
  assumes "building w0 w ps r"
  shows "apart w ps"
proof -
  have ok: "pools_ok (pl w)" and sz: "dsize (desc (pl w) MEMP_PBUF_POOL) = 1540" using assms by (auto simp: building_def mem_ok_def)
  have "distinct ps" using assms lseg_distinct by (auto simp: building_def)
  moreover have "set qs \<subseteq> set ps \<Longrightarrow> distinct qs \<Longrightarrow> apart w qs" for qs
  proof (induction qs)
    case (Cons a qs)
    have "outside w qs (payload (pbufs w a)) (payload (pbufs w a) + unat (plen (pbufs w a)))"
      unfolding outside_def
    proof
      fix b assume b: "b \<in> set qs"
      note ra = building_range [OF assms, of a] and rb = building_range [OF assms, of b]
      have "a \<noteq> b" using b Cons.prems by auto
      then have "a + 1540 \<le> b \<or> b + 1540 \<le> a"
        using elems_apart [of a "desc (pl w) MEMP_PBUF_POOL" b] elems_apart [of b "desc (pl w) MEMP_PBUF_POOL" a] ra rb Cons.prems b sz
        by (auto simp: neq_iff)
      then show "payload (pbufs w b) + unat (plen (pbufs w b)) \<le> payload (pbufs w a) \<or>
          payload (pbufs w a) + unat (plen (pbufs w a)) \<le> payload (pbufs w b)"
        using ra rb Cons.prems b by auto
    qed
    then show ?case using Cons by simp
  qed simp
  ultimately show ?thesis by blast
qed

definition rx_slot_addr :: "'a dstate_scheme \<Rightarrow> nat" where
  "rx_slot_addr w = mac_base (mac w) + ETHMAC_SLOT_SIZE * unat (writer_slot (mac w))"

text \<open>The slots of the MAC lie outside the memory of the pbuf pool.\<close>

definition slots_apart :: "'a dstate_scheme \<Rightarrow> bool" where
  "slots_apart w \<longleftrightarrow>
     (\<forall>a\<in>set (elems (desc (pl w) MEMP_PBUF_POOL)).
        a + 1540 \<le> mac_base (mac w) \<or> mac_base (mac w) + (ETHMAC_RX_SLOTS + ETHMAC_TX_SLOTS) * ETHMAC_SLOT_SIZE \<le> a)"

lemma low_level_input_spec:
  assumes "mem_ok w" "writer_pending (mac w)" "unat (writer_length (mac w)) \<le> ETHMAC_SLOT_SIZE"
    "unat (writer_slot (mac w)) < ETHMAC_RX_SLOTS" "slots_apart w"
  shows "\<exists>r w'. low_level_input nif w = Some (r, w') \<and> mem_ok w' \<and> \<not> writer_pending (mac w') \<and>
    (case r of
       None \<Rightarrow> tables w' = tables w \<and> ram_bytes w' = ram_bytes w
     | Some p \<Rightarrow> \<exists>ps. packet w' p ps \<and> contents w' ps = fetch (ram_bytes w) (rx_slot_addr w) (unat (writer_length (mac w))) \<and>
         (\<forall>a\<in>set ps. held w' a \<and> pref (pbufs w' a) = 1) \<and> give_back w' ps (tables w') = tables w \<and>
         (\<forall>x. \<not> inside w' ps x \<longrightarrow> ram_bytes w' x = ram_bytes w x))"
proof -
  define len where "len = writer_length (mac w)"
  have len: "unat (ucast len :: u16) = unat len"
    using assms(3) by (simp add: len_def unat_take_bit unsigned_ucast_eq layout_simps take_bit_nat_eq_self)
  obtain r w1 where a: "pbuf_alloc PBUF_RAW (ucast len) PBUF_POOL w = Some (r, w1)"
    "case r of
       None \<Rightarrow> mem_ok w1 \<and> tables w1 = tables w \<and> ram_bytes w1 = ram_bytes w
     | Some p \<Rightarrow> \<exists>ps. ps \<noteq> [] \<and> p = hd ps \<and> building w w1 ps 0 \<and> lens w1 ps = unat (ucast len :: u16)"
    using pbuf_alloc_pool_building [OF assms(1)] by blast
  show ?thesis
  proof (cases r)
    case None
    then show ?thesis
      using a assms(2) by (simp add: low_level_input_def len_def Let_def mem_ok_def tables_def)
  next
    case (Some p)
    then obtain ps where b: "ps \<noteq> []" "p = hd ps" "building w w1 ps 0" "lens w1 ps = unat len" using a(2) len by auto
    then have ls: "lseg (nxts w1) (Some p) ps" by (simp add: building_def)
    have out: "outside w1 ps (rx_slot_addr w) (rx_slot_addr w + unat len)"
      unfolding outside_def
    proof
      fix x assume x: "x \<in> set ps"
      have d: "desc (pl w1) = desc (pl w)" using b(3) by (simp add: building_def)
      show "payload (pbufs w1 x) + unat (plen (pbufs w1 x)) \<le> rx_slot_addr w \<or> rx_slot_addr w + unat len \<le> payload (pbufs w1 x)"
        using building_range [OF b(3) x] assms(3-5) unfolding d slots_apart_def
        by (fastforce simp: rx_slot_addr_def len_def layout_simps)
    qed
    obtain m where m: "rx_copy (Some p) (rx_slot_addr w) 0 len w1 = Some (w1\<lparr>ram_bytes := m\<rparr>)"
      "contents (w1\<lparr>ram_bytes := m\<rparr>) ps = fetch (ram_bytes w1) (rx_slot_addr w) (unat len)"
      "\<forall>x. \<not> inside w1 ps x \<longrightarrow> m x = ram_bytes w1 x"
      using rx_copy_writes [OF ls, of len 0 "rx_slot_addr w"] building_apart [OF b(3)] out b(4) by auto
    define w2 where "w2 = set_mac (\<lambda>m. m\<lparr>writer_pending := False\<rparr>) (w1\<lparr>ram_bytes := m\<rparr>)"
    have "low_level_input nif w = Some (Some p, w2)"
      using a(1) m(1) assms(2) Some by (simp add: low_level_input_def len_def [symmetric] rx_slot_addr_def w2_def)
    moreover have f: "fresh_packet w w1 p ps (ucast len)" using building_fresh [OF b(3)] b len by simp
    have same: "pbufs w2 = pbufs w1" "tables w2 = tables w1" "ram_bytes w2 = m" "hp w2 = hp w1" "pl w2 = pl w1" "\<not> writer_pending (mac w2)"
      by (simp_all add: w2_def tables_def)
    have "packet w2 p ps" "contents w2 ps = contents (w1\<lparr>ram_bytes := m\<rparr>) ps" "\<And>x. inside w2 ps x = inside w1 ps x"
      "\<And>a. held w2 a = held w1 a" "give_back w2 ps (tables w1) = give_back w1 ps (tables w1)"
    proof -
      have "tot_ok w2 ps = tot_ok w1 ps" by (induction ps) (simp_all add: same lens_def)
      then show "packet w2 p ps" using f by (simp add: fresh_packet_def packet_def same)
      have "seg w2 = seg (w1\<lparr>ram_bytes := m\<rparr>)" by (simp add: fun_eq_iff seg_def same)
      then show "contents w2 ps = contents (w1\<lparr>ram_bytes := m\<rparr>) ps" by (simp add: contents_def)
      show "inside w2 ps x = inside w1 ps x" for x by (simp add: inside_def same)
      show "held w2 a = held w1 a" for a by (simp add: held_def same)
      show "give_back w2 ps (tables w1) = give_back w1 ps (tables w1)" by (rule give_back_cong) (simp add: same)
    qed
    moreover have "ram_bytes w1 = ram_bytes w" using b(3) by (simp add: building_def same_data_def)
    ultimately show ?thesis
      using Some f m same unfolding len_def
      by (auto simp: fresh_packet_def fresh_pbuf_def held_def mem_ok_def intro!: exI [of _ ps])
  qed
qed

section \<open>Properties\<close>

definition mac0 :: ethmac where
  "mac0 = \<lparr>mac_base = 100000, reader_ready = (\<lambda>k. odd k), reader_polls = 0, reader_slot = 0, reader_length = 0, sent = [],
     writer_pending = True, writer_slot = 1, writer_length = 60, reader_pending = False, leds = 0\<rparr>"

definition netif0 :: netif where
  "netif0 = \<lparr>nif_next = None, ip_addr = 0x3201A8C0, netmask = 0x00FFFFFF, gw = 0x0101A8C0, nif_input = Ethernet_input,
     nif_output = Etharp_output, nif_linkoutput = Low_level_output, mtu = 1500, hwaddr = fpga_mac, hwaddr_len = 6,
     netif_flags = 0x0F, if_num = 0\<rparr>"

definition driver0 :: dstate where
  "driver0 = mstate.extend (sample\<lparr>pl := memp_init pools0\<rparr>) (dstate.fields (\<lambda>_. netif0) mac0 0)"

lemma driver0_sel [simp]:
  "hp driver0 = heap0" "pl driver0 = memp_init pools0" "pbufs driver0 = pbufs sample" "ram_bytes driver0 = ram_bytes sample"
  "netifs driver0 = (\<lambda>_. netif0)" "mac driver0 = mac0" "txslot driver0 = 0"
  by (simp_all add: driver0_def mstate.defs dstate.defs sample_def)

lemma driver0_ok: "mem_ok driver0" "tx_alive driver0" "packet driver0 100 [100, 200]" "contents driver0 [100, 200] = [1, 2, 3, 4, 5, 6]"
proof -
  show "mem_ok driver0" using sample_ok by (simp add: mem_ok_def sample_def)
  have "\<exists>k\<ge>n. odd k" for n :: nat by (intro exI [of _ "2 * n + 1"]) simp
  then show "tx_alive driver0" by (simp add: tx_alive_def mac0_def layout_simps)
  show "packet driver0 100 [100, 200]" "contents driver0 [100, 200] = [1, 2, 3, 4, 5, 6]"
    by (simp_all add: packet_def seg_def sample_def fetch_def upt_rec)
qed

text \<open>
  C37: The driver transmits a packet exactly as it is, wherever its chain is cut: it waits until the MAC is ready, copies
  the bytes to the next slot, starts that slot with their number and moves on to the other slot. A packet larger than
  a slot is refused without a transmission. In both cases no memory outside the transmit slots changes.
\<close>

theorem low_level_output_sends:
  assumes "packet w p ps" "tx_alive w" "outside w ps (tx_buf w) (tx_buf w + ETHMAC_SLOT_SIZE)"
  shows "\<exists>e w'. low_level_output nif p w = Some (e, w') \<and> same_but_tx w w' \<and> tx_alive w' \<and>
    (if lens w ps \<le> ETHMAC_SLOT_SIZE
     then e = ERR_OK \<and> sent (mac w') = sent (mac w) @ [(txslot w, contents w ps)] \<and> txslot w' = (txslot w + 1) mod of_nat ETHMAC_TX_SLOTS
     else e = ERR_BUF \<and> sent (mac w') = sent (mac w) \<and> txslot w' = txslot w)"
  using low_level_output_spec [OF assms] .

theorem low_level_output_sends_witness:
  "\<exists>w'. low_level_output 0 100 driver0 = Some (ERR_OK, w') \<and> sent (mac w') = [(0, [1, 2, 3, 4, 5, 6])] \<and> txslot w' = 1"
proof -
  have out: "outside driver0 [100, 200] (tx_buf driver0) (tx_buf driver0 + ETHMAC_SLOT_SIZE)"
    by (simp add: sample_def tx_buf_def tx_slot_addr_def mac0_def layout_simps)
  have "lens driver0 [100, 200] = 6" by (simp add: sample_def)
  then show ?thesis
    using low_level_output_sends [OF driver0_ok(3,2) out, of 0] unfolding driver0_ok(4)
    by (auto simp: mac0_def layout_simps simp del: lens_simps)
qed

text \<open>
  C38: When a frame has arrived, the driver returns it as a packet with exactly the bytes of the receive slot, in fresh
  pbufs with one reference, or drops it when the pool is empty; either way the slot is given back to the MAC and no
  memory outside the packet changes.
\<close>

theorem low_level_input_receives:
  assumes "mem_ok w" "writer_pending (mac w)" "unat (writer_length (mac w)) \<le> ETHMAC_SLOT_SIZE"
    "unat (writer_slot (mac w)) < ETHMAC_RX_SLOTS" "slots_apart w"
  shows "\<exists>r w'. low_level_input nif w = Some (r, w') \<and> mem_ok w' \<and> \<not> writer_pending (mac w') \<and>
    (case r of
       None \<Rightarrow> tables w' = tables w \<and> ram_bytes w' = ram_bytes w
     | Some p \<Rightarrow> \<exists>ps. packet w' p ps \<and> contents w' ps = fetch (ram_bytes w) (rx_slot_addr w) (unat (writer_length (mac w))) \<and>
         (\<forall>a\<in>set ps. held w' a \<and> pref (pbufs w' a) = 1) \<and> give_back w' ps (tables w') = tables w \<and>
         (\<forall>x. \<not> inside w' ps x \<longrightarrow> ram_bytes w' x = ram_bytes w x))"
  using low_level_input_spec [OF assms] .

theorem low_level_input_receives_witness:
  "\<exists>r w'. low_level_input 0 driver0 = Some (r, w') \<and> mem_ok w' \<and> \<not> writer_pending (mac w')"
proof -
  have "desc (memp_init pools0) = desc0" using memp_init_inv [of pools0] desc0_ok by (simp add: pools0_def)
  then have "a + 1540 \<le> 100000" if "a \<in> set (elems (desc (memp_init pools0) MEMP_PBUF_POOL))" for a
    using that by (auto simp: elems_def desc0_def LWIP_MEM_ALIGN_SIZE_def layout_simps)
  then have "slots_apart driver0" by (auto simp: slots_apart_def mac0_def)
  then show ?thesis
    using low_level_input_receives [OF driver0_ok(1), of 0] by (auto simp: mac0_def layout_simps)
qed

end
