(* ===== verification/Etharp.thy ===== *)
theory Etharp
  imports Ethernetif Ip4_Addr
begin

text \<open>
  Address resolution, \<^verbatim>\<open>core/ipv4/etharp.c\<close>, and the sending half of \<^verbatim>\<open>netif/ethernet.c\<close>, configured as in this firmware:
  ten entries, one queued packet per entry, no static entries, entries bound to their interface. Ethernet addresses
  are passed by value: no caller hands over an address that lies in the buffer the callee writes.
\<close>

section \<open>Ethernet output\<close>

definition SIZEOF_ETH_HDR :: nat where [layout_simps]: "SIZEOF_ETH_HDR = 14"
definition SIZEOF_ETHARP_HDR :: nat where [layout_simps]: "SIZEOF_ETHARP_HDR = 28"
definition ETHTYPE_IP :: u16 where "ETHTYPE_IP = 0x0800"
definition ETHTYPE_ARP :: u16 where "ETHTYPE_ARP = 0x0806"
definition LWIP_IANA_HWTYPE_ETHERNET :: u16 where "LWIP_IANA_HWTYPE_ETHERNET = 1"
definition ARP_REQUEST :: u16 where "ARP_REQUEST = 1"
definition ARP_REPLY :: u16 where "ARP_REPLY = 2"

lemmas arp_number_defs =
  ETHTYPE_IP_def ETHTYPE_ARP_def LWIP_IANA_HWTYPE_ETHERNET_def ARP_REQUEST_def ARP_REPLY_def

definition ethbroadcast :: bytes where "ethbroadcast = [0xff, 0xff, 0xff, 0xff, 0xff, 0xff]"
definition ethzero :: bytes where "ethzero = [0, 0, 0, 0, 0, 0]"

definition netif_linkoutput :: "nat \<Rightarrow> nat \<Rightarrow> 'a dstate_scheme \<Rightarrow> (err_t \<times> 'a dstate_scheme) option" where
  "netif_linkoutput nif p w =
     (case nif_linkoutput (netifs w nif) of Null_linkoutput \<Rightarrow> None | Low_level_output \<Rightarrow> low_level_output nif p w)"

definition ethernet_output ::
  "nat \<Rightarrow> nat \<Rightarrow> bytes \<Rightarrow> bytes \<Rightarrow> u16 \<Rightarrow> 'a dstate_scheme \<Rightarrow> (err_t \<times> 'a dstate_scheme) option" where
  "ethernet_output nif p src dst eth_type w =
     (case pbuf_add_header p SIZEOF_ETH_HDR w of
        (r, w) \<Rightarrow>
          if r \<noteq> 0 then Some (ERR_BUF, w)
          else
            (let ethhdr = payload (pbufs w p);
                 w = put16 (ethhdr + 12) (lwip_htons eth_type) w;
                 w = put_bytes ethhdr (take ETH_HWADDR_LEN dst) w;
                 w = put_bytes (ethhdr + 6) (take ETH_HWADDR_LEN src) w
             in if unat (hwaddr_len (netifs w nif)) \<noteq> ETH_HWADDR_LEN then None else netif_linkoutput nif p w))"

section \<open>The ARP table\<close>

datatype etharp_state =
    ETHARP_STATE_EMPTY | ETHARP_STATE_PENDING | ETHARP_STATE_STABLE
  | ETHARP_STATE_STABLE_REREQUESTING_1 | ETHARP_STATE_STABLE_REREQUESTING_2

fun state_number :: "etharp_state \<Rightarrow> nat" where
  "state_number ETHARP_STATE_EMPTY = 0"
| "state_number ETHARP_STATE_PENDING = 1"
| "state_number ETHARP_STATE_STABLE = 2"
| "state_number ETHARP_STATE_STABLE_REREQUESTING_1 = 3"
| "state_number ETHARP_STATE_STABLE_REREQUESTING_2 = 4"

lemma state_number_inj: "state_number s = state_number t \<Longrightarrow> s = t"
  by (cases s; cases t) simp_all

instantiation etharp_state :: linorder
begin

definition less_eq_etharp_state :: "etharp_state \<Rightarrow> etharp_state \<Rightarrow> bool" where
  "s \<le> t \<longleftrightarrow> state_number s \<le> state_number t"

definition less_etharp_state :: "etharp_state \<Rightarrow> etharp_state \<Rightarrow> bool" where
  "s < t \<longleftrightarrow> state_number s < state_number t"

instance
  by standard (auto simp: less_eq_etharp_state_def less_etharp_state_def intro: state_number_inj)

end

record etharp_entry =
  arp_q :: "nat option"
  arp_ipaddr :: u32
  arp_netif :: "nat option"
  arp_ethaddr :: bytes
  arp_ctime :: u16
  arp_state :: etharp_state

definition ARP_TABLE_SIZE :: nat where [layout_simps]: "ARP_TABLE_SIZE = 10"
definition ARP_MAXAGE :: u16 where "ARP_MAXAGE = 300"
definition ARP_MAXPENDING :: u16 where "ARP_MAXPENDING = 5"
definition ARP_AGE_REREQUEST_USED_UNICAST :: u16 where "ARP_AGE_REREQUEST_USED_UNICAST = ARP_MAXAGE - 30"
definition ARP_AGE_REREQUEST_USED_BROADCAST :: u16 where "ARP_AGE_REREQUEST_USED_BROADCAST = ARP_MAXAGE - 15"
definition ETHARP_FLAG_TRY_HARD :: u8 where "ETHARP_FLAG_TRY_HARD = 1"
definition ETHARP_FLAG_FIND_ONLY :: u8 where "ETHARP_FLAG_FIND_ONLY = 2"

record astate = dstate +
  arp_table :: "etharp_entry list"
  etharp_cached_entry :: nat

definition arp :: "'a astate_scheme \<Rightarrow> nat \<Rightarrow> etharp_entry" where
  "arp w i = arp_table w ! i"

definition set_arp :: "nat \<Rightarrow> (etharp_entry \<Rightarrow> etharp_entry) \<Rightarrow> 'a astate_scheme \<Rightarrow> 'a astate_scheme" where
  "set_arp i f w = w\<lparr>arp_table := (arp_table w)[i := f (arp_table w ! i)]\<rparr>"

definition free_packet :: "nat \<Rightarrow> 'a mstate_scheme \<Rightarrow> 'a mstate_scheme option" where
  "free_packet p w = do { (_, w) \<leftarrow> pbuf_free (Some p) w; Some w }"

definition etharp_free_entry :: "nat \<Rightarrow> 'a astate_scheme \<Rightarrow> 'a astate_scheme option" where
  "etharp_free_entry i w = do {
     w \<leftarrow> (case arp_q (arp w i) of
             None \<Rightarrow> Some w
           | Some q \<Rightarrow> do { w \<leftarrow> free_packet q w; Some (set_arp i (\<lambda>e. e\<lparr>arp_q := None\<rparr>) w) });
     Some (set_arp i (\<lambda>e. e\<lparr>arp_state := ETHARP_STATE_EMPTY\<rparr>) w)
   }"

section \<open>Requests\<close>

text \<open>The offsets of the fields of \<^verbatim>\<open>struct etharp_hdr\<close>.\<close>

definition hwtype_off :: nat where [layout_simps]: "hwtype_off = 0"
definition proto_off :: nat where [layout_simps]: "proto_off = 2"
definition hwlen_off :: nat where [layout_simps]: "hwlen_off = 4"
definition protolen_off :: nat where [layout_simps]: "protolen_off = 5"
definition opcode_off :: nat where [layout_simps]: "opcode_off = 6"
definition shwaddr_off :: nat where [layout_simps]: "shwaddr_off = 8"
definition sipaddr_off :: nat where [layout_simps]: "sipaddr_off = 14"
definition dhwaddr_off :: nat where [layout_simps]: "dhwaddr_off = 18"
definition dipaddr_off :: nat where [layout_simps]: "dipaddr_off = 24"

text \<open>
  The assertion on the length of the hardware address, which the code makes after the first of the writes to the new
  pbuf, is made before them.
\<close>

definition write_etharp_hdr :: "nat \<Rightarrow> bytes \<Rightarrow> u32 \<Rightarrow> bytes \<Rightarrow> u32 \<Rightarrow> u16 \<Rightarrow> 'a mstate_scheme \<Rightarrow> 'a mstate_scheme" where
  "write_etharp_hdr h hwsrc_addr ipsrc_addr hwdst_addr ipdst_addr opcode w =
     (let w = put16 (h + opcode_off) (lwip_htons opcode) w;
          w = put_bytes (h + shwaddr_off) (take ETH_HWADDR_LEN hwsrc_addr) w;
          w = put_bytes (h + dhwaddr_off) (take ETH_HWADDR_LEN hwdst_addr) w;
          w = put32 (h + sipaddr_off) ipsrc_addr w;
          w = put32 (h + dipaddr_off) ipdst_addr w;
          w = put16 (h + hwtype_off) (PP_HTONS LWIP_IANA_HWTYPE_ETHERNET) w;
          w = put16 (h + proto_off) (PP_HTONS ETHTYPE_IP) w;
          w = put8 (h + hwlen_off) (of_nat ETH_HWADDR_LEN) w
      in put8 (h + protolen_off) 4 w)"

definition etharp_raw ::
  "nat option \<Rightarrow> bytes \<Rightarrow> bytes \<Rightarrow> bytes \<Rightarrow> u32 \<Rightarrow> bytes \<Rightarrow> u32 \<Rightarrow> u16 \<Rightarrow> 'a dstate_scheme \<Rightarrow> (err_t \<times> 'a dstate_scheme) option" where
  "etharp_raw nif ethsrc_addr ethdst_addr hwsrc_addr ipsrc_addr hwdst_addr ipdst_addr opcode w =
     (case nif of
        None \<Rightarrow> None
      | Some nif \<Rightarrow> do {
          (p, w) \<leftarrow> pbuf_alloc PBUF_LINK (of_nat SIZEOF_ETHARP_HDR) PBUF_RAM w;
          case p of
            None \<Rightarrow> Some (ERR_MEM, w)
          | Some p \<Rightarrow>
              if unat (plen (pbufs w p)) < SIZEOF_ETHARP_HDR \<or> unat (hwaddr_len (netifs w nif)) \<noteq> ETH_HWADDR_LEN then None
              else do {
                let w = write_etharp_hdr (payload (pbufs w p)) hwsrc_addr ipsrc_addr hwdst_addr ipdst_addr opcode w;
                (_, w) \<leftarrow> ethernet_output nif p ethsrc_addr ethdst_addr ETHTYPE_ARP w;
                w \<leftarrow> free_packet p w;
                Some (ERR_OK, w)
              }
        })"

definition etharp_request_dst ::
  "nat option \<Rightarrow> u32 \<Rightarrow> bytes \<Rightarrow> 'a dstate_scheme \<Rightarrow> (err_t \<times> 'a dstate_scheme) option" where
  "etharp_request_dst nif ipaddr hw_dst_addr w =
     (case nif of
        None \<Rightarrow> None
      | Some n \<Rightarrow>
          etharp_raw nif (hwaddr (netifs w n)) hw_dst_addr (hwaddr (netifs w n)) (ip_addr (netifs w n)) ethzero ipaddr ARP_REQUEST w)"

definition etharp_request :: "nat option \<Rightarrow> u32 \<Rightarrow> 'a dstate_scheme \<Rightarrow> (err_t \<times> 'a dstate_scheme) option" where
  "etharp_request nif ipaddr w = etharp_request_dst nif ipaddr ethbroadcast w"

section \<open>The timer\<close>

definition tmr_entry :: "nat \<Rightarrow> 'a astate_scheme \<Rightarrow> 'a astate_scheme option" where
  "tmr_entry i w =
     (if arp_state (arp w i) = ETHARP_STATE_EMPTY then Some w
      else
        (let w = set_arp i (\<lambda>e. e\<lparr>arp_ctime := arp_ctime e + 1\<rparr>) w; e = arp w i
         in if arp_ctime e \<ge> ARP_MAXAGE \<or> arp_state e = ETHARP_STATE_PENDING \<and> arp_ctime e \<ge> ARP_MAXPENDING
            then etharp_free_entry i w
            else if arp_state e = ETHARP_STATE_STABLE_REREQUESTING_1
            then Some (set_arp i (\<lambda>e. e\<lparr>arp_state := ETHARP_STATE_STABLE_REREQUESTING_2\<rparr>) w)
            else if arp_state e = ETHARP_STATE_STABLE_REREQUESTING_2
            then Some (set_arp i (\<lambda>e. e\<lparr>arp_state := ETHARP_STATE_STABLE\<rparr>) w)
            else if arp_state e = ETHARP_STATE_PENDING
            then do { (_, w) \<leftarrow> etharp_request (arp_netif e) (arp_ipaddr e) w; Some w }
            else Some w))"

fun tmr_loop :: "nat list \<Rightarrow> 'a astate_scheme \<Rightarrow> 'a astate_scheme option" where
  "tmr_loop [] w = Some w"
| "tmr_loop (i # is) w = do { w \<leftarrow> tmr_entry i w; tmr_loop is w }"

definition etharp_tmr :: "'a astate_scheme \<Rightarrow> 'a astate_scheme option" where
  "etharp_tmr w = tmr_loop [0..<ARP_TABLE_SIZE] w"

section \<open>Finding an entry\<close>

record candidates =
  c_empty :: nat
  c_old_stable :: nat
  c_old_pending :: nat
  c_old_queue :: nat
  c_age_stable :: u16
  c_age_pending :: u16
  c_age_queue :: u16

definition no_candidates :: candidates where
  "no_candidates = \<lparr>c_empty = ARP_TABLE_SIZE, c_old_stable = ARP_TABLE_SIZE, c_old_pending = ARP_TABLE_SIZE,
     c_old_queue = ARP_TABLE_SIZE, c_age_stable = 0, c_age_pending = 0, c_age_queue = 0\<rparr>"

definition arp_match :: "u32 option \<Rightarrow> nat option \<Rightarrow> etharp_entry \<Rightarrow> bool" where
  "arp_match ipaddr nif e \<longleftrightarrow> ipaddr = Some (arp_ipaddr e) \<and> (nif = None \<or> nif = arp_netif e)"

definition remember :: "nat \<Rightarrow> etharp_entry \<Rightarrow> candidates \<Rightarrow> candidates" where
  "remember i e c =
     (if arp_state e = ETHARP_STATE_PENDING then
        (if arp_q e \<noteq> None then
           (if arp_ctime e \<ge> c_age_queue c then c\<lparr>c_old_queue := i, c_age_queue := arp_ctime e\<rparr> else c)
         else if arp_ctime e \<ge> c_age_pending c then c\<lparr>c_old_pending := i, c_age_pending := arp_ctime e\<rparr> else c)
      else if arp_state e \<ge> ETHARP_STATE_STABLE then
        (if arp_ctime e \<ge> c_age_stable c then c\<lparr>c_old_stable := i, c_age_stable := arp_ctime e\<rparr> else c)
      else c)"

text \<open>The sweep returns the matching entry, or the candidates for a new one.\<close>

fun sweep :: "u32 option \<Rightarrow> nat option \<Rightarrow> nat \<Rightarrow> etharp_entry list \<Rightarrow> candidates \<Rightarrow> nat + candidates" where
  "sweep ipaddr nif i [] c = Inr c"
| "sweep ipaddr nif i (e # es) c =
     (if c_empty c = ARP_TABLE_SIZE \<and> arp_state e = ETHARP_STATE_EMPTY then sweep ipaddr nif (i + 1) es (c\<lparr>c_empty := i\<rparr>)
      else if arp_state e \<noteq> ETHARP_STATE_EMPTY then
        (if arp_match ipaddr nif e then Inl i else sweep ipaddr nif (i + 1) es (remember i e c))
      else sweep ipaddr nif (i + 1) es c)"

text \<open>The entry to recycle; a stable entry with a queued packet is a failed assertion.\<close>

definition recycle :: "candidates \<Rightarrow> 'a astate_scheme \<Rightarrow> (nat option \<times> 'a astate_scheme) option" where
  "recycle c w =
     (if c_empty c < ARP_TABLE_SIZE then Some (Some (c_empty c), w)
      else do {
        i \<leftarrow> (if c_old_stable c < ARP_TABLE_SIZE then
                (if arp_q (arp w (c_old_stable c)) \<noteq> None then None else Some (Some (c_old_stable c)))
              else if c_old_pending c < ARP_TABLE_SIZE then Some (Some (c_old_pending c))
              else if c_old_queue c < ARP_TABLE_SIZE then Some (Some (c_old_queue c))
              else Some None);
        case i of
          None \<Rightarrow> Some (None, w)
        | Some i \<Rightarrow> do { w \<leftarrow> etharp_free_entry i w; Some (Some i, w) }
      })"

definition etharp_find_entry ::
  "u32 option \<Rightarrow> u8 \<Rightarrow> nat option \<Rightarrow> 'a astate_scheme \<Rightarrow> ((err_t + nat) \<times> 'a astate_scheme) option" where
  "etharp_find_entry ipaddr flags nif w =
     (case sweep ipaddr nif 0 (take ARP_TABLE_SIZE (arp_table w)) no_candidates of
        Inl i \<Rightarrow> Some (Inr i, w)
      | Inr c \<Rightarrow>
          if flags AND ETHARP_FLAG_FIND_ONLY \<noteq> 0 \<or> c_empty c = ARP_TABLE_SIZE \<and> flags AND ETHARP_FLAG_TRY_HARD = 0
          then Some (Inl ERR_MEM, w)
          else do {
            (i, w) \<leftarrow> recycle c w;
            case i of
              None \<Rightarrow> Some (Inl ERR_MEM, w)
            | Some i \<Rightarrow>
                if arp_state (arp w i) \<noteq> ETHARP_STATE_EMPTY then None
                else
                  Some (Inr i, set_arp i (\<lambda>e. (case ipaddr of None \<Rightarrow> e | Some a \<Rightarrow> e\<lparr>arp_ipaddr := a\<rparr>)
                                              \<lparr>arp_ctime := 0, arp_netif := nif\<rparr>) w)
          })"

section \<open>Updating the table\<close>

definition ip4_addr_isbroadcast :: "u32 \<Rightarrow> nat \<Rightarrow> 'a dstate_scheme \<Rightarrow> bool" where
  "ip4_addr_isbroadcast addr nif w = ip4_addr_isbroadcast_u32 addr (netifs w nif)"

definition etharp_update_arp_entry ::
  "nat \<Rightarrow> u32 \<Rightarrow> bytes \<Rightarrow> u8 \<Rightarrow> 'a astate_scheme \<Rightarrow> (err_t \<times> 'a astate_scheme) option" where
  "etharp_update_arp_entry nif ipaddr ethaddr flags w =
     (if unat (hwaddr_len (netifs w nif)) \<noteq> ETH_HWADDR_LEN then None
      else if ip4_addr_isany_val ipaddr \<or> ip4_addr_isbroadcast ipaddr nif w \<or> ip4_addr_ismulticast ipaddr then Some (ERR_ARG, w)
      else do {
        (i, w) \<leftarrow> etharp_find_entry (Some ipaddr) flags (Some nif) w;
        case i of
          Inl e \<Rightarrow> Some (e, w)
        | Inr i \<Rightarrow> do {
            let w = set_arp i (\<lambda>e. e\<lparr>arp_state := ETHARP_STATE_STABLE, arp_netif := Some nif,
                                    arp_ethaddr := take ETH_HWADDR_LEN ethaddr, arp_ctime := 0\<rparr>) w;
            case arp_q (arp w i) of
              None \<Rightarrow> Some (ERR_OK, w)
            | Some p \<Rightarrow> do {
                let w = set_arp i (\<lambda>e. e\<lparr>arp_q := None\<rparr>) w;
                (_, w) \<leftarrow> ethernet_output nif p (hwaddr (netifs w nif)) ethaddr ETHTYPE_IP w;
                w \<leftarrow> free_packet p w;
                Some (ERR_OK, w)
              }
          }
      })"

fun cleanup_loop :: "nat \<Rightarrow> nat list \<Rightarrow> 'a astate_scheme \<Rightarrow> 'a astate_scheme option" where
  "cleanup_loop nif [] w = Some w"
| "cleanup_loop nif (i # is) w = do {
     w \<leftarrow> (if arp_state (arp w i) \<noteq> ETHARP_STATE_EMPTY \<and> arp_netif (arp w i) = Some nif then etharp_free_entry i w else Some w);
     cleanup_loop nif is w
   }"

definition etharp_cleanup_netif :: "nat \<Rightarrow> 'a astate_scheme \<Rightarrow> 'a astate_scheme option" where
  "etharp_cleanup_netif nif w = cleanup_loop nif [0..<ARP_TABLE_SIZE] w"

definition etharp_find_addr ::
  "nat option \<Rightarrow> u32 \<Rightarrow> 'a astate_scheme \<Rightarrow> ((nat \<times> bytes \<times> u32) option \<times> 'a astate_scheme) option" where
  "etharp_find_addr nif ipaddr w = do {
     (i, w) \<leftarrow> etharp_find_entry (Some ipaddr) ETHARP_FLAG_FIND_ONLY nif w;
     case i of
       Inl _ \<Rightarrow> Some (None, w)
     | Inr i \<Rightarrow>
         if arp_state (arp w i) \<ge> ETHARP_STATE_STABLE then Some (Some (i, arp_ethaddr (arp w i), arp_ipaddr (arp w i)), w)
         else Some (None, w)
   }"

definition etharp_get_entry :: "nat \<Rightarrow> 'a astate_scheme \<Rightarrow> (u32 \<times> nat option \<times> bytes) option" where
  "etharp_get_entry i w =
     (if i < ARP_TABLE_SIZE \<and> arp_state (arp w i) \<ge> ETHARP_STATE_STABLE
      then Some (arp_ipaddr (arp w i), arp_netif (arp w i), arp_ethaddr (arp w i)) else None)"

section \<open>Input\<close>

definition etharp_input :: "nat \<Rightarrow> nat \<Rightarrow> 'a astate_scheme \<Rightarrow> 'a astate_scheme option" where
  "etharp_input p nif w =
     (let hdr = payload (pbufs w p)
      in if get16 (hdr + hwtype_off) w \<noteq> PP_HTONS LWIP_IANA_HWTYPE_ETHERNET \<or> unat (get8 (hdr + hwlen_off) w) \<noteq> ETH_HWADDR_LEN \<or>
            get8 (hdr + protolen_off) w \<noteq> 4 \<or> get16 (hdr + proto_off) w \<noteq> PP_HTONS ETHTYPE_IP
         then free_packet p w
         else do {
           let sipaddr = get32 (hdr + sipaddr_off) w;
           let dipaddr = get32 (hdr + dipaddr_off) w;
           let for_us = (if ip4_addr_isany_val (ip_addr (netifs w nif)) then False else dipaddr = ip_addr (netifs w nif));
           (_, w) \<leftarrow> etharp_update_arp_entry nif sipaddr (get_bytes (hdr + shwaddr_off) ETH_HWADDR_LEN w)
                       (if for_us then ETHARP_FLAG_TRY_HARD else ETHARP_FLAG_FIND_ONLY) w;
           w \<leftarrow>
             (if get16 (hdr + opcode_off) w = PP_HTONS ARP_REQUEST \<and> for_us then do {
                let shwaddr = get_bytes (hdr + shwaddr_off) ETH_HWADDR_LEN w;
                (_, w) \<leftarrow> etharp_raw (Some nif) (hwaddr (netifs w nif)) shwaddr (hwaddr (netifs w nif)) (ip_addr (netifs w nif))
                            shwaddr sipaddr ARP_REPLY w;
                Some w
              } else Some w);
           free_packet p w
         })"

section \<open>Output\<close>

definition etharp_output_to_arp_index :: "nat \<Rightarrow> nat \<Rightarrow> nat \<Rightarrow> 'a astate_scheme \<Rightarrow> (err_t \<times> 'a astate_scheme) option" where
  "etharp_output_to_arp_index nif q arp_idx w =
     (if \<not> arp_state (arp w arp_idx) \<ge> ETHARP_STATE_STABLE then None
      else do {
        w \<leftarrow>
          (if arp_state (arp w arp_idx) = ETHARP_STATE_STABLE then
             (if arp_ctime (arp w arp_idx) \<ge> ARP_AGE_REREQUEST_USED_BROADCAST then do {
                (e, w) \<leftarrow> etharp_request (Some nif) (arp_ipaddr (arp w arp_idx)) w;
                Some (if e = ERR_OK then set_arp arp_idx (\<lambda>e. e\<lparr>arp_state := ETHARP_STATE_STABLE_REREQUESTING_1\<rparr>) w else w)
              }
              else if arp_ctime (arp w arp_idx) \<ge> ARP_AGE_REREQUEST_USED_UNICAST then do {
                (e, w) \<leftarrow> etharp_request_dst (Some nif) (arp_ipaddr (arp w arp_idx)) (arp_ethaddr (arp w arp_idx)) w;
                Some (if e = ERR_OK then set_arp arp_idx (\<lambda>e. e\<lparr>arp_state := ETHARP_STATE_STABLE_REREQUESTING_1\<rparr>) w else w)
              }
              else Some w)
           else Some w);
        ethernet_output nif q (hwaddr (netifs w nif)) (arp_ethaddr (arp w arp_idx)) ETHTYPE_IP w
      })"

text \<open>Whether the packet has a pbuf that must be copied; a chain of packets is a failed assertion.\<close>

partial_function (option) copy_needed :: "nat option \<Rightarrow> 'a mstate_scheme \<Rightarrow> bool option" where
  "copy_needed p w =
     (case p of
        None \<Rightarrow> Some False
      | Some p \<Rightarrow>
          if plen (pbufs w p) = ptot (pbufs w p) \<and> nxt (pbufs w p) \<noteq> None then None
          else if PBUF_NEEDS_COPY (pbufs w p) then Some True
          else copy_needed (nxt (pbufs w p)) w)"

text \<open>Queueing a packet on a pending entry.\<close>

definition enqueue :: "nat \<Rightarrow> nat \<Rightarrow> 'a astate_scheme \<Rightarrow> (err_t \<times> 'a astate_scheme) option" where
  "enqueue i q w = do {
     c \<leftarrow> copy_needed (Some q) w;
     (p, w) \<leftarrow> (if c then pbuf_clone PBUF_LINK PBUF_RAM q w else do { w \<leftarrow> pbuf_ref (Some q) w; Some (Some q, w) });
     case p of
       None \<Rightarrow> Some (ERR_MEM, w)
     | Some p \<Rightarrow> do {
         w \<leftarrow> (case arp_q (arp w i) of None \<Rightarrow> Some w | Some old \<Rightarrow> free_packet old w);
         Some (ERR_OK, set_arp i (\<lambda>e. e\<lparr>arp_q := Some p\<rparr>) w)
       }
   }"

definition etharp_query :: "nat \<Rightarrow> u32 \<Rightarrow> nat option \<Rightarrow> 'a astate_scheme \<Rightarrow> (err_t \<times> 'a astate_scheme) option" where
  "etharp_query nif ipaddr q w =
     (if ip4_addr_isbroadcast ipaddr nif w \<or> ip4_addr_ismulticast ipaddr \<or> ip4_addr_isany_val ipaddr then Some (ERR_ARG, w)
      else do {
        (i, w) \<leftarrow> etharp_find_entry (Some ipaddr) ETHARP_FLAG_TRY_HARD (Some nif) w;
        case i of
          Inl e \<Rightarrow> Some (e, w)
        | Inr i \<Rightarrow> do {
            let is_new_entry = (arp_state (arp w i) = ETHARP_STATE_EMPTY);
            let w = (if is_new_entry
                     then set_arp i (\<lambda>e. e\<lparr>arp_state := ETHARP_STATE_PENDING, arp_netif := Some nif\<rparr>) w else w);
            (result, w) \<leftarrow>
              (if is_new_entry \<or> q = None then do {
                 (e, w) \<leftarrow> etharp_request (Some nif) ipaddr w;
                 Some (e, if e = ERR_OK \<and> arp_state (arp w i) = ETHARP_STATE_PENDING \<and> \<not> is_new_entry
                          then set_arp i (\<lambda>e. e\<lparr>arp_ctime := 0\<rparr>) w else w)
               } else Some (ERR_MEM, w));
            case q of
              None \<Rightarrow> Some (result, w)
            | Some q \<Rightarrow>
                if arp_state (arp w i) \<ge> ETHARP_STATE_STABLE then
                  ethernet_output nif q (hwaddr (netifs w nif)) (arp_ethaddr (arp w i)) ETHTYPE_IP (w\<lparr>etharp_cached_entry := i\<rparr>)
                else if arp_state (arp w i) = ETHARP_STATE_PENDING then enqueue i q w
                else Some (result, w)
          }
      })"

definition usable :: "u32 \<Rightarrow> nat \<Rightarrow> etharp_entry \<Rightarrow> bool" where
  "usable dst_addr nif e \<longleftrightarrow> arp_state e \<ge> ETHARP_STATE_STABLE \<and> arp_netif e = Some nif \<and> dst_addr = arp_ipaddr e"

definition multicast_mac :: "u32 \<Rightarrow> bytes" where
  "multicast_mac ipaddr =
     [0x01, 0x00, 0x5e, le_bytes ipaddr ! 1 AND 0x7f, le_bytes ipaddr ! 2, le_bytes ipaddr ! 3]"

definition etharp_output :: "nat \<Rightarrow> nat \<Rightarrow> u32 \<Rightarrow> 'a astate_scheme \<Rightarrow> (err_t \<times> 'a astate_scheme) option" where
  "etharp_output nif q ipaddr w =
     (let n = netifs w nif
      in if ip4_addr_isbroadcast ipaddr nif w then ethernet_output nif q (hwaddr n) ethbroadcast ETHTYPE_IP w
         else if ip4_addr_ismulticast ipaddr then ethernet_output nif q (hwaddr n) (multicast_mac ipaddr) ETHTYPE_IP w
         else
           (let outside_net = \<not> ip4_addr_netcmp ipaddr (ip_addr n) (netmask n) \<and> \<not> ip4_addr_islinklocal ipaddr
            in if outside_net \<and> ip4_addr_isany_val (gw n) then Some (ERR_RTE, w)
               else
                 (let dst_addr = (if outside_net then gw n else ipaddr)
                  in if usable dst_addr nif (arp w (etharp_cached_entry w))
                     then etharp_output_to_arp_index nif q (etharp_cached_entry w) w
                     else
                       (case List.find (\<lambda>i. usable dst_addr nif (arp w i)) [0..<ARP_TABLE_SIZE] of
                          Some i \<Rightarrow> etharp_output_to_arp_index nif q i (w\<lparr>etharp_cached_entry := i\<rparr>)
                        | None \<Rightarrow> etharp_query nif dst_addr (Some q) w))))"

end
