(* ===== verification/Etharp_Frame.thy ===== *)
theory Etharp_Frame
  imports Etharp
begin

text \<open>
  The invariant of the ARP table, and that every operation keeps it: the driver and the packet buffers below never touch
  the table, and each operation of \<^verbatim>\<open>etharp.c\<close> changes one entry at a time.
\<close>

section \<open>What the layers below leave alone\<close>

definition fixed :: "'a dstate_scheme \<Rightarrow> nat \<times> (memp_t \<Rightarrow> memp_desc) \<times> (nat \<Rightarrow> netif) \<times> nat \<times> (nat \<Rightarrow> bool) \<times> 'a" where
  "fixed w = (ram (hp w), desc (pl w), netifs w, mac_base (mac w), reader_ready (mac w), dstate.more w)"

lemma static_driver:
  fixes w w' :: "'a dstate_scheme"
  assumes "static w' = static w"
  shows "netifs w' = netifs w" "mac w' = mac w" "txslot w' = txslot w" "dstate.more w' = dstate.more w" "fixed w' = fixed w"
  using assms by (cases w; cases w'; simp add: static_def fixed_def)+

lemma fixed_mac: "mac_base (f (mac w)) = mac_base (mac w) \<Longrightarrow> reader_ready (f (mac w)) = reader_ready (mac w) \<Longrightarrow> fixed (set_mac f w) = fixed w"
  by (simp add: fixed_def)

lemma fixed_leds [simp]: "fixed (debug_leds_out_write v w) = fixed w"
  by (simp add: fixed_mac debug_leds_out_write_def)

lemma wait_ready_fixed: "wait_ready w = Some w' \<Longrightarrow> fixed w' = fixed w"
  by (erule wait_ready.raw_induct [rotated]) (auto simp: Let_def fixed_mac split: if_splits)

lemma fixed_memcpy [simp]: "fixed (memcpy d s n w) = fixed w"
  by (simp add: fixed_def memcpy_def)

lemma tx_copy_fixed: "tx_copy q d l w = Some y \<Longrightarrow> fixed (snd y) = fixed w"
  by (erule tx_copy.raw_induct [rotated]) (auto simp: Let_def split: option.splits if_splits)

lemma fixed_txslot [simp]: "fixed (w\<lparr>txslot := s\<rparr>) = fixed w"
  by (simp add: fixed_def)

lemma low_level_output_fixed: "low_level_output n p w = Some y \<Longrightarrow> fixed (snd y) = fixed w"
  by (auto simp: low_level_output_def Let_def bind_eq_Some_conv fixed_mac ethmac_sram_reader_start_write_def
      split: option.splits dest!: wait_ready_fixed tx_copy_fixed)

lemma fixed_puts [simp]:
  fixes w :: "'a dstate_scheme"
  shows "fixed (put_bytes a bs w) = fixed w" "fixed (put8 a x w) = fixed w" "fixed (put16 a y w) = fixed w" "fixed (put32 a z w) = fixed w"
  by (simp_all add: fixed_def put_bytes_def put8_def put16_def put32_def)

lemma fixed_write_etharp_hdr [simp]: "fixed (write_etharp_hdr h a i b j op w) = fixed w"
  by (simp add: write_etharp_hdr_def Let_def)

lemma netif_linkoutput_fixed: "netif_linkoutput n p w = Some y \<Longrightarrow> fixed (snd y) = fixed w"
  by (auto simp: netif_linkoutput_def split: netif_linkoutput_fn.splits dest: low_level_output_fixed)

lemma ethernet_output_fixed:
  assumes "ethernet_output n p s d t w = Some y"
  shows "fixed (snd y) = fixed w"
proof -
  obtain r w1 where h: "pbuf_add_header p SIZEOF_ETH_HDR w = (r, w1)" by fastforce
  then have f: "fixed w1 = fixed w" using header_static(2) [of p SIZEOF_ETH_HDR w] static_driver(5) [of w1 w] by simp
  show ?thesis
  proof (cases "r = 0")
    case False
    then show ?thesis using assms h f by (auto simp: ethernet_output_def)
  next
    case True
    let ?e = "payload (pbufs w1 p)"
    have "netif_linkoutput n p (put_bytes (?e + 6) (take ETH_HWADDR_LEN s) (put_bytes ?e (take ETH_HWADDR_LEN d)
        (put16 (?e + 12) (lwip_htons t) w1))) = Some y"
      using assms True h unfolding ethernet_output_def Let_def by (simp split: if_splits)
    from netif_linkoutput_fixed [OF this] f show ?thesis by simp
  qed
qed

lemma free_packet_static: "free_packet p w = Some w' \<Longrightarrow> static w' = static w"
  by (auto simp: free_packet_def bind_eq_Some_conv dest: pbuf_free_static)

lemma free_packet_fixed: "free_packet p w = Some w' \<Longrightarrow> fixed w' = fixed w"
  using free_packet_static static_driver(5) by blast

lemma send_and_free_fixed:
  assumes "do { (_, w) \<leftarrow> ethernet_output n p s d t w; w \<leftarrow> free_packet p w; Some (e, w) } = Some y"
  shows "fixed (snd y) = fixed w"
proof -
  obtain e1 w1 w2 where 1: "ethernet_output n p s d t w = Some (e1, w1)" and 2: "free_packet p w1 = Some w2" and "y = (e, w2)"
    using assms by (auto simp: bind_eq_Some_conv)
  then show ?thesis using ethernet_output_fixed [OF 1] free_packet_fixed [OF 2] by simp
qed

lemma etharp_raw_fixed:
  assumes "etharp_raw nif es ed hs si hwd di op w = Some y"
  shows "fixed (snd y) = fixed w"
proof -
  obtain n r w1 where n: "nif = Some n" and a: "pbuf_alloc PBUF_LINK (of_nat SIZEOF_ETHARP_HDR) PBUF_RAM w = Some (r, w1)"
    using assms by (auto simp: etharp_raw_def bind_eq_Some_conv split: option.splits)
  have f: "fixed w1 = fixed w" using pbuf_alloc_static [OF a] static_driver(5) [of w1 w] by simp
  show ?thesis
  proof (cases r)
    case None
    then show ?thesis using assms n a f by (auto simp: etharp_raw_def)
  next
    case (Some p)
    then have "do { (_, w) \<leftarrow> ethernet_output n p es ed ETHTYPE_ARP (write_etharp_hdr (payload (pbufs w1 p)) hs si hwd di op w1);
        w \<leftarrow> free_packet p w; Some (ERR_OK, w) } = Some y"
      using assms n a by (simp add: etharp_raw_def Let_def split: if_splits)
    from send_and_free_fixed [OF this] f show ?thesis by simp
  qed
qed

lemma etharp_request_fixed:
  "etharp_request_dst nif ip hw w = Some y \<Longrightarrow> fixed (snd y) = fixed w" "etharp_request nif ip w = Some y \<Longrightarrow> fixed (snd y) = fixed w"
  by (auto simp: etharp_request_def etharp_request_dst_def split: option.splits dest: etharp_raw_fixed)

lemma fixed_arp:
  fixes w w' :: "'a astate_scheme"
  assumes "fixed w' = fixed w"
  shows "arp_table w' = arp_table w" "etharp_cached_entry w' = etharp_cached_entry w" "astate.more w' = astate.more w" "netifs w' = netifs w"
  using assms by (cases w; cases w'; simp add: fixed_def)+

section \<open>The invariant\<close>

definition arp_ok :: "etharp_entry list \<Rightarrow> bool" where
  "arp_ok t \<longleftrightarrow>
     length t = ARP_TABLE_SIZE \<and>
     (\<forall>e\<in>set t. (arp_q e \<noteq> None \<longrightarrow> arp_state e = ETHARP_STATE_PENDING) \<and> length (arp_ethaddr e) = ETH_HWADDR_LEN \<and>
        (arp_state e \<noteq> ETHARP_STATE_EMPTY \<longrightarrow> arp_netif e \<noteq> None)) \<and>
     (\<forall>i<ARP_TABLE_SIZE. \<forall>j<ARP_TABLE_SIZE.
        arp_state (t ! i) \<noteq> ETHARP_STATE_EMPTY \<and> arp_state (t ! j) \<noteq> ETHARP_STATE_EMPTY \<and>
        arp_ipaddr (t ! i) = arp_ipaddr (t ! j) \<and> arp_netif (t ! i) = arp_netif (t ! j) \<longrightarrow> i = j)"

definition arp_inv :: "'a astate_scheme \<Rightarrow> bool" where
  "arp_inv w \<longleftrightarrow> arp_ok (arp_table w) \<and> etharp_cached_entry w < ARP_TABLE_SIZE"

lemma arp_inv_fixed: "fixed w' = fixed w \<Longrightarrow> arp_inv w' = arp_inv w"
  using fixed_arp [of w' w] by (simp add: arp_inv_def)

lemma arp_okD: "arp_ok t \<Longrightarrow> i < ARP_TABLE_SIZE \<Longrightarrow> i < length t \<and> t ! i \<in> set t"
  by (simp add: arp_ok_def)

text \<open>
  Replacing an entry keeps the invariant when the new entry is well formed by itself and, unless it is empty, no other
  entry has its address.
\<close>

lemma arp_ok_update:
  assumes "arp_ok t" "i < ARP_TABLE_SIZE" "length (arp_ethaddr e) = ETH_HWADDR_LEN"
    "arp_q e \<noteq> None \<Longrightarrow> arp_state e = ETHARP_STATE_PENDING"
    "arp_state e \<noteq> ETHARP_STATE_EMPTY \<Longrightarrow> arp_netif e \<noteq> None \<and>
       (\<forall>j<ARP_TABLE_SIZE. j \<noteq> i \<and> arp_state (t ! j) \<noteq> ETHARP_STATE_EMPTY \<longrightarrow> \<not> (arp_ipaddr (t ! j) = arp_ipaddr e \<and> arp_netif (t ! j) = arp_netif e))"
  shows "arp_ok (t[i := e])"
proof -
  have len: "length t = ARP_TABLE_SIZE" using assms(1) by (simp add: arp_ok_def)
  have "(arp_q x \<noteq> None \<longrightarrow> arp_state x = ETHARP_STATE_PENDING) \<and> length (arp_ethaddr x) = ETH_HWADDR_LEN \<and>
      (arp_state x \<noteq> ETHARP_STATE_EMPTY \<longrightarrow> arp_netif x \<noteq> None)" if "x \<in> set (t[i := e])" for x
  proof -
    have "x = e \<or> x \<in> set t" using that set_update_subset_insert by fastforce
    then show ?thesis using assms by (auto simp: arp_ok_def)
  qed
  moreover have "a = b" if "a < ARP_TABLE_SIZE" "b < ARP_TABLE_SIZE" "arp_state (t[i := e] ! a) \<noteq> ETHARP_STATE_EMPTY"
    "arp_state (t[i := e] ! b) \<noteq> ETHARP_STATE_EMPTY" "arp_ipaddr (t[i := e] ! a) = arp_ipaddr (t[i := e] ! b)"
    "arp_netif (t[i := e] ! a) = arp_netif (t[i := e] ! b)" for a b
  proof (cases "a = i"; cases "b = i")
    assume "a = i" "b \<noteq> i"
    then show ?thesis using that assms(2,5) len by auto
  next
    assume "a \<noteq> i" "b = i"
    then show ?thesis using that assms(2,5) len by auto
  next
    assume "a \<noteq> i" "b \<noteq> i"
    then show ?thesis using that assms(1) len by (auto simp: arp_ok_def)
  qed simp
  ultimately show ?thesis using len unfolding arp_ok_def length_list_update by blast
qed

lemma set_arp_sel [simp]:
  "hp (set_arp i f w) = hp w" "pl (set_arp i f w) = pl w" "pbufs (set_arp i f w) = pbufs w" "ram_bytes (set_arp i f w) = ram_bytes w"
  "netifs (set_arp i f w) = netifs w" "mac (set_arp i f w) = mac w" "txslot (set_arp i f w) = txslot w"
  "etharp_cached_entry (set_arp i f w) = etharp_cached_entry w" "astate.more (set_arp i f w) = astate.more w"
  "arp_table (set_arp i f w) = (arp_table w)[i := f (arp w i)]"
  by (simp_all add: set_arp_def arp_def)

lemma arp_set_arp [simp]: "i < length (arp_table w) \<Longrightarrow> arp (set_arp i f w) i = f (arp w i)" "j \<noteq> i \<Longrightarrow> arp (set_arp i f w) j = arp w j"
  by (simp_all add: arp_def)

lemma arp_inv_entry:
  assumes "arp_inv w" "i < ARP_TABLE_SIZE"
  shows "i < length (arp_table w)" "arp_q (arp w i) \<noteq> None \<Longrightarrow> arp_state (arp w i) = ETHARP_STATE_PENDING"
    "length (arp_ethaddr (arp w i)) = ETH_HWADDR_LEN" "arp_state (arp w i) \<noteq> ETHARP_STATE_EMPTY \<Longrightarrow> arp_netif (arp w i) \<noteq> None"
  using assms by (auto simp: arp_inv_def arp_ok_def arp_def)

text \<open>A change of an entry that keeps its address and does not revive it.\<close>

lemma arp_inv_set:
  assumes "arp_inv w" "i < ARP_TABLE_SIZE" "length (arp_ethaddr (f (arp w i))) = ETH_HWADDR_LEN"
    "arp_q (f (arp w i)) \<noteq> None \<Longrightarrow> arp_state (f (arp w i)) = ETHARP_STATE_PENDING"
    "arp_state (f (arp w i)) \<noteq> ETHARP_STATE_EMPTY \<Longrightarrow> arp_netif (f (arp w i)) = arp_netif (arp w i) \<and>
       arp_ipaddr (f (arp w i)) = arp_ipaddr (arp w i) \<and> arp_state (arp w i) \<noteq> ETHARP_STATE_EMPTY"
  shows "arp_inv (set_arp i f w)"
proof -
  have ok: "arp_ok (arp_table w)" using assms(1) by (simp add: arp_inv_def)
  have "arp_ok ((arp_table w)[i := f (arp w i)])"
  proof (rule arp_ok_update [OF ok assms(2-4)])
    assume "arp_state (f (arp w i)) \<noteq> ETHARP_STATE_EMPTY"
    note k = assms(5) [OF this]
    moreover from k have "arp_netif (arp w i) \<noteq> None" using arp_inv_entry(4) [OF assms(1,2)] by simp
    ultimately show "arp_netif (f (arp w i)) \<noteq> None \<and> (\<forall>j<ARP_TABLE_SIZE. j \<noteq> i \<and> arp_state (arp_table w ! j) \<noteq> ETHARP_STATE_EMPTY \<longrightarrow>
        \<not> (arp_ipaddr (arp_table w ! j) = arp_ipaddr (f (arp w i)) \<and> arp_netif (arp_table w ! j) = arp_netif (f (arp w i))))"
      using ok assms(2) by (auto simp: arp_ok_def arp_def)
  qed
  then show ?thesis using assms(1) by (simp add: arp_inv_def)
qed

section \<open>Freeing and finding entries\<close>

definition freed :: "etharp_entry \<Rightarrow> etharp_entry" where
  "freed e = e\<lparr>arp_q := None, arp_state := ETHARP_STATE_EMPTY\<rparr>"

lemma etharp_free_entry_table:
  assumes "etharp_free_entry i w = Some w'"
  shows "arp_table w' = (arp_table w)[i := freed (arp w i)] \<and> etharp_cached_entry w' = etharp_cached_entry w \<and> netifs w' = netifs w"
proof (cases "arp_q (arp w i)")
  case None
  then have "freed (arp w i) = (arp w i)\<lparr>arp_state := ETHARP_STATE_EMPTY\<rparr>" by (cases "arp w i") (simp add: freed_def)
  then show ?thesis using assms None by (auto simp: etharp_free_entry_def)
next
  case (Some q)
  then obtain w1 where 1: "free_packet q w = Some w1"
    and w': "w' = set_arp i (\<lambda>e. e\<lparr>arp_state := ETHARP_STATE_EMPTY\<rparr>) (set_arp i (\<lambda>e. e\<lparr>arp_q := None\<rparr>) w1)"
    using assms by (auto simp: etharp_free_entry_def bind_eq_Some_conv)
  note f = fixed_arp [OF free_packet_fixed [OF 1]]
  show ?thesis
  proof (cases "i < length (arp_table w)")
    case True
    then show ?thesis using f by (simp add: w' freed_def arp_def set_arp_def)
  next
    case False
    then show ?thesis using f by (simp add: w' set_arp_def list_update_beyond)
  qed
qed

lemma etharp_free_entry_inv:
  assumes "etharp_free_entry i w = Some w'" "arp_inv w" "i < ARP_TABLE_SIZE"
  shows "arp_inv w'"
proof -
  have "arp_inv (set_arp i freed w)"
    using arp_inv_entry [OF assms(2,3)] by (intro arp_inv_set assms(2,3)) (simp_all add: freed_def)
  then show ?thesis using etharp_free_entry_table [OF assms(1)] by (simp add: arp_inv_def)
qed

lemma remember_range:
  "c_empty (remember i e c) = c_empty c" "c_old_stable (remember i e c) \<in> {i, c_old_stable c}"
  "c_old_pending (remember i e c) \<in> {i, c_old_pending c}" "c_old_queue (remember i e c) \<in> {i, c_old_queue c}"
  by (simp_all add: remember_def)

lemma sweep_hit:
  "sweep a nif i es c = Inl k \<Longrightarrow>
   i \<le> k \<and> k < i + length es \<and> arp_match a nif (es ! (k - i)) \<and> arp_state (es ! (k - i)) \<noteq> ETHARP_STATE_EMPTY"
proof (induction es arbitrary: i c)
  case (Cons e es)
  consider "k = i" "arp_match a nif e" "arp_state e \<noteq> ETHARP_STATE_EMPTY" | c' where "sweep a nif (i + 1) es c' = Inl k"
    using Cons.prems by (cases "arp_state e = ETHARP_STATE_EMPTY"; cases "arp_match a nif e"; cases "c_empty c = ARP_TABLE_SIZE") simp_all
  then show ?case
  proof cases
    case 2
    then have k: "i + 1 \<le> k" "k < i + 1 + length es" "arp_match a nif (es ! (k - (i + 1)))" "arp_state (es ! (k - (i + 1))) \<noteq> ETHARP_STATE_EMPTY"
      using Cons.IH [of "i + 1" c'] by blast+
    then obtain d where "k = i + 1 + d" using le_Suc_ex by blast
    then show ?thesis using k by simp
  qed simp
qed simp

lemma sweep_miss:
  "sweep a nif i es c = Inr d \<Longrightarrow> \<forall>e\<in>set es. arp_state e \<noteq> ETHARP_STATE_EMPTY \<longrightarrow> \<not> arp_match a nif e"
  by (induction es arbitrary: i c) (auto split: if_splits)

lemma sweep_empty:
  "sweep a nif i es c = Inr d \<Longrightarrow> i + length es \<le> ARP_TABLE_SIZE \<Longrightarrow>
   c_empty d = c_empty c \<or> i \<le> c_empty d \<and> c_empty d < i + length es \<and> arp_state (es ! (c_empty d - i)) = ETHARP_STATE_EMPTY"
proof (induction es arbitrary: i c)
  case (Cons e es)
  show ?case
  proof (cases "c_empty c = ARP_TABLE_SIZE \<and> arp_state e = ETHARP_STATE_EMPTY")
    case True
    then show ?thesis using Cons.prems Cons.IH [of "i + 1" "c\<lparr>c_empty := i\<rparr>"] by (auto simp: nth_Cons')
  next
    case False
    then obtain c' where "sweep a nif (i + 1) es c' = Inr d" "c_empty c' = c_empty c"
      using Cons.prems remember_range(1) by (auto split: if_splits)
    then show ?thesis using Cons.prems(2) Cons.IH [of "i + 1" c'] by (auto simp: nth_Cons')
  qed
qed simp

lemma recycle_inv:
  assumes "recycle c w = Some (r, w')" "arp_inv w" "c_empty c < ARP_TABLE_SIZE \<Longrightarrow> arp_state (arp w (c_empty c)) = ETHARP_STATE_EMPTY"
  shows "arp_inv w' \<and> netifs w' = netifs w \<and> etharp_cached_entry w' = etharp_cached_entry w \<and>
    (case r of None \<Rightarrow> arp_table w' = arp_table w
     | Some i \<Rightarrow> i < ARP_TABLE_SIZE \<and> arp_table w' = (arp_table w)[i := freed (arp w i)])"
proof (cases "c_empty c < ARP_TABLE_SIZE")
  case True
  have "freed (arp w (c_empty c)) = arp w (c_empty c)"
    using assms(3) [OF True] arp_inv_entry(2) [OF assms(2) True] by (cases "arp w (c_empty c)"; cases "arp_q (arp w (c_empty c))") (auto simp: freed_def)
  then show ?thesis using assms True by (auto simp: recycle_def arp_def)
next
  case False
  then have "r = None \<and> w' = w \<or> (\<exists>i. r = Some i \<and> i < ARP_TABLE_SIZE \<and> etharp_free_entry i w = Some w')"
    using assms(1) by (auto simp: recycle_def bind_eq_Some_conv split: if_splits option.splits)
  then show ?thesis using assms(2) etharp_free_entry_inv etharp_free_entry_table by fastforce
qed

text \<open>
  What \<^verbatim>\<open>etharp_find_entry\<close> gives for an address: the entry that has it, with the table unchanged, or an entry that is free
  now and belongs to the address, which no other entry in use has.
\<close>

definition claimed :: "u32 \<Rightarrow> nat \<Rightarrow> etharp_entry \<Rightarrow> etharp_entry" where
  "claimed ip n e = (freed e)\<lparr>arp_ipaddr := ip, arp_ctime := 0, arp_netif := Some n\<rparr>"

definition sole :: "u32 \<Rightarrow> nat \<Rightarrow> nat \<Rightarrow> 'a astate_scheme \<Rightarrow> bool" where
  "sole ip n i w \<longleftrightarrow>
     i < ARP_TABLE_SIZE \<and> arp_ipaddr (arp w i) = ip \<and> arp_netif (arp w i) = Some n \<and>
     (\<forall>j<ARP_TABLE_SIZE. j \<noteq> i \<and> arp_state (arp w j) \<noteq> ETHARP_STATE_EMPTY \<longrightarrow> \<not> (arp_ipaddr (arp w j) = ip \<and> arp_netif (arp w j) = Some n))"

lemma etharp_find_entry_inv:
  assumes "etharp_find_entry (Some ip) fl (Some n) w = Some (r, w')" "arp_inv w"
  shows "arp_inv w' \<and> netifs w' = netifs w \<and> etharp_cached_entry w' = etharp_cached_entry w \<and>
    (case r of Inl _ \<Rightarrow> arp_table w' = arp_table w
     | Inr i \<Rightarrow> sole ip n i w' \<and>
         (w' = w \<and> arp_state (arp w i) \<noteq> ETHARP_STATE_EMPTY \<or> arp_table w' = (arp_table w)[i := claimed ip n (arp w i)]))"
proof -
  have t: "take ARP_TABLE_SIZE (arp_table w) = arp_table w" and len: "length (arp_table w) = ARP_TABLE_SIZE"
    and ok: "arp_ok (arp_table w)"
    using assms(2) by (simp_all add: arp_inv_def arp_ok_def)
  show ?thesis
  proof (cases "sweep (Some ip) (Some n) 0 (arp_table w) no_candidates")
    case (Inl i)
    then have r: "r = Inr i" "w' = w" using assms(1) t by (auto simp: etharp_find_entry_def)
    have "i < ARP_TABLE_SIZE" "arp_ipaddr (arp w i) = ip" "arp_netif (arp w i) = Some n" "arp_state (arp w i) \<noteq> ETHARP_STATE_EMPTY"
      using sweep_hit [OF Inl] len by (auto simp: arp_match_def arp_def)
    then show ?thesis using r assms(2) ok by (auto simp: sole_def arp_ok_def arp_def)
  next
    case (Inr c)
    have miss: "arp_state (arp w j) \<noteq> ETHARP_STATE_EMPTY \<Longrightarrow> \<not> (arp_ipaddr (arp w j) = ip \<and> arp_netif (arp w j) = Some n)"
      if "j < ARP_TABLE_SIZE" for j
      using sweep_miss [OF Inr] that len by (auto simp: arp_match_def arp_def)
    have em: "arp_state (arp w (c_empty c)) = ETHARP_STATE_EMPTY" if "c_empty c < ARP_TABLE_SIZE"
      using sweep_empty [OF Inr] that len by (auto simp: no_candidates_def arp_def)
    define h :: "etharp_entry \<Rightarrow> etharp_entry" where "h = (\<lambda>e. e\<lparr>arp_ipaddr := ip, arp_ctime := 0, arp_netif := Some n\<rparr>)"
    consider "\<exists>e. r = Inl e" "w' = w" | "\<exists>e. r = Inl e" "recycle c w = Some (None, w')"
      | i w1 where "r = Inr i" "recycle c w = Some (Some i, w1)" "w' = set_arp i h w1"
    proof (cases "\<exists>q w1. recycle c w = Some (q, w1)")
      case True
      then obtain q w1 where "recycle c w = Some (q, w1)" by blast
      then show ?thesis using assms(1) t Inr that by (cases q) (auto simp: etharp_find_entry_def h_def split: if_splits)
    qed (use assms(1) t Inr that in \<open>auto simp: etharp_find_entry_def bind_eq_Some_conv split: if_splits\<close>)
    then show ?thesis
    proof cases
      case 1
      then show ?thesis using assms(2) by auto
    next
      case 2
      then show ?thesis using recycle_inv [OF 2(2) assms(2) em] by auto
    next
      case 3
      have i: "arp_inv w1" "netifs w1 = netifs w" "etharp_cached_entry w1 = etharp_cached_entry w" "i < ARP_TABLE_SIZE"
        "arp_table w1 = (arp_table w)[i := freed (arp w i)]"
        using recycle_inv [OF 3(2) assms(2) em] by auto
      then have e: "arp w1 i = freed (arp w i)" "\<And>j. j \<noteq> i \<Longrightarrow> arp w1 j = arp w j" using len by (simp_all add: arp_def)
      have "arp_inv (set_arp i h w1)"
        using arp_inv_entry(3) [OF i(1,4)] by (intro arp_inv_set i(1,4)) (simp_all add: h_def e freed_def)
      moreover have "arp_table (set_arp i h w1) = (arp_table w)[i := claimed ip n (arp w i)]"
        using i(5) e(1) by (simp add: claimed_def h_def)
      moreover have "sole ip n i (set_arp i h w1)"
        using i(4,5) len e miss by (auto simp: sole_def h_def)
      ultimately show ?thesis using 3 i by simp
    qed
  qed
qed

end
