(* ===== verification/Etharp_Inv.thy ===== *)
theory Etharp_Inv
  imports Etharp_Frame
begin

text \<open>
  Every operation of \<^verbatim>\<open>etharp.c\<close> keeps the invariant of the ARP table, so it holds in every state the firmware reaches.
\<close>

section \<open>Taking over an entry\<close>

lemma arp_inv_sole:
  assumes "arp_inv w" "sole ip n i w" "length (arp_ethaddr (f (arp w i))) = ETH_HWADDR_LEN"
    "arp_q (f (arp w i)) \<noteq> None \<Longrightarrow> arp_state (f (arp w i)) = ETHARP_STATE_PENDING"
    "arp_ipaddr (f (arp w i)) = ip" "arp_netif (f (arp w i)) = Some n"
  shows "arp_inv (set_arp i f w)"
proof -
  have "arp_ok (arp_table w)" "i < ARP_TABLE_SIZE" using assms(1,2) by (simp_all add: arp_inv_def sole_def)
  then have "arp_ok ((arp_table w)[i := f (arp w i)])"
    by (rule arp_ok_update) (use assms in \<open>auto simp: sole_def arp_def\<close>)
  then show ?thesis using assms(1) by (simp add: arp_inv_def)
qed

section \<open>Learning an address\<close>

definition learned :: "nat \<Rightarrow> bytes \<Rightarrow> etharp_entry \<Rightarrow> etharp_entry" where
  "learned n ea e = e\<lparr>arp_state := ETHARP_STATE_STABLE, arp_netif := Some n, arp_ethaddr := ea, arp_ctime := 0, arp_q := None\<rparr>"

lemma etharp_update_arp_entry_table:
  assumes "etharp_update_arp_entry n ip ea fl w = Some (r, w')" "arp_inv w" "length ea = ETH_HWADDR_LEN"
  shows "arp_inv w' \<and> netifs w' = netifs w \<and> etharp_cached_entry w' = etharp_cached_entry w \<and>
    (arp_table w' = arp_table w \<or>
     (\<exists>i w1. etharp_find_entry (Some ip) fl (Some n) w = Some (Inr i, w1) \<and> arp_table w' = (arp_table w1)[i := learned n ea (arp w1 i)]))"
proof -
  let ?bad = "ip4_addr_isany_val ip \<or> ip4_addr_isbroadcast ip n w \<or> ip4_addr_ismulticast ip"
  have hw: "unat (hwaddr_len (netifs w n)) = ETH_HWADDR_LEN" using assms(1) by (simp add: etharp_update_arp_entry_def split: if_splits)
  consider "w' = w" | e where "etharp_find_entry (Some ip) fl (Some n) w = Some (Inl e, w')"
    | i w1 where "\<not> ?bad" "etharp_find_entry (Some ip) fl (Some n) w = Some (Inr i, w1)"
  proof (cases ?bad)
    case True
    then show ?thesis using assms(1) that(1) hw by (simp add: etharp_update_arp_entry_def)
  next
    case False
    then obtain q w1 where "etharp_find_entry (Some ip) fl (Some n) w = Some (q, w1)"
      using assms(1) hw by (auto simp: etharp_update_arp_entry_def bind_eq_Some_conv)
    then show ?thesis using assms(1) False hw that by (cases q) (auto simp: etharp_update_arp_entry_def)
  qed
  then show ?thesis
  proof cases
    case 1
    then show ?thesis using assms(2) by simp
  next
    case 2
    then show ?thesis using etharp_find_entry_inv [OF 2 assms(2)] by simp
  next
    case (3 i w1)
    note f = etharp_find_entry_inv [OF 3(2) assms(2)]
    then have i: "arp_inv w1" "sole ip n i w1" "netifs w1 = netifs w" "etharp_cached_entry w1 = etharp_cached_entry w" by simp_all
    then have len: "i < length (arp_table w1)" by (auto simp: arp_inv_def arp_ok_def sole_def)
    define w2 where "w2 = set_arp i (\<lambda>e. e\<lparr>arp_state := ETHARP_STATE_STABLE, arp_netif := Some n, arp_ethaddr := ea, arp_ctime := 0\<rparr>) w1"
    define w3 where "w3 = set_arp i (\<lambda>e. e\<lparr>arp_q := None\<rparr>) w2"
    have w3: "arp_table w3 = (arp_table w1)[i := learned n ea (arp w1 i)]"
      using len by (simp add: w3_def w2_def learned_def)
    have "fixed w' = fixed w3"
    proof (cases "arp_q (arp w1 i)")
      case None
      then have q: "arp_q (arp w2 i) = None" using len by (simp add: w2_def)
      then have "w' = w2" using assms(1,3) 3 hw by (simp add: etharp_update_arp_entry_def Let_def w2_def)
      moreover have "(arp w2 i)\<lparr>arp_q := None\<rparr> = arp w2 i" using q by (cases "arp w2 i") simp
      then have "w3 = w2" using len by (simp add: w3_def set_arp_def arp_def)
      ultimately show ?thesis by simp
    next
      case (Some p)
      then have "arp_q (arp w2 i) = Some p" using len by (simp add: w2_def)
      then have "do { (_, w) \<leftarrow> ethernet_output n p (hwaddr (netifs w1 n)) ea ETHTYPE_IP w3; w \<leftarrow> free_packet p w; Some (ERR_OK, w) } = Some (r, w')"
        using assms(1,3) 3 hw by (simp add: etharp_update_arp_entry_def Let_def w3_def w2_def)
      from send_and_free_fixed [OF this] show ?thesis by simp
    qed
    note f3 = fixed_arp [OF this]
    have "arp_inv (set_arp i (learned n ea) w1)"
      using i(2) assms(3) by (intro arp_inv_sole [OF i(1,2)]) (simp_all add: learned_def sole_def)
    then have "arp_inv w3" using w3 by (simp add: arp_inv_def w3_def w2_def)
    then show ?thesis using f3 i w3 3 by (auto simp: arp_inv_def w3_def w2_def)
  qed
qed

section \<open>The timer and the removal of an interface\<close>

lemma tmr_entry_inv:
  assumes "tmr_entry i w = Some w'" "arp_inv w" "i < ARP_TABLE_SIZE"
  shows "arp_inv w'"
proof (cases "arp_state (arp w i) = ETHARP_STATE_EMPTY")
  case True
  then show ?thesis using assms by (simp add: tmr_entry_def)
next
  case False
  define w1 where "w1 = set_arp i (\<lambda>e. e\<lparr>arp_ctime := arp_ctime e + 1\<rparr>) w"
  note e = arp_inv_entry [OF assms(2,3)]
  have w1: "arp_inv w1" "arp w1 i = (arp w i)\<lparr>arp_ctime := arp_ctime (arp w i) + 1\<rparr>"
    using e False unfolding w1_def by (auto intro!: arp_inv_set [OF assms(2,3)])
  have upd: "arp_inv (set_arp i (\<lambda>e. e\<lparr>arp_state := s\<rparr>) w1)"
    if "s \<noteq> ETHARP_STATE_EMPTY" "arp_state (arp w1 i) \<noteq> ETHARP_STATE_PENDING" for s
    using e that False w1(2) by (intro arp_inv_set [OF w1(1) assms(3)]) auto
  have aux: "arp_inv w'"
    if "(if a then etharp_free_entry i w1 else if b then Some x else if c then Some y
         else if d then do { (_, w) \<leftarrow> etharp_request nif ip w1; Some w } else Some w1) = Some w'" "b \<Longrightarrow> arp_inv x" "c \<Longrightarrow> arp_inv y"
    for a b c d x y nif ip
  proof (cases "\<not> a \<and> \<not> b \<and> \<not> c \<and> d")
    case True
    note h = that
    from True obtain r where r: "etharp_request nif ip w1 = Some (r, w')" using h by (auto simp: bind_eq_Some_conv)
    from arp_inv_fixed [OF etharp_request_fixed(2) [OF r]] show ?thesis using w1(1) by simp
  qed (use that w1(1) etharp_free_entry_inv [OF _ w1(1) assms(3)] in \<open>auto split: if_splits\<close>)
  show ?thesis
    by (rule aux [OF assms(1) [unfolded tmr_entry_def if_not_P [OF False] Let_def w1_def [symmetric]]]) (auto intro: upd)
qed

lemma tmr_loop_inv: "tmr_loop ix w = Some w' \<Longrightarrow> arp_inv w \<Longrightarrow> (\<And>i. i \<in> set ix \<Longrightarrow> i < ARP_TABLE_SIZE) \<Longrightarrow> arp_inv w'"
  by (induction ix arbitrary: w) (auto simp: bind_eq_Some_conv dest: tmr_entry_inv)

lemma cleanup_loop_inv:
  "cleanup_loop n ix w = Some w' \<Longrightarrow> arp_inv w \<Longrightarrow> (\<And>i. i \<in> set ix \<Longrightarrow> i < ARP_TABLE_SIZE) \<Longrightarrow> arp_inv w'"
  by (induction ix arbitrary: w) (auto simp: bind_eq_Some_conv split: if_splits dest: etharp_free_entry_inv)

section \<open>Input and output\<close>

lemma etharp_input_inv:
  assumes "etharp_input p n w = Some w'" "arp_inv w"
  shows "arp_inv w'"
proof -
  have len: "length (get_bytes a ETH_HWADDR_LEN w) = ETH_HWADDR_LEN" for a and w :: "'a astate_scheme" by (simp add: get_bytes_def)
  let ?h = "payload (pbufs w p)" and ?n = "netifs w n"
  let ?bad = "get16 (?h + hwtype_off) w \<noteq> PP_HTONS LWIP_IANA_HWTYPE_ETHERNET \<or> unat (get8 (?h + hwlen_off) w) \<noteq> ETH_HWADDR_LEN \<or>
    get8 (?h + protolen_off) w \<noteq> 4 \<or> get16 (?h + proto_off) w \<noteq> PP_HTONS ETHTYPE_IP"
  show ?thesis
  proof (cases ?bad)
    case True
    then have "free_packet p w = Some w'" using assms(1) unfolding etharp_input_def Let_def by (simp only: if_True)
    from arp_inv_fixed [OF free_packet_fixed [OF this]] show ?thesis using assms(2) by simp
  next
    case False
    define us where "us = (if ip4_addr_isany_val (ip_addr ?n) then False else get32 (?h + dipaddr_off) w = ip_addr ?n)"
    obtain r w1 where 1: "etharp_update_arp_entry n (get32 (?h + sipaddr_off) w) (get_bytes (?h + shwaddr_off) ETH_HWADDR_LEN w)
        (if us then ETHARP_FLAG_TRY_HARD else ETHARP_FLAG_FIND_ONLY) w = Some (r, w1)"
      using assms(1) False unfolding etharp_input_def Let_def us_def [symmetric] by (simp only: if_False) (auto simp: bind_eq_Some_conv)
    define reply where "reply = (if get16 (?h + opcode_off) w1 = PP_HTONS ARP_REQUEST \<and> us then do {
                let shwaddr = get_bytes (?h + shwaddr_off) ETH_HWADDR_LEN w1;
                (_, w) \<leftarrow> etharp_raw (Some n) (hwaddr (netifs w1 n)) shwaddr (hwaddr (netifs w1 n)) (ip_addr (netifs w1 n))
                            shwaddr (get32 (?h + sipaddr_off) w) ARP_REPLY w1;
                Some w
              } else Some w1)"
    obtain w2 where 2: "reply = Some w2" and 3: "free_packet p w2 = Some w'"
      using assms(1) False 1 unfolding etharp_input_def Let_def us_def [symmetric] reply_def
      by (simp only: if_False) (auto simp: bind_eq_Some_conv)
    have "arp_inv w1" using etharp_update_arp_entry_table [OF 1 assms(2) len] by simp
    moreover have "fixed w2 = fixed w1"
      using 2 by (auto simp: reply_def Let_def bind_eq_Some_conv split: if_splits dest!: etharp_raw_fixed)
    ultimately show ?thesis using arp_inv_fixed [OF free_packet_fixed [OF 3]] arp_inv_fixed [of w2 w1] by simp
  qed
qed

lemma etharp_output_to_arp_index_inv:
  assumes "etharp_output_to_arp_index n q i w = Some (r, w')" "arp_inv w" "i < ARP_TABLE_SIZE"
  shows "arp_inv w'"
proof -
  have set: "arp_inv (set_arp i (\<lambda>e. e\<lparr>arp_state := ETHARP_STATE_STABLE_REREQUESTING_1\<rparr>) w1)"
    if "fixed w1 = fixed w" "arp_state (arp w i) = ETHARP_STATE_STABLE" for w1
  proof -
    have e: "arp w1 i = arp w i" "arp_inv w1" using fixed_arp [OF that(1)] assms(2) by (simp_all add: arp_def arp_inv_def)
    show ?thesis using e(1) that(2) arp_inv_entry [OF e(2) assms(3)] by (intro arp_inv_set [OF e(2) assms(3)]) auto
  qed
  define upd where "upd = (if arp_state (arp w i) = ETHARP_STATE_STABLE then
             (if arp_ctime (arp w i) \<ge> ARP_AGE_REREQUEST_USED_BROADCAST then do {
                (e, w) \<leftarrow> etharp_request (Some n) (arp_ipaddr (arp w i)) w;
                Some (if e = ERR_OK then set_arp i (\<lambda>e. e\<lparr>arp_state := ETHARP_STATE_STABLE_REREQUESTING_1\<rparr>) w else w)
              }
              else if arp_ctime (arp w i) \<ge> ARP_AGE_REREQUEST_USED_UNICAST then do {
                (e, w) \<leftarrow> etharp_request_dst (Some n) (arp_ipaddr (arp w i)) (arp_ethaddr (arp w i)) w;
                Some (if e = ERR_OK then set_arp i (\<lambda>e. e\<lparr>arp_state := ETHARP_STATE_STABLE_REREQUESTING_1\<rparr>) w else w)
              }
              else Some w)
           else Some w)"
  obtain w1 where w1: "upd = Some w1" "ethernet_output n q (hwaddr (netifs w1 n)) (arp_ethaddr (arp w1 i)) ETHTYPE_IP w1 = Some (r, w')"
    using assms(1) unfolding etharp_output_to_arp_index_def upd_def [symmetric] by (auto simp: bind_eq_Some_conv split: if_splits)
  have "arp_inv w1"
  proof -
    from w1(1) consider "w1 = w" | w2 where "fixed w2 = fixed w" "w1 = w2"
      | w2 where "fixed w2 = fixed w" "arp_state (arp w i) = ETHARP_STATE_STABLE"
          "w1 = set_arp i (\<lambda>e. e\<lparr>arp_state := ETHARP_STATE_STABLE_REREQUESTING_1\<rparr>) w2"
      unfolding upd_def by (auto simp: bind_eq_Some_conv split: if_splits dest!: etharp_request_fixed)
    then show ?thesis
    proof cases
      case 2
      then show ?thesis using arp_inv_fixed [OF 2(1)] assms(2) by simp
    qed (use assms(2) set in simp_all)
  qed
  then show ?thesis using arp_inv_fixed [OF ethernet_output_fixed [OF w1(2)]] by simp
qed

lemma enqueue_inv:
  assumes "enqueue i q w = Some (r, w')" "arp_inv w" "i < ARP_TABLE_SIZE" "arp_state (arp w i) = ETHARP_STATE_PENDING"
  shows "arp_inv w'"
proof -
  obtain c where c: "copy_needed (Some q) w = Some c" using assms(1) by (auto simp: enqueue_def bind_eq_Some_conv)
  define hold where "hold = (if c then pbuf_clone PBUF_LINK PBUF_RAM q w else do { w \<leftarrow> pbuf_ref (Some q) w; Some (Some q, w) })"
  obtain p w1 where 1: "hold = Some (p, w1)"
    using assms(1) c unfolding enqueue_def hold_def by (cases c) (auto simp: bind_eq_Some_conv)
  have "static w1 = static w"
    using 1 unfolding hold_def by (cases c) (auto simp: bind_eq_Some_conv dest: pbuf_clone_static pbuf_ref_static)
  then have f1: "fixed w1 = fixed w" by (rule static_driver(5))
  have e: "enqueue i q w = (case p of None \<Rightarrow> Some (ERR_MEM, w1) | Some p \<Rightarrow> do {
         w \<leftarrow> (case arp_q (arp w1 i) of None \<Rightarrow> Some w1 | Some old \<Rightarrow> free_packet old w1);
         Some (ERR_OK, set_arp i (\<lambda>e. e\<lparr>arp_q := Some p\<rparr>) w) })"
    unfolding enqueue_def c Option.bind.simps hold_def [symmetric] 1 by simp
  show ?thesis
  proof (cases p)
    case None
    then show ?thesis using assms(1) e arp_inv_fixed [OF f1] assms(2) by simp
  next
    case (Some p)
    then obtain w2 where 2: "(case arp_q (arp w1 i) of None \<Rightarrow> Some w1 | Some old \<Rightarrow> free_packet old w1) = Some w2"
      and w': "w' = set_arp i (\<lambda>e. e\<lparr>arp_q := Some p\<rparr>) w2"
      using assms(1) e by (auto simp: bind_eq_Some_conv)
    have "fixed w2 = fixed w" using 2 f1 by (auto split: option.splits dest: free_packet_fixed)
    note f = fixed_arp [OF this]
    then have w2: "arp_inv w2" "arp w2 i = arp w i" using assms(2) by (simp_all add: arp_inv_def arp_def)
    show ?thesis
      unfolding w' using arp_inv_entry [OF assms(2,3)] assms(4) w2(2) by (intro arp_inv_set [OF w2(1) assms(3)]) auto
  qed
qed

lemma etharp_query_inv:
  assumes "etharp_query n ip q w = Some (r, w')" "arp_inv w"
  shows "arp_inv w'"
proof -
  let ?bad = "ip4_addr_isbroadcast ip n w \<or> ip4_addr_ismulticast ip \<or> ip4_addr_isany_val ip"
  consider "w' = w" | e where "etharp_find_entry (Some ip) ETHARP_FLAG_TRY_HARD (Some n) w = Some (Inl e, w')"
    | i w1 where "\<not> ?bad" "etharp_find_entry (Some ip) ETHARP_FLAG_TRY_HARD (Some n) w = Some (Inr i, w1)"
  proof (cases ?bad)
    case True
    then show ?thesis using assms(1) that(1) by (simp add: etharp_query_def)
  next
    case False
    then obtain q w1 where "etharp_find_entry (Some ip) ETHARP_FLAG_TRY_HARD (Some n) w = Some (q, w1)"
      using assms(1) by (auto simp: etharp_query_def bind_eq_Some_conv)
    then show ?thesis using assms(1) False that by (cases q) (auto simp: etharp_query_def)
  qed
  then show ?thesis
  proof cases
    case 1
    then show ?thesis using assms(2) by simp
  next
    case 2
    then show ?thesis using etharp_find_entry_inv [OF 2 assms(2)] by simp
  next
    case (3 i w1)
    have i: "arp_inv w1" "sole ip n i w1" using etharp_find_entry_inv [OF 3(2) assms(2)] by simp_all
    then have ir: "i < ARP_TABLE_SIZE" by (simp add: sole_def)
    define new where "new \<longleftrightarrow> arp_state (arp w1 i) = ETHARP_STATE_EMPTY"
    define w2 where "w2 = (if new then set_arp i (\<lambda>e. e\<lparr>arp_state := ETHARP_STATE_PENDING, arp_netif := Some n\<rparr>) w1 else w1)"
    define req where "req = (if new \<or> q = None then do {
                 (e, w) \<leftarrow> etharp_request (Some n) ip w2;
                 Some (e, if e = ERR_OK \<and> arp_state (arp w i) = ETHARP_STATE_PENDING \<and> \<not> new
                          then set_arp i (\<lambda>e. e\<lparr>arp_ctime := 0\<rparr>) w else w)
               } else Some (ERR_MEM, w2))"
    have e: "etharp_query n ip q w = do { (result, w) \<leftarrow> req;
        case q of None \<Rightarrow> Some (result, w)
            | Some q \<Rightarrow>
                if arp_state (arp w i) \<ge> ETHARP_STATE_STABLE then
                  ethernet_output n q (hwaddr (netifs w n)) (arp_ethaddr (arp w i)) ETHTYPE_IP (w\<lparr>etharp_cached_entry := i\<rparr>)
                else if arp_state (arp w i) = ETHARP_STATE_PENDING then enqueue i q w
                else Some (result, w) }"
      using 3 by (simp only: etharp_query_def if_False Option.bind.simps prod.case sum.case Let_def new_def w2_def req_def)
    have w2: "arp_inv w2"
      using arp_inv_sole [OF i, of "\<lambda>e. e\<lparr>arp_state := ETHARP_STATE_PENDING, arp_netif := Some n\<rparr>"] arp_inv_entry [OF i(1) ir] i
      by (auto simp: w2_def sole_def)
    obtain s w3 where r: "req = Some (s, w3)" using assms(1) e by (auto simp: bind_eq_Some_conv)
    have w3: "arp_inv w3"
    proof (cases "new \<or> q = None")
      case True
      then obtain e w4 where 4: "etharp_request (Some n) ip w2 = Some (e, w4)"
        and w3: "w3 = (if e = ERR_OK \<and> arp_state (arp w4 i) = ETHARP_STATE_PENDING \<and> \<not> new then set_arp i (\<lambda>e. e\<lparr>arp_ctime := 0\<rparr>) w4 else w4)"
        using r by (auto simp: req_def bind_eq_Some_conv)
      have w4: "arp_inv w4" using arp_inv_fixed [OF etharp_request_fixed(2) [OF 4]] w2 by simp
      show ?thesis unfolding w3 using w4 arp_inv_entry [OF w4 ir] by (auto intro!: arp_inv_set ir)
    qed (use r w2 in \<open>auto simp: req_def\<close>)
    from assms(1) e r consider "w' = w3" | p where "enqueue i p w3 = Some (r, w')" "arp_state (arp w3 i) = ETHARP_STATE_PENDING"
      | p where "ethernet_output n p (hwaddr (netifs w3 n)) (arp_ethaddr (arp w3 i)) ETHTYPE_IP (w3\<lparr>etharp_cached_entry := i\<rparr>) = Some (r, w')"
      by (auto split: option.splits if_splits)
    then show ?thesis
    proof cases
      case 2
      then show ?thesis using enqueue_inv w3 ir by blast
    next
      case 3
      then show ?thesis using arp_inv_fixed [OF ethernet_output_fixed [OF 3]] w3 ir by (simp add: arp_inv_def)
    qed (use w3 in simp)
  qed
qed

lemma etharp_output_inv:
  assumes "etharp_output n q ip w = Some (r, w')" "arp_inv w"
  shows "arp_inv w'"
proof -
  have eth: "ethernet_output n q s d t w = Some (r, w') \<Longrightarrow> arp_inv w'" for s d t
    using arp_inv_fixed [OF ethernet_output_fixed, of n q s d t w "(r, w')"] assms(2) by simp
  have cached: "etharp_output_to_arp_index n q i (w\<lparr>etharp_cached_entry := i\<rparr>) = Some (r, w') \<Longrightarrow> i < ARP_TABLE_SIZE \<Longrightarrow> arp_inv w'" for i
    using assms(2) by (intro etharp_output_to_arp_index_inv [of n q i "w\<lparr>etharp_cached_entry := i\<rparr>" r w']) (simp_all add: arp_inv_def)
  have same: "w\<lparr>etharp_cached_entry := etharp_cached_entry w\<rparr> = w" by simp
  have scan: "(case List.find P [0..<ARP_TABLE_SIZE] of
        Some i \<Rightarrow> etharp_output_to_arp_index n q i (w\<lparr>etharp_cached_entry := i\<rparr>)
      | None \<Rightarrow> etharp_query n d (Some q) w) = Some (r, w') \<Longrightarrow> arp_inv w'" for P d
    using cached etharp_query_inv assms(2) by (auto simp: find_Some_iff split: option.splits)
  have range: "etharp_cached_entry w < ARP_TABLE_SIZE" using assms(2) by (simp add: arp_inv_def)
  show ?thesis
    using assms unfolding etharp_output_def Let_def
    by (auto split: if_splits intro: eth scan cached [unfolded same, OF _ range] assms(2) dest: scan)
qed

lemma etharp_find_addr_inv:
  assumes "etharp_find_addr nif ip w = Some (r, w')"
  shows "w' = w"
proof -
  have "ETHARP_FLAG_FIND_ONLY AND ETHARP_FLAG_FIND_ONLY \<noteq> 0" by (simp add: ETHARP_FLAG_FIND_ONLY_def)
  then show ?thesis using assms by (auto simp: etharp_find_addr_def etharp_find_entry_def split: sum.splits if_splits)
qed

section \<open>Every reachable table\<close>

text \<open>
  The operations other modules call, in any order and with any arguments; between two of them the rest of the firmware
  may change everything but the table, which is private to the module.
\<close>

inductive arp_step :: "'a astate_scheme \<Rightarrow> 'a astate_scheme \<Rightarrow> bool" where
  step_tmr: "etharp_tmr w = Some w' \<Longrightarrow> arp_step w w'"
| step_input: "etharp_input p n w = Some w' \<Longrightarrow> arp_step w w'"
| step_output: "etharp_output n q ip w = Some (r, w') \<Longrightarrow> arp_step w w'"
| step_query: "etharp_query n ip q w = Some (r, w') \<Longrightarrow> arp_step w w'"
| step_request: "etharp_request nif ip w = Some (r, w') \<Longrightarrow> arp_step w w'"
| step_cleanup: "etharp_cleanup_netif n w = Some w' \<Longrightarrow> arp_step w w'"
| step_find_addr: "etharp_find_addr nif ip w = Some (r, w') \<Longrightarrow> arp_step w w'"
| step_other: "arp_table w' = arp_table w \<Longrightarrow> etharp_cached_entry w' = etharp_cached_entry w \<Longrightarrow> arp_step w w'"

definition arp_initial :: "'a astate_scheme \<Rightarrow> bool" where
  "arp_initial w \<longleftrightarrow>
     arp_table w = replicate ARP_TABLE_SIZE \<lparr>arp_q = None, arp_ipaddr = 0, arp_netif = None, arp_ethaddr = ethzero, arp_ctime = 0,
                                             arp_state = ETHARP_STATE_EMPTY\<rparr> \<and>
     etharp_cached_entry w = 0"

lemma arp_initial_inv: "arp_initial w \<Longrightarrow> arp_inv w"
  by (auto simp: arp_initial_def arp_inv_def arp_ok_def ethzero_def layout_simps)

lemma arp_step_inv: "arp_step w w' \<Longrightarrow> arp_inv w \<Longrightarrow> arp_inv w'"
proof (induction rule: arp_step.induct)
  case (step_tmr w w')
  then show ?case using tmr_loop_inv by (fastforce simp: etharp_tmr_def)
next
  case (step_request nif ip w r w')
  from arp_inv_fixed [OF etharp_request_fixed(2) [OF this(1)]] step_request(2) show ?case by simp
next
  case (step_cleanup n w w')
  then show ?case using cleanup_loop_inv by (fastforce simp: etharp_cleanup_netif_def)
next
  case (step_find_addr nif ip w r w')
  then show ?case using etharp_find_addr_inv by blast
next
  case (step_other w' w)
  then show ?case by (simp add: arp_inv_def)
qed (auto intro: etharp_input_inv etharp_output_inv etharp_query_inv)

section \<open>Properties\<close>

definition arp0 :: astate where
  "arp0 = dstate.extend driver0 (astate.fields (replicate ARP_TABLE_SIZE \<lparr>arp_q = None, arp_ipaddr = 0, arp_netif = None, arp_ethaddr = ethzero,
     arp_ctime = 0, arp_state = ETHARP_STATE_EMPTY\<rparr>) 0)"

lemma arp0_sel [simp]:
  "hp arp0 = heap0" "pl arp0 = memp_init pools0" "pbufs arp0 = pbufs sample" "ram_bytes arp0 = ram_bytes sample"
  "netifs arp0 = (\<lambda>_. netif0)" "mac arp0 = mac0" "txslot arp0 = 0" "arp_initial arp0"
  using driver0_sel by (simp_all add: arp0_def astate.defs dstate.defs mstate.defs driver0_def sample_def arp_initial_def)

text \<open>
  C36: In every state the firmware reaches, whatever packets arrive and whatever is sent, the ARP table is well formed: it
  has its ten entries, no two entries in use have the same address on the same interface, an entry in use has its
  interface, a packet is queued only on an entry still waiting for a reply, and the cached index is in range.
\<close>

theorem arp_table_invariant:
  assumes "arp_initial w0" "arp_step\<^sup>*\<^sup>* w0 w"
  shows "arp_inv w"
  using assms(2)
  by (induction rule: rtranclp_induct) (use assms(1) in \<open>auto intro: arp_initial_inv arp_step_inv\<close>)

theorem arp_table_invariant_witness:
  "\<exists>w. etharp_cleanup_netif 0 arp0 = Some w \<and> arp_step\<^sup>*\<^sup>* arp0 w \<and> arp_inv w"
proof -
  have e: "arp_state (arp arp0 i) = ETHARP_STATE_EMPTY" if "i < ARP_TABLE_SIZE" for i
    using arp0_sel(8) that by (simp add: arp_initial_def arp_def)
  then have "etharp_cleanup_netif 0 arp0 = Some arp0"
    by (simp add: etharp_cleanup_netif_def ARP_TABLE_SIZE_def upt_rec)
  then show ?thesis using arp_table_invariant [OF arp0_sel(8)] by (blast intro: step_cleanup)
qed

end
