(* ===== verification/Ethernet_Send.thy ===== *)
theory Ethernet_Send
  imports Etharp_Inv
begin

text \<open>
  What \<^verbatim>\<open>ethernet_output\<close> and \<^verbatim>\<open>etharp_raw\<close> put on the wire: the exact bytes of the frame.
\<close>

section \<open>Where things lie in memory\<close>

lemma heap_live_range: "heap_ok h \<Longrightarrow> live h p = Some a \<Longrightarrow> ram h + 8 \<le> p \<and> p + a \<le> ram h + 3072"
  using owned_range [of "blocks_of h" "ram h" p a] heap_inv_proper [of h "blocks_of h"]
  by (auto simp: heap_ok_def live_def heap_inv_def heap_blocks_def layout_simps)

text \<open>
  The heap, the packet pool and the slots of the MAC lie apart, and everything within 32-bit addresses.
\<close>

definition layout_ok :: "'a dstate_scheme \<Rightarrow> bool" where
  "layout_ok w \<longleftrightarrow>
     (ram (hp w) + 3072 \<le> mac_base (mac w) \<or> mac_base (mac w) + 8192 \<le> ram (hp w)) \<and> ram (hp w) + 3072 < 4294967296 \<and>
     slots_apart w \<and>
     (\<forall>a\<in>set (elems (desc (pl w) MEMP_PBUF_POOL)). a + 1540 < 4294967296 \<and> (a + 1540 \<le> ram (hp w) \<or> ram (hp w) + 3072 \<le> a))"

lemma layout_ok_fixed: "fixed w' = fixed w \<Longrightarrow> layout_ok w' = layout_ok w"
  by (simp add: layout_ok_def slots_apart_def fixed_def)

definition tx_clear :: "'a dstate_scheme \<Rightarrow> nat \<Rightarrow> nat \<Rightarrow> bool" where
  "tx_clear w lo hi \<longleftrightarrow> hi \<le> tx_slot_addr 0 w \<or> tx_slot_addr 0 w + 4096 \<le> lo"

lemma layout_heap_clear:
  assumes "layout_ok w" "mem_ok w" "live (hp w) p = Some a" "p \<le> lo" "hi \<le> p + a"
  shows "tx_clear w lo hi"
  using assms heap_live_range [of "hp w" p a]
  by (auto simp: layout_ok_def tx_clear_def mem_ok_def tx_slot_addr_def layout_simps)

lemma layout_pool_clear:
  assumes "layout_ok w" "a \<in> set (elems (desc (pl w) MEMP_PBUF_POOL))" "a \<le> lo" "hi \<le> a + 1540"
  shows "tx_clear w lo hi"
  using assms by (fastforce simp: layout_ok_def slots_apart_def tx_clear_def tx_slot_addr_def layout_simps)

section \<open>Adding a header\<close>

definition grown :: "nat \<Rightarrow> pbuf \<Rightarrow> pbuf" where
  "grown k b = b\<lparr>payload := payload b - k, plen := plen b + of_nat k, ptot := ptot b + of_nat k\<rparr>"

lemma grown_sel [simp]:
  "nxt (grown k b) = nxt b" "pref (grown k b) = pref b" "type_internal (grown k b) = type_internal b" "payload (grown k b) = payload b - k"
  "source_of (grown k b) = source_of b"
  by (simp_all add: grown_def source_of_def pbuf_get_allocsrc_def)

lemma pbuf_add_header_ok:
  assumes "type_internal (pbufs w p) AND 0x80 \<noteq> 0" "p + 16 + k \<le> payload (pbufs w p)" "payload (pbufs w p) < 4294967296"
    "0 < k" "unat (ptot (pbufs w p)) + k < 65536"
  shows "pbuf_add_header p k w = (0, set_pbuf p (grown k) w)"
proof -
  have k: "unat (of_nat k :: u16) = k" using assms(5) by (intro unat_of_nat_small) simp
  then have "unat (of_nat k + ptot (pbufs w p)) = k + unat (ptot (pbufs w p))" using assms(5) by (simp add: unat_word_ariths)
  then have "\<not> of_nat k + ptot (pbufs w p) < of_nat k" using k by (simp add: word_less_nat_alt)
  moreover have "(\<lambda>b. b\<lparr>payload := payload (pbufs w p) - k, plen := plen b + of_nat k, ptot := ptot b + of_nat k\<rparr>) (pbufs w p) = grown k (pbufs w p)"
    by (simp add: grown_def)
  ultimately show ?thesis
    using assms by (simp add: pbuf_add_header_def pbuf_add_header_impl_def Let_def pbuf_type_defs set_pbuf_def layout_simps)
qed

text \<open>A packet that has room for \<open>k\<close> more bytes of headers and does not lie in the transmit slots.\<close>

definition sendable :: "'a dstate_scheme \<Rightarrow> nat \<Rightarrow> nat list \<Rightarrow> nat \<Rightarrow> bool" where
  "sendable w p ps k \<longleftrightarrow>
     packet w p (p # ps) \<and> type_internal (pbufs w p) AND 0x80 \<noteq> 0 \<and> p + 16 + k \<le> payload (pbufs w p) \<and>
     payload (pbufs w p) < 4294967296 \<and> outside w ps (payload (pbufs w p) - k) (payload (pbufs w p)) \<and>
     tx_clear w (payload (pbufs w p) - k) (payload (pbufs w p) + unat (plen (pbufs w p))) \<and>
     outside w ps (tx_slot_addr 0 w) (tx_slot_addr 0 w + 4096) \<and> k + lens w (p # ps) < 65536"

text \<open>The packet after a header was written in front of it.\<close>

definition with_header :: "nat \<Rightarrow> bytes \<Rightarrow> 'a dstate_scheme \<Rightarrow> 'a dstate_scheme" where
  "with_header p h w = put_bytes (payload (pbufs w p) - length h) h (set_pbuf p (grown (length h)) w)"

lemma tot_ok_cong: "(\<And>a. a \<in> set ps \<Longrightarrow> pbufs w a = pbufs w' a) \<Longrightarrow> tot_ok w ps = tot_ok w' ps"
  by (induction ps) (auto cong: lens_cong)

lemma packet_not_head: "packet w p (p # ps) \<Longrightarrow> p \<notin> set ps"
  using lseg_distinct [of "nxts w" "Some p" "p # ps"] by (simp add: packet_def del: lseg.simps)

lemma with_header_sel [simp]:
  "hp (with_header p h w) = hp w" "pl (with_header p h w) = pl w" "ooseq_pending (with_header p h w) = ooseq_pending w"
  "netifs (with_header p h w) = netifs w" "mac (with_header p h w) = mac w" "txslot (with_header p h w) = txslot w"
  "dstate.more (with_header p h w) = dstate.more w" "pbufs (with_header p h w) = (pbufs w)(p := grown (length h) (pbufs w p))"
  "ram_bytes (with_header p h w) = store (payload (pbufs w p) - length h) h (ram_bytes w)"
  by (simp_all add: with_header_def put_bytes_def set_pbuf_def)

lemma with_header_sendable:
  assumes "sendable w p ps k" "length h \<le> k"
  shows "sendable (with_header p h w) p ps (k - length h)" "contents (with_header p h w) (p # ps) = h @ contents w (p # ps)"
proof -
  let ?n = "length h" and ?b = "pbufs w p" and ?v = "with_header p h w"
  have p: "packet w p (p # ps)" and room: "p + 16 + k \<le> payload ?b" and out: "outside w ps (payload ?b - k) (payload ?b)"
    and len: "k + (unat (plen ?b) + lens w ps) < 65536"
    using assms(1) by (simp_all add: sendable_def)
  note notin = packet_not_head [OF p]
  have n: "unat (of_nat ?n :: u16) = ?n" using len assms(2) by (intro unat_of_nat_small) simp
  have tot: "unat (ptot ?b) = unat (plen ?b) + lens w ps" using p by (simp add: packet_def)
  have g: "unat (plen (grown ?n ?b)) = ?n + unat (plen ?b)" "unat (ptot (grown ?n ?b)) = ?n + unat (ptot ?b)"
    using len assms(2) n tot by (simp_all add: grown_def unat_word_ariths)
  have same: "pbufs ?v a = pbufs w a" if "a \<in> set ps" for a using notin that by auto
  then have l: "lens ?v ps = lens w ps" by (intro lens_cong) simp
  have o: "outside ?v ps lo hi = outside w ps lo hi" for lo hi using same by (simp add: outside_def)
  have "nxts ?v = nxts w" by (auto simp: fun_eq_iff grown_def)
  then have "lseg (nxts ?v) (Some p) (p # ps)" using p by (simp only: packet_def)
  moreover have "tot_ok ?v ps" using tot_ok_cong [OF same] p by (simp add: packet_def)
  ultimately have "packet ?v p (p # ps)" using g tot l by (simp add: packet_def)
  then show "sendable ?v p ps (k - ?n)"
    using assms room g l o len
    by (auto simp: sendable_def tx_clear_def tx_slot_addr_def grown_def layout_simps elim: outside_mono)
  have "seg ?v a = seg w a" if "a \<in> set ps" for a
  proof -
    have "payload (pbufs w a) + unat (plen (pbufs w a)) \<le> payload ?b - k \<or> payload ?b \<le> payload (pbufs w a)"
      using out that by (simp add: outside_def)
    then show ?thesis
      using assms(2) room unfolding seg_def same [OF that] with_header_sel(9) by (intro fetch_store_apart) auto
  qed
  then have "contents ?v ps = contents w ps" by (auto simp: contents_def intro!: arg_cong [where f = concat])
  moreover have "seg ?v p = h @ seg w p"
  proof -
    have "seg ?v p = fetch (ram_bytes ?v) (payload ?b - ?n) ?n @ fetch (ram_bytes ?v) (payload ?b - ?n + ?n) (unat (plen ?b))"
      using g(1) unfolding seg_def fetch_append by (simp add: grown_def)
    also have "fetch (ram_bytes ?v) (payload ?b - ?n) ?n = h" by simp
    also have "fetch (ram_bytes ?v) (payload ?b - ?n + ?n) (unat (plen ?b)) = seg w p"
      using room assms(2) unfolding seg_def with_header_sel by (subst fetch_store_apart) simp_all
    finally show ?thesis .
  qed
  ultimately show "contents ?v (p # ps) = h @ contents w (p # ps)" by simp
qed

section \<open>Transmitting\<close>

text \<open>
  A frame went out: everything else is as before, except for the transmit slots and the memory in \<open>H\<close>, where headers
  were written.
\<close>

definition went_out :: "(nat \<Rightarrow> bool) \<Rightarrow> bytes \<Rightarrow> 'a dstate_scheme \<Rightarrow> 'a dstate_scheme \<Rightarrow> bool" where
  "went_out H f w w' \<longleftrightarrow>
     hp w' = hp w \<and> pl w' = pl w \<and> ooseq_pending w' = ooseq_pending w \<and> netifs w' = netifs w \<and> dstate.more w' = dstate.more w \<and>
     mac_base (mac w') = mac_base (mac w) \<and> reader_ready (mac w') = reader_ready (mac w) \<and> tx_alive w' \<and>
     sent (mac w') = sent (mac w) @ [(txslot w, f)] \<and> txslot w' = (txslot w + 1) mod of_nat ETHMAC_TX_SLOTS \<and>
     (\<forall>x. \<not> tx_area w x \<and> \<not> H x \<longrightarrow> ram_bytes w' x = ram_bytes w x)"

text \<open>An interface of this driver.\<close>

definition eth_netif :: "netif \<Rightarrow> bool" where
  "eth_netif n \<longleftrightarrow> unat (hwaddr_len n) = ETH_HWADDR_LEN \<and> length (hwaddr n) = ETH_HWADDR_LEN \<and> nif_linkoutput n = Low_level_output"

definition eth_frame :: "bytes \<Rightarrow> bytes \<Rightarrow> u16 \<Rightarrow> bytes \<Rightarrow> bytes" where
  "eth_frame dst src t d = dst @ src @ rev (le16_bytes t) @ d"

lemma put_put: "put_bytes (a + length xs) ys (put_bytes a xs w) = put_bytes a (xs @ ys) w"
  by (simp add: put_bytes_def store_append)

lemma put_commute: "a + length xs \<le> b \<Longrightarrow> put_bytes b ys (put_bytes a xs w) = put_bytes a xs (put_bytes b ys w)"
  by (simp add: put_bytes_def) (auto simp: store_def fun_eq_iff)

lemma ethernet_output_spec:
  assumes s: "sendable w p ps 14" and alive: "tx_alive w" and n: "eth_netif (netifs w n)" and len: "lens w (p # ps) + 14 \<le> 2048"
    and addr: "length dst = 6" "length src = 6"
  shows "\<exists>w'. ethernet_output n p src dst t w = Some (ERR_OK, w') \<and> pbufs w' = (pbufs w)(p := grown 14 (pbufs w p)) \<and>
    went_out (\<lambda>x. payload (pbufs w p) - 14 \<le> x \<and> x < payload (pbufs w p)) (eth_frame dst src t (contents w (p # ps))) w w'"
proof -
  let ?b = "pbufs w p"
  define h where "h = dst @ src @ rev (le16_bytes t)"
  have lh: "length h = 14" using addr by (simp add: h_def le16_bytes_def)
  let ?v = "with_header p h w"
  have p: "packet w p (p # ps)" "type_internal ?b AND 0x80 \<noteq> 0" "p + 16 + 14 \<le> payload ?b" "payload ?b < 4294967296"
    using s by (simp_all add: sendable_def)
  have add: "pbuf_add_header p 14 w = (0, set_pbuf p (grown 14) w)"
    using p packet_total [OF p(1)] len by (intro pbuf_add_header_ok) simp_all
  have pay: "payload (pbufs (set_pbuf p (grown 14) w) p) = payload ?b - 14" by (simp add: set_pbuf_def grown_def)
  have "ethernet_output n p src dst t w = low_level_output n p ?v"
  proof -
    let ?a = "payload ?b - 14" and ?w = "set_pbuf p (grown 14) w"
    have "put_bytes (?a + 6) src (put_bytes ?a dst (put_bytes (?a + 12) (rev (le16_bytes t)) ?w)) = put_bytes ?a h ?w"
    proof -
      have "put_bytes (?a + 6) src (put_bytes ?a dst (put_bytes (?a + 12) (rev (le16_bytes t)) ?w)) =
          put_bytes ?a (dst @ src) (put_bytes (?a + 12) (rev (le16_bytes t)) ?w)"
        using put_put [of ?a dst src] addr by simp
      also have "\<dots> = put_bytes (?a + 12) (rev (le16_bytes t)) (put_bytes ?a (dst @ src) ?w)"
        using addr by (intro put_commute [symmetric]) simp
      also have "\<dots> = put_bytes ?a h ?w"
        using put_put [of ?a "dst @ src" "rev (le16_bytes t)" ?w] addr by (simp add: h_def)
      finally show ?thesis .
    qed
    then have "put_bytes (?a + 6) (take 6 src) (put_bytes ?a (take 6 dst) (put16 (?a + 12) (lwip_htons t) ?w)) = ?v"
      using addr lh by (simp add: put16_def htons_bytes with_header_def)
    then show ?thesis
      using add n unfolding ethernet_output_def
      by (simp only: layout_simps prod.case Let_def pay) (simp add: eth_netif_def netif_linkoutput_def layout_simps)
  qed
  moreover have v: "sendable ?v p ps 0" "contents ?v (p # ps) = h @ contents w (p # ps)"
    using with_header_sendable [OF s, of h] lh by simp_all
  moreover have "tx_alive ?v" using alive by (simp add: tx_alive_def)
  moreover have "outside ?v (p # ps) (tx_buf ?v) (tx_buf ?v + ETHMAC_SLOT_SIZE)"
  proof -
    have "txslot w < 2" using alive by (simp add: tx_alive_def layout_simps)
    then have "tx_slot_addr 0 ?v \<le> tx_buf ?v" "tx_buf ?v + 2048 \<le> tx_slot_addr 0 ?v + 4096"
      by (auto simp: tx_buf_def tx_slot_addr_def layout_simps word_less_nat_alt)
    moreover have "outside ?v (p # ps) (tx_slot_addr 0 ?v) (tx_slot_addr 0 ?v + 4096)"
      using v(1) by (auto simp: sendable_def tx_clear_def)
    ultimately show ?thesis unfolding layout_simps by (rule outside_mono [rotated])
  qed
  moreover have pv: "packet ?v p (p # ps)" using v(1) by (simp add: sendable_def)
  moreover have "lens ?v (p # ps) = lens w (p # ps) + 14"
    using arg_cong [OF v(2), of length] lh by (simp only: length_contents length_append)
  ultimately obtain w' where "ethernet_output n p src dst t w = Some (ERR_OK, w')" and w': "same_but_tx ?v w'" "tx_alive w'"
    "sent (mac w') = sent (mac w) @ [(txslot w, h @ contents w (p # ps))]" "txslot w' = (txslot w + 1) mod of_nat ETHMAC_TX_SLOTS"
    using low_level_output_spec [of ?v p "p # ps" n] len by (auto simp: layout_simps simp del: lens_simps contents_simps split: if_splits)
  moreover have "ram_bytes w' x = ram_bytes w x" if "\<not> tx_area w x" "\<not> (payload ?b - 14 \<le> x \<and> x < payload ?b)" for x
  proof -
    have "ram_bytes w' x = ram_bytes ?v x" using w'(1) that(1) by (simp add: same_but_tx_def tx_area_def tx_slot_addr_def)
    then show ?thesis using that(2) p(3) lh by (auto simp: store_def)
  qed
  ultimately show ?thesis
    using lh by (intro exI [of _ w']) (simp add: went_out_def same_but_tx_def eth_frame_def h_def)
qed

section \<open>Packets that stay as they are\<close>

text \<open>A pbuf whose payload lies in its own block of the heap or the packet pool.\<close>

definition placed :: "'a mstate_scheme \<Rightarrow> nat \<Rightarrow> bool" where
  "placed w a \<longleftrightarrow>
     (\<exists>s n. source_of (pbufs w a) = Some s \<and> s \<noteq> Pool MEMP_PBUF \<and> entry s a (tables w) = Some n \<and>
        a + 16 \<le> payload (pbufs w a) \<and> payload (pbufs w a) + unat (plen (pbufs w a)) \<le> a + n)"

lemma placed_held: "placed w a \<Longrightarrow> held w a"
  by (auto simp: placed_def held_def)

text \<open>
  The state after an operation that used memory for a while and gave it back: what is allocated is the same, and every
  pbuf in use is the same with the same data.
\<close>

definition keeps :: "'a dstate_scheme \<Rightarrow> 'a dstate_scheme \<Rightarrow> bool" where
  "keeps w w' \<longleftrightarrow>
     mem_ok w' \<and> tables w' = tables w \<and> fixed w' = fixed w \<and> tx_alive w' \<and>
     (\<forall>c. placed w c \<longrightarrow> pbufs w' c = pbufs w c \<and> seg w' c = seg w c)"

lemma keeps_refl: "mem_ok w \<Longrightarrow> tx_alive w \<Longrightarrow> keeps w w"
  by (simp add: keeps_def)

lemma keeps_placed: "keeps w w' \<Longrightarrow> placed w c \<Longrightarrow> placed w' c"
  by (auto simp: keeps_def placed_def)

lemma keeps_trans: "keeps u v \<Longrightarrow> keeps v w \<Longrightarrow> keeps u w"
  using keeps_placed [of u v] by (auto simp: keeps_def)

text \<open>A part of the heap that no allocation uses.\<close>

definition spare :: "'a mstate_scheme \<Rightarrow> nat \<Rightarrow> nat \<Rightarrow> bool" where
  "spare w q a \<longleftrightarrow> ram (hp w) + 8 \<le> q \<and> q + a \<le> ram (hp w) + 3072 \<and> 16 \<le> a \<and> (\<forall>p b. live (hp w) p = Some b \<longrightarrow> p + b \<le> q \<or> q + a \<le> p)"

lemma placed_spare:
  assumes "placed w c" "spare w q a" "layout_ok w" "mem_ok w"
  shows "c \<noteq> q" "payload (pbufs w c) + unat (plen (pbufs w c)) \<le> q \<or> q + a \<le> payload (pbufs w c)"
proof -
  from assms(1) obtain s n where s: "source_of (pbufs w c) = Some s" "s \<noteq> Pool MEMP_PBUF" "entry s c (tables w) = Some n"
    "c + 16 \<le> payload (pbufs w c)" "payload (pbufs w c) + unat (plen (pbufs w c)) \<le> c + n" by (auto simp: placed_def)
  have "c + n \<le> q \<or> q + a \<le> c"
  proof (cases s)
    case Heap
    then show ?thesis using s(3) assms(2) by (auto simp: tables_def spare_def)
  next
    case (Pool t)
    then have "t = MEMP_PBUF_POOL" using s(1,2) by (auto simp: source_of_def split: if_splits)
    then have "c \<in> set (elems (desc (pl w) MEMP_PBUF_POOL))" "n = 1540"
      using s(3) Pool assms(4) by (auto simp: tables_def pool_live_def mem_ok_def split: if_splits)
    then show ?thesis using assms(2,3) by (fastforce simp: layout_ok_def spare_def)
  qed
  then show "c \<noteq> q" "payload (pbufs w c) + unat (plen (pbufs w c)) \<le> q \<or> q + a \<le> payload (pbufs w c)"
    using s(4,5) assms(2) by (auto simp: spare_def)
qed

lemma placed_clear:
  assumes "placed w c" "layout_ok w" "mem_ok w"
  shows "tx_clear w c (payload (pbufs w c) + unat (plen (pbufs w c)))" "payload (pbufs w c) < 4294967296"
proof -
  from assms(1) obtain s n where s: "source_of (pbufs w c) = Some s" "s \<noteq> Pool MEMP_PBUF" "entry s c (tables w) = Some n"
    "c + 16 \<le> payload (pbufs w c)" "payload (pbufs w c) + unat (plen (pbufs w c)) \<le> c + n" by (auto simp: placed_def)
  have "tx_clear w c (payload (pbufs w c) + unat (plen (pbufs w c))) \<and> payload (pbufs w c) < 4294967296"
  proof (cases s)
    case Heap
    then have l: "live (hp w) c = Some n" using s(3) by (simp add: tables_def)
    then have "c + n < 4294967296" using heap_live_range [OF _ l] assms(2,3) by (auto simp: layout_ok_def mem_ok_def)
    then show ?thesis using layout_heap_clear [OF assms(2,3) l] s(5) by simp
  next
    case (Pool t)
    then have "t = MEMP_PBUF_POOL" using s(1,2) by (auto simp: source_of_def split: if_splits)
    then have "c \<in> set (elems (desc (pl w) MEMP_PBUF_POOL))" "n = 1540"
      using s(3) Pool assms(3) by (auto simp: tables_def pool_live_def mem_ok_def split: if_splits)
    then show ?thesis using layout_pool_clear [OF assms(2)] s(5) assms(2) by (fastforce simp: layout_ok_def)
  qed
  then show "tx_clear w c (payload (pbufs w c) + unat (plen (pbufs w c)))" "payload (pbufs w c) < 4294967296" by simp_all
qed

end
