(* ===== verification/Etharp_Send.thy ===== *)
theory Etharp_Send
  imports Ethernet_Send
begin

text \<open>
  Address resolution end to end: the bytes of the requests and replies, and what a request, a reply and a packet to an
  unknown address lead to.
\<close>

section \<open>Giving packets back\<close>

lemma free_packet_spec:
  assumes "mem_ok w" "lseg (nxts w) (Some p) ps" "\<And>a. a \<in> set ps \<Longrightarrow> held w a \<and> pref (pbufs w a) = 1"
  shows "\<exists>w'. free_packet p w = Some w' \<and> mem_ok w' \<and> tables w' = give_back w ps (tables w) \<and> same_data w w' \<and>
    (\<forall>a. a \<notin> set ps \<longrightarrow> pbufs w' a = pbufs w a)"
proof -
  have "drops w ps = length ps" using assms(3) by (simp add: drops_def takeWhile_eq_all_conv [THEN iffD2])
  then show ?thesis
    using free_loop_spec [OF assms(1,2), of 0] assms(3) by (auto simp: free_packet_def pbuf_free_def)
qed

section \<open>The ARP message\<close>

definition arp_msg :: "u16 \<Rightarrow> bytes \<Rightarrow> u32 \<Rightarrow> bytes \<Rightarrow> u32 \<Rightarrow> bytes" where
  "arp_msg op hs si hwd di = [0, 1, 8, 0, 6, 4] @ rev (le16_bytes op) @ hs @ le_bytes si @ hwd @ le_bytes di"

lemma length_arp_msg: "length hs = 6 \<Longrightarrow> length hwd = 6 \<Longrightarrow> length (arp_msg op hs si hwd di) = 28"
  by (simp add: arp_msg_def le16_bytes_def)

lemma put_front: "b = a + length xs \<Longrightarrow> put_bytes a xs (put_bytes b ys w) = put_bytes a (xs @ ys) w"
  using put_put [of a xs ys w] put_commute [of a xs b ys w] by simp

lemma put_merge: "b = a + length xs \<Longrightarrow> put_bytes b ys (put_bytes a xs w) = put_bytes a (xs @ ys) w"
  using put_put by simp

lemma write_etharp_hdr_msg:
  assumes "length hs = 6" "length hwd = 6"
  shows "write_etharp_hdr h hs si hwd di op w = put_bytes h (arp_msg op hs si hwd di) w"
proof -
  have c: "le16_bytes (PP_HTONS LWIP_IANA_HWTYPE_ETHERNET) = [0, 1]" "le16_bytes (PP_HTONS ETHTYPE_IP) = [8, 0]"
    using htons_bytes [of 1] htons_bytes [of "0x800"] by (simp_all add: lwip_htons_def arp_number_defs le16_bytes_def)
  have l: "length (le16_bytes v) = 2" for v by (simp add: le16_bytes_def)
  show ?thesis
    using assms
    by (simp add: write_etharp_hdr_def Let_def put16_def put8_def put32_def htons_bytes c l layout_simps put_front put_merge arp_msg_def)
qed

lemma arp_alloc_room: "pbuf_alloc PBUF_LINK 28 PBUF_RAM w = Some (None, w) \<longleftrightarrow> mem_malloc 60 (hp w) = Some (None, hp w)"
proof -
  have al: "pbuf_alloc PBUF_LINK 28 PBUF_RAM w = Option.bind (heap_malloc 60 w) (\<lambda>(p, w). case p of None \<Rightarrow> Some (None, w) | Some p \<Rightarrow>
      (let w = pbuf_init_alloced_pbuf p (LWIP_MEM_ALIGN (p + 16 + unat (layer_offset PBUF_LINK))) 28 28 PBUF_RAM 0 w
       in if payload (pbufs w p) mod 4 \<noteq> 0 then None else Some (Some p, w)))"
    unfolding pbuf_alloc_def Let_def layout_simps by (simp add: LWIP_MEM_ALIGN_SIZE_def mem_size_def layout_simps)
  show ?thesis
  proof (cases "mem_malloc 60 (hp w)")
    case None
    then show ?thesis by (simp add: al heap_malloc_def)
  next
    case (Some y)
    then show ?thesis
      by (cases "fst y"; cases y) (auto simp: al heap_malloc_def Let_def split: if_splits dest: arg_cong [where f = hp])
  qed
qed

lemma etharp_raw_spec:
  assumes ok: "mem_ok w" "layout_ok w" "tx_alive w" and n: "eth_netif (netifs w n)"
    and len: "length es = 6" "length ed = 6" "length hs = 6" "length hwd = 6"
  shows "\<exists>e w'. etharp_raw (Some n) es ed hs si hwd di op w = Some (e, w') \<and> keeps w w' \<and>
    (e = ERR_MEM \<and> w' = w \<and> mem_malloc 60 (hp w) = Some (None, hp w) \<or>
     e = ERR_OK \<and> mem_malloc 60 (hp w) \<noteq> Some (None, hp w) \<and> sent (mac w') = sent (mac w) @ [(txslot w, eth_frame ed es ETHTYPE_ARP (arp_msg op hs si hwd di))] \<and>
     txslot w' = (txslot w + 1) mod of_nat ETHMAC_TX_SLOTS)"
proof -
  let ?m = "arp_msg op hs si hwd di"
  note lm = length_arp_msg [OF len(3,4), of op si di]
  obtain r w1 where a: "pbuf_alloc PBUF_LINK 28 PBUF_RAM w = Some (r, w1)"
    "case r of None \<Rightarrow> w1 = w | Some p \<Rightarrow> fresh_packet w w1 p [p] 28 \<and> ram_pbuf w1 PBUF_LINK 28 p"
    using pbuf_alloc_ram_at [OF ok(1), of PBUF_LINK 28] by blast
  note room = arp_alloc_room [of w]
  show ?thesis
  proof (cases r)
    case None
    then have "mem_malloc 60 (hp w) = Some (None, hp w)" using a room by simp
    then show ?thesis using a None keeps_refl [OF ok(1,3)] by (simp add: etharp_raw_def layout_simps)
  next
    case (Some q)
    have f: "fresh_packet w w1 q [q] 28" and rp: "ram_pbuf w1 PBUF_LINK 28 q" using a(2) Some by simp_all
    obtain k where b: "payload (pbufs w1 q) = q + 32" "plen (pbufs w1 q) = 28" "ptot (pbufs w1 q) = 28" "nxt (pbufs w1 q) = None"
      "type_internal (pbufs w1 q) = 0x80" "pref (pbufs w1 q) = 1" "live (hp w1) q = Some k" "60 \<le> k"
      using rp by (auto simp: ram_pbuf_def LWIP_MEM_ALIGN_SIZE_def layout_simps)
    have st: "fixed w1 = fixed w" using pbuf_alloc_static [OF a(1)] static_driver(5) [of w1 w] by simp
    have w1: "mem_ok w1" "layout_ok w1" "netifs w1 = netifs w" "mac w1 = mac w" "txslot w1 = txslot w" "tx_alive w1" "ram_bytes w1 = ram_bytes w"
      using f ok static_driver [of w1 w] pbuf_alloc_static [OF a(1)] layout_ok_fixed [OF st]
      by (simp_all add: fresh_packet_def same_data_def tx_alive_def)
    have src: "source_of (pbufs w1 q) = Some Heap" using b(5) by (simp add: source_of_def pbuf_get_allocsrc_def pbuf_type_defs)
    have live: "live (hp w) = (live (hp w1))(q := None)" and pools: "\<And>t. pool_live t (pl w) = pool_live t (pl w1)"
      using f src by (auto simp: fresh_packet_def tables_def fun_eq_iff)
    have range: "ram (hp w) + 8 \<le> q" "q + k \<le> ram (hp w) + 3072"
      using heap_live_range [of "hp w1" q k] w1(1) b(7) st by (simp_all add: mem_ok_def fixed_def)
    have spare: "spare w q k"
    proof -
      have "p + c \<le> q \<or> q + k \<le> p" if "live (hp w) p = Some c" for p c
      proof -
        have "live (hp w1) p = Some c" "p \<noteq> q" using that live by (auto split: if_splits)
        then show ?thesis
          using mem_heap.apart [of "hp w1" p c q k] mem_heap.apart [of "hp w1" q k p c] b(7) w1(1) by (auto simp: mem_ok_def neq_iff)
      qed
      then show ?thesis using range b(8) by (simp add: spare_def)
    qed
    define w2 where "w2 = put_bytes (q + 32) ?m w1"
    have w2: "pbufs w2 = pbufs w1" "hp w2 = hp w1" "pl w2 = pl w1" "netifs w2 = netifs w" "mac w2 = mac w" "txslot w2 = txslot w"
      "tx_alive w2" "contents w2 [q] = ?m" "ram_bytes w2 = store (q + 32) ?m (ram_bytes w)"
      using w1 b lm fetch_store [of "q + 32" ?m "ram_bytes w"] by (simp_all add: w2_def put_bytes_def tx_alive_def seg_def)
    have "tx_clear w2 (q + 32 - 14) (q + 32 + 28)"
      using layout_heap_clear [OF w1(2,1) b(7), of "q + 18" "q + 60"] b(8) by (simp add: tx_clear_def tx_slot_addr_def w2 w1 add.commute [of q])
    then have snd: "sendable w2 q [] 14"
      using b range ok(2) by (simp add: sendable_def packet_def w2 layout_ok_def)
    have "eth_netif (netifs w2 n)" "lens w2 [q] + 14 \<le> 2048" using n b by (simp_all add: w2)
    from ethernet_output_spec [OF snd w2(7) this len(2,1), of ETHTYPE_ARP] obtain w3 where
      w3: "ethernet_output n q es ed ETHTYPE_ARP w2 = Some (ERR_OK, w3)" "pbufs w3 = (pbufs w1)(q := grown 14 (pbufs w1 q))"
      "went_out (\<lambda>x. q + 32 - 14 \<le> x \<and> x < q + 32) (eth_frame ed es ETHTYPE_ARP ?m) w2 w3"
      unfolding w2(1,8) b(1) by blast
    have b3: "nxt (pbufs w3 q) = None" "pref (pbufs w3 q) = 1" "source_of (pbufs w3 q) = Some Heap" "tables w3 = tables w1" "mem_ok w3"
      using w3 b src w2 w1(1) by (simp_all add: went_out_def tables_def mem_ok_def)
    have "held w3 q" using b3 b(7) by (auto simp: held_def tables_def)
    then obtain w4 where w4: "free_packet q w3 = Some w4" "mem_ok w4" "tables w4 = give_back w3 [q] (tables w3)" "same_data w3 w4"
      "\<forall>a. a \<noteq> q \<longrightarrow> pbufs w4 a = pbufs w3 a"
      using free_packet_spec [OF b3(5), of q "[q]"] b3 by auto
    have raw: "etharp_raw (Some n) es ed hs si hwd di op w = Some (ERR_OK, w4)"
      using a(1) Some b w3(1) w4(1) n
      by (simp add: etharp_raw_def layout_simps eth_netif_def w1 w2_def write_etharp_hdr_msg [OF len(3,4)])
    have st4: "dstate.more w4 = dstate.more w3" "mac w4 = mac w3" "txslot w4 = txslot w3" "netifs w4 = netifs w3"
      using free_packet_static [OF w4(1)] static_driver by blast+
    have ram: "ram_bytes w4 x = ram_bytes w x" if "\<not> tx_area w x" "x < q \<or> q + k \<le> x" for x
    proof -
      have "ram_bytes w3 x = ram_bytes w2 x"
        using w3(3) that b(8) w2(5) by (auto simp: went_out_def tx_area_def tx_slot_addr_def)
      then show ?thesis using w4(4) w2(9) that(2) b(8) lm by (auto simp: same_data_def store_def)
    qed
    have "pbufs w4 c = pbufs w c \<and> seg w4 c = seg w c" if "placed w c" for c
    proof -
      note ps = placed_spare [OF that spare ok(2,1)]
      have "pbufs w4 c = pbufs w c" using ps(1) w4(5) w3(2) f by (simp add: fresh_packet_def)
      moreover have "fetch (ram_bytes w4) (payload (pbufs w c)) (unat (plen (pbufs w c))) = fetch (ram_bytes w) (payload (pbufs w c)) (unat (plen (pbufs w c)))"
      proof (rule fetch_cong)
        fix x assume "payload (pbufs w c) \<le> x" "x < payload (pbufs w c) + unat (plen (pbufs w c))"
        moreover have "c + 16 \<le> payload (pbufs w c)" using that by (auto simp: placed_def)
        ultimately show "ram_bytes w4 x = ram_bytes w x"
          using ps(2) placed_clear(1) [OF that ok(2,1)] by (intro ram) (auto simp: tx_clear_def tx_area_def layout_simps)
      qed
      ultimately show ?thesis by (simp add: seg_def)
    qed
    moreover have "tables w4 = tables w"
      using w4(3) b3(3,4) live pools by (simp add: tables_def fun_eq_iff)
    moreover have "tx_alive w4"
    proof -
      have "tx_alive w3" using w3(3) by (simp add: went_out_def)
      then show ?thesis using st4(2,3) by (simp add: tx_alive_def)
    qed
    ultimately have "keeps w w4" using w4(2) etharp_raw_fixed [OF raw] by (simp add: keeps_def)
    moreover have "mem_malloc 60 (hp w) \<noteq> Some (None, hp w)" using a(1) Some room by auto
    ultimately show ?thesis using raw st4 w3(3) w2 by (intro exI [of _ ERR_OK] exI [of _ w4]) (simp add: went_out_def)
  qed
qed

section \<open>Reading the message\<close>

lemma get16_bytes: "fetch (ram_bytes w) a 2 = le16_bytes v \<Longrightarrow> get16 a w = v"
  by (simp add: get16_def fetch_def upt_rec le16_bytes_def le16_le16_bytes)

lemma get32_bytes: "fetch (ram_bytes w) a 4 = le_bytes v \<Longrightarrow> get32 a w = v"
  by (simp add: get32_def)

lemma arp_msg_fields:
  assumes "fetch (ram_bytes w) h 28 = arp_msg op hs si hwd di" "length hs = 6" "length hwd = 6"
  shows "get16 (h + hwtype_off) w = PP_HTONS LWIP_IANA_HWTYPE_ETHERNET" "unat (get8 (h + hwlen_off) w) = ETH_HWADDR_LEN"
    "get8 (h + protolen_off) w = 4" "get16 (h + proto_off) w = PP_HTONS ETHTYPE_IP" "get16 (h + opcode_off) w = PP_HTONS op"
    "get_bytes (h + shwaddr_off) ETH_HWADDR_LEN w = hs" "get32 (h + sipaddr_off) w = si" "get32 (h + dipaddr_off) w = di"
proof -
  have part: "fetch (ram_bytes w) (h + k) n = take n (drop k (arp_msg op hs si hwd di))" if "k + n \<le> 28" for k n
    unfolding assms(1) [symmetric] using that by (simp add: min_absorb1)
  have c: "le16_bytes (PP_HTONS LWIP_IANA_HWTYPE_ETHERNET) = [0, 1]" "le16_bytes (PP_HTONS ETHTYPE_IP) = [8, 0]"
    "le16_bytes (PP_HTONS op) = rev (le16_bytes op)"
    using htons_bytes [of 1] htons_bytes [of "0x800"] htons_bytes [of op] by (simp_all add: lwip_htons_def arp_number_defs le16_bytes_def)
  have l: "length (le16_bytes v) = 2" for v by (simp add: le16_bytes_def)
  show "get16 (h + hwtype_off) w = PP_HTONS LWIP_IANA_HWTYPE_ETHERNET" "get16 (h + proto_off) w = PP_HTONS ETHTYPE_IP"
    "get16 (h + opcode_off) w = PP_HTONS op"
    using part [of 0 2] part [of 2 2] part [of 6 2] l by (auto intro!: get16_bytes simp: c arp_msg_def layout_simps)
  show "get32 (h + sipaddr_off) w = si" "get32 (h + dipaddr_off) w = di"
    using part [of 14 4] part [of 24 4] assms(2,3) l by (auto intro!: get32_bytes simp: arp_msg_def layout_simps)
  show "get_bytes (h + shwaddr_off) ETH_HWADDR_LEN w = hs"
    using part [of 8 6] assms(2) l by (simp add: get_bytes_def arp_msg_def layout_simps)
  show "unat (get8 (h + hwlen_off) w) = ETH_HWADDR_LEN" "get8 (h + protolen_off) w = 4"
    using part [of 4 1] part [of 5 1] by (simp_all add: get8_def arp_msg_def layout_simps fetch_def upt_rec)
qed

end
