(* ===== verification/Etharp_Reply.thy ===== *)
theory Etharp_Reply
  imports Etharp_Send
begin

text \<open>
  What an ARP request for our address leads to: the sender is learned, the reply goes out, the request is freed.
\<close>

section \<open>The table when no packet is waiting\<close>

definition arp_idle :: "'a astate_scheme \<Rightarrow> bool" where
  "arp_idle w \<longleftrightarrow> (\<forall>e\<in>set (arp_table w). arp_q e = None)"

lemma arp_idle_entry: "arp_idle w \<Longrightarrow> i < length (arp_table w) \<Longrightarrow> arp_q (arp w i) = None"
  by (simp add: arp_idle_def arp_def)

definition cand_ok :: "candidates \<Rightarrow> bool" where
  "cand_ok c \<longleftrightarrow> c_empty c \<le> ARP_TABLE_SIZE \<and>
     (c_age_stable c \<noteq> 0 \<longrightarrow> c_old_stable c < ARP_TABLE_SIZE) \<and> (c_age_pending c \<noteq> 0 \<longrightarrow> c_old_pending c < ARP_TABLE_SIZE) \<and>
     (c_age_queue c \<noteq> 0 \<longrightarrow> c_old_queue c < ARP_TABLE_SIZE)"

definition has_cand :: "candidates \<Rightarrow> bool" where
  "has_cand c \<longleftrightarrow> c_empty c < ARP_TABLE_SIZE \<or> c_old_stable c < ARP_TABLE_SIZE \<or> c_old_pending c < ARP_TABLE_SIZE \<or> c_old_queue c < ARP_TABLE_SIZE"

lemma remember_ok: "cand_ok c \<Longrightarrow> i < ARP_TABLE_SIZE \<Longrightarrow> cand_ok (remember i e c)"
  by (auto simp: cand_ok_def remember_def)

lemma stable_iff: "s \<ge> ETHARP_STATE_STABLE \<longleftrightarrow> s \<noteq> ETHARP_STATE_EMPTY \<and> s \<noteq> ETHARP_STATE_PENDING"
  by (cases s) (simp_all add: less_eq_etharp_state_def)

lemma remember_has:
  assumes "cand_ok c" "i < ARP_TABLE_SIZE" "arp_state e \<noteq> ETHARP_STATE_EMPTY"
  shows "has_cand (remember i e c)"
proof -
  have age: "\<not> a \<le> b \<Longrightarrow> a \<noteq> 0" for a b :: u16 by auto
  show ?thesis
    using assms age by (auto simp: cand_ok_def has_cand_def remember_def stable_iff)
qed

lemma sweep_has_cand:
  "sweep a nif i es c = Inr d \<Longrightarrow> i + length es \<le> ARP_TABLE_SIZE \<Longrightarrow> cand_ok c \<Longrightarrow> has_cand c \<or> es \<noteq> [] \<Longrightarrow> has_cand d"
proof (induction es arbitrary: i c)
  case (Cons e es)
  have "\<exists>c'. sweep a nif (i + 1) es c' = Inr d \<and> cand_ok c' \<and> has_cand c'"
  proof (cases "arp_state e = ETHARP_STATE_EMPTY")
    case True
    then show ?thesis
      using Cons.prems by (cases "c_empty c = ARP_TABLE_SIZE") (auto simp: cand_ok_def has_cand_def intro: exI [of _ "c\<lparr>c_empty := i\<rparr>"])
  next
    case False
    then show ?thesis
      using Cons.prems remember_ok [of c i e] remember_has [of c i e] by (intro exI [of _ "remember i e c"]) (auto split: if_splits)
  qed
  then show ?case using Cons.IH Cons.prems(2) by auto
qed simp

lemma etharp_free_entry_idle:
  "arp_q (arp w i) = None \<Longrightarrow> etharp_free_entry i w = Some (set_arp i (\<lambda>e. e\<lparr>arp_state := ETHARP_STATE_EMPTY\<rparr>) w)"
  by (simp add: etharp_free_entry_def)

lemma etharp_find_entry_idle:
  assumes "arp_inv w" "arp_idle w"
  shows "\<exists>i t. etharp_find_entry (Some ip) ETHARP_FLAG_TRY_HARD (Some n) w = Some (Inr i, w\<lparr>arp_table := t\<rparr>) \<and> (\<forall>e\<in>set t. arp_q e = None)"
proof -
  have t: "take ARP_TABLE_SIZE (arp_table w) = arp_table w" and len: "length (arp_table w) = ARP_TABLE_SIZE"
    using assms(1) by (simp_all add: arp_inv_def arp_ok_def)
  show ?thesis
  proof (cases "sweep (Some ip) (Some n) 0 (arp_table w) no_candidates")
    case (Inl i)
    then show ?thesis using t assms(2) by (intro exI [of _ i] exI [of _ "arp_table w"]) (simp add: etharp_find_entry_def arp_idle_def)
  next
    case (Inr c)
    have ne: "arp_table w \<noteq> []" using len by (auto simp: layout_simps)
    have c0: "cand_ok no_candidates" by (simp add: cand_ok_def no_candidates_def)
    have has: "has_cand c" using sweep_has_cand [OF Inr _ c0] len ne by simp
    have em: "arp_state (arp w (c_empty c)) = ETHARP_STATE_EMPTY" if "c_empty c < ARP_TABLE_SIZE"
      using sweep_empty [OF Inr] that len by (auto simp: no_candidates_def arp_def)
    have "\<exists>i f. i < ARP_TABLE_SIZE \<and> recycle c w = Some (Some i, set_arp i f w) \<and> arp_state (f (arp w i)) = ETHARP_STATE_EMPTY \<and>
        arp_q (f (arp w i)) = None"
    proof (cases "c_empty c < ARP_TABLE_SIZE")
      case True
      have "set_arp (c_empty c) (\<lambda>e. e) w = w" by (simp add: set_arp_def)
      then show ?thesis
        using True em arp_idle_entry [OF assms(2)] len by (intro exI [of _ "c_empty c"] exI [of _ "\<lambda>e. e"]) (simp add: recycle_def)
    next
      case False
      then obtain i where "i < ARP_TABLE_SIZE" "recycle c w = do { w \<leftarrow> etharp_free_entry i w; Some (Some i, w) }"
        using has arp_idle_entry [OF assms(2)] len
        by (cases "c_old_stable c < ARP_TABLE_SIZE"; cases "c_old_pending c < ARP_TABLE_SIZE") (auto simp: has_cand_def recycle_def)
      then show ?thesis
        using arp_idle_entry [OF assms(2), of i] len
        by (intro exI [of _ i] exI [of _ "\<lambda>e. e\<lparr>arp_state := ETHARP_STATE_EMPTY\<rparr>"]) (simp add: etharp_free_entry_idle)
    qed
    then obtain i f where i: "i < ARP_TABLE_SIZE" "recycle c w = Some (Some i, set_arp i f w)"
      "arp_state (f (arp w i)) = ETHARP_STATE_EMPTY" "arp_q (f (arp w i)) = None" by blast
    have fl: "ETHARP_FLAG_TRY_HARD AND ETHARP_FLAG_FIND_ONLY = 0" "ETHARP_FLAG_TRY_HARD AND ETHARP_FLAG_TRY_HARD \<noteq> 0"
      by (simp_all add: ETHARP_FLAG_TRY_HARD_def ETHARP_FLAG_FIND_ONLY_def)
    let ?e = "(f (arp w i))\<lparr>arp_ipaddr := ip, arp_ctime := 0, arp_netif := Some n\<rparr>"
    have "etharp_find_entry (Some ip) ETHARP_FLAG_TRY_HARD (Some n) w = Some (Inr i, w\<lparr>arp_table := (arp_table w)[i := ?e]\<rparr>)"
      using Inr t i len fl by (simp add: etharp_find_entry_def) (simp add: set_arp_def arp_def)
    moreover have "\<forall>e\<in>set ((arp_table w)[i := ?e]). arp_q e = None"
      using assms(2) i(4) set_update_subset_insert by (fastforce simp: arp_idle_def)
    ultimately show ?thesis by blast
  qed
qed

section \<open>What the table says\<close>

text \<open>The hardware address the table gives for an address on an interface.\<close>

definition arp_cache :: "'a astate_scheme \<Rightarrow> nat \<Rightarrow> u32 \<Rightarrow> bytes option" where
  "arp_cache w n ip = map_option arp_ethaddr (List.find (usable ip n) (arp_table w))"

lemma usable_in_use: "usable ip n e \<Longrightarrow> arp_state e \<noteq> ETHARP_STATE_EMPTY \<and> arp_ipaddr e = ip \<and> arp_netif e = Some n"
  by (auto simp: usable_def stable_iff)

lemma arp_cache_entry:
  assumes "arp_inv w" "i < ARP_TABLE_SIZE" "usable ip n (arp w i)"
  shows "arp_cache w n ip = Some (arp_ethaddr (arp w i))"
proof -
  have len: "length (arp_table w) = ARP_TABLE_SIZE" using assms(1) by (simp add: arp_inv_def arp_ok_def)
  then obtain j where j: "j < ARP_TABLE_SIZE" "usable ip n (arp w j)" "List.find (usable ip n) (arp_table w) = Some (arp w j)"
    using assms(2,3) by (cases "List.find (usable ip n) (arp_table w)") (auto simp: find_None_iff find_Some_iff arp_def)
  have "i = j"
    using usable_in_use [OF assms(3)] usable_in_use [OF j(2)] assms(1,2) j(1) by (auto simp: arp_inv_def arp_ok_def arp_def)
  then show ?thesis using j(3) by (simp add: arp_cache_def)
qed

definition unicast :: "'a dstate_scheme \<Rightarrow> nat \<Rightarrow> u32 \<Rightarrow> bool" where
  "unicast w n ip \<longleftrightarrow> \<not> ip4_addr_isany_val ip \<and> \<not> ip4_addr_isbroadcast ip n w \<and> \<not> ip4_addr_ismulticast ip"

lemma etharp_update_idle:
  assumes "arp_inv w" "arp_idle w" "unat (hwaddr_len (netifs w n)) = ETH_HWADDR_LEN" "length ea = ETH_HWADDR_LEN"
  shows "\<exists>e t. etharp_update_arp_entry n ip ea ETHARP_FLAG_TRY_HARD w = Some (e, w\<lparr>arp_table := t\<rparr>) \<and>
    arp_inv (w\<lparr>arp_table := t\<rparr>) \<and> (\<forall>e\<in>set t. arp_q e = None) \<and> (unicast w n ip \<longrightarrow> arp_cache (w\<lparr>arp_table := t\<rparr>) n ip = Some ea)"
proof (cases "unicast w n ip")
  case False
  then have "etharp_update_arp_entry n ip ea ETHARP_FLAG_TRY_HARD w = Some (ERR_ARG, w\<lparr>arp_table := arp_table w\<rparr>)"
    using assms(3) by (auto simp: etharp_update_arp_entry_def unicast_def)
  then show ?thesis using assms(1,2) False by (intro exI [of _ ERR_ARG] exI [of _ "arp_table w"]) (simp add: arp_idle_def)
next
  case True
  obtain i t where f: "etharp_find_entry (Some ip) ETHARP_FLAG_TRY_HARD (Some n) w = Some (Inr i, w\<lparr>arp_table := t\<rparr>)" "\<forall>e\<in>set t. arp_q e = None"
    using etharp_find_entry_idle [OF assms(1,2)] by blast
  define w1 where "w1 = w\<lparr>arp_table := t\<rparr>"
  have w1: "arp_inv w1" "sole ip n i w1" "arp_table w1 = t" using etharp_find_entry_inv [OF f(1) assms(1)] by (simp_all add: w1_def)
  then have i: "i < ARP_TABLE_SIZE" "i < length t" by (auto simp: sole_def arp_inv_def arp_ok_def)
  define t' where "t' = t[i := (arp w1 i)\<lparr>arp_state := ETHARP_STATE_STABLE, arp_netif := Some n, arp_ethaddr := ea, arp_ctime := 0\<rparr>]"
  have q: "arp_q (arp w1 i) = None" using f(2) i(2) w1(3) by (simp add: arp_def)
  have u: "etharp_update_arp_entry n ip ea ETHARP_FLAG_TRY_HARD w = Some (ERR_OK, w\<lparr>arp_table := t'\<rparr>)"
  proof -
    have "set_arp i (\<lambda>e. e\<lparr>arp_state := ETHARP_STATE_STABLE, arp_netif := Some n, arp_ethaddr := ea, arp_ctime := 0\<rparr>) w1 = w\<lparr>arp_table := t'\<rparr>"
      by (simp add: set_arp_def w1_def t'_def arp_def)
    moreover have "arp_q (arp (w\<lparr>arp_table := t'\<rparr>) i) = None" using q i(2) by (simp add: arp_def t'_def)
    ultimately show ?thesis
      using True f(1) assms(3,4) by (simp add: etharp_update_arp_entry_def unicast_def Let_def w1_def [symmetric])
  qed
  have inv: "arp_inv (w\<lparr>arp_table := t'\<rparr>)" using etharp_update_arp_entry_table [OF u assms(1,4)] by simp
  moreover have "usable ip n (arp (w\<lparr>arp_table := t'\<rparr>) i)"
    using i(2) w1(2) by (simp add: usable_def t'_def arp_def sole_def)
  from arp_cache_entry [OF inv i(1) this] have "arp_cache (w\<lparr>arp_table := t'\<rparr>) n ip = Some ea" using i(2) by (simp add: t'_def arp_def)
  moreover have "\<forall>e\<in>set t'. arp_q e = None"
    using f(2) q set_update_subset_insert unfolding t'_def by fastforce
  ultimately show ?thesis using u by blast
qed

lemma arp_table_irrelevant [simp]:
  "mem_ok (w\<lparr>arp_table := t\<rparr>) = mem_ok w" "layout_ok (w\<lparr>arp_table := t\<rparr>) = layout_ok w" "tx_alive (w\<lparr>arp_table := t\<rparr>) = tx_alive w"
  "tables (w\<lparr>arp_table := t\<rparr>) = tables w" "placed (w\<lparr>arp_table := t\<rparr>) a = placed w a" "seg (w\<lparr>arp_table := t\<rparr>) a = seg w a"
  "get8 x (w\<lparr>arp_table := t\<rparr>) = get8 x w" "get16 x (w\<lparr>arp_table := t\<rparr>) = get16 x w" "get32 x (w\<lparr>arp_table := t\<rparr>) = get32 x w"
  "get_bytes x k (w\<lparr>arp_table := t\<rparr>) = get_bytes x k w"
  by (simp_all add: mem_ok_def layout_ok_def slots_apart_def tx_alive_def tables_def placed_def seg_def get8_def get16_def get32_def get_bytes_def)

section \<open>Requests\<close>

text \<open>A packet as the driver hands it over: in its own memory, with no other references.\<close>

definition received :: "'a mstate_scheme \<Rightarrow> nat \<Rightarrow> nat list \<Rightarrow> bool" where
  "received w p ps \<longleftrightarrow> packet w p ps \<and> (\<forall>a\<in>set ps. placed w a \<and> pref (pbufs w a) = 1)"

lemma received_keeps:
  assumes "received w p ps" "keeps w w'"
  shows "received w' p ps" "contents w' ps = contents w ps" "give_back w' ps T = give_back w ps T"
proof -
  have same: "pbufs w' a = pbufs w a" "seg w' a = seg w a" "placed w' a" if "a \<in> set ps" for a
    using assms that keeps_placed by (auto simp: received_def keeps_def)
  have "lseg (nxts w') (Some p) ps = lseg (nxts w) (Some p) ps" by (rule lseg_cong) (simp add: same)
  moreover have "tot_ok w' ps = tot_ok w ps" by (rule tot_ok_cong) (simp add: same)
  ultimately show "received w' p ps" using assms(1) same by (simp add: received_def packet_def)
  show "contents w' ps = contents w ps" using same by (auto simp: contents_def intro!: arg_cong [where f = concat])
  show "give_back w' ps T = give_back w ps T" by (rule give_back_cong) (simp add: same)
qed

lemma received_free:
  assumes "received w p ps" "mem_ok w"
  shows "\<exists>w'. free_packet p w = Some w' \<and> mem_ok w' \<and> tables w' = give_back w ps (tables w) \<and> same_data w w'"
  using free_packet_spec [OF assms(2), of p ps] assms(1) placed_held by (fastforce simp: received_def packet_def)

lemma received_header:
  assumes "received w p ps" "unat (plen (pbufs w p)) \<ge> k"
  shows "take k (contents w ps) = fetch (ram_bytes w) (payload (pbufs w p)) k"
proof -
  obtain qs where "ps = p # qs" using assms(1) by (cases ps) (auto simp: received_def packet_def)
  then show ?thesis using assms(2) by (simp add: seg_def min_absorb1)
qed

lemma etharp_input_request:
  assumes ok: "mem_ok w" "layout_ok w" "tx_alive w" and n: "eth_netif (netifs w n)" and arp: "arp_inv w" "arp_idle w"
    and r: "received w p ps" "unat (plen (pbufs w p)) \<ge> 28"
    and msg: "take 28 (contents w ps) = arp_msg ARP_REQUEST hs si hwd (ip_addr (netifs w n))" "length hs = 6" "length hwd = 6"
    and ours: "\<not> ip4_addr_isany_val (ip_addr (netifs w n))"
  shows "\<exists>w'. etharp_input p n w = Some w' \<and> mem_ok w' \<and> tables w' = give_back w ps (tables w) \<and> arp_inv w' \<and>
    (unicast w n si \<longrightarrow> arp_cache w' n si = Some hs) \<and>
    sent (mac w') = sent (mac w) @
      (if mem_malloc 60 (hp w) = Some (None, hp w) then []
       else [(txslot w, eth_frame hs (hwaddr (netifs w n)) ETHTYPE_ARP (arp_msg ARP_REPLY (hwaddr (netifs w n)) (ip_addr (netifs w n)) hs si))])"
proof -
  let ?h = "payload (pbufs w p)" and ?n = "netifs w n"
  have "fetch (ram_bytes w) ?h 28 = arp_msg ARP_REQUEST hs si hwd (ip_addr ?n)" using received_header [OF r] msg(1) by simp
  note g = arp_msg_fields [OF this msg(2,3)]
  have hw: "unat (hwaddr_len ?n) = ETH_HWADDR_LEN" "length (hwaddr ?n) = 6" "length hs = ETH_HWADDR_LEN"
    using n msg(2) by (simp_all add: eth_netif_def layout_simps)
  obtain e t where u: "etharp_update_arp_entry n si hs ETHARP_FLAG_TRY_HARD w = Some (e, w\<lparr>arp_table := t\<rparr>)"
    "arp_inv (w\<lparr>arp_table := t\<rparr>)" "unicast w n si \<longrightarrow> arp_cache (w\<lparr>arp_table := t\<rparr>) n si = Some hs"
    using etharp_update_idle [OF arp hw(1,3)] by blast
  define w1 where "w1 = w\<lparr>arp_table := t\<rparr>"
  have w1: "mem_ok w1" "layout_ok w1" "tx_alive w1" "eth_netif (netifs w1 n)" "hp w1 = hp w" "mac w1 = mac w" "txslot w1 = txslot w" "netifs w1 = netifs w"
    using ok n by (simp_all add: w1_def)
  obtain e' w2 where raw: "etharp_raw (Some n) (hwaddr ?n) hs (hwaddr ?n) (ip_addr ?n) hs si ARP_REPLY w1 = Some (e', w2)" and k: "keeps w1 w2"
    and s: "sent (mac w2) = sent (mac w) @ (if mem_malloc 60 (hp w) = Some (None, hp w) then []
       else [(txslot w, eth_frame hs (hwaddr ?n) ETHTYPE_ARP (arp_msg ARP_REPLY (hwaddr ?n) (ip_addr ?n) hs si))])"
    using etharp_raw_spec [OF w1(1-4) hw(2) msg(2) hw(2) msg(2), of "ip_addr ?n" si ARP_REPLY] unfolding w1(5,7) by (auto simp: w1(6))
  have "received w1 p ps" using r(1) tot_ok_cong [of ps w1 w] by (simp add: received_def packet_def w1_def)
  note r2 = received_keeps [OF this k]
  obtain w3 where w3: "free_packet p w2 = Some w3" "mem_ok w3" "tables w3 = give_back w2 ps (tables w2)"
    using received_free [OF r2(1)] k by (auto simp: keeps_def)
  have "etharp_input p n w = free_packet p w2"
  proof -
    have "get32 (?h + dipaddr_off) w = ip_addr ?n" "get16 (?h + opcode_off) w = PP_HTONS ARP_REQUEST" using g by simp_all
    then show ?thesis
      unfolding etharp_input_def Let_def using g ours u(1) raw
      by (simp add: w1_def)
  qed
  moreover have "tables w3 = give_back w ps (tables w)"
  proof -
    have "give_back w1 ps T = give_back w ps T" for T by (rule give_back_cong) (simp add: w1_def)
    then show ?thesis using w3(3) r2(3) k by (simp add: keeps_def w1_def)
  qed
  moreover have "arp_table w3 = t" "etharp_cached_entry w3 = etharp_cached_entry w" "mac w3 = mac w2"
    using fixed_arp [OF free_packet_fixed [OF w3(1)]] fixed_arp [OF etharp_raw_fixed [OF raw]] static_driver(2) [OF free_packet_static [OF w3(1)]]
    by (simp_all add: w1_def)
  moreover from this have "arp_inv w3" "arp_cache w3 n si = arp_cache (w\<lparr>arp_table := t\<rparr>) n si"
    using u(2) by (simp_all add: arp_inv_def arp_cache_def)
  ultimately show ?thesis using w3(1,2) s u(3) by (intro exI [of _ w3]) simp
qed

section \<open>Properties\<close>

text \<open>A state in which one packet has arrived, for the examples.\<close>

definition heard :: "bytes \<Rightarrow> astate" where
  "heard d = arp0\<lparr>hp := heap1 False, ram_bytes := store 80 d (\<lambda>_. 0),
     pbufs := (\<lambda>_. \<lparr>nxt = None, payload = 80, ptot = of_nat (length d), plen = of_nat (length d), type_internal = 0x80,
                    pflags = 0, pref = 1, if_idx = 0\<rparr>)\<rparr>"

lemma heard_sel [simp]:
  "hp (heard d) = heap1 False" "pl (heard d) = memp_init pools0" "netifs (heard d) = (\<lambda>_. netif0)" "mac (heard d) = mac0" "txslot (heard d) = 0"
  "arp_table (heard d) = arp_table arp0" "etharp_cached_entry (heard d) = etharp_cached_entry arp0" "payload (pbufs (heard d) a) = 80"
  "plen (pbufs (heard d) a) = of_nat (length d)" "type_internal (pbufs (heard d) a) = 0x80" "nxt (pbufs (heard d) a) = None"
  by (simp_all add: heard_def)

lemma heard_ok:
  "mem_ok (heard d)" "layout_ok (heard d)" "tx_alive (heard d)" "eth_netif (netifs (heard d) n)" "arp_inv (heard d)" "arp_idle (heard d)"
proof -
  show "mem_ok (heard d)" using sample_ram_held(1) by (simp add: mem_ok_def sample_ram_def)
  have "desc (memp_init pools0) = desc0" using memp_init_inv [of pools0] desc0_ok by (simp add: pools0_def)
  then have e: "6000 \<le> a \<and> a + 1540 \<le> 100000" if "a \<in> set (elems (desc (memp_init pools0) MEMP_PBUF_POOL))" for a
    using that by (auto simp: elems_def desc0_def LWIP_MEM_ALIGN_SIZE_def layout_simps)
  then show "layout_ok (heard d)" by (fastforce simp: layout_ok_def slots_apart_def heap1_ram mac0_def)
  show "tx_alive (heard d)" using driver0_ok(2) by (simp add: tx_alive_def)
  show "eth_netif (netifs (heard d) n)" by (simp add: eth_netif_def netif0_def fpga_mac_def layout_simps)
  have "arp_inv arp0" using arp_initial_inv arp0_sel(8) by blast
  then show "arp_inv (heard d)" by (simp add: arp_inv_def)
  show "arp_idle (heard d)" using arp0_sel(8) by (simp add: arp_idle_def arp_initial_def)
qed

lemma heard_received:
  assumes "length d \<le> 900"
  shows "received (heard d) 16 [16]" "contents (heard d) [16] = d"
proof -
  have l: "unat (of_nat (length d) :: u16) = length d" using assms by (intro unat_of_nat_small) simp
  have "live (heap1 False) = owned 8 [(1000, True), (2072, False)]" by (simp add: live_def heap1_blocks heap1_ram)
  then have "live (heap1 False) 16 = Some 992" by simp
  then have "placed (heard d) 16"
    unfolding placed_def using l assms
    by (intro exI [of _ Heap] exI [of _ 992]) (simp add: tables_def source_of_def pbuf_get_allocsrc_def pbuf_type_defs)
  then show "received (heard d) 16 [16]" by (simp add: received_def packet_def) (simp add: heard_def)
  show "contents (heard d) [16] = d" by (simp add: seg_def l) (simp add: heard_def)
qed

lemma heard_room: "mem_malloc 60 (heap1 False) \<noteq> Some (None, heap1 False)"
  using mem_malloc_blocks [of "heap1 False" "blocks_of (heap1 False)" 60] heap1_ok [of False]
  by (auto simp: heap_ok_def heap1_blocks fit_result_def alloc_spec_def)

text \<open>
  C39: A request for our address is answered: the reply, with our hardware and IP addresses as the sender and the requester
  as the target, goes out in a frame to the requester (unless the heap has no room for it), the requester's address is in
  the table from now on, and the packet of the request is freed. No assertion fails, and nothing leaks.
\<close>

theorem arp_request_answered:
  assumes "mem_ok w" "layout_ok w" "tx_alive w" "eth_netif (netifs w n)" "arp_inv w" "arp_idle w"
    "received w p ps" "unat (plen (pbufs w p)) \<ge> 28"
    "take 28 (contents w ps) = arp_msg ARP_REQUEST hs si hwd (ip_addr (netifs w n))" "length hs = 6" "length hwd = 6"
    "\<not> ip4_addr_isany_val (ip_addr (netifs w n))"
  shows "\<exists>w'. etharp_input p n w = Some w' \<and> mem_ok w' \<and> tables w' = give_back w ps (tables w) \<and> arp_inv w' \<and>
    (unicast w n si \<longrightarrow> arp_cache w' n si = Some hs) \<and>
    sent (mac w') = sent (mac w) @
      (if mem_malloc 60 (hp w) = Some (None, hp w) then []
       else [(txslot w, eth_frame hs (hwaddr (netifs w n)) ETHTYPE_ARP (arp_msg ARP_REPLY (hwaddr (netifs w n)) (ip_addr (netifs w n)) hs si))])"
  using etharp_input_request [OF assms] .

definition request0 :: bytes where
  "request0 = arp_msg ARP_REQUEST [2, 0, 0, 0, 0, 9] 0x0901A8C0 [0, 0, 0, 0, 0, 0] 0x3201A8C0"

theorem arp_request_answered_witness:
  "\<exists>w'. etharp_input 16 0 (heard request0) = Some w' \<and> arp_cache w' 0 0x0901A8C0 = Some [2, 0, 0, 0, 0, 9] \<and>
     sent (mac w') = [(0, [2, 0, 0, 0, 0, 9, 2, 0, 0, 0, 0, 1, 8, 6,
       0, 1, 8, 0, 6, 4, 0, 2, 2, 0, 0, 0, 0, 1, 192, 168, 1, 50, 2, 0, 0, 0, 0, 9, 192, 168, 1, 9])]"
proof -
  let ?hs = "[2, 0, 0, 0, 0, 9] :: bytes" and ?w = "heard request0"
  have len: "length request0 = 28" by (simp add: request0_def length_arp_msg)
  then have r: "received ?w 16 [16]" "contents ?w [16] = request0" using heard_received [of request0] by simp_all
  have uni: "unicast ?w 0 0x0901A8C0"
    by (simp add: unicast_def ip4_addr_isany_val_def ip4_addr_isbroadcast_def ip4_addr_isbroadcast_u32_def ip4_addr_ismulticast_def
        netif0_def IPADDR_ANY_def IPADDR_BROADCAST_def PP_HTONL_def)
  have f: "eth_frame ?hs (hwaddr netif0) ETHTYPE_ARP (arp_msg ARP_REPLY (hwaddr netif0) (ip_addr netif0) ?hs 0x0901A8C0) =
      [2, 0, 0, 0, 0, 9, 2, 0, 0, 0, 0, 1, 8, 6, 0, 1, 8, 0, 6, 4, 0, 2, 2, 0, 0, 0, 0, 1, 192, 168, 1, 50, 2, 0, 0, 0, 0, 9, 192, 168, 1, 9]"
    by code_simp
  have "take 28 (contents ?w [16]) = arp_msg ARP_REQUEST ?hs 0x0901A8C0 [0, 0, 0, 0, 0, 0] (ip_addr (netifs ?w 0))"
    "unat (plen (pbufs ?w 16)) \<ge> 28" "\<not> ip4_addr_isany_val (ip_addr (netifs ?w 0))"
    using r(2) len by (simp_all add: request0_def netif0_def ip4_addr_isany_val_def IPADDR_ANY_def del: contents_simps)
  then show ?thesis
    using arp_request_answered [OF heard_ok(1-3) heard_ok(4) [of request0 0] heard_ok(5,6) r(1), of ?hs "0x0901A8C0" "[0, 0, 0, 0, 0, 0]"]
      uni heard_room f by (auto simp: mac0_def simp del: contents_simps)
qed

end
