(* ===== verification/Etharp_Resolve.thy ===== *)
theory Etharp_Resolve
  imports Etharp_Reply
begin

text \<open>
  A packet to an address that is not in the table: it waits on a new entry while the request goes out, and leaves when
  the address is learned.
\<close>

section \<open>The entry of an address\<close>

definition unknown :: "'a astate_scheme \<Rightarrow> nat \<Rightarrow> u32 \<Rightarrow> bool" where
  "unknown w n ip \<longleftrightarrow> (\<forall>e\<in>set (arp_table w). arp_state e \<noteq> ETHARP_STATE_EMPTY \<longrightarrow> \<not> (arp_ipaddr e = ip \<and> arp_netif e = Some n))"

lemma find_entry_new:
  assumes "arp_inv w" "arp_idle w" "unknown w n ip"
  shows "\<exists>i t. etharp_find_entry (Some ip) ETHARP_FLAG_TRY_HARD (Some n) w = Some (Inr i, w\<lparr>arp_table := t\<rparr>) \<and> arp_state (t ! i) = ETHARP_STATE_EMPTY \<and>
    arp_inv (w\<lparr>arp_table := t\<rparr>) \<and> sole ip n i (w\<lparr>arp_table := t\<rparr>) \<and> (\<forall>e\<in>set t. arp_q e = None)"
proof -
  obtain i t where f: "etharp_find_entry (Some ip) ETHARP_FLAG_TRY_HARD (Some n) w = Some (Inr i, w\<lparr>arp_table := t\<rparr>)" "\<forall>e\<in>set t. arp_q e = None"
    using etharp_find_entry_idle [OF assms(1,2)] by blast
  have i: "arp_inv (w\<lparr>arp_table := t\<rparr>)" "sole ip n i (w\<lparr>arp_table := t\<rparr>)"
    "w\<lparr>arp_table := t\<rparr> = w \<and> arp_state (arp w i) \<noteq> ETHARP_STATE_EMPTY \<or> t = (arp_table w)[i := claimed ip n (arp w i)]"
    using etharp_find_entry_inv [OF f(1) assms(1)] by simp_all
  have len: "i < length (arp_table w)" using i(2) assms(1) by (simp add: sole_def arp_inv_def arp_ok_def)
  have "\<not> (w\<lparr>arp_table := t\<rparr> = w \<and> arp_state (arp w i) \<noteq> ETHARP_STATE_EMPTY)"
  proof
    assume a: "w\<lparr>arp_table := t\<rparr> = w \<and> arp_state (arp w i) \<noteq> ETHARP_STATE_EMPTY"
    then have "sole ip n i w" using i(2) by simp
    then show False using a assms(3) len by (auto simp: sole_def unknown_def arp_def)
  qed
  then have "t = (arp_table w)[i := claimed ip n (arp w i)]" using i(3) by blast
  then have "arp_state (t ! i) = ETHARP_STATE_EMPTY" using len by (simp add: claimed_def freed_def)
  then show ?thesis using f i(1,2) by blast
qed

lemma find_entry_hit:
  assumes "arp_inv w" "i < ARP_TABLE_SIZE" "arp_state (arp w i) \<noteq> ETHARP_STATE_EMPTY" "arp_ipaddr (arp w i) = ip" "arp_netif (arp w i) = Some n"
  shows "etharp_find_entry (Some ip) fl (Some n) w = Some (Inr i, w)"
proof -
  have t: "take ARP_TABLE_SIZE (arp_table w) = arp_table w" and len: "length (arp_table w) = ARP_TABLE_SIZE" and ok: "arp_ok (arp_table w)"
    using assms(1) by (simp_all add: arp_inv_def arp_ok_def)
  have "sweep (Some ip) (Some n) 0 (arp_table w) no_candidates = Inl i"
  proof (cases "sweep (Some ip) (Some n) 0 (arp_table w) no_candidates")
    case (Inl k)
    then have "k = i" using sweep_hit [OF Inl] assms(2-5) ok len by (auto simp: arp_ok_def arp_match_def arp_def)
    then show ?thesis using Inl by simp
  next
    case (Inr c)
    then show ?thesis using sweep_miss [OF Inr] assms(2-5) len by (auto simp: arp_match_def arp_def)
  qed
  then show ?thesis using t by (simp add: etharp_find_entry_def)
qed

section \<open>A packet that can wait\<close>

text \<open>A packet whose pbufs keep their data, with room for the Ethernet header.\<close>

definition queueable :: "'a dstate_scheme \<Rightarrow> nat \<Rightarrow> nat list \<Rightarrow> bool" where
  "queueable w q qs \<longleftrightarrow>
     sendable w q qs 14 \<and> lens w (q # qs) + 14 \<le> 2048 \<and> 0 < pref (pbufs w q) \<and> pref (pbufs w q) < 255 \<and>
     (\<forall>a\<in>set (q # qs). placed w a \<and> \<not> PBUF_NEEDS_COPY (pbufs w a) \<and> (plen (pbufs w a) = ptot (pbufs w a) \<longrightarrow> nxt (pbufs w a) = None))"

lemma copy_not_needed:
  "lseg (nxts w) p ps \<Longrightarrow> (\<And>a. a \<in> set ps \<Longrightarrow> \<not> PBUF_NEEDS_COPY (pbufs w a) \<and> (plen (pbufs w a) = ptot (pbufs w a) \<longrightarrow> nxt (pbufs w a) = None)) \<Longrightarrow>
   copy_needed p w = Some False"
proof (induction ps arbitrary: p)
  case Nil
  then show ?case by (subst copy_needed.simps) simp
next
  case (Cons a ps)
  then show ?case by (subst copy_needed.simps) auto
qed

lemma queueable_keeps:
  assumes "queueable w q qs" "keeps w w'"
  shows "queueable w' q qs" "contents w' (q # qs) = contents w (q # qs)" "pbufs w' q = pbufs w q"
proof -
  have same: "pbufs w' a = pbufs w a" "seg w' a = seg w a" "placed w' a" if "a \<in> set (q # qs)" for a
  proof -
    have "placed w a" using assms(1) that by (auto simp: queueable_def)
    then show "pbufs w' a = pbufs w a" "seg w' a = seg w a" "placed w' a"
      using assms(2) keeps_placed [OF assms(2)] by (auto simp: keeps_def)
  qed
  have l: "lens w' (q # qs) = lens w (q # qs)" by (rule lens_cong) (simp add: same)
  have "tot_ok w' (q # qs) = tot_ok w (q # qs)" by (rule tot_ok_cong) (simp add: same)
  moreover have "lseg (nxts w') (Some q) (q # qs) = lseg (nxts w) (Some q) (q # qs)" by (rule lseg_cong) (simp add: same)
  ultimately have "packet w' q (q # qs) = packet w q (q # qs)" by (simp only: packet_def)
  moreover have "outside w' qs lo hi = outside w qs lo hi" for lo hi by (simp add: outside_def same)
  moreover have "mac_base (mac w') = mac_base (mac w)" using assms(2) by (simp add: keeps_def fixed_def)
  then have "tx_slot_addr 0 w' = tx_slot_addr 0 w" by (simp add: tx_slot_addr_def)
  ultimately show "queueable w' q qs"
    using assms(1) same l by (simp add: queueable_def sendable_def tx_clear_def del: lens_simps)
  show "contents w' (q # qs) = contents w (q # qs)" using same by (auto simp: contents_def intro!: arg_cong [where f = concat])
  show "pbufs w' q = pbufs w q" by (simp add: same)
qed

lemma queueable_arp_table [simp]: "queueable (w\<lparr>arp_table := t\<rparr>) q qs = queueable w q qs"
proof -
  have "tot_ok (w\<lparr>arp_table := t\<rparr>) ps = tot_ok w ps" for ps by (rule tot_ok_cong) simp
  then show ?thesis by (simp add: queueable_def sendable_def packet_def tx_clear_def tx_slot_addr_def outside_def lens_def)
qed

section \<open>Asking\<close>

definition waiting :: "'a astate_scheme \<Rightarrow> nat \<Rightarrow> u32 \<Rightarrow> nat \<Rightarrow> nat \<Rightarrow> bool" where
  "waiting w n ip i q \<longleftrightarrow> i < ARP_TABLE_SIZE \<and> arp_state (arp w i) = ETHARP_STATE_PENDING \<and> arp_ipaddr (arp w i) = ip \<and>
     arp_netif (arp w i) = Some n \<and> arp_q (arp w i) = Some q"

text \<open>Another reference to the packet.\<close>

definition held_again :: "nat \<Rightarrow> 'a mstate_scheme \<Rightarrow> 'a mstate_scheme" where
  "held_again q w = set_pbuf q (\<lambda>b. b\<lparr>pref := pref b + 1\<rparr>) w"

lemma pref_inc: "pref b < 255 \<Longrightarrow> 0 < pref b + 1" "0 < pref b \<Longrightarrow> pref b < 255 \<Longrightarrow> 1 < pref b + 1"
  for b :: pbuf
proof -
  assume a: "pref b < 255"
  then have u: "unat (pref b + 1) = unat (pref b) + 1" by (simp add: unat_word_ariths word_less_nat_alt)
  then show "0 < pref b + 1" by (simp add: word_less_nat_alt)
  show "1 < pref b + 1" if "0 < pref b" using u that by (simp add: word_less_nat_alt)
qed

lemma enqueue_ref:
  assumes "queueable w q qs" "arp_q (arp w i) = None"
  shows "enqueue i q w = Some (ERR_OK, set_arp i (\<lambda>e. e\<lparr>arp_q := Some q\<rparr>) (held_again q w))"
proof -
  have ls: "lseg (nxts w) (Some q) (q # qs)" using assms(1) by (simp add: queueable_def sendable_def packet_def)
  have "copy_needed (Some q) w = Some False"
    by (rule copy_not_needed [OF ls]) (use assms(1) in \<open>auto simp: queueable_def\<close>)
  moreover have "pbuf_ref (Some q) w = Some (held_again q w)"
    using pref_inc(1) [of "pbufs w q"] assms(1) by (simp add: pbuf_ref_def held_again_def set_pbuf_def queueable_def)
  moreover have "arp_q (arp (held_again q w) i) = None" using assms(2) by (simp add: held_again_def set_pbuf_def arp_def)
  ultimately show ?thesis by (simp add: enqueue_def)
qed

lemma held_again_sel [simp]:
  "hp (held_again q w) = hp w" "pl (held_again q w) = pl w" "ram_bytes (held_again q w) = ram_bytes w" "mstate.more (held_again q w) = mstate.more w"
  "pbufs (held_again q w) = (pbufs w)(q := (pbufs w q)\<lparr>pref := pref (pbufs w q) + 1\<rparr>)"
  by (simp_all add: held_again_def set_pbuf_def)

lemma held_again_driver [simp]:
  fixes w :: "'a astate_scheme"
  shows "netifs (held_again q w) = netifs w" "mac (held_again q w) = mac w" "txslot (held_again q w) = txslot w"
    "arp_table (held_again q w) = arp_table w" "etharp_cached_entry (held_again q w) = etharp_cached_entry w"
  by (simp_all add: held_again_def set_pbuf_def)

definition arp_request_frame :: "netif \<Rightarrow> u32 \<Rightarrow> bytes" where
  "arp_request_frame n ip = eth_frame ethbroadcast (hwaddr n) ETHTYPE_ARP (arp_msg ARP_REQUEST (hwaddr n) (ip_addr n) ethzero ip)"

lemma etharp_query_new:
  assumes ok: "mem_ok w" "layout_ok w" "tx_alive w" and n: "eth_netif (netifs w n)" and arp: "arp_inv w" "arp_idle w"
    and ip: "unknown w n ip" "unicast w n ip" and q: "queueable w q qs"
  shows "\<exists>i v w'. etharp_query n ip (Some q) w = Some (ERR_OK, w') \<and> arp_inv w' \<and> waiting w' n ip i q \<and>
    (\<exists>t c. keeps (w\<lparr>arp_table := c\<rparr>) v \<and> w' = (held_again q v)\<lparr>arp_table := t\<rparr>) \<and>
    sent (mac v) = sent (mac w) @ (if mem_malloc 60 (hp w) = Some (None, hp w) then [] else [(txslot w, arp_request_frame (netifs w n) ip)])"
proof -
  obtain i t where f: "etharp_find_entry (Some ip) ETHARP_FLAG_TRY_HARD (Some n) w = Some (Inr i, w\<lparr>arp_table := t\<rparr>)"
    "arp_state (t ! i) = ETHARP_STATE_EMPTY" "arp_inv (w\<lparr>arp_table := t\<rparr>)" "sole ip n i (w\<lparr>arp_table := t\<rparr>)" "\<forall>e\<in>set t. arp_q e = None"
    using find_entry_new [OF arp ip(1)] by blast
  then have i: "i < ARP_TABLE_SIZE" "i < length t" by (simp_all add: sole_def arp_inv_def arp_ok_def)
  define c where "c = t[i := (t ! i)\<lparr>arp_state := ETHARP_STATE_PENDING, arp_netif := Some n\<rparr>]"
  define w1 where "w1 = w\<lparr>arp_table := c\<rparr>"
  have set1: "set_arp i (\<lambda>e. e\<lparr>arp_state := ETHARP_STATE_PENDING, arp_netif := Some n\<rparr>) (w\<lparr>arp_table := t\<rparr>) = w1"
    by (simp add: set_arp_def w1_def c_def)
  have w1: "mem_ok w1" "layout_ok w1" "tx_alive w1" "eth_netif (netifs w1 n)" "hp w1 = hp w" "mac w1 = mac w" "txslot w1 = txslot w" "netifs w1 = netifs w"
    using ok n by (simp_all add: w1_def)
  have hw: "length (hwaddr (netifs w n)) = 6" "length ethbroadcast = 6" "length ethzero = 6"
    using n by (simp_all add: eth_netif_def layout_simps ethbroadcast_def ethzero_def)
  obtain e v where req: "etharp_request (Some n) ip w1 = Some (e, v)" and k: "keeps w1 v"
    and s: "sent (mac v) = sent (mac w) @ (if mem_malloc 60 (hp w) = Some (None, hp w) then [] else [(txslot w, arp_request_frame (netifs w n) ip)])"
    using etharp_raw_spec [OF w1(1-4) hw(1,2,1,3), of "ip_addr (netifs w n)" ip ARP_REQUEST]
    unfolding w1(5,7) etharp_request_def etharp_request_dst_def arp_request_frame_def option.case w1(8) by (auto simp: w1(6))
  note fv = fixed_arp [OF etharp_request_fixed(2) [OF req], simplified]
  have v: "arp_table v = c" "arp v i = (t ! i)\<lparr>arp_state := ETHARP_STATE_PENDING, arp_netif := Some n\<rparr>" "arp_q (arp v i) = None"
    using fv(1) i(2) f(5) by (simp_all add: w1_def c_def arp_def)
  have qv: "queueable v q qs" using queueable_keeps(1) [OF _ k] q by (simp add: w1_def)
  define w' where "w' = set_arp i (\<lambda>e. e\<lparr>arp_q := Some q\<rparr>) (held_again q v)"
  have "etharp_query n ip (Some q) w = Some (ERR_OK, w')"
    using ip(2) f(1,2) req v enqueue_ref [OF qv v(3)]
    by (simp add: etharp_query_def unicast_def arp_def [of "w\<lparr>arp_table := t\<rparr>"] set1 stable_iff w'_def Let_def)
  moreover have "arp_inv w'"
    using etharp_query_inv [OF calculation arp(1)] .
  moreover have "waiting w' n ip i q"
    using f(4) i v fv c_def by (simp add: waiting_def w'_def sole_def arp_def)
  moreover have "w' = (held_again q v)\<lparr>arp_table := (arp_table v)[i := (arp v i)\<lparr>arp_q := Some q\<rparr>]\<rparr>"
    by (simp add: w'_def set_arp_def arp_def)
  ultimately show ?thesis using k s unfolding w1_def by blast
qed

section \<open>The answer\<close>

lemma free_packet_shared:
  assumes "1 < pref (pbufs w q)"
  shows "free_packet q w = Some (set_pbuf q (\<lambda>b. b\<lparr>pref := pref b - 1\<rparr>) w)"
proof -
  have "pref (pbufs w q) \<noteq> 0" "pref (pbufs w q) - 1 \<noteq> 0" using assms by auto
  then show ?thesis
    by (simp add: free_packet_def pbuf_free_def) (subst free_loop.simps, simp add: set_pbuf_def)
qed

lemma etharp_update_waiting:
  assumes ok: "mem_ok w" "tx_alive w" and n: "eth_netif (netifs w n)" and arp: "arp_inv w" "waiting w n ip i q" and ip: "unicast w n ip"
    and q: "sendable w q qs 14" "lens w (q # qs) + 14 \<le> 2048" "1 < pref (pbufs w q)" and ea: "length ea = 6"
  shows "\<exists>w'. etharp_update_arp_entry n ip ea fl w = Some (ERR_OK, w') \<and> mem_ok w' \<and> tables w' = tables w \<and> arp_inv w' \<and>
    arp_cache w' n ip = Some ea \<and> pref (pbufs w' q) = pref (pbufs w q) - 1 \<and>
    sent (mac w') = sent (mac w) @ [(txslot w, eth_frame ea (hwaddr (netifs w n)) ETHTYPE_IP (contents w (q # qs)))]"
proof -
  have i: "i < ARP_TABLE_SIZE" "i < length (arp_table w)" using arp by (simp_all add: waiting_def arp_inv_def arp_ok_def)
  have hw: "unat (hwaddr_len (netifs w n)) = ETH_HWADDR_LEN" "length (hwaddr (netifs w n)) = 6" using n by (simp_all add: eth_netif_def layout_simps)
  define w1 where "w1 = w\<lparr>arp_table := (arp_table w)[i := learned n ea (arp w i)]\<rparr>"
  have w1: "mem_ok w1" "tx_alive w1" "tables w1 = tables w" "netifs w1 = netifs w" "mac w1 = mac w" "txslot w1 = txslot w" "pbufs w1 = pbufs w"
    using ok by (simp_all add: w1_def)
  have s1: "sendable w1 q qs 14" "contents w1 (q # qs) = contents w (q # qs)" "lens w1 (q # qs) = lens w (q # qs)"
  proof -
    have "tot_ok w1 ps = tot_ok w ps" for ps by (rule tot_ok_cong) (simp add: w1)
    then show "sendable w1 q qs 14"
      using q(1) by (simp add: sendable_def packet_def tx_clear_def tx_slot_addr_def outside_def lens_def w1)
    show "contents w1 (q # qs) = contents w (q # qs)" "lens w1 (q # qs) = lens w (q # qs)"
      by (simp_all add: contents_def w1_def lens_def cong: map_cong)
  qed
  obtain w2 where w2: "ethernet_output n q (hwaddr (netifs w n)) ea ETHTYPE_IP w1 = Some (ERR_OK, w2)" "pbufs w2 = (pbufs w)(q := grown 14 (pbufs w q))"
    "\<exists>H. went_out H (eth_frame ea (hwaddr (netifs w n)) ETHTYPE_IP (contents w (q # qs))) w1 w2"
    using ethernet_output_spec [OF s1(1) w1(2) _ _ ea hw(2), of n ETHTYPE_IP] n q(2) unfolding s1(2,3) w1(4,7) by blast
  define w3 where "w3 = set_pbuf q (\<lambda>b. b\<lparr>pref := pref b - 1\<rparr>) w2"
  have fr: "free_packet q w2 = Some w3" using free_packet_shared [of w2 q] w2(2) q(3) by (simp add: w3_def)
  have "etharp_update_arp_entry n ip ea fl w = Some (ERR_OK, w3)"
  proof -
    have "etharp_find_entry (Some ip) fl (Some n) w = Some (Inr i, w)" using arp by (intro find_entry_hit) (simp_all add: waiting_def)
    moreover have "set_arp i (\<lambda>e. e\<lparr>arp_q := None\<rparr>) (set_arp i (\<lambda>e. e\<lparr>arp_state := ETHARP_STATE_STABLE, arp_netif := Some n, arp_ethaddr := ea, arp_ctime := 0\<rparr>) w) = w1"
      using i(2) by (simp add: w1_def set_arp_def learned_def arp_def)
    moreover have "arp_q (arp w i) = Some q" using arp(2) by (simp add: waiting_def)
    ultimately show ?thesis
      using ip hw(1) ea i(2) w2(1) fr w1(4) by (simp add: etharp_update_arp_entry_def unicast_def Let_def layout_simps)
  qed
  moreover have "arp_inv w3" using etharp_update_arp_entry_table [OF calculation arp(1)] ea by (simp add: layout_simps)
  moreover have "arp_table w3 = (arp_table w)[i := learned n ea (arp w i)]"
    using fixed_arp(1) [OF free_packet_fixed [OF fr]] fixed_arp(1) [OF ethernet_output_fixed [OF w2(1)]] by (simp add: w1_def)
  then have "arp_cache w3 n ip = Some ea"
    using arp_cache_entry [OF calculation(2) i(1), of ip n] i(2) arp(2) by (simp add: arp_def learned_def usable_def waiting_def)
  ultimately show ?thesis
    using w2(2,3) w1 by (intro exI [of _ w3]) (auto simp: w3_def set_pbuf_def went_out_def mem_ok_def tables_def)
qed

section \<open>Properties\<close>

text \<open>
  C40: A packet to an address that is not in the table is not lost: the query takes a reference to it, broadcasts the
  request (unless the heap has no room for one) and, when the address becomes known, the packet goes out to it unchanged
  in a frame with the learned hardware address, and the reference is given back.
\<close>

theorem arp_resolves:
  assumes ok: "mem_ok w" "layout_ok w" "tx_alive w" "eth_netif (netifs w n)" "arp_inv w" "arp_idle w"
    and ip: "unknown w n ip" "unicast w n ip" and q: "queueable w q qs" and ea: "length ea = 6"
  shows "\<exists>w1 w2. etharp_query n ip (Some q) w = Some (ERR_OK, w1) \<and> etharp_update_arp_entry n ip ea fl w1 = Some (ERR_OK, w2) \<and>
    map snd (sent (mac w2)) = map snd (sent (mac w)) @
      (if mem_malloc 60 (hp w) = Some (None, hp w) then [] else [arp_request_frame (netifs w n) ip]) @
      [eth_frame ea (hwaddr (netifs w n)) ETHTYPE_IP (contents w (q # qs))] \<and>
    mem_ok w2 \<and> tables w2 = tables w \<and> pref (pbufs w2 q) = pref (pbufs w q) \<and> arp_inv w2 \<and> arp_cache w2 n ip = Some ea"
proof -
  obtain i v w1 t c where w1: "etharp_query n ip (Some q) w = Some (ERR_OK, w1)" "arp_inv w1" "waiting w1 n ip i q"
    "keeps (w\<lparr>arp_table := c\<rparr>) v" "w1 = (held_again q v)\<lparr>arp_table := t\<rparr>"
    and s: "sent (mac v) = sent (mac w) @ (if mem_malloc 60 (hp w) = Some (None, hp w) then [] else [(txslot w, arp_request_frame (netifs w n) ip)])"
    using etharp_query_new [OF ok ip q] by blast
  note qv = queueable_keeps [OF _ w1(4), of q qs]
  have v: "queueable v q qs" "contents v (q # qs) = contents w (q # qs)" "pbufs v q = pbufs w q" "mem_ok v" "tx_alive v"
    "tables v = tables w" "netifs v = netifs w"
    using qv q w1(4) by (simp_all add: keeps_def fixed_def contents_def cong: map_cong)
  have same: "plen (pbufs w1 a) = plen (pbufs v a)" "ptot (pbufs w1 a) = ptot (pbufs v a)" "payload (pbufs w1 a) = payload (pbufs v a)"
    "nxt (pbufs w1 a) = nxt (pbufs v a)" "type_internal (pbufs w1 a) = type_internal (pbufs v a)" for a
    by (simp_all add: w1(5))
  have w1s: "mem_ok w1" "tx_alive w1" "netifs w1 = netifs w" "mac w1 = mac v" "tables w1 = tables w" "contents w1 (q # qs) = contents w (q # qs)"
    "lens w1 (q # qs) + 14 \<le> 2048" "eth_netif (netifs w1 n)" "unicast w1 n ip"
    using v ok(4) ip(2) same
    by (simp_all add: w1(5) mem_ok_def tx_alive_def tables_def contents_def seg_def queueable_def lens_def unicast_def ip4_addr_isbroadcast_def cong: map_cong)
  have "tot_ok w1 ps = tot_ok v ps" for ps by (induction ps) (simp_all add: same lens_def)
  then have "sendable w1 q qs 14"
    using v(1) same by (simp add: queueable_def sendable_def packet_def outside_def lens_def tx_clear_def tx_slot_addr_def w1s(4))
  moreover have "pref (pbufs w1 q) = pref (pbufs w q) + 1" "1 < pref (pbufs w1 q)"
    using v(3) q pref_inc(2) [of "pbufs w q"] by (simp_all add: w1(5) queueable_def)
  ultimately obtain w2 where "etharp_update_arp_entry n ip ea fl w1 = Some (ERR_OK, w2)" "mem_ok w2" "tables w2 = tables w" "arp_inv w2"
    "arp_cache w2 n ip = Some ea" "pref (pbufs w2 q) = pref (pbufs w q)"
    "sent (mac w2) = sent (mac v) @ [(txslot w1, eth_frame ea (hwaddr (netifs w n)) ETHTYPE_IP (contents w (q # qs)))]"
    using etharp_update_waiting [OF w1s(1,2,8) w1(2,3) w1s(9) _ w1s(7) _ ea, of fl] w1s by auto
  then show ?thesis using w1(1) s by (intro exI [of _ w1] exI [of _ w2]) simp
qed

theorem arp_resolves_witness:
  "\<exists>w1 w2. etharp_query 0 0x0901A8C0 (Some 16) (heard [1, 2, 3]) = Some (ERR_OK, w1) \<and>
     etharp_update_arp_entry 0 0x0901A8C0 [2, 0, 0, 0, 0, 9] ETHARP_FLAG_TRY_HARD w1 = Some (ERR_OK, w2) \<and>
     map snd (sent (mac w2)) = [arp_request_frame netif0 0x0901A8C0, [2, 0, 0, 0, 0, 9, 2, 0, 0, 0, 0, 1, 8, 0, 1, 2, 3]]"
proof -
  let ?w = "heard [1, 2, 3]"
  have r: "received ?w 16 [16]" "contents ?w [16] = [1, 2, 3]" using heard_received [of "[1, 2, 3]"] by simp_all
  have uni: "unicast ?w 0 0x0901A8C0"
    by (simp add: unicast_def ip4_addr_isany_val_def ip4_addr_isbroadcast_def ip4_addr_isbroadcast_u32_def ip4_addr_ismulticast_def
        netif0_def IPADDR_ANY_def IPADDR_BROADCAST_def PP_HTONL_def)
  have unk: "unknown ?w 0 0x0901A8C0" using arp0_sel(8) by (simp add: unknown_def arp_initial_def)
  have q: "queueable ?w 16 []"
    using r(1) by (simp add: queueable_def sendable_def received_def tx_clear_def tx_slot_addr_def mac0_def layout_simps
        PBUF_NEEDS_COPY_def pbuf_type_defs)
  have f: "eth_frame [2, 0, 0, 0, 0, 9] (hwaddr netif0) ETHTYPE_IP [1, 2, 3] = [2, 0, 0, 0, 0, 9, 2, 0, 0, 0, 0, 1, 8, 0, 1, 2, 3]"
    by code_simp
  obtain w1 w2 where w: "etharp_query 0 0x0901A8C0 (Some 16) ?w = Some (ERR_OK, w1)"
    "etharp_update_arp_entry 0 0x0901A8C0 [2, 0, 0, 0, 0, 9] ETHARP_FLAG_TRY_HARD w1 = Some (ERR_OK, w2)"
    "map snd (sent (mac w2)) = map snd (sent (mac ?w)) @ (if mem_malloc 60 (hp ?w) = Some (None, hp ?w) then []
      else [arp_request_frame (netifs ?w 0) 0x0901A8C0]) @ [eth_frame [2, 0, 0, 0, 0, 9] (hwaddr (netifs ?w 0)) ETHTYPE_IP (contents ?w [16])]"
    using arp_resolves [OF heard_ok(1-3) heard_ok(4) [of "[1, 2, 3]" 0] heard_ok(5,6) unk uni q, of "[2, 0, 0, 0, 0, 9]" ETHARP_FLAG_TRY_HARD]
    by auto
  have "map snd (sent (mac w2)) = [arp_request_frame netif0 0x0901A8C0, [2, 0, 0, 0, 0, 9, 2, 0, 0, 0, 0, 1, 8, 0, 1, 2, 3]]"
    using w(3) heard_room unfolding r(2) heard_sel f by (simp add: mac0_def)
  then show ?thesis using w(1,2) by (intro exI [of _ w1] exI [of _ w2] conjI)
qed

end
