(* ===== verification/Ip4.thy ===== *)
theory Ip4
  imports Etharp Inet_Chksum
begin

text \<open>
  Sending IPv4 packets, \<^verbatim>\<open>core/ipv4/ip4.c\<close> and \<^verbatim>\<open>core/ipv4/icmp.c\<close>, without fragmentation, options or forwarding, as this
  firmware is configured. An address argument that may be the null pointer is an option: no source address, or a header
  that is already there (\<^verbatim>\<open>LWIP_IP_HDRINCL\<close>).
\<close>

section \<open>State\<close>

record ip_globals =
  current_netif :: "nat option"
  current_input_netif :: "nat option"
  current_ip4_header :: "nat option"
  current_ip_header_tot_len :: u16
  current_iphdr_src :: u32
  current_iphdr_dest :: u32

record istate = astate +
  ip_id :: u16
  ip_data :: ip_globals
  netif_list :: "nat option"
  netif_default :: "nat option"

definition IP_HLEN :: nat where [layout_simps]: "IP_HLEN = 20"
definition IP_PROTO_ICMP :: u8 where "IP_PROTO_ICMP = 1"
definition IP_PROTO_TCP :: u8 where "IP_PROTO_TCP = 6"
definition IP_OFFMASK :: u16 where "IP_OFFMASK = 0x1fff"
definition IP_MF :: u16 where "IP_MF = 0x2000"
definition ICMP_TTL :: u8 where "ICMP_TTL = 255"
definition ICMP_ER :: u8 where "ICMP_ER = 0"
definition ICMP_DUR :: u8 where "ICMP_DUR = 3"
definition ICMP_ECHO :: u8 where "ICMP_ECHO = 8"
definition ICMP_DUR_PROTO :: u8 where "ICMP_DUR_PROTO = 2"
definition ICMP_DEST_UNREACH_DATASIZE :: nat where [layout_simps]: "ICMP_DEST_UNREACH_DATASIZE = 8"
definition PBUF_LINK_HLEN :: nat where [layout_simps]: "PBUF_LINK_HLEN = 14"

text \<open>The offsets of the fields of \<^verbatim>\<open>struct ip_hdr\<close> and \<^verbatim>\<open>struct icmp_echo_hdr\<close>.\<close>

definition v_hl_off :: nat where [layout_simps]: "v_hl_off = 0"
definition tos_off :: nat where [layout_simps]: "tos_off = 1"
definition len_off :: nat where [layout_simps]: "len_off = 2"
definition id_off :: nat where [layout_simps]: "id_off = 4"
definition offset_off :: nat where [layout_simps]: "offset_off = 6"
definition ttl_off :: nat where [layout_simps]: "ttl_off = 8"
definition proto_field_off :: nat where [layout_simps]: "proto_field_off = 9"
definition chksum_off :: nat where [layout_simps]: "chksum_off = 10"
definition src_off :: nat where [layout_simps]: "src_off = 12"
definition dest_off :: nat where [layout_simps]: "dest_off = 16"

definition icmp_type_off :: nat where [layout_simps]: "icmp_type_off = 0"
definition icmp_code_off :: nat where [layout_simps]: "icmp_code_off = 1"
definition icmp_chksum_off :: nat where [layout_simps]: "icmp_chksum_off = 2"
definition icmp_id_off :: nat where [layout_simps]: "icmp_id_off = 4"
definition icmp_seqno_off :: nat where [layout_simps]: "icmp_seqno_off = 6"
definition SIZEOF_ICMP_ECHO_HDR :: nat where [layout_simps]: "SIZEOF_ICMP_ECHO_HDR = 8"

definition IPH_V :: "nat \<Rightarrow> 'a mstate_scheme \<Rightarrow> u8" where
  "IPH_V h w = drop_bit 4 (get8 (h + v_hl_off) w)"

definition IPH_HL_BYTES :: "nat \<Rightarrow> 'a mstate_scheme \<Rightarrow> u8" where
  "IPH_HL_BYTES h w = (get8 (h + v_hl_off) w AND 0x0f) * 4"

definition netif_is_up :: "netif \<Rightarrow> bool" where
  "netif_is_up n \<longleftrightarrow> netif_flags n AND NETIF_FLAG_UP \<noteq> 0"

definition netif_is_link_up :: "netif \<Rightarrow> bool" where
  "netif_is_link_up n \<longleftrightarrow> netif_flags n AND NETIF_FLAG_LINK_UP \<noteq> 0"

section \<open>Routing\<close>

text \<open>Whether an interface of the list reaches the destination.\<close>

definition reaches :: "u32 \<Rightarrow> netif \<Rightarrow> bool" where
  "reaches dest n \<longleftrightarrow>
     netif_is_up n \<and> netif_is_link_up n \<and> \<not> ip4_addr_isany_val (ip_addr n) \<and>
     (ip4_addr_netcmp dest (ip_addr n) (netmask n) \<or> netif_flags n AND NETIF_FLAG_BROADCAST = 0 \<and> dest = gw n)"

partial_function (option) route_loop :: "u32 \<Rightarrow> nat option \<Rightarrow> 'a istate_scheme \<Rightarrow> nat option option" where
  "route_loop dest l w =
     (case l of
        None \<Rightarrow> Some None
      | Some n \<Rightarrow> if reaches dest (netifs w n) then Some (Some n) else route_loop dest (nif_next (netifs w n)) w)"

definition ip4_route :: "u32 \<Rightarrow> 'a istate_scheme \<Rightarrow> nat option option" where
  "ip4_route dest w = do {
     r \<leftarrow> route_loop dest (netif_list w) w;
     case r of
       Some n \<Rightarrow> Some (Some n)
     | None \<Rightarrow>
         (case netif_default w of
            None \<Rightarrow> Some None
          | Some d \<Rightarrow>
              let n = netifs w d
              in if \<not> netif_is_up n \<or> \<not> netif_is_link_up n \<or> ip4_addr_isany_val (ip_addr n) \<or> ip4_addr_isloopback dest
                 then Some None else Some (Some d))
   }"

section \<open>Output\<close>

text \<open>The header and the checksum that is computed while it is written.\<close>

definition header_sum :: "u32 \<Rightarrow> u32 \<Rightarrow> u8 \<Rightarrow> u8 \<Rightarrow> u8 \<Rightarrow> u16 \<Rightarrow> u16 \<Rightarrow> u16" where
  "header_sum src dest ttl tos proto len ident =
     (let chk_sum = ucast (PP_HTONS (ucast proto OR push_bit 8 (ucast ttl))) :: u32;
          chk_sum = chk_sum + (dest AND 0xFFFF);
          chk_sum = chk_sum + drop_bit 16 dest;
          chk_sum = chk_sum + ucast (PP_HTONS (ucast tos OR push_bit 8 0x45));
          chk_sum = chk_sum + ucast (lwip_htons len);
          chk_sum = chk_sum + ucast (lwip_htons ident);
          chk_sum = chk_sum + (src AND 0xFFFF);
          chk_sum = chk_sum + drop_bit 16 src;
          chk_sum = drop_bit 16 chk_sum + (chk_sum AND 0xFFFF);
          chk_sum = drop_bit 16 chk_sum + chk_sum
      in ucast (NOT chk_sum))"

definition write_ip_hdr :: "nat \<Rightarrow> u32 \<Rightarrow> u32 \<Rightarrow> u8 \<Rightarrow> u8 \<Rightarrow> u8 \<Rightarrow> u16 \<Rightarrow> u16 \<Rightarrow> 'a mstate_scheme \<Rightarrow> 'a mstate_scheme" where
  "write_ip_hdr h src dest ttl tos proto len ident w =
     (let w = put8 (h + ttl_off) ttl w;
          w = put8 (h + proto_field_off) proto w;
          w = put32 (h + dest_off) dest w;
          w = put8 (h + v_hl_off) 0x45 w;
          w = put8 (h + tos_off) tos w;
          w = put16 (h + len_off) (lwip_htons len) w;
          w = put16 (h + offset_off) 0 w;
          w = put16 (h + id_off) (lwip_htons ident) w;
          w = put32 (h + src_off) src w
      in put16 (h + chksum_off) (header_sum src dest ttl tos proto len ident) w)"

definition netif_output :: "nat \<Rightarrow> nat \<Rightarrow> u32 \<Rightarrow> 'a astate_scheme \<Rightarrow> (err_t \<times> 'a astate_scheme) option" where
  "netif_output nif p dest w =
     (case nif_output (netifs w nif) of
        Netif_null_output_ip4 \<Rightarrow> Some (ERR_IF, w)
      | Etharp_output \<Rightarrow> etharp_output nif p dest w)"

definition ip4_output_if_src ::
  "nat \<Rightarrow> u32 option \<Rightarrow> u32 option \<Rightarrow> u8 \<Rightarrow> u8 \<Rightarrow> u8 \<Rightarrow> nat \<Rightarrow> 'a istate_scheme \<Rightarrow> (err_t \<times> 'a istate_scheme) option" where
  "ip4_output_if_src p src dest ttl tos proto nif w =
     (if pref (pbufs w p) \<noteq> 1 then None
      else
        (case dest of
           Some dest \<Rightarrow>
             (case pbuf_add_header p IP_HLEN w of
                (r, w) \<Rightarrow>
                  if r \<noteq> 0 then Some (ERR_BUF, w)
                  else if unat (plen (pbufs w p)) < IP_HLEN then None
                  else
                    (let w = write_ip_hdr (payload (pbufs w p)) (case src of None \<Rightarrow> IPADDR_ANY | Some s \<Rightarrow> s) dest ttl tos proto
                               (ptot (pbufs w p)) (ip_id w) w;
                         w = w\<lparr>ip_id := ip_id w + 1\<rparr>
                     in netif_output nif p dest w))
         | None \<Rightarrow>
             if unat (plen (pbufs w p)) < IP_HLEN then Some (ERR_BUF, w)
             else netif_output nif p (get32 (payload (pbufs w p) + dest_off) w) w))"

definition ip4_output_if ::
  "nat \<Rightarrow> u32 option \<Rightarrow> u32 option \<Rightarrow> u8 \<Rightarrow> u8 \<Rightarrow> u8 \<Rightarrow> nat \<Rightarrow> 'a istate_scheme \<Rightarrow> (err_t \<times> 'a istate_scheme) option" where
  "ip4_output_if p src dest ttl tos proto nif w =
     (let src_used =
            (if dest \<noteq> None \<and> (case src of None \<Rightarrow> True | Some s \<Rightarrow> ip4_addr_isany_val s) then Some (ip_addr (netifs w nif)) else src)
      in ip4_output_if_src p src_used dest ttl tos proto nif w)"

definition ip4_output ::
  "nat \<Rightarrow> u32 option \<Rightarrow> u32 \<Rightarrow> u8 \<Rightarrow> u8 \<Rightarrow> u8 \<Rightarrow> 'a istate_scheme \<Rightarrow> (err_t \<times> 'a istate_scheme) option" where
  "ip4_output p src dest ttl tos proto w =
     (if pref (pbufs w p) \<noteq> 1 then None
      else do {
        r \<leftarrow> ip4_route dest w;
        case r of
          None \<Rightarrow> Some (ERR_RTE, w)
        | Some nif \<Rightarrow> ip4_output_if p src (Some dest) ttl tos proto nif w
      })"

section \<open>ICMP\<close>

text \<open>The chain as the checksum routines walk it: the address and the bytes of each pbuf.\<close>

partial_function (option) segments :: "nat option \<Rightarrow> 'a mstate_scheme \<Rightarrow> segment list option" where
  "segments p w =
     (case p of
        None \<Rightarrow> Some []
      | Some p \<Rightarrow>
          Option.bind (segments (nxt (pbufs w p)) w) (\<lambda>q.
            Some ((of_nat (payload (pbufs w p)), get_bytes (payload (pbufs w p)) (unat (plen (pbufs w p))) w) # q)))"

definition icmp_send_response :: "nat \<Rightarrow> u8 \<Rightarrow> u8 \<Rightarrow> 'a istate_scheme \<Rightarrow> 'a istate_scheme option" where
  "icmp_send_response p type code w = do {
     let response_pkt_len = min (IP_HLEN + ICMP_DEST_UNREACH_DATASIZE) (unat (ptot (pbufs w p)));
     (q, w) \<leftarrow> pbuf_alloc PBUF_IP (of_nat (SIZEOF_ICMP_ECHO_HDR + response_pkt_len)) PBUF_RAM w;
     case q of
       None \<Rightarrow> Some w
     | Some q \<Rightarrow>
         if unat (plen (pbufs w q)) < SIZEOF_ICMP_ECHO_HDR + response_pkt_len then None
         else do {
           let iphdr = payload (pbufs w p);
           let icmphdr = payload (pbufs w q);
           let w = put8 (icmphdr + icmp_type_off) type w;
           let w = put8 (icmphdr + icmp_code_off) code w;
           let w = put16 (icmphdr + icmp_id_off) 0 w;
           let w = put16 (icmphdr + icmp_seqno_off) 0 w;
           let w = memcpy (icmphdr + SIZEOF_ICMP_ECHO_HDR) iphdr response_pkt_len w;
           let iphdr_src = get32 (iphdr + src_off) w;
           r \<leftarrow> ip4_route iphdr_src w;
           w \<leftarrow>
             (case r of
                None \<Rightarrow> Some w
              | Some nif \<Rightarrow> do {
                  let w = put16 (icmphdr + icmp_chksum_off) 0 w;
                  let w = put16 (icmphdr + icmp_chksum_off)
                            (inet_chksum (of_nat icmphdr) (get_bytes icmphdr (unat (plen (pbufs w q))) w)) w;
                  (_, w) \<leftarrow> ip4_output_if q None (Some iphdr_src) ICMP_TTL 0 IP_PROTO_ICMP nif w;
                  Some w
                });
           free_packet q w
         }
   }"

definition icmp_dest_unreach :: "nat \<Rightarrow> u8 \<Rightarrow> 'a istate_scheme \<Rightarrow> 'a istate_scheme option" where
  "icmp_dest_unreach p t w = icmp_send_response p ICMP_DUR t w"

text \<open>
  Making room for the link header: the packet to answer with, or \<open>None\<close> when there is none, in which case the request is
  freed.
\<close>

definition room_for_link :: "nat \<Rightarrow> nat \<Rightarrow> nat \<Rightarrow> 'a mstate_scheme \<Rightarrow> (nat option \<times> 'a mstate_scheme) option" where
  "room_for_link p iphdr_in hlen w =
     (case pbuf_add_header p (hlen + PBUF_LINK_HLEN) w of
        (r, w) \<Rightarrow>
          if r \<noteq> 0 then
            (let alloc_len = ptot (pbufs w p) + of_nat hlen
             in if alloc_len < ptot (pbufs w p) then Some (None, w)
                else do {
                  (r, w) \<leftarrow> pbuf_alloc PBUF_LINK alloc_len PBUF_RAM w;
                  case r of
                    None \<Rightarrow> Some (None, w)
                  | Some r \<Rightarrow>
                      if unat (plen (pbufs w r)) < hlen + SIZEOF_ICMP_ECHO_HDR then do { w \<leftarrow> free_packet r w; Some (None, w) }
                      else
                        (let w = memcpy (payload (pbufs w r)) iphdr_in hlen w
                         in case pbuf_remove_header r hlen w of
                              (e, w) \<Rightarrow>
                                if e \<noteq> 0 then None
                                else do {
                                  (err, w) \<leftarrow> pbuf_copy (Some r) (Some p) w;
                                  if err \<noteq> ERR_OK then do { w \<leftarrow> free_packet r w; Some (None, w) }
                                  else do { w \<leftarrow> free_packet p w; Some (Some r, w) }
                                })
                })
          else
            (case pbuf_remove_header p (hlen + PBUF_LINK_HLEN) w of
               (e, w) \<Rightarrow> if e \<noteq> 0 then None else Some (Some p, w)))"

definition adjust_chksum :: "u16 \<Rightarrow> u16" where
  "adjust_chksum chksum =
     (if chksum > PP_HTONS (0xffff - push_bit 8 (ucast ICMP_ECHO)) then chksum + PP_HTONS (push_bit 8 (ucast ICMP_ECHO)) + 1
      else chksum + PP_HTONS (push_bit 8 (ucast ICMP_ECHO)))"

definition send_echo_reply :: "nat \<Rightarrow> nat \<Rightarrow> u32 \<Rightarrow> nat \<Rightarrow> 'a istate_scheme \<Rightarrow> 'a istate_scheme option" where
  "send_echo_reply p hlen src inp w =
     (let iecho = payload (pbufs w p)
      in case pbuf_add_header p hlen w of
           (r, w) \<Rightarrow>
             if r \<noteq> 0 then Some w
             else do {
               let iphdr = payload (pbufs w p);
               let w = put32 (iphdr + src_off) src w;
               let w = put32 (iphdr + dest_off) (current_iphdr_src (ip_data w)) w;
               let w = put8 (iecho + icmp_type_off) ICMP_ER w;
               let w = put16 (iecho + icmp_chksum_off) (adjust_chksum (get16 (iecho + icmp_chksum_off) w)) w;
               let w = put8 (iphdr + ttl_off) ICMP_TTL w;
               let w = put16 (iphdr + chksum_off) 0 w;
               let w = put16 (iphdr + chksum_off) (inet_chksum (of_nat iphdr) (get_bytes iphdr hlen w)) w;
               (_, w) \<leftarrow> ip4_output_if p (Some src) None ICMP_TTL 0 IP_PROTO_ICMP inp w;
               Some w
             })"

definition icmp_input :: "nat \<Rightarrow> nat \<Rightarrow> 'a istate_scheme \<Rightarrow> 'a istate_scheme option" where
  "icmp_input p inp w =
     (let iphdr_in = the (current_ip4_header (ip_data w)); hlen = unat (IPH_HL_BYTES iphdr_in w);
          src = current_iphdr_dest (ip_data w)
      in if hlen < IP_HLEN \<or> unat (plen (pbufs w p)) < 4 then free_packet p w
         else if get8 (payload (pbufs w p)) w = ICMP_ECHO then
           (if ip4_addr_ismulticast src \<or> ip4_addr_isbroadcast src (the (current_netif (ip_data w))) w then free_packet p w
            else if unat (ptot (pbufs w p)) < SIZEOF_ICMP_ECHO_HDR then free_packet p w
            else do {
              s \<leftarrow> segments (Some p) w;
              if inet_chksum_pbuf s \<noteq> 0 then free_packet p w
              else do {
                (r, w) \<leftarrow> room_for_link p iphdr_in hlen w;
                case r of
                  None \<Rightarrow> free_packet p w
                | Some p \<Rightarrow> do {
                    w \<leftarrow> send_echo_reply p hlen src inp w;
                    free_packet p w
                  }
              }
            })
         else free_packet p w)"

section \<open>Input\<close>

definition set_ip_data :: "(ip_globals \<Rightarrow> ip_globals) \<Rightarrow> 'a istate_scheme \<Rightarrow> 'a istate_scheme" where
  "set_ip_data f w = w\<lparr>ip_data := f (ip_data w)\<rparr>"

definition ip4_input_accept :: "nat \<Rightarrow> 'a istate_scheme \<Rightarrow> bool" where
  "ip4_input_accept nif w \<longleftrightarrow>
     (let n = netifs w nif; dest = current_iphdr_dest (ip_data w)
      in netif_is_up n \<and> \<not> ip4_addr_isany_val (ip_addr n) \<and> (dest = ip_addr n \<or> ip4_addr_isbroadcast dest nif w))"

partial_function (option) accept_loop :: "nat \<Rightarrow> nat option \<Rightarrow> 'a istate_scheme \<Rightarrow> nat option option" where
  "accept_loop inp l w =
     (case l of
        None \<Rightarrow> Some None
      | Some n \<Rightarrow> if n \<noteq> inp \<and> ip4_input_accept n w then Some (Some n) else accept_loop inp (nif_next (netifs w n)) w)"

definition find_netif :: "nat \<Rightarrow> 'a istate_scheme \<Rightarrow> nat option option" where
  "find_netif inp w =
     (let n = netifs w inp; dest = current_iphdr_dest (ip_data w)
      in if ip4_addr_ismulticast dest then Some (if netif_is_up n \<and> \<not> ip4_addr_isany_val (ip_addr n) then Some inp else None)
         else if ip4_input_accept inp w then Some (Some inp)
         else if \<not> ip4_addr_isloopback dest then accept_loop inp (netif_list w) w
         else Some None)"

text \<open>Handing the packet to its protocol; \<open>tcp_input\<close> is the entry of the TCP layer.\<close>

definition deliver ::
  "(nat \<Rightarrow> nat \<Rightarrow> 'a istate_scheme \<Rightarrow> 'a istate_scheme option) \<Rightarrow> nat \<Rightarrow> nat \<Rightarrow> nat \<Rightarrow> nat \<Rightarrow> nat \<Rightarrow> 'a istate_scheme \<Rightarrow> 'a istate_scheme option" where
  "deliver tcp_input p inp nif iphdr iphdr_hlen w =
     (let w = snd (pbuf_remove_header p iphdr_hlen w); proto = get8 (iphdr + proto_field_off) w; dest = current_iphdr_dest (ip_data w)
      in if proto = IP_PROTO_TCP then tcp_input p inp w
         else if proto = IP_PROTO_ICMP then icmp_input p inp w
         else do {
           w \<leftarrow> (if \<not> ip4_addr_isbroadcast dest nif w \<and> \<not> ip4_addr_ismulticast dest
                 then icmp_dest_unreach p ICMP_DUR_PROTO (snd (pbuf_header_force p (int iphdr_hlen) w)) else Some w);
           free_packet p w
         })"

definition ip4_input ::
  "(nat \<Rightarrow> nat \<Rightarrow> 'a istate_scheme \<Rightarrow> 'a istate_scheme option) \<Rightarrow> nat \<Rightarrow> nat \<Rightarrow> 'a istate_scheme \<Rightarrow> (err_t \<times> 'a istate_scheme) option" where
  "ip4_input tcp_input p inp w = do {
     let iphdr = payload (pbufs w p);
     let drop_packet = (\<lambda>w. do { w \<leftarrow> free_packet p w; Some (ERR_OK, w) });
     if IPH_V iphdr w \<noteq> 4 then drop_packet w
     else do {
       let iphdr_hlen = unat (IPH_HL_BYTES iphdr w);
       let iphdr_len = lwip_htons (get16 (iphdr + len_off) w);
       w \<leftarrow> (if iphdr_len < ptot (pbufs w p) then pbuf_realloc (Some p) iphdr_len w else Some w);
       if iphdr_hlen > unat (plen (pbufs w p)) \<or> iphdr_len > ptot (pbufs w p) \<or> iphdr_hlen < IP_HLEN then drop_packet w
       else if inet_chksum (of_nat iphdr) (get_bytes iphdr iphdr_hlen w) \<noteq> 0 then drop_packet w
       else do {
         let w = set_ip_data (\<lambda>d. d\<lparr>current_iphdr_dest := get32 (iphdr + dest_off) w\<rparr>) w;
         let w = set_ip_data (\<lambda>d. d\<lparr>current_iphdr_src := get32 (iphdr + src_off) w\<rparr>) w;
         nif \<leftarrow> find_netif inp w;
         let src = current_iphdr_src (ip_data w);
         if ip4_addr_isbroadcast src inp w \<or> ip4_addr_ismulticast src then drop_packet w
         else
           (case nif of
              None \<Rightarrow> drop_packet w
            | Some nif \<Rightarrow>
                if get16 (iphdr + offset_off) w AND PP_HTONS (IP_OFFMASK OR IP_MF) \<noteq> 0 then drop_packet w
                else do {
                  let w = set_ip_data (\<lambda>d. d\<lparr>current_netif := Some nif, current_input_netif := Some inp, current_ip4_header := Some iphdr,
                                             current_ip_header_tot_len := ucast (IPH_HL_BYTES iphdr w)\<rparr>) w;
                  w \<leftarrow> deliver tcp_input p inp nif iphdr iphdr_hlen w;
                  Some (ERR_OK, set_ip_data (\<lambda>d. d\<lparr>current_netif := None, current_input_netif := None, current_ip4_header := None,
                                             current_ip_header_tot_len := 0, current_iphdr_src := IPADDR_ANY,
                                             current_iphdr_dest := IPADDR_ANY\<rparr>) w)
                })
       }
     }
   }"

section \<open>Ethernet input\<close>

definition PBUF_FLAG_LLBCAST :: u8 where "PBUF_FLAG_LLBCAST = 0x08"
definition PBUF_FLAG_LLMCAST :: u8 where "PBUF_FLAG_LLMCAST = 0x10"
definition NETIF_NO_INDEX :: u8 where "NETIF_NO_INDEX = 0"

definition netif_get_index :: "netif \<Rightarrow> u8" where
  "netif_get_index n = if_num n + 1"

definition link_flags :: "bytes \<Rightarrow> u8" where
  "link_flags dest =
     (if dest ! 0 AND 1 \<noteq> 0 then
        (if dest ! 0 = 0x01 then (if dest ! 1 = 0x00 \<and> dest ! 2 = 0x5e then PBUF_FLAG_LLMCAST else 0)
         else if dest = ethbroadcast then PBUF_FLAG_LLBCAST else 0)
      else 0)"

definition ethernet_input ::
  "(nat \<Rightarrow> nat \<Rightarrow> 'a istate_scheme \<Rightarrow> 'a istate_scheme option) \<Rightarrow> nat \<Rightarrow> nat \<Rightarrow> 'a istate_scheme \<Rightarrow> (err_t \<times> 'a istate_scheme) option" where
  "ethernet_input tcp_input p nif w =
     (let drop_packet = (\<lambda>w. do { w \<leftarrow> free_packet p w; Some (ERR_OK, w) })
      in if unat (plen (pbufs w p)) \<le> SIZEOF_ETH_HDR then drop_packet w
         else
           (let w = (if if_idx (pbufs w p) = NETIF_NO_INDEX then set_pbuf p (\<lambda>b. b\<lparr>if_idx := netif_get_index (netifs w nif)\<rparr>) w else w);
                ethhdr = payload (pbufs w p);
                type = get16 (ethhdr + 12) w;
                w = set_pbuf p (\<lambda>b. b\<lparr>pflags := pflags b OR link_flags (get_bytes ethhdr ETH_HWADDR_LEN w)\<rparr>) w
            in if type = PP_HTONS ETHTYPE_IP then
                 (if netif_flags (netifs w nif) AND NETIF_FLAG_ETHARP = 0 then drop_packet w
                  else
                    (case pbuf_remove_header p SIZEOF_ETH_HDR w of
                       (r, w) \<Rightarrow>
                         if r \<noteq> 0 then drop_packet w else do { (_, w) \<leftarrow> ip4_input tcp_input p nif w; Some (ERR_OK, w) }))
               else if type = PP_HTONS ETHTYPE_ARP then
                 (if netif_flags (netifs w nif) AND NETIF_FLAG_ETHARP = 0 then drop_packet w
                  else
                    (case pbuf_remove_header p SIZEOF_ETH_HDR w of
                       (r, w) \<Rightarrow> if r \<noteq> 0 then drop_packet w else do { w \<leftarrow> etharp_input p nif w; Some (ERR_OK, w) }))
               else drop_packet w))"

definition netif_input ::
  "(nat \<Rightarrow> nat \<Rightarrow> 'a istate_scheme \<Rightarrow> 'a istate_scheme option) \<Rightarrow> nat \<Rightarrow> nat \<Rightarrow> 'a istate_scheme \<Rightarrow> (err_t \<times> 'a istate_scheme) option" where
  "netif_input tcp_input p nif w =
     (case nif_input (netifs w nif) of Null_input \<Rightarrow> None | Ethernet_input \<Rightarrow> ethernet_input tcp_input p nif w)"

definition ethernetif_input ::
  "(nat \<Rightarrow> nat \<Rightarrow> 'a istate_scheme \<Rightarrow> 'a istate_scheme option) \<Rightarrow> nat \<Rightarrow> 'a istate_scheme \<Rightarrow> 'a istate_scheme option" where
  "ethernetif_input tcp_input nif w = do {
     (p, w) \<leftarrow> low_level_input nif w;
     case p of
       None \<Rightarrow> Some w
     | Some p \<Rightarrow> do {
         (e, w) \<leftarrow> netif_input tcp_input p nif w;
         if e \<noteq> ERR_OK then free_packet p w else Some w
       }
   }"

end
