(* ===== verification/Ip4_Send.thy ===== *)
theory Ip4_Send
  imports Ip4 Etharp_Resolve
begin

text \<open>
  Changing the bytes of a packet in place: where the data of other buffers lies, and what the layers above the memory and
  the driver see of it.
\<close>

section \<open>Changing a packet in place\<close>

definition splice :: "nat \<Rightarrow> bytes \<Rightarrow> bytes \<Rightarrow> bytes" where
  "splice k bs xs = take k xs @ bs @ drop (k + length bs) xs"

lemma length_splice [simp]: "k + length bs \<le> length xs \<Longrightarrow> length (splice k bs xs) = length xs"
  by (simp add: splice_def)

lemma splice_append1: "k + length bs \<le> length xs \<Longrightarrow> splice k bs (xs @ ys) = splice k bs xs @ ys"
  by (simp add: splice_def)

lemma fetch_store_splice:
  assumes "k + length bs \<le> n"
  shows "fetch (store (a + k) bs m) a n = splice k bs (fetch m a n)"
proof (rule nth_equalityI)
  show "length (fetch (store (a + k) bs m) a n) = length (splice k bs (fetch m a n))" using assms by simp
  fix i assume "i < length (fetch (store (a + k) bs m) a n)"
  then show "fetch (store (a + k) bs m) a n ! i = splice k bs (fetch m a n) ! i"
    using assms by (auto simp: store_def splice_def nth_append)
qed

text \<open>Two pbufs in use do not overlap.\<close>

lemma placed_block:
  assumes "placed w c" "mem_ok w"
  obtains n where "c + 16 \<le> payload (pbufs w c)" "payload (pbufs w c) + unat (plen (pbufs w c)) \<le> c + n"
    "live (hp w) c = Some n \<or> n = 1540 \<and> c \<in> set (elems (desc (pl w) MEMP_PBUF_POOL))"
proof -
  from assms(1) obtain s n where s: "source_of (pbufs w c) = Some s" "s \<noteq> Pool MEMP_PBUF" "entry s c (tables w) = Some n"
    "c + 16 \<le> payload (pbufs w c)" "payload (pbufs w c) + unat (plen (pbufs w c)) \<le> c + n" by (auto simp: placed_def)
  have "live (hp w) c = Some n \<or> n = 1540 \<and> c \<in> set (elems (desc (pl w) MEMP_PBUF_POOL))"
  proof (cases s)
    case Heap
    then show ?thesis using s(3) by (simp add: tables_def)
  next
    case (Pool t)
    then have "t = MEMP_PBUF_POOL" using s(1,2) by (auto simp: source_of_def split: if_splits)
    then show ?thesis using s(3) Pool assms(2) by (auto simp: tables_def pool_live_def mem_ok_def split: if_splits)
  qed
  then show ?thesis using that s(4,5) by blast
qed

lemma placed_disjoint:
  assumes "placed w a" "placed w b" "a \<noteq> b" "mem_ok w" "layout_ok w"
  shows "payload (pbufs w a) + unat (plen (pbufs w a)) \<le> b \<or> payload (pbufs w b) + unat (plen (pbufs w b)) \<le> a"
proof -
  obtain m where m: "a + 16 \<le> payload (pbufs w a)" "payload (pbufs w a) + unat (plen (pbufs w a)) \<le> a + m"
    "live (hp w) a = Some m \<or> m = 1540 \<and> a \<in> set (elems (desc (pl w) MEMP_PBUF_POOL))" using placed_block [OF assms(1,4)] .
  obtain n where n: "b + 16 \<le> payload (pbufs w b)" "payload (pbufs w b) + unat (plen (pbufs w b)) \<le> b + n"
    "live (hp w) b = Some n \<or> n = 1540 \<and> b \<in> set (elems (desc (pl w) MEMP_PBUF_POOL))" using placed_block [OF assms(2,4)] .
  have ok: "heap_ok (hp w)" "dsize (desc (pl w) MEMP_PBUF_POOL) = 1540" using assms(4) by (simp_all add: mem_ok_def)
  have hp: "x + k \<le> y \<or> y + 1540 \<le> x" if "live (hp w) x = Some k" "y \<in> set (elems (desc (pl w) MEMP_PBUF_POOL))" for x y k
    using heap_live_range [OF ok(1) that(1)] assms(5) that(2) by (fastforce simp: layout_ok_def)
  have "a + m \<le> b \<or> b + n \<le> a"
    using m(3) n(3)
  proof (elim disjE conjE)
    assume "live (hp w) a = Some m" "live (hp w) b = Some n"
    then show ?thesis using mem_heap.apart [OF ok(1), of a m b n] mem_heap.apart [OF ok(1), of b n a m] assms(3) by (auto simp: neq_iff)
  next
    assume "m = 1540" "a \<in> set (elems (desc (pl w) MEMP_PBUF_POOL))" "n = 1540" "b \<in> set (elems (desc (pl w) MEMP_PBUF_POOL))"
    then show ?thesis
      using elems_apart [of a "desc (pl w) MEMP_PBUF_POOL" b] elems_apart [of b "desc (pl w) MEMP_PBUF_POOL" a] assms(3) ok(2)
      by (auto simp: neq_iff)
  qed (use hp in auto)
  then show ?thesis using m(2) n(2) by linarith
qed

lemma received_cons: "received w p ps \<Longrightarrow> \<exists>qs. ps = p # qs \<and> p \<notin> set qs"
  using lseg_distinct [of "nxts w" "Some p" ps] by (cases ps) (auto simp: received_def packet_def)

text \<open>No other pbuf of the packet has data in the block of the first one.\<close>

lemma received_outside:
  assumes "received w p (p # qs)" "mem_ok w" "layout_ok w" "p \<le> lo" "hi \<le> payload (pbufs w p) + unat (plen (pbufs w p))"
  shows "outside w qs lo hi"
  unfolding outside_def
proof
  fix a assume a: "a \<in> set qs"
  then have "placed w p" "placed w a" "a \<noteq> p"
    using assms(1) packet_not_head [of w p qs] by (auto simp: received_def)
  moreover from this have "a \<le> payload (pbufs w a)" by (auto simp: placed_def)
  ultimately show "payload (pbufs w a) + unat (plen (pbufs w a)) \<le> lo \<or> hi \<le> payload (pbufs w a)"
    using placed_disjoint [OF _ _ _ assms(2,3), of p a] assms(4,5) by auto
qed

lemma put_contents:
  assumes "received w p (p # qs)" "mem_ok w" "layout_ok w" "k + length bs \<le> unat (plen (pbufs w p))"
  shows "contents (put_bytes (payload (pbufs w p) + k) bs w) (p # qs) = splice k bs (contents w (p # qs))"
proof -
  let ?b = "pbufs w p"
  have "p \<le> payload ?b" using assms(1) by (auto simp: received_def placed_def)
  then have "outside w qs (payload ?b) (payload ?b + unat (plen ?b))" using received_outside [OF assms(1-3)] by simp
  then have "contents (put_bytes (payload ?b + k) bs w) qs = contents w qs"
    using assms(4) contents_store [of w qs "payload ?b" "payload ?b + unat (plen ?b)" "payload ?b + k" bs] by (simp add: put_bytes_def)
  moreover have "seg (put_bytes (payload ?b + k) bs w) p = splice k bs (seg w p)"
    using fetch_store_splice [OF assms(4)] by (simp add: seg_def put_bytes_def)
  ultimately show ?thesis using assms(4) by (simp add: splice_append1)
qed

lemma put_irrelevant [simp]:
  "mem_ok (put_bytes a bs w) = mem_ok w" "tables (put_bytes a bs w) = tables w" "pbufs (put_bytes a bs w) = pbufs w" "hp (put_bytes a bs w) = hp w"
  "pl (put_bytes a bs w) = pl w" "placed (put_bytes a bs w) c = placed w c" "packet (put_bytes a bs w) p ps = packet w p ps"
  "received (put_bytes a bs w) p ps = received w p ps" "lens (put_bytes a bs w) ps = lens w ps" "mstate.more (put_bytes a bs w) = mstate.more w"
  "outside (put_bytes a bs w) ps lo hi = outside w ps lo hi"
  by (simp_all add: mem_ok_def tables_def placed_def put_bytes_def received_def)

lemma put_driver [simp]:
  fixes w :: "'a dstate_scheme"
  shows "netifs (put_bytes a bs w) = netifs w" "mac (put_bytes a bs w) = mac w" "txslot (put_bytes a bs w) = txslot w"
    "layout_ok (put_bytes a bs w) = layout_ok w" "tx_alive (put_bytes a bs w) = tx_alive w" "dstate.more (put_bytes a bs w) = dstate.more w"
    "sendable (put_bytes a bs w) p ps k = sendable w p ps k"
  by (simp_all add: put_bytes_def layout_ok_def slots_apart_def tx_alive_def sendable_def tx_clear_def tx_slot_addr_def outside_def lens_def)

lemma put_arp [simp]:
  fixes w :: "'a astate_scheme"
  shows "arp_table (put_bytes a bs w) = arp_table w" "etharp_cached_entry (put_bytes a bs w) = etharp_cached_entry w" "astate.more (put_bytes a bs w) = astate.more w"
  by (simp_all add: put_bytes_def)

section \<open>What does not depend on the upper layers\<close>

lemma lower_sel:
  assumes "dstate.truncate w = dstate.truncate w'"
  shows "hp w = hp w'" "pl w = pl w'" "ooseq_pending w = ooseq_pending w'" "pbufs w = pbufs w'" "ram_bytes w = ram_bytes w'"
    "netifs w = netifs w'" "mac w = mac w'" "txslot w = txslot w'"
  using assms by (simp_all add: dstate.truncate_def)

lemma lower_cong:
  assumes "dstate.truncate w = dstate.truncate w'"
  shows "sendable w p ps k = sendable w' p ps k" "tx_alive w = tx_alive w'" "mem_ok w = mem_ok w'" "layout_ok w = layout_ok w'"
    "contents w ps = contents w' ps" "lens w ps = lens w' ps" "seg w a = seg w' a" "tables w = tables w'" "placed w a = placed w' a"
    "packet w p ps = packet w' p ps" "received w p ps = received w' p ps" "give_back w ps T = give_back w' ps T" "unicast w n ip = unicast w' n ip"
    "get8 x w = get8 x w'" "get16 x w = get16 x w'" "get32 x w = get32 x w'" "get_bytes x j w = get_bytes x j w'" "tx_area w = tx_area w'"
    "ip4_addr_isbroadcast ip n w = ip4_addr_isbroadcast ip n w'"
proof -
  note s = lower_sel [OF assms]
  have t: "tot_ok w ps = tot_ok w' ps" for ps by (rule tot_ok_cong) (simp add: s)
  have l: "lens w ps = lens w' ps" for ps by (simp add: lens_def s)
  have g: "seg w a = seg w' a" for a by (simp add: seg_def s)
  then show "seg w a = seg w' a" .
  show "lens w ps = lens w' ps" by (rule l)
  have p: "packet w p ps = packet w' p ps" for p ps by (simp add: packet_def s t)
  then show "packet w p ps = packet w' p ps" .
  have tb: "tables w = tables w'" by (simp add: tables_def s)
  then show "tables w = tables w'" .
  have pl: "placed w a = placed w' a" for a by (simp add: placed_def s tb)
  then show "placed w a = placed w' a" .
  show "received w p ps = received w' p ps" by (simp add: received_def s p pl)
  show "sendable w p ps k = sendable w' p ps k" by (simp add: sendable_def p s outside_def tx_clear_def tx_slot_addr_def l)
  show "contents w ps = contents w' ps" using g by (simp add: contents_def cong: map_cong)
  show "tx_alive w = tx_alive w'" "mem_ok w = mem_ok w'" "layout_ok w = layout_ok w'" "tx_area w = tx_area w'"
    by (simp_all add: tx_alive_def mem_ok_def layout_ok_def slots_apart_def s tx_area_def tx_slot_addr_def fun_eq_iff)
  show "give_back w ps T = give_back w' ps T" by (rule give_back_cong) (simp add: s)
  show b: "ip4_addr_isbroadcast ip n w = ip4_addr_isbroadcast ip n w'" for ip n by (simp add: ip4_addr_isbroadcast_def s)
  show "unicast w n ip = unicast w' n ip" by (simp add: unicast_def b)
  show "get8 x w = get8 x w'" "get16 x w = get16 x w'" "get32 x w = get32 x w'" "get_bytes x j w = get_bytes x j w'"
    by (simp_all add: get8_def get16_def get32_def get_bytes_def s)
qed

lemma lower_upd [simp]:
  fixes w :: "'a istate_scheme"
  shows "dstate.truncate (w\<lparr>ip_id := x\<rparr>) = dstate.truncate w" "dstate.truncate (w\<lparr>ip_data := d\<rparr>) = dstate.truncate w"
  by (simp_all add: dstate.truncate_def)

lemma lower_upd_arp [simp]:
  fixes w :: "'a astate_scheme"
  shows "dstate.truncate (w\<lparr>etharp_cached_entry := c\<rparr>) = dstate.truncate w"
  by (simp add: dstate.truncate_def)

lemmas ip_id_lower [simp] = lower_cong [OF lower_upd(1)]
lemmas ip_data_lower [simp] = lower_cong [OF lower_upd(2)]
lemmas cached_lower [simp] = lower_cong [OF lower_upd_arp]

end
