(* ===== verification/Ip4_Header.thy ===== *)
theory Ip4_Header
  imports Ip4_Send
begin

text \<open>
  The header that \<^verbatim>\<open>ip4_output_if\<close> writes, with the checksum it computes on the way, and the frame in which the packet
  leaves to a neighbour whose hardware address is known.
\<close>

section \<open>The header and its checksum\<close>

definition ip_header :: "u32 \<Rightarrow> u32 \<Rightarrow> u8 \<Rightarrow> u8 \<Rightarrow> u8 \<Rightarrow> u16 \<Rightarrow> u16 \<Rightarrow> u16 \<Rightarrow> bytes" where
  "ip_header src dest ttl tos proto len ident chk =
     [0x45, tos] @ rev (le16_bytes len) @ rev (le16_bytes ident) @ [0, 0, ttl, proto] @ rev (le16_bytes chk) @ le_bytes src @ le_bytes dest"

lemma length_ip_header [simp]: "length (ip_header src dest ttl tos proto len ident chk) = 20"
  by (simp add: ip_header_def le16_bytes_def)

lemma le_sum_le16: "le_sum (le16_bytes h @ ys) = unat h + le_sum ys"
  using unat_le16 [of "ucast h" "ucast (drop_bit 8 h)"] by (simp add: le16_bytes_def le16_le16_bytes)

lemma PP_HTONS_pair: "PP_HTONS (ucast b OR push_bit 8 (ucast a)) = le16 a b" for a b :: byte
  by (rule bit_word_eqI) (auto simp: PP_HTONS_def le16_def bit_simps bit_byte_masks)

lemma fold_finish: "ucast (NOT (drop_bit 16 (FOLD_U32T s) + FOLD_U32T s)) = (ucast (NOT (FOLD_U32T (FOLD_U32T s) AND 0xffff)) :: u16)" for s :: u32
proof -
  let ?u = "FOLD_U32T s"
  have "unat ?u \<le> 131070" by (rule FOLD_bounds)
  then have "unat (drop_bit 16 ?u + ?u) = unat ?u div 65536 + unat ?u"
    by (simp add: unat_word_ariths unat_drop_bit)
  moreover have "(unat ?u div 65536 + unat ?u) mod 65536 = (unat ?u div 65536 + unat ?u mod 65536) mod 65536"
    by (metis mod_add_right_eq)
  ultimately have "ucast (drop_bit 16 ?u + ?u) = (ucast (FOLD_U32T ?u) :: u16)"
    by (simp add: word_unat_eq_iff unsigned_ucast_eq take_bit_eq_mod unat_FOLD)
  moreover have "ucast (NOT v) = (NOT (ucast v) :: u16)" for v :: u32
    by (rule bit_word_eqI) (auto simp: bit_simps)
  ultimately show ?thesis unfolding complement_u16 by simp
qed

lemma header_sum_rfc1071:
  "header_sum src dest ttl tos proto len ident = lwip_htons (rfc1071_checksum (ip_header src dest ttl tos proto len ident 0))"
proof -
  let ?s = "ucast (le16 ttl proto) + (dest AND 0xFFFF) + drop_bit 16 dest + ucast (le16 0x45 tos) + ucast (lwip_htons len) +
      ucast (lwip_htons ident) + (src AND 0xFFFF) + drop_bit 16 src :: u32"
  have z: "unat (lwip_htons 0) = 0" by (simp add: unat_htons)
  have k: "PP_HTONS (ucast tos OR 0x4500) = le16 0x45 tos" using PP_HTONS_pair [of tos "0x45"] by simp
  have "header_sum src dest ttl tos proto len ident = ucast (NOT (drop_bit 16 (FOLD_U32T ?s) + FOLD_U32T ?s))"
    by (simp add: header_sum_def Let_def PP_HTONS_pair k FOLD_U32T_def)
  also have "\<dots> = lwip_htons (rfc1071_checksum (ip_header src dest ttl tos proto len ident 0))"
    unfolding fold_finish
  proof (rule checksum_rightI)
    have small: "unat v mod 65536 < 65536" "unat v div 65536 < 65536" for v :: u32
      using unat_less_exp [of v] by simp_all
    have b: "unat (a :: byte) < 256" for a using unat_less_exp [of a] by simp
    have "unat ?s = unat ttl + 256 * unat proto + unat dest mod 65536 + unat dest div 65536 + (0x45 + 256 * unat tos) + unat (lwip_htons len) +
        unat (lwip_htons ident) + unat src mod 65536 + unat src div 65536"
      using small [of src] small [of dest] b [of ttl] b [of tos] b [of proto] u16_le [of "lwip_htons len"] u16_le [of "lwip_htons ident"]
      by (simp add: unat_u32_add unat_and_bytes unat_drop_bit unat_ucast_widen)
    also have "\<dots> = (0x45 + 256 * unat tos + unat (lwip_htons len) + unat (lwip_htons ident) + (unat ttl + 256 * unat proto)) +
        ((unat src div 65536 + unat src mod 65536) + (unat dest div 65536 + unat dest mod 65536))" by simp
    also have "oc \<dots> ((0x45 + 256 * unat tos + unat (lwip_htons len) + unat (lwip_htons ident) + (unat ttl + 256 * unat proto)) +
        (le_sum (le_bytes src) + le_sum (le_bytes dest)))"
      by (intro oc_add_mono oc_refl oc_trans [OF oc_fold oc_sym [OF le_sum_le_bytes]])
    also have "oc \<dots> ((0x45 + 256 * unat tos + unat (lwip_htons len) + unat (lwip_htons ident) + (unat ttl + 256 * unat proto)) +
        le_sum (le_bytes src @ le_bytes dest))"
      using oc_sym [OF le_sum_append [of "le_bytes src" "le_bytes dest"]] by (intro oc_add_mono oc_refl) simp
    also have "\<dots> = le_sum (ip_header src dest ttl tos proto len ident 0)"
      by (simp add: ip_header_def htons_bytes [symmetric] le_sum_le16 z)
    finally have "oc (unat ?s) (le_sum (ip_header src dest ttl tos proto len ident 0))" .
    then show "oc (unat (FOLD_U32T (FOLD_U32T ?s))) (le_sum (ip_header src dest ttl tos proto len ident 0))"
      by (rule oc_trans [OF FOLD_FOLD(1)])
  qed (rule FOLD_FOLD)
  finally show ?thesis .
qed


lemma put_span:
  assumes "length xs = 8" "length c = 6"
  shows "put_bytes (h + 10) c (put_bytes h xs (put_bytes (h + 16) d (put_bytes (h + 8) [x, y] w))) = put_bytes h (xs @ [x, y] @ c @ d) w"
proof -
  have "put_bytes h xs (put_bytes (h + 16) d (put_bytes (h + 8) [x, y] w)) = put_bytes (h + 16) d (put_bytes h (xs @ [x, y]) w)"
    using assms(1) put_commute [of h xs "h + 16" d "put_bytes (h + 8) [x, y] w"] by (simp add: put_front)
  then show ?thesis using assms by (simp add: put_front put_merge)
qed

lemma write_ip_hdr_header:
  "write_ip_hdr h src dest ttl tos proto len ident w =
     put_bytes h (ip_header src dest ttl tos proto len ident (rfc1071_checksum (ip_header src dest ttl tos proto len ident 0))) w"
proof -
  have l: "length (le16_bytes v) = 2" for v by (simp add: le16_bytes_def)
  have z: "le16_bytes 0 = [0, 0]" by (simp add: le16_bytes_def)
  show ?thesis
    by (simp add: write_ip_hdr_def Let_def put16_def put8_def put32_def htons_bytes header_sum_rfc1071 z l layout_simps put_span put_front put_merge ip_header_def)
qed

lemma header_verifies:
  "rfc1071_sum (ip_header src dest ttl tos proto len ident (rfc1071_checksum (ip_header src dest ttl tos proto len ident 0))) = 65535"
proof -
  let ?pre = "[0x45, tos] @ rev (le16_bytes len) @ rev (le16_bytes ident) @ [0, 0, ttl, proto]" and ?post = "le_bytes src @ le_bytes dest"
  have z: "ip_header src dest ttl tos proto len ident 0 = ?pre @ [0, 0] @ ?post" by (simp add: ip_header_def le16_bytes_def)
  show ?thesis
    using rfc1071_filled [of ?pre ?post] unfolding z [symmetric] htons_bytes by (simp add: ip_header_def le16_bytes_def)
qed

section \<open>Sending to a known neighbour\<close>

definition leaves_net :: "netif \<Rightarrow> u32 \<Rightarrow> bool" where
  "leaves_net n ip \<longleftrightarrow> \<not> ip4_addr_netcmp ip (ip_addr n) (netmask n) \<and> \<not> ip4_addr_islinklocal ip"

definition next_hop :: "netif \<Rightarrow> u32 \<Rightarrow> u32" where
  "next_hop n ip = (if leaves_net n ip then gw n else ip)"

text \<open>The table knows the neighbour to which packets for the address go, and does not ask for it again yet.\<close>

definition resolved :: "'a astate_scheme \<Rightarrow> nat \<Rightarrow> u32 \<Rightarrow> bytes \<Rightarrow> bool" where
  "resolved w n ip ea \<longleftrightarrow>
     \<not> ip4_addr_isbroadcast ip n w \<and> \<not> ip4_addr_ismulticast ip \<and> (leaves_net (netifs w n) ip \<longrightarrow> \<not> ip4_addr_isany_val (gw (netifs w n))) \<and>
     (\<exists>i<ARP_TABLE_SIZE. usable (next_hop (netifs w n) ip) n (arp w i) \<and> arp_ethaddr (arp w i) = ea \<and>
        (arp_state (arp w i) = ETHARP_STATE_STABLE \<longrightarrow> arp_ctime (arp w i) < ARP_AGE_REREQUEST_USED_UNICAST))"

lemma usable_unique:
  assumes "arp_inv w" "usable ip n (arp w i)" "usable ip n (arp w j)" "i < ARP_TABLE_SIZE" "j < ARP_TABLE_SIZE"
  shows "i = j"
  using assms usable_in_use [OF assms(2)] usable_in_use [OF assms(3)] by (auto simp: arp_inv_def arp_ok_def arp_def)

lemma etharp_output_to_fresh:
  assumes "usable ip n (arp w i)" "arp_state (arp w i) = ETHARP_STATE_STABLE \<longrightarrow> arp_ctime (arp w i) < ARP_AGE_REREQUEST_USED_UNICAST"
  shows "etharp_output_to_arp_index n q i w = ethernet_output n q (hwaddr (netifs w n)) (arp_ethaddr (arp w i)) ETHTYPE_IP w"
proof -
  have "\<not> arp_ctime (arp w i) \<ge> ARP_AGE_REREQUEST_USED_BROADCAST" "\<not> arp_ctime (arp w i) \<ge> ARP_AGE_REREQUEST_USED_UNICAST"
    if "arp_state (arp w i) = ETHARP_STATE_STABLE"
    using assms(2) that
    by (auto simp: not_le ARP_AGE_REREQUEST_USED_UNICAST_def ARP_AGE_REREQUEST_USED_BROADCAST_def ARP_MAXAGE_def intro: less_trans)
  then show ?thesis using assms(1) by (auto simp: etharp_output_to_arp_index_def usable_def)
qed

lemma resolved_length: "arp_inv w \<Longrightarrow> resolved w n ip ea \<Longrightarrow> length ea = 6"
  using arp_okD [of "arp_table w"] by (auto simp: resolved_def arp_inv_def arp_ok_def arp_def layout_simps)

lemma etharp_output_resolved:
  assumes "arp_inv w" "resolved w n ip ea"
  shows "\<exists>i<ARP_TABLE_SIZE. etharp_output n q ip w = ethernet_output n q (hwaddr (netifs w n)) ea ETHTYPE_IP (w\<lparr>etharp_cached_entry := i\<rparr>)"
proof -
  let ?d = "next_hop (netifs w n) ip"
  obtain i where i: "i < ARP_TABLE_SIZE" "usable ?d n (arp w i)" "arp_ethaddr (arp w i) = ea"
    "arp_state (arp w i) = ETHARP_STATE_STABLE \<longrightarrow> arp_ctime (arp w i) < ARP_AGE_REREQUEST_USED_UNICAST"
    using assms(2) by (auto simp: resolved_def)
  let ?w = "w\<lparr>etharp_cached_entry := i\<rparr>"
  have out: "etharp_output_to_arp_index n q i ?w = ethernet_output n q (hwaddr (netifs w n)) ea ETHTYPE_IP ?w"
    using etharp_output_to_fresh [of ?d n ?w i q] i by (simp add: arp_def)
  have e: "etharp_output n q ip w = (if usable ?d n (arp w (etharp_cached_entry w)) then etharp_output_to_arp_index n q (etharp_cached_entry w) w
      else case List.find (\<lambda>i. usable ?d n (arp w i)) [0..<ARP_TABLE_SIZE] of
          Some i \<Rightarrow> etharp_output_to_arp_index n q i (w\<lparr>etharp_cached_entry := i\<rparr>) | None \<Rightarrow> etharp_query n ?d (Some q) w)"
    using assms(2) unfolding etharp_output_def Let_def leaves_net_def [symmetric] next_hop_def [symmetric] resolved_def by auto
  have "etharp_output n q ip w = etharp_output_to_arp_index n q i ?w"
  proof (cases "usable ?d n (arp w (etharp_cached_entry w))")
    case True
    then have c: "etharp_cached_entry w = i" using usable_unique [OF assms(1) True i(2) _ i(1)] assms(1) by (simp add: arp_inv_def)
    then have w: "?w = w" by simp
    show ?thesis unfolding w using True e c by simp
  next
    case False
    have "List.find (\<lambda>i. usable ?d n (arp w i)) [0..<ARP_TABLE_SIZE] = Some i"
    proof (cases "List.find (\<lambda>i. usable ?d n (arp w i)) [0..<ARP_TABLE_SIZE]")
      case None
      then show ?thesis using i(1,2) by (auto simp: find_None_iff)
    next
      case (Some j)
      then have "usable ?d n (arp w j)" "j < ARP_TABLE_SIZE" by (auto simp: find_Some_iff)
      then show ?thesis using usable_unique [OF assms(1) _ i(2) _ i(1)] Some by simp
    qed
    then show ?thesis using False e by simp
  qed
  then show ?thesis using out i(1) by auto
qed

section \<open>Routes\<close>

abbreviation netif_chain :: "'a istate_scheme \<Rightarrow> nat list \<Rightarrow> bool" where
  "netif_chain w ns \<equiv> lseg (\<lambda>n. nif_next (netifs w n)) (netif_list w) ns"

lemma route_loop_first: "lseg (\<lambda>n. nif_next (netifs w n)) l ns \<Longrightarrow> route_loop dest l w = Some (List.find (\<lambda>n. reaches dest (netifs w n)) ns)"
  by (induction ns arbitrary: l) (auto simp: route_loop.simps)

definition usable_default :: "netif \<Rightarrow> u32 \<Rightarrow> bool" where
  "usable_default n dest \<longleftrightarrow> netif_is_up n \<and> netif_is_link_up n \<and> \<not> ip4_addr_isany_val (ip_addr n) \<and> \<not> ip4_addr_isloopback dest"

lemma ip4_route_first:
  assumes "netif_chain w ns"
  shows "ip4_route dest w =
    Some (case List.find (\<lambda>n. reaches dest (netifs w n)) ns of Some n \<Rightarrow> Some n
          | None \<Rightarrow> (case netif_default w of None \<Rightarrow> None | Some d \<Rightarrow> if usable_default (netifs w d) dest then Some d else None))"
  using route_loop_first [OF assms] by (auto simp: ip4_route_def usable_default_def Let_def split: option.splits)

text \<open>The interface for an address: the first of the list that reaches it or, when none does, the default interface.\<close>

definition routed :: "'a istate_scheme \<Rightarrow> nat list \<Rightarrow> u32 \<Rightarrow> nat \<Rightarrow> bool" where
  "routed w ns dest n \<longleftrightarrow>
     (case List.find (\<lambda>n. reaches dest (netifs w n)) ns of
        Some m \<Rightarrow> n = m
      | None \<Rightarrow> netif_default w = Some n \<and> usable_default (netifs w n) dest)"

lemma ip4_route_routed: "netif_chain w ns \<Longrightarrow> routed w ns dest n \<Longrightarrow> ip4_route dest w = Some (Some n)"
  by (auto simp: ip4_route_first routed_def split: option.splits)

section \<open>Sending a packet\<close>

lemma with_header_add:
  assumes "sendable w p ps k" "length h \<le> k" "0 < length h"
  shows "pbuf_add_header p (length h) w = (0, set_pbuf p (grown (length h)) w)"
    "with_header p h w = put_bytes (payload (pbufs (set_pbuf p (grown (length h)) w) p)) h (set_pbuf p (grown (length h)) w)"
proof -
  have "packet w p (p # ps)" "lens w (p # ps) + k < 65536" using assms(1) by (simp_all add: sendable_def)
  then have "unat (ptot (pbufs w p)) + length h < 65536" using packet_total [of w p "p # ps"] assms(2) by simp
  then show "pbuf_add_header p (length h) w = (0, set_pbuf p (grown (length h)) w)"
    using assms by (intro pbuf_add_header_ok) (auto simp: sendable_def)
  show "with_header p h w = put_bytes (payload (pbufs (set_pbuf p (grown (length h)) w) p)) h (set_pbuf p (grown (length h)) w)"
    by (simp add: with_header_def set_pbuf_def)
qed

lemma with_header_upper [simp]:
  fixes w :: "'a istate_scheme"
  shows "arp_table (with_header p h w) = arp_table w" "etharp_cached_entry (with_header p h w) = etharp_cached_entry w"
    "ip_id (with_header p h w) = ip_id w" "ip_data (with_header p h w) = ip_data w"
  by (simp_all add: with_header_def put_bytes_def set_pbuf_def)

lemma grown_grown: "grown j (grown k b) = grown (k + j) b"
  by (simp add: grown_def)

definition source_addr :: "u32 option \<Rightarrow> netif \<Rightarrow> u32" where
  "source_addr src n = (case src of None \<Rightarrow> ip_addr n | Some s \<Rightarrow> if ip4_addr_isany_val s then ip_addr n else s)"

text \<open>The header with its checksum filled in.\<close>

definition full_header :: "u32 \<Rightarrow> u32 \<Rightarrow> u8 \<Rightarrow> u8 \<Rightarrow> u8 \<Rightarrow> u16 \<Rightarrow> u16 \<Rightarrow> bytes" where
  "full_header src dest ttl tos proto len ident = ip_header src dest ttl tos proto len ident (rfc1071_checksum (ip_header src dest ttl tos proto len ident 0))"

lemma ip4_output_if_spec:
  fixes w :: "'a istate_scheme"
  assumes s: "sendable w p ps 34" "pref (pbufs w p) = 1" "lens w (p # ps) + 34 \<le> 2048" and alive: "tx_alive w"
    and n: "eth_netif (netifs w n)" "nif_output (netifs w n) = Etharp_output" and arp: "arp_inv w" "resolved w n dest ea" 
  shows "\<exists>i<ARP_TABLE_SIZE. \<exists>w'. ip4_output_if p src (Some dest) ttl tos proto n w = Some (ERR_OK, w') \<and> 
    pbufs w' = (pbufs w)(p := grown 34 (pbufs w p)) \<and>
    went_out (\<lambda>x. payload (pbufs w p) - 34 \<le> x \<and> x < payload (pbufs w p))
      (eth_frame ea (hwaddr (netifs w n)) ETHTYPE_IP
        (full_header (source_addr src (netifs w n)) dest ttl tos proto (of_nat (lens w (p # ps) + 20)) (ip_id w) @ contents w (p # ps)))
      (w\<lparr>ip_id := ip_id w + 1, etharp_cached_entry := i\<rparr>) w'"
proof -
  let ?n = "netifs w n" and ?b = "pbufs w p"
  define h where "h = full_header (source_addr src ?n) dest ttl tos proto (of_nat (lens w (p # ps) + 20)) (ip_id w)"
  have lh: "length h = 20" by (simp add: h_def full_header_def)
  define v where "v = with_header p h w"
  define u where "u = v\<lparr>ip_id := ip_id w + 1\<rparr>"
  note add = with_header_add [OF s(1), of h, unfolded lh, simplified]
  have pk: "packet w p (p # ps)" and room: "p + 16 + 34 \<le> payload ?b" using s(1) by (simp_all add: sendable_def)
  have tot: "ptot (pbufs (set_pbuf p (grown 20) w) p) = of_nat (lens w (p # ps) + 20)"
    using arg_cong [OF packet_total [OF pk], of "of_nat :: nat \<Rightarrow> u16"] by (simp add: set_pbuf_def grown_def del: lens_simps)
  have pl: "\<not> unat (plen (pbufs (set_pbuf p (grown 20) w) p)) < 20"
    using s(3) by (simp add: set_pbuf_def grown_def unat_word_ariths)
  have v: "sendable v p ps 14" "contents v (p # ps) = h @ contents w (p # ps)" using with_header_sendable [OF s(1), of h] lh by (simp_all add: v_def)
  have lv: "lens v (p # ps) = lens w (p # ps) + 20" using arg_cong [OF v(2), of length] lh by (simp only: length_contents length_append)
  have "ip4_output_if p src (Some dest) ttl tos proto n w = etharp_output n p dest u"
  proof -
    have "write_ip_hdr (payload (pbufs (set_pbuf p (grown 20) w) p)) (source_addr src ?n) dest ttl tos proto
        (ptot (pbufs (set_pbuf p (grown 20) w) p)) (ip_id (set_pbuf p (grown 20) w)) (set_pbuf p (grown 20) w) = v"
      unfolding write_ip_hdr_header tot v_def add(2) by (simp add: h_def full_header_def set_pbuf_def)
    then show ?thesis
      using s(2) n(2) pl by (auto simp: ip4_output_if_def ip4_output_if_src_def source_addr_def add(1) layout_simps Let_def netif_output_def u_def v_def
          split: option.splits)
  qed
  moreover have "resolved u n dest ea" "arp_inv u"
    using arp by (simp_all add: u_def v_def resolved_def arp_inv_def arp_def ip4_addr_isbroadcast_def)
  from etharp_output_resolved [OF this(2,1), of p] obtain i where i: "i < ARP_TABLE_SIZE"
    "etharp_output n p dest u = ethernet_output n p (hwaddr (netifs u n)) ea ETHTYPE_IP (u\<lparr>etharp_cached_entry := i\<rparr>)" by blast
  let ?t = "u\<lparr>etharp_cached_entry := i\<rparr>"
  have t: "sendable ?t p ps 14" "tx_alive ?t" "eth_netif (netifs ?t n)" "lens ?t (p # ps) + 14 \<le> 2048" "length ea = 6" "length (hwaddr (netifs u n)) = 6"
    using v alive n(1) s(3) lh resolved_length [OF arp] lv
    by (simp_all add: u_def eth_netif_def layout_simps tx_alive_def v_def del: contents_simps lens_simps)
  from ethernet_output_spec [OF t(1-4) t(5,6), of ETHTYPE_IP] obtain w' where
    w': "ethernet_output n p (hwaddr (netifs u n)) ea ETHTYPE_IP ?t = Some (ERR_OK, w')" "pbufs w' = (pbufs ?t)(p := grown 14 (pbufs ?t p))"
    "went_out (\<lambda>x. payload (pbufs ?t p) - 14 \<le> x \<and> x < payload (pbufs ?t p)) (eth_frame ea (hwaddr (netifs u n)) ETHTYPE_IP (contents ?t (p # ps))) ?t w'"
    by blast
  have "ram_bytes w' x = ram_bytes w x" if "\<not> tx_area w x" "\<not> (payload ?b - 34 \<le> x \<and> x < payload ?b)" for x
  proof -
    have "\<not> tx_area ?t x" using that(1) by (simp add: tx_area_def tx_slot_addr_def u_def v_def)
    moreover have "payload (pbufs ?t p) = payload ?b - 20" using lh by (simp add: u_def v_def)
    ultimately have "ram_bytes w' x = ram_bytes ?t x" using w'(3) that(2) room by (auto simp: went_out_def)
    then show ?thesis using that(2) room lh by (auto simp: u_def v_def store_def)
  qed
  moreover have "dstate.more ?t = dstate.more (w\<lparr>ip_id := ip_id w + 1, etharp_cached_entry := i\<rparr>)"
    by (cases w) (simp add: u_def v_def with_header_def put_bytes_def set_pbuf_def)
  moreover have "contents ?t (p # ps) = h @ contents w (p # ps)" using v(2) by (simp add: u_def del: contents_simps)
  ultimately have "went_out (\<lambda>x. payload ?b - 34 \<le> x \<and> x < payload ?b) (eth_frame ea (hwaddr ?n) ETHTYPE_IP (h @ contents w (p # ps)))
      (w\<lparr>ip_id := ip_id w + 1, etharp_cached_entry := i\<rparr>) w'"
    using w'(3) by (simp add: went_out_def u_def v_def tx_area_def tx_slot_addr_def del: contents_simps)
  moreover have "pbufs w' = (pbufs w)(p := grown 34 ?b)" using w'(2) lh by (simp add: u_def v_def grown_grown)
  ultimately show ?thesis using i w'(1) \<open>ip4_output_if p src (Some dest) ttl tos proto n w = etharp_output n p dest u\<close> unfolding h_def by auto
qed

lemma upper_sel:
  fixes w w' :: "'a istate_scheme"
  assumes "dstate.more w = dstate.more w'"
  shows "arp_table w = arp_table w'" "etharp_cached_entry w = etharp_cached_entry w'" "ip_id w = ip_id w'" "ip_data w = ip_data w'"
    "netif_list w = netif_list w'" "netif_default w = netif_default w'"
  using assms by (cases w; cases w'; simp)+

section \<open>Properties\<close>

text \<open>The state of the earlier examples with a neighbour in the table, for the examples of the IP layer.\<close>

definition host0 :: "bytes \<Rightarrow> istate" where
  "host0 d = (astate.extend (heard d) (istate.fields 7 \<lparr>current_netif = None, current_input_netif = None, current_ip4_header = None,
      current_ip_header_tot_len = 0, current_iphdr_src = 0, current_iphdr_dest = 0\<rparr> (Some 0) (Some 0)))
    \<lparr>arp_table := (arp_table arp0)[0 := \<lparr>arp_q = None, arp_ipaddr = 0x0901A8C0, arp_netif = Some 0, arp_ethaddr = [2, 0, 0, 0, 0, 9],
      arp_ctime = 0, arp_state = ETHARP_STATE_STABLE\<rparr>]\<rparr>"

lemma host0_sel [simp]: "dstate.truncate (host0 d) = dstate.truncate (heard d)"
    "ip_id (host0 d) = 7" "netif_list (host0 d) = Some 0" "netif_default (host0 d) = Some 0"
  by (simp_all add: host0_def heard_def arp0_def driver0_def sample_def mstate.defs dstate.defs astate.defs istate.defs)

lemmas host0_lower [simp] = lower_sel [OF host0_sel(1)] lower_cong [OF host0_sel(1)]

lemma host0_arp: "arp_inv (host0 d)" "resolved (host0 d) 0 0x0901A8C0 [2, 0, 0, 0, 0, 9]"
proof -
  have t: "arp_table (host0 d) = \<lparr>arp_q = None, arp_ipaddr = 0x0901A8C0, arp_netif = Some 0, arp_ethaddr = [2, 0, 0, 0, 0, 9],
      arp_ctime = 0, arp_state = ETHARP_STATE_STABLE\<rparr> # replicate 9 \<lparr>arp_q = None, arp_ipaddr = 0, arp_netif = None, arp_ethaddr = ethzero,
      arp_ctime = 0, arp_state = ETHARP_STATE_EMPTY\<rparr>" "etharp_cached_entry (host0 d) = 0"
    using arp0_sel(8)
    by (simp_all add: host0_def heard_def arp0_def driver0_def sample_def mstate.defs dstate.defs astate.defs istate.defs arp_initial_def layout_simps numeral_eq_Suc)
  show "arp_inv (host0 d)"
    unfolding arp_inv_def arp_ok_def t by (auto simp: layout_simps ethzero_def nth_Cons')
  show "resolved (host0 d) 0 0x0901A8C0 [2, 0, 0, 0, 0, 9]"
    unfolding resolved_def arp_def t
    by (auto simp: netif0_def next_hop_def leaves_net_def ip4_addr_netcmp_def ip4_addr_isbroadcast_def ip4_addr_isbroadcast_u32_def
        ip4_addr_ismulticast_def IPADDR_ANY_def IPADDR_BROADCAST_def PP_HTONL_def usable_def ARP_AGE_REREQUEST_USED_UNICAST_def ARP_MAXAGE_def layout_simps
        intro!: exI [of _ 0])
qed

text \<open>
  C13: The checksum that \<^verbatim>\<open>ip4_output_if\<close> accumulates while it writes the header, field by field and with a single masked fold,
  is the checksum that \<^verbatim>\<open>inet_chksum\<close> computes over the finished header with a zero checksum field, wherever the header lies in
  memory; and the header with this checksum filled in passes the test of \<^verbatim>\<open>ip4_input\<close>.
\<close>

theorem inline_checksum:
  "header_sum src dest ttl tos proto len ident = inet_chksum ptr (ip_header src dest ttl tos proto len ident 0) \<and>
   inet_chksum ptr' (full_header src dest ttl tos proto len ident) = 0 \<and>
   write_ip_hdr h src dest ttl tos proto len ident w = put_bytes h (full_header src dest ttl tos proto len ident) w"
  using header_verifies [of src dest ttl tos proto len ident]
  by (simp add: inet_chksum_rfc1071 header_sum_rfc1071 write_ip_hdr_header full_header_def checksum_zero)

text \<open>
  C12: A packet whose next hop is a known neighbour leaves at once: on the first interface of the list that reaches the address or,
  when none does, on the default interface; in one frame to the hardware address that the table has for the next hop, which
  is the destination itself on the network of the interface and the gateway beyond it; with a header that carries the addresses of
  the packet, the length, the next identification and a valid checksum, followed by exactly the bytes of the packet. No memory
  is taken or released and the table stays as it is.
\<close>

theorem ip4_output_sends:
  fixes w :: "'a istate_scheme"
  assumes "lseg (\<lambda>n. nif_next (netifs w n)) (netif_list w) ns" "routed w ns dest n"
    "sendable w p ps 34" "pref (pbufs w p) = 1" "lens w (p # ps) + 34 \<le> 2048" "tx_alive w"
    "eth_netif (netifs w n)" "nif_output (netifs w n) = Etharp_output" "arp_inv w" "resolved w n dest ea"
  shows "\<exists>w'. ip4_output p src dest ttl tos proto w = Some (ERR_OK, w') \<and>
    sent (mac w') = sent (mac w) @ [(txslot w, eth_frame ea (hwaddr (netifs w n)) ETHTYPE_IP
      (full_header (source_addr src (netifs w n)) dest ttl tos proto (of_nat (lens w (p # ps) + 20)) (ip_id w) @ contents w (p # ps)))] \<and>
    ip_id w' = ip_id w + 1 \<and> arp_table w' = arp_table w \<and> tables w' = tables w"
proof -
  obtain i w' where w': "ip4_output_if p src (Some dest) ttl tos proto n w = Some (ERR_OK, w')"
    "went_out (\<lambda>x. payload (pbufs w p) - 34 \<le> x \<and> x < payload (pbufs w p))
      (eth_frame ea (hwaddr (netifs w n)) ETHTYPE_IP
        (full_header (source_addr src (netifs w n)) dest ttl tos proto (of_nat (lens w (p # ps) + 20)) (ip_id w) @ contents w (p # ps)))
      (w\<lparr>ip_id := ip_id w + 1, etharp_cached_entry := i\<rparr>) w'"
    using ip4_output_if_spec [OF assms(3-10), of src ttl tos proto] by blast
  have "ip4_route dest w = Some (Some n)" using ip4_route_routed assms(1,2) .
  then have "ip4_output p src dest ttl tos proto w = Some (ERR_OK, w')" using w'(1) assms(4) by (simp add: ip4_output_def)
  moreover have "dstate.more w' = dstate.more (w\<lparr>ip_id := ip_id w + 1, etharp_cached_entry := i\<rparr>)" "hp w' = hp w" "pl w' = pl w"
    using w'(2) by (simp_all add: went_out_def)
  ultimately show ?thesis using w'(2) upper_sel [of w'] by (auto simp: went_out_def tables_def)
qed

text \<open>
  A host that knows its gateway 192.168.1.1 sends to 8.8.8.8, which no interface reaches; and one that knows its neighbour 192.168.1.9
  sends there directly.
\<close>

definition host_gw :: "bytes \<Rightarrow> istate" where
  "host_gw d = (host0 d)\<lparr>arp_table := (arp_table (host0 d))[0 := (arp_table (host0 d) ! 0)\<lparr>arp_ipaddr := 0x0101A8C0\<rparr>]\<rparr>"

lemma host_gw_sel [simp]: "dstate.truncate (host_gw d) = dstate.truncate (heard d)"
    "ip_id (host_gw d) = 7" "netif_list (host_gw d) = Some 0" "netif_default (host_gw d) = Some 0"
  by (simp_all add: host_gw_def dstate.defs)

lemmas host_gw_lower [simp] = lower_sel [OF host_gw_sel(1)] lower_cong [OF host_gw_sel(1)]

lemma host_gw_arp: "arp_inv (host_gw d)" "resolved (host_gw d) 0 0x08080808 [2, 0, 0, 0, 0, 9]"
proof -
  have t: "arp_table (host_gw d) = \<lparr>arp_q = None, arp_ipaddr = 0x0101A8C0, arp_netif = Some 0, arp_ethaddr = [2, 0, 0, 0, 0, 9],
      arp_ctime = 0, arp_state = ETHARP_STATE_STABLE\<rparr> # replicate 9 \<lparr>arp_q = None, arp_ipaddr = 0, arp_netif = None, arp_ethaddr = ethzero,
      arp_ctime = 0, arp_state = ETHARP_STATE_EMPTY\<rparr>" "etharp_cached_entry (host_gw d) = 0"
    using arp0_sel(8)
    by (simp_all add: host_gw_def host0_def heard_def arp0_def driver0_def sample_def mstate.defs dstate.defs astate.defs istate.defs arp_initial_def layout_simps numeral_eq_Suc)
  show "arp_inv (host_gw d)"
    unfolding arp_inv_def arp_ok_def t by (auto simp: layout_simps ethzero_def nth_Cons')
  show "resolved (host_gw d) 0 0x08080808 [2, 0, 0, 0, 0, 9]"
    unfolding resolved_def arp_def t
    by (auto simp: netif0_def next_hop_def leaves_net_def ip4_addr_netcmp_def ip4_addr_isbroadcast_def ip4_addr_isbroadcast_u32_def
        ip4_addr_islinklocal_def ip4_addr_isany_val_def
        ip4_addr_ismulticast_def IPADDR_ANY_def IPADDR_BROADCAST_def PP_HTONL_def usable_def ARP_AGE_REREQUEST_USED_UNICAST_def ARP_MAXAGE_def layout_simps
        intro!: exI [of _ 0])
qed

lemma routed_example:
  assumes "dstate.truncate w = dstate.truncate (heard [1, 2, 3])" "netif_list w = Some 0" "netif_default w = Some 0"
  shows "routed w [0] 0x0901A8C0 0" "routed w [0] 0x08080808 0" "netif_chain w [0]"
    "sendable w 16 [] 34" "pref (pbufs w 16) = 1" "lens w [16] + 34 \<le> 2048" "tx_alive w" "eth_netif (netifs w 0)"
    "nif_output (netifs w 0) = Etharp_output"
proof -
  note l [simp] = lower_sel [OF assms(1)] lower_cong [OF assms(1)] assms(2,3)
  have r: "received w 16 [16]" using heard_received [of "[1, 2, 3]"] by simp
  show "routed w [0] 0x0901A8C0 0" "routed w [0] 0x08080808 0" "netif_chain w [0]" "nif_output (netifs w 0) = Etharp_output"
    by (simp_all add: routed_def netif0_def reaches_def usable_default_def netif_is_up_def netif_is_link_up_def ip4_addr_isany_val_def ip4_addr_netcmp_def
        ip4_addr_isloopback_def PP_HTONL_def IPADDR_ANY_def NETIF_FLAG_UP_def NETIF_FLAG_LINK_UP_def)
  show "sendable w 16 [] 34" "pref (pbufs w 16) = 1" "lens w [16] + 34 \<le> 2048"
    using r by (simp_all add: sendable_def received_def tx_clear_def tx_slot_addr_def mac0_def layout_simps)
  show "tx_alive w" "eth_netif (netifs w 0)" using heard_ok(3,4) by simp_all
qed

theorem ip4_output_sends_witness:
  "(\<exists>w'. ip4_output 16 None 0x08080808 255 0 1 (host_gw [1, 2, 3]) = Some (ERR_OK, w') \<and> ip_id w' = 8 \<and>
     map snd (sent (mac w')) = [[2, 0, 0, 0, 0, 9, 2, 0, 0, 0, 0, 1, 8, 0,
       0x45, 0, 0, 23, 0, 7, 0, 0, 255, 1, 0xE9, 0xF4, 192, 168, 1, 50, 8, 8, 8, 8, 1, 2, 3]]) \<and>
   (\<exists>w'. ip4_output 16 None 0x0901A8C0 255 0 1 (host0 [1, 2, 3]) = Some (ERR_OK, w') \<and> ip_id w' = 8)"
proof -
  let ?w = "host_gw [1, 2, 3]"
  note g = routed_example [OF host_gw_sel(1,3,4)] and h0 = routed_example [OF host0_sel(1,3,4)]
  have r: "contents ?w [16] = [1, 2, 3]" using heard_received [of "[1, 2, 3]"] by simp
  obtain w' where w': "ip4_output 16 None 0x08080808 255 0 1 ?w = Some (ERR_OK, w')" "ip_id w' = ip_id ?w + 1"
    "sent (mac w') = sent (mac ?w) @ [(txslot ?w, eth_frame [2, 0, 0, 0, 0, 9] (hwaddr (netifs ?w 0)) ETHTYPE_IP
      (full_header (source_addr None (netifs ?w 0)) 0x08080808 255 0 1 (of_nat (lens ?w [16] + 20)) (ip_id ?w) @ contents ?w [16]))]"
    using ip4_output_sends [OF g(3,2,4-9) host_gw_arp, of None 255 0 1] by blast
  have h: "ip_header 0x3201A8C0 0x08080808 255 0 1 23 7 c = [0x45, 0, 0, 23, 0, 7, 0, 0, 255, 1] @ rev (le16_bytes c) @ [192, 168, 1, 50, 8, 8, 8, 8]" for c
    by (simp add: ip_header_def le16_bytes_def le_bytes_def upt_rec drop_bit_eq_div)
  have c: "rfc1071_checksum (ip_header 0x3201A8C0 0x08080808 255 0 1 23 7 0) = 0xE9F4"
    unfolding h by (simp add: rfc1071_checksum_def oc_add_def le16_bytes_def)
  have f: "eth_frame [2, 0, 0, 0, 0, 9] (hwaddr netif0) ETHTYPE_IP
      (full_header (source_addr None netif0) 0x08080808 255 0 1 23 7 @ [1, 2, 3]) =
     [2, 0, 0, 0, 0, 9, 2, 0, 0, 0, 0, 1, 8, 0,
       0x45, 0, 0, 23, 0, 7, 0, 0, 255, 1, 0xE9, 0xF4, 192, 168, 1, 50, 8, 8, 8, 8, 1, 2, 3]"
    by (simp add: eth_frame_def full_header_def source_addr_def netif0_def c) (simp add: h le16_bytes_def fpga_mac_def ETHTYPE_IP_def)
  have "of_nat (lens ?w [16] + 20) = (23 :: u16)" by simp
  then have "\<exists>w'. ip4_output 16 None 0x08080808 255 0 1 ?w = Some (ERR_OK, w') \<and> ip_id w' = 8 \<and>
      map snd (sent (mac w')) = [[2, 0, 0, 0, 0, 9, 2, 0, 0, 0, 0, 1, 8, 0,
       0x45, 0, 0, 23, 0, 7, 0, 0, 255, 1, 0xE9, 0xF4, 192, 168, 1, 50, 8, 8, 8, 8, 1, 2, 3]]"
    using w' f unfolding r by (auto simp: mac0_def)
  moreover have "\<exists>w'. ip4_output 16 None 0x0901A8C0 255 0 1 (host0 [1, 2, 3]) = Some (ERR_OK, w') \<and> ip_id w' = 8"
    using ip4_output_sends [OF h0(3,1,4-9) host0_arp, of None 255 0 1] by auto
  ultimately show ?thesis by blast
qed

end
