(* ===== verification/Pbuf_Headers.thy ===== *)
theory Pbuf_Headers
  imports Ip4_Header
begin

text \<open>
  Moving the start of a received packet over its headers, forward when it goes up the stack and back when it is turned into
  an answer, and the checksum over the chain.
\<close>

section \<open>Moving over headers\<close>

definition shrunk :: "nat \<Rightarrow> pbuf \<Rightarrow> pbuf" where
  "shrunk k b = b\<lparr>payload := payload b + k, plen := plen b - of_nat k, ptot := ptot b - of_nat k\<rparr>"

lemma shrunk_sel [simp]:
  "nxt (shrunk k b) = nxt b" "pref (shrunk k b) = pref b" "type_internal (shrunk k b) = type_internal b" "payload (shrunk k b) = payload b + k"
  "source_of (shrunk k b) = source_of b"
  by (simp_all add: shrunk_def source_of_def pbuf_get_allocsrc_def)

lemma grown_shrunk [simp]: "grown k (shrunk k b) = b"
  by (simp add: grown_def shrunk_def)

lemma shrunk_grown: "k \<le> payload b \<Longrightarrow> shrunk k (grown k b) = b"
  by (simp add: grown_def shrunk_def)

lemma shrunk_len:
  assumes "k \<le> unat (plen b)" "unat (plen b) \<le> unat (ptot b)"
  shows "unat (plen (shrunk k b)) = unat (plen b) - k" "unat (ptot (shrunk k b)) = unat (ptot b) - k"
proof -
  have k: "unat (of_nat k :: u16) = k" using assms(1) unat_less_exp [of "plen b"] by (intro unat_of_nat_small) simp
  then show "unat (plen (shrunk k b)) = unat (plen b) - k" "unat (ptot (shrunk k b)) = unat (ptot b) - k"
    using assms by (simp_all add: shrunk_def unat_sub word_le_nat_alt)
qed

lemma pbuf_remove_header_ok:
  assumes "k \<le> unat (plen (pbufs w p))" "0 < k"
  shows "pbuf_remove_header p k w = (0, set_pbuf p (shrunk k) w)"
proof -
  have "k < 65536" using assms(1) unat_less_exp [of "plen (pbufs w p)"] by simp
  then have "unat (of_nat k :: u16) = k" by (intro unat_of_nat_small) simp
  then have "\<not> of_nat k > plen (pbufs w p)" using assms(1) by (simp add: word_less_nat_alt)
  moreover have "shrunk k = (\<lambda>b. b\<lparr>payload := payload b + k, plen := plen b - of_nat k, ptot := ptot b - of_nat k\<rparr>)"
    by (simp add: fun_eq_iff shrunk_def)
  ultimately show ?thesis using \<open>k < 65536\<close> assms(2) by (simp add: pbuf_remove_header_def Let_def)
qed

lemma set_pbuf_sel [simp]:
  "pbufs (set_pbuf p f w) = (pbufs w)(p := f (pbufs w p))" "ram_bytes (set_pbuf p f w) = ram_bytes w" "hp (set_pbuf p f w) = hp w" "pl (set_pbuf p f w) = pl w"
  "mem_ok (set_pbuf p f w) = mem_ok w" "tables (set_pbuf p f w) = tables w"
  by (simp_all add: set_pbuf_def mem_ok_def tables_def)

text \<open>A first pbuf that is moved within its block, or marked, still starts the same packet.\<close>

lemma received_move:
  assumes "received w p (p # qs)" "source_of (f (pbufs w p)) = source_of (pbufs w p)" "nxt (f (pbufs w p)) = nxt (pbufs w p)"
    "pref (f (pbufs w p)) = 1" "p + 16 \<le> payload (f (pbufs w p))"
    "payload (f (pbufs w p)) + unat (plen (f (pbufs w p))) = payload (pbufs w p) + unat (plen (pbufs w p))"
    "unat (ptot (f (pbufs w p))) + unat (plen (pbufs w p)) = unat (ptot (pbufs w p)) + unat (plen (f (pbufs w p)))"
  shows "received (set_pbuf p f w) p (p # qs)" "give_back (set_pbuf p f w) (p # qs) T = give_back w (p # qs) T"
proof -
  let ?v = "set_pbuf p f w"
  have pk: "packet w p (p # qs)" using assms(1) by (simp add: received_def)
  note notin = packet_not_head [OF pk]
  have same: "pbufs ?v a = pbufs w a" if "a \<in> set qs" for a using notin that by auto
  have n: "nxts ?v = nxts w" using assms(3) by (auto simp: fun_eq_iff)
  have "lens ?v qs = lens w qs" using same by (intro lens_cong) simp
  moreover have "tot_ok ?v qs = tot_ok w qs" by (intro tot_ok_cong same)
  moreover have "lseg (nxts ?v) (Some p) (p # qs)" unfolding n using pk by (simp add: packet_def)
  ultimately have "packet ?v p (p # qs)" using pk assms(7) by (simp add: packet_def)
  moreover have "placed ?v p"
    using assms(1,2,5,6) unfolding received_def placed_def by auto
  moreover have "placed ?v a" if "a \<in> set qs" for a
    using assms(1) same [OF that] that unfolding received_def placed_def by auto
  ultimately show "received ?v p (p # qs)" using assms(1,4) same by (simp add: received_def)
  show "give_back ?v (p # qs) T = give_back w (p # qs) T" using assms(2) same by (intro give_back_cong) (auto simp del: set_pbuf_sel(1) simp: set_pbuf_def)
qed

lemma received_shrunk:
  assumes "received w p (p # qs)" "k \<le> unat (plen (pbufs w p))"
  shows "received (set_pbuf p (shrunk k) w) p (p # qs)" "contents (set_pbuf p (shrunk k) w) (p # qs) = drop k (contents w (p # qs))"
    "give_back (set_pbuf p (shrunk k) w) (p # qs) T = give_back w (p # qs) T"
proof -
  have pk: "packet w p (p # qs)" "placed w p" "pref (pbufs w p) = 1" using assms(1) by (simp_all add: received_def)
  have le: "unat (plen (pbufs w p)) \<le> unat (ptot (pbufs w p))" using pk(1) by (simp add: packet_def)
  note l = shrunk_len [OF assms(2) le]
  have "p + 16 \<le> payload (pbufs w p)" using pk(2) by (auto simp: placed_def)
  then show "received (set_pbuf p (shrunk k) w) p (p # qs)" "give_back (set_pbuf p (shrunk k) w) (p # qs) T = give_back w (p # qs) T"
    using received_move [OF assms(1), of "shrunk k"] pk(3) l le assms(2) by (simp_all add: of_nat_diff)
  have "contents (set_pbuf p (shrunk k) w) qs = contents w qs"
    using packet_not_head [OF pk(1)] by (auto simp: contents_def seg_def intro!: arg_cong [where f = concat])
  moreover have "seg (set_pbuf p (shrunk k) w) p = drop k (seg w p)" using l by (simp add: seg_def)
  ultimately show "contents (set_pbuf p (shrunk k) w) (p # qs) = drop k (contents w (p # qs))" using assms(2) by (simp add: seg_def)
qed

lemma received_sendable:
  assumes "received w p (p # qs)" "mem_ok w" "layout_ok w" "type_internal (pbufs w p) AND 0x80 \<noteq> 0" "p + 16 + k \<le> payload (pbufs w p)"
    "k + lens w (p # qs) < 65536"
  shows "sendable w p qs k"
proof -
  let ?b = "pbufs w p"
  have pk: "packet w p (p # qs)" using assms(1) by (simp add: received_def)
  have pl: "placed w a" if "a \<in> set (p # qs)" for a using assms(1) that by (auto simp: received_def)
  have c: "tx_clear w p (payload ?b + unat (plen ?b))" "payload ?b < 4294967296" using placed_clear [OF pl assms(3,2), of p] by simp_all
  have "outside w qs (payload ?b - k) (payload ?b)" using received_outside [OF assms(1-3)] assms(5) by simp
  moreover have "tx_clear w (payload ?b - k) (payload ?b + unat (plen ?b))" using c(1) assms(5) by (auto simp: tx_clear_def)
  moreover have "outside w qs (tx_slot_addr 0 w) (tx_slot_addr 0 w + 4096)"
    unfolding outside_def
  proof
    fix a assume "a \<in> set qs"
    then have "placed w a" using pl by simp
    from placed_clear(1) [OF this assms(3,2)] this
    show "payload (pbufs w a) + unat (plen (pbufs w a)) \<le> tx_slot_addr 0 w \<or> tx_slot_addr 0 w + 4096 \<le> payload (pbufs w a)"
      by (auto simp: tx_clear_def placed_def)
  qed
  ultimately show ?thesis using assms(4-6) pk c(2) by (simp add: sendable_def)
qed

lemma segments_chain: "lseg (nxts w) p ps \<Longrightarrow> segments p w = Some (map (\<lambda>a. (of_nat (payload (pbufs w a)), seg w a)) ps)"
  by (induction ps arbitrary: p) (auto simp: segments.simps seg_def get_bytes_def)

lemma segments_chksum:
  assumes "packet w p ps"
  shows "\<exists>s. segments (Some p) w = Some s \<and> inet_chksum_pbuf s = lwip_htons (rfc1071_checksum (contents w ps))"
proof -
  let ?s = "map (\<lambda>a. (of_nat (payload (pbufs w a)) :: u32, seg w a)) ps"
  have "\<forall>(a, q) \<in> set ?s. length q \<le> 0x20000"
  proof -
    have "length (seg w a) \<le> 0x20000" for a using unat_less_exp [of "plen (pbufs w a)"] by (simp add: seg_def)
    then show ?thesis by auto
  qed
  moreover have "chain_bytes ?s = contents w ps" by (simp add: chain_bytes_def contents_def comp_def)
  ultimately show ?thesis using segments_chain [of w "Some p" ps] assms inet_chksum_pbuf_rfc1071 [of ?s] by (auto simp: packet_def)
qed

end
