(* ===== verification/Icmp_Echo.thy ===== *)
theory Icmp_Echo
  imports Pbuf_Headers
begin

text \<open>
  How an echo request is answered in place: \<^verbatim>\<open>icmp_input\<close> swaps the addresses, changes the type, repairs both checksums and sends
  the very buffer the request came in, and \<^verbatim>\<open>ip4_input\<close> leads there.
\<close>

section \<open>The bytes of the reply\<close>

definition reply_header :: "bytes \<Rightarrow> u32 \<Rightarrow> u32 \<Rightarrow> u16 \<Rightarrow> bytes" where
  "reply_header h src dest chk = take 8 h @ [ICMP_TTL, h ! 9] @ rev (le16_bytes chk) @ le_bytes src @ le_bytes dest @ drop 20 h"

text \<open>The header of the reply with its checksum filled in.\<close>

definition echo_header :: "bytes \<Rightarrow> u32 \<Rightarrow> u32 \<Rightarrow> bytes" where
  "echo_header h src dest = reply_header h src dest (rfc1071_checksum (reply_header h src dest 0))"

definition echo_reply :: "bytes \<Rightarrow> bytes" where
  "echo_reply m = [ICMP_ER, m ! 1] @ le16_bytes (adjust_chksum (le16 (m ! 2) (m ! 3))) @ drop 4 m"

lemma length_echo [simp]: "20 \<le> length h \<Longrightarrow> length (echo_header h src dest) = length h" "4 \<le> length m \<Longrightarrow> length (echo_reply m) = length m"
  by (simp_all add: echo_header_def reply_header_def echo_reply_def le16_bytes_def)

lemma echo_header_verifies:
  assumes "20 \<le> length h"
  shows "rfc1071_sum (echo_header h src dest) = 65535"
proof -
  let ?pre = "take 8 h @ [ICMP_TTL, h ! 9]" and ?post = "le_bytes src @ le_bytes dest @ drop 20 h"
  have z: "reply_header h src dest 0 = ?pre @ [0, 0] @ ?post" by (simp add: reply_header_def le16_bytes_def)
  show ?thesis
    using rfc1071_filled [of ?pre ?post] assms unfolding z [symmetric] htons_bytes by (simp add: echo_header_def reply_header_def)
qed

lemma adjust_chksum_oc: "oc (unat (adjust_chksum c)) (unat c + 8)"
proof -
  have e: "PP_HTONS (push_bit 8 (ucast ICMP_ECHO)) = 8" "PP_HTONS (0xffff - push_bit 8 (ucast ICMP_ECHO)) = 0xfff7"
    by (simp_all add: PP_HTONS_def ICMP_ECHO_def)
  have b: "unat c \<le> 65535" by (rule u16_le)
  show ?thesis
  proof (cases "c > 0xfff7")
    case True
    then have t: "65527 < unat c" by (simp add: word_less_nat_alt)
    have "adjust_chksum c = c + 9" using True by (simp add: adjust_chksum_def e)
    then have "unat (adjust_chksum c) = (unat c + 9) mod 65536" by (simp add: unat_word_ariths)
    also have "\<dots> = unat c + 8 - 65535" using t b by (simp add: mod_if)
    finally show ?thesis using t oc_oc_add [of "unat c" 8] by (simp add: oc_add_def)
  next
    case False
    then have "unat c \<le> 65527" by (simp add: word_less_nat_alt)
    then show ?thesis using False by (simp add: adjust_chksum_def e unat_word_ariths)
  qed
qed

lemma echo_reply_verifies:
  assumes "4 \<le> length m" "m ! 0 = ICMP_ECHO"
  shows "rfc1071_sum (echo_reply m) = rfc1071_sum m"
proof (rule rfc1071_eqI)
  have "m = take 4 m @ drop 4 m" by simp
  also have "take 4 m = [m ! 0, m ! 1, m ! 2, m ! 3]"
    using assms(1) by (intro nth_equalityI) (auto simp: less_Suc_eq numeral_eq_Suc)
  finally have m: "m = m ! 0 # m ! 1 # m ! 2 # m ! 3 # drop 4 m" by simp
  have "le_sum m = 8 + 256 * unat (m ! 1) + (unat (m ! 2) + 256 * unat (m ! 3)) + le_sum (drop 4 m)"
    using assms(2) by (subst m) (simp add: ICMP_ECHO_def del: drop_eq_Nil)
  then have "le_sum m = 256 * unat (m ! 1) + (unat (le16 (m ! 2) (m ! 3)) + 8 + le_sum (drop 4 m))"
    by (simp add: unat_le16)
  moreover have "le_sum (echo_reply m) = 256 * unat (m ! 1) + (unat (adjust_chksum (le16 (m ! 2) (m ! 3))) + le_sum (drop 4 m))"
    by (simp add: echo_reply_def ICMP_ER_def le_sum_le16)
  ultimately show "oc (le_sum (echo_reply m)) (le_sum m)"
    by (simp add: oc_add_mono adjust_chksum_oc)
qed

lemma splice_append2: "length xs \<le> k \<Longrightarrow> splice k bs (xs @ ys) = xs @ splice (k - length xs) bs ys"
  by (simp add: splice_def)

lemma splice_header:
  assumes "20 \<le> length h"
  shows "splice 10 (rev (le16_bytes c)) (splice 8 [ICMP_TTL] (splice 16 (le_bytes dest) (splice 12 (le_bytes src) h))) = reply_header h src dest c"
proof -
  have n: "take (Suc 0) (drop 9 h) = [h ! 9]" using assms by (simp add: take_Suc hd_drop_conv_nth)
  have "splice 16 (le_bytes dest) (splice 12 (le_bytes src) h) = take 12 h @ le_bytes src @ le_bytes dest @ drop 20 h"
    using assms by (simp add: splice_def)
  moreover have "splice 8 [ICMP_TTL] (take 12 h @ xs) = take 8 h @ ICMP_TTL # take 3 (drop 9 h) @ xs" for xs
    using assms by (simp add: splice_def drop_take)
  moreover have "splice 10 (rev (le16_bytes c)) (take 8 h @ ICMP_TTL # take 3 (drop 9 h) @ xs) = take 8 h @ [ICMP_TTL, h ! 9] @ rev (le16_bytes c) @ xs" for xs
    using assms n by (simp add: splice_def le16_bytes_def)
  ultimately show ?thesis by (simp add: reply_header_def)
qed

lemma splice_message:
  assumes "4 \<le> length m"
  shows "splice 2 (le16_bytes (adjust_chksum (le16 (m ! 2) (m ! 3)))) (splice 0 [ICMP_ER] m) = echo_reply m"
proof -
  have n: "take (Suc 0) (drop (Suc 0) m) = [m ! 1]" using assms by (simp add: take_Suc hd_drop_conv_nth)
  then show ?thesis using assms by (simp add: splice_def echo_reply_def le16_bytes_def drop_Cons' take_Cons')
qed

section \<open>Reading and writing the packet\<close>

lemma fetch_contents:
  assumes "k + n \<le> unat (plen (pbufs w p))"
  shows "fetch (ram_bytes w) (payload (pbufs w p) + k) n = take n (drop k (contents w (p # qs)))"
  using assms by (simp add: seg_def min_absorb1)

lemma byte_contents: "k < unat (plen (pbufs w p)) \<Longrightarrow> ram_bytes w (payload (pbufs w p) + k) = contents w (p # qs) ! k"
  by (simp add: seg_def nth_append)

lemma put_contents_at:
  assumes "received w p (p # qs)" "mem_ok w" "layout_ok w" "payload (pbufs w p) \<le> a" "a + length bs \<le> payload (pbufs w p) + unat (plen (pbufs w p))"
  shows "contents (put_bytes a bs w) (p # qs) = splice (a - payload (pbufs w p)) bs (contents w (p # qs))"
  using put_contents [OF assms(1-3), of "a - payload (pbufs w p)" bs] assms(4,5) by simp

section \<open>Answering\<close>

text \<open>The packet when its addresses, its type, its checksums and its time to live were changed.\<close>

definition turned_round :: "nat \<Rightarrow> nat \<Rightarrow> u32 \<Rightarrow> u32 \<Rightarrow> 'a mstate_scheme \<Rightarrow> 'a mstate_scheme" where
  "turned_round a hlen src dest w =
     (let w = put32 (a + src_off) src w;
          w = put32 (a + dest_off) dest w;
          w = put8 (a + hlen + icmp_type_off) ICMP_ER w;
          w = put16 (a + hlen + icmp_chksum_off) (adjust_chksum (get16 (a + hlen + icmp_chksum_off) w)) w;
          w = put8 (a + ttl_off) ICMP_TTL w;
          w = put16 (a + chksum_off) 0 w
      in put16 (a + chksum_off) (inet_chksum (of_nat a) (get_bytes a hlen w)) w)"

lemma length_reply_header: "20 \<le> length h \<Longrightarrow> length (reply_header h src dest c) = length h"
  by (simp add: reply_header_def le16_bytes_def)

lemma splice_twice: "k + length bs \<le> length xs \<Longrightarrow> length bs = length cs \<Longrightarrow> splice k cs (splice k bs xs) = splice k cs xs"
  by (simp add: splice_def)

lemma turned_round_contents:
  fixes w :: "'a dstate_scheme"
  assumes r: "received w p (p # qs)" "mem_ok w" "layout_ok w" and c: "contents w (p # qs) = h @ m" "length h = hlen" "20 \<le> hlen" "hlen + 4 \<le> unat (plen (pbufs w p))"
    and m: "4 \<le> length m"
  shows "contents (turned_round (payload (pbufs w p)) hlen src dest w) (p # qs) = echo_header h src dest @ echo_reply m"
proof -
  let ?a = "payload (pbufs w p)"
  define w2 where "w2 = put8 (?a + hlen + icmp_type_off) ICMP_ER (put32 (?a + dest_off) dest (put32 (?a + src_off) src w))"
  have l16: "length (le16_bytes v) = 2" for v by (simp add: le16_bytes_def)
  have w2: "contents w2 (p # qs) = splice 16 (le_bytes dest) (splice 12 (le_bytes src) h) @ splice 0 [ICMP_ER] m"
    using r c by (simp add: w2_def put32_def put8_def put_contents_at layout_simps splice_append1 splice_append2 del: contents_simps)
  have r2: "received w2 p (p # qs)" "mem_ok w2" "layout_ok w2" "pbufs w2 = pbufs w" using r by (simp_all add: w2_def put32_def put8_def)
  have g: "get16 (?a + hlen + icmp_chksum_off) w2 = le16 (m ! 2) (m ! 3)"
  proof -
    have "ram_bytes w2 (?a + hlen + k) = m ! k" if "2 \<le> k" "k < 4" for k
      using byte_contents [of "hlen + k" w2 p qs] that c(2-4) m r2(4) unfolding w2 by (simp add: nth_append add.assoc) (simp add: splice_def)
    from this [of 2] this [of 3] show ?thesis by (simp add: get16_def layout_simps eval_nat_numeral)
  qed
  define w3 where "w3 = put16 (?a + chksum_off) 0 (put8 (?a + ttl_off) ICMP_TTL
     (put16 (?a + hlen + icmp_chksum_off) (adjust_chksum (le16 (m ! 2) (m ! 3))) w2))"
  have z: "splice 10 (le16_bytes 0) xs = splice 10 (rev (le16_bytes 0)) xs" for xs by (simp add: le16_bytes_def)
  have w3: "contents w3 (p # qs) = reply_header h src dest 0 @ echo_reply m"
    using r2 c(2-4) m
    by (simp add: w3_def put16_def put8_def put_contents_at layout_simps w2 l16 splice_append1 splice_append2 splice_message del: contents_simps)
      (simp add: z splice_header)
  have r3: "received w3 p (p # qs)" "mem_ok w3" "layout_ok w3" "pbufs w3 = pbufs w" using r2 by (simp_all add: w3_def put16_def put8_def)
  have "get_bytes ?a hlen w3 = reply_header h src dest 0"
    using fetch_contents [of 0 hlen w3 p qs] c(2-4) r3(4) unfolding w3 by (simp add: get_bytes_def length_reply_header)
  then have "inet_chksum (of_nat ?a) (get_bytes ?a hlen w3) = lwip_htons (rfc1071_checksum (reply_header h src dest 0))"
    using c(2-4) unat_less_exp [of "plen (pbufs w p)"] by (simp add: inet_chksum_rfc1071 length_reply_header)
  moreover have "turned_round ?a hlen src dest w = put16 (?a + chksum_off) (inet_chksum (of_nat ?a) (get_bytes ?a hlen w3)) w3"
    by (simp add: turned_round_def Let_def w3_def g [symmetric]) (simp add: w2_def)
  moreover have "splice 10 (rev (le16_bytes v)) (reply_header h src dest 0) = reply_header h src dest v" for v
    using c(2,3) by (subst (1 2) splice_header [symmetric]) (simp_all add: splice_twice l16)
  ultimately show ?thesis
    using r3 c(2-4) by (simp add: put16_def htons_bytes put_contents_at w3 l16 layout_simps splice_append1 length_reply_header echo_header_def del: contents_simps)
qed

lemma turned_round_bytes:
  assumes "20 \<le> hlen"
  obtains b where "turned_round a hlen src dest w = w\<lparr>ram_bytes := b\<rparr>" "\<And>x. \<not> (a \<le> x \<and> x < a + hlen + 4) \<Longrightarrow> b x = ram_bytes w x"
proof
  show "turned_round a hlen src dest w = w\<lparr>ram_bytes := ram_bytes (turned_round a hlen src dest w)\<rparr>"
    by (simp add: turned_round_def Let_def put32_def put16_def put8_def put_bytes_def)
  show "ram_bytes (turned_round a hlen src dest w) x = ram_bytes w x" if "\<not> (a \<le> x \<and> x < a + hlen + 4)" for x
    using assms that by (auto simp: turned_round_def Let_def put32_def put16_def put8_def put_bytes_def store_def layout_simps le16_bytes_def)
qed

lemma ram_lower [simp]:
  fixes w :: "'a dstate_scheme"
  shows "received (w\<lparr>ram_bytes := b\<rparr>) p ps = received w p ps" "mem_ok (w\<lparr>ram_bytes := b\<rparr>) = mem_ok w" "layout_ok (w\<lparr>ram_bytes := b\<rparr>) = layout_ok w"
    "tx_alive (w\<lparr>ram_bytes := b\<rparr>) = tx_alive w" "lens (w\<lparr>ram_bytes := b\<rparr>) ps = lens w ps" "tables (w\<lparr>ram_bytes := b\<rparr>) = tables w"
    "tx_area (w\<lparr>ram_bytes := b\<rparr>) = tx_area w"
proof -
  have "packet (w\<lparr>ram_bytes := b\<rparr>) p ps = packet w p ps" using tot_ok_cong [of ps "w\<lparr>ram_bytes := b\<rparr>" w] by (simp add: packet_def)
  moreover have "tables (w\<lparr>ram_bytes := b\<rparr>) = tables w" by (simp add: tables_def)
  ultimately show "received (w\<lparr>ram_bytes := b\<rparr>) p ps = received w p ps" by (simp add: received_def placed_def)
qed (simp_all add: mem_ok_def layout_ok_def slots_apart_def tx_alive_def lens_def tables_def tx_area_def tx_slot_addr_def fun_eq_iff)

lemma set_pbuf_driver [simp]:
  fixes w :: "'a dstate_scheme"
  shows "netifs (set_pbuf p f w) = netifs w" "mac (set_pbuf p f w) = mac w" "txslot (set_pbuf p f w) = txslot w" "layout_ok (set_pbuf p f w) = layout_ok w"
    "tx_alive (set_pbuf p f w) = tx_alive w" "dstate.more (set_pbuf p f w) = dstate.more w"
  by (simp_all add: set_pbuf_def layout_ok_def slots_apart_def tx_alive_def)

lemma put_ip [simp]:
  fixes w :: "'a istate_scheme"
  shows "ip_data (put_bytes a bs w) = ip_data w" "ip_data (put32 a x w) = ip_data w" "ip_data (set_pbuf p f w) = ip_data w"
  by (simp_all add: put_bytes_def put32_def set_pbuf_def)

lemma send_echo_reply_spec:
  fixes w :: "'a istate_scheme"
  assumes ok: "mem_ok w" "layout_ok w" "tx_alive w" and n: "eth_netif (netifs w n)" "nif_output (netifs w n) = Etharp_output"
    and r: "received w p (p # qs)" "type_internal (pbufs w p) AND 0x80 \<noteq> 0" "p + 30 \<le> payload (pbufs w p)" "lens w (p # qs) + 14 \<le> 2048"
    and c: "contents w (p # qs) = h @ m" "length h = hlen" "20 \<le> hlen" "hlen + 4 \<le> unat (plen (pbufs w p))"
    and arp: "arp_inv w" "resolved w n (current_iphdr_src (ip_data w)) ea"
  shows "\<exists>i<ARP_TABLE_SIZE. \<exists>w'. send_echo_reply p hlen src n (set_pbuf p (shrunk hlen) w) = Some w' \<and>
    pbufs w' = (pbufs w)(p := grown 14 (pbufs w p)) \<and>
    went_out (\<lambda>x. payload (pbufs w p) - 14 \<le> x \<and> x < payload (pbufs w p) + unat (plen (pbufs w p)))
      (eth_frame ea (hwaddr (netifs w n)) ETHTYPE_IP (echo_header h src (current_iphdr_src (ip_data w)) @ echo_reply m))
      (w\<lparr>etharp_cached_entry := i\<rparr>) w'"
proof -
  let ?a = "payload (pbufs w p)" and ?d = "current_iphdr_src (ip_data w)"
  have pk: "packet w p (p # qs)" "pref (pbufs w p) = 1" "placed w p" using r(1) by (simp_all add: received_def)
  have m: "4 \<le> length m"
  proof -
    have "hlen + length m = lens w (p # qs)" using arg_cong [OF c(1), of length] c(2) by (simp only: length_contents length_append)
    then show ?thesis using c(4) by simp
  qed
  define t where "t = turned_round ?a hlen src ?d w"
  obtain b where b: "t = w\<lparr>ram_bytes := b\<rparr>" "\<And>x. \<not> (?a \<le> x \<and> x < ?a + hlen + 4) \<Longrightarrow> b x = ram_bytes w x"
    using turned_round_bytes [OF c(3), of ?a src ?d w] unfolding t_def by blast
  have ct: "contents t (p # qs) = echo_header h src ?d @ echo_reply m"
    unfolding t_def using turned_round_contents [OF r(1) ok(1,2) c m] .
  have v: "unat (ptot (shrunk hlen (pbufs w p))) = unat (ptot (pbufs w p)) - hlen" "hlen \<le> unat (ptot (pbufs w p))"
    using shrunk_len [of hlen "pbufs w p"] c(4) pk(1) by (simp_all add: packet_def)
  have small: "?a + hlen < 4294967296" "unat (ptot (pbufs w p)) < 65536"
    using placed_clear(2) [of "set_pbuf p (shrunk hlen) w" p] received_shrunk(1) [OF r(1), of hlen] ok(1,2) c(4) unat_less_exp [of "ptot (pbufs w p)"]
    by (simp_all add: received_def)
  have undo: "set_pbuf p (grown hlen) (set_pbuf p (shrunk hlen) w) = w" by (simp add: set_pbuf_def)
  have "pbuf_add_header p hlen (set_pbuf p (shrunk hlen) w) = (0, w)"
    using pbuf_add_header_ok [of "set_pbuf p (shrunk hlen) w" p hlen] r(2,3) c(3) v small unfolding undo by simp
  then have "send_echo_reply p hlen src n (set_pbuf p (shrunk hlen) w) = Option.bind (ip4_output_if p (Some src) None ICMP_TTL 0 IP_PROTO_ICMP n t) (\<lambda>(_, w). Some w)"
    by (simp add: send_echo_reply_def t_def turned_round_def Let_def) 
  also have "ip4_output_if p (Some src) None ICMP_TTL 0 IP_PROTO_ICMP n t = etharp_output n p ?d t"
  proof -
    have "fetch (ram_bytes t) (?a + 16) 4 = take 4 (drop 16 (contents t (p # qs)))"
      using fetch_contents [of 16 4 t p qs] c(3,4) b(1) by simp
    also have "\<dots> = le_bytes ?d" using c(2,3) unfolding ct by (simp add: echo_header_def reply_header_def le16_bytes_def)
    finally have "get32 (?a + dest_off) t = ?d" by (intro get32_bytes) (simp add: layout_simps)
    then show ?thesis using pk(2) n(2) c(3,4) by (simp add: ip4_output_if_def ip4_output_if_src_def netif_output_def layout_simps b(1))
  qed
  finally have e: "send_echo_reply p hlen src n (set_pbuf p (shrunk hlen) w) = Option.bind (etharp_output n p ?d t) (\<lambda>(_, w). Some w)" .
  have "arp_inv t" "resolved t n ?d ea" using arp by (simp_all add: b(1) arp_inv_def resolved_def arp_def ip4_addr_isbroadcast_def)
  from etharp_output_resolved [OF this, of p] obtain i where i: "i < ARP_TABLE_SIZE"
    "etharp_output n p ?d t = ethernet_output n p (hwaddr (netifs w n)) ea ETHTYPE_IP (t\<lparr>etharp_cached_entry := i\<rparr>)" by (auto simp: b(1))
  let ?t = "t\<lparr>etharp_cached_entry := i\<rparr>"
  have t: "sendable ?t p qs 14" "tx_alive ?t" "eth_netif (netifs ?t n)" "lens ?t (p # qs) + 14 \<le> 2048" "length ea = 6" "length (hwaddr (netifs w n)) = 6"
    using received_sendable [of ?t p qs 14] r ok n(1) resolved_length [OF arp] by (simp_all add: b(1) eth_netif_def layout_simps del: lens_simps)
  from ethernet_output_spec [OF t, of ETHTYPE_IP] obtain w' where w': "ethernet_output n p (hwaddr (netifs w n)) ea ETHTYPE_IP ?t = Some (ERR_OK, w')"
    "pbufs w' = (pbufs ?t)(p := grown 14 (pbufs ?t p))"
    "went_out (\<lambda>x. payload (pbufs ?t p) - 14 \<le> x \<and> x < payload (pbufs ?t p)) (eth_frame ea (hwaddr (netifs w n)) ETHTYPE_IP (contents ?t (p # qs))) ?t w'"
    by blast
  have "ram_bytes w' x = ram_bytes w x" if "\<not> tx_area w x" "\<not> (?a - 14 \<le> x \<and> x < ?a + unat (plen (pbufs w p)))" for x
  proof -
    have "ram_bytes w' x = ram_bytes ?t x" using w'(3) that by (auto simp: went_out_def b(1))
    moreover have "\<not> (?a \<le> x \<and> x < ?a + hlen + 4)" using that(2) c(4) by linarith
    ultimately show ?thesis using b by simp
  qed
  moreover have "dstate.more ?t = dstate.more (w\<lparr>etharp_cached_entry := i\<rparr>)" unfolding b(1) by (cases w) simp
  ultimately have "went_out (\<lambda>x. ?a - 14 \<le> x \<and> x < ?a + unat (plen (pbufs w p))) (eth_frame ea (hwaddr (netifs w n)) ETHTYPE_IP (contents t (p # qs)))
      (w\<lparr>etharp_cached_entry := i\<rparr>) w'"
    using w'(3) by (simp add: went_out_def b(1) del: contents_simps)
  then show ?thesis using i(1) w'(1,2) e i(2) unfolding ct by (auto simp: b(1))
qed

lemma received_pbufs:
  assumes "pbufs w = pbufs w'" "hp w = hp w'" "pl w = pl w'"
  shows "received w p ps = received w' p ps" "give_back w ps T = give_back w' ps T" "mem_ok w = mem_ok w'" "tables w = tables w'"
proof -
  have t: "tables w = tables w'" by (simp add: tables_def assms)
  have "tot_ok w ps = tot_ok w' ps" by (rule tot_ok_cong) (simp add: assms)
  then show "received w p ps = received w' p ps" by (simp add: received_def packet_def placed_def t assms)
  show "give_back w ps T = give_back w' ps T" by (rule give_back_cong) (simp add: assms)
  show "mem_ok w = mem_ok w'" by (simp add: mem_ok_def assms)
  show "tables w = tables w'" by (rule t)
qed

text \<open>Freeing a packet that was just sent.\<close>

lemma free_sent:
  fixes w :: "'a istate_scheme"
  assumes "received w p (p # qs)" "mem_ok w" "p + 30 \<le> payload (pbufs w p)" "lens w (p # qs) + 14 \<le> 2048"
    and s: "pbufs w1 = (pbufs w)(p := grown 14 (pbufs w p))" "went_out H f (w\<lparr>etharp_cached_entry := i\<rparr>) w1"
  shows "\<exists>w'. free_packet p w1 = Some w' \<and> mem_ok w' \<and> tables w' = give_back w (p # qs) (tables w) \<and>
    sent (mac w') = sent (mac w) @ [(txslot w, f)] \<and> tx_alive w' \<and> fixed w' = fixed (w\<lparr>etharp_cached_entry := i\<rparr>)"
proof -
  let ?g = "set_pbuf p (grown 14) w"
  have pk: "packet w p (p # qs)" "pref (pbufs w p) = 1" using assms(1) by (simp_all add: received_def)
  have tot: "unat (ptot (pbufs w p)) \<le> 2034" using packet_total [OF pk(1)] assms(4) by simp
  then have g: "unat (plen (grown 14 (pbufs w p))) = unat (plen (pbufs w p)) + 14" "unat (ptot (grown 14 (pbufs w p))) = unat (ptot (pbufs w p)) + 14"
    using assms(4) by (simp_all add: grown_def unat_word_ariths)
  have r: "received ?g p (p # qs)" "give_back ?g (p # qs) T = give_back w (p # qs) T" for T
    using received_move [OF assms(1), of "grown 14"] pk(2) g assms(3) by simp_all
  have same: "pbufs w1 = pbufs ?g" "hp w1 = hp ?g" "pl w1 = pl ?g" using s by (simp_all add: went_out_def)
  note c = received_pbufs [OF same]
  obtain w' where w': "free_packet p w1 = Some w'" "mem_ok w'" "tables w' = give_back w1 (p # qs) (tables w1)"
    using received_free [of w1 p "p # qs"] r(1) assms(2) unfolding c by auto
  have st: "static w' = static w1" using free_packet_static [OF w'(1)] .
  have "fixed w' = fixed w1" "mac w' = mac w1" using static_driver [OF st] by simp_all
  moreover have "fixed w1 = fixed (w\<lparr>etharp_cached_entry := i\<rparr>)" using s(2) by (simp add: fixed_def went_out_def)
  moreover have "tx_alive w1" using s(2) by (simp add: went_out_def)
  then have "tx_alive w'" using static_driver(2,3) [OF st] by (simp add: tx_alive_def)
  ultimately show ?thesis using w' s(2) r(2) unfolding c by (intro exI [of _ w']) (simp add: went_out_def)
qed

lemma room_for_link_there:
  assumes "type_internal (pbufs w p) AND 0x80 \<noteq> 0" "p + 16 + (k + 14) \<le> payload (pbufs w p)" "payload (pbufs w p) < 4294967296"
    "unat (plen (pbufs w p)) \<le> unat (ptot (pbufs w p))" "unat (ptot (pbufs w p)) + (k + 14) < 65536"
  shows "room_for_link p a k w = Some (Some p, w)"
proof -
  let ?g = "set_pbuf p (grown (k + 14)) w"
  have add: "pbuf_add_header p (k + 14) w = (0, ?g)" using assms by (intro pbuf_add_header_ok) simp_all
  have kk: "unat (of_nat (k + 14) :: u16) = k + 14" using assms(5) by (intro unat_of_nat_small) simp
  then have "unat (plen (grown (k + 14) (pbufs w p))) = unat (plen (pbufs w p)) + (k + 14)"
    using assms(4,5) unfolding grown_def by (simp add: unat_word_ariths)
  then have "pbuf_remove_header p (k + 14) ?g = (0, set_pbuf p (shrunk (k + 14)) ?g)" by (intro pbuf_remove_header_ok) simp_all
  moreover have "set_pbuf p (shrunk (k + 14)) ?g = w" using assms(2) shrunk_grown [of "k + 14" "pbufs w p"] by (simp add: set_pbuf_def)
  ultimately show ?thesis using add by (simp add: room_for_link_def layout_simps)
qed

lemma icmp_input_echo:
  fixes w :: "'a istate_scheme"
  assumes ok: "mem_ok w" "layout_ok w" "tx_alive w" and n: "eth_netif (netifs w n)" "nif_output (netifs w n) = Etharp_output"
    and r: "received w p (p # qs)" "type_internal (pbufs w p) AND 0x80 \<noteq> 0" "p + 30 \<le> payload (pbufs w p)" "lens w (p # qs) + 14 \<le> 2048"
    and c: "contents w (p # qs) = h @ m" "length h = hlen" "20 \<le> hlen" "hlen + 4 \<le> unat (plen (pbufs w p))"
    and arp: "arp_inv w" "resolved w n (current_iphdr_src (ip_data w)) ea"
    and d: "current_ip4_header (ip_data w) = Some (payload (pbufs w p))" "unat (IPH_HL_BYTES (payload (pbufs w p)) w) = hlen"
      "current_netif (ip_data w) = Some k" "\<not> ip4_addr_ismulticast (current_iphdr_dest (ip_data w))"
      "\<not> ip4_addr_isbroadcast (current_iphdr_dest (ip_data w)) k w"
    and m: "m ! 0 = ICMP_ECHO" "8 \<le> length m" "rfc1071_sum m = 65535"
  shows "\<exists>i<ARP_TABLE_SIZE. \<exists>w'. icmp_input p n (set_pbuf p (shrunk hlen) w) = Some w' \<and> mem_ok w' \<and> tables w' = give_back w (p # qs) (tables w) \<and>
    sent (mac w') = sent (mac w) @ [(txslot w, eth_frame ea (hwaddr (netifs w n)) ETHTYPE_IP
      (echo_header h (current_iphdr_dest (ip_data w)) (current_iphdr_src (ip_data w)) @ echo_reply m))] \<and>
    tx_alive w' \<and> fixed w' = fixed (w\<lparr>etharp_cached_entry := i\<rparr>)"
proof -
  let ?a = "payload (pbufs w p)" and ?v = "set_pbuf p (shrunk hlen) w" and ?src = "current_iphdr_dest (ip_data w)"
  have pk: "packet w p (p # qs)" using r(1) by (simp add: received_def)
  have tot: "unat (ptot (pbufs w p)) = lens w (p # qs)" "unat (plen (pbufs w p)) \<le> unat (ptot (pbufs w p))"
    using packet_total [OF pk] by simp_all
  have lm: "hlen + length m = lens w (p # qs)" using arg_cong [OF c(1), of length] c(2) by (simp only: length_contents length_append)
  have hl: "hlen \<le> unat (plen (pbufs w p))" using c(4) by simp
  note v = received_shrunk [OF r(1) hl] shrunk_len [OF hl tot(2)]
  have cv: "contents ?v (p # qs) = m" unfolding v(2) c(1) using c(2) by simp
  obtain s where s: "segments (Some p) ?v = Some s" "inet_chksum_pbuf s = 0"
    using segments_chksum [of ?v p "p # qs"] v(1) m(3) checksum_zero unfolding cv by (auto simp: received_def)
  have g: "get8 (payload (pbufs ?v p)) ?v = ICMP_ECHO"
    using byte_contents [of hlen w p qs] c(1,2,4) m(1,2) by (simp add: get8_def nth_append del: contents_simps)
  have small: "payload (pbufs ?v p) < 4294967296"
    using placed_clear(2) [of ?v p] v(1) ok(1,2) by (simp add: received_def)
  have room: "room_for_link p ?a hlen ?v = Some (Some p, ?v)"
    using r(2-4) v(4,5) tot lm small by (intro room_for_link_there) auto
  obtain i w1 where i: "i < ARP_TABLE_SIZE" "send_echo_reply p hlen ?src n ?v = Some w1" "pbufs w1 = (pbufs w)(p := grown 14 (pbufs w p))"
    "went_out (\<lambda>x. ?a - 14 \<le> x \<and> x < ?a + unat (plen (pbufs w p))) (eth_frame ea (hwaddr (netifs w n)) ETHTYPE_IP
      (echo_header h ?src (current_iphdr_src (ip_data w)) @ echo_reply m)) (w\<lparr>etharp_cached_entry := i\<rparr>) w1"
    using send_echo_reply_spec [OF ok n r c arp, of ?src] by blast
  have "icmp_input p n ?v = free_packet p w1"
  proof -
    have "IPH_HL_BYTES ?a ?v = IPH_HL_BYTES ?a w" by (simp add: IPH_HL_BYTES_def get8_def)
    moreover have "\<not> unat (plen (pbufs ?v p)) < 4" "\<not> unat (ptot (pbufs ?v p)) < 8" using v(4,5) c(4) tot lm m(2) by simp_all
    moreover have "ip4_addr_isbroadcast ?src k ?v = ip4_addr_isbroadcast ?src k w" by (simp add: ip4_addr_isbroadcast_def)
    ultimately show ?thesis
      using d c(3) g s room i(2) by (simp add: icmp_input_def Let_def layout_simps)
  qed
  then show ?thesis using free_sent [OF r(1) ok(1) r(3,4) i(3,4)] i(1) by auto
qed

section \<open>From the IP header up\<close>

text \<open>An echo request: the IP header \<open>h\<close>, options included, and the ICMP message \<open>m\<close>, both with valid checksums.\<close>

definition echo_request :: "bytes \<Rightarrow> bytes \<Rightarrow> u32 \<Rightarrow> u32 \<Rightarrow> bool" where
  "echo_request h m src dest \<longleftrightarrow>
     20 \<le> length h \<and> drop_bit 4 (h ! 0) = 4 \<and> unat ((h ! 0 AND 0x0f) * 4) = length h \<and> length h + length m < 65536 \<and>
     le16 (h ! 2) (h ! 3) = lwip_htons (of_nat (length h + length m)) \<and> le16 (h ! 6) (h ! 7) AND PP_HTONS (IP_OFFMASK OR IP_MF) = 0 \<and>
     h ! 9 = IP_PROTO_ICMP \<and> take 4 (drop 12 h) = le_bytes src \<and> take 4 (drop 16 h) = le_bytes dest \<and> rfc1071_sum h = 65535 \<and>
     m ! 0 = ICMP_ECHO \<and> 8 \<le> length m \<and> rfc1071_sum m = 65535"

text \<open>What the IP layer reads from the header of a packet.\<close>

lemma header_fields:
  assumes "contents w (p # qs) = h @ m" "length h \<le> unat (plen (pbufs w p))" "20 \<le> length h"
  shows "k < length h \<Longrightarrow> get8 (payload (pbufs w p) + k) w = h ! k"
    "k + 1 < length h \<Longrightarrow> get16 (payload (pbufs w p) + k) w = le16 (h ! k) (h ! (k + 1))"
    "k + 4 \<le> length h \<Longrightarrow> take 4 (drop k h) = le_bytes v \<Longrightarrow> get32 (payload (pbufs w p) + k) w = v"
    "get_bytes (payload (pbufs w p)) (length h) w = h"
proof -
  have b: "ram_bytes w (payload (pbufs w p) + k) = h ! k" if "k < length h" for k
    using byte_contents [of k w p qs] that assms by (simp add: nth_append del: contents_simps)
  show "k < length h \<Longrightarrow> get8 (payload (pbufs w p) + k) w = h ! k" by (simp add: get8_def b)
  show "k + 1 < length h \<Longrightarrow> get16 (payload (pbufs w p) + k) w = le16 (h ! k) (h ! (k + 1))"
    using b [of k] b [of "k + 1"] by (simp add: get16_def)
  show "get32 (payload (pbufs w p) + k) w = v" if "k + 4 \<le> length h" "take 4 (drop k h) = le_bytes v"
    using fetch_contents [of k 4 w p qs] that assms by (intro get32_bytes) (simp del: contents_simps)
  show "get_bytes (payload (pbufs w p)) (length h) w = h"
    using fetch_contents [of 0 "length h" w p qs] assms by (simp add: get_bytes_def del: contents_simps)
qed

definition no_packet :: ip_globals where
  "no_packet = \<lparr>current_netif = None, current_input_netif = None, current_ip4_header = None, current_ip_header_tot_len = 0,
     current_iphdr_src = IPADDR_ANY, current_iphdr_dest = IPADDR_ANY\<rparr>"

lemma resolved_irrelevant [simp]:
  fixes w :: "'a istate_scheme"
  shows "resolved (w\<lparr>ip_data := d\<rparr>) n ip ea = resolved w n ip ea" "arp_inv (w\<lparr>ip_data := d\<rparr>) = arp_inv w"
    "IPH_HL_BYTES a (w\<lparr>ip_data := d\<rparr>) = IPH_HL_BYTES a w"
  by (simp_all add: resolved_def arp_inv_def arp_def IPH_HL_BYTES_def)

lemma set_all_globals:
  "d\<lparr>current_iphdr_dest := v, current_iphdr_src := u, current_netif := a, current_input_netif := b, current_ip4_header := c, current_ip_header_tot_len := x\<rparr> =
     \<lparr>current_netif = a, current_input_netif = b, current_ip4_header = c, current_ip_header_tot_len = x, current_iphdr_src = u, current_iphdr_dest = v\<rparr>"
  "d\<lparr>current_netif := a, current_input_netif := b, current_ip4_header := c, current_ip_header_tot_len := x, current_iphdr_src := u, current_iphdr_dest := v\<rparr> =
     \<lparr>current_netif = a, current_input_netif = b, current_ip4_header = c, current_ip_header_tot_len = x, current_iphdr_src = u, current_iphdr_dest = v\<rparr>"
  by (cases d; simp)+

lemma fixed_ip_data: "fixed w = fixed w' \<Longrightarrow> fixed (w\<lparr>ip_data := d\<rparr>) = fixed (w'\<lparr>ip_data := d\<rparr>)"
  for w w' :: "'a istate_scheme"
  by (cases w; cases w') (simp add: fixed_def)

lemma ip4_input_echo:
  fixes w :: "'a istate_scheme"
  assumes ok: "mem_ok w" "layout_ok w" "tx_alive w" and n: "eth_netif (netifs w n)" "nif_output (netifs w n) = Etharp_output" "netif_is_up (netifs w n)"
    and r: "received w p (p # qs)" "type_internal (pbufs w p) AND 0x80 \<noteq> 0" "p + 30 \<le> payload (pbufs w p)" "lens w (p # qs) + 14 \<le> 2048"
    and c: "contents w (p # qs) = h @ m" "length h + 4 \<le> unat (plen (pbufs w p))" "echo_request h m src (ip_addr (netifs w n))"
    and u: "unicast w n src" "unicast w n (ip_addr (netifs w n))"
    and arp: "arp_inv w" "resolved w n src ea"
  shows "\<exists>i<ARP_TABLE_SIZE. \<exists>w'. ip4_input tcp_input p n w = Some (ERR_OK, w') \<and> mem_ok w' \<and> tables w' = give_back w (p # qs) (tables w) \<and>
    sent (mac w') = sent (mac w) @ [(txslot w, eth_frame ea (hwaddr (netifs w n)) ETHTYPE_IP
      (echo_header h (ip_addr (netifs w n)) src @ echo_reply m))] \<and>
    tx_alive w' \<and> fixed w' = fixed (w\<lparr>etharp_cached_entry := i, ip_data := no_packet\<rparr>)"
proof -
  let ?a = "payload (pbufs w p)" and ?n = "netifs w n" and ?dest = "ip_addr (netifs w n)"
  have q: "20 \<le> length h" "drop_bit 4 (h ! 0) = 4" "unat ((h ! 0 AND 0x0f) * 4) = length h" "length h + length m < 65536"
    "le16 (h ! 2) (h ! 3) = lwip_htons (of_nat (length h + length m))" "le16 (h ! 6) (h ! 7) AND PP_HTONS (IP_OFFMASK OR IP_MF) = 0"
    "h ! 9 = IP_PROTO_ICMP" "take 4 (drop 12 h) = le_bytes src" "take 4 (drop 16 h) = le_bytes ?dest" "rfc1071_sum h = 65535"
    "m ! 0 = ICMP_ECHO" "8 \<le> length m" "rfc1071_sum m = 65535"
    using c(3) by (simp_all add: echo_request_def)
  have pk: "packet w p (p # qs)" using r(1) by (simp add: received_def)
  have hl: "length h \<le> unat (plen (pbufs w p))" using c(2) by simp
  note f = header_fields [OF c(1) hl q(1)]
  have ne: "0 < length h" using q(1) by linarith
  have g: "get8 ?a w = h ! 0" "get8 (?a + 9) w = h ! 9" "get16 (?a + 2) w = lwip_htons (of_nat (length h + length m))"
    "get16 (?a + 6) w = le16 (h ! 6) (h ! 7)" "get32 (?a + 12) w = src" "get32 (?a + 16) w = ?dest"
    using f(1) [OF ne] f(1) [of 9] f(2) [of 2] f(2) [of 6] f(3) [OF _ q(8)] f(3) [OF _ q(9)] q(1,5) by auto
  have len: "lens w (p # qs) = length h + length m" using arg_cong [OF c(1), of length] by (simp only: length_contents length_append)
  have tot: "ptot (pbufs w p) = of_nat (length h + length m)"
    using arg_cong [OF packet_total [OF pk], of "of_nat :: nat \<Rightarrow> u16"] unfolding len by simp
  have v: "IPH_V ?a w = 4" "IPH_HL_BYTES ?a w = (h ! 0 AND 0x0f) * 4" using g(1) q(2) by (simp_all add: IPH_V_def IPH_HL_BYTES_def layout_simps)
  have ck: "inet_chksum (of_nat ?a) (get_bytes ?a (length h) w) = 0"
    using f(4) q(4,10) by (simp add: inet_chksum_rfc1071 checksum_zero)
  define D where "D = \<lparr>current_netif = Some n, current_input_netif = Some n, current_ip4_header = Some ?a,
     current_ip_header_tot_len = ucast (IPH_HL_BYTES ?a w), current_iphdr_src = src, current_iphdr_dest = ?dest\<rparr>"
  let ?w = "w\<lparr>ip_data := D\<rparr>"
  have "\<exists>i<ARP_TABLE_SIZE. \<exists>w'. icmp_input p n (set_pbuf p (shrunk (length h)) ?w) = Some w' \<and> mem_ok w' \<and> tables w' = give_back ?w (p # qs) (tables ?w) \<and>
    sent (mac w') = sent (mac ?w) @ [(txslot ?w, eth_frame ea (hwaddr (netifs ?w n)) ETHTYPE_IP
      (echo_header h (current_iphdr_dest (ip_data ?w)) (current_iphdr_src (ip_data ?w)) @ echo_reply m))] \<and>
    tx_alive w' \<and> fixed w' = fixed (?w\<lparr>etharp_cached_entry := i\<rparr>)"
    using ok n r c(1,2) q arp u v g(1)
    by (intro icmp_input_echo [where k = n and hlen = "length h"]) (simp_all add: D_def unicast_def IPH_HL_BYTES_def layout_simps del: lens_simps contents_simps)
  then obtain i w' where i: "i < ARP_TABLE_SIZE" "icmp_input p n (set_pbuf p (shrunk (length h)) ?w) = Some w'" "mem_ok w'" "tables w' = give_back w (p # qs) (tables w)"
    "sent (mac w') = sent (mac w) @ [(txslot w, eth_frame ea (hwaddr ?n) ETHTYPE_IP (echo_header h ?dest src @ echo_reply m))]"
    "tx_alive w'" "fixed w' = fixed (?w\<lparr>etharp_cached_entry := i\<rparr>)"
    by (auto simp: D_def)
  have "ip4_input tcp_input p n w = Some (ERR_OK, w'\<lparr>ip_data := no_packet\<rparr>)"
  proof -
    let ?u = "w\<lparr>ip_data := (ip_data w)\<lparr>current_iphdr_dest := ?dest, current_iphdr_src := src\<rparr>\<rparr>"
    have "find_netif n ?u = Some (Some n)" using n(3) u(2) by (simp add: find_netif_def ip4_input_accept_def unicast_def Let_def)
    moreover have "deliver tcp_input p n n ?a (length h) ?w = Some w'"
      using pbuf_remove_header_ok [OF _ ne, of ?w p] hl q(7) g(2) i(2) by (simp add: deliver_def Let_def layout_simps get8_def IP_PROTO_TCP_def IP_PROTO_ICMP_def)
    ultimately show ?thesis
      using v g tot ck q(1,3,4,6) hl u(1)
      by (simp add: ip4_input_def Let_def layout_simps set_ip_data_def unicast_def D_def no_packet_def set_all_globals)
  qed
  moreover have "fixed (w'\<lparr>ip_data := no_packet\<rparr>) = fixed (w\<lparr>etharp_cached_entry := i, ip_data := no_packet\<rparr>)"
    using fixed_ip_data [OF i(7), of no_packet] by simp
  ultimately show ?thesis using i(1,3-6) by auto
qed

end
