(* ===== verification/Ping.thy ===== *)
theory Ping
  imports Icmp_Echo
begin

text \<open>
  The way of an echo request through all layers: the receive interrupt's frame in the MAC's slot memory is copied into a
  packet buffer by the driver, \<^const>\<open>ethernet_input\<close> takes the Ethernet header off, \<^const>\<open>ip4_input\<close> trims the padding
  that short frames carry, \<^const>\<open>icmp_input\<close> turns the request into the reply in place, and the reply leaves through
  ARP and the driver. The sections follow that way backwards.
\<close>

section \<open>Trimming the padding of a frame\<close>

definition cut :: "u16 \<Rightarrow> pbuf \<Rightarrow> pbuf" where
  "cut n b = b\<lparr>plen := n, ptot := n, nxt := None\<rparr>"

lemma cut_sel [simp]:
  "payload (cut n b) = payload b" "plen (cut n b) = n" "ptot (cut n b) = n" "nxt (cut n b) = None" "pref (cut n b) = pref b"
  "type_internal (cut n b) = type_internal b" "source_of (cut n b) = source_of b"
  by (simp_all add: cut_def source_of_def pbuf_get_allocsrc_def)

lemma pbuf_realloc_single:
  assumes "received w p [p]" "type_internal (pbufs w p) = 0x82" "n < plen (pbufs w p)"
  shows "pbuf_realloc (Some p) n w = Some (set_pbuf p (cut n) w)" "received (set_pbuf p (cut n) w) p [p]"
    "contents (set_pbuf p (cut n) w) [p] = take (unat n) (contents w [p])" "give_back (set_pbuf p (cut n) w) [p] T = give_back w [p] T"
proof -
  have pk: "nxt (pbufs w p) = None" "ptot (pbufs w p) = plen (pbufs w p)" "placed w p" "pref (pbufs w p) = 1"
    using assms(1) by (auto simp: received_def packet_def word_unat_eq_iff)
  have n: "unat n \<le> unat (plen (pbufs w p))" using assms(3) by (simp add: word_less_nat_alt)
  have "realloc_skip p n (ptot (pbufs w p) - n) w = Some (p, n, w)"
    using less_not_sym [OF assms(3)] by (subst realloc_skip.simps) simp
  moreover have "pbuf_get_allocsrc (pbufs w p) \<noteq> PBUF_TYPE_ALLOC_SRC_MASK_STD_HEAP"
    using assms(2) by (simp add: pbuf_get_allocsrc_def pbuf_type_defs)
  moreover have "set_pbuf p (\<lambda>b. b\<lparr>nxt := None\<rparr>) (set_pbuf p (\<lambda>b. b\<lparr>plen := n, ptot := n\<rparr>) w) = set_pbuf p (cut n) w"
    by (simp add: set_pbuf_def cut_def)
  ultimately show "pbuf_realloc (Some p) n w = Some (set_pbuf p (cut n) w)"
    using assms(3) pk(1,2) by (simp add: pbuf_realloc_def)
  have "placed (set_pbuf p (cut n) w) p" using pk(3) n unfolding placed_def by fastforce
  then show "received (set_pbuf p (cut n) w) p [p]" using pk(4) by (simp add: received_def packet_def)
  show "contents (set_pbuf p (cut n) w) [p] = take (unat n) (contents w [p])" using n by (simp add: seg_def min_absorb1)
  show "give_back (set_pbuf p (cut n) w) [p] T = give_back w [p] T" by (intro give_back_cong) simp
qed

text \<open>A frame with padding behind the packet is handled as the frame without it.\<close>

lemma ip4_input_trim:
  assumes "IPH_V (payload (pbufs w p)) w = 4" "lwip_htons (get16 (payload (pbufs w p) + len_off) w) = n"
    "n < ptot (pbufs w p)" "pbuf_realloc (Some p) n w = Some w'" "ram_bytes w' = ram_bytes w" "payload (pbufs w' p) = payload (pbufs w p)"
    "ptot (pbufs w' p) = n"
  shows "ip4_input tcp_input p inp w = ip4_input tcp_input p inp w'"
proof -
  have s: "IPH_V a w' = IPH_V a w" "IPH_HL_BYTES a w' = IPH_HL_BYTES a w" "get16 a w' = get16 a w" for a
    using assms(5) by (simp_all add: IPH_V_def IPH_HL_BYTES_def get8_def get16_def)
  show ?thesis unfolding ip4_input_def Let_def s assms(2,6,7) using assms(1,3,4) by simp
qed

section \<open>The Ethernet header\<close>

definition marked :: "u8 \<Rightarrow> u8 \<Rightarrow> pbuf \<Rightarrow> pbuf" where
  "marked i f b = b\<lparr>if_idx := i, pflags := f\<rparr>"

lemma marked_sel [simp]:
  "payload (marked i f b) = payload b" "plen (marked i f b) = plen b" "ptot (marked i f b) = ptot b" "nxt (marked i f b) = nxt b"
  "pref (marked i f b) = pref b" "type_internal (marked i f b) = type_internal b" "source_of (marked i f b) = source_of b"
  by (simp_all add: marked_def source_of_def pbuf_get_allocsrc_def)

lemma ethernet_input_ip:
  fixes w :: "'a istate_scheme"
  assumes "16 \<le> unat (plen (pbufs w p))" "take 2 (drop 12 (contents w (p # qs))) = [8, 0]" "netif_flags (netifs w n) AND NETIF_FLAG_ETHARP \<noteq> 0"
  shows "\<exists>i f. ethernet_input tcp_input p n w =
    Option.bind (ip4_input tcp_input p n (set_pbuf p (shrunk 14) (set_pbuf p (marked i f) w))) (\<lambda>(_, w). Some (ERR_OK, w))"
proof -
  let ?i = "if if_idx (pbufs w p) = 0 then netif_get_index (netifs w n) else if_idx (pbufs w p)"
  let ?f = "pflags (pbufs w p) OR link_flags (get_bytes (payload (pbufs w p)) 6 w)"
  have "fetch (ram_bytes w) (payload (pbufs w p) + 12) 2 = [8, 0]" using fetch_contents [of 12 2 w p qs] assms(1,2) by simp
  then have t: "get16 (payload (pbufs w p) + 12) w = PP_HTONS ETHTYPE_IP"
    by (intro get16_bytes) (simp add: le16_bytes_def PP_HTONS_def ETHTYPE_IP_def)
  define w1 where "w1 = (if if_idx (pbufs w p) = NETIF_NO_INDEX then set_pbuf p (\<lambda>b. b\<lparr>if_idx := netif_get_index (netifs w n)\<rparr>) w else w)"
  have w1: "pbufs w1 p = (pbufs w p)\<lparr>if_idx := ?i\<rparr>" "ram_bytes w1 = ram_bytes w" "netifs w1 = netifs w"
    by (simp_all add: w1_def NETIF_NO_INDEX_def)
  define w2 where "w2 = set_pbuf p (\<lambda>b. b\<lparr>pflags := pflags b OR link_flags (get_bytes (payload (pbufs w p)) 6 w)\<rparr>) w1"
  have w2: "w2 = set_pbuf p (marked ?i ?f) w" by (auto simp: w2_def w1_def set_pbuf_def marked_def NETIF_NO_INDEX_def)
  have nif: "netifs w2 = netifs w" by (simp add: w2)
  have rm: "pbuf_remove_header p 14 w2 = (0, set_pbuf p (shrunk 14) w2)" using assms(1) by (intro pbuf_remove_header_ok) (simp_all add: w2)
  have "ethernet_input tcp_input p n w = Option.bind (ip4_input tcp_input p n (set_pbuf p (shrunk 14) w2)) (\<lambda>(_, w). Some (ERR_OK, w))"
  proof -
    have "get16 a w1 = get16 a w" "get_bytes a k w1 = get_bytes a k w" for a k by (simp_all add: get16_def get_bytes_def w1)
    then show ?thesis
      using assms(1,3) t rm unfolding ethernet_input_def Let_def w1_def [symmetric]
      by (simp add: w1 layout_simps w2_def [symmetric] nif)
  qed
  then show ?thesis unfolding w2 by blast
qed

lemma fixed_upd: "fixed w = fixed w' \<Longrightarrow> fixed (w\<lparr>etharp_cached_entry := i, ip_data := d\<rparr>) = fixed (w'\<lparr>etharp_cached_entry := i, ip_data := d\<rparr>)"
  for w w' :: "'a istate_scheme"
  by (cases w; cases w') (simp add: fixed_def)

lemma set_pbuf_fixed [simp]: "fixed (set_pbuf p f w) = fixed w"
  by (simp add: fixed_def)

lemma set_pbuf_arp [simp]:
  fixes w :: "'a astate_scheme"
  shows "arp_inv (set_pbuf p f w) = arp_inv w" "resolved (set_pbuf p f w) n ip ea = resolved w n ip ea"
proof -
  have "arp_table (set_pbuf p f w) = arp_table w" "etharp_cached_entry (set_pbuf p f w) = etharp_cached_entry w" by (simp_all add: set_pbuf_def)
  then show "arp_inv (set_pbuf p f w) = arp_inv w" "resolved (set_pbuf p f w) n ip ea = resolved w n ip ea"
    by (simp_all add: arp_inv_def resolved_def arp_def ip4_addr_isbroadcast_def)
qed

lemma set_pbuf_unicast [simp]: "unicast (set_pbuf p f w) n ip = unicast w n ip"
  by (simp add: unicast_def ip4_addr_isbroadcast_def)

lemma received_marked:
  assumes "received w p (p # qs)"
  shows "received (set_pbuf p (marked i f) w) p (p # qs)" "contents (set_pbuf p (marked i f) w) (p # qs) = contents w (p # qs)"
    "give_back (set_pbuf p (marked i f) w) (p # qs) T = give_back w (p # qs) T"
proof -
  have "pref (pbufs w p) = 1" "p + 16 \<le> payload (pbufs w p)" using assms by (auto simp: received_def placed_def)
  then show "received (set_pbuf p (marked i f) w) p (p # qs)" "give_back (set_pbuf p (marked i f) w) (p # qs) T = give_back w (p # qs) T"
    using received_move [OF assms, of "marked i f"] by simp_all
  have "seg (set_pbuf p (marked i f) w) a = seg w a" for a by (simp add: seg_def)
  then show "contents (set_pbuf p (marked i f) w) (p # qs) = contents w (p # qs)" by (simp add: contents_def cong: map_cong)
qed

text \<open>The packet without padding behind it.\<close>

lemma trim_single:
  fixes w :: "'a istate_scheme"
  assumes r: "received w p [p]" "type_internal (pbufs w p) = 0x82" and c: "contents w [p] = h @ m @ pad" "echo_request h m src dest"
  shows "\<exists>f. let v = set_pbuf p f w in ip4_input tcp_input p n w = ip4_input tcp_input p n v \<and> received v p [p] \<and> contents v [p] = h @ m \<and>
    payload (f (pbufs w p)) = payload (pbufs w p) \<and> type_internal (f (pbufs w p)) = 0x82 \<and> (\<forall>T. give_back v [p] T = give_back w [p] T)"
proof (cases "pad = []")
  case True
  have "set_pbuf p (\<lambda>b. b) w = w" by (simp add: set_pbuf_def)
  then show ?thesis using True r c by (intro exI [of _ "\<lambda>b. b"]) (simp del: contents_simps)
next
  case False
  define n where "n = (of_nat (length h + length m) :: u16)"
  have q: "20 \<le> length h" "drop_bit 4 (h ! 0) = 4" "length h + length m < 65536" "le16 (h ! 2) (h ! 3) = lwip_htons n"
    using c(2) by (simp_all add: echo_request_def n_def)
  have un: "unat n = length h + length m" unfolding n_def using q(3) by (intro unat_of_nat_small) simp
  have pk: "ptot (pbufs w p) = plen (pbufs w p)" "unat (plen (pbufs w p)) = length h + length m + length pad"
    using r(1) arg_cong [OF c(1), of length] by (auto simp: received_def packet_def word_unat_eq_iff seg_def)
  have less: "n < plen (pbufs w p)" using False un pk(2) by (simp add: word_less_nat_alt)
  note t = pbuf_realloc_single [OF r less]
  have hl: "length h \<le> unat (plen (pbufs w p))" using pk(2) by simp
  have f: "get8 (payload (pbufs w p)) w = h ! 0" "get16 (payload (pbufs w p) + 2) w = le16 (h ! 2) (h ! 3)"
    using header_fields(1) [OF c(1) hl q(1), of 0] header_fields(2) [OF c(1) hl q(1), of 2] q(1) by fastforce+
  have "ip4_input tcp_input p k w = ip4_input tcp_input p k (set_pbuf p (cut n) w)" for k
    using f q(2,4) less pk(1) t(1) by (intro ip4_input_trim) (simp_all add: IPH_V_def layout_simps)
  then show ?thesis using t r(2) c(1) un by (intro exI [of _ "cut n"]) (simp add: Let_def del: contents_simps)
qed

lemma ethernet_input_echo:
  fixes w :: "'a istate_scheme"
  assumes ok: "mem_ok w" "layout_ok w" "tx_alive w"
    and n: "eth_netif (netifs w n)" "nif_output (netifs w n) = Etharp_output" "netif_is_up (netifs w n)" "netif_flags (netifs w n) AND NETIF_FLAG_ETHARP \<noteq> 0"
    and r: "received w p [p]" "type_internal (pbufs w p) = 0x82" "unat (plen (pbufs w p)) \<le> 1524"
    and c: "contents w [p] = e @ [8, 0] @ h @ m @ pad" "length e = 12" "echo_request h m src (ip_addr (netifs w n))"
    and u: "unicast w n src" "unicast w n (ip_addr (netifs w n))"
    and arp: "arp_inv w" "resolved w n src ea"
  shows "\<exists>i<ARP_TABLE_SIZE. \<exists>w'. ethernet_input tcp_input p n w = Some (ERR_OK, w') \<and> mem_ok w' \<and> tables w' = give_back w [p] (tables w) \<and>
    sent (mac w') = sent (mac w) @ [(txslot w, eth_frame ea (hwaddr (netifs w n)) ETHTYPE_IP
      (echo_header h (ip_addr (netifs w n)) src @ echo_reply m))] \<and>
    tx_alive w' \<and> fixed w' = fixed (w\<lparr>etharp_cached_entry := i, ip_data := no_packet\<rparr>)"
proof -
  have len: "unat (plen (pbufs w p)) = 14 + (length h + (length m + length pad))" using arg_cong [OF c(1), of length] c(2) by (simp add: seg_def)
  obtain x f where eth: "ethernet_input tcp_input p n w =
      Option.bind (ip4_input tcp_input p n (set_pbuf p (shrunk 14) (set_pbuf p (marked x f) w))) (\<lambda>(_, w). Some (ERR_OK, w))"
    using ethernet_input_ip [of w p "[]" n tcp_input] len c n(4) by (auto simp: echo_request_def simp del: contents_simps)
  define v where "v = set_pbuf p (shrunk 14) (set_pbuf p (marked x f) w)"
  note m1 = received_marked [OF r(1), of x f]
  have "14 \<le> unat (plen (pbufs (set_pbuf p (marked x f) w) p))" using len by simp
  note s1 = received_shrunk [OF m1(1) this]
  have v: "received v p [p]" "type_internal (pbufs v p) = 0x82" "contents v [p] = h @ m @ pad" "payload (pbufs v p) = payload (pbufs w p) + 14"
    using s1 m1(2) r(2) c(1,2) by (simp_all add: v_def del: contents_simps)
  obtain g where g: "ip4_input tcp_input p n v = ip4_input tcp_input p n (set_pbuf p g v)" "received (set_pbuf p g v) p [p]" "contents (set_pbuf p g v) [p] = h @ m"
    "payload (g (pbufs v p)) = payload (pbufs v p)" "type_internal (g (pbufs v p)) = 0x82" "\<And>T. give_back (set_pbuf p g v) [p] T = give_back v [p] T"
    using trim_single [OF v(1-3) c(3), of tcp_input n] by (auto simp: Let_def)
  let ?y = "set_pbuf p g v"
  have ly: "unat (plen (pbufs ?y p)) = length h + length m" using arg_cong [OF g(3), of length] by (simp add: seg_def)
  have "p + 16 \<le> payload (pbufs w p)" using r(1) by (auto simp: received_def placed_def)
  then have "\<exists>i<ARP_TABLE_SIZE. \<exists>w'. ip4_input tcp_input p n ?y = Some (ERR_OK, w') \<and> mem_ok w' \<and> tables w' = give_back ?y [p] (tables ?y) \<and>
    sent (mac w') = sent (mac ?y) @ [(txslot ?y, eth_frame ea (hwaddr (netifs ?y n)) ETHTYPE_IP
      (echo_header h (ip_addr (netifs ?y n)) src @ echo_reply m))] \<and>
    tx_alive w' \<and> fixed w' = fixed (?y\<lparr>etharp_cached_entry := i, ip_data := no_packet\<rparr>)"
    using ok n u arp g v c(3) ly len r(3) by (intro ip4_input_echo) (simp_all add: v_def echo_request_def del: contents_simps)
  then obtain i w' where i: "i < ARP_TABLE_SIZE" "ip4_input tcp_input p n ?y = Some (ERR_OK, w')" "mem_ok w'" "tables w' = give_back ?y [p] (tables ?y)"
    "sent (mac w') = sent (mac w) @ [(txslot w, eth_frame ea (hwaddr (netifs w n)) ETHTYPE_IP (echo_header h (ip_addr (netifs w n)) src @ echo_reply m))]"
    "tx_alive w'" "fixed w' = fixed (?y\<lparr>etharp_cached_entry := i, ip_data := no_packet\<rparr>)"
    by (auto simp: v_def)
  have "fixed ?y = fixed w" by (simp add: v_def)
  from fixed_upd [OF this] have "fixed w' = fixed (w\<lparr>etharp_cached_entry := i, ip_data := no_packet\<rparr>)" using i(7) by simp
  moreover have "tables w' = give_back w [p] (tables w)" using i(4) g(6) s1(3) m1(3) by (simp add: v_def)
  ultimately show ?thesis using eth g(1) i unfolding v_def [symmetric] by auto
qed

section \<open>From the wire\<close>

lemma pool_single:
  assumes "mem_ok w" "unat len \<le> 1524"
  shows "case memp_malloc MEMP_PBUF_POOL (pl w) of
      Some (None, s) \<Rightarrow> \<exists>w'. pbuf_alloc PBUF_RAW len PBUF_POOL w = Some (None, w') \<and> mem_ok w' \<and> tables w' = tables w
    | Some (Some q, s) \<Rightarrow> \<exists>w'. pbuf_alloc PBUF_RAW len PBUF_POOL w = Some (Some q, w') \<and> building w w' [q] 0 \<and> plen (pbufs w' q) = len
    | None \<Rightarrow> False"
proof -
  obtain r s where m: "memp_malloc MEMP_PBUF_POOL (pl w) = Some (r, s)"
    using memp_malloc_live [of "pl w" MEMP_PBUF_POOL] assms(1) by (auto simp: mem_ok_def)
  obtain r' w' where a: "pbuf_alloc PBUF_RAW len PBUF_POOL w = Some (r', w')"
    "case r' of None \<Rightarrow> mem_ok w' \<and> tables w' = tables w \<and> ram_bytes w' = ram_bytes w
     | Some p \<Rightarrow> \<exists>ps. ps \<noteq> [] \<and> p = hd ps \<and> building w w' ps 0 \<and> lens w' ps = unat len"
    using pbuf_alloc_pool_building [OF assms(1)] by blast
  show ?thesis
  proof (cases r)
    case None
    then have "r' = None"
      using a(1) m by (simp add: pbuf_alloc_def) (subst (asm) alloc_pool_loop.simps, simp add: pool_malloc_def)
    then show ?thesis using m None a by simp
  next
    case (Some q)
    have off: "unat (layer_offset PBUF_RAW) = 0" by simp
    have ql: "min len (of_nat (PBUF_POOL_BUFSIZE_ALIGNED - LWIP_MEM_ALIGN_SIZE 0)) = len"
      using assms(2) by (simp add: min_def word_le_nat_alt LWIP_MEM_ALIGN_SIZE_def layout_simps)
    have q: "r' = Some q \<and> nxt (pbufs w' q) = None \<and> plen (pbufs w' q) = len"
      using a(1) m Some off ql
      by (simp add: pbuf_alloc_def) (subst (asm) alloc_pool_loop.simps, auto simp: pool_malloc_def Let_def pbuf_init_alloced_pbuf_def split: if_splits)
    then obtain ps where ps: "ps \<noteq> []" "q = hd ps" "building w w' ps 0" using a(2) by auto
    then have "ps = [q]" using q by (cases ps; cases "tl ps") (auto simp: building_def)
    then show ?thesis using m Some a(1) q ps(3) by auto
  qed
qed


lemma rx_copy_same:
  "rx_copy q src c len w = Some w' \<Longrightarrow> pbufs w' = pbufs w \<and> hp w' = hp w \<and> pl w' = pl w \<and> mac w' = mac w \<and> netifs w' = netifs w \<and> txslot w' = txslot w \<and>
     dstate.more w' = dstate.more w"
  by (erule rx_copy.raw_induct [rotated]) (auto simp: Let_def memcpy_def split: option.splits if_splits)

lemma low_level_input_same:
  assumes "low_level_input nif w = Some (r, w')"
  shows "fixed w' = fixed w" "txslot w' = txslot w" "sent (mac w') = sent (mac w)"
proof -
  have "fixed w' = fixed w \<and> txslot w' = txslot w \<and> sent (mac w') = sent (mac w)"
  proof (cases "writer_pending (mac w)")
    case True
    then obtain q w1 w2 where s: "pbuf_alloc PBUF_RAW (ucast (writer_length (mac w))) PBUF_POOL w = Some (q, w1)"
      "w2 = w1 \<or> (\<exists>p a c l. rx_copy p a c l w1 = Some w2)" "w' = set_mac (\<lambda>m. m\<lparr>writer_pending := False\<rparr>) w2"
      using assms by (auto simp: low_level_input_def Let_def bind_eq_Some_conv split: option.splits) blast
    have w1: "fixed w1 = fixed w" "txslot w1 = txslot w" "mac w1 = mac w" using static_driver [OF pbuf_alloc_static [OF s(1)]] by simp_all
    have "fixed w2 = fixed w1 \<and> txslot w2 = txslot w1 \<and> mac w2 = mac w1"
      using s(2) rx_copy_same by (fastforce simp: fixed_def)
    then show ?thesis using w1 s(3) fixed_mac [of "\<lambda>m. m\<lparr>writer_pending := False\<rparr>" w2] by simp
  qed (use assms in \<open>simp add: low_level_input_def\<close>)
  then show "fixed w' = fixed w" "txslot w' = txslot w" "sent (mac w') = sent (mac w)" by simp_all
qed

lemma low_level_input_single:
  assumes ok: "mem_ok w" and rx: "writer_pending (mac w)" "unat (writer_length (mac w)) \<le> 1524" "unat (writer_slot (mac w)) < ETHMAC_RX_SLOTS" "slots_apart w"
  shows "\<exists>r w'. low_level_input nif w = Some (r, w') \<and> mem_ok w' \<and> \<not> writer_pending (mac w') \<and> (r = None \<longleftrightarrow> memp_malloc MEMP_PBUF_POOL (pl w) = Some (None, pl w)) \<and>
    (case r of None \<Rightarrow> tables w' = tables w
     | Some p \<Rightarrow> received w' p [p] \<and> type_internal (pbufs w' p) = 0x82 \<and> unat (plen (pbufs w' p)) \<le> 1524 \<and>
         contents w' [p] = fetch (ram_bytes w) (rx_slot_addr w) (unat (writer_length (mac w))) \<and> give_back w' [p] (tables w') = tables w)"
proof -
  have slot: "unat (writer_length (mac w)) \<le> ETHMAC_SLOT_SIZE" using rx(2) by (simp add: layout_simps)
  have len: "unat (ucast (writer_length (mac w)) :: u16) = unat (writer_length (mac w))"
    using rx(2) by (simp add: unat_take_bit unsigned_ucast_eq take_bit_nat_eq_self)
  obtain r w' where l: "low_level_input nif w = Some (r, w')" "mem_ok w'" "\<not> writer_pending (mac w')"
    "case r of None \<Rightarrow> tables w' = tables w \<and> ram_bytes w' = ram_bytes w
     | Some p \<Rightarrow> \<exists>ps. packet w' p ps \<and> contents w' ps = fetch (ram_bytes w) (rx_slot_addr w) (unat (writer_length (mac w))) \<and>
         (\<forall>a\<in>set ps. held w' a \<and> pref (pbufs w' a) = 1) \<and> give_back w' ps (tables w') = tables w \<and>
         (\<forall>x. \<not> inside w' ps x \<longrightarrow> ram_bytes w' x = ram_bytes w x)"
    using low_level_input_spec [OF ok rx(1) slot rx(3,4), of nif] by blast
  obtain r' s where m: "memp_malloc MEMP_PBUF_POOL (pl w) = Some (r', s)" "r' = None \<longrightarrow> s = pl w"
    using memp_malloc_live [of "pl w" MEMP_PBUF_POOL] ok by (fastforce simp: mem_ok_def)
  show ?thesis
  proof (cases r')
    case None
    obtain w1 where "pbuf_alloc PBUF_RAW (ucast (writer_length (mac w))) PBUF_POOL w = Some (None, w1)"
      using pool_single [OF ok, of "ucast (writer_length (mac w))"] rx(2) len m None by auto
    then have "r = None" using l(1) rx(1) by (auto simp: low_level_input_def Let_def)
    then show ?thesis using l m None by auto
  next
    case (Some q)
    obtain w1 where w1: "pbuf_alloc PBUF_RAW (ucast (writer_length (mac w))) PBUF_POOL w = Some (Some q, w1)" "building w w1 [q] 0"
      "plen (pbufs w1 q) = ucast (writer_length (mac w))"
      using pool_single [OF ok, of "ucast (writer_length (mac w))"] rx(2) len m Some by auto
    then obtain w2 where "rx_copy (Some q) (rx_slot_addr w) 0 (writer_length (mac w)) w1 = Some w2" "r = Some q" "w' = set_mac (\<lambda>m. m\<lparr>writer_pending := False\<rparr>) w2"
      using l(1) rx(1) by (auto simp: low_level_input_def Let_def rx_slot_addr_def bind_eq_Some_conv split: option.splits)
    then have same: "pbufs w' = pbufs w1" "tables w' = tables w1" using rx_copy_same by (fastforce simp: tables_def)+
    have b: "nxt (pbufs w' q) = None" "pool_pbuf (pbufs w' q) q" "tables w' = with_elems [q] (tables w)"
      using w1(2) same by (auto simp: building_def)
    obtain ps where ps: "packet w' q ps" "contents w' ps = fetch (ram_bytes w) (rx_slot_addr w) (unat (writer_length (mac w)))"
      "give_back w' ps (tables w') = tables w" using l(4) \<open>r = Some q\<close> by auto
    have "ps = [q]" using ps(1) b(1) by (cases ps; cases "tl ps") (auto simp: packet_def)
    moreover have "placed w' q"
      unfolding placed_def using b(2) pool_source
      by (intro exI [of _ "Pool MEMP_PBUF_POOL"] exI [of _ 1540]) (auto simp: pool_pbuf_def b(3) with_elems_def)
    ultimately show ?thesis
      using l(1-3) \<open>r = Some q\<close> ps b(2) m Some w1(3) same len rx(2) by (auto simp: received_def pool_pbuf_def)
  qed
qed

lemma fixed_netifs: "fixed w' = fixed w \<Longrightarrow> netifs w' = netifs w"
  by (simp add: fixed_def)

lemma fixed_resolved: "fixed w' = fixed w \<Longrightarrow> resolved w' n ip ea = resolved w n ip ea" "fixed w' = fixed w \<Longrightarrow> unicast w' n ip = unicast w n ip"
  using fixed_arp [of w' w] by (simp_all add: resolved_def unicast_def arp_def ip4_addr_isbroadcast_def fixed_netifs [of w' w])

section \<open>Properties\<close>

text \<open>A host that finds a frame in the receive slot, for the examples.\<close>

definition wired :: "bytes \<Rightarrow> istate" where
  "wired f = host0 []\<lparr>ram_bytes := store 102048 f (\<lambda>_. 0)\<rparr>"

lemma wired_sel [simp]: "hp (wired f) = heap1 False" "pl (wired f) = memp_init pools0" "netifs (wired f) = (\<lambda>_. netif0)" "mac (wired f) = mac0"
    "txslot (wired f) = 0" "ram_bytes (wired f) = store 102048 f (\<lambda>_. 0)"
    "fixed (wired f) = fixed (host0 [])"
  by (simp_all add: wired_def fixed_def)

lemma wired_ok: "mem_ok (wired f)" "layout_ok (wired f)" "tx_alive (wired f)" "arp_inv (wired f)" "resolved (wired f) 0 0x0901A8C0 [2, 0, 0, 0, 0, 9]"
proof -
  show "mem_ok (wired f)" "layout_ok (wired f)" "tx_alive (wired f)"
    using heard_ok(1-3) [of "[]"] by (simp_all add: mem_ok_def layout_ok_def slots_apart_def tx_alive_def)
  show "arp_inv (wired f)" "resolved (wired f) 0 0x0901A8C0 [2, 0, 0, 0, 0, 9]"
    using host0_arp [of "[]"] arp_inv_fixed [of "wired f" "host0 []"] fixed_resolved(1) [of "wired f" "host0 []"] by simp_all
qed

lemma pools0_pool: "memp_malloc MEMP_PBUF_POOL (memp_init pools0) \<noteq> Some (None, memp_init pools0)"
proof -
  have d: "desc pools0 = desc0" by (simp add: pools0_def)
  show ?thesis
    using memp_malloc_inv(1) [OF memp_init_inv(1) [of pools0], of MEMP_PBUF_POOL] desc0_ok unfolding d
    by (simp add: elems_def desc0_def layout_simps upt_rec)
qed

text \<open>The echo request of the example and its reply.\<close>

lemma request_example:
  "echo_request [0x45, 0, 0, 30, 0, 7, 0, 0, 64, 1, 0xF7, 0x4C, 192, 168, 1, 9, 192, 168, 1, 50] [8, 0, 0x8F, 0x94, 0, 1, 0, 1, 0x68, 0x69] 0x0901A8C0 0x3201A8C0"
  by (simp add: echo_request_def le16_def lwip_htons_def PP_HTONS_def IP_OFFMASK_def IP_MF_def IP_PROTO_ICMP_def ICMP_ECHO_def
     le_bytes_def upt_rec drop_bit_eq_div oc_add_def)

lemma reply_example:
  "echo_header [0x45, 0, 0, 30, 0, 7, 0, 0, 64, 1, 0xF7, 0x4C, 192, 168, 1, 9, 192, 168, 1, 50] 0x3201A8C0 0x0901A8C0 =
     [0x45, 0, 0, 30, 0, 7, 0, 0, 255, 1, 0x38, 0x4C, 192, 168, 1, 50, 192, 168, 1, 9]"
  "echo_reply [8, 0, 0x8F, 0x94, 0, 1, 0, 1, 0x68, 0x69] = [0, 0, 0x97, 0x94, 0, 1, 0, 1, 0x68, 0x69]"
  by (simp_all add: echo_header_def reply_header_def ICMP_TTL_def rfc1071_checksum_def oc_add_def le16_bytes_def le_bytes_def upt_rec drop_bit_eq_div
    echo_reply_def adjust_chksum_def ICMP_ECHO_def ICMP_ER_def PP_HTONS_def le16_def)

text \<open>
  C6: A ping is answered, from the wire to the wire. When the MAC holds a frame with an echo request for our address, with
  valid checksums, possibly IP options and any padding behind the packet, one poll of the driver sends the reply to the
  neighbour that the table gives for the requester (unless the packet pool is empty): the addresses swapped, the time to
  live renewed, the type changed and all other bytes as they came, in a frame to the neighbour's hardware address, with
  both checksums valid again although the ICMP checksum is only adjusted. All memory is released, no assertion fails and
  every loop ends, whatever the TCP layer does.
\<close>

theorem ping_answered:
  fixes w :: "'a istate_scheme"
  assumes "mem_ok w" "layout_ok w" "tx_alive w"
    "eth_netif (netifs w n)" "nif_input (netifs w n) = Ethernet_input" "nif_output (netifs w n) = Etharp_output" "netif_is_up (netifs w n)"
    "netif_flags (netifs w n) AND NETIF_FLAG_ETHARP \<noteq> 0"
    "writer_pending (mac w)" "unat (writer_length (mac w)) \<le> 1524" "unat (writer_slot (mac w)) < ETHMAC_RX_SLOTS"
    "fetch (ram_bytes w) (rx_slot_addr w) (unat (writer_length (mac w))) = e @ [8, 0] @ h @ m @ pad" "length e = 12"
    "echo_request h m src (ip_addr (netifs w n))" "unicast w n src" "unicast w n (ip_addr (netifs w n))" "arp_inv w" "resolved w n src ea"
  shows "\<exists>w'. ethernetif_input tcp_input n w = Some w' \<and> mem_ok w' \<and> tables w' = tables w \<and> arp_table w' = arp_table w \<and>
    sent (mac w') = sent (mac w) @ (if memp_malloc MEMP_PBUF_POOL (pl w) = Some (None, pl w) then []
      else [(txslot w, eth_frame ea (hwaddr (netifs w n)) ETHTYPE_IP (echo_header h (ip_addr (netifs w n)) src @ echo_reply m))]) \<and>
    inet_chksum a (echo_header h (ip_addr (netifs w n)) src) = 0 \<and> inet_chksum a (echo_reply m) = 0"
proof -
  have q: "20 \<le> length h" "length h + length m < 65536" "m ! 0 = ICMP_ECHO" "8 \<le> length m" "rfc1071_sum m = 65535"
    using assms(14) by (simp_all add: echo_request_def)
  have ck: "inet_chksum a (echo_header h (ip_addr (netifs w n)) src) = 0" "inet_chksum a (echo_reply m) = 0"
    using q echo_header_verifies [OF q(1)] echo_reply_verifies [of m] by (simp_all add: inet_chksum_rfc1071 checksum_zero)
  obtain r v where l: "low_level_input n w = Some (r, v)" "mem_ok v" "r = None \<longleftrightarrow> memp_malloc MEMP_PBUF_POOL (pl w) = Some (None, pl w)"
    "case r of None \<Rightarrow> tables v = tables w
     | Some p \<Rightarrow> received v p [p] \<and> type_internal (pbufs v p) = 0x82 \<and> unat (plen (pbufs v p)) \<le> 1524 \<and>
         contents v [p] = fetch (ram_bytes w) (rx_slot_addr w) (unat (writer_length (mac w))) \<and> give_back v [p] (tables v) = tables w"
    using low_level_input_single [OF assms(1,9-11), of n] assms(2) by (auto simp: layout_ok_def)
  note s = low_level_input_same [OF l(1)]
  have up: "arp_table v = arp_table w" "netifs v = netifs w" using fixed_arp [OF s(1)] fixed_netifs [OF s(1)] by simp_all
  show ?thesis
  proof (cases r)
    case None
    then show ?thesis using l s(3) up(1) ck by (intro exI [of _ v]) (simp add: ethernetif_input_def)
  next
    case (Some p)
    have v: "tx_alive v" "layout_ok v" "arp_inv v" "resolved v n src ea" "unicast v n src" "unicast v n (ip_addr (netifs w n))"
      using assms(2,3,15-18) s layout_ok_fixed [OF s(1)] arp_inv_fixed [OF s(1)] fixed_resolved [OF s(1)] by (simp_all add: tx_alive_def fixed_def)
    have p: "received v p [p]" "type_internal (pbufs v p) = 0x82" "unat (plen (pbufs v p)) \<le> 1524" "contents v [p] = e @ [8, 0] @ h @ m @ pad"
      "give_back v [p] (tables v) = tables w"
      using l(4) Some assms(12) by (simp_all del: contents_simps)
    obtain i w' where w': "ethernet_input tcp_input p n v = Some (ERR_OK, w')" "mem_ok w'" "tables w' = give_back v [p] (tables v)"
      "sent (mac w') = sent (mac v) @ [(txslot v, eth_frame ea (hwaddr (netifs v n)) ETHTYPE_IP (echo_header h (ip_addr (netifs v n)) src @ echo_reply m))]"
      "fixed w' = fixed (v\<lparr>etharp_cached_entry := i, ip_data := no_packet\<rparr>)"
      using ethernet_input_echo [of v n p e h m pad src ea tcp_input] l(2) v p assms(4,6-8,13,14) unfolding up(2) by blast
    have "ethernetif_input tcp_input n w = Some w'" using l(1) Some w'(1) assms(5) up(2) by (simp add: ethernetif_input_def netif_input_def)
    moreover have "arp_table w' = arp_table w" using fixed_arp [OF w'(5)] up(1) by simp
    moreover have "memp_malloc MEMP_PBUF_POOL (pl w) \<noteq> Some (None, pl w)" using l(3) Some by simp
    ultimately show ?thesis using w' s p(5) up(2) ck by (intro exI [of _ w']) simp
  qed
qed

theorem ping_answered_witness:
  "\<exists>w'. ethernetif_input (\<lambda>_ _ w. Some w) 0 (wired ([2, 0, 0, 0, 0, 1, 2, 0, 0, 0, 0, 9, 8, 0,
       0x45, 0, 0, 30, 0, 7, 0, 0, 64, 1, 0xF7, 0x4C, 192, 168, 1, 9, 192, 168, 1, 50, 8, 0, 0x8F, 0x94, 0, 1, 0, 1, 0x68, 0x69] @ replicate 16 0)) = Some w' \<and>
     map snd (sent (mac w')) = [[2, 0, 0, 0, 0, 9, 2, 0, 0, 0, 0, 1, 8, 0,
       0x45, 0, 0, 30, 0, 7, 0, 0, 255, 1, 0x38, 0x4C, 192, 168, 1, 50, 192, 168, 1, 9, 0, 0, 0x97, 0x94, 0, 1, 0, 1, 0x68, 0x69]]"
proof -
  let ?h = "[0x45, 0, 0, 30, 0, 7, 0, 0, 64, 1, 0xF7, 0x4C, 192, 168, 1, 9, 192, 168, 1, 50] :: bytes"
  let ?m = "[8, 0, 0x8F, 0x94, 0, 1, 0, 1, 0x68, 0x69] :: bytes"
  let ?e = "[2, 0, 0, 0, 0, 1, 2, 0, 0, 0, 0, 9] :: bytes"
  let ?f = "?e @ [8, 0] @ ?h @ ?m @ replicate 16 0"
  have a: "rx_slot_addr (wired f) = 102048" for f by (simp add: rx_slot_addr_def mac0_def layout_simps)
  have "fetch (store 102048 ?f (\<lambda>_. 0)) 102048 (length ?f) = ?f" by (rule fetch_store)
  then have f: "fetch (ram_bytes (wired ?f)) (rx_slot_addr (wired ?f)) (unat (writer_length (mac (wired ?f)))) = ?f"
    unfolding a by (simp add: mac0_def)
  have n: "eth_netif (netifs (wired f) 0)" "nif_input (netifs (wired f) 0) = Ethernet_input" "nif_output (netifs (wired f) 0) = Etharp_output"
    "netif_is_up (netifs (wired f) 0)" "netif_flags (netifs (wired f) 0) AND NETIF_FLAG_ETHARP \<noteq> 0"
    "writer_pending (mac (wired f))" "unat (writer_length (mac (wired f))) \<le> 1524" "unat (writer_slot (mac (wired f))) < ETHMAC_RX_SLOTS" for f
    using heard_ok(4) [of "[]" 0]
    by (simp_all add: netif0_def mac0_def netif_is_up_def NETIF_FLAG_UP_def NETIF_FLAG_ETHARP_def layout_simps)
  have u: "unicast (wired f) 0 0x0901A8C0" "unicast (wired f) 0 0x3201A8C0" for f
    by (simp_all add: unicast_def ip4_addr_isany_val_def ip4_addr_isbroadcast_def ip4_addr_isbroadcast_u32_def ip4_addr_ismulticast_def netif0_def
        ip4_addr_netcmp_def IPADDR_ANY_def IPADDR_BROADCAST_def PP_HTONL_def NETIF_FLAG_BROADCAST_def)
  have i: "ip_addr (netifs (wired f) 0) = 0x3201A8C0" "hwaddr (netifs (wired f) 0) = [2, 0, 0, 0, 0, 1]" for f by (simp_all add: netif0_def fpga_mac_def)
  obtain w' where "ethernetif_input (\<lambda>_ _ w. Some w) 0 (wired ?f) = Some w'"
    "sent (mac w') = sent (mac (wired ?f)) @ (if memp_malloc MEMP_PBUF_POOL (pl (wired ?f)) = Some (None, pl (wired ?f)) then []
      else [(txslot (wired ?f), eth_frame [2, 0, 0, 0, 0, 9] [2, 0, 0, 0, 0, 1] ETHTYPE_IP (echo_header ?h 0x3201A8C0 0x0901A8C0 @ echo_reply ?m))])"
    using ping_answered [OF wired_ok(1-3) n f _ _ _ _ wired_ok(4,5), of "\<lambda>_ _ w. Some w" 0] request_example u unfolding i by auto
  then show ?thesis using pools0_pool unfolding reply_example by (intro exI [of _ w']) (simp add: mac0_def eth_frame_def ETHTYPE_IP_def le16_bytes_def)
qed

end
