(* ===== verification/Ip4_Drop.thy ===== *)
theory Ip4_Drop
  imports Ping
begin

text \<open>
  The packets that \<^const>\<open>ip4_input\<close> refuses. What a packet must be to be taken is stated on its bytes, independently of the
  code's order of tests; a packet that is not taken is released and changes nothing else, from the driver's receive slot on.
\<close>

section \<open>What a packet must be\<close>

definition header_length :: "bytes \<Rightarrow> nat" where
  "header_length x = unat ((x ! 0 AND 0x0f) * 4)"

definition total_length :: "bytes \<Rightarrow> nat" where
  "total_length x = 256 * unat (x ! 2) + unat (x ! 3)"

definition well_formed :: "bytes \<Rightarrow> bool" where
  "well_formed x \<longleftrightarrow>
     drop_bit 4 (x ! 0) = 4 \<and> 20 \<le> header_length x \<and> header_length x \<le> total_length x \<and> total_length x \<le> length x \<and>
     rfc1071_sum (take (header_length x) x) = 65535"

definition fragment :: "bytes \<Rightarrow> bool" where
  "fragment x \<longleftrightarrow> (x ! 6 AND 0x3f) \<noteq> 0 \<or> x ! 7 \<noteq> 0"

definition accepts :: "'a dstate_scheme \<Rightarrow> u32 \<Rightarrow> nat \<Rightarrow> bool" where
  "accepts w dest n \<longleftrightarrow>
     netif_is_up (netifs w n) \<and> \<not> ip4_addr_isany_val (ip_addr (netifs w n)) \<and> (dest = ip_addr (netifs w n) \<or> ip4_addr_isbroadcast dest n w)"

definition for_us :: "'a dstate_scheme \<Rightarrow> nat \<Rightarrow> nat list \<Rightarrow> u32 \<Rightarrow> bool" where
  "for_us w n ns dest \<longleftrightarrow>
     (if ip4_addr_ismulticast dest then netif_is_up (netifs w n) \<and> \<not> ip4_addr_isany_val (ip_addr (netifs w n))
      else accepts w dest n \<or> (\<not> ip4_addr_isloopback dest \<and> (\<exists>m \<in> set ns. accepts w dest m)))"

definition taken :: "'a dstate_scheme \<Rightarrow> nat \<Rightarrow> nat list \<Rightarrow> bytes \<Rightarrow> bool" where
  "taken w n ns x \<longleftrightarrow>
     well_formed x \<and> \<not> fragment x \<and> for_us w n ns (le_word (take 4 (drop 16 x))) \<and>
     \<not> ip4_addr_isbroadcast (le_word (take 4 (drop 12 x))) n w \<and> \<not> ip4_addr_ismulticast (le_word (take 4 (drop 12 x)))"

lemma htons_le16: "lwip_htons (le16 a b) = le16 b a"
  by (rule bit_word_eqI) (auto simp: lwip_htons_def PP_HTONS_def le16_def bit_simps bit_byte_masks)

lemma total_length_read: "unat (lwip_htons (le16 (x ! 2) (x ! 3))) = total_length x"
  unfolding htons_le16 total_length_def by (simp add: unat_le16)

lemma fragment_read: "le16 (x ! 6) (x ! 7) AND PP_HTONS (IP_OFFMASK OR IP_MF) = 0 \<longleftrightarrow> \<not> fragment x"
proof -
  have "le16 a b AND le16 c d = le16 (a AND c) (b AND d)" for a b c d
    by (rule bit_word_eqI) (auto simp: le16_def bit_simps)
  from this [of _ _ "0x3f" "0xff"] have "le16 a b AND 0xff3f = le16 (a AND 0x3f) (b AND 0xff)" for a b by (simp add: le16_def)
  moreover have "(0xff :: byte) = - 1" by simp
  then have "b AND 0xff = b" for b :: byte by (simp only: and.right_neutral)
  moreover have "le16 a b = 0 \<longleftrightarrow> a = 0 \<and> b = 0" for a b by (simp add: unat_eq_zero [symmetric] unat_le16)
  moreover have "PP_HTONS (IP_OFFMASK OR IP_MF) = 0xff3f" by (simp add: PP_HTONS_def IP_OFFMASK_def IP_MF_def)
  ultimately show ?thesis by (simp add: fragment_def)
qed

lemma accept_loop_spec:
  "lseg (\<lambda>n. nif_next (netifs w n)) l ns \<Longrightarrow> accept_loop inp l w = Some (List.find (\<lambda>n. n \<noteq> inp \<and> accepts w (current_iphdr_dest (ip_data w)) n) ns)"
  by (induction ns arbitrary: l) (auto simp: accept_loop.simps ip4_input_accept_def accepts_def Let_def)

lemma find_netif_spec:
  assumes "lseg (\<lambda>n. nif_next (netifs w n)) (netif_list w) ns"
  shows "\<exists>r. find_netif n w = Some r \<and> (r = None \<longleftrightarrow> \<not> for_us w n ns (current_iphdr_dest (ip_data w)))"
  using accept_loop_spec [OF assms, of n]
  by (auto simp: find_netif_def ip4_input_accept_def for_us_def accepts_def Let_def find_None_iff)

section \<open>A packet that is not taken\<close>

text \<open>The packet after the padding behind it is cut off.\<close>

lemma trimmed:
  assumes "received w p [p]" "type_internal (pbufs w p) = 0x82"
  shows "\<exists>f. let v = set_pbuf p f w in (if n < ptot (pbufs w p) then pbuf_realloc (Some p) n w else Some w) = Some v \<and> received v p [p] \<and>
    payload (f (pbufs w p)) = payload (pbufs w p) \<and> plen (f (pbufs w p)) = min n (plen (pbufs w p)) \<and> ptot (f (pbufs w p)) = min n (plen (pbufs w p)) \<and>
    (\<forall>T. give_back v [p] T = give_back w [p] T)"
proof -
  have t: "ptot (pbufs w p) = plen (pbufs w p)" using assms(1) by (auto simp: received_def packet_def word_unat_eq_iff)
  show ?thesis
  proof (cases "n < plen (pbufs w p)")
    case True
    then show ?thesis using pbuf_realloc_single [OF assms True] t by (intro exI [of _ "cut n"]) (simp add: min_absorb1 less_imp_le)
  next
    case False
    have "set_pbuf p (\<lambda>b. b) w = w" by (simp add: set_pbuf_def)
    then show ?thesis using False t assms by (intro exI [of _ "\<lambda>b. b"]) (simp add: min_def)
  qed
qed

text \<open>The three places at which \<^const>\<open>ip4_input\<close> drops a packet.\<close>

lemma ip4_input_steps:
  fixes w :: "'a istate_scheme" and p n :: nat
  defines "a \<equiv> payload (pbufs w p)"
  defines "h \<equiv> unat (IPH_HL_BYTES a w)" and "N \<equiv> lwip_htons (get16 (a + len_off) w)" and "D \<equiv> \<lambda>v. Option.bind (free_packet p v) (\<lambda>w. Some (ERR_OK, w))"
  assumes "IPH_V a w = 4" "(if N < ptot (pbufs w p) then pbuf_realloc (Some p) N w else Some w) = Some v"
  shows "h > unat (plen (pbufs v p)) \<or> N > ptot (pbufs v p) \<or> h < IP_HLEN \<Longrightarrow> ip4_input tcp_input p n w = D v"
    "inet_chksum (of_nat a) (get_bytes a h v) \<noteq> 0 \<Longrightarrow> ip4_input tcp_input p n w = D v"
    "\<not> (h > unat (plen (pbufs v p)) \<or> N > ptot (pbufs v p) \<or> h < IP_HLEN) \<Longrightarrow> inet_chksum (of_nat a) (get_bytes a h v) = 0 \<Longrightarrow>
     u = v\<lparr>ip_data := (ip_data v)\<lparr>current_iphdr_dest := get32 (a + dest_off) v, current_iphdr_src := get32 (a + src_off) v\<rparr>\<rparr> \<Longrightarrow>
     find_netif n u = Some y \<Longrightarrow>
     y = None \<or> get16 (a + offset_off) v AND PP_HTONS (IP_OFFMASK OR IP_MF) \<noteq> 0 \<or>
     ip4_addr_isbroadcast (current_iphdr_src (ip_data u)) n u \<or> ip4_addr_ismulticast (current_iphdr_src (ip_data u)) \<Longrightarrow>
     ip4_input tcp_input p n w = D u"
proof -
  show 1: "ip4_input tcp_input p n w = D v" if "h > unat (plen (pbufs v p)) \<or> N > ptot (pbufs v p) \<or> h < IP_HLEN"
    using that assms(5-) unfolding ip4_input_def Let_def a_def [symmetric] h_def [symmetric] N_def [symmetric] by (simp add: D_def)
  show "ip4_input tcp_input p n w = D v" if "inet_chksum (of_nat a) (get_bytes a h v) \<noteq> 0"
    using that 1 assms(5-) unfolding ip4_input_def Let_def a_def [symmetric] h_def [symmetric] N_def [symmetric] by (simp add: D_def)
  assume x: "\<not> (h > unat (plen (pbufs v p)) \<or> N > ptot (pbufs v p) \<or> h < IP_HLEN)" "inet_chksum (of_nat a) (get_bytes a h v) = 0"
    and u: "u = v\<lparr>ip_data := (ip_data v)\<lparr>current_iphdr_dest := get32 (a + dest_off) v, current_iphdr_src := get32 (a + src_off) v\<rparr>\<rparr>"
      "find_netif n u = Some y"
    and z: "y = None \<or> get16 (a + offset_off) v AND PP_HTONS (IP_OFFMASK OR IP_MF) \<noteq> 0 \<or>
      ip4_addr_isbroadcast (current_iphdr_src (ip_data u)) n u \<or> ip4_addr_ismulticast (current_iphdr_src (ip_data u))"
  have "set_ip_data (\<lambda>d. d\<lparr>current_iphdr_src := get32 (a + src_off) (set_ip_data (\<lambda>d. d\<lparr>current_iphdr_dest := get32 (a + dest_off) v\<rparr>) v)\<rparr>)
      (set_ip_data (\<lambda>d. d\<lparr>current_iphdr_dest := get32 (a + dest_off) v\<rparr>) v) = u" "get16 k u = get16 k v" for k
    by (simp_all add: set_ip_data_def u(1))
  then show "ip4_input tcp_input p n w = D u"
    using x u(2) z assms(5-) unfolding ip4_input_def Let_def a_def [symmetric] h_def [symmetric] N_def [symmetric]
    by (auto simp add: D_def split: option.split)
qed

lemma ip4_input_refused:
  fixes w :: "'a istate_scheme"
  assumes r: "received w p [p]" "type_internal (pbufs w p) = 0x82" and c: "contents w [p] = x" "20 \<le> length x"
    and l: "lseg (\<lambda>n. nif_next (netifs w n)) (netif_list w) ns" and no: "\<not> taken w n ns x"
  shows "\<exists>f d. let v = (set_pbuf p f w)\<lparr>ip_data := d\<rparr> in ip4_input tcp_input p n w = Option.bind (free_packet p v) (\<lambda>w. Some (ERR_OK, w)) \<and>
    received v p [p] \<and> (\<forall>T. give_back v [p] T = give_back w [p] T)"
proof -
  let ?a = "payload (pbufs w p)" and ?D = "\<lambda>v. Option.bind (free_packet p v) (\<lambda>w. Some (ERR_OK, w))"
  have len: "unat (plen (pbufs w p)) = length x" using arg_cong [OF c(1), of length] by (simp add: seg_def)
  have "contents w [p] = x @ []" "length x \<le> unat (plen (pbufs w p))" using c(1) len by simp_all
  note h = header_fields [OF this c(2)]
  have g: "get8 ?a w = x ! 0" "get16 (?a + len_off) w = le16 (x ! 2) (x ! 3)" "get16 (?a + offset_off) w = le16 (x ! 6) (x ! 7)"
    using h(1) [of 0] h(2) [of 2] h(2) [of 6] c(2) unfolding layout_simps by fastforce+
  have a: "get32 (?a + k) w = le_word (take 4 (drop k x))" if "k + 4 \<le> 20" for k
    using fetch_contents [of k 4 w p "[]"] that c len by (simp add: get32_def del: contents_simps)
  have b: "get_bytes ?a k w = take k x" if "k \<le> length x" for k
    using fetch_contents [of 0 k w p "[]"] that c len by (simp add: get_bytes_def del: contents_simps)
  have ver: "IPH_V ?a w = drop_bit 4 (x ! 0)" "unat (IPH_HL_BYTES ?a w) = header_length x"
    using g(1) by (simp_all add: IPH_V_def IPH_HL_BYTES_def layout_simps header_length_def)
  show ?thesis
  proof (cases "drop_bit 4 (x ! 0) = 4")
    case False
    have "set_pbuf p (\<lambda>b. b) w = w" by (simp add: set_pbuf_def)
    then show ?thesis using False r by (intro exI [of _ "\<lambda>b. b"] exI [of _ "ip_data w"]) (simp add: ip4_input_def Let_def ver)
  next
    case True
    define N where "N = lwip_htons (get16 (?a + len_off) w)"
    have N: "unat N = total_length x" using total_length_read g(2) by (simp add: N_def)
    obtain f where f: "(if N < ptot (pbufs w p) then pbuf_realloc (Some p) N w else Some w) = Some (set_pbuf p f w)" "received (set_pbuf p f w) p [p]"
      "plen (f (pbufs w p)) = min N (plen (pbufs w p))" "ptot (f (pbufs w p)) = min N (plen (pbufs w p))"
      "\<And>T. give_back (set_pbuf p f w) [p] T = give_back w [p] T"
      using trimmed [OF r, of N] by (auto simp: Let_def)
    define v where "v = set_pbuf p f w"
    have same: "get16 k v = get16 k w" "get32 k v = get32 k w" "get_bytes k j v = get_bytes k j w" "netifs v = netifs w" "netif_list v = netif_list w" for k j
      by (simp_all add: v_def get16_def get32_def get_bytes_def) (simp_all add: set_pbuf_def)
    have by_v: ?thesis if "ip4_input tcp_input p n w = ?D (v\<lparr>ip_data := d\<rparr>)" for d
      using that f(2,5) by (intro exI [of _ f] exI [of _ d]) (simp add: v_def)
    have self: "v = v\<lparr>ip_data := ip_data v\<rparr>" by simp
    let ?long = "header_length x > unat (plen (pbufs v p)) \<or> N > ptot (pbufs v p) \<or> header_length x < IP_HLEN"
    have long: "?long \<longleftrightarrow> \<not> (20 \<le> header_length x \<and> header_length x \<le> total_length x \<and> total_length x \<le> length x)"
      using N len f(3,4) by (auto simp: v_def min_def word_le_nat_alt word_less_nat_alt layout_simps)
    have "IPH_V ?a w = 4" using True ver(1) by simp
    note st = ip4_input_steps [OF this f(1) [unfolded N_def], folded v_def N_def, unfolded ver(2)]
    consider ?long | "inet_chksum (of_nat ?a) (get_bytes ?a (header_length x) v) \<noteq> 0"
      | "\<not> ?long" "inet_chksum (of_nat ?a) (get_bytes ?a (header_length x) v) = 0" by blast
    then show ?thesis
    proof cases
      case 1
      then show ?thesis using st(1) self by (intro by_v [of "ip_data v"]) simp
    next
      case 2
      then show ?thesis using st(2) self by (intro by_v [of "ip_data v"]) simp
    next
      case 3
      define u where "u = v\<lparr>ip_data := (ip_data v)\<lparr>current_iphdr_dest := get32 (?a + dest_off) v, current_iphdr_src := get32 (?a + src_off) v\<rparr>\<rparr>"
      have "header_length x < 256" using unsigned_less [of "(x ! 0 AND 0x0f) * 4"] by (simp add: header_length_def)
      then have wf: "well_formed x" using 3 long True by (simp add: well_formed_def same b inet_chksum_rfc1071 checksum_zero)
      have u: "netifs u = netifs w" "lseg (\<lambda>n. nif_next (netifs u n)) (netif_list u) ns" "current_iphdr_dest (ip_data u) = le_word (take 4 (drop 16 x))"
        "current_iphdr_src (ip_data u) = le_word (take 4 (drop 12 x))"
        using l by (simp_all add: u_def same a layout_simps)
      have fu: "for_us u n ns d = for_us w n ns d" "ip4_addr_isbroadcast d n u = ip4_addr_isbroadcast d n w" for d
        by (simp_all add: for_us_def accepts_def ip4_addr_isbroadcast_def u(1))
      obtain y where y: "find_netif n u = Some y" "y = None \<longleftrightarrow> \<not> for_us w n ns (le_word (take 4 (drop 16 x)))"
        using find_netif_spec [OF u(2), of n] unfolding u(3) fu by blast
      have "ip4_input tcp_input p n w = ?D u"
        using no wf y(2) u(4) by (intro st(3) [OF 3 u_def y(1)]) (auto simp: taken_def fu same g fragment_read)
      then show ?thesis unfolding u_def by (rule by_v)
    qed
  qed
qed


lemma ethernet_input_refused:
  fixes w :: "'a istate_scheme"
  assumes ok: "mem_ok w" and n: "netif_flags (netifs w n) AND NETIF_FLAG_ETHARP \<noteq> 0"
    and r: "received w p [p]" "type_internal (pbufs w p) = 0x82" and c: "contents w [p] = e @ [8, 0] @ x" "length e = 12" "20 \<le> length x"
    and l: "lseg (\<lambda>n. nif_next (netifs w n)) (netif_list w) ns" and no: "\<not> taken w n ns x"
  shows "\<exists>d w'. ethernet_input tcp_input p n w = Some (ERR_OK, w') \<and> mem_ok w' \<and> tables w' = give_back w [p] (tables w) \<and> mac w' = mac w \<and>
    fixed w' = fixed (w\<lparr>ip_data := d\<rparr>)"
proof -
  have len: "unat (plen (pbufs w p)) = 14 + length x" using arg_cong [OF c(1), of length] c(2) by (simp add: seg_def)
  obtain i f where eth: "ethernet_input tcp_input p n w =
      Option.bind (ip4_input tcp_input p n (set_pbuf p (shrunk 14) (set_pbuf p (marked i f) w))) (\<lambda>(_, w). Some (ERR_OK, w))"
    using ethernet_input_ip [of w p "[]" n tcp_input] len c n by (auto simp del: contents_simps)
  define v where "v = set_pbuf p (shrunk 14) (set_pbuf p (marked i f) w)"
  note m1 = received_marked [OF r(1), of i f]
  have "14 \<le> unat (plen (pbufs (set_pbuf p (marked i f) w) p))" using len by simp
  note s1 = received_shrunk [OF m1(1) this]
  have v: "received v p [p]" "type_internal (pbufs v p) = 0x82" "contents v [p] = x"
    using s1 m1(2) r(2) c(1,2) by (simp_all add: v_def del: contents_simps)
  have up: "netifs v = netifs w" "netif_list v = netif_list w" "mac v = mac w" "hp v = hp w" "pl v = pl w" by (simp_all add: v_def) (simp add: set_pbuf_def)
  have "taken v n ns x = taken w n ns x" by (simp add: taken_def for_us_def accepts_def ip4_addr_isbroadcast_def up)
  then obtain g d where g: "ip4_input tcp_input p n v = Option.bind (free_packet p ((set_pbuf p g v)\<lparr>ip_data := d\<rparr>)) (\<lambda>w. Some (ERR_OK, w))"
    "received ((set_pbuf p g v)\<lparr>ip_data := d\<rparr>) p [p]" "\<And>T. give_back ((set_pbuf p g v)\<lparr>ip_data := d\<rparr>) [p] T = give_back v [p] T"
    using ip4_input_refused [OF v c(3), of ns n tcp_input] l no unfolding up by (auto simp: Let_def)
  let ?y = "(set_pbuf p g v)\<lparr>ip_data := d\<rparr>"
  have "mem_ok ?y" using ok by (simp add: v_def)
  then obtain w' where w': "free_packet p ?y = Some w'" "mem_ok w'" "tables w' = give_back ?y [p] (tables ?y)"
    using received_free [OF g(2)] by blast
  note st = static_driver [OF free_packet_static [OF w'(1)]]
  have "fixed (set_pbuf p g v) = fixed w" by (simp add: v_def)
  then have "fixed w' = fixed (w\<lparr>ip_data := d\<rparr>)" using st(5) fixed_ip_data by metis
  moreover have "tables w' = give_back w [p] (tables w)" using w'(3) g(3) s1(3) m1(3) by (simp add: v_def)
  moreover have "mac w' = mac w" using st(2) up(3) by simp
  ultimately show ?thesis using eth g(1) w' unfolding v_def [symmetric] by auto
qed

lemma fixed_list: "fixed w' = fixed w \<Longrightarrow> netif_list w' = netif_list w"
  for w w' :: "'a istate_scheme"
  by (cases w; cases w') (simp add: fixed_def)

section \<open>Properties\<close>

text \<open>
  C7: Bad IPv4 packets do nothing. When the MAC holds a frame with an IPv4 packet that is not well formed (version, header length,
  total length beyond the frame or shorter than the header, header checksum), is a fragment, comes from a broadcast or multicast
  address or is for none of our interfaces, one poll of the driver drops it: nothing is sent, no upper layer is called, the
  neighbour table is unchanged and all memory is released, without a failed assertion.
\<close>

theorem bad_packet_dropped:
  fixes w :: "'a istate_scheme"
  assumes "mem_ok w" "layout_ok w" "nif_input (netifs w n) = Ethernet_input" "netif_flags (netifs w n) AND NETIF_FLAG_ETHARP \<noteq> 0"
    "writer_pending (mac w)" "unat (writer_length (mac w)) \<le> 1524" "unat (writer_slot (mac w)) < ETHMAC_RX_SLOTS"
    "fetch (ram_bytes w) (rx_slot_addr w) (unat (writer_length (mac w))) = e @ [8, 0] @ x" "length e = 12" "20 \<le> length x"
    "lseg (\<lambda>n. nif_next (netifs w n)) (netif_list w) ns" "\<not> taken w n ns x"
  shows "\<exists>w'. ethernetif_input tcp_input n w = Some w' \<and> mem_ok w' \<and> tables w' = tables w \<and> sent (mac w') = sent (mac w) \<and>
    \<not> writer_pending (mac w') \<and> arp_table w' = arp_table w \<and> netifs w' = netifs w"
proof -
  obtain r v where l: "low_level_input n w = Some (r, v)" "mem_ok v" "\<not> writer_pending (mac v)"
    "case r of None \<Rightarrow> tables v = tables w
     | Some p \<Rightarrow> received v p [p] \<and> type_internal (pbufs v p) = 0x82 \<and> unat (plen (pbufs v p)) \<le> 1524 \<and>
         contents v [p] = fetch (ram_bytes w) (rx_slot_addr w) (unat (writer_length (mac w))) \<and> give_back v [p] (tables v) = tables w"
    using low_level_input_single [OF assms(1,5-7), of n] assms(2) by (auto simp: layout_ok_def)
  note s = low_level_input_same [OF l(1)]
  have up: "arp_table v = arp_table w" "netifs v = netifs w" "netif_list v = netif_list w"
    using fixed_arp [OF s(1)] fixed_netifs [OF s(1)] fixed_list [OF s(1)] by simp_all
  show ?thesis
  proof (cases r)
    case None
    then show ?thesis using l s(3) up by (intro exI [of _ v]) (simp add: ethernetif_input_def)
  next
    case (Some p)
    have p: "received v p [p]" "type_internal (pbufs v p) = 0x82" "contents v [p] = e @ [8, 0] @ x" "give_back v [p] (tables v) = tables w"
      using l(4) Some assms(8) by (simp_all del: contents_simps)
    have "taken v n ns x = taken w n ns x" by (simp add: taken_def for_us_def accepts_def ip4_addr_isbroadcast_def up)
    then obtain d w' where w': "ethernet_input tcp_input p n v = Some (ERR_OK, w')" "mem_ok w'" "tables w' = give_back v [p] (tables v)" "mac w' = mac v"
      "fixed w' = fixed (v\<lparr>ip_data := d\<rparr>)"
      using ethernet_input_refused [OF l(2) _ p(1-3) assms(9,10), of n ns tcp_input] assms(4,11,12) unfolding up by auto
    have "ethernetif_input tcp_input n w = Some w'" using l(1) Some w'(1) assms(3) up(2) by (simp add: ethernetif_input_def netif_input_def)
    moreover have "arp_table w' = arp_table w" "netifs w' = netifs w" using fixed_arp [OF w'(5)] fixed_netifs [OF w'(5)] up by simp_all
    ultimately show ?thesis using w' s p(4) l(3) by (intro exI [of _ w']) simp
  qed
qed

theorem bad_packet_dropped_witness:
  "\<exists>w'. ethernetif_input (\<lambda>_ _ _. None) 0 (wired ([2, 0, 0, 0, 0, 1, 2, 0, 0, 0, 0, 9, 8, 0] @
       [0x45, 0, 0, 30, 0, 7, 0, 0, 64, 6, 0xF7, 0x4C, 192, 168, 1, 9, 192, 168, 1, 50] @ replicate 26 0)) = Some w' \<and> sent (mac w') = [] \<and>
     \<not> writer_pending (mac w')"
proof -
  let ?x = "[0x45, 0, 0, 30, 0, 7, 0, 0, 64, 6, 0xF7, 0x4C, 192, 168, 1, 9, 192, 168, 1, 50] @ replicate 26 0 :: bytes"
  let ?e = "[2, 0, 0, 0, 0, 1, 2, 0, 0, 0, 0, 9] :: bytes"
  let ?f = "?e @ [8, 0] @ ?x"
  have a: "rx_slot_addr (wired f) = 102048" for f by (simp add: rx_slot_addr_def mac0_def layout_simps)
  have "fetch (store 102048 ?f (\<lambda>_. 0)) 102048 (length ?f) = ?f" by (rule fetch_store)
  then have f: "fetch (ram_bytes (wired ?f)) (rx_slot_addr (wired ?f)) (unat (writer_length (mac (wired ?f)))) = ?f"
    unfolding a by (simp add: mac0_def)
  have n: "nif_input (netifs (wired f) 0) = Ethernet_input" "netif_flags (netifs (wired f) 0) AND NETIF_FLAG_ETHARP \<noteq> 0"
    "writer_pending (mac (wired f))" "unat (writer_length (mac (wired f))) \<le> 1524" "unat (writer_slot (mac (wired f))) < ETHMAC_RX_SLOTS"
    "lseg (\<lambda>n. nif_next (netifs (wired f) n)) (netif_list (wired f)) [0]" for f
    by (simp_all add: netif0_def mac0_def NETIF_FLAG_ETHARP_def layout_simps) (simp add: wired_def)
  have "header_length ?x = 20" by (simp add: header_length_def)
  then have "rfc1071_sum (take (header_length ?x) ?x) \<noteq> 65535" by (simp add: oc_add_def)
  then have "\<not> well_formed ?x" unfolding well_formed_def by blast
  then have t: "\<not> taken (wired ?f) 0 [0] ?x" unfolding taken_def by blast
  show ?thesis
    using bad_packet_dropped [OF wired_ok(1,2) n(1-5) f _ _ n(6) t, of "\<lambda>_ _ _. None"] by (auto simp: mac0_def)
qed

end
