(* ===== verification/Netif.thy ===== *)
theory Netif
  imports Ip4_Drop
begin

text \<open>
  The administration of interfaces, \<^verbatim>\<open>lwip/src/core/netif.c\<close>, and the network part of the start-up in \<^verbatim>\<open>sat_tcp.c\<close> and
  \<^verbatim>\<open>echo_tcp.c\<close>. The callback of TCP for a changed address, \<^verbatim>\<open>tcp_netif_ip_addr_changed\<close>, is a parameter \<open>chg\<close> of the
  operations that change addresses. Shown: a new interface gets a number that no other interface has, and the start-up
  leaves the stack in a state in which the theorems on frames apply, after announcing the board's address.
\<close>

section \<open>State\<close>

record nstate = istate +
  netif_num :: u8

definition NETIF_REPORT_TYPE_IPV4 :: u8 where "NETIF_REPORT_TYPE_IPV4 = 0x01"
definition NETIF_REPORT_TYPE_IPV6 :: u8 where "NETIF_REPORT_TYPE_IPV6 = 0x02"

definition netif_set_flags :: "nat \<Rightarrow> u8 \<Rightarrow> 'a dstate_scheme \<Rightarrow> 'a dstate_scheme" where
  "netif_set_flags n set_flags w = set_netif n (\<lambda>f. f\<lparr>netif_flags := netif_flags f OR set_flags\<rparr>) w"

definition netif_clear_flags :: "nat \<Rightarrow> u8 \<Rightarrow> 'a dstate_scheme \<Rightarrow> 'a dstate_scheme" where
  "netif_clear_flags n clr_flags w = set_netif n (\<lambda>f. f\<lparr>netif_flags := netif_flags f AND NOT clr_flags\<rparr>) w"

section \<open>Addresses\<close>

definition etharp_gratuitous :: "nat \<Rightarrow> 'a dstate_scheme \<Rightarrow> (err_t \<times> 'a dstate_scheme) option" where
  "etharp_gratuitous n w = etharp_request (Some n) (ip_addr (netifs w n)) w"

definition netif_issue_reports :: "nat \<Rightarrow> u8 \<Rightarrow> 'a dstate_scheme \<Rightarrow> 'a dstate_scheme option" where
  "netif_issue_reports n report_type w =
     (if netif_flags (netifs w n) AND NETIF_FLAG_LINK_UP = 0 \<or> netif_flags (netifs w n) AND NETIF_FLAG_UP = 0 then Some w
      else if report_type AND NETIF_REPORT_TYPE_IPV4 \<noteq> 0 \<and> \<not> ip4_addr_isany_val (ip_addr (netifs w n)) then
        (if netif_flags (netifs w n) AND NETIF_FLAG_ETHARP \<noteq> 0 then do { (_, w) \<leftarrow> etharp_gratuitous n w; Some w }
         else Some w)
      else Some w)"

type_synonym 'a addr_changed = "u32 \<Rightarrow> u32 option \<Rightarrow> 'a \<Rightarrow> 'a option"

definition netif_do_set_ipaddr :: "'a dstate_scheme addr_changed \<Rightarrow> nat \<Rightarrow> u32 \<Rightarrow> 'a dstate_scheme \<Rightarrow> (bool \<times> 'a dstate_scheme) option" where
  "netif_do_set_ipaddr chg n ipaddr w =
     (if ipaddr \<noteq> ip_addr (netifs w n) then do {
        w \<leftarrow> chg (ip_addr (netifs w n)) (Some ipaddr) w;
        w \<leftarrow> netif_issue_reports n NETIF_REPORT_TYPE_IPV4 (set_netif n (\<lambda>f. f\<lparr>ip_addr := ipaddr\<rparr>) w);
        Some (True, w)
      }
      else Some (False, w))"

definition netif_set_ipaddr :: "'a dstate_scheme addr_changed \<Rightarrow> nat option \<Rightarrow> u32 option \<Rightarrow> 'a dstate_scheme \<Rightarrow> 'a dstate_scheme option" where
  "netif_set_ipaddr chg netif ipaddr w =
     (case netif of
        None \<Rightarrow> Some w
      | Some n \<Rightarrow> do { (_, w) \<leftarrow> netif_do_set_ipaddr chg n (case ipaddr of None \<Rightarrow> IPADDR_ANY | Some a \<Rightarrow> a) w; Some w })"

definition netif_do_set_netmask :: "nat \<Rightarrow> u32 \<Rightarrow> 'a dstate_scheme \<Rightarrow> bool \<times> 'a dstate_scheme" where
  "netif_do_set_netmask n nm w =
     (if nm \<noteq> netmask (netifs w n) then (True, set_netif n (\<lambda>f. f\<lparr>netmask := nm\<rparr>) w) else (False, w))"

definition netif_set_netmask :: "nat option \<Rightarrow> u32 option \<Rightarrow> 'a dstate_scheme \<Rightarrow> 'a dstate_scheme" where
  "netif_set_netmask netif nm w =
     (case netif of None \<Rightarrow> w | Some n \<Rightarrow> snd (netif_do_set_netmask n (case nm of None \<Rightarrow> IPADDR_ANY | Some a \<Rightarrow> a) w))"

definition netif_do_set_gw :: "nat \<Rightarrow> u32 \<Rightarrow> 'a dstate_scheme \<Rightarrow> bool \<times> 'a dstate_scheme" where
  "netif_do_set_gw n g w = (if g \<noteq> gw (netifs w n) then (True, set_netif n (\<lambda>f. f\<lparr>gw := g\<rparr>) w) else (False, w))"

definition netif_set_gw :: "nat option \<Rightarrow> u32 option \<Rightarrow> 'a dstate_scheme \<Rightarrow> 'a dstate_scheme" where
  "netif_set_gw netif g w =
     (case netif of None \<Rightarrow> w | Some n \<Rightarrow> snd (netif_do_set_gw n (case g of None \<Rightarrow> IPADDR_ANY | Some a \<Rightarrow> a) w))"

text \<open>An address that is removed is removed first, one that is set is set last.\<close>

definition netif_set_addr ::
  "'a dstate_scheme addr_changed \<Rightarrow> nat \<Rightarrow> u32 option \<Rightarrow> u32 option \<Rightarrow> u32 option \<Rightarrow> 'a dstate_scheme \<Rightarrow> 'a dstate_scheme option" where
  "netif_set_addr chg n ipaddr nm g w = do {
     let ipaddr = (case ipaddr of None \<Rightarrow> IPADDR_ANY | Some a \<Rightarrow> a);
     let nm = (case nm of None \<Rightarrow> IPADDR_ANY | Some a \<Rightarrow> a);
     let g = (case g of None \<Rightarrow> IPADDR_ANY | Some a \<Rightarrow> a);
     let remove = ip4_addr_isany_val ipaddr;
     w \<leftarrow> (if remove then do { (_, w) \<leftarrow> netif_do_set_ipaddr chg n ipaddr w; Some w } else Some w);
     let w = snd (netif_do_set_netmask n nm w);
     let w = snd (netif_do_set_gw n g w);
     if \<not> remove then do { (_, w) \<leftarrow> netif_do_set_ipaddr chg n ipaddr w; Some w } else Some w
   }"

section \<open>Up and down\<close>

definition netif_set_default :: "nat option \<Rightarrow> 'a istate_scheme \<Rightarrow> 'a istate_scheme" where
  "netif_set_default netif w = w\<lparr>netif_default := netif\<rparr>"

definition netif_set_up :: "nat option \<Rightarrow> 'a dstate_scheme \<Rightarrow> 'a dstate_scheme option" where
  "netif_set_up netif w =
     (case netif of
        None \<Rightarrow> Some w
      | Some n \<Rightarrow>
          if netif_flags (netifs w n) AND NETIF_FLAG_UP = 0
          then netif_issue_reports n (NETIF_REPORT_TYPE_IPV4 OR NETIF_REPORT_TYPE_IPV6) (netif_set_flags n NETIF_FLAG_UP w)
          else Some w)"

definition netif_set_down :: "nat option \<Rightarrow> 'a astate_scheme \<Rightarrow> 'a astate_scheme option" where
  "netif_set_down netif w =
     (case netif of
        None \<Rightarrow> Some w
      | Some n \<Rightarrow>
          if netif_flags (netifs w n) AND NETIF_FLAG_UP \<noteq> 0
          then (let w = netif_clear_flags n NETIF_FLAG_UP w
                in if netif_flags (netifs w n) AND NETIF_FLAG_ETHARP \<noteq> 0 then etharp_cleanup_netif n w else Some w)
          else Some w)"

definition netif_set_link_up :: "nat option \<Rightarrow> 'a dstate_scheme \<Rightarrow> 'a dstate_scheme option" where
  "netif_set_link_up netif w =
     (case netif of
        None \<Rightarrow> Some w
      | Some n \<Rightarrow>
          if netif_flags (netifs w n) AND NETIF_FLAG_LINK_UP = 0
          then netif_issue_reports n (NETIF_REPORT_TYPE_IPV4 OR NETIF_REPORT_TYPE_IPV6) (netif_set_flags n NETIF_FLAG_LINK_UP w)
          else Some w)"

definition netif_set_link_down :: "nat option \<Rightarrow> 'a dstate_scheme \<Rightarrow> 'a dstate_scheme" where
  "netif_set_link_down netif w =
     (case netif of
        None \<Rightarrow> w
      | Some n \<Rightarrow> if netif_flags (netifs w n) AND NETIF_FLAG_LINK_UP \<noteq> 0 then netif_clear_flags n NETIF_FLAG_LINK_UP w else w)"

section \<open>The list of interfaces\<close>

text \<open>
  Looking for an interface with the same number; the result is the one found, with the number of the new interface
  increased.
\<close>

partial_function (option) number_taken :: "nat \<Rightarrow> nat option \<Rightarrow> nat \<Rightarrow> 'a istate_scheme \<Rightarrow> (nat option \<times> 'a istate_scheme) option" where
  "number_taken n netif2 num_netifs w =
     (case netif2 of
        None \<Rightarrow> Some (None, w)
      | Some m \<Rightarrow>
          if m = n \<or> num_netifs + 1 > 255 then None
          else if if_num (netifs w m) = if_num (netifs w n)
          then Some (Some m, set_netif n (\<lambda>f. f\<lparr>if_num := if_num f + 1\<rparr>) w)
          else number_taken n (nif_next (netifs w m)) (num_netifs + 1) w)"

partial_function (option) choose_number :: "nat \<Rightarrow> 'a istate_scheme \<Rightarrow> 'a istate_scheme option" where
  "choose_number n w =
     Option.bind (number_taken n (netif_list w) 0
         (if if_num (netifs w n) = 255 then set_netif n (\<lambda>f. f\<lparr>if_num := 0\<rparr>) w else w))
       (\<lambda>(netif2, w). case netif2 of None \<Rightarrow> Some w | Some _ \<Rightarrow> choose_number n w)"

definition netif_add ::
  "'a nstate_scheme addr_changed \<Rightarrow> nat option \<Rightarrow> u32 option \<Rightarrow> u32 option \<Rightarrow> u32 option \<Rightarrow>
   (nat \<Rightarrow> 'a nstate_scheme \<Rightarrow> err_t \<times> 'a nstate_scheme) option \<Rightarrow> netif_input_fn \<Rightarrow> 'a nstate_scheme \<Rightarrow> (nat option \<times> 'a nstate_scheme) option" where
  "netif_add chg netif ipaddr nm g init inp w =
     (case netif of
        None \<Rightarrow> Some (None, w)
      | Some n \<Rightarrow>
          (case init of
             None \<Rightarrow> Some (None, w)
           | Some init \<Rightarrow> do {
               let w = set_netif n (\<lambda>f. f\<lparr>ip_addr := 0, netmask := 0, gw := 0, nif_output := Netif_null_output_ip4, mtu := 0, netif_flags := 0,
                                         if_num := netif_num w, nif_input := inp\<rparr>) w;
               w \<leftarrow> netif_set_addr chg n ipaddr nm g w;
               let (e, w) = init n w;
               if e \<noteq> ERR_OK then Some (None, w)
               else do {
                 w \<leftarrow> choose_number n w;
                 let w = w\<lparr>netif_num := (if if_num (netifs w n) = 254 then 0 else if_num (netifs w n) + 1)\<rparr>;
                 let w = set_netif n (\<lambda>f. f\<lparr>nif_next := netif_list w\<rparr>) w;
                 Some (Some n, w\<lparr>netif_list := Some n\<rparr>)
               }
             }))"

partial_function (option) unlink_netif :: "nat \<Rightarrow> nat option \<Rightarrow> 'a istate_scheme \<Rightarrow> 'a istate_scheme option" where
  "unlink_netif n tmp_netif w =
     (case tmp_netif of
        None \<Rightarrow> Some w
      | Some m \<Rightarrow>
          if nif_next (netifs w m) = Some n then Some (set_netif m (\<lambda>f. f\<lparr>nif_next := nif_next (netifs w n)\<rparr>) w)
          else unlink_netif n (nif_next (netifs w m)) w)"

definition netif_remove :: "'a istate_scheme addr_changed \<Rightarrow> nat option \<Rightarrow> 'a istate_scheme \<Rightarrow> 'a istate_scheme option" where
  "netif_remove chg netif w =
     (case netif of
        None \<Rightarrow> Some w
      | Some n \<Rightarrow> do {
          w \<leftarrow> (if \<not> ip4_addr_isany_val (ip_addr (netifs w n)) then chg (ip_addr (netifs w n)) None w else Some w);
          w \<leftarrow> (if netif_is_up (netifs w n) then netif_set_down netif w else Some w);
          let w = (if netif_default w = Some n then netif_set_default None w else w);
          if netif_list w = Some n then Some (w\<lparr>netif_list := nif_next (netifs w n)\<rparr>)
          else unlink_netif n (netif_list w) w
        })"

partial_function (option) index_loop :: "u8 \<Rightarrow> nat option \<Rightarrow> 'a dstate_scheme \<Rightarrow> nat option option" where
  "index_loop idx netif w =
     (case netif of
        None \<Rightarrow> Some None
      | Some n \<Rightarrow> if idx = netif_get_index (netifs w n) then Some (Some n) else index_loop idx (nif_next (netifs w n)) w)"

definition netif_get_by_index :: "u8 \<Rightarrow> 'a istate_scheme \<Rightarrow> nat option option" where
  "netif_get_by_index idx w = (if idx \<noteq> NETIF_NO_INDEX then index_loop idx (netif_list w) w else Some None)"

section \<open>Start-up\<close>

text \<open>
  The part of \<^verbatim>\<open>lwip_init\<close> that initialises the memory; \<open>ram_heap\<close> is the address of the heap's array. The other modules it
  initialises have no state here, or start from the zeroed memory.
\<close>

definition lwip_init :: "nat \<Rightarrow> 'a mstate_scheme \<Rightarrow> 'a mstate_scheme" where
  "lwip_init ram_heap w = w\<lparr>hp := mem_init ram_heap (hp w), pl := memp_init (pl w)\<rparr>"

definition IP4_ADDR :: "u8 \<Rightarrow> u8 \<Rightarrow> u8 \<Rightarrow> u8 \<Rightarrow> u32" where
  "IP4_ADDR a b c d = PP_HTONL (push_bit 24 (ucast a) OR push_bit 16 (ucast b) OR push_bit 8 (ucast c) OR ucast d)"

text \<open>
  The first part of \<^verbatim>\<open>main\<close>, until the interface is up. The writes that start the timer do not touch this state: it is the
  counter that \<open>Sys_Arch\<close> reads.
\<close>

definition main_netif :: "'a nstate_scheme addr_changed \<Rightarrow> nat \<Rightarrow> nat \<Rightarrow> 'a nstate_scheme \<Rightarrow> 'a nstate_scheme option" where
  "main_netif chg ram_heap n w = do {
     let w = lwip_init ram_heap (debug_leds_out_write 0x01 w);
     let w = debug_leds_out_write 0x03 w;
     (_, w) \<leftarrow> netif_add chg (Some n) (Some (IP4_ADDR 192 168 1 101)) (Some (IP4_ADDR 255 255 255 0)) (Some (IP4_ADDR 192 168 1 1))
       (Some ethernetif_init) Ethernet_input w;
     let w = netif_set_default (Some n) w;
     netif_set_up (Some n) w
   }"

section \<open>Numbers of interfaces\<close>

abbreviation netif_seg :: "'a dstate_scheme \<Rightarrow> nat option \<Rightarrow> nat list \<Rightarrow> bool" where
  "netif_seg w \<equiv> lseg (\<lambda>n. nif_next (netifs w n))"

lemma lseg_fun_upd: "n \<notin> set ns \<Longrightarrow> lseg (L(n := x)) l ns = lseg L l ns"
  by (induction ns arbitrary: l) auto

lemma netif_seg_set: "n \<notin> set ns \<Longrightarrow> netif_seg (set_netif n f w) l ns = netif_seg w l ns"
  by (induction ns arbitrary: l) (auto simp: set_netif_def)

lemma number_taken_spec:
  assumes "netif_seg w l ns" "n \<notin> set ns" "k + length ns \<le> 255"
  shows "number_taken n l k w = Some (case List.find (\<lambda>m. if_num (netifs w m) = if_num (netifs w n)) ns of
      None \<Rightarrow> (None, w) | Some m \<Rightarrow> (Some m, set_netif n (\<lambda>f. f\<lparr>if_num := if_num f + 1\<rparr>) w))"
  using assms
proof (induction ns arbitrary: l k)
  case Nil
  then show ?case by (simp add: number_taken.simps)
next
  case (Cons m ns)
  then show ?case using Cons.IH [of "nif_next (netifs w m)" "k + 1"] by (subst number_taken.simps) auto
qed

lemma set_netif_twice [simp]: "set_netif n f (set_netif n g w) = set_netif n (\<lambda>x. f (g x)) w"
  by (simp add: set_netif_def)

lemma set_netif_list [simp]: "netif_list (set_netif n f w) = netif_list w" for w :: "'a istate_scheme"
  by (simp add: set_netif_def)

text \<open>The number that the search starts from.\<close>

definition first_number :: "netif \<Rightarrow> u8" where
  "first_number f = (if if_num f = 255 then 0 else if_num f)"

lemma first_number_less: "unat (first_number f) < 255"
proof -
  have "unat (if_num f) < 256" using unsigned_less [where 'a = nat and w = "if_num f"] by simp
  then show ?thesis by (auto simp: first_number_def word_unat_eq_iff)
qed

lemma choose_number_step:
  assumes "netif_seg w (netif_list w) ns" "n \<notin> set ns" "length ns \<le> 255"
  shows "choose_number n w =
    (if first_number (netifs w n) \<in> (\<lambda>m. if_num (netifs w m)) ` set ns
     then choose_number n (set_netif n (\<lambda>f. f\<lparr>if_num := first_number (netifs w n) + 1\<rparr>) w)
     else Some (set_netif n (\<lambda>f. f\<lparr>if_num := first_number (netifs w n)\<rparr>) w))"
proof -
  let ?c = "first_number (netifs w n)"
  define v where "v = set_netif n (\<lambda>f. f\<lparr>if_num := ?c\<rparr>) w"
  have "(netifs w)(n := (netifs w n)\<lparr>if_num := if_num (netifs w n)\<rparr>) = netifs w" by simp
  then have v: "(if if_num (netifs w n) = 255 then set_netif n (\<lambda>f. f\<lparr>if_num := 0\<rparr>) w else w) = v"
    unfolding v_def first_number_def set_netif_def by simp
  have s: "netifs v m = netifs w m" if "m \<in> set ns" for m using that assms(2) by (auto simp: v_def set_netif_def)
  have "if_num (netifs v n) = ?c" by (simp add: v_def set_netif_def)
  moreover have "netif_seg v (netif_list w) ns" using assms(1,2) by (simp add: v_def netif_seg_set)
  ultimately have t: "number_taken n (netif_list w) 0 v = Some (case List.find (\<lambda>m. if_num (netifs v m) = ?c) ns of
      None \<Rightarrow> (None, v) | Some m \<Rightarrow> (Some m, set_netif n (\<lambda>f. f\<lparr>if_num := if_num f + 1\<rparr>) v))"
    using number_taken_spec [of v "netif_list w" ns n 0] assms(2,3) by simp
  show ?thesis
  proof (cases "List.find (\<lambda>m. if_num (netifs v m) = ?c) ns")
    case None
    then have "?c \<notin> (\<lambda>m. if_num (netifs w m)) ` set ns" using s by (auto simp: find_None_iff)
    then show ?thesis using None t by (subst choose_number.simps) (simp add: v v_def)
  next
    case (Some m)
    then have "m \<in> set ns" "if_num (netifs v m) = ?c" by (auto simp: find_Some_iff)
    then have "?c \<in> (\<lambda>m. if_num (netifs w m)) ` set ns" using s by force
    then show ?thesis using Some t by (subst choose_number.simps) (simp add: v v_def)
  qed
qed

lemma choose_number_ends:
  assumes "netif_seg w (netif_list w) ns" "n \<notin> set ns" "length ns \<le> 255"
    and "(unat (first_number (netifs w n)) + d) mod 255 \<notin> (\<lambda>m. unat (if_num (netifs w m))) ` set ns"
  shows "\<exists>c. choose_number n w = Some (set_netif n (\<lambda>f. f\<lparr>if_num := c\<rparr>) w) \<and> c \<noteq> 255 \<and> c \<notin> (\<lambda>m. if_num (netifs w m)) ` set ns"
  using assms
proof (induction d arbitrary: w)
  case 0
  have b: "first_number (netifs w n) \<noteq> 255" by (simp add: first_number_def)
  have "first_number (netifs w n) \<notin> (\<lambda>m. if_num (netifs w m)) ` set ns" using 0(4) first_number_less [of "netifs w n"] by auto
  then show ?case using choose_number_step [OF 0(1-3)] b by auto
next
  case (Suc d)
  let ?c = "first_number (netifs w n)"
  have b: "?c \<noteq> 255" by (simp add: first_number_def)
  note lt = first_number_less [of "netifs w n"]
  show ?case
  proof (cases "?c \<in> (\<lambda>m. if_num (netifs w m)) ` set ns")
    case False
    then show ?thesis using choose_number_step [OF Suc.prems(1-3)] b by auto
  next
    case True
    define v where "v = set_netif n (\<lambda>f. f\<lparr>if_num := ?c + 1\<rparr>) w"
    have s: "netifs v m = netifs w m" if "m \<in> set ns" for m using that Suc.prems(2) by (auto simp: v_def set_netif_def)
    have im: "(\<lambda>m. f (if_num (netifs v m))) ` set ns = (\<lambda>m. f (if_num (netifs w m))) ` set ns" for f :: "u8 \<Rightarrow> 'c" using s by auto
    have u: "unat (?c + 1) = unat ?c + 1" using lt by (simp add: unat_word_ariths)
    have fn: "unat (first_number (netifs v n)) = (unat ?c + 1) mod 255"
      using u lt by (cases "unat ?c = 254") (auto simp: v_def set_netif_def first_number_def word_unat_eq_iff)
    have "(unat (first_number (netifs v n)) + d) mod 255 \<notin> (\<lambda>m. unat (if_num (netifs v m))) ` set ns"
      using Suc.prems(4) unfolding fn im by (simp add: mod_simps)
    moreover have "netif_seg v (netif_list v) ns" using Suc.prems(1,2) by (simp add: v_def netif_seg_set)
    ultimately obtain c where c: "choose_number n v = Some (set_netif n (\<lambda>f. f\<lparr>if_num := c\<rparr>) v)" "c \<noteq> 255" "c \<notin> (\<lambda>m. if_num (netifs v m)) ` set ns"
      using Suc.IH [of v] Suc.prems(2,3) by blast
    have "choose_number n w = choose_number n v" using choose_number_step [OF Suc.prems(1-3)] True by (simp add: v_def)
    then show ?thesis using c im [of "\<lambda>x. x"] by (intro exI [of _ c]) (simp add: v_def)
  qed
qed

lemma choose_number_unique:
  assumes "netif_seg w (netif_list w) ns" "n \<notin> set ns" "length ns < 255"
  shows "\<exists>c. choose_number n w = Some (set_netif n (\<lambda>f. f\<lparr>if_num := c\<rparr>) w) \<and> c \<noteq> 255 \<and> c \<notin> (\<lambda>m. if_num (netifs w m)) ` set ns"
proof -
  let ?U = "(\<lambda>m. unat (if_num (netifs w m))) ` set ns" and ?c = "unat (first_number (netifs w n))"
  have "card ?U \<le> length ns" using card_image_le [of "set ns"] card_length [of ns] by (metis List.finite_set le_trans)
  then have "\<not> {0..<255} \<subseteq> ?U" using card_mono [of ?U "{0..<255}"] assms(3) by auto
  then obtain x where x: "x < 255" "x \<notin> ?U" by (auto simp: subset_iff)
  have "?c + (x + 255 - ?c) = x + 255" using first_number_less [of "netifs w n"] by simp
  then have "(?c + (x + 255 - ?c)) mod 255 = x" using x(1) by simp
  then show ?thesis using choose_number_ends [OF assms(1,2), of "x + 255 - ?c"] assms(3) x(2) by simp
qed

section \<open>Adding an interface\<close>

text \<open>The interface as \<^verbatim>\<open>netif_add\<close> with the driver's initialisation leaves it.\<close>

definition added :: "u32 option \<Rightarrow> u32 option \<Rightarrow> u32 option \<Rightarrow> netif_input_fn \<Rightarrow> u8 \<Rightarrow> nat option \<Rightarrow> netif" where
  "added ipaddr nm g inp c l =
     \<lparr>nif_next = l, ip_addr = (case ipaddr of None \<Rightarrow> 0 | Some a \<Rightarrow> a), netmask = (case nm of None \<Rightarrow> 0 | Some a \<Rightarrow> a), gw = (case g of None \<Rightarrow> 0 | Some a \<Rightarrow> a),
      nif_input = inp, nif_output = Etharp_output, nif_linkoutput = Low_level_output, mtu = 1500, hwaddr = fpga_mac, hwaddr_len = 6,
      netif_flags = 0x0E, if_num = c\<rparr>"

lemma netif_set_addr_down:
  assumes "netif_flags (netifs w n) = 0" "ip_addr (netifs w n) = 0" "\<And>a v. chg 0 a v = Some v"
  shows "netif_set_addr chg n ipaddr nm g w = Some (set_netif n (\<lambda>f. f\<lparr>ip_addr := (case ipaddr of None \<Rightarrow> 0 | Some a \<Rightarrow> a),
    netmask := (case nm of None \<Rightarrow> 0 | Some a \<Rightarrow> a), gw := (case g of None \<Rightarrow> 0 | Some a \<Rightarrow> a)\<rparr>) w)"
proof -
  have same: "set_netif n (\<lambda>f. f) v = v" for v :: "'a dstate_scheme" by (simp add: set_netif_def)
  let ?a = "case ipaddr of None \<Rightarrow> 0 | Some a \<Rightarrow> a" and ?m = "case nm of None \<Rightarrow> 0 | Some a \<Rightarrow> a" and ?g = "case g of None \<Rightarrow> 0 | Some a \<Rightarrow> a"
  have 1: "netif_do_set_ipaddr chg n x v = Some (x \<noteq> 0, set_netif n (\<lambda>f. f\<lparr>ip_addr := x\<rparr>) v)"
    if "netif_flags (netifs v n) = 0" "ip_addr (netifs v n) = 0" for x v
  proof -
    have "(netifs v n)\<lparr>ip_addr := 0\<rparr> = netifs v n" using that(2) by (cases "netifs v n") simp
    then have "set_netif n (\<lambda>f. f\<lparr>ip_addr := 0\<rparr>) v = v" by (simp add: set_netif_def)
    then show ?thesis using that assms(3) by (cases "x = 0") (simp_all add: netif_do_set_ipaddr_def netif_issue_reports_def set_netif_def)
  qed
  have 2: "snd (netif_do_set_netmask n x v) = set_netif n (\<lambda>f. f\<lparr>netmask := x\<rparr>) v" for x v by (auto simp: netif_do_set_netmask_def set_netif_def)
  have 3: "snd (netif_do_set_gw n x v) = set_netif n (\<lambda>f. f\<lparr>gw := x\<rparr>) v" for x v by (auto simp: netif_do_set_gw_def set_netif_def)
  define a m h where "a = ?a" "m = ?m" "h = ?g"
  have any: "(case x of None \<Rightarrow> IPADDR_ANY | Some a \<Rightarrow> a) = (case x of None \<Rightarrow> 0 | Some a \<Rightarrow> a)" for x
    by (cases x) (simp_all add: IPADDR_ANY_def)
  have "netif_set_addr chg n ipaddr nm g w = Some (set_netif n (\<lambda>f. f\<lparr>ip_addr := a, netmask := m, gw := h\<rparr>) w)"
    using assms(1,2) unfolding netif_set_addr_def Let_def any a_m_h_def [symmetric]
    by (cases "a = 0"; cases "netifs w n") (simp_all add: 1 2 3 ip4_addr_isany_val_def IPADDR_ANY_def, simp_all add: set_netif_def 1)
  then show ?thesis by (simp add: a_m_h_def)
qed

lemma netif_add_spec:
  fixes w :: "'a nstate_scheme"
  assumes "netif_seg w (netif_list w) ns" "n \<notin> set ns" "length ns < 255" "\<And>a v. chg 0 a v = Some v"
  shows "\<exists>c. netif_add chg (Some n) ipaddr nm g (Some ethernetif_init) inp w =
      Some (Some n, w\<lparr>netifs := (netifs w)(n := added ipaddr nm g inp c (netif_list w)),
        mac := (mac w)\<lparr>writer_pending := False, reader_pending := False\<rparr>, txslot := 0,
        netif_list := Some n, netif_num := (if c = 254 then 0 else c + 1)\<rparr>) \<and>
    c \<noteq> 255 \<and> c \<notin> (\<lambda>m. if_num (netifs w m)) ` set ns"
proof -
  let ?v = "set_netif n (\<lambda>f. f\<lparr>ip_addr := 0, netmask := 0, gw := 0, nif_output := Netif_null_output_ip4, mtu := 0, netif_flags := 0,
    if_num := netif_num w, nif_input := inp\<rparr>) w"
  obtain u where u: "netif_set_addr chg n ipaddr nm g ?v = Some u" "u = set_netif n (\<lambda>f. f\<lparr>ip_addr := (case ipaddr of None \<Rightarrow> 0 | Some a \<Rightarrow> a),
    netmask := (case nm of None \<Rightarrow> 0 | Some a \<Rightarrow> a), gw := (case g of None \<Rightarrow> 0 | Some a \<Rightarrow> a)\<rparr>) ?v"
    using netif_set_addr_down [of ?v n chg] assms(4) by (simp add: set_netif_def)
  define y where "y = snd (ethernetif_init n u)"
  have y: "ethernetif_init n u = (ERR_OK, y)" by (simp add: y_def ethernetif_init_def Let_def)
  have ye: "y = w\<lparr>netifs := (netifs w)(n := added ipaddr nm g inp (netif_num w) (nif_next (netifs w n))),
        mac := (mac w)\<lparr>writer_pending := False, reader_pending := False\<rparr>, txslot := 0\<rparr>"
    by (cases "netifs w n") (simp add: y_def ethernetif_init_def Let_def u(2) set_netif_def set_mac_def added_def layout_simps netif_flag_defs)
  have s: "netifs y m = netifs w m" if "m \<in> set ns" for m using that assms(2) by (auto simp: ye)
  have "netif_seg y (netif_list y) ns"
    using assms(1) lseg_fun_upd [OF assms(2), of "\<lambda>n. nif_next (netifs w n)"] by (simp add: ye fun_upd_def if_distrib cong: if_cong)
  then obtain c where c: "choose_number n y = Some (set_netif n (\<lambda>f. f\<lparr>if_num := c\<rparr>) y)" "c \<noteq> 255" "c \<notin> (\<lambda>m. if_num (netifs y m)) ` set ns"
    using choose_number_unique assms(2,3) by blast
  have "netif_add chg (Some n) ipaddr nm g (Some ethernetif_init) inp w =
      Some (Some n, w\<lparr>netifs := (netifs w)(n := added ipaddr nm g inp c (netif_list w)),
        mac := (mac w)\<lparr>writer_pending := False, reader_pending := False\<rparr>, txslot := 0,
        netif_list := Some n, netif_num := (if c = 254 then 0 else c + 1)\<rparr>)"
    using u(1) y c(1) by (simp add: netif_add_def Let_def) (simp add: set_netif_def ye added_def)
  moreover have "c \<notin> (\<lambda>m. if_num (netifs w m)) ` set ns" using c(3) s by auto
  ultimately show ?thesis using c(2) by blast
qed

section \<open>Start-up\<close>

lemma mem_init_room: "mem_malloc 60 (mem_init a h) \<noteq> Some (None, mem_init a h)"
proof -
  have "heap_inv (mem_init a h) [(3072, False)]"
    by (simp add: heap_inv_def heap_blocks_def mem_init_def LWIP_MEM_ALIGN_SIZE_def layout_simps)
  from mem_malloc_blocks [OF this, of 60] show ?thesis by (auto simp: fit_result_def alloc_spec_def)
qed

text \<open>The state after the interface is added and made the default, before it is set up.\<close>

lemma set_up_announces:
  assumes "mem_ok w" "layout_ok w" "tx_alive w" "mem_malloc 60 (hp w) \<noteq> Some (None, hp w)"
    "netifs w n = added (Some ip) nm g inp c l" "ip \<noteq> 0"
  shows "\<exists>w'. netif_set_up (Some n) w = Some w' \<and> keeps (netif_set_flags n NETIF_FLAG_UP w) w' \<and>
    sent (mac w') = sent (mac w) @ [(txslot w, eth_frame ethbroadcast fpga_mac ETHTYPE_ARP (arp_msg ARP_REQUEST fpga_mac ip ethzero ip))]"
proof -
  let ?v = "netif_set_flags n NETIF_FLAG_UP w"
  have v: "mem_ok ?v" "layout_ok ?v" "tx_alive ?v" "hp ?v = hp w" "mac ?v = mac w" "txslot ?v = txslot w"
    using assms(1-3) by (simp_all add: netif_set_flags_def set_netif_def mem_ok_def layout_ok_def slots_apart_def tx_alive_def)
  have n: "netifs ?v n = (added (Some ip) nm g inp c l)\<lparr>netif_flags := 0x0F\<rparr>"
    by (simp add: netif_set_flags_def set_netif_def assms(5) netif_flag_defs) (simp add: added_def)
  then have f: "hwaddr (netifs ?v n) = fpga_mac" "ip_addr (netifs ?v n) = ip" "netif_flags (netifs ?v n) = 0x0F" "eth_netif (netifs ?v n)"
    by (simp_all add: added_def eth_netif_def fpga_mac_def layout_simps)
  obtain e w' where w': "etharp_raw (Some n) fpga_mac ethbroadcast fpga_mac ip ethzero ip ARP_REQUEST ?v = Some (e, w')" "keeps ?v w'"
    "sent (mac w') = sent (mac w) @ [(txslot w, eth_frame ethbroadcast fpga_mac ETHTYPE_ARP (arp_msg ARP_REQUEST fpga_mac ip ethzero ip))]"
    using etharp_raw_spec [OF v(1-3) f(4), of fpga_mac ethbroadcast fpga_mac ethzero ip ip ARP_REQUEST] assms(4) v(4-6)
    by (auto simp: fpga_mac_def ethbroadcast_def ethzero_def)
  have "netif_set_up (Some n) w = netif_issue_reports n (NETIF_REPORT_TYPE_IPV4 OR NETIF_REPORT_TYPE_IPV6) ?v"
    using assms(5) by (simp add: netif_set_up_def added_def netif_flag_defs)
  also have "\<dots> = Option.bind (etharp_gratuitous n ?v) (\<lambda>(_, w). Some w)"
    using assms(6) f by (simp add: netif_issue_reports_def netif_flag_defs NETIF_REPORT_TYPE_IPV4_def NETIF_REPORT_TYPE_IPV6_def ip4_addr_isany_val_def IPADDR_ANY_def)
  also have "\<dots> = Some w'" using w'(1) f by (simp add: etharp_gratuitous_def etharp_request_def etharp_request_dst_def)
  finally show ?thesis using w'(2,3) by auto
qed

lemma fixed_default: "fixed w' = fixed w \<Longrightarrow> netif_default w' = netif_default w"
  for w w' :: "'a istate_scheme"
  by (cases w; cases w') (simp add: fixed_def)

text \<open>The state of the stack when \<^verbatim>\<open>main\<close> starts: zeroed tables, and memory that the linker has laid out.\<close>

definition cold :: "nat \<Rightarrow> 'a nstate_scheme \<Rightarrow> bool" where
  "cold ram_heap w \<longleftrightarrow>
     desc_ok (desc (pl w)) \<and> dsize (desc (pl w) MEMP_PBUF_POOL) = 1540 \<and> layout_ok (lwip_init ram_heap w) \<and>
     (\<forall>n. \<exists>k\<ge>n. reader_ready (mac w) k) \<and> arp_initial w \<and> netif_list w = None"

text \<open>
  C8: The start-up makes the stack ready. Whatever the memory holds, if the tables are zeroed and the regions of memory are apart,
  initialising the memory, adding the interface and setting it up ends without a failed assertion; the board's address is
  announced to the network in one broadcast frame, no memory stays in use, and the state has everything that the theorems
  on frames ask for.
\<close>

theorem startup_ready:
  fixes w :: "'a nstate_scheme"
  assumes "cold ram_heap w" "\<And>a v. chg 0 a v = Some v"
  shows "\<exists>w'. main_netif chg ram_heap n w = Some w' \<and> mem_ok w' \<and> layout_ok w' \<and> tx_alive w' \<and> arp_inv w' \<and> arp_idle w' \<and>
    tables w' = tables (lwip_init ram_heap w) \<and> live (hp w') = Map.empty \<and>
    netif_seg w' (netif_list w') [n] \<and> netif_default w' = Some n \<and>
    netifs w' n = (added (Some 0x6501A8C0) (Some 0x00FFFFFF) (Some 0x0101A8C0) Ethernet_input (if_num (netifs w' n)) None)\<lparr>netif_flags := 0x0F\<rparr> \<and>
    sent (mac w') = sent (mac w) @ [(0, eth_frame ethbroadcast fpga_mac ETHTYPE_ARP (arp_msg ARP_REQUEST fpga_mac 0x6501A8C0 ethzero 0x6501A8C0))]"
proof -
  define v where "v = debug_leds_out_write 0x03 (lwip_init ram_heap (debug_leds_out_write 0x01 w))"
  have v: "hp v = mem_init ram_heap (hp w)" "pl v = memp_init (pl w)" "netifs v = netifs w" "mac v = (mac w)\<lparr>leds := 3\<rparr>" "netif_list v = None"
    "arp_table v = arp_table w" "etharp_cached_entry v = etharp_cached_entry w"
    using assms(1) by (simp_all add: v_def debug_leds_out_write_def set_mac_def lwip_init_def cold_def)
  have ip: "IP4_ADDR 192 168 1 101 = 0x6501A8C0" "IP4_ADDR 255 255 255 0 = 0x00FFFFFF" "IP4_ADDR 192 168 1 1 = 0x0101A8C0"
    by (simp_all add: IP4_ADDR_def PP_HTONL_def)
  let ?A = "\<lambda>c. added (Some 0x6501A8C0) (Some 0x00FFFFFF) (Some 0x0101A8C0) Ethernet_input c None"
  obtain c where c: "netif_add chg (Some n) (Some 0x6501A8C0) (Some 0x00FFFFFF) (Some 0x0101A8C0) (Some ethernetif_init) Ethernet_input v =
      Some (Some n, v\<lparr>netifs := (netifs v)(n := ?A c), mac := (mac v)\<lparr>writer_pending := False, reader_pending := False\<rparr>, txslot := 0,
        netif_list := Some n, netif_num := (if c = 254 then 0 else c + 1)\<rparr>)"
    using netif_add_spec [of v "[]" n chg "Some 0x6501A8C0" "Some 0x00FFFFFF" "Some 0x0101A8C0" Ethernet_input] assms(2) by (auto simp: v(5))
  define u where "u = netif_set_default (Some n) (v\<lparr>netifs := (netifs v)(n := ?A c), mac := (mac v)\<lparr>writer_pending := False, reader_pending := False\<rparr>, txslot := 0,
        netif_list := Some n, netif_num := (if c = 254 then 0 else c + 1)\<rparr>)"
  have u: "hp u = mem_init ram_heap (hp w)" "pl u = memp_init (pl w)" "netifs u n = ?A c" "txslot u = 0" "sent (mac u) = sent (mac w)"
    "mac_base (mac u) = mac_base (mac w)" "reader_ready (mac u) = reader_ready (mac w)" "netif_list u = Some n" "netif_default u = Some n"
    "arp_table u = arp_table w" "etharp_cached_entry u = etharp_cached_entry w"
    by (simp_all add: u_def netif_set_default_def v)
  have "pools_ok (memp_init (pl w))" "desc (memp_init (pl w)) = desc (pl w)"
    using memp_init_inv [of "pl w"] assms(1) by (auto simp: cold_def pools_ok_iff)
  then have ok: "mem_ok u" "layout_ok u" "tx_alive u"
    using assms(1) mem_init_ok u
    by (simp_all add: mem_ok_def cold_def layout_ok_def lwip_init_def slots_apart_def tx_alive_def layout_simps)
  obtain w' where w': "netif_set_up (Some n) u = Some w'" "keeps (netif_set_flags n NETIF_FLAG_UP u) w'"
    "sent (mac w') = sent (mac w) @ [(0, eth_frame ethbroadcast fpga_mac ETHTYPE_ARP (arp_msg ARP_REQUEST fpga_mac 0x6501A8C0 ethzero 0x6501A8C0))]"
    using set_up_announces [OF ok _ u(3)] mem_init_room u(1,4,5) by auto
  let ?f = "netif_set_flags n NETIF_FLAG_UP u"
  have k: "mem_ok w'" "tables w' = tables ?f" "fixed w' = fixed ?f" "tx_alive w'" using w'(2) by (simp_all add: keeps_def)
  have f: "netifs w' = netifs ?f" "netif_list w' = netif_list ?f" "netif_default w' = netif_default ?f" "arp_table w' = arp_table ?f"
    "etharp_cached_entry w' = etharp_cached_entry ?f"
    using fixed_netifs [OF k(3)] fixed_list [OF k(3)] fixed_default [OF k(3)] fixed_arp [OF k(3)] by simp_all
  have F: "netifs ?f n = (?A c)\<lparr>netif_flags := 0x0F\<rparr>" "netif_list ?f = Some n" "netif_default ?f = Some n" "arp_table ?f = arp_table w"
    "etharp_cached_entry ?f = etharp_cached_entry w" "layout_ok ?f" "tables ?f = tables (lwip_init ram_heap w)"
    using u ok(2) by (simp_all add: netif_set_flags_def set_netif_def netif_flag_defs layout_ok_def slots_apart_def tables_def lwip_init_def)
      (simp add: added_def)
  have "arp_initial w'" using assms(1) f F by (simp add: cold_def arp_initial_def)
  then have "arp_inv w'" "arp_idle w'" by (auto simp: arp_initial_inv arp_initial_def arp_idle_def)
  moreover have "main_netif chg ram_heap n w = Some w'"
    using c w'(1) unfolding main_netif_def Let_def ip v_def [symmetric] by (simp add: u_def [symmetric])
  moreover have "live (hp w') = Map.empty" using k(2) mem_init_live u(1) by (simp add: tables_def netif_set_flags_def set_netif_def)
  moreover have "layout_ok w'" using layout_ok_fixed [OF k(3)] F(6) by simp
  ultimately show ?thesis using k w'(3) f F by (intro exI [of _ w']) (simp add: added_def)
qed

definition cold0 :: nstate where
  "cold0 = istate.extend (astate.extend arp0 (istate.fields 0 \<lparr>current_netif = None, current_input_netif = None, current_ip4_header = None,
      current_ip_header_tot_len = 0, current_iphdr_src = 0, current_iphdr_dest = 0\<rparr> None None)) (nstate.fields 0)"

lemma cold0_cold: "cold 5 cold0" "mac cold0 = mac0"
proof -
  have s: "dstate.truncate cold0 = dstate.truncate arp0" "arp_table cold0 = arp_table arp0" "etharp_cached_entry cold0 = etharp_cached_entry arp0" "netif_list cold0 = None"
    by (simp_all add: cold0_def arp0_def driver0_def sample_def mstate.defs dstate.defs astate.defs istate.defs nstate.defs)
  note l = lower_sel [OF s(1)]
  show m: "mac cold0 = mac0" by (simp add: l)
  have d: "desc (pl cold0) = desc0" using memp_init_inv(2) [of pools0] desc0_ok by (simp add: l pools0_def)
  have "desc (memp_init (pl cold0)) = desc0" using memp_init_inv(2) [of "pl cold0"] desc0_ok d by simp
  moreover have "6000 \<le> a \<and> a + 1540 \<le> 100000" if "a \<in> set (elems (desc0 MEMP_PBUF_POOL))" for a
    using that by (auto simp: elems_def desc0_def LWIP_MEM_ALIGN_SIZE_def layout_simps)
  ultimately have "layout_ok (lwip_init 5 cold0)"
    by (fastforce simp: layout_ok_def slots_apart_def lwip_init_def mem_init_def LWIP_MEM_ALIGN_SIZE_def layout_simps m mac0_def)
  moreover have "\<exists>k\<ge>n. reader_ready (mac cold0) k" for n using driver0_ok(2) m by (simp add: tx_alive_def)
  moreover have "arp_initial cold0" using arp0_sel(8) by (simp add: arp_initial_def s)
  ultimately show "cold 5 cold0" using desc0_ok s(4) by (simp add: cold_def d) (simp add: desc0_def)
qed

theorem startup_ready_witness:
  "\<exists>w'. main_netif (\<lambda>_ _ w. Some w) 5 0 cold0 = Some w' \<and> netif_list w' = Some 0 \<and> map snd (sent (mac w')) = [[255, 255, 255, 255, 255, 255, 2, 0, 0, 0, 0, 1, 8, 6,
     0, 1, 8, 0, 6, 4, 0, 1, 2, 0, 0, 0, 0, 1, 192, 168, 1, 101, 0, 0, 0, 0, 0, 0, 192, 168, 1, 101]]"
proof -
  obtain w' where w': "main_netif (\<lambda>_ _ w. Some w) 5 0 cold0 = Some w'" "netif_seg w' (netif_list w') [0]"
    "sent (mac w') = sent (mac cold0) @ [(0, eth_frame ethbroadcast fpga_mac ETHTYPE_ARP (arp_msg ARP_REQUEST fpga_mac 0x6501A8C0 ethzero 0x6501A8C0))]"
    using startup_ready [OF cold0_cold(1), of "\<lambda>_ _ w. Some w" 0] by blast
  moreover have "netif_list w' = Some 0" using w'(2) by simp
  ultimately show ?thesis
    by (intro exI [of _ w']) (simp add: cold0_cold(2) mac0_def eth_frame_def ethbroadcast_def fpga_mac_def ethzero_def ETHTYPE_ARP_def arp_msg_def ARP_REQUEST_def
      le16_bytes_def le_bytes_def upt_rec drop_bit_eq_div)
qed

end
