(* ===== verification/Tcp_Types.thy ===== *)
theory Tcp_Types
  imports Netif
begin

text \<open>
  The data of TCP: protocol control blocks, segments and the globals of \<^verbatim>\<open>core/tcp.c\<close> and \<^verbatim>\<open>core/tcp_in.c\<close>, and the macros
  of \<^verbatim>\<open>tcp_priv.h\<close> and \<^verbatim>\<open>prot/tcp.h\<close>, as \<^verbatim>\<open>lwipopts.h\<close> configures them: no window scaling, timestamps, selective
  acknowledgements or backlog; data that arrives out of order is queued. A listening block (\<^verbatim>\<open>struct tcp_pcb_listen\<close>) is a
  prefix of \<^verbatim>\<open>struct tcp_pcb\<close> with the accept function behind it, and the code casts between the two: here both are
  \<open>tcp_pcb\<close>, of which a listening block uses its own fields only.
\<close>

section \<open>Constants\<close>

definition TCP_HLEN :: nat where [layout_simps]: "TCP_HLEN = 20"
definition TCP_MSS :: u16 where "TCP_MSS = 1460"
definition INITIAL_MSS :: u16 where "INITIAL_MSS = 536"
definition TCP_WND :: u16 where "TCP_WND = 4 * TCP_MSS"
definition TCP_SND_BUF :: u16 where "TCP_SND_BUF = 2 * TCP_MSS"
definition TCP_SND_QUEUELEN :: u16 where "TCP_SND_QUEUELEN = 4 * TCP_SND_BUF div TCP_MSS"
definition TCP_OVERSIZE :: u16 where "TCP_OVERSIZE = TCP_MSS"
definition TCP_WND_UPDATE_THRESHOLD :: u32 where "TCP_WND_UPDATE_THRESHOLD = min (ucast (TCP_WND div 4)) (ucast TCP_MSS * 4)"
definition TCP_SNDQUEUELEN_OVERFLOW :: u16 where "TCP_SNDQUEUELEN_OVERFLOW = 0xffff - 3"
definition TCP_MAXRTX :: u8 where "TCP_MAXRTX = 12"
definition TCP_SYNMAXRTX :: u8 where "TCP_SYNMAXRTX = 6"
definition TCP_TTL :: u8 where "TCP_TTL = 255"
definition TCP_SLOW_INTERVAL :: u32 where "TCP_SLOW_INTERVAL = 500"
definition TCP_FIN_WAIT_TIMEOUT :: u32 where "TCP_FIN_WAIT_TIMEOUT = 20000"
definition TCP_SYN_RCVD_TIMEOUT :: u32 where "TCP_SYN_RCVD_TIMEOUT = 20000"
definition TCP_OOSEQ_TIMEOUT :: u32 where "TCP_OOSEQ_TIMEOUT = 6"
definition TCP_MSL :: u32 where "TCP_MSL = 60000"
definition TCP_KEEPIDLE_DEFAULT :: u32 where "TCP_KEEPIDLE_DEFAULT = 7200000"
definition TCP_KEEPINTVL_DEFAULT :: u32 where "TCP_KEEPINTVL_DEFAULT = 75000"
definition TCP_MAXIDLE :: u32 where "TCP_MAXIDLE = 9 * TCP_KEEPINTVL_DEFAULT"
definition TCP_PRIO_NORMAL :: u8 where "TCP_PRIO_NORMAL = 64"
definition TCP_PRIO_MAX :: u8 where "TCP_PRIO_MAX = 127"
definition TCP_LOCAL_PORT_RANGE_START :: u16 where "TCP_LOCAL_PORT_RANGE_START = 0xc000"
definition TCP_LOCAL_PORT_RANGE_END :: u16 where "TCP_LOCAL_PORT_RANGE_END = 0xffff"
definition SOF_REUSEADDR :: u8 where "SOF_REUSEADDR = 0x04"
definition SOF_KEEPALIVE :: u8 where "SOF_KEEPALIVE = 0x08"
definition SOF_INHERITED :: u8 where "SOF_INHERITED = SOF_REUSEADDR OR SOF_KEEPALIVE"

definition TCP_FIN :: u8 where "TCP_FIN = 0x01"
definition TCP_SYN :: u8 where "TCP_SYN = 0x02"
definition TCP_RST :: u8 where "TCP_RST = 0x04"
definition TCP_PSH :: u8 where "TCP_PSH = 0x08"
definition TCP_ACK :: u8 where "TCP_ACK = 0x10"
definition TCP_FLAGS :: u16 where "TCP_FLAGS = 0x3f"

definition TF_ACK_DELAY :: u16 where "TF_ACK_DELAY = 0x01"
definition TF_ACK_NOW :: u16 where "TF_ACK_NOW = 0x02"
definition TF_INFR :: u16 where "TF_INFR = 0x04"
definition TF_CLOSEPEND :: u16 where "TF_CLOSEPEND = 0x08"
definition TF_RXCLOSED :: u16 where "TF_RXCLOSED = 0x10"
definition TF_FIN :: u16 where "TF_FIN = 0x20"
definition TF_NODELAY :: u16 where "TF_NODELAY = 0x40"
definition TF_NAGLEMEMERR :: u16 where "TF_NAGLEMEMERR = 0x80"
definition TF_RTO :: u16 where "TF_RTO = 0x0800"

definition TF_RESET :: u8 where "TF_RESET = 0x08"
definition TF_CLOSED :: u8 where "TF_CLOSED = 0x10"
definition TF_GOT_FIN :: u8 where "TF_GOT_FIN = 0x20"
definition PBUF_FLAG_PUSH :: u8 where "PBUF_FLAG_PUSH = 0x01"
definition PBUF_FLAG_TCP_FIN :: u8 where "PBUF_FLAG_TCP_FIN = 0x20"
definition TCP_WRITE_FLAG_COPY :: u8 where "TCP_WRITE_FLAG_COPY = 0x01"
definition TCP_WRITE_FLAG_MORE :: u8 where "TCP_WRITE_FLAG_MORE = 0x02"
definition TF_SEG_OPTS_MSS :: u8 where "TF_SEG_OPTS_MSS = 0x01"

section \<open>Data\<close>

datatype tcp_state =
    CLOSED | LISTEN | SYN_SENT | SYN_RCVD | ESTABLISHED | FIN_WAIT_1 | FIN_WAIT_2 | CLOSE_WAIT | CLOSING | LAST_ACK | TIME_WAIT

definition state_num :: "tcp_state \<Rightarrow> nat" where
  "state_num s =
     (case s of CLOSED \<Rightarrow> 0 | LISTEN \<Rightarrow> 1 | SYN_SENT \<Rightarrow> 2 | SYN_RCVD \<Rightarrow> 3 | ESTABLISHED \<Rightarrow> 4 | FIN_WAIT_1 \<Rightarrow> 5 | FIN_WAIT_2 \<Rightarrow> 6
      | CLOSE_WAIT \<Rightarrow> 7 | CLOSING \<Rightarrow> 8 | LAST_ACK \<Rightarrow> 9 | TIME_WAIT \<Rightarrow> 10)"

instantiation tcp_state :: linorder
begin

definition less_eq_tcp_state :: "tcp_state \<Rightarrow> tcp_state \<Rightarrow> bool" where
  "less_eq_tcp_state s t \<longleftrightarrow> state_num s \<le> state_num t"

definition less_tcp_state :: "tcp_state \<Rightarrow> tcp_state \<Rightarrow> bool" where
  "less_tcp_state s t \<longleftrightarrow> state_num s < state_num t"

instance
  by standard (auto simp: less_eq_tcp_state_def less_tcp_state_def state_num_def split: tcp_state.splits)

end

text \<open>Function pointers: null, a function of the stack, or one of the application, which is a number.\<close>

datatype tcp_recv_fn = Recv_NULL | Tcp_recv_null | Recv_fn nat
datatype tcp_accept_fn = Accept_NULL | Tcp_accept_null | Accept_fn nat

record tcp_pcb =
  local_ip :: u32
  remote_ip :: u32
  netif_idx :: u8
  so_options :: u8
  pcb_tos :: u8
  pcb_ttl :: u8
  pcb_next :: "nat option"
  callback_arg :: "nat option"
  pcb_state :: tcp_state
  prio :: u8
  local_port :: u16
  accept_fn :: tcp_accept_fn
  remote_port :: u16
  pcb_flags :: u16
  polltmr :: u8
  pollinterval :: u8
  last_timer :: u8
  tmr :: u32
  rcv_nxt :: u32
  rcv_wnd :: u16
  rcv_ann_wnd :: u16
  rcv_ann_right_edge :: u32
  rtime :: "16 word"
  pcb_mss :: u16
  rttest :: u32
  rtseq :: u32
  sa :: "16 word"
  sv :: "16 word"
  rto :: "16 word"
  nrtx :: u8
  dupacks :: u8
  lastack :: u32
  cwnd :: u16
  ssthresh :: u16
  rto_end :: u32
  snd_nxt :: u32
  snd_wl1 :: u32
  snd_wl2 :: u32
  snd_lbb :: u32
  snd_wnd :: u16
  snd_wnd_max :: u16
  snd_buf :: u16
  snd_queuelen :: u16
  unsent_oversize :: u16
  bytes_acked :: u16
  unsent :: "nat option"
  unacked :: "nat option"
  ooseq :: "nat option"
  refused_data :: "nat option"
  listener :: "nat option"
  sent_fn :: "nat option"
  recv_fn :: tcp_recv_fn
  connected_fn :: "nat option"
  poll_fn :: "nat option"
  errf :: "nat option"
  keep_idle :: u32
  persist_cnt :: u8
  persist_backoff :: u8
  persist_probe :: u8
  keep_cnt_sent :: u8

text \<open>A segment of one of the queues; \<open>seg_tcphdr\<close> is the address of its header.\<close>

record tcp_seg =
  seg_next :: "nat option"
  seg_p :: "nat option"
  seg_len :: u16
  seg_flags :: u8
  seg_tcphdr :: nat

text \<open>The globals that hold the segment being received.\<close>

record tcp_in =
  inseg :: tcp_seg
  in_tcphdr :: nat
  tcphdr_optlen :: u16
  tcphdr_opt1len :: u16
  tcphdr_opt2 :: "nat option"
  tcp_optidx :: u16
  in_seqno :: u32
  in_ackno :: u32
  recv_acked :: u16
  tcplen :: u16
  in_flags :: u8
  recv_flags :: u8
  recv_data :: "nat option"

datatype tcp_pcb_list = Tcp_listen_pcbs | Tcp_bound_pcbs | Tcp_active_pcbs | Tcp_tw_pcbs

record tstate = nstate +
  tcp_pcbs :: "nat \<Rightarrow> tcp_pcb"
  tcp_segs :: "nat \<Rightarrow> tcp_seg"
  tcp_pcb_lists :: "tcp_pcb_list \<Rightarrow> nat option"
  tcp_active_pcbs_changed :: bool
  tcp_port :: u16
  tcp_ticks :: u32
  tcp_timer :: u8
  tcp_timer_ctr :: u8
  iss :: u32
  tcp_input_pcb :: "nat option"
  tin :: tcp_in

definition set_pcb :: "nat \<Rightarrow> (tcp_pcb \<Rightarrow> tcp_pcb) \<Rightarrow> 'a tstate_scheme \<Rightarrow> 'a tstate_scheme" where
  "set_pcb pcb f w = w\<lparr>tcp_pcbs := (tcp_pcbs w)(pcb := f (tcp_pcbs w pcb))\<rparr>"

definition set_seg :: "nat \<Rightarrow> (tcp_seg \<Rightarrow> tcp_seg) \<Rightarrow> 'a tstate_scheme \<Rightarrow> 'a tstate_scheme" where
  "set_seg sg f w = w\<lparr>tcp_segs := (tcp_segs w)(sg := f (tcp_segs w sg))\<rparr>"

definition set_in :: "(tcp_in \<Rightarrow> tcp_in) \<Rightarrow> 'a tstate_scheme \<Rightarrow> 'a tstate_scheme" where
  "set_in f w = w\<lparr>tin := f (tin w)\<rparr>"

definition tcp_set_flags :: "nat \<Rightarrow> u16 \<Rightarrow> 'a tstate_scheme \<Rightarrow> 'a tstate_scheme" where
  "tcp_set_flags pcb f = set_pcb pcb (\<lambda>c. c\<lparr>pcb_flags := pcb_flags c OR f\<rparr>)"

definition tcp_clear_flags :: "nat \<Rightarrow> u16 \<Rightarrow> 'a tstate_scheme \<Rightarrow> 'a tstate_scheme" where
  "tcp_clear_flags pcb f = set_pcb pcb (\<lambda>c. c\<lparr>pcb_flags := pcb_flags c AND NOT f\<rparr>)"

definition tcp_is_flag_set :: "tcp_pcb \<Rightarrow> u16 \<Rightarrow> bool" where
  "tcp_is_flag_set c f \<longleftrightarrow> pcb_flags c AND f \<noteq> 0"

definition tcp_ack_now :: "nat \<Rightarrow> 'a tstate_scheme \<Rightarrow> 'a tstate_scheme" where
  "tcp_ack_now pcb = tcp_set_flags pcb TF_ACK_NOW"

definition tcp_ack :: "nat \<Rightarrow> 'a tstate_scheme \<Rightarrow> 'a tstate_scheme" where
  "tcp_ack pcb w =
     (if tcp_is_flag_set (tcp_pcbs w pcb) TF_ACK_DELAY then tcp_ack_now pcb (tcp_clear_flags pcb TF_ACK_DELAY w)
      else tcp_set_flags pcb TF_ACK_DELAY w)"

section \<open>Sequence numbers and windows\<close>

definition TCP_SEQ_LT :: "u32 \<Rightarrow> u32 \<Rightarrow> bool" where "TCP_SEQ_LT a b \<longleftrightarrow> sint (a - b) < 0"
definition TCP_SEQ_LEQ :: "u32 \<Rightarrow> u32 \<Rightarrow> bool" where "TCP_SEQ_LEQ a b \<longleftrightarrow> sint (a - b) \<le> 0"
definition TCP_SEQ_GT :: "u32 \<Rightarrow> u32 \<Rightarrow> bool" where "TCP_SEQ_GT a b \<longleftrightarrow> sint (a - b) > 0"
definition TCP_SEQ_GEQ :: "u32 \<Rightarrow> u32 \<Rightarrow> bool" where "TCP_SEQ_GEQ a b \<longleftrightarrow> sint (a - b) \<ge> 0"
definition TCP_SEQ_BETWEEN :: "u32 \<Rightarrow> u32 \<Rightarrow> u32 \<Rightarrow> bool" where "TCP_SEQ_BETWEEN a b c \<longleftrightarrow> TCP_SEQ_GEQ a b \<and> TCP_SEQ_LEQ a c"

definition TCP_WND_INC :: "u16 \<Rightarrow> u16 \<Rightarrow> u16" where
  "TCP_WND_INC wnd inc = (if wnd + inc \<ge> wnd then wnd + inc else 0xffff)"

definition LWIP_TCP_CALC_INITIAL_CWND :: "u16 \<Rightarrow> u16" where
  "LWIP_TCP_CALC_INITIAL_CWND mss = of_nat (min (4 * unat mss) (max (2 * unat mss) 4380))"

definition TCP_WND_MAX :: "tcp_pcb \<Rightarrow> u16" where
  "TCP_WND_MAX c = TCP_WND"

section \<open>The header in memory\<close>

definition th_src :: nat where [layout_simps]: "th_src = 0"
definition th_dest :: nat where [layout_simps]: "th_dest = 2"
definition th_seqno :: nat where [layout_simps]: "th_seqno = 4"
definition th_ackno :: nat where [layout_simps]: "th_ackno = 8"
definition th_hdrlen_rsvd_flags :: nat where [layout_simps]: "th_hdrlen_rsvd_flags = 12"
definition th_wnd :: nat where [layout_simps]: "th_wnd = 14"
definition th_chksum :: nat where [layout_simps]: "th_chksum = 16"
definition th_urgp :: nat where [layout_simps]: "th_urgp = 18"

definition TCPH_HDRLEN :: "nat \<Rightarrow> 'a mstate_scheme \<Rightarrow> u16" where
  "TCPH_HDRLEN h w = drop_bit 12 (lwip_htons (get16 (h + th_hdrlen_rsvd_flags) w))"

definition TCPH_HDRLEN_BYTES :: "nat \<Rightarrow> 'a mstate_scheme \<Rightarrow> u8" where
  "TCPH_HDRLEN_BYTES h w = ucast (push_bit 2 (TCPH_HDRLEN h w))"

definition TCPH_FLAGS :: "nat \<Rightarrow> 'a mstate_scheme \<Rightarrow> u8" where
  "TCPH_FLAGS h w = ucast (lwip_htons (get16 (h + th_hdrlen_rsvd_flags) w) AND TCP_FLAGS)"

definition TCPH_FLAGS_SET :: "nat \<Rightarrow> u16 \<Rightarrow> 'a mstate_scheme \<Rightarrow> 'a mstate_scheme" where
  "TCPH_FLAGS_SET h f w =
     put16 (h + th_hdrlen_rsvd_flags) ((get16 (h + th_hdrlen_rsvd_flags) w AND PP_HTONS (NOT TCP_FLAGS)) OR lwip_htons f) w"

definition TCPH_HDRLEN_FLAGS_SET :: "nat \<Rightarrow> u16 \<Rightarrow> u16 \<Rightarrow> 'a mstate_scheme \<Rightarrow> 'a mstate_scheme" where
  "TCPH_HDRLEN_FLAGS_SET h len f w = put16 (h + th_hdrlen_rsvd_flags) (lwip_htons (push_bit 12 len OR f)) w"

definition TCPH_SET_FLAG :: "nat \<Rightarrow> u8 \<Rightarrow> 'a mstate_scheme \<Rightarrow> 'a mstate_scheme" where
  "TCPH_SET_FLAG h f w = put16 (h + th_hdrlen_rsvd_flags) (get16 (h + th_hdrlen_rsvd_flags) w OR lwip_htons (ucast f)) w"

definition LWIP_TCP_OPT_LENGTH :: "u8 \<Rightarrow> u8" where
  "LWIP_TCP_OPT_LENGTH f = (if f AND TF_SEG_OPTS_MSS \<noteq> 0 then 4 else 0)"

definition TCP_BUILD_MSS_OPTION :: "u16 \<Rightarrow> u32" where
  "TCP_BUILD_MSS_OPTION mss = lwip_htonl (0x02040000 OR (ucast mss AND 0xFFFF))"

text \<open>The sequence number of a segment to send, whose header is in network order, and the sequence space a segment takes.\<close>

definition seg_seqno :: "nat \<Rightarrow> 'a tstate_scheme \<Rightarrow> u32" where
  "seg_seqno sg w = lwip_htonl (get32 (seg_tcphdr (tcp_segs w sg) + th_seqno) w)"

definition TCP_TCPLEN :: "tcp_seg \<Rightarrow> 'a mstate_scheme \<Rightarrow> u32" where
  "TCP_TCPLEN s w = ucast (seg_len s) + (if TCPH_FLAGS (seg_tcphdr s) w AND (TCP_FIN OR TCP_SYN) \<noteq> 0 then 1 else 0)"

section \<open>Segments\<close>

definition tcp_seg_free :: "nat option \<Rightarrow> 'a tstate_scheme \<Rightarrow> 'a tstate_scheme option" where
  "tcp_seg_free sg w =
     (case sg of
        None \<Rightarrow> Some w
      | Some s \<Rightarrow> do {
          w \<leftarrow> (case seg_p (tcp_segs w s) of None \<Rightarrow> Some w | Some p \<Rightarrow> free_packet p w);
          pool_free MEMP_TCP_SEG s w
        })"

partial_function (option) tcp_segs_free :: "nat option \<Rightarrow> 'a tstate_scheme \<Rightarrow> 'a tstate_scheme option" where
  "tcp_segs_free sg w =
     (case sg of
        None \<Rightarrow> Some w
      | Some s \<Rightarrow> Option.bind (tcp_seg_free sg w) (\<lambda>v. tcp_segs_free (seg_next (tcp_segs w s)) v))"

definition tcp_seg_copy :: "tcp_seg \<Rightarrow> 'a tstate_scheme \<Rightarrow> (nat option \<times> 'a tstate_scheme) option" where
  "tcp_seg_copy sg w = do {
     (cseg, w) \<leftarrow> pool_malloc MEMP_TCP_SEG w;
     case cseg of
       None \<Rightarrow> Some (None, w)
     | Some c \<Rightarrow> do { w \<leftarrow> pbuf_ref (seg_p sg) (set_seg c (\<lambda>_. sg) w); Some (Some c, w) }
   }"

definition tcp_free_ooseq :: "nat \<Rightarrow> 'a tstate_scheme \<Rightarrow> 'a tstate_scheme option" where
  "tcp_free_ooseq pcb w =
     (case ooseq (tcp_pcbs w pcb) of
        None \<Rightarrow> Some w
      | Some s \<Rightarrow> do { w \<leftarrow> tcp_segs_free (Some s) w; Some (set_pcb pcb (\<lambda>c. c\<lparr>ooseq := None\<rparr>) w) })"

definition tcp_eff_send_mss_netif :: "u16 \<Rightarrow> nat option \<Rightarrow> 'a dstate_scheme \<Rightarrow> u16" where
  "tcp_eff_send_mss_netif sendmss outif w =
     (case outif of
        None \<Rightarrow> sendmss
      | Some n \<Rightarrow>
          (let m = mtu (netifs w n); off = of_nat (IP_HLEN + TCP_HLEN)
           in if m \<noteq> 0 then min sendmss (if m > off then m - off else 0) else sendmss))"

partial_function (option) last_seg :: "nat \<Rightarrow> 'a tstate_scheme \<Rightarrow> nat option" where
  "last_seg sg w = (case seg_next (tcp_segs w sg) of None \<Rightarrow> Some sg | Some s \<Rightarrow> last_seg s w)"

end
