(* ===== verification/Tcp_Out.thy ===== *)
theory Tcp_Out
  imports Tcp_Types
begin

text \<open>
  Sending: \<^verbatim>\<open>core/tcp_out.c\<close>. The data an application writes is cut into segments on the queue \<open>unsent\<close>;
  \<open>tcp_output\<close> sends what the windows allow and moves it to \<open>unacked\<close>; a timeout moves it back. Control segments are
  sent directly. \<open>None\<close> is a failed assertion, a null pointer that is followed, or a loop that does not end.
\<close>

definition tcp_route :: "nat option \<Rightarrow> u32 \<Rightarrow> 'a tstate_scheme \<Rightarrow> nat option option" where
  "tcp_route pcb dst w =
     (case pcb of
        Some c \<Rightarrow> if netif_idx (tcp_pcbs w c) \<noteq> NETIF_NO_INDEX then netif_get_by_index (netif_idx (tcp_pcbs w c)) w else ip4_route dst w
      | None \<Rightarrow> ip4_route dst w)"

section \<open>Segments\<close>

definition tcp_create_segment ::
  "nat \<Rightarrow> nat \<Rightarrow> u8 \<Rightarrow> u32 \<Rightarrow> u8 \<Rightarrow> 'a tstate_scheme \<Rightarrow> (nat option \<times> 'a tstate_scheme) option" where
  "tcp_create_segment pcb p hdrflags seqno optflags w = do {
     let optlen = LWIP_TCP_OPT_LENGTH optflags;
     (r, w) \<leftarrow> pool_malloc MEMP_TCP_SEG w;
     case r of
       None \<Rightarrow> do { w \<leftarrow> free_packet p w; Some (None, w) }
     | Some sg \<Rightarrow> do {
         let w = set_seg sg (\<lambda>s. s\<lparr>seg_flags := optflags, seg_next := None, seg_p := Some p\<rparr>) w;
         if ptot (pbufs w p) < ucast optlen then None
         else
           (let w = set_seg sg (\<lambda>s. s\<lparr>seg_len := ptot (pbufs w p) - ucast optlen\<rparr>) w
            in case pbuf_add_header p TCP_HLEN w of
                 (e, w) \<Rightarrow>
                   if e \<noteq> 0 then do { w \<leftarrow> tcp_seg_free (Some sg) w; Some (None, w) }
                   else
                     (let h = payload (pbufs w p);
                          w = set_seg sg (\<lambda>s. s\<lparr>seg_tcphdr := h\<rparr>) w;
                          w = put16 (h + th_src) (lwip_htons (local_port (tcp_pcbs w pcb))) w;
                          w = put16 (h + th_dest) (lwip_htons (remote_port (tcp_pcbs w pcb))) w;
                          w = put32 (h + th_seqno) (lwip_htonl seqno) w;
                          w = TCPH_HDRLEN_FLAGS_SET h (5 + ucast (optlen div 4)) (ucast hdrflags) w;
                          w = put16 (h + th_urgp) 0 w
                      in Some (Some sg, w)))
       }
   }"

text \<open>The result carries the extra bytes at the end of the buffer.\<close>

definition tcp_pbuf_prealloc ::
  "pbuf_layer \<Rightarrow> u16 \<Rightarrow> u16 \<Rightarrow> tcp_pcb \<Rightarrow> u8 \<Rightarrow> bool \<Rightarrow> 'a tstate_scheme \<Rightarrow> ((nat \<times> u16) option \<times> 'a tstate_scheme) option" where
  "tcp_pbuf_prealloc layer length' max_length c apiflags first_seg w = do {
     let alloc =
       (if length' < max_length \<and>
           (apiflags AND TCP_WRITE_FLAG_MORE \<noteq> 0 \<or>
            \<not> tcp_is_flag_set c TF_NODELAY \<and> (\<not> first_seg \<or> unsent c \<noteq> None \<or> unacked c \<noteq> None))
        then of_nat (min (unat max_length) (LWIP_MEM_ALIGN_SIZE (unat length' + unat TCP_OVERSIZE))) else length');
     (r, w) \<leftarrow> pbuf_alloc layer alloc PBUF_RAM w;
     case r of
       None \<Rightarrow> Some (None, w)
     | Some p \<Rightarrow>
         if nxt (pbufs w p) \<noteq> None then None
         else Some (Some (p, plen (pbufs w p) - length'), set_pbuf p (\<lambda>b. b\<lparr>plen := length', ptot := length'\<rparr>) w)
   }"

definition tcp_write_checks :: "nat \<Rightarrow> u16 \<Rightarrow> 'a tstate_scheme \<Rightarrow> (err_t \<times> 'a tstate_scheme) option" where
  "tcp_write_checks pcb len w =
     (let c = tcp_pcbs w pcb
      in if pcb_state c \<noteq> ESTABLISHED \<and> pcb_state c \<noteq> CLOSE_WAIT \<and> pcb_state c \<noteq> SYN_SENT \<and> pcb_state c \<noteq> SYN_RCVD then Some (ERR_CONN, w)
         else if len = 0 then Some (ERR_OK, w)
         else if len > snd_buf c then Some (ERR_MEM, tcp_set_flags pcb TF_NAGLEMEMERR w)
         else if snd_queuelen c \<ge> min TCP_SND_QUEUELEN (TCP_SNDQUEUELEN_OVERFLOW + 1) then Some (ERR_MEM, tcp_set_flags pcb TF_NAGLEMEMERR w)
         else if snd_queuelen c \<noteq> 0 then (if unacked c \<noteq> None \<or> unsent c \<noteq> None then Some (ERR_OK, w) else None)
         else if unacked c = None \<and> unsent c = None then Some (ERR_OK, w) else None)"

section \<open>Writing data\<close>

text \<open>
  The third phase of \<^verbatim>\<open>tcp_write\<close>: new segments for the data from \<open>pos\<close> on, linked from \<open>queue\<close>. The first result is
  false when memory ran out.
\<close>

definition write_pbuf ::
  "nat \<Rightarrow> nat \<Rightarrow> u16 \<Rightarrow> u8 \<Rightarrow> u16 \<Rightarrow> u16 \<Rightarrow> bool \<Rightarrow> 'a tstate_scheme \<Rightarrow> ((nat \<times> u16) option \<times> 'a tstate_scheme) option" where
  "write_pbuf pcb a seglen apiflags mss_local oversize first w =
     (if apiflags AND TCP_WRITE_FLAG_COPY \<noteq> 0 then do {
        (r, w) \<leftarrow> tcp_pbuf_prealloc PBUF_TRANSPORT seglen mss_local (tcp_pcbs w pcb) apiflags first w;
        case r of
          None \<Rightarrow> Some (None, w)
        | Some (p, over) \<Rightarrow>
            if plen (pbufs w p) < seglen then None else Some (Some (p, over), memcpy (payload (pbufs w p)) a (unat seglen) w)
      }
      else if oversize \<noteq> 0 then None
      else do {
        (r, w) \<leftarrow> pbuf_alloc PBUF_TRANSPORT seglen PBUF_ROM w;
        case r of
          None \<Rightarrow> Some (None, w)
        | Some p2 \<Rightarrow> do {
            let w = set_pbuf p2 (\<lambda>b. b\<lparr>payload := a\<rparr>) w;
            (r, w) \<leftarrow> pbuf_alloc PBUF_TRANSPORT 0 PBUF_RAM w;
            case r of
              None \<Rightarrow> do { w \<leftarrow> free_packet p2 w; Some (None, w) }
            | Some p \<Rightarrow> do { w \<leftarrow> pbuf_cat (Some p) (Some p2) w; Some (Some (p, oversize), w) }
          }
      })"

partial_function (option) write_loop ::
  "nat \<Rightarrow> nat \<Rightarrow> u16 \<Rightarrow> u8 \<Rightarrow> u16 \<Rightarrow> u16 \<Rightarrow> u16 \<Rightarrow> u16 \<Rightarrow> nat option \<Rightarrow> nat option \<Rightarrow> nat option \<Rightarrow> 'a tstate_scheme \<Rightarrow>
   (bool \<times> u16 \<times> u16 \<times> nat option \<times> nat option \<times> 'a tstate_scheme) option" where
  "write_loop pcb arg len apiflags mss_local pos queuelen oversize queue prev_seg sg w =
     (if \<not> pos < len then Some (True, queuelen, oversize, queue, sg, w)
      else
        Option.bind (write_pbuf pcb (arg + unat pos) (min (len - pos) mss_local) apiflags mss_local oversize (queue = None) w) (\<lambda>(r, w).
          case r of
            None \<Rightarrow> Some (False, queuelen, oversize, queue, sg, w)
          | Some (p, oversize) \<Rightarrow>
              Option.bind (pbuf_clen (Some p) w) (\<lambda>clen.
                if queuelen + clen > min TCP_SND_QUEUELEN TCP_SNDQUEUELEN_OVERFLOW then
                  Option.bind (free_packet p w) (\<lambda>w. Some (False, queuelen + clen, oversize, queue, sg, w))
                else
                  Option.bind (tcp_create_segment pcb p 0 (snd_lbb (tcp_pcbs w pcb) + ucast pos) 0 w) (\<lambda>(s, w).
                    case s of
                      None \<Rightarrow> Some (False, queuelen + clen, oversize, queue, None, w)
                    | Some s \<Rightarrow>
                        (if queue \<noteq> None \<and> prev_seg = None then None
                         else
                           write_loop pcb arg len apiflags mss_local (pos + min (len - pos) mss_local) (queuelen + clen) oversize
                             (if queue = None then Some s else queue) (Some s) (Some s)
                             (case (queue, prev_seg) of
                                (Some _, Some prev) \<Rightarrow> set_seg prev (\<lambda>x. x\<lparr>seg_next := Some s\<rparr>) w | _ \<Rightarrow> w))))))"

text \<open>
  The first two phases: data that fits behind the last unsent segment. The result is whether memory sufficed, the bytes
  copied into the oversized buffer, the new buffer to append, the length by which a reference is extended, the position,
  the length of the queue, what is left of the oversized buffer, and the segment that takes the data.
\<close>

partial_function (option) last_pbuf :: "nat \<Rightarrow> 'a mstate_scheme \<Rightarrow> nat option" where
  "last_pbuf p w = (case nxt (pbufs w p) of None \<Rightarrow> Some p | Some q \<Rightarrow> last_pbuf q w)"

definition fill_last ::
  "nat \<Rightarrow> nat \<Rightarrow> nat \<Rightarrow> u16 \<Rightarrow> u8 \<Rightarrow> u16 \<Rightarrow> 'a tstate_scheme \<Rightarrow>
   (bool \<times> u16 \<times> nat option \<times> u16 \<times> u16 \<times> u16 \<times> u16 \<times> nat option \<times> 'a tstate_scheme) option" where
  "fill_last pcb last_unsent arg len apiflags mss_local w =
     (let unsent_optlen = ucast (LWIP_TCP_OPT_LENGTH (seg_flags (tcp_segs w last_unsent))) :: u16;
          last_len = seg_len (tcp_segs w last_unsent);
          oversize = unsent_oversize (tcp_pcbs w pcb);
          queuelen = snd_queuelen (tcp_pcbs w pcb)
      in if unat mss_local < unat last_len + unat unsent_optlen then None
         else
           (let space = mss_local - (last_len + unsent_optlen)
            in if oversize > 0 \<and> oversize > space then None
               else
                 (let oversize_used = (if oversize > 0 then min space (min oversize len) else 0);
                      sg = (if oversize > 0 then Some last_unsent else None);
                      pos = oversize_used;
                      oversize = oversize - oversize_used;
                      space = space - oversize_used
                  in if oversize \<noteq> 0 \<and> pos \<noteq> len then None
                     else if pos < len \<and> space > 0 \<and> last_len > 0 then
                       (let seglen = min space (len - pos)
                        in if apiflags AND TCP_WRITE_FLAG_COPY \<noteq> 0 then do {
                             (r, w) \<leftarrow> tcp_pbuf_prealloc PBUF_RAW seglen space (tcp_pcbs w pcb) apiflags True w;
                             case r of
                               None \<Rightarrow> Some (False, oversize_used, None, 0, pos, queuelen, oversize, Some last_unsent, w)
                             | Some (concat_p, over) \<Rightarrow> do {
                                 let w = memcpy (payload (pbufs w concat_p)) (arg + unat pos) (unat seglen) w;
                                 clen \<leftarrow> pbuf_clen (Some concat_p) w;
                                 Some (True, oversize_used, Some concat_p, 0, pos + seglen, queuelen + clen, over, Some last_unsent, w)
                               }
                           }
                           else
                             (case seg_p (tcp_segs w last_unsent) of
                                None \<Rightarrow> None
                              | Some p0 \<Rightarrow> do {
                                  p \<leftarrow> last_pbuf p0 w;
                                  if type_internal (pbufs w p) AND (PBUF_TYPE_FLAG_STRUCT_DATA_CONTIGUOUS OR PBUF_TYPE_FLAG_DATA_VOLATILE) = 0 \<and>
                                     payload (pbufs w p) + unat (plen (pbufs w p)) = arg
                                  then (if pos \<noteq> 0 then None
                                        else Some (True, oversize_used, None, seglen, pos + seglen, queuelen, oversize, Some last_unsent, w))
                                  else do {
                                    (r, w) \<leftarrow> pbuf_alloc PBUF_RAW seglen PBUF_ROM w;
                                    case r of
                                      None \<Rightarrow> Some (False, oversize_used, None, 0, pos, queuelen, oversize, Some last_unsent, w)
                                    | Some concat_p \<Rightarrow> do {
                                        let w = set_pbuf concat_p (\<lambda>b. b\<lparr>payload := arg + unat pos\<rparr>) w;
                                        clen \<leftarrow> pbuf_clen (Some concat_p) w;
                                        Some (True, oversize_used, Some concat_p, 0, pos + seglen, queuelen + clen, oversize, Some last_unsent, w)
                                      }
                                  }
                                }))
                     else Some (True, oversize_used, None, 0, pos, queuelen, oversize, sg, w))))"

text \<open>Committing: the lengths along the last chain grow, and the bytes for the oversized buffer go behind its end.\<close>

partial_function (option) bump_chain :: "nat option \<Rightarrow> nat \<Rightarrow> u16 \<Rightarrow> 'a mstate_scheme \<Rightarrow> 'a mstate_scheme option" where
  "bump_chain p arg oversize_used w =
     (case p of
        None \<Rightarrow> Some w
      | Some p \<Rightarrow>
          (let w = set_pbuf p (\<lambda>b. b\<lparr>ptot := ptot b + oversize_used\<rparr>) w
           in bump_chain (nxt (pbufs w p)) arg oversize_used
                (if nxt (pbufs w p) = None
                 then set_pbuf p (\<lambda>b. b\<lparr>plen := plen b + oversize_used\<rparr>)
                        (memcpy (payload (pbufs w p) + unat (plen (pbufs w p))) arg (unat oversize_used) w)
                 else w)))"

partial_function (option) extend_chain :: "nat \<Rightarrow> u16 \<Rightarrow> 'a mstate_scheme \<Rightarrow> 'a mstate_scheme option" where
  "extend_chain p extendlen w =
     (case nxt (pbufs w p) of
        None \<Rightarrow> Some (set_pbuf p (\<lambda>b. b\<lparr>ptot := ptot b + extendlen, plen := plen b + extendlen\<rparr>) w)
      | Some q \<Rightarrow> extend_chain q extendlen (set_pbuf p (\<lambda>b. b\<lparr>ptot := ptot b + extendlen\<rparr>) w))"

definition commit_last :: "nat option \<Rightarrow> nat \<Rightarrow> u16 \<Rightarrow> nat option \<Rightarrow> u16 \<Rightarrow> 'a tstate_scheme \<Rightarrow> 'a tstate_scheme option" where
  "commit_last last_unsent arg oversize_used concat_p extendlen w =
     (case last_unsent of
        None \<Rightarrow> if concat_p \<noteq> None \<or> extendlen > 0 then None else Some w
      | Some l \<Rightarrow> do {
          w \<leftarrow> (if oversize_used > 0 then do {
                   w \<leftarrow> bump_chain (seg_p (tcp_segs w l)) arg oversize_used w;
                   Some (set_seg l (\<lambda>s. s\<lparr>seg_len := seg_len s + oversize_used\<rparr>) w)
                 } else Some w);
          case concat_p of
            Some q \<Rightarrow> do {
              w \<leftarrow> pbuf_cat (seg_p (tcp_segs w l)) (Some q) w;
              Some (set_seg l (\<lambda>s. s\<lparr>seg_len := seg_len s + ptot (pbufs w q)\<rparr>) w)
            }
          | None \<Rightarrow>
              if extendlen > 0 then
                (case seg_p (tcp_segs w l) of
                   None \<Rightarrow> None
                 | Some p \<Rightarrow> do { w \<leftarrow> extend_chain p extendlen w; Some (set_seg l (\<lambda>s. s\<lparr>seg_len := seg_len s + extendlen\<rparr>) w) })
              else Some w
        })"

definition write_memerr :: "nat \<Rightarrow> nat option \<Rightarrow> nat option \<Rightarrow> 'a tstate_scheme \<Rightarrow> (err_t \<times> 'a tstate_scheme) option" where
  "write_memerr pcb concat_p queue w = do {
     let w = tcp_set_flags pcb TF_NAGLEMEMERR w;
     w \<leftarrow> (case concat_p of None \<Rightarrow> Some w | Some q \<Rightarrow> free_packet q w);
     w \<leftarrow> tcp_segs_free queue w;
     if snd_queuelen (tcp_pcbs w pcb) \<noteq> 0 \<and> unacked (tcp_pcbs w pcb) = None \<and> unsent (tcp_pcbs w pcb) = None then None
     else Some (ERR_MEM, w)
   }"

definition tcp_write :: "nat option \<Rightarrow> nat option \<Rightarrow> u16 \<Rightarrow> u8 \<Rightarrow> 'a tstate_scheme \<Rightarrow> (err_t \<times> 'a tstate_scheme) option" where
  "tcp_write pcb arg len apiflags w =
     (case pcb of
        None \<Rightarrow> Some (ERR_ARG, w)
      | Some pcb \<Rightarrow>
          (case arg of
             None \<Rightarrow> Some (ERR_ARG, w)
           | Some arg \<Rightarrow> do {
               let mss_local = min (pcb_mss (tcp_pcbs w pcb)) (snd_wnd_max (tcp_pcbs w pcb) div 2);
               let mss_local = (if mss_local \<noteq> 0 then mss_local else pcb_mss (tcp_pcbs w pcb));
               (err, w) \<leftarrow> tcp_write_checks pcb len w;
               if err \<noteq> ERR_OK then Some (err, w)
               else do {
                 last_unsent \<leftarrow>
                   (case unsent (tcp_pcbs w pcb) of None \<Rightarrow> Some None | Some u \<Rightarrow> do { l \<leftarrow> last_seg u w; Some (Some l) });
                 (ok, oversize_used, concat_p, extendlen, pos, queuelen, oversize, sg, w) \<leftarrow>
                   (case last_unsent of
                      Some l \<Rightarrow> fill_last pcb l arg len apiflags mss_local w
                    | None \<Rightarrow>
                        if unsent_oversize (tcp_pcbs w pcb) \<noteq> 0 then None
                        else Some (True, 0, None, 0, 0, snd_queuelen (tcp_pcbs w pcb), 0, None, w));
                 if \<not> ok then write_memerr pcb concat_p None w
                 else do {
                   (ok, queuelen, oversize, queue, sg, w) \<leftarrow>
                     write_loop pcb arg len apiflags mss_local pos queuelen oversize None None sg w;
                   if \<not> ok then write_memerr pcb concat_p queue w
                   else do {
                     w \<leftarrow> commit_last last_unsent arg oversize_used concat_p extendlen w;
                     let w = set_pcb pcb (\<lambda>c. c\<lparr>unsent_oversize := oversize\<rparr>) w;
                     let w = (case last_unsent of
                                None \<Rightarrow> set_pcb pcb (\<lambda>c. c\<lparr>unsent := queue\<rparr>) w
                              | Some l \<Rightarrow> set_seg l (\<lambda>s. s\<lparr>seg_next := queue\<rparr>) w);
                     let w = set_pcb pcb (\<lambda>c. c\<lparr>snd_lbb := snd_lbb c + ucast len, snd_buf := snd_buf c - len, snd_queuelen := queuelen\<rparr>) w;
                     if queuelen \<noteq> 0 \<and> unacked (tcp_pcbs w pcb) = None \<and> unsent (tcp_pcbs w pcb) = None then None
                     else
                       Some (ERR_OK,
                         case sg of
                           Some s \<Rightarrow> if apiflags AND TCP_WRITE_FLAG_MORE = 0 then TCPH_SET_FLAG (seg_tcphdr (tcp_segs w s)) TCP_PSH w else w
                         | None \<Rightarrow> w)
                   }
                 }
               }
             }))"

section \<open>Splitting and closing\<close>

definition tcp_split_unsent_seg :: "nat \<Rightarrow> u16 \<Rightarrow> 'a tstate_scheme \<Rightarrow> (err_t \<times> 'a tstate_scheme) option" where
  "tcp_split_unsent_seg pcb split w =
     (case unsent (tcp_pcbs w pcb) of
        None \<Rightarrow> Some (ERR_MEM, w)
      | Some useg \<Rightarrow>
          if split = 0 then None
          else if seg_len (tcp_segs w useg) \<le> split then Some (ERR_OK, w)
          else if split > pcb_mss (tcp_pcbs w pcb) then None
          else do {
            let optflags = seg_flags (tcp_segs w useg);
            let optlen = LWIP_TCP_OPT_LENGTH optflags;
            let remainder = seg_len (tcp_segs w useg) - split;
            (r, w) \<leftarrow> pbuf_alloc PBUF_TRANSPORT (remainder + ucast optlen) PBUF_RAM w;
            case r of
              None \<Rightarrow> Some (ERR_MEM, w)
            | Some p \<Rightarrow>
                (case seg_p (tcp_segs w useg) of
                   None \<Rightarrow> None
                 | Some up \<Rightarrow> do {
                     let offset = ptot (pbufs w up) - seg_len (tcp_segs w useg) + split;
                     (copied, w) \<leftarrow> pbuf_copy_partial (Some up) (Some (payload (pbufs w p) + unat optlen)) remainder offset w;
                     if copied \<noteq> remainder then do { w \<leftarrow> free_packet p w; Some (ERR_MEM, w) }
                     else do {
                       let hdr = seg_tcphdr (tcp_segs w useg);
                       let split_flags = TCPH_FLAGS hdr w;
                       let remainder_flags = (0 :: u8);
                       let (split_flags, remainder_flags) =
                         (if split_flags AND TCP_PSH \<noteq> 0 then (split_flags AND NOT TCP_PSH, remainder_flags OR TCP_PSH)
                          else (split_flags, remainder_flags));
                       let (split_flags, remainder_flags) =
                         (if split_flags AND TCP_FIN \<noteq> 0 then (split_flags AND NOT TCP_FIN, remainder_flags OR TCP_FIN)
                          else (split_flags, remainder_flags));
                       (r, w) \<leftarrow> tcp_create_segment pcb p remainder_flags (seg_seqno useg w + ucast split) optflags w;
                       case r of
                         None \<Rightarrow> Some (ERR_MEM, w)
                       | Some sg \<Rightarrow> do {
                           clen \<leftarrow> pbuf_clen (Some up) w;
                           let w = set_pcb pcb (\<lambda>c. c\<lparr>snd_queuelen := snd_queuelen c - clen\<rparr>) w;
                           w \<leftarrow> pbuf_realloc (Some up) (ptot (pbufs w up) - remainder) w;
                           let w = set_seg useg (\<lambda>s. s\<lparr>seg_len := seg_len s - remainder\<rparr>) w;
                           let w = TCPH_SET_FLAG hdr split_flags w;
                           clen \<leftarrow> pbuf_clen (Some up) w;
                           let w = set_pcb pcb (\<lambda>c. c\<lparr>snd_queuelen := snd_queuelen c + clen\<rparr>) w;
                           clen \<leftarrow> pbuf_clen (seg_p (tcp_segs w sg)) w;
                           let w = set_pcb pcb (\<lambda>c. c\<lparr>snd_queuelen := snd_queuelen c + clen\<rparr>) w;
                           let w = set_seg sg (\<lambda>s. s\<lparr>seg_next := seg_next (tcp_segs w useg)\<rparr>) w;
                           let w = set_seg useg (\<lambda>s. s\<lparr>seg_next := Some sg\<rparr>) w;
                           Some (ERR_OK, if seg_next (tcp_segs w sg) = None then set_pcb pcb (\<lambda>c. c\<lparr>unsent_oversize := 0\<rparr>) w else w)
                         }
                     }
                   })
          })"

definition tcp_enqueue_flags :: "nat \<Rightarrow> u8 \<Rightarrow> 'a tstate_scheme \<Rightarrow> (err_t \<times> 'a tstate_scheme) option" where
  "tcp_enqueue_flags pcb flags w =
     (if flags AND (TCP_SYN OR TCP_FIN) = 0 then None
      else do {
        let optflags = (if flags AND TCP_SYN \<noteq> 0 then TF_SEG_OPTS_MSS else 0);
        let optlen = LWIP_TCP_OPT_LENGTH optflags;
        (r, w) \<leftarrow> pbuf_alloc PBUF_TRANSPORT (ucast optlen) PBUF_RAM w;
        case r of
          None \<Rightarrow> Some (ERR_MEM, tcp_set_flags pcb TF_NAGLEMEMERR w)
        | Some p \<Rightarrow>
            if plen (pbufs w p) < ucast optlen then None
            else do {
              (r, w) \<leftarrow> tcp_create_segment pcb p flags (snd_lbb (tcp_pcbs w pcb)) optflags w;
              case r of
                None \<Rightarrow> Some (ERR_MEM, tcp_set_flags pcb TF_NAGLEMEMERR w)
              | Some sg \<Rightarrow>
                  if seg_tcphdr (tcp_segs w sg) mod 4 \<noteq> 0 \<or> seg_len (tcp_segs w sg) \<noteq> 0 then None
                  else do {
                    w \<leftarrow> (case unsent (tcp_pcbs w pcb) of
                             None \<Rightarrow> Some (set_pcb pcb (\<lambda>c. c\<lparr>unsent := Some sg\<rparr>) w)
                           | Some u \<Rightarrow> do { useg \<leftarrow> last_seg u w; Some (set_seg useg (\<lambda>s. s\<lparr>seg_next := Some sg\<rparr>) w) });
                    let w = set_pcb pcb (\<lambda>c. c\<lparr>unsent_oversize := 0\<rparr>) w;
                    let w = (if flags AND TCP_SYN \<noteq> 0 \<or> flags AND TCP_FIN \<noteq> 0 then set_pcb pcb (\<lambda>c. c\<lparr>snd_lbb := snd_lbb c + 1\<rparr>) w else w);
                    let w = (if flags AND TCP_FIN \<noteq> 0 then tcp_set_flags pcb TF_FIN w else w);
                    clen \<leftarrow> pbuf_clen (seg_p (tcp_segs w sg)) w;
                    let w = set_pcb pcb (\<lambda>c. c\<lparr>snd_queuelen := snd_queuelen c + clen\<rparr>) w;
                    if snd_queuelen (tcp_pcbs w pcb) \<noteq> 0 \<and> unacked (tcp_pcbs w pcb) = None \<and> unsent (tcp_pcbs w pcb) = None then None
                    else Some (ERR_OK, w)
                  }
            }
      })"

definition tcp_send_fin :: "nat \<Rightarrow> 'a tstate_scheme \<Rightarrow> (err_t \<times> 'a tstate_scheme) option" where
  "tcp_send_fin pcb w =
     (case unsent (tcp_pcbs w pcb) of
        None \<Rightarrow> tcp_enqueue_flags pcb TCP_FIN w
      | Some u \<Rightarrow> do {
          last_unsent \<leftarrow> last_seg u w;
          let hdr = seg_tcphdr (tcp_segs w last_unsent);
          if TCPH_FLAGS hdr w AND (TCP_SYN OR TCP_FIN OR TCP_RST) = 0
          then Some (ERR_OK, tcp_set_flags pcb TF_FIN (TCPH_SET_FLAG hdr TCP_FIN w))
          else tcp_enqueue_flags pcb TCP_FIN w
        })"

section \<open>Control segments\<close>

definition tcp_output_alloc_header_common ::
  "u32 \<Rightarrow> u16 \<Rightarrow> u16 \<Rightarrow> u32 \<Rightarrow> u16 \<Rightarrow> u16 \<Rightarrow> u8 \<Rightarrow> u16 \<Rightarrow> 'a mstate_scheme \<Rightarrow> (nat option \<times> 'a mstate_scheme) option" where
  "tcp_output_alloc_header_common ackno optlen datalen seqno_be src_port dst_port flags wnd w = do {
     (r, w) \<leftarrow> pbuf_alloc PBUF_IP (of_nat TCP_HLEN + optlen + datalen) PBUF_RAM w;
     case r of
       None \<Rightarrow> Some (None, w)
     | Some p \<Rightarrow>
         if unat (plen (pbufs w p)) < TCP_HLEN + unat optlen then None
         else
           (let h = payload (pbufs w p);
                w = put16 (h + th_src) (lwip_htons src_port) w;
                w = put16 (h + th_dest) (lwip_htons dst_port) w;
                w = put32 (h + th_seqno) seqno_be w;
                w = put32 (h + th_ackno) (lwip_htonl ackno) w;
                w = TCPH_HDRLEN_FLAGS_SET h (5 + optlen div 4) (ucast flags) w;
                w = put16 (h + th_wnd) (lwip_htons wnd) w;
                w = put16 (h + th_chksum) 0 w;
                w = put16 (h + th_urgp) 0 w
            in Some (Some p, w))
   }"

definition tcp_output_alloc_header :: "nat \<Rightarrow> u16 \<Rightarrow> u16 \<Rightarrow> u32 \<Rightarrow> 'a tstate_scheme \<Rightarrow> (nat option \<times> 'a tstate_scheme) option" where
  "tcp_output_alloc_header pcb optlen datalen seqno_be w = do {
     let c = tcp_pcbs w pcb;
     (p, w) \<leftarrow> tcp_output_alloc_header_common (rcv_nxt c) optlen datalen seqno_be (local_port c) (remote_port c) TCP_ACK (rcv_ann_wnd c) w;
     Some (p, if p \<noteq> None then set_pcb pcb (\<lambda>c. c\<lparr>rcv_ann_right_edge := rcv_nxt c + ucast (rcv_ann_wnd c)\<rparr>) w else w)
   }"

definition tcp_output_control_segment :: "nat option \<Rightarrow> nat \<Rightarrow> u32 \<Rightarrow> u32 \<Rightarrow> 'a tstate_scheme \<Rightarrow> (err_t \<times> 'a tstate_scheme) option" where
  "tcp_output_control_segment pcb p src dst w = do {
     nif \<leftarrow> tcp_route pcb dst w;
     (err, w) \<leftarrow>
       (case nif of
          None \<Rightarrow> Some (ERR_RTE, w)
        | Some n \<Rightarrow> do {
            s \<leftarrow> segments (Some p) w;
            let w = put16 (payload (pbufs w p) + th_chksum) (ip_chksum_pseudo s IP_PROTO_TCP (ptot (pbufs w p)) src dst) w;
            let (ttl, tos) = (case pcb of Some c \<Rightarrow> (pcb_ttl (tcp_pcbs w c), pcb_tos (tcp_pcbs w c)) | None \<Rightarrow> (TCP_TTL, 0));
            ip4_output_if p (Some src) (Some dst) ttl tos IP_PROTO_TCP n w
          });
     w \<leftarrow> free_packet p w;
     Some (err, w)
   }"

definition tcp_rst :: "nat option \<Rightarrow> u32 \<Rightarrow> u32 \<Rightarrow> u32 \<Rightarrow> u32 \<Rightarrow> u16 \<Rightarrow> u16 \<Rightarrow> 'a tstate_scheme \<Rightarrow> 'a tstate_scheme option" where
  "tcp_rst pcb seqno ackno loc_ip rem_ip loc_port rem_port w = do {
     let wnd = PP_HTONS TCP_WND;
     (r, w) \<leftarrow> tcp_output_alloc_header_common ackno 0 0 (lwip_htonl seqno) loc_port rem_port (TCP_RST OR TCP_ACK) wnd w;
     case r of
       None \<Rightarrow> Some w
     | Some p \<Rightarrow> do { (_, w) \<leftarrow> tcp_output_control_segment pcb p loc_ip rem_ip w; Some w }
   }"

definition tcp_send_empty_ack :: "nat \<Rightarrow> 'a tstate_scheme \<Rightarrow> (err_t \<times> 'a tstate_scheme) option" where
  "tcp_send_empty_ack pcb w = do {
     (r, w) \<leftarrow> tcp_output_alloc_header pcb 0 0 (lwip_htonl (snd_nxt (tcp_pcbs w pcb))) w;
     case r of
       None \<Rightarrow> Some (ERR_BUF, tcp_set_flags pcb (TF_ACK_DELAY OR TF_ACK_NOW) w)
     | Some p \<Rightarrow> do {
         (err, w) \<leftarrow> tcp_output_control_segment (Some pcb) p (local_ip (tcp_pcbs w pcb)) (remote_ip (tcp_pcbs w pcb)) w;
         Some (err, if err \<noteq> ERR_OK then tcp_set_flags pcb (TF_ACK_DELAY OR TF_ACK_NOW) w
                    else tcp_clear_flags pcb (TF_ACK_DELAY OR TF_ACK_NOW) w)
       }
   }"

definition tcp_keepalive :: "nat \<Rightarrow> 'a tstate_scheme \<Rightarrow> (err_t \<times> 'a tstate_scheme) option" where
  "tcp_keepalive pcb w = do {
     (r, w) \<leftarrow> tcp_output_alloc_header pcb 0 0 (lwip_htonl (snd_nxt (tcp_pcbs w pcb) - 1)) w;
     case r of
       None \<Rightarrow> Some (ERR_MEM, w)
     | Some p \<Rightarrow> tcp_output_control_segment (Some pcb) p (local_ip (tcp_pcbs w pcb)) (remote_ip (tcp_pcbs w pcb)) w
   }"

definition tcp_zero_window_probe :: "nat \<Rightarrow> 'a tstate_scheme \<Rightarrow> (err_t \<times> 'a tstate_scheme) option" where
  "tcp_zero_window_probe pcb w =
     (case unsent (tcp_pcbs w pcb) of
        None \<Rightarrow> Some (ERR_OK, w)
      | Some sg \<Rightarrow> do {
          let w = (if persist_probe (tcp_pcbs w pcb) < 0xFF then set_pcb pcb (\<lambda>c. c\<lparr>persist_probe := persist_probe c + 1\<rparr>) w else w);
          let is_fin = (TCPH_FLAGS (seg_tcphdr (tcp_segs w sg)) w AND TCP_FIN \<noteq> 0 \<and> seg_len (tcp_segs w sg) = 0);
          let len = (if is_fin then 0 else 1);
          (r, w) \<leftarrow> tcp_output_alloc_header pcb 0 len (get32 (seg_tcphdr (tcp_segs w sg) + th_seqno) w) w;
          case r of
            None \<Rightarrow> Some (ERR_MEM, w)
          | Some p \<Rightarrow> do {
              let h = payload (pbufs w p);
              w \<leftarrow> (if is_fin then Some (TCPH_FLAGS_SET h (ucast (TCP_ACK OR TCP_FIN)) w)
                     else
                       (case seg_p (tcp_segs w sg) of
                          None \<Rightarrow> None
                        | Some sp \<Rightarrow> do {
                            (_, w) \<leftarrow> pbuf_copy_partial (Some sp) (Some (h + TCP_HLEN)) 1 (ptot (pbufs w sp) - seg_len (tcp_segs w sg)) w;
                            Some w
                          }));
              let nxt_seq = seg_seqno sg w + 1;
              let w = (if TCP_SEQ_LT (snd_nxt (tcp_pcbs w pcb)) nxt_seq then set_pcb pcb (\<lambda>c. c\<lparr>snd_nxt := nxt_seq\<rparr>) w else w);
              tcp_output_control_segment (Some pcb) p (local_ip (tcp_pcbs w pcb)) (remote_ip (tcp_pcbs w pcb)) w
            }
        })"

section \<open>Output\<close>

definition tcp_output_segment_busy :: "nat \<Rightarrow> 'a tstate_scheme \<Rightarrow> bool option" where
  "tcp_output_segment_busy sg w = (case seg_p (tcp_segs w sg) of None \<Rightarrow> None | Some p \<Rightarrow> Some (pref (pbufs w p) \<noteq> 1))"

definition tcp_output_segment :: "nat \<Rightarrow> nat \<Rightarrow> nat \<Rightarrow> 'a tstate_scheme \<Rightarrow> (err_t \<times> 'a tstate_scheme) option" where
  "tcp_output_segment sg pcb nif w =
     (case seg_p (tcp_segs w sg) of
        None \<Rightarrow> None
      | Some p \<Rightarrow> do {
          busy \<leftarrow> tcp_output_segment_busy sg w;
          if busy then Some (ERR_OK, w)
          else do {
            let h = seg_tcphdr (tcp_segs w sg);
            let w = put32 (h + th_ackno) (lwip_htonl (rcv_nxt (tcp_pcbs w pcb))) w;
            let w = put16 (h + th_wnd) (lwip_htons (rcv_ann_wnd (tcp_pcbs w pcb))) w;
            let w = set_pcb pcb (\<lambda>c. c\<lparr>rcv_ann_right_edge := rcv_nxt c + ucast (rcv_ann_wnd c)\<rparr>) w;
            let opts = h + TCP_HLEN;
            let (opts, w) =
              (if seg_flags (tcp_segs w sg) AND TF_SEG_OPTS_MSS \<noteq> 0
               then (opts + 4, put32 opts (TCP_BUILD_MSS_OPTION (tcp_eff_send_mss_netif TCP_MSS (Some nif) w)) w) else (opts, w));
            let w = set_pcb pcb (\<lambda>c. if sint (rtime c) < 0 then c\<lparr>rtime := 0\<rparr> else c) w;
            let w = (if rttest (tcp_pcbs w pcb) = 0
                     then set_pcb pcb (\<lambda>c. c\<lparr>rttest := tcp_ticks w, rtseq := seg_seqno sg w\<rparr>) w else w);
            let len = word_of_int (int h - int (payload (pbufs w p)));
            let w = set_pbuf p (\<lambda>b. b\<lparr>plen := plen b - len, ptot := ptot b - len, payload := h\<rparr>) w;
            let w = put16 (h + th_chksum) 0 w;
            if opts \<noteq> h + TCP_HLEN + unat (LWIP_TCP_OPT_LENGTH (seg_flags (tcp_segs w sg))) then None
            else do {
              s \<leftarrow> segments (Some p) w;
              let c = tcp_pcbs w pcb;
              let w = put16 (h + th_chksum) (ip_chksum_pseudo s IP_PROTO_TCP (ptot (pbufs w p)) (local_ip c) (remote_ip c)) w;
              ip4_output_if p (Some (local_ip c)) (Some (remote_ip c)) (pcb_ttl c) (pcb_tos c) IP_PROTO_TCP nif w
            }
          }
        })"

definition tcp_do_output_nagle :: "nat \<Rightarrow> 'a tstate_scheme \<Rightarrow> bool" where
  "tcp_do_output_nagle pcb w \<longleftrightarrow>
     (let c = tcp_pcbs w pcb
      in unacked c = None \<or> tcp_is_flag_set c (TF_NODELAY OR TF_INFR) \<or>
         (case unsent c of None \<Rightarrow> False | Some u \<Rightarrow> seg_next (tcp_segs w u) \<noteq> None \<or> seg_len (tcp_segs w u) \<ge> pcb_mss c) \<or>
         snd_buf c = 0 \<or> snd_queuelen c \<ge> TCP_SND_QUEUELEN)"

text \<open>The place of a segment in a queue that is sorted by sequence number: the segment before it, if any, and the one behind.\<close>

partial_function (option) sorted_place ::
  "u32 \<Rightarrow> nat option \<Rightarrow> nat option \<Rightarrow> 'a tstate_scheme \<Rightarrow> (nat option \<times> nat option) option" where
  "sorted_place seqno prev cur_seg w =
     (case cur_seg of
        None \<Rightarrow> Some (prev, None)
      | Some s \<Rightarrow>
          if TCP_SEQ_LT (seg_seqno s w) seqno then sorted_place seqno (Some s) (seg_next (tcp_segs w s)) w
          else Some (prev, Some s))"

text \<open>Queueing a sent segment for acknowledgement; the second result is the new last segment of the queue.\<close>

definition add_unacked :: "nat \<Rightarrow> nat \<Rightarrow> nat option \<Rightarrow> 'a tstate_scheme \<Rightarrow> (nat option \<times> 'a tstate_scheme) option" where
  "add_unacked pcb sg useg w =
     (let w = set_seg sg (\<lambda>s. s\<lparr>seg_next := None\<rparr>) w
      in if unacked (tcp_pcbs w pcb) = None then Some (Some sg, set_pcb pcb (\<lambda>c. c\<lparr>unacked := Some sg\<rparr>) w)
         else
           (case useg of
              None \<Rightarrow> None
            | Some u \<Rightarrow>
                if TCP_SEQ_LT (seg_seqno sg w) (seg_seqno u w) then do {
                  (prev, cur) \<leftarrow> sorted_place (seg_seqno sg w) None (unacked (tcp_pcbs w pcb)) w;
                  let w = set_seg sg (\<lambda>s. s\<lparr>seg_next := cur\<rparr>) w;
                  Some (useg, case prev of
                                None \<Rightarrow> set_pcb pcb (\<lambda>c. c\<lparr>unacked := Some sg\<rparr>) w
                              | Some q \<Rightarrow> set_seg q (\<lambda>s. s\<lparr>seg_next := Some sg\<rparr>) w)
                }
                else Some (Some sg, set_seg u (\<lambda>s. s\<lparr>seg_next := Some sg\<rparr>) w)))"

definition after_sent :: "nat \<Rightarrow> nat \<Rightarrow> nat option \<Rightarrow> 'a tstate_scheme \<Rightarrow> (nat option \<times> 'a tstate_scheme) option" where
  "after_sent pcb sg useg w =
     (let w = set_pcb pcb (\<lambda>c. c\<lparr>unsent := seg_next (tcp_segs w sg)\<rparr>) w;
          w = (if pcb_state (tcp_pcbs w pcb) \<noteq> SYN_SENT then tcp_clear_flags pcb (TF_ACK_DELAY OR TF_ACK_NOW) w else w);
          nxt_seq = seg_seqno sg w + TCP_TCPLEN (tcp_segs w sg) w;
          w = (if TCP_SEQ_LT (snd_nxt (tcp_pcbs w pcb)) nxt_seq then set_pcb pcb (\<lambda>c. c\<lparr>snd_nxt := nxt_seq\<rparr>) w else w)
      in if TCP_TCPLEN (tcp_segs w sg) w > 0 then add_unacked pcb sg useg w
         else do { w \<leftarrow> tcp_seg_free (Some sg) w; Some (useg, w) })"

partial_function (option) output_loop ::
  "nat \<Rightarrow> u32 \<Rightarrow> nat \<Rightarrow> nat option \<Rightarrow> nat option \<Rightarrow> 'a tstate_scheme \<Rightarrow> (err_t \<times> 'a tstate_scheme) option" where
  "output_loop pcb wnd nif sg useg w =
     (case sg of
        None \<Rightarrow> Some (ERR_OK, w)
      | Some s \<Rightarrow>
          if \<not> seg_seqno s w - lastack (tcp_pcbs w pcb) + ucast (seg_len (tcp_segs w s)) \<le> wnd then Some (ERR_OK, w)
          else if TCPH_FLAGS (seg_tcphdr (tcp_segs w s)) w AND TCP_RST \<noteq> 0 then None
          else if \<not> tcp_do_output_nagle pcb w \<and> \<not> tcp_is_flag_set (tcp_pcbs w pcb) (TF_NAGLEMEMERR OR TF_FIN) then Some (ERR_OK, w)
          else
            Option.bind (tcp_output_segment s pcb nif
                (if pcb_state (tcp_pcbs w pcb) \<noteq> SYN_SENT then TCPH_SET_FLAG (seg_tcphdr (tcp_segs w s)) TCP_ACK w else w)) (\<lambda>(err, w).
              if err \<noteq> ERR_OK then Some (err, tcp_set_flags pcb TF_NAGLEMEMERR w)
              else Option.bind (after_sent pcb s useg w) (\<lambda>(useg, w). output_loop pcb wnd nif (unsent (tcp_pcbs w pcb)) useg w)))"

definition output_done :: "nat \<Rightarrow> 'a tstate_scheme \<Rightarrow> (err_t \<times> 'a tstate_scheme) option" where
  "output_done pcb w = Some (ERR_OK, tcp_clear_flags pcb TF_NAGLEMEMERR w)"

definition tcp_output :: "nat \<Rightarrow> 'a tstate_scheme \<Rightarrow> (err_t \<times> 'a tstate_scheme) option" where
  "tcp_output pcb w =
     (if pcb_state (tcp_pcbs w pcb) = LISTEN then None
      else if tcp_input_pcb w = Some pcb then Some (ERR_OK, w)
      else
        (let wnd = ucast (min (snd_wnd (tcp_pcbs w pcb)) (cwnd (tcp_pcbs w pcb))) :: u32
         in case unsent (tcp_pcbs w pcb) of
              None \<Rightarrow> if tcp_is_flag_set (tcp_pcbs w pcb) TF_ACK_NOW then tcp_send_empty_ack pcb w else output_done pcb w
            | Some sg \<Rightarrow> do {
                r \<leftarrow> tcp_route (Some pcb) (remote_ip (tcp_pcbs w pcb)) w;
                case r of
                  None \<Rightarrow> Some (ERR_RTE, w)
                | Some nif \<Rightarrow> do {
                    let w = (if ip4_addr_isany_val (local_ip (tcp_pcbs w pcb))
                             then set_pcb pcb (\<lambda>c. c\<lparr>local_ip := ip_addr (netifs w nif)\<rparr>) w else w);
                    if seg_seqno sg w - lastack (tcp_pcbs w pcb) + ucast (seg_len (tcp_segs w sg)) > wnd then
                      (let c = tcp_pcbs w pcb;
                           w = (if wnd = ucast (snd_wnd c) \<and> unacked c = None \<and> persist_backoff c = 0
                                then set_pcb pcb (\<lambda>c. c\<lparr>persist_cnt := 0, persist_backoff := 1, persist_probe := 0\<rparr>) w else w)
                       in if tcp_is_flag_set (tcp_pcbs w pcb) TF_ACK_NOW then tcp_send_empty_ack pcb w else output_done pcb w)
                    else do {
                      let w = set_pcb pcb (\<lambda>c. c\<lparr>persist_backoff := 0\<rparr>) w;
                      useg \<leftarrow> (case unacked (tcp_pcbs w pcb) of None \<Rightarrow> Some None | Some u \<Rightarrow> do { l \<leftarrow> last_seg u w; Some (Some l) });
                      (err, w) \<leftarrow> output_loop pcb wnd nif (Some sg) useg w;
                      if err \<noteq> ERR_OK then Some (err, w)
                      else
                        output_done pcb (if unsent (tcp_pcbs w pcb) = None then set_pcb pcb (\<lambda>c. c\<lparr>unsent_oversize := 0\<rparr>) w else w)
                    }
                  }
              }))"

section \<open>Retransmission\<close>

text \<open>The last segment of the queue, or \<open>None\<close> when one of its segments is busy.\<close>

partial_function (option) last_idle :: "nat \<Rightarrow> 'a tstate_scheme \<Rightarrow> nat option option" where
  "last_idle sg w =
     Option.bind (tcp_output_segment_busy sg w) (\<lambda>busy.
       if busy then Some None else (case seg_next (tcp_segs w sg) of None \<Rightarrow> Some (Some sg) | Some s \<Rightarrow> last_idle s w))"

definition tcp_rexmit_rto_prepare :: "nat \<Rightarrow> 'a tstate_scheme \<Rightarrow> (err_t \<times> 'a tstate_scheme) option" where
  "tcp_rexmit_rto_prepare pcb w =
     (case unacked (tcp_pcbs w pcb) of
        None \<Rightarrow> Some (ERR_VAL, w)
      | Some u \<Rightarrow> do {
          r \<leftarrow> last_idle u w;
          case r of
            None \<Rightarrow> Some (ERR_VAL, w)
          | Some sg \<Rightarrow>
              (let w = set_seg sg (\<lambda>s. s\<lparr>seg_next := unsent (tcp_pcbs w pcb)\<rparr>) w;
                   w = set_pcb pcb (\<lambda>c. c\<lparr>unsent := unacked c, unacked := None\<rparr>) w;
                   w = tcp_set_flags pcb TF_RTO w
               in Some (ERR_OK, set_pcb pcb (\<lambda>c. c\<lparr>rto_end := seg_seqno sg w + TCP_TCPLEN (tcp_segs w sg) w, rttest := 0\<rparr>) w))
        })"

definition bump_nrtx :: "nat \<Rightarrow> 'a tstate_scheme \<Rightarrow> 'a tstate_scheme" where
  "bump_nrtx pcb = set_pcb pcb (\<lambda>c. if nrtx c < 0xFF then c\<lparr>nrtx := nrtx c + 1\<rparr> else c)"

definition tcp_rexmit_rto_commit :: "nat \<Rightarrow> 'a tstate_scheme \<Rightarrow> 'a tstate_scheme option" where
  "tcp_rexmit_rto_commit pcb w = do { (_, w) \<leftarrow> tcp_output pcb (bump_nrtx pcb w); Some w }"

definition tcp_rexmit_rto :: "nat \<Rightarrow> 'a tstate_scheme \<Rightarrow> 'a tstate_scheme option" where
  "tcp_rexmit_rto pcb w = do {
     (err, w) \<leftarrow> tcp_rexmit_rto_prepare pcb w;
     if err = ERR_OK then tcp_rexmit_rto_commit pcb w else Some w
   }"

definition tcp_rexmit :: "nat \<Rightarrow> 'a tstate_scheme \<Rightarrow> (err_t \<times> 'a tstate_scheme) option" where
  "tcp_rexmit pcb w =
     (case unacked (tcp_pcbs w pcb) of
        None \<Rightarrow> Some (ERR_VAL, w)
      | Some sg \<Rightarrow> do {
          busy \<leftarrow> tcp_output_segment_busy sg w;
          if busy then Some (ERR_VAL, w)
          else do {
            let w = set_pcb pcb (\<lambda>c. c\<lparr>unacked := seg_next (tcp_segs w sg)\<rparr>) w;
            (prev, cur) \<leftarrow> sorted_place (seg_seqno sg w) None (unsent (tcp_pcbs w pcb)) w;
            let w = set_seg sg (\<lambda>s. s\<lparr>seg_next := cur\<rparr>) w;
            let w = (case prev of
                       None \<Rightarrow> set_pcb pcb (\<lambda>c. c\<lparr>unsent := Some sg\<rparr>) w
                     | Some q \<Rightarrow> set_seg q (\<lambda>s. s\<lparr>seg_next := Some sg\<rparr>) w);
            let w = (if cur = None then set_pcb pcb (\<lambda>c. c\<lparr>unsent_oversize := 0\<rparr>) w else w);
            Some (ERR_OK, set_pcb pcb (\<lambda>c. c\<lparr>rttest := 0\<rparr>) (bump_nrtx pcb w))
          }
        })"

definition tcp_rexmit_fast :: "nat \<Rightarrow> 'a tstate_scheme \<Rightarrow> 'a tstate_scheme option" where
  "tcp_rexmit_fast pcb w =
     (if unacked (tcp_pcbs w pcb) \<noteq> None \<and> \<not> tcp_is_flag_set (tcp_pcbs w pcb) TF_INFR then do {
        (err, w) \<leftarrow> tcp_rexmit pcb w;
        if err = ERR_OK then
          (let w = set_pcb pcb (\<lambda>c. c\<lparr>ssthresh := min (cwnd c) (snd_wnd c) div 2\<rparr>) w;
               w = set_pcb pcb (\<lambda>c. if unat (ssthresh c) < 2 * unat (pcb_mss c) then c\<lparr>ssthresh := 2 * pcb_mss c\<rparr> else c) w;
               w = set_pcb pcb (\<lambda>c. c\<lparr>cwnd := ssthresh c + 3 * pcb_mss c\<rparr>) w;
               w = tcp_set_flags pcb TF_INFR w
           in Some (set_pcb pcb (\<lambda>c. c\<lparr>rtime := 0\<rparr>) w))
        else Some w
      }
      else Some w)"

end
