(* ===== verification/Tcp.thy ===== *)
theory Tcp
  imports Tcp_Out
begin

text \<open>
  Connections: \<^verbatim>\<open>core/tcp.c\<close>. The functions of the application, which it registers as numbers, and the request for the timer,
  \<^verbatim>\<open>tcp_timer_needed\<close> of \<^verbatim>\<open>timeouts.c\<close>, are the parameters \<open>tcp_env\<close>: a callback may change the state in any way, as
  it calls back into the stack.
\<close>

record 's tcp_env =
  timer_needed :: "'s \<Rightarrow> 's option"
  call_accept :: "nat \<Rightarrow> nat option \<Rightarrow> nat option \<Rightarrow> err_t \<Rightarrow> 's \<Rightarrow> (err_t \<times> 's) option"
  call_recv :: "nat \<Rightarrow> nat option \<Rightarrow> nat \<Rightarrow> nat option \<Rightarrow> err_t \<Rightarrow> 's \<Rightarrow> (err_t \<times> 's) option"
  call_sent :: "nat \<Rightarrow> nat option \<Rightarrow> nat \<Rightarrow> u16 \<Rightarrow> 's \<Rightarrow> (err_t \<times> 's) option"
  call_connected :: "nat \<Rightarrow> nat option \<Rightarrow> nat \<Rightarrow> err_t \<Rightarrow> 's \<Rightarrow> (err_t \<times> 's) option"
  call_poll :: "nat \<Rightarrow> nat option \<Rightarrow> nat \<Rightarrow> 's \<Rightarrow> (err_t \<times> 's) option"
  call_err :: "nat \<Rightarrow> nat option \<Rightarrow> err_t \<Rightarrow> 's \<Rightarrow> 's option"

section \<open>The lists of control blocks\<close>

abbreviation tcp_active_pcbs :: "'a tstate_scheme \<Rightarrow> nat option" where
  "tcp_active_pcbs w \<equiv> tcp_pcb_lists w Tcp_active_pcbs"

abbreviation tcp_tw_pcbs :: "'a tstate_scheme \<Rightarrow> nat option" where
  "tcp_tw_pcbs w \<equiv> tcp_pcb_lists w Tcp_tw_pcbs"

definition set_list :: "tcp_pcb_list \<Rightarrow> nat option \<Rightarrow> 'a tstate_scheme \<Rightarrow> 'a tstate_scheme" where
  "set_list l v w = w\<lparr>tcp_pcb_lists := (tcp_pcb_lists w)(l := v)\<rparr>"

definition TCP_REG :: "'a tstate_scheme tcp_env \<Rightarrow> tcp_pcb_list \<Rightarrow> nat \<Rightarrow> 'a tstate_scheme \<Rightarrow> 'a tstate_scheme option" where
  "TCP_REG env l npcb w = timer_needed env (set_list l (Some npcb) (set_pcb npcb (\<lambda>c. c\<lparr>pcb_next := tcp_pcb_lists w l\<rparr>) w))"

partial_function (option) rmv_loop :: "nat \<Rightarrow> nat option \<Rightarrow> 'a tstate_scheme \<Rightarrow> 'a tstate_scheme option" where
  "rmv_loop npcb tcp_tmp_pcb w =
     (case tcp_tmp_pcb of
        None \<Rightarrow> Some w
      | Some t \<Rightarrow>
          if pcb_next (tcp_pcbs w t) = Some npcb then Some (set_pcb t (\<lambda>c. c\<lparr>pcb_next := pcb_next (tcp_pcbs w npcb)\<rparr>) w)
          else rmv_loop npcb (pcb_next (tcp_pcbs w t)) w)"

definition TCP_RMV :: "tcp_pcb_list \<Rightarrow> nat \<Rightarrow> 'a tstate_scheme \<Rightarrow> 'a tstate_scheme option" where
  "TCP_RMV l npcb w = do {
     w \<leftarrow> (if tcp_pcb_lists w l = Some npcb then Some (set_list l (pcb_next (tcp_pcbs w npcb)) w)
            else rmv_loop npcb (tcp_pcb_lists w l) w);
     Some (set_pcb npcb (\<lambda>c. c\<lparr>pcb_next := None\<rparr>) w)
   }"

definition pcbs_changed :: "'a tstate_scheme \<Rightarrow> 'a tstate_scheme" where
  "pcbs_changed w = w\<lparr>tcp_active_pcbs_changed := True\<rparr>"

definition TCP_REG_ACTIVE :: "'a tstate_scheme tcp_env \<Rightarrow> nat \<Rightarrow> 'a tstate_scheme \<Rightarrow> 'a tstate_scheme option" where
  "TCP_REG_ACTIVE env npcb w = do { w \<leftarrow> TCP_REG env Tcp_active_pcbs npcb w; Some (pcbs_changed w) }"

definition TCP_RMV_ACTIVE :: "nat \<Rightarrow> 'a tstate_scheme \<Rightarrow> 'a tstate_scheme option" where
  "TCP_RMV_ACTIVE npcb w = do { w \<leftarrow> TCP_RMV Tcp_active_pcbs npcb w; Some (pcbs_changed w) }"

definition tcp_pcb_purge :: "nat \<Rightarrow> 'a tstate_scheme \<Rightarrow> 'a tstate_scheme option" where
  "tcp_pcb_purge pcb w =
     (if pcb_state (tcp_pcbs w pcb) \<noteq> CLOSED \<and> pcb_state (tcp_pcbs w pcb) \<noteq> TIME_WAIT \<and> pcb_state (tcp_pcbs w pcb) \<noteq> LISTEN then do {
        w \<leftarrow> (case refused_data (tcp_pcbs w pcb) of
                 None \<Rightarrow> Some w
               | Some p \<Rightarrow> do { w \<leftarrow> free_packet p w; Some (set_pcb pcb (\<lambda>c. c\<lparr>refused_data := None\<rparr>) w) });
        w \<leftarrow> tcp_free_ooseq pcb w;
        let w = set_pcb pcb (\<lambda>c. c\<lparr>rtime := -1\<rparr>) w;
        w \<leftarrow> tcp_segs_free (unsent (tcp_pcbs w pcb)) w;
        w \<leftarrow> tcp_segs_free (unacked (tcp_pcbs w pcb)) w;
        Some (set_pcb pcb (\<lambda>c. c\<lparr>unacked := None, unsent := None, unsent_oversize := 0\<rparr>) w)
      }
      else Some w)"

definition tcp_pcb_remove :: "tcp_pcb_list \<Rightarrow> nat \<Rightarrow> 'a tstate_scheme \<Rightarrow> 'a tstate_scheme option" where
  "tcp_pcb_remove pcblist pcb w = do {
     w \<leftarrow> TCP_RMV pcblist pcb w;
     w \<leftarrow> tcp_pcb_purge pcb w;
     w \<leftarrow> (if pcb_state (tcp_pcbs w pcb) \<noteq> TIME_WAIT \<and> pcb_state (tcp_pcbs w pcb) \<noteq> LISTEN \<and> tcp_is_flag_set (tcp_pcbs w pcb) TF_ACK_DELAY
            then do { (_, w) \<leftarrow> tcp_output pcb (tcp_ack_now pcb w); Some w } else Some w);
     if pcb_state (tcp_pcbs w pcb) \<noteq> LISTEN \<and>
        (unsent (tcp_pcbs w pcb) \<noteq> None \<or> unacked (tcp_pcbs w pcb) \<noteq> None \<or> ooseq (tcp_pcbs w pcb) \<noteq> None) then None
     else Some (set_pcb pcb (\<lambda>c. c\<lparr>pcb_state := CLOSED, local_port := 0\<rparr>) w)
   }"

definition TCP_PCB_REMOVE_ACTIVE :: "nat \<Rightarrow> 'a tstate_scheme \<Rightarrow> 'a tstate_scheme option" where
  "TCP_PCB_REMOVE_ACTIVE pcb w = do { w \<leftarrow> tcp_pcb_remove Tcp_active_pcbs pcb w; Some (pcbs_changed w) }"

definition tcp_free :: "nat \<Rightarrow> 'a tstate_scheme \<Rightarrow> 'a tstate_scheme option" where
  "tcp_free pcb w = (if pcb_state (tcp_pcbs w pcb) = LISTEN then None else pool_free MEMP_TCP_PCB pcb w)"

definition tcp_free_listen :: "nat \<Rightarrow> 'a tstate_scheme \<Rightarrow> 'a tstate_scheme option" where
  "tcp_free_listen pcb w = (if pcb_state (tcp_pcbs w pcb) = LISTEN then None else pool_free MEMP_TCP_PCB_LISTEN pcb w)"

partial_function (option) tcp_remove_listener :: "nat option \<Rightarrow> nat \<Rightarrow> 'a tstate_scheme \<Rightarrow> 'a tstate_scheme option" where
  "tcp_remove_listener pcb lpcb w =
     (case pcb of
        None \<Rightarrow> Some w
      | Some c \<Rightarrow>
          tcp_remove_listener (pcb_next (tcp_pcbs w c)) lpcb
            (if listener (tcp_pcbs w c) = Some lpcb then set_pcb c (\<lambda>x. x\<lparr>listener := None\<rparr>) w else w))"

definition tcp_listen_closed :: "nat \<Rightarrow> 'a tstate_scheme \<Rightarrow> 'a tstate_scheme option" where
  "tcp_listen_closed pcb w =
     (if pcb_state (tcp_pcbs w pcb) \<noteq> LISTEN then None
      else do {
        w \<leftarrow> tcp_remove_listener (tcp_pcb_lists w Tcp_bound_pcbs) pcb w;
        w \<leftarrow> tcp_remove_listener (tcp_active_pcbs w) pcb w;
        tcp_remove_listener (tcp_tw_pcbs w) pcb w
      })"

section \<open>Closing and aborting\<close>

definition tcp_trigger_input_pcb_close :: "'a tstate_scheme \<Rightarrow> 'a tstate_scheme" where
  "tcp_trigger_input_pcb_close = set_in (\<lambda>i. i\<lparr>recv_flags := recv_flags i OR TF_CLOSED\<rparr>)"

definition tcp_close_shutdown_fin :: "nat \<Rightarrow> 'a tstate_scheme \<Rightarrow> (err_t \<times> 'a tstate_scheme) option" where
  "tcp_close_shutdown_fin pcb w =
     (let st = pcb_state (tcp_pcbs w pcb)
      in if st \<noteq> SYN_RCVD \<and> st \<noteq> ESTABLISHED \<and> st \<noteq> CLOSE_WAIT then Some (ERR_OK, w)
         else do {
           (err, w) \<leftarrow> tcp_send_fin pcb w;
           if err = ERR_OK then do {
             (_, w) \<leftarrow> tcp_output pcb (set_pcb pcb (\<lambda>c. c\<lparr>pcb_state := (if st = CLOSE_WAIT then LAST_ACK else FIN_WAIT_1)\<rparr>) w);
             Some (ERR_OK, w)
           }
           else if err = ERR_MEM then Some (ERR_OK, tcp_set_flags pcb TF_CLOSEPEND w)
           else Some (err, w)
         })"

definition tcp_close_shutdown :: "nat \<Rightarrow> bool \<Rightarrow> 'a tstate_scheme \<Rightarrow> (err_t \<times> 'a tstate_scheme) option" where
  "tcp_close_shutdown pcb rst_on_unacked_data w =
     (let c = tcp_pcbs w pcb
      in if rst_on_unacked_data \<and> (pcb_state c = ESTABLISHED \<or> pcb_state c = CLOSE_WAIT) \<and>
            (refused_data c \<noteq> None \<or> rcv_wnd c \<noteq> TCP_WND_MAX c) then
           (if \<not> tcp_is_flag_set c TF_RXCLOSED then None
            else do {
              w \<leftarrow> tcp_rst (Some pcb) (snd_nxt c) (rcv_nxt c) (local_ip c) (remote_ip c) (local_port c) (remote_port c) w;
              w \<leftarrow> tcp_pcb_purge pcb w;
              w \<leftarrow> TCP_RMV_ACTIVE pcb w;
              w \<leftarrow> (if tcp_input_pcb w = Some pcb then Some (tcp_trigger_input_pcb_close w) else tcp_free pcb w);
              Some (ERR_OK, w)
            })
         else if pcb_state c = CLOSED then do {
           w \<leftarrow> (if local_port c \<noteq> 0 then TCP_RMV Tcp_bound_pcbs pcb w else Some w);
           w \<leftarrow> tcp_free pcb w;
           Some (ERR_OK, w)
         }
         else if pcb_state c = LISTEN then do {
           w \<leftarrow> tcp_listen_closed pcb w;
           w \<leftarrow> tcp_pcb_remove Tcp_listen_pcbs pcb w;
           w \<leftarrow> tcp_free_listen pcb w;
           Some (ERR_OK, w)
         }
         else if pcb_state c = SYN_SENT then do {
           w \<leftarrow> TCP_PCB_REMOVE_ACTIVE pcb w;
           w \<leftarrow> tcp_free pcb w;
           Some (ERR_OK, w)
         }
         else tcp_close_shutdown_fin pcb w)"

definition tcp_close :: "nat option \<Rightarrow> 'a tstate_scheme \<Rightarrow> (err_t \<times> 'a tstate_scheme) option" where
  "tcp_close pcb w =
     (case pcb of
        None \<Rightarrow> Some (ERR_ARG, w)
      | Some pcb \<Rightarrow>
          tcp_close_shutdown pcb True (if pcb_state (tcp_pcbs w pcb) \<noteq> LISTEN then tcp_set_flags pcb TF_RXCLOSED w else w))"

definition tcp_shutdown :: "nat option \<Rightarrow> bool \<Rightarrow> bool \<Rightarrow> 'a tstate_scheme \<Rightarrow> (err_t \<times> 'a tstate_scheme) option" where
  "tcp_shutdown pcb shut_rx shut_tx w =
     (case pcb of
        None \<Rightarrow> Some (ERR_ARG, w)
      | Some pcb \<Rightarrow>
          if pcb_state (tcp_pcbs w pcb) = LISTEN then Some (ERR_CONN, w)
          else if shut_rx \<and> shut_tx then tcp_close_shutdown pcb True (tcp_set_flags pcb TF_RXCLOSED w)
          else do {
            w \<leftarrow> (if shut_rx then
                     (let w = tcp_set_flags pcb TF_RXCLOSED w
                      in case refused_data (tcp_pcbs w pcb) of
                           None \<Rightarrow> Some w
                         | Some p \<Rightarrow> do { w \<leftarrow> free_packet p w; Some (set_pcb pcb (\<lambda>c. c\<lparr>refused_data := None\<rparr>) w) })
                   else Some w);
            if shut_tx then
              (if pcb_state (tcp_pcbs w pcb) \<in> {SYN_RCVD, ESTABLISHED, CLOSE_WAIT} then tcp_close_shutdown pcb shut_rx w
               else Some (ERR_CONN, w))
            else Some (ERR_OK, w)
          })"

definition TCP_EVENT_ERR :: "'a tstate_scheme tcp_env \<Rightarrow> nat option \<Rightarrow> nat option \<Rightarrow> err_t \<Rightarrow> 'a tstate_scheme \<Rightarrow> 'a tstate_scheme option" where
  "TCP_EVENT_ERR env f arg err w = (case f of None \<Rightarrow> Some w | Some f \<Rightarrow> call_err env f arg err w)"

definition free_queues :: "nat \<Rightarrow> 'a tstate_scheme \<Rightarrow> 'a tstate_scheme option" where
  "free_queues pcb w = do {
     w \<leftarrow> tcp_segs_free (unacked (tcp_pcbs w pcb)) w;
     w \<leftarrow> tcp_segs_free (unsent (tcp_pcbs w pcb)) w;
     tcp_segs_free (ooseq (tcp_pcbs w pcb)) w
   }"

definition tcp_abandon :: "'a tstate_scheme tcp_env \<Rightarrow> nat option \<Rightarrow> bool \<Rightarrow> 'a tstate_scheme \<Rightarrow> 'a tstate_scheme option" where
  "tcp_abandon env pcb reset w =
     (case pcb of
        None \<Rightarrow> Some w
      | Some pcb \<Rightarrow>
          (let c = tcp_pcbs w pcb
           in if pcb_state c = LISTEN then None
              else if pcb_state c = TIME_WAIT then do {
                w \<leftarrow> tcp_pcb_remove Tcp_tw_pcbs pcb w;
                tcp_free pcb w
              }
              else do {
                w \<leftarrow> (if pcb_state c = CLOSED then (if local_port c \<noteq> 0 then TCP_RMV Tcp_bound_pcbs pcb w else Some w)
                       else TCP_PCB_REMOVE_ACTIVE pcb w);
                w \<leftarrow> free_queues pcb w;
                w \<leftarrow> (if pcb_state c \<noteq> CLOSED \<and> reset
                       then tcp_rst (Some pcb) (snd_nxt c) (rcv_nxt c) (local_ip (tcp_pcbs w pcb)) (remote_ip (tcp_pcbs w pcb))
                              (local_port c) (remote_port (tcp_pcbs w pcb)) w
                       else Some w);
                w \<leftarrow> tcp_free pcb w;
                TCP_EVENT_ERR env (errf c) (callback_arg c) ERR_ABRT w
              }))"

definition tcp_abort :: "'a tstate_scheme tcp_env \<Rightarrow> nat option \<Rightarrow> 'a tstate_scheme \<Rightarrow> 'a tstate_scheme option" where
  "tcp_abort env pcb w = tcp_abandon env pcb True w"

section \<open>Binding and listening\<close>

text \<open>Whether a control block of the list satisfies a condition.\<close>

partial_function (option) any_pcb :: "(tcp_pcb \<Rightarrow> bool) \<Rightarrow> nat option \<Rightarrow> 'a tstate_scheme \<Rightarrow> bool option" where
  "any_pcb P pcb w =
     (case pcb of
        None \<Rightarrow> Some False
      | Some c \<Rightarrow> if P (tcp_pcbs w c) then Some True else any_pcb P (pcb_next (tcp_pcbs w c)) w)"

definition any_list :: "(tcp_pcb \<Rightarrow> bool) \<Rightarrow> 'a tstate_scheme \<Rightarrow> bool option" where
  "any_list P w = do {
     a \<leftarrow> any_pcb P (tcp_pcb_lists w Tcp_listen_pcbs) w;
     if a then Some True
     else do {
       a \<leftarrow> any_pcb P (tcp_pcb_lists w Tcp_bound_pcbs) w;
       if a then Some True
       else do {
         a \<leftarrow> any_pcb P (tcp_pcb_lists w Tcp_active_pcbs) w;
         if a then Some True else any_pcb P (tcp_pcb_lists w Tcp_tw_pcbs) w
       }
     }
   }"

partial_function (option) new_port_loop :: "u16 \<Rightarrow> 'a tstate_scheme \<Rightarrow> (u16 \<times> 'a tstate_scheme) option" where
  "new_port_loop n w =
     (let port = tcp_port w + 1;
          port = (if port = TCP_LOCAL_PORT_RANGE_END then TCP_LOCAL_PORT_RANGE_START else port);
          w = w\<lparr>tcp_port := port\<rparr>
      in Option.bind (any_list (\<lambda>c. local_port c = port) w) (\<lambda>used.
           if \<not> used then Some (port, w)
           else if n + 1 > TCP_LOCAL_PORT_RANGE_END - TCP_LOCAL_PORT_RANGE_START then Some (0, w)
           else new_port_loop (n + 1) w))"

definition tcp_new_port :: "'a tstate_scheme \<Rightarrow> (u16 \<times> 'a tstate_scheme) option" where
  "tcp_new_port w = new_port_loop 0 w"

definition tcp_bind :: "'a tstate_scheme tcp_env \<Rightarrow> nat option \<Rightarrow> u32 option \<Rightarrow> u16 \<Rightarrow> 'a tstate_scheme \<Rightarrow> (err_t \<times> 'a tstate_scheme) option" where
  "tcp_bind env pcb ipaddr port w =
     (let ipaddr = (case ipaddr of None \<Rightarrow> IPADDR_ANY | Some a \<Rightarrow> a)
      in case pcb of
           None \<Rightarrow> Some (ERR_ARG, w)
         | Some pcb \<Rightarrow>
             if pcb_state (tcp_pcbs w pcb) \<noteq> CLOSED then Some (ERR_VAL, w)
             else do {
               (err, port, w) \<leftarrow>
                 (if port = 0 then do { (port, w) \<leftarrow> tcp_new_port w; Some (if port = 0 then ERR_BUF else ERR_OK, port, w) }
                  else do {
                    used \<leftarrow> any_list (\<lambda>c. local_port c = port \<and>
                      (ip4_addr_isany_val (local_ip c) \<or> ip4_addr_isany_val ipaddr \<or> local_ip c = ipaddr)) w;
                    Some (if used then ERR_USE else ERR_OK, port, w)
                  });
               if err \<noteq> ERR_OK then Some (err, w)
               else do {
                 let w = (if \<not> ip4_addr_isany_val ipaddr then set_pcb pcb (\<lambda>c. c\<lparr>local_ip := ipaddr\<rparr>) w else w);
                 w \<leftarrow> TCP_REG env Tcp_bound_pcbs pcb (set_pcb pcb (\<lambda>c. c\<lparr>local_port := port\<rparr>) w);
                 Some (ERR_OK, w)
               }
             })"

definition tcp_bind_netif :: "nat \<Rightarrow> nat option \<Rightarrow> 'a tstate_scheme \<Rightarrow> 'a tstate_scheme" where
  "tcp_bind_netif pcb nif w =
     set_pcb pcb (\<lambda>c. c\<lparr>netif_idx := (case nif of None \<Rightarrow> NETIF_NO_INDEX | Some n \<Rightarrow> netif_get_index (netifs w n))\<rparr>) w"

definition tcp_accept_null :: "'a tstate_scheme tcp_env \<Rightarrow> nat option \<Rightarrow> 'a tstate_scheme \<Rightarrow> (err_t \<times> 'a tstate_scheme) option" where
  "tcp_accept_null env pcb w = (case pcb of None \<Rightarrow> None | Some c \<Rightarrow> do { w \<leftarrow> tcp_abort env (Some c) w; Some (ERR_ABRT, w) })"

definition tcp_listen_with_backlog_and_err ::
  "'a tstate_scheme tcp_env \<Rightarrow> nat option \<Rightarrow> 'a tstate_scheme \<Rightarrow> (err_t \<times> nat option \<times> 'a tstate_scheme) option" where
  "tcp_listen_with_backlog_and_err env pcb w =
     (case pcb of
        None \<Rightarrow> Some (ERR_ARG, None, w)
      | Some pcb \<Rightarrow>
          if pcb_state (tcp_pcbs w pcb) \<noteq> CLOSED then Some (ERR_CLSD, None, w)
          else do {
            (r, w) \<leftarrow> pool_malloc MEMP_TCP_PCB_LISTEN w;
            case r of
              None \<Rightarrow> Some (ERR_MEM, None, w)
            | Some lpcb \<Rightarrow> do {
                let c = tcp_pcbs w pcb;
                let w = set_pcb lpcb (\<lambda>l. l\<lparr>callback_arg := callback_arg c, local_port := local_port c, pcb_state := LISTEN, prio := prio c,
                          so_options := so_options c, netif_idx := netif_idx c, pcb_ttl := pcb_ttl c, pcb_tos := pcb_tos c,
                          local_ip := local_ip c\<rparr>) w;
                w \<leftarrow> (if local_port (tcp_pcbs w pcb) \<noteq> 0 then TCP_RMV Tcp_bound_pcbs pcb w else Some w);
                w \<leftarrow> tcp_free pcb w;
                w \<leftarrow> TCP_REG env Tcp_listen_pcbs lpcb (set_pcb lpcb (\<lambda>l. l\<lparr>accept_fn := Tcp_accept_null\<rparr>) w);
                Some (ERR_OK, Some lpcb, w)
              }
          })"

definition tcp_listen_with_backlog :: "'a tstate_scheme tcp_env \<Rightarrow> nat option \<Rightarrow> 'a tstate_scheme \<Rightarrow> (nat option \<times> 'a tstate_scheme) option" where
  "tcp_listen_with_backlog env pcb w = do { (_, lpcb, w) \<leftarrow> tcp_listen_with_backlog_and_err env pcb w; Some (lpcb, w) }"

section \<open>The receive window\<close>

definition tcp_update_rcv_ann_wnd :: "nat \<Rightarrow> 'a tstate_scheme \<Rightarrow> (u32 \<times> 'a tstate_scheme) option" where
  "tcp_update_rcv_ann_wnd pcb w =
     (let c = tcp_pcbs w pcb; new_right_edge = rcv_nxt c + ucast (rcv_wnd c)
      in if TCP_SEQ_GEQ new_right_edge (rcv_ann_right_edge c + ucast (min (TCP_WND div 2) (pcb_mss c)))
         then Some (new_right_edge - rcv_ann_right_edge c, set_pcb pcb (\<lambda>c. c\<lparr>rcv_ann_wnd := rcv_wnd c\<rparr>) w)
         else if TCP_SEQ_GT (rcv_nxt c) (rcv_ann_right_edge c) then Some (0, set_pcb pcb (\<lambda>c. c\<lparr>rcv_ann_wnd := 0\<rparr>) w)
         else
           (let new_rcv_ann_wnd = rcv_ann_right_edge c - rcv_nxt c
            in if new_rcv_ann_wnd > 0xffff then None
               else Some (0, set_pcb pcb (\<lambda>c. c\<lparr>rcv_ann_wnd := ucast new_rcv_ann_wnd\<rparr>) w)))"

definition tcp_recved :: "nat option \<Rightarrow> u16 \<Rightarrow> 'a tstate_scheme \<Rightarrow> 'a tstate_scheme option" where
  "tcp_recved pcb len w =
     (case pcb of
        None \<Rightarrow> Some w
      | Some pcb \<Rightarrow>
          if pcb_state (tcp_pcbs w pcb) = LISTEN then None
          else do {
            let new_wnd = rcv_wnd (tcp_pcbs w pcb) + len;
            let w = set_pcb pcb (\<lambda>c. c\<lparr>rcv_wnd := (if new_wnd > TCP_WND_MAX c \<or> new_wnd < rcv_wnd c then TCP_WND_MAX c else new_wnd)\<rparr>) w;
            (wnd_inflation, w) \<leftarrow> tcp_update_rcv_ann_wnd pcb w;
            if wnd_inflation \<ge> TCP_WND_UPDATE_THRESHOLD then do { (_, w) \<leftarrow> tcp_output pcb (tcp_ack_now pcb w); Some w }
            else Some w
          })"

section \<open>Connecting\<close>

definition tcp_next_iss :: "'a tstate_scheme \<Rightarrow> u32 \<times> 'a tstate_scheme" where
  "tcp_next_iss w = (iss w + tcp_ticks w, w\<lparr>iss := iss w + tcp_ticks w\<rparr>)"

definition tcp_connect ::
  "'a tstate_scheme tcp_env \<Rightarrow> nat option \<Rightarrow> u32 option \<Rightarrow> u16 \<Rightarrow> nat option \<Rightarrow> 'a tstate_scheme \<Rightarrow> (err_t \<times> 'a tstate_scheme) option" where
  "tcp_connect env pcb ipaddr port conn w =
     (case pcb of
        None \<Rightarrow> Some (ERR_ARG, w)
      | Some pcb \<Rightarrow>
          (case ipaddr of
             None \<Rightarrow> Some (ERR_ARG, w)
           | Some ipaddr \<Rightarrow>
               if pcb_state (tcp_pcbs w pcb) \<noteq> CLOSED then Some (ERR_ISCONN, w)
               else do {
                 let w = set_pcb pcb (\<lambda>c. c\<lparr>remote_ip := ipaddr, remote_port := port\<rparr>) w;
                 r \<leftarrow> (if netif_idx (tcp_pcbs w pcb) \<noteq> NETIF_NO_INDEX then netif_get_by_index (netif_idx (tcp_pcbs w pcb)) w
                        else ip4_route ipaddr w);
                 case r of
                   None \<Rightarrow> Some (ERR_RTE, w)
                 | Some nif \<Rightarrow> do {
                     let w = (if ip4_addr_isany_val (local_ip (tcp_pcbs w pcb))
                              then set_pcb pcb (\<lambda>c. c\<lparr>local_ip := ip_addr (netifs w nif)\<rparr>) w else w);
                     let old_local_port = local_port (tcp_pcbs w pcb);
                     (err, w) \<leftarrow>
                       (if old_local_port = 0 then do {
                          (p, w) \<leftarrow> tcp_new_port w;
                          Some (if p = 0 then ERR_BUF else ERR_OK, set_pcb pcb (\<lambda>c. c\<lparr>local_port := p\<rparr>) w)
                        } else Some (ERR_OK, w));
                     if err \<noteq> ERR_OK then Some (err, w)
                     else do {
                       let (isn, w) = tcp_next_iss w;
                       let w = set_pcb pcb (\<lambda>c. c\<lparr>rcv_nxt := 0, snd_nxt := isn, lastack := isn - 1, snd_wl2 := isn - 1, snd_lbb := isn - 1,
                                 rcv_wnd := TCP_WND, rcv_ann_wnd := TCP_WND, rcv_ann_right_edge := 0, snd_wnd := TCP_WND,
                                 pcb_mss := tcp_eff_send_mss_netif INITIAL_MSS (Some nif) w, cwnd := 1, connected_fn := conn\<rparr>) w;
                       (ret, w) \<leftarrow> tcp_enqueue_flags pcb TCP_SYN w;
                       if ret = ERR_OK then do {
                         let w = set_pcb pcb (\<lambda>c. c\<lparr>pcb_state := SYN_SENT\<rparr>) w;
                         w \<leftarrow> (if old_local_port \<noteq> 0 then TCP_RMV Tcp_bound_pcbs pcb w else Some w);
                         w \<leftarrow> TCP_REG_ACTIVE env pcb w;
                         (_, w) \<leftarrow> tcp_output pcb w;
                         Some (ERR_OK, w)
                       }
                       else Some (ret, w)
                     }
                   }
               }))"

section \<open>Allocating control blocks\<close>

text \<open>
  The search for a victim: the control block with the longest inactivity among those that qualify. For a priority the
  bound falls to the priority of the block found.
\<close>

partial_function (option) oldest_pcb ::
  "(tcp_pcb \<Rightarrow> bool) \<Rightarrow> nat option \<Rightarrow> u32 \<Rightarrow> nat option \<Rightarrow> 'a tstate_scheme \<Rightarrow> nat option option" where
  "oldest_pcb P pcb inactivity inactive w =
     (case pcb of
        None \<Rightarrow> Some inactive
      | Some c \<Rightarrow>
          (let age = tcp_ticks w - tmr (tcp_pcbs w c)
           in if P (tcp_pcbs w c) \<and> age \<ge> inactivity then oldest_pcb P (pcb_next (tcp_pcbs w c)) age (Some c) w
              else oldest_pcb P (pcb_next (tcp_pcbs w c)) inactivity inactive w))"

partial_function (option) lowest_prio_pcb ::
  "u8 \<Rightarrow> nat option \<Rightarrow> u32 \<Rightarrow> nat option \<Rightarrow> 'a tstate_scheme \<Rightarrow> nat option option" where
  "lowest_prio_pcb mprio pcb inactivity inactive w =
     (case pcb of
        None \<Rightarrow> Some inactive
      | Some c \<Rightarrow>
          (let age = tcp_ticks w - tmr (tcp_pcbs w c)
           in if prio (tcp_pcbs w c) < mprio \<or> prio (tcp_pcbs w c) = mprio \<and> age \<ge> inactivity
              then lowest_prio_pcb (prio (tcp_pcbs w c)) (pcb_next (tcp_pcbs w c)) age (Some c) w
              else lowest_prio_pcb mprio (pcb_next (tcp_pcbs w c)) inactivity inactive w))"

definition tcp_kill_prio :: "'a tstate_scheme tcp_env \<Rightarrow> u8 \<Rightarrow> 'a tstate_scheme \<Rightarrow> 'a tstate_scheme option" where
  "tcp_kill_prio env pr w =
     (let mprio = min TCP_PRIO_MAX pr
      in if mprio = 0 then Some w
         else do {
           r \<leftarrow> lowest_prio_pcb (mprio - 1) (tcp_active_pcbs w) 0 None w;
           (case r of None \<Rightarrow> Some w | Some c \<Rightarrow> tcp_abort env (Some c) w)
         })"

definition tcp_kill_state :: "'a tstate_scheme tcp_env \<Rightarrow> tcp_state \<Rightarrow> 'a tstate_scheme \<Rightarrow> 'a tstate_scheme option" where
  "tcp_kill_state env st w =
     (if st \<noteq> CLOSING \<and> st \<noteq> LAST_ACK then None
      else do {
        r \<leftarrow> oldest_pcb (\<lambda>c. pcb_state c = st) (tcp_active_pcbs w) 0 None w;
        (case r of None \<Rightarrow> Some w | Some c \<Rightarrow> tcp_abandon env (Some c) False w)
      })"

definition tcp_kill_timewait :: "'a tstate_scheme tcp_env \<Rightarrow> 'a tstate_scheme \<Rightarrow> 'a tstate_scheme option" where
  "tcp_kill_timewait env w = do {
     r \<leftarrow> oldest_pcb (\<lambda>_. True) (tcp_tw_pcbs w) 0 None w;
     (case r of None \<Rightarrow> Some w | Some c \<Rightarrow> tcp_abort env (Some c) w)
   }"

partial_function (option) closepend_loop :: "nat option \<Rightarrow> 'a tstate_scheme \<Rightarrow> 'a tstate_scheme option" where
  "closepend_loop pcb w =
     (case pcb of
        None \<Rightarrow> Some w
      | Some c \<Rightarrow>
          Option.bind
            (if tcp_is_flag_set (tcp_pcbs w c) TF_CLOSEPEND
             then Option.bind (tcp_close_shutdown_fin c (tcp_clear_flags c TF_CLOSEPEND w)) (\<lambda>(_, w). Some w) else Some w)
            (\<lambda>v. closepend_loop (pcb_next (tcp_pcbs w c)) v))"

definition tcp_handle_closepend :: "'a tstate_scheme \<Rightarrow> 'a tstate_scheme option" where
  "tcp_handle_closepend w = closepend_loop (tcp_active_pcbs w) w"

definition fresh_pcb :: "u8 \<Rightarrow> u32 \<Rightarrow> u8 \<Rightarrow> tcp_pcb" where
  "fresh_pcb pr ticks ctr =
     \<lparr>local_ip = 0, remote_ip = 0, netif_idx = 0, so_options = 0, pcb_tos = 0, pcb_ttl = TCP_TTL, pcb_next = None, callback_arg = None,
      pcb_state = CLOSED, prio = pr, local_port = 0, accept_fn = Accept_NULL, remote_port = 0, pcb_flags = 0, polltmr = 0, pollinterval = 0,
      last_timer = ctr, tmr = ticks, rcv_nxt = 0, rcv_wnd = TCP_WND, rcv_ann_wnd = TCP_WND, rcv_ann_right_edge = 0, rtime = -1,
      pcb_mss = INITIAL_MSS, rttest = 0, rtseq = 0, sa = 0, sv = of_nat (3000 div unat TCP_SLOW_INTERVAL),
      rto = of_nat (3000 div unat TCP_SLOW_INTERVAL), nrtx = 0, dupacks = 0, lastack = 0, cwnd = 1, ssthresh = TCP_SND_BUF, rto_end = 0,
      snd_nxt = 0, snd_wl1 = 0, snd_wl2 = 0, snd_lbb = 0, snd_wnd = 0, snd_wnd_max = 0, snd_buf = TCP_SND_BUF, snd_queuelen = 0,
      unsent_oversize = 0, bytes_acked = 0, unsent = None, unacked = None, ooseq = None, refused_data = None, listener = None,
      sent_fn = None, recv_fn = Tcp_recv_null, connected_fn = None, poll_fn = None, errf = None, keep_idle = TCP_KEEPIDLE_DEFAULT,
      persist_cnt = 0, persist_backoff = 0, persist_probe = 0, keep_cnt_sent = 0\<rparr>"

text \<open>Allocation, first from the pool and then after each kind of victim has been killed.\<close>

definition alloc_or :: "('a tstate_scheme \<Rightarrow> (nat option \<times> 'a tstate_scheme) option) \<Rightarrow> 'a tstate_scheme \<Rightarrow> (nat option \<times> 'a tstate_scheme) option" where
  "alloc_or otherwise w = do {
     (r, w) \<leftarrow> pool_malloc MEMP_TCP_PCB w;
     (case r of Some c \<Rightarrow> Some (Some c, w) | None \<Rightarrow> otherwise w)
   }"

definition tcp_alloc :: "'a tstate_scheme tcp_env \<Rightarrow> u8 \<Rightarrow> 'a tstate_scheme \<Rightarrow> (nat option \<times> 'a tstate_scheme) option" where
  "tcp_alloc env pr w = do {
     (r, w) \<leftarrow>
       alloc_or (\<lambda>w. do {
         w \<leftarrow> tcp_handle_closepend w;
         w \<leftarrow> tcp_kill_timewait env w;
         alloc_or (\<lambda>w. do {
           w \<leftarrow> tcp_kill_state env LAST_ACK w;
           alloc_or (\<lambda>w. do {
             w \<leftarrow> tcp_kill_state env CLOSING w;
             alloc_or (\<lambda>w. do {
               w \<leftarrow> tcp_kill_prio env pr w;
               pool_malloc MEMP_TCP_PCB w
             }) w
           }) w
         }) w
       }) w;
     Some (r, case r of None \<Rightarrow> w | Some c \<Rightarrow> set_pcb c (\<lambda>_. fresh_pcb pr (tcp_ticks w) (tcp_timer_ctr w)) w)
   }"

definition tcp_new :: "'a tstate_scheme tcp_env \<Rightarrow> 'a tstate_scheme \<Rightarrow> (nat option \<times> 'a tstate_scheme) option" where
  "tcp_new env w = tcp_alloc env TCP_PRIO_NORMAL w"

section \<open>Registering callbacks\<close>

definition tcp_setprio :: "nat option \<Rightarrow> u8 \<Rightarrow> 'a tstate_scheme \<Rightarrow> 'a tstate_scheme" where
  "tcp_setprio pcb pr w = (case pcb of None \<Rightarrow> w | Some c \<Rightarrow> set_pcb c (\<lambda>x. x\<lparr>prio := pr\<rparr>) w)"

definition tcp_arg :: "nat option \<Rightarrow> nat option \<Rightarrow> 'a tstate_scheme \<Rightarrow> 'a tstate_scheme" where
  "tcp_arg pcb arg w = (case pcb of None \<Rightarrow> w | Some c \<Rightarrow> set_pcb c (\<lambda>x. x\<lparr>callback_arg := arg\<rparr>) w)"

definition tcp_recv :: "nat option \<Rightarrow> tcp_recv_fn \<Rightarrow> 'a tstate_scheme \<Rightarrow> 'a tstate_scheme option" where
  "tcp_recv pcb f w =
     (case pcb of None \<Rightarrow> Some w | Some c \<Rightarrow> if pcb_state (tcp_pcbs w c) = LISTEN then None else Some (set_pcb c (\<lambda>x. x\<lparr>recv_fn := f\<rparr>) w))"

definition tcp_sent :: "nat option \<Rightarrow> nat option \<Rightarrow> 'a tstate_scheme \<Rightarrow> 'a tstate_scheme option" where
  "tcp_sent pcb f w =
     (case pcb of None \<Rightarrow> Some w | Some c \<Rightarrow> if pcb_state (tcp_pcbs w c) = LISTEN then None else Some (set_pcb c (\<lambda>x. x\<lparr>sent_fn := f\<rparr>) w))"

definition tcp_err :: "nat option \<Rightarrow> nat option \<Rightarrow> 'a tstate_scheme \<Rightarrow> 'a tstate_scheme option" where
  "tcp_err pcb f w =
     (case pcb of None \<Rightarrow> Some w | Some c \<Rightarrow> if pcb_state (tcp_pcbs w c) = LISTEN then None else Some (set_pcb c (\<lambda>x. x\<lparr>errf := f\<rparr>) w))"

definition tcp_accept :: "nat option \<Rightarrow> tcp_accept_fn \<Rightarrow> 'a tstate_scheme \<Rightarrow> 'a tstate_scheme" where
  "tcp_accept pcb f w =
     (case pcb of None \<Rightarrow> w | Some c \<Rightarrow> if pcb_state (tcp_pcbs w c) = LISTEN then set_pcb c (\<lambda>x. x\<lparr>accept_fn := f\<rparr>) w else w)"

definition tcp_poll :: "nat option \<Rightarrow> nat option \<Rightarrow> u8 \<Rightarrow> 'a tstate_scheme \<Rightarrow> 'a tstate_scheme option" where
  "tcp_poll pcb f interval w =
     (case pcb of
        None \<Rightarrow> Some w
      | Some c \<Rightarrow>
          if pcb_state (tcp_pcbs w c) = LISTEN then None else Some (set_pcb c (\<lambda>x. x\<lparr>poll_fn := f, pollinterval := interval\<rparr>) w))"

section \<open>Events\<close>

definition tcp_recv_null :: "nat option \<Rightarrow> nat option \<Rightarrow> err_t \<Rightarrow> 'a tstate_scheme \<Rightarrow> (err_t \<times> 'a tstate_scheme) option" where
  "tcp_recv_null pcb p err w =
     (case pcb of
        None \<Rightarrow> Some (ERR_ARG, w)
      | Some c \<Rightarrow>
          (case p of
             Some q \<Rightarrow> do { w \<leftarrow> tcp_recved (Some c) (ptot (pbufs w q)) w; w \<leftarrow> free_packet q w; Some (ERR_OK, w) }
           | None \<Rightarrow> if err = ERR_OK then tcp_close (Some c) w else Some (ERR_OK, w)))"

definition TCP_EVENT_ACCEPT ::
  "'a tstate_scheme tcp_env \<Rightarrow> nat \<Rightarrow> nat option \<Rightarrow> nat option \<Rightarrow> err_t \<Rightarrow> 'a tstate_scheme \<Rightarrow> (err_t \<times> 'a tstate_scheme) option" where
  "TCP_EVENT_ACCEPT env lpcb pcb arg err w =
     (case accept_fn (tcp_pcbs w lpcb) of
        Accept_NULL \<Rightarrow> Some (ERR_ARG, w)
      | Tcp_accept_null \<Rightarrow> tcp_accept_null env pcb w
      | Accept_fn f \<Rightarrow> call_accept env f arg pcb err w)"

definition TCP_EVENT_SENT :: "'a tstate_scheme tcp_env \<Rightarrow> nat \<Rightarrow> u16 \<Rightarrow> 'a tstate_scheme \<Rightarrow> (err_t \<times> 'a tstate_scheme) option" where
  "TCP_EVENT_SENT env pcb space w =
     (case sent_fn (tcp_pcbs w pcb) of None \<Rightarrow> Some (ERR_OK, w) | Some f \<Rightarrow> call_sent env f (callback_arg (tcp_pcbs w pcb)) pcb space w)"

definition TCP_EVENT_RECV :: "'a tstate_scheme tcp_env \<Rightarrow> nat \<Rightarrow> nat option \<Rightarrow> err_t \<Rightarrow> 'a tstate_scheme \<Rightarrow> (err_t \<times> 'a tstate_scheme) option" where
  "TCP_EVENT_RECV env pcb p err w =
     (case recv_fn (tcp_pcbs w pcb) of
        Recv_fn f \<Rightarrow> call_recv env f (callback_arg (tcp_pcbs w pcb)) pcb p err w
      | _ \<Rightarrow> tcp_recv_null (Some pcb) p err w)"

definition TCP_EVENT_CLOSED :: "'a tstate_scheme tcp_env \<Rightarrow> nat \<Rightarrow> 'a tstate_scheme \<Rightarrow> (err_t \<times> 'a tstate_scheme) option" where
  "TCP_EVENT_CLOSED env pcb w =
     (case recv_fn (tcp_pcbs w pcb) of
        Recv_fn f \<Rightarrow> call_recv env f (callback_arg (tcp_pcbs w pcb)) pcb None ERR_OK w
      | Tcp_recv_null \<Rightarrow> tcp_recv_null (Some pcb) None ERR_OK w
      | Recv_NULL \<Rightarrow> Some (ERR_OK, w))"

definition TCP_EVENT_CONNECTED :: "'a tstate_scheme tcp_env \<Rightarrow> nat \<Rightarrow> err_t \<Rightarrow> 'a tstate_scheme \<Rightarrow> (err_t \<times> 'a tstate_scheme) option" where
  "TCP_EVENT_CONNECTED env pcb err w =
     (case connected_fn (tcp_pcbs w pcb) of
        None \<Rightarrow> Some (ERR_OK, w) | Some f \<Rightarrow> call_connected env f (callback_arg (tcp_pcbs w pcb)) pcb err w)"

definition TCP_EVENT_POLL :: "'a tstate_scheme tcp_env \<Rightarrow> nat \<Rightarrow> 'a tstate_scheme \<Rightarrow> (err_t \<times> 'a tstate_scheme) option" where
  "TCP_EVENT_POLL env pcb w =
     (case poll_fn (tcp_pcbs w pcb) of None \<Rightarrow> Some (ERR_OK, w) | Some f \<Rightarrow> call_poll env f (callback_arg (tcp_pcbs w pcb)) pcb w)"

definition tcp_process_refused_data :: "'a tstate_scheme tcp_env \<Rightarrow> nat option \<Rightarrow> 'a tstate_scheme \<Rightarrow> (err_t \<times> 'a tstate_scheme) option" where
  "tcp_process_refused_data env pcb w =
     (case pcb of
        None \<Rightarrow> Some (ERR_ARG, w)
      | Some pcb \<Rightarrow>
          (case refused_data (tcp_pcbs w pcb) of
             None \<Rightarrow> None
           | Some q \<Rightarrow> do {
               let refused_flags = pflags (pbufs w q);
               (err, w) \<leftarrow> TCP_EVENT_RECV env pcb (Some q) ERR_OK (set_pcb pcb (\<lambda>c. c\<lparr>refused_data := None\<rparr>) w);
               if err = ERR_OK then
                 (if refused_flags AND PBUF_FLAG_TCP_FIN \<noteq> 0 then do {
                    let w = set_pcb pcb (\<lambda>c. if rcv_wnd c \<noteq> TCP_WND_MAX c then c\<lparr>rcv_wnd := rcv_wnd c + 1\<rparr> else c) w;
                    (err, w) \<leftarrow> TCP_EVENT_CLOSED env pcb w;
                    Some (if err = ERR_ABRT then ERR_ABRT else ERR_OK, w)
                  }
                  else Some (ERR_OK, w))
               else if err = ERR_ABRT then Some (ERR_ABRT, w)
               else Some (ERR_INPROGRESS, set_pcb pcb (\<lambda>c. c\<lparr>refused_data := Some q\<rparr>) w)
             }))"

end
