(* ===== verification/Tcp_Timers.thy ===== *)
theory Tcp_Timers
  imports Tcp
begin

text \<open>
  The timers of \<^verbatim>\<open>core/tcp.c\<close>: retransmission, persist and keep-alive timers, the timeouts of the closing states and
  polling every 500 ms, delayed acknowledgements, refused data and pending closes every 250 ms; and what happens to the
  connections when an interface changes its address.
\<close>

section \<open>The slow timer\<close>

definition tcp_backoff :: "nat list" where
  "tcp_backoff = [1, 2, 3, 4, 5, 6, 7, 7, 7, 7, 7, 7, 7]"

definition tcp_persist_backoff :: "u8 list" where
  "tcp_persist_backoff = [3, 6, 12, 24, 48, 96, 120]"

text \<open>The persist timer; the first result is whether the connection is to be removed.\<close>

definition persist_timer :: "nat \<Rightarrow> 'a tstate_scheme \<Rightarrow> (bool \<times> 'a tstate_scheme) option" where
  "persist_timer pcb w =
     (if unacked (tcp_pcbs w pcb) \<noteq> None \<or> unsent (tcp_pcbs w pcb) = None then None
      else if persist_probe (tcp_pcbs w pcb) \<ge> TCP_MAXRTX then Some (True, w)
      else do {
        let backoff_cnt = tcp_persist_backoff ! (unat (persist_backoff (tcp_pcbs w pcb)) - 1);
        let w = set_pcb pcb (\<lambda>c. if persist_cnt c < backoff_cnt then c\<lparr>persist_cnt := persist_cnt c + 1\<rparr> else c) w;
        if persist_cnt (tcp_pcbs w pcb) \<ge> backoff_cnt then do {
          (next_slot, w) \<leftarrow>
            (if snd_wnd (tcp_pcbs w pcb) = 0 then do { (e, w) \<leftarrow> tcp_zero_window_probe pcb w; Some (e = ERR_OK, w) }
             else do {
               (e, w) \<leftarrow> tcp_split_unsent_seg pcb (snd_wnd (tcp_pcbs w pcb)) w;
               if e = ERR_OK then do { (e, w) \<leftarrow> tcp_output pcb w; Some (e \<noteq> ERR_OK, w) } else Some (True, w)
             });
          Some (False,
            if next_slot
            then set_pcb pcb (\<lambda>c. c\<lparr>persist_cnt := 0,
                   persist_backoff := (if unat (persist_backoff c) < length tcp_persist_backoff then persist_backoff c + 1 else persist_backoff c)\<rparr>) w
            else w)
        }
        else Some (False, w)
      })"

definition backed_off_rto :: "tcp_pcb \<Rightarrow> 16 word" where
  "backed_off_rto c =
     (let backoff_idx = min (unat (nrtx c)) (length tcp_backoff - 1);
          calc_rto = (sint (sa c) div 8 + sint (sv c)) * 2 ^ (tcp_backoff ! backoff_idx)
      in word_of_int (min calc_rto 0x7FFF))"

definition shrink_windows :: "tcp_pcb \<Rightarrow> tcp_pcb" where
  "shrink_windows c =
     (let eff_wnd = min (cwnd c) (snd_wnd c);
          c = c\<lparr>ssthresh := drop_bit 1 eff_wnd\<rparr>;
          c = (if ssthresh c < push_bit 1 (pcb_mss c) then c\<lparr>ssthresh := push_bit 1 (pcb_mss c)\<rparr> else c)
      in c\<lparr>cwnd := pcb_mss c, bytes_acked := 0\<rparr>)"

definition rexmit_timer :: "nat \<Rightarrow> 'a tstate_scheme \<Rightarrow> 'a tstate_scheme option" where
  "rexmit_timer pcb w = do {
     let w = set_pcb pcb (\<lambda>c. if sint (rtime c) \<ge> 0 \<and> sint (rtime c) < 0x7FFF then c\<lparr>rtime := rtime c + 1\<rparr> else c) w;
     if sint (rtime (tcp_pcbs w pcb)) \<ge> sint (rto (tcp_pcbs w pcb)) then do {
       (e, w) \<leftarrow> tcp_rexmit_rto_prepare pcb w;
       if e = ERR_OK \<or> unacked (tcp_pcbs w pcb) = None \<and> unsent (tcp_pcbs w pcb) \<noteq> None then do {
         let w = set_pcb pcb (\<lambda>c. if pcb_state c \<noteq> SYN_SENT then c\<lparr>rto := backed_off_rto c\<rparr> else c) w;
         let w = set_pcb pcb (\<lambda>c. shrink_windows (c\<lparr>rtime := 0\<rparr>)) w;
         tcp_rexmit_rto_commit pcb w
       }
       else Some w
     }
     else Some w
   }"

definition retries_exceeded :: "tcp_pcb \<Rightarrow> bool" where
  "retries_exceeded c \<longleftrightarrow> pcb_state c = SYN_SENT \<and> nrtx c \<ge> TCP_SYNMAXRTX \<or> nrtx c \<ge> TCP_MAXRTX"

text \<open>The keep-alive timer; the first result is whether the connection is to be reset.\<close>

definition keepalive_timer :: "nat \<Rightarrow> 'a tstate_scheme \<Rightarrow> (bool \<times> 'a tstate_scheme) option" where
  "keepalive_timer pcb w =
     (let c = tcp_pcbs w pcb
      in if so_options c AND SOF_KEEPALIVE \<noteq> 0 \<and> (pcb_state c = ESTABLISHED \<or> pcb_state c = CLOSE_WAIT) then
           (if tcp_ticks w - tmr c > (keep_idle c + TCP_MAXIDLE) div TCP_SLOW_INTERVAL then Some (True, w)
            else if tcp_ticks w - tmr c > (keep_idle c + ucast (keep_cnt_sent c) * TCP_KEEPINTVL_DEFAULT) div TCP_SLOW_INTERVAL then do {
              (err, w) \<leftarrow> tcp_keepalive pcb w;
              Some (False, if err = ERR_OK then set_pcb pcb (\<lambda>c. c\<lparr>keep_cnt_sent := keep_cnt_sent c + 1\<rparr>) w else w)
            }
            else Some (False, w))
         else Some (False, w))"

definition drop_old_ooseq :: "nat \<Rightarrow> 'a tstate_scheme \<Rightarrow> 'a tstate_scheme option" where
  "drop_old_ooseq pcb w =
     (let c = tcp_pcbs w pcb
      in if ooseq c \<noteq> None \<and> tcp_ticks w - tmr c \<ge> scast (rto c) * TCP_OOSEQ_TIMEOUT then tcp_free_ooseq pcb w else Some w)"

definition state_timeout :: "tcp_state \<Rightarrow> u32 \<Rightarrow> nat \<Rightarrow> 'a tstate_scheme \<Rightarrow> bool" where
  "state_timeout st limit pcb w \<longleftrightarrow> pcb_state (tcp_pcbs w pcb) = st \<and> tcp_ticks w - tmr (tcp_pcbs w pcb) > limit"

text \<open>What the slow timer does for one connection, before it decides: whether to remove it, and whether with a reset.\<close>

definition slow_pcb :: "nat \<Rightarrow> 'a tstate_scheme \<Rightarrow> (bool \<times> bool \<times> 'a tstate_scheme) option" where
  "slow_pcb pcb w = do {
     (rem1, w) \<leftarrow>
       (if retries_exceeded (tcp_pcbs w pcb) then Some (True, w)
        else if persist_backoff (tcp_pcbs w pcb) > 0 then persist_timer pcb w
        else do { w \<leftarrow> rexmit_timer pcb w; Some (False, w) });
     let rem2 = (tcp_is_flag_set (tcp_pcbs w pcb) TF_RXCLOSED \<and> state_timeout FIN_WAIT_2 (TCP_FIN_WAIT_TIMEOUT div TCP_SLOW_INTERVAL) pcb w);
     (rst, w) \<leftarrow> keepalive_timer pcb w;
     w \<leftarrow> drop_old_ooseq pcb w;
     let rem3 = state_timeout SYN_RCVD (TCP_SYN_RCVD_TIMEOUT div TCP_SLOW_INTERVAL) pcb w;
     let rem4 = state_timeout LAST_ACK (2 * TCP_MSL div TCP_SLOW_INTERVAL) pcb w;
     Some (rem1 \<or> rem2 \<or> rst \<or> rem3 \<or> rem4, rst, w)
   }"

definition unlink_pcb :: "tcp_pcb_list \<Rightarrow> nat option \<Rightarrow> nat \<Rightarrow> 'a tstate_scheme \<Rightarrow> 'a tstate_scheme option" where
  "unlink_pcb l prev pcb w =
     (case prev of
        Some q \<Rightarrow> if tcp_pcb_lists w l = Some pcb then None else Some (set_pcb q (\<lambda>c. c\<lparr>pcb_next := pcb_next (tcp_pcbs w pcb)\<rparr>) w)
      | None \<Rightarrow> if tcp_pcb_lists w l \<noteq> Some pcb then None else Some (set_list l (pcb_next (tcp_pcbs w pcb)) w))"

text \<open>Removing a connection: it is purged, unlinked, reset if asked and freed, and the application hears of it.\<close>

definition slow_remove :: "'a tstate_scheme tcp_env \<Rightarrow> nat option \<Rightarrow> nat \<Rightarrow> bool \<Rightarrow> 'a tstate_scheme \<Rightarrow> (nat option \<times> 'a tstate_scheme) option" where
  "slow_remove env prev pcb pcb_reset w = do {
     let f = errf (tcp_pcbs w pcb);
     w \<leftarrow> tcp_pcb_purge pcb w;
     w \<leftarrow> unlink_pcb Tcp_active_pcbs prev pcb w;
     w \<leftarrow> (if pcb_reset then
              (let c = tcp_pcbs w pcb
               in tcp_rst (Some pcb) (snd_nxt c) (rcv_nxt c) (local_ip c) (remote_ip c) (local_port c) (remote_port c) w)
            else Some w);
     let arg = callback_arg (tcp_pcbs w pcb);
     let after = pcb_next (tcp_pcbs w pcb);
     w \<leftarrow> tcp_free pcb w;
     w \<leftarrow> TCP_EVENT_ERR env f arg ERR_ABRT (w\<lparr>tcp_active_pcbs_changed := False\<rparr>);
     Some (after, w)
   }"

text \<open>Polling the application of a connection that stays; the result is whether the list has changed.\<close>

definition slow_poll :: "'a tstate_scheme tcp_env \<Rightarrow> nat \<Rightarrow> 'a tstate_scheme \<Rightarrow> (bool \<times> 'a tstate_scheme) option" where
  "slow_poll env prev w = do {
     let w = set_pcb prev (\<lambda>c. c\<lparr>polltmr := polltmr c + 1\<rparr>) w;
     if polltmr (tcp_pcbs w prev) \<ge> pollinterval (tcp_pcbs w prev) then do {
       (err, w) \<leftarrow> TCP_EVENT_POLL env prev ((set_pcb prev (\<lambda>c. c\<lparr>polltmr := 0\<rparr>) w)\<lparr>tcp_active_pcbs_changed := False\<rparr>);
       if tcp_active_pcbs_changed w then Some (True, w)
       else if err = ERR_OK then do { (_, w) \<leftarrow> tcp_output prev w; Some (False, w) }
       else Some (False, w)
     }
     else Some (False, w)
   }"

partial_function (option) slow_loop :: "'a tstate_scheme tcp_env \<Rightarrow> nat option \<Rightarrow> nat option \<Rightarrow> 'a tstate_scheme \<Rightarrow> 'a tstate_scheme option" where
  "slow_loop env prev pcb w =
     (case pcb of
        None \<Rightarrow> Some w
      | Some c \<Rightarrow>
          if pcb_state (tcp_pcbs w c) = CLOSED \<or> pcb_state (tcp_pcbs w c) = LISTEN \<or> pcb_state (tcp_pcbs w c) = TIME_WAIT then None
          else if last_timer (tcp_pcbs w c) = tcp_timer_ctr w then slow_loop env (Some c) (pcb_next (tcp_pcbs w c)) w
          else
            Option.bind (slow_pcb c (set_pcb c (\<lambda>x. x\<lparr>last_timer := tcp_timer_ctr w\<rparr>) w)) (\<lambda>(pcb_remove, pcb_reset, w).
              if pcb_remove then
                Option.bind (slow_remove env prev c pcb_reset w) (\<lambda>(after, w).
                  if tcp_active_pcbs_changed w then slow_loop env None (tcp_active_pcbs w) w else slow_loop env prev after w)
              else
                Option.bind (slow_poll env c w) (\<lambda>(changed, v).
                  if changed then slow_loop env None (tcp_active_pcbs v) v else slow_loop env (Some c) (pcb_next (tcp_pcbs w c)) v)))"

partial_function (option) tw_loop :: "nat option \<Rightarrow> nat option \<Rightarrow> 'a tstate_scheme \<Rightarrow> 'a tstate_scheme option" where
  "tw_loop prev pcb w =
     (case pcb of
        None \<Rightarrow> Some w
      | Some c \<Rightarrow>
          if pcb_state (tcp_pcbs w c) \<noteq> TIME_WAIT then None
          else if tcp_ticks w - tmr (tcp_pcbs w c) > 2 * TCP_MSL div TCP_SLOW_INTERVAL then
            Option.bind (tcp_pcb_purge c w) (\<lambda>w.
              Option.bind (unlink_pcb Tcp_tw_pcbs prev c w) (\<lambda>w.
                Option.bind (tcp_free c w) (\<lambda>v. tw_loop prev (pcb_next (tcp_pcbs w c)) v)))
          else tw_loop (Some c) (pcb_next (tcp_pcbs w c)) w)"

definition tcp_slowtmr :: "'a tstate_scheme tcp_env \<Rightarrow> 'a tstate_scheme \<Rightarrow> 'a tstate_scheme option" where
  "tcp_slowtmr env w = do {
     let w = w\<lparr>tcp_ticks := tcp_ticks w + 1, tcp_timer_ctr := tcp_timer_ctr w + 1\<rparr>;
     w \<leftarrow> slow_loop env None (tcp_active_pcbs w) w;
     tw_loop None (tcp_tw_pcbs w) w
   }"

section \<open>The fast timer\<close>

definition fast_pcb :: "nat \<Rightarrow> 'a tstate_scheme \<Rightarrow> 'a tstate_scheme option" where
  "fast_pcb pcb w = do {
     w \<leftarrow> (if tcp_is_flag_set (tcp_pcbs w pcb) TF_ACK_DELAY then do {
              (_, w) \<leftarrow> tcp_output pcb (tcp_ack_now pcb w);
              Some (tcp_clear_flags pcb (TF_ACK_DELAY OR TF_ACK_NOW) w)
            }
            else Some w);
     if tcp_is_flag_set (tcp_pcbs w pcb) TF_CLOSEPEND then do {
       (_, w) \<leftarrow> tcp_close_shutdown_fin pcb (tcp_clear_flags pcb TF_CLOSEPEND w);
       Some w
     }
     else Some w
   }"

partial_function (option) fast_loop :: "'a tstate_scheme tcp_env \<Rightarrow> nat option \<Rightarrow> 'a tstate_scheme \<Rightarrow> 'a tstate_scheme option" where
  "fast_loop env pcb w =
     (case pcb of
        None \<Rightarrow> Some w
      | Some c \<Rightarrow>
          if last_timer (tcp_pcbs w c) = tcp_timer_ctr w then fast_loop env (pcb_next (tcp_pcbs w c)) w
          else
            Option.bind (fast_pcb c (set_pcb c (\<lambda>x. x\<lparr>last_timer := tcp_timer_ctr w\<rparr>) w)) (\<lambda>w.
              if refused_data (tcp_pcbs w c) \<noteq> None then
                Option.bind (tcp_process_refused_data env (Some c) (w\<lparr>tcp_active_pcbs_changed := False\<rparr>)) (\<lambda>(_, v).
                  if tcp_active_pcbs_changed v then fast_loop env (tcp_active_pcbs v) v else fast_loop env (pcb_next (tcp_pcbs w c)) v)
              else fast_loop env (pcb_next (tcp_pcbs w c)) w))"

definition tcp_fasttmr :: "'a tstate_scheme tcp_env \<Rightarrow> 'a tstate_scheme \<Rightarrow> 'a tstate_scheme option" where
  "tcp_fasttmr env w =
     (let w = w\<lparr>tcp_timer_ctr := tcp_timer_ctr w + 1\<rparr> in fast_loop env (tcp_active_pcbs w) w)"

definition tcp_tmr :: "'a tstate_scheme tcp_env \<Rightarrow> 'a tstate_scheme \<Rightarrow> 'a tstate_scheme option" where
  "tcp_tmr env w = do {
     w \<leftarrow> tcp_fasttmr env w;
     let w = w\<lparr>tcp_timer := tcp_timer w + 1\<rparr>;
     if tcp_timer w AND 1 \<noteq> 0 then tcp_slowtmr env w else Some w
   }"

partial_function (option) txnow_loop :: "nat option \<Rightarrow> 'a tstate_scheme \<Rightarrow> 'a tstate_scheme option" where
  "txnow_loop pcb w =
     (case pcb of
        None \<Rightarrow> Some w
      | Some c \<Rightarrow>
          Option.bind (if tcp_is_flag_set (tcp_pcbs w c) TF_NAGLEMEMERR then Option.bind (tcp_output c w) (\<lambda>(_, w). Some w) else Some w)
            (\<lambda>w. txnow_loop (pcb_next (tcp_pcbs w c)) w))"

definition tcp_txnow :: "'a tstate_scheme \<Rightarrow> 'a tstate_scheme option" where
  "tcp_txnow w = txnow_loop (tcp_active_pcbs w) w"

section \<open>Changes of the address\<close>

partial_function (option) tcp_netif_ip_addr_changed_pcblist ::
  "'a tstate_scheme tcp_env \<Rightarrow> u32 \<Rightarrow> nat option \<Rightarrow> 'a tstate_scheme \<Rightarrow> 'a tstate_scheme option" where
  "tcp_netif_ip_addr_changed_pcblist env old_addr pcb w =
     (case pcb of
        None \<Rightarrow> Some w
      | Some c \<Rightarrow>
          if local_ip (tcp_pcbs w c) = old_addr
          then Option.bind (tcp_abort env (Some c) w) (\<lambda>v. tcp_netif_ip_addr_changed_pcblist env old_addr (pcb_next (tcp_pcbs w c)) v)
          else tcp_netif_ip_addr_changed_pcblist env old_addr (pcb_next (tcp_pcbs w c)) w)"

partial_function (option) relisten :: "u32 \<Rightarrow> u32 \<Rightarrow> nat option \<Rightarrow> 'a tstate_scheme \<Rightarrow> 'a tstate_scheme option" where
  "relisten old_addr new_addr lpcb w =
     (case lpcb of
        None \<Rightarrow> Some w
      | Some l \<Rightarrow>
          relisten old_addr new_addr (pcb_next (tcp_pcbs w l))
            (if local_ip (tcp_pcbs w l) = old_addr then set_pcb l (\<lambda>c. c\<lparr>local_ip := new_addr\<rparr>) w else w))"

definition tcp_netif_ip_addr_changed :: "'a tstate_scheme tcp_env \<Rightarrow> 'a tstate_scheme addr_changed" where
  "tcp_netif_ip_addr_changed env old_addr new_addr w =
     (if \<not> ip4_addr_isany_val old_addr then do {
        w \<leftarrow> tcp_netif_ip_addr_changed_pcblist env old_addr (tcp_active_pcbs w) w;
        w \<leftarrow> tcp_netif_ip_addr_changed_pcblist env old_addr (tcp_pcb_lists w Tcp_bound_pcbs) w;
        (case new_addr of
           None \<Rightarrow> Some w
         | Some a \<Rightarrow> if ip4_addr_isany_val a then Some w else relisten old_addr a (tcp_pcb_lists w Tcp_listen_pcbs) w)
      }
      else Some w)"

definition tcp_tcp_get_tcp_addrinfo :: "nat option \<Rightarrow> bool \<Rightarrow> 'a tstate_scheme \<Rightarrow> err_t \<times> (u32 \<times> u16) option" where
  "tcp_tcp_get_tcp_addrinfo pcb loc w =
     (case pcb of
        None \<Rightarrow> (ERR_VAL, None)
      | Some c \<Rightarrow>
          (ERR_OK, Some (if loc then (local_ip (tcp_pcbs w c), local_port (tcp_pcbs w c))
                         else (remote_ip (tcp_pcbs w c), remote_port (tcp_pcbs w c)))))"

end
