(* ===== verification/Tcp_In.thy ===== *)
theory Tcp_In
  imports Tcp_Timers
begin

text \<open>
  Receiving: \<^verbatim>\<open>core/tcp_in.c\<close>. \<open>tcp_input\<close> checks a segment, finds its connection and hands it to the state machine
  \<open>tcp_process\<close>; \<open>tcp_receive\<close> handles its acknowledgement and its data. The globals of the file are the record \<open>tin\<close>. The
  header of a received segment is converted to host order in place, so the queue of segments that came out of order reads
  its sequence numbers directly.
\<close>

section \<open>Options\<close>

definition LWIP_TCP_OPT_EOL :: u8 where "LWIP_TCP_OPT_EOL = 0"
definition LWIP_TCP_OPT_NOP :: u8 where "LWIP_TCP_OPT_NOP = 1"
definition LWIP_TCP_OPT_MSS :: u8 where "LWIP_TCP_OPT_MSS = 2"
definition LWIP_TCP_OPT_LEN_MSS :: u8 where "LWIP_TCP_OPT_LEN_MSS = 4"

definition tcp_get_next_optbyte :: "'a tstate_scheme \<Rightarrow> u8 \<times> 'a tstate_scheme" where
  "tcp_get_next_optbyte w =
     (let optidx = tcp_optidx (tin w);
          w = set_in (\<lambda>i. i\<lparr>tcp_optidx := optidx + 1\<rparr>) w
      in case tcphdr_opt2 (tin w) of
           Some opt2 \<Rightarrow>
             if optidx < tcphdr_opt1len (tin w) then (get8 (in_tcphdr (tin w) + TCP_HLEN + unat optidx) w, w)
             else (get8 (opt2 + unat (ucast (optidx - tcphdr_opt1len (tin w)) :: u8)) w, w)
         | None \<Rightarrow> (get8 (in_tcphdr (tin w) + TCP_HLEN + unat optidx) w, w))"

definition parse_mss :: "nat \<Rightarrow> 'a tstate_scheme \<Rightarrow> 'a tstate_scheme" where
  "parse_mss pcb w =
     (let (hi, w) = tcp_get_next_optbyte w;
          mss = push_bit 8 (ucast hi) :: u16;
          (lo, w) = tcp_get_next_optbyte w;
          mss = mss OR ucast lo
      in set_pcb pcb (\<lambda>c. c\<lparr>pcb_mss := (if mss > TCP_MSS \<or> mss = 0 then TCP_MSS else mss)\<rparr>) w)"

partial_function (option) parse_loop :: "nat \<Rightarrow> 'a tstate_scheme \<Rightarrow> 'a tstate_scheme option" where
  "parse_loop pcb w =
     (if \<not> tcp_optidx (tin w) < tcphdr_optlen (tin w) then Some w
      else
        (case tcp_get_next_optbyte w of
           (opt, w) \<Rightarrow>
             if opt = LWIP_TCP_OPT_EOL then Some w
             else if opt = LWIP_TCP_OPT_NOP then parse_loop pcb w
             else
               (case tcp_get_next_optbyte w of
                  (data, w) \<Rightarrow>
                    if opt = LWIP_TCP_OPT_MSS then
                      (if data \<noteq> LWIP_TCP_OPT_LEN_MSS \<or>
                          int (unat (tcp_optidx (tin w))) - 2 + int (unat LWIP_TCP_OPT_LEN_MSS) > int (unat (tcphdr_optlen (tin w)))
                       then Some w else parse_loop pcb (parse_mss pcb w))
                    else if data < 2 then Some w
                    else parse_loop pcb (set_in (\<lambda>i. i\<lparr>tcp_optidx := tcp_optidx i + (ucast data - 2)\<rparr>) w))))"

definition tcp_parseopt :: "nat \<Rightarrow> 'a tstate_scheme \<Rightarrow> 'a tstate_scheme option" where
  "tcp_parseopt pcb w =
     (if tcphdr_optlen (tin w) \<noteq> 0 then parse_loop pcb (set_in (\<lambda>i. i\<lparr>tcp_optidx := 0\<rparr>) w) else Some w)"

section \<open>Acknowledgements\<close>

partial_function (option) tcp_free_acked_segments ::
  "nat \<Rightarrow> nat option \<Rightarrow> nat option \<Rightarrow> 'a tstate_scheme \<Rightarrow> (nat option \<times> 'a tstate_scheme) option" where
  "tcp_free_acked_segments pcb seg_list other_seg_list w =
     (case seg_list of
        None \<Rightarrow> Some (None, w)
      | Some s \<Rightarrow>
          if TCP_SEQ_LEQ (seg_seqno s w + TCP_TCPLEN (tcp_segs w s) w) (in_ackno (tin w)) then
            Option.bind (pbuf_clen (seg_p (tcp_segs w s)) w) (\<lambda>clen.
              if snd_queuelen (tcp_pcbs w pcb) < clen then None
              else
                (let l = seg_next (tcp_segs w s);
                     w = set_pcb pcb (\<lambda>c. c\<lparr>snd_queuelen := snd_queuelen c - clen\<rparr>) w;
                     w = set_in (\<lambda>i. i\<lparr>recv_acked := recv_acked i + seg_len (tcp_segs w s)\<rparr>) w
                 in Option.bind (tcp_seg_free (Some s) w) (\<lambda>w.
                      if snd_queuelen (tcp_pcbs w pcb) \<noteq> 0 \<and> l = None \<and> other_seg_list = None then None
                      else tcp_free_acked_segments pcb l other_seg_list w)))
          else Some (Some s, w))"

definition update_snd_wnd :: "nat \<Rightarrow> 'a tstate_scheme \<Rightarrow> 'a tstate_scheme" where
  "update_snd_wnd pcb w =
     (let c = tcp_pcbs w pcb; seqno = in_seqno (tin w); ackno = in_ackno (tin w); wnd = get16 (in_tcphdr (tin w) + th_wnd) w
      in if TCP_SEQ_LT (snd_wl1 c) seqno \<or> snd_wl1 c = seqno \<and> TCP_SEQ_LT (snd_wl2 c) ackno \<or> snd_wl2 c = ackno \<and> wnd > snd_wnd c
         then set_pcb pcb (\<lambda>c. c\<lparr>snd_wnd := wnd, snd_wnd_max := (if snd_wnd_max c < wnd then wnd else snd_wnd_max c),
                                 snd_wl1 := seqno, snd_wl2 := ackno\<rparr>) w
         else w)"

text \<open>An acknowledgement of nothing new; \<open>right_wnd_edge\<close> is the edge of the window before the update.\<close>

definition duplicate_ack :: "nat \<Rightarrow> u32 \<Rightarrow> 'a tstate_scheme \<Rightarrow> 'a tstate_scheme option" where
  "duplicate_ack pcb right_wnd_edge w =
     (let c = tcp_pcbs w pcb
      in if tcplen (tin w) = 0 \<and> snd_wl2 c + ucast (snd_wnd c) = right_wnd_edge \<and> sint (rtime c) \<ge> 0 \<and> lastack c = in_ackno (tin w) then
           (let w = set_pcb pcb (\<lambda>c. if dupacks c + 1 > dupacks c then c\<lparr>dupacks := dupacks c + 1\<rparr> else c) w;
                w = set_pcb pcb (\<lambda>c. if dupacks c > 3 then c\<lparr>cwnd := TCP_WND_INC (cwnd c) (pcb_mss c)\<rparr> else c) w
            in if dupacks (tcp_pcbs w pcb) \<ge> 3 then tcp_rexmit_fast pcb w else Some w)
         else Some (set_pcb pcb (\<lambda>c. c\<lparr>dupacks := 0\<rparr>) w))"

definition grow_cwnd :: "u16 \<Rightarrow> tcp_pcb \<Rightarrow> tcp_pcb" where
  "grow_cwnd acked c =
     (if pcb_state c \<ge> ESTABLISHED then
        (if cwnd c < ssthresh c then
           (let num_seg = (if tcp_is_flag_set c TF_RTO then 1 else 2)
            in c\<lparr>cwnd := TCP_WND_INC (cwnd c) (min acked (num_seg * pcb_mss c))\<rparr>)
         else
           (let c = c\<lparr>bytes_acked := TCP_WND_INC (bytes_acked c) acked\<rparr>
            in if bytes_acked c \<ge> cwnd c
               then c\<lparr>bytes_acked := bytes_acked c - cwnd c, cwnd := TCP_WND_INC (cwnd c) (pcb_mss c)\<rparr> else c))
      else c)"

text \<open>
  What an acknowledgement of new data changes in the control block: the end of a fast recovery, the timeout, the windows.
\<close>

definition ack_pcb :: "u32 \<Rightarrow> tcp_pcb \<Rightarrow> tcp_pcb" where
  "ack_pcb ackno c =
     (let c = (if tcp_is_flag_set c TF_INFR then c\<lparr>pcb_flags := pcb_flags c AND NOT TF_INFR, cwnd := ssthresh c, bytes_acked := 0\<rparr> else c);
          acked = ucast (ackno - lastack c)
      in grow_cwnd acked (c\<lparr>nrtx := 0, rto := word_of_int (sint (sa c) div 8 + sint (sv c)), dupacks := 0, lastack := ackno\<rparr>))"

definition rto_done :: "tcp_pcb \<Rightarrow> 'a tstate_scheme \<Rightarrow> bool" where
  "rto_done c w \<longleftrightarrow>
     (case unacked c of
        None \<Rightarrow> (case unsent c of None \<Rightarrow> True | Some u \<Rightarrow> TCP_SEQ_LEQ (rto_end c) (seg_seqno u w))
      | Some u \<Rightarrow> TCP_SEQ_LEQ (rto_end c) (seg_seqno u w))"

definition new_ack :: "nat \<Rightarrow> 'a tstate_scheme \<Rightarrow> 'a tstate_scheme option" where
  "new_ack pcb w = do {
     let w = set_pcb pcb (ack_pcb (in_ackno (tin w))) w;
     (l, w) \<leftarrow> tcp_free_acked_segments pcb (unacked (tcp_pcbs w pcb)) (unsent (tcp_pcbs w pcb)) w;
     let w = set_pcb pcb (\<lambda>c. c\<lparr>unacked := l\<rparr>) w;
     (l, w) \<leftarrow> tcp_free_acked_segments pcb (unsent (tcp_pcbs w pcb)) (unacked (tcp_pcbs w pcb)) w;
     let w = set_pcb pcb (\<lambda>c. c\<lparr>unsent := l\<rparr>) w;
     let w = set_pcb pcb (\<lambda>c. c\<lparr>rtime := (if unacked c = None then -1 else 0), polltmr := 0\<rparr>) w;
     let w = set_pcb pcb (\<lambda>c. if unsent c = None then c\<lparr>unsent_oversize := 0\<rparr> else c) w;
     let w = set_pcb pcb (\<lambda>c. c\<lparr>snd_buf := snd_buf c + recv_acked (tin w)\<rparr>) w;
     Some (if tcp_is_flag_set (tcp_pcbs w pcb) TF_RTO \<and> rto_done (tcp_pcbs w pcb) w then tcp_clear_flags pcb TF_RTO w else w)
   }"

definition estimate_rtt :: "u32 \<Rightarrow> tcp_pcb \<Rightarrow> tcp_pcb" where
  "estimate_rtt ticks c =
     (let m = ucast (ticks - rttest c) :: 16 word;
          m = word_of_int (sint m - sint (sa c) div 8);
          c = c\<lparr>sa := sa c + m\<rparr>;
          m = (if sint m < 0 then - m else m);
          m = word_of_int (sint m - sint (sv c) div 4);
          c = c\<lparr>sv := sv c + m\<rparr>
      in c\<lparr>rto := word_of_int (sint (sa c) div 8 + sint (sv c)), rttest := 0\<rparr>)"

definition receive_ack :: "nat \<Rightarrow> 'a tstate_scheme \<Rightarrow> 'a tstate_scheme option" where
  "receive_ack pcb w = do {
     let right_wnd_edge = ucast (snd_wnd (tcp_pcbs w pcb)) + snd_wl2 (tcp_pcbs w pcb);
     let ackno = in_ackno (tin w);
     let w = update_snd_wnd pcb w;
     w \<leftarrow> (if TCP_SEQ_LEQ ackno (lastack (tcp_pcbs w pcb)) then duplicate_ack pcb right_wnd_edge w
            else if TCP_SEQ_BETWEEN ackno (lastack (tcp_pcbs w pcb) + 1) (snd_nxt (tcp_pcbs w pcb)) then new_ack pcb w
            else do { (_, w) \<leftarrow> tcp_send_empty_ack pcb w; Some w });
     Some (if rttest (tcp_pcbs w pcb) \<noteq> 0 \<and> TCP_SEQ_LT (rtseq (tcp_pcbs w pcb)) ackno
           then set_pcb pcb (estimate_rtt (tcp_ticks w)) w else w)
   }"

section \<open>Data\<close>

text \<open>The sequence number in the header of a received segment, and what its header says.\<close>

definition rcvd_seqno :: "tcp_seg \<Rightarrow> 'a mstate_scheme \<Rightarrow> u32" where
  "rcvd_seqno s w = get32 (seg_tcphdr s + th_seqno) w"

definition has_flag :: "tcp_seg \<Rightarrow> u8 \<Rightarrow> 'a mstate_scheme \<Rightarrow> bool" where
  "has_flag s f w \<longleftrightarrow> TCPH_FLAGS (seg_tcphdr s) w AND f \<noteq> 0"

text \<open>Trimming the front: the buffers before the one in which the data starts become empty.\<close>

partial_function (option) skip_front :: "nat \<Rightarrow> u16 \<Rightarrow> u16 \<Rightarrow> 'a mstate_scheme \<Rightarrow> (nat \<times> u16 \<times> 'a mstate_scheme) option" where
  "skip_front p off new_tot_len w =
     (if plen (pbufs w p) < off then
        (case nxt (pbufs w p) of
           None \<Rightarrow> None
         | Some q \<Rightarrow> skip_front q (off - plen (pbufs w p)) new_tot_len (set_pbuf p (\<lambda>b. b\<lparr>ptot := new_tot_len, plen := 0\<rparr>) w))
      else Some (p, off, w))"

definition trim_front :: "nat \<Rightarrow> 'a tstate_scheme \<Rightarrow> 'a tstate_scheme option" where
  "trim_front pcb w =
     (case seg_p (inseg (tin w)) of
        None \<Rightarrow> None
      | Some p \<Rightarrow>
          (let off32 = rcv_nxt (tcp_pcbs w pcb) - in_seqno (tin w); off = ucast off32 :: u16
           in if \<not> off32 < 0xffff \<or> ptot (pbufs w p) < off then None
              else do {
                let w = set_in (\<lambda>i. i\<lparr>inseg := (inseg i)\<lparr>seg_len := seg_len (inseg i) - off\<rparr>\<rparr>) w;
                (q, off, w) \<leftarrow> skip_front p off (ptot (pbufs w p) - off) w;
                let (_, w) = pbuf_remove_header q (unat off) w;
                let w = put32 (seg_tcphdr (inseg (tin w)) + th_seqno) (rcv_nxt (tcp_pcbs w pcb)) w;
                Some (set_in (\<lambda>i. i\<lparr>in_seqno := rcv_nxt (tcp_pcbs w pcb)\<rparr>) w)
              }))"

text \<open>Trimming the incoming segment to a new end of its data.\<close>

definition trim_inseg :: "u16 \<Rightarrow> 'a tstate_scheme \<Rightarrow> 'a tstate_scheme option" where
  "trim_inseg new_len w = do {
     let len = (if has_flag (inseg (tin w)) TCP_SYN w then new_len - 1 else new_len);
     let w = set_in (\<lambda>i. i\<lparr>inseg := (inseg i)\<lparr>seg_len := len\<rparr>\<rparr>) w;
     w \<leftarrow> pbuf_realloc (seg_p (inseg (tin w))) len w;
     Some (set_in (\<lambda>i. i\<lparr>tcplen := ucast (TCP_TCPLEN (inseg i) w)\<rparr>) w)
   }"

definition trim_to_window :: "nat \<Rightarrow> 'a tstate_scheme \<Rightarrow> 'a tstate_scheme option" where
  "trim_to_window pcb w =
     (let w = set_in (\<lambda>i. i\<lparr>tcplen := ucast (TCP_TCPLEN (inseg i) w)\<rparr>) w; wnd = rcv_wnd (tcp_pcbs w pcb)
      in if tcplen (tin w) > wnd then do {
           let h = seg_tcphdr (inseg (tin w));
           let w = (if has_flag (inseg (tin w)) TCP_FIN w then TCPH_FLAGS_SET h (ucast (TCPH_FLAGS h w) AND NOT (ucast TCP_FIN)) w else w);
           w \<leftarrow> trim_inseg wnd w;
           if in_seqno (tin w) + ucast (tcplen (tin w)) \<noteq> rcv_nxt (tcp_pcbs w pcb) + ucast wnd then None else Some w
         }
         else Some w)"

text \<open>
  Removing what the incoming segment covers from the queue of segments that came too early; a FIN of them moves to it. The
  first result is the rest of the queue.
\<close>

partial_function (option) drop_covered :: "nat option \<Rightarrow> 'a tstate_scheme \<Rightarrow> (nat option \<times> 'a tstate_scheme) option" where
  "drop_covered next' w =
     (case next' of
        None \<Rightarrow> Some (None, w)
      | Some s \<Rightarrow>
          if TCP_SEQ_GEQ (in_seqno (tin w) + ucast (tcplen (tin w))) (rcvd_seqno (tcp_segs w s) w + ucast (seg_len (tcp_segs w s))) then
            (let l = seg_next (tcp_segs w s);
                 w = (if has_flag (tcp_segs w s) TCP_FIN w \<and> \<not> has_flag (inseg (tin w)) TCP_SYN w
                      then (let v = TCPH_SET_FLAG (seg_tcphdr (inseg (tin w))) TCP_FIN w
                            in set_in (\<lambda>i. i\<lparr>tcplen := ucast (TCP_TCPLEN (inseg i) v)\<rparr>) v)
                      else w)
             in Option.bind (tcp_seg_free (Some s) w) (\<lambda>w. drop_covered l w))
          else Some (Some s, w))"

definition trim_to_ooseq :: "nat \<Rightarrow> 'a tstate_scheme \<Rightarrow> 'a tstate_scheme option" where
  "trim_to_ooseq pcb w =
     (case ooseq (tcp_pcbs w pcb) of
        None \<Rightarrow> Some w
      | Some s \<Rightarrow>
          if has_flag (inseg (tin w)) TCP_FIN w then do {
            w \<leftarrow> tcp_segs_free (Some s) w;
            Some (set_pcb pcb (\<lambda>c. c\<lparr>ooseq := None\<rparr>) w)
          }
          else do {
            (l, w) \<leftarrow> drop_covered (Some s) w;
            w \<leftarrow> (case l of
                     None \<Rightarrow> Some w
                   | Some n \<Rightarrow>
                       (let nseq = rcvd_seqno (tcp_segs w n) w
                        in if TCP_SEQ_GT (in_seqno (tin w) + ucast (tcplen (tin w))) nseq then do {
                             w \<leftarrow> trim_inseg (ucast (nseq - in_seqno (tin w))) w;
                             if in_seqno (tin w) + ucast (tcplen (tin w)) \<noteq> rcvd_seqno (tcp_segs w n) w then None else Some w
                           }
                           else Some w));
            Some (set_pcb pcb (\<lambda>c. c\<lparr>ooseq := l\<rparr>) w)
          })"

text \<open>Advancing the receive window by the sequence space taken.\<close>

definition advance_rcv :: "nat \<Rightarrow> u32 \<Rightarrow> u32 \<Rightarrow> 'a tstate_scheme \<Rightarrow> 'a tstate_scheme option" where
  "advance_rcv pcb seqno len w =
     (let w = set_pcb pcb (\<lambda>c. c\<lparr>rcv_nxt := seqno + len\<rparr>) w
      in if ucast (rcv_wnd (tcp_pcbs w pcb)) < len then None
         else do {
           (_, w) \<leftarrow> tcp_update_rcv_ann_wnd pcb (set_pcb pcb (\<lambda>c. c\<lparr>rcv_wnd := rcv_wnd c - ucast len\<rparr>) w);
           Some w
         })"

definition got_fin :: "'a tstate_scheme \<Rightarrow> 'a tstate_scheme" where
  "got_fin = set_in (\<lambda>i. i\<lparr>recv_flags := recv_flags i OR TF_GOT_FIN\<rparr>)"

text \<open>Taking the segments from the queue that are now in sequence.\<close>

definition take_queued :: "nat \<Rightarrow> nat \<Rightarrow> 'a tstate_scheme \<Rightarrow> 'a tstate_scheme option" where
  "take_queued pcb cseg w = do {
     let seqno = rcvd_seqno (tcp_segs w cseg) w;
     let w = set_in (\<lambda>i. i\<lparr>in_seqno := seqno\<rparr>) w;
     w \<leftarrow> advance_rcv pcb (rcv_nxt (tcp_pcbs w pcb)) (TCP_TCPLEN (tcp_segs w cseg) w) w;
     w \<leftarrow> (case seg_p (tcp_segs w cseg) of
              None \<Rightarrow> None
            | Some p \<Rightarrow>
                if ptot (pbufs w p) > 0 then do {
                  w \<leftarrow> (case recv_data (tin w) of
                           None \<Rightarrow> Some (set_in (\<lambda>i. i\<lparr>recv_data := Some p\<rparr>) w)
                         | Some q \<Rightarrow> pbuf_cat (Some q) (Some p) w);
                  Some (set_seg cseg (\<lambda>s. s\<lparr>seg_p := None\<rparr>) w)
                }
                else Some w);
     let w = (if has_flag (tcp_segs w cseg) TCP_FIN w
              then set_pcb pcb (\<lambda>c. if pcb_state c = ESTABLISHED then c\<lparr>pcb_state := CLOSE_WAIT\<rparr> else c) (got_fin w) else w);
     tcp_seg_free (Some cseg) (set_pcb pcb (\<lambda>c. c\<lparr>ooseq := seg_next (tcp_segs w cseg)\<rparr>) w)
   }"

partial_function (option) take_loop_ooseq :: "nat \<Rightarrow> 'a tstate_scheme \<Rightarrow> 'a tstate_scheme option" where
  "take_loop_ooseq pcb w =
     (case ooseq (tcp_pcbs w pcb) of
        None \<Rightarrow> Some w
      | Some s \<Rightarrow>
          if rcvd_seqno (tcp_segs w s) w = rcv_nxt (tcp_pcbs w pcb) then Option.bind (take_queued pcb s w) (\<lambda>w. take_loop_ooseq pcb w)
          else Some w)"

definition receive_in_sequence :: "nat \<Rightarrow> 'a tstate_scheme \<Rightarrow> 'a tstate_scheme option" where
  "receive_in_sequence pcb w = do {
     w \<leftarrow> trim_to_window pcb w;
     w \<leftarrow> trim_to_ooseq pcb w;
     w \<leftarrow> advance_rcv pcb (in_seqno (tin w)) (ucast (tcplen (tin w))) w;
     w \<leftarrow> (case seg_p (inseg (tin w)) of
              None \<Rightarrow> None
            | Some p \<Rightarrow>
                Some (if ptot (pbufs w p) > 0
                      then set_in (\<lambda>i. i\<lparr>recv_data := Some p, inseg := (inseg i)\<lparr>seg_p := None\<rparr>\<rparr>) w else w));
     let w = (if has_flag (inseg (tin w)) TCP_FIN w then got_fin w else w);
     w \<leftarrow> take_loop_ooseq pcb w;
     Some (tcp_ack pcb w)
   }"

section \<open>Data out of sequence\<close>

partial_function (option) oos_drop_covered :: "nat \<Rightarrow> nat option \<Rightarrow> 'a tstate_scheme \<Rightarrow> (nat option \<times> 'a tstate_scheme) option" where
  "oos_drop_covered cseg next' w =
     (case next' of
        None \<Rightarrow> Some (None, w)
      | Some s \<Rightarrow>
          if TCP_SEQ_GEQ (in_seqno (tin w) + ucast (seg_len (tcp_segs w cseg))) (rcvd_seqno (tcp_segs w s) w + ucast (seg_len (tcp_segs w s))) then
            (let l = seg_next (tcp_segs w s);
                 w = (if has_flag (tcp_segs w s) TCP_FIN w then TCPH_SET_FLAG (seg_tcphdr (tcp_segs w cseg)) TCP_FIN w else w)
             in Option.bind (tcp_seg_free (Some s) w) (\<lambda>w. oos_drop_covered cseg l w))
          else Some (Some s, w))"

definition tcp_oos_insert_segment :: "nat \<Rightarrow> nat option \<Rightarrow> 'a tstate_scheme \<Rightarrow> 'a tstate_scheme option" where
  "tcp_oos_insert_segment cseg next' w = do {
     (l, w) \<leftarrow>
       (if has_flag (tcp_segs w cseg) TCP_FIN w then do { w \<leftarrow> tcp_segs_free next' w; Some (None, w) }
        else do {
          (l, w) \<leftarrow> oos_drop_covered cseg next' w;
          case l of
            None \<Rightarrow> Some (None, w)
          | Some n \<Rightarrow>
              (let nseq = rcvd_seqno (tcp_segs w n) w
               in if TCP_SEQ_GT (in_seqno (tin w) + ucast (seg_len (tcp_segs w cseg))) nseq then do {
                    let w = set_seg cseg (\<lambda>s. s\<lparr>seg_len := ucast (nseq - in_seqno (tin w))\<rparr>) w;
                    w \<leftarrow> pbuf_realloc (seg_p (tcp_segs w cseg)) (seg_len (tcp_segs w cseg)) w;
                    Some (Some n, w)
                  }
                  else Some (Some n, w))
        });
     Some (set_seg cseg (\<lambda>s. s\<lparr>seg_next := l\<rparr>) w)
   }"

text \<open>Cutting a queued segment at the sequence number of the incoming one.\<close>

definition cut_seg :: "nat \<Rightarrow> 'a tstate_scheme \<Rightarrow> 'a tstate_scheme option" where
  "cut_seg s w =
     (if TCP_SEQ_GT (rcvd_seqno (tcp_segs w s) w + ucast (seg_len (tcp_segs w s))) (in_seqno (tin w)) then do {
        let w = set_seg s (\<lambda>x. x\<lparr>seg_len := ucast (in_seqno (tin w) - rcvd_seqno (tcp_segs w s) w)\<rparr>) w;
        pbuf_realloc (seg_p (tcp_segs w s)) (seg_len (tcp_segs w s)) w
      }
      else Some w)"

text \<open>Appending the incoming segment behind the last one of the queue, cut to the window.\<close>

definition append_ooseq :: "nat \<Rightarrow> nat \<Rightarrow> 'a tstate_scheme \<Rightarrow> 'a tstate_scheme option" where
  "append_ooseq pcb last' w = do {
     (r, w) \<leftarrow> tcp_seg_copy (inseg (tin w)) w;
     let w = set_seg last' (\<lambda>s. s\<lparr>seg_next := r\<rparr>) w;
     case r of
       None \<Rightarrow> Some w
     | Some n \<Rightarrow> do {
         w \<leftarrow> cut_seg last' w;
         let c = tcp_pcbs w pcb;
         if TCP_SEQ_GT (ucast (tcplen (tin w)) + in_seqno (tin w)) (rcv_nxt c + ucast (rcv_wnd c)) then do {
           let h = seg_tcphdr (tcp_segs w n);
           let w = (if has_flag (tcp_segs w n) TCP_FIN w then TCPH_FLAGS_SET h (ucast (TCPH_FLAGS h w) AND NOT (ucast TCP_FIN)) w else w);
           let w = set_seg n (\<lambda>s. s\<lparr>seg_len := ucast (rcv_nxt c + ucast (rcv_wnd c) - in_seqno (tin w))\<rparr>) w;
           w \<leftarrow> pbuf_realloc (seg_p (tcp_segs w n)) (seg_len (tcp_segs w n)) w;
           let w = set_in (\<lambda>i. i\<lparr>tcplen := ucast (TCP_TCPLEN (tcp_segs w n) w)\<rparr>) w;
           if in_seqno (tin w) + ucast (tcplen (tin w)) \<noteq> rcv_nxt c + ucast (rcv_wnd c) then None else Some w
         }
         else Some w
       }
   }"

text \<open>A copy of the incoming segment between \<open>prev\<close>, if any, and \<open>next'\<close>.\<close>

definition insert_copy :: "nat \<Rightarrow> nat option \<Rightarrow> bool \<Rightarrow> nat \<Rightarrow> 'a tstate_scheme \<Rightarrow> 'a tstate_scheme option" where
  "insert_copy pcb prev trim next' w = do {
     (r, w) \<leftarrow> tcp_seg_copy (inseg (tin w)) w;
     case r of
       None \<Rightarrow> Some w
     | Some cseg \<Rightarrow> do {
         w \<leftarrow> (case prev of
                  None \<Rightarrow> Some (set_pcb pcb (\<lambda>c. c\<lparr>ooseq := Some cseg\<rparr>) w)
                | Some q \<Rightarrow> do {
                    w \<leftarrow> (if trim then cut_seg q w else Some w);
                    Some (set_seg q (\<lambda>s. s\<lparr>seg_next := Some cseg\<rparr>) w)
                  });
         tcp_oos_insert_segment cseg (Some next') w
       }
   }"

partial_function (option) insert_ooseq :: "nat \<Rightarrow> nat option \<Rightarrow> nat option \<Rightarrow> 'a tstate_scheme \<Rightarrow> 'a tstate_scheme option" where
  "insert_ooseq pcb prev next' w =
     (case next' of
        None \<Rightarrow> Some w
      | Some n \<Rightarrow>
          (let seqno = in_seqno (tin w); nseq = rcvd_seqno (tcp_segs w n) w
           in if seqno = nseq then
                (if seg_len (inseg (tin w)) > seg_len (tcp_segs w n) then insert_copy pcb prev False n w else Some w)
              else if prev = None \<and> TCP_SEQ_LT seqno nseq then insert_copy pcb None False n w
              else if (case prev of None \<Rightarrow> False | Some q \<Rightarrow> TCP_SEQ_BETWEEN seqno (rcvd_seqno (tcp_segs w q) w + 1) (nseq - 1))
              then insert_copy pcb prev True n w
              else if seg_next (tcp_segs w n) = None \<and> TCP_SEQ_GT seqno nseq then
                (if has_flag (tcp_segs w n) TCP_FIN w then Some w else append_ooseq pcb n w)
              else insert_ooseq pcb (Some n) (seg_next (tcp_segs w n)) w))"

definition receive_out_of_sequence :: "nat \<Rightarrow> 'a tstate_scheme \<Rightarrow> 'a tstate_scheme option" where
  "receive_out_of_sequence pcb w = do {
     w \<leftarrow> (case ooseq (tcp_pcbs w pcb) of
              None \<Rightarrow> do {
                (r, w) \<leftarrow> tcp_seg_copy (inseg (tin w)) w;
                Some (set_pcb pcb (\<lambda>c. c\<lparr>ooseq := r\<rparr>) w)
              }
            | Some s \<Rightarrow> insert_ooseq pcb None (Some s) w);
     (_, w) \<leftarrow> tcp_send_empty_ack pcb w;
     Some w
   }"

definition receive_data :: "nat \<Rightarrow> 'a tstate_scheme \<Rightarrow> 'a tstate_scheme option" where
  "receive_data pcb w = do {
     w \<leftarrow> (if TCP_SEQ_BETWEEN (rcv_nxt (tcp_pcbs w pcb)) (in_seqno (tin w) + 1) (in_seqno (tin w) + ucast (tcplen (tin w)) - 1)
            then trim_front pcb w
            else if TCP_SEQ_LT (in_seqno (tin w)) (rcv_nxt (tcp_pcbs w pcb)) then Some (tcp_ack_now pcb w)
            else Some w);
     let c = tcp_pcbs w pcb;
     if TCP_SEQ_BETWEEN (in_seqno (tin w)) (rcv_nxt c) (rcv_nxt c + ucast (rcv_wnd c) - 1) then
       (if rcv_nxt c = in_seqno (tin w) then receive_in_sequence pcb w else receive_out_of_sequence pcb w)
     else do { (_, w) \<leftarrow> tcp_send_empty_ack pcb w; Some w }
   }"

definition tcp_receive :: "nat \<Rightarrow> 'a tstate_scheme \<Rightarrow> 'a tstate_scheme option" where
  "tcp_receive pcb w =
     (if \<not> pcb_state (tcp_pcbs w pcb) \<ge> ESTABLISHED then None
      else do {
        w \<leftarrow> (if in_flags (tin w) AND TCP_ACK \<noteq> 0 then receive_ack pcb w else Some w);
        let c = tcp_pcbs w pcb;
        if tcplen (tin w) > 0 \<and> pcb_state c < CLOSE_WAIT then receive_data pcb w
        else Some (if \<not> TCP_SEQ_BETWEEN (in_seqno (tin w)) (rcv_nxt c) (rcv_nxt c + ucast (rcv_wnd c) - 1) then tcp_ack_now pcb w else w)
      })"

section \<open>The state machine\<close>

text \<open>A reset in reply to the segment being received.\<close>

definition rst_reply :: "nat option \<Rightarrow> 'a tstate_scheme \<Rightarrow> 'a tstate_scheme option" where
  "rst_reply pcb w =
     tcp_rst pcb (in_ackno (tin w)) (in_seqno (tin w) + ucast (tcplen (tin w))) (current_iphdr_dest (ip_data w)) (current_iphdr_src (ip_data w))
       (get16 (in_tcphdr (tin w) + th_dest) w) (get16 (in_tcphdr (tin w) + th_src) w) w"

definition process_rst :: "nat \<Rightarrow> 'a tstate_scheme \<Rightarrow> (err_t \<times> 'a tstate_scheme) option" where
  "process_rst pcb w =
     (let c = tcp_pcbs w pcb; seqno = in_seqno (tin w);
          acceptable = (if pcb_state c = SYN_SENT then in_ackno (tin w) = snd_nxt c else seqno = rcv_nxt c)
      in if acceptable then
           (if pcb_state c = CLOSED then None
            else Some (ERR_RST, tcp_clear_flags pcb TF_ACK_DELAY (set_in (\<lambda>i. i\<lparr>recv_flags := recv_flags i OR TF_RESET\<rparr>) w)))
         else
           Some (ERR_OK, if pcb_state c \<noteq> SYN_SENT \<and> TCP_SEQ_BETWEEN seqno (rcv_nxt c) (rcv_nxt c + ucast (rcv_wnd c))
                         then tcp_ack_now pcb w else w))"

definition process_syn_sent :: "'a tstate_scheme tcp_env \<Rightarrow> nat \<Rightarrow> 'a tstate_scheme \<Rightarrow> (err_t \<times> 'a tstate_scheme) option" where
  "process_syn_sent env pcb w =
     (let f = in_flags (tin w); seqno = in_seqno (tin w); ackno = in_ackno (tin w)
      in if f AND TCP_ACK \<noteq> 0 \<and> f AND TCP_SYN \<noteq> 0 \<and> ackno = lastack (tcp_pcbs w pcb) + 1 then do {
           let wnd = get16 (in_tcphdr (tin w) + th_wnd) w;
           let w = set_pcb pcb (\<lambda>c. c\<lparr>rcv_nxt := seqno + 1, rcv_ann_right_edge := seqno + 1, lastack := ackno, snd_wnd := wnd,
                     snd_wnd_max := wnd, snd_wl1 := seqno - 1, pcb_state := ESTABLISHED\<rparr>) w;
           r \<leftarrow> ip4_route (remote_ip (tcp_pcbs w pcb)) w;
           let w = set_pcb pcb (\<lambda>c. c\<lparr>pcb_mss := tcp_eff_send_mss_netif (pcb_mss c) r w\<rparr>) w;
           let w = set_pcb pcb (\<lambda>c. c\<lparr>cwnd := LWIP_TCP_CALC_INITIAL_CWND (pcb_mss c)\<rparr>) w;
           if snd_queuelen (tcp_pcbs w pcb) = 0 then None
           else do {
             let w = set_pcb pcb (\<lambda>c. c\<lparr>snd_queuelen := snd_queuelen c - 1\<rparr>) w;
             (rseg, w) \<leftarrow>
               (case unacked (tcp_pcbs w pcb) of
                  None \<Rightarrow>
                    (case unsent (tcp_pcbs w pcb) of
                       None \<Rightarrow> None
                     | Some s \<Rightarrow> Some (s, set_pcb pcb (\<lambda>c. c\<lparr>unsent := seg_next (tcp_segs w s)\<rparr>) w))
                | Some s \<Rightarrow> Some (s, set_pcb pcb (\<lambda>c. c\<lparr>unacked := seg_next (tcp_segs w s)\<rparr>) w));
             w \<leftarrow> tcp_seg_free (Some rseg) w;
             let w = set_pcb pcb (\<lambda>c. if unacked c = None then c\<lparr>rtime := -1\<rparr> else c\<lparr>rtime := 0, nrtx := 0\<rparr>) w;
             (err, w) \<leftarrow> TCP_EVENT_CONNECTED env pcb ERR_OK w;
             if err = ERR_ABRT then Some (ERR_ABRT, w) else Some (ERR_OK, tcp_ack_now pcb w)
           }
         }
         else if f AND TCP_ACK \<noteq> 0 then do {
           w \<leftarrow> rst_reply (Some pcb) w;
           w \<leftarrow> (if nrtx (tcp_pcbs w pcb) < TCP_SYNMAXRTX then tcp_rexmit_rto pcb (set_pcb pcb (\<lambda>c. c\<lparr>rtime := 0\<rparr>) w) else Some w);
           Some (ERR_OK, w)
         }
         else Some (ERR_OK, w))"

definition process_syn_rcvd :: "'a tstate_scheme tcp_env \<Rightarrow> nat \<Rightarrow> 'a tstate_scheme \<Rightarrow> (err_t \<times> 'a tstate_scheme) option" where
  "process_syn_rcvd env pcb w =
     (let f = in_flags (tin w)
      in if f AND TCP_ACK \<noteq> 0 then
           (if TCP_SEQ_BETWEEN (in_ackno (tin w)) (lastack (tcp_pcbs w pcb) + 1) (snd_nxt (tcp_pcbs w pcb)) then do {
              let w = set_pcb pcb (\<lambda>c. c\<lparr>pcb_state := ESTABLISHED\<rparr>) w;
              (err, w) \<leftarrow>
                (case listener (tcp_pcbs w pcb) of
                   None \<Rightarrow> Some (ERR_VAL, w)
                 | Some l \<Rightarrow>
                     if accept_fn (tcp_pcbs w l) = Accept_NULL then None
                     else TCP_EVENT_ACCEPT env l (Some pcb) (callback_arg (tcp_pcbs w pcb)) ERR_OK w);
              if err \<noteq> ERR_OK then do {
                w \<leftarrow> (if err \<noteq> ERR_ABRT then tcp_abort env (Some pcb) w else Some w);
                Some (ERR_ABRT, w)
              }
              else do {
                w \<leftarrow> tcp_receive pcb w;
                let w = set_in (\<lambda>i. if recv_acked i \<noteq> 0 then i\<lparr>recv_acked := recv_acked i - 1\<rparr> else i) w;
                let w = set_pcb pcb (\<lambda>c. c\<lparr>cwnd := LWIP_TCP_CALC_INITIAL_CWND (pcb_mss c)\<rparr>) w;
                Some (ERR_OK, if recv_flags (tin w) AND TF_GOT_FIN \<noteq> 0
                              then set_pcb pcb (\<lambda>c. c\<lparr>pcb_state := CLOSE_WAIT\<rparr>) (tcp_ack_now pcb w) else w)
              }
            }
            else do { w \<leftarrow> rst_reply (Some pcb) w; Some (ERR_OK, w) })
         else if f AND TCP_SYN \<noteq> 0 \<and> in_seqno (tin w) = rcv_nxt (tcp_pcbs w pcb) - 1 then do {
           (_, w) \<leftarrow> tcp_rexmit pcb w;
           Some (ERR_OK, w)
         }
         else Some (ERR_OK, w))"

definition fin_acked :: "nat \<Rightarrow> 'a tstate_scheme \<Rightarrow> bool" where
  "fin_acked pcb w \<longleftrightarrow>
     in_flags (tin w) AND TCP_ACK \<noteq> 0 \<and> in_ackno (tin w) = snd_nxt (tcp_pcbs w pcb) \<and> unsent (tcp_pcbs w pcb) = None"

definition enter_time_wait :: "'a tstate_scheme tcp_env \<Rightarrow> nat \<Rightarrow> 'a tstate_scheme \<Rightarrow> 'a tstate_scheme option" where
  "enter_time_wait env pcb w = do {
     w \<leftarrow> tcp_pcb_purge pcb w;
     w \<leftarrow> TCP_RMV_ACTIVE pcb w;
     TCP_REG env Tcp_tw_pcbs pcb (set_pcb pcb (\<lambda>c. c\<lparr>pcb_state := TIME_WAIT\<rparr>) w)
   }"

definition process_synced :: "'a tstate_scheme tcp_env \<Rightarrow> nat \<Rightarrow> tcp_state \<Rightarrow> 'a tstate_scheme \<Rightarrow> 'a tstate_scheme option" where
  "process_synced env pcb st w = do {
     w \<leftarrow> tcp_receive pcb w;
     let fin = (recv_flags (tin w) AND TF_GOT_FIN \<noteq> 0);
     if st = CLOSE_WAIT \<or> st = ESTABLISHED then
       Some (if fin then set_pcb pcb (\<lambda>c. c\<lparr>pcb_state := CLOSE_WAIT\<rparr>) (tcp_ack_now pcb w) else w)
     else if st = FIN_WAIT_1 then
       (if fin then
          (if fin_acked pcb w then enter_time_wait env pcb (tcp_ack_now pcb w)
           else Some (set_pcb pcb (\<lambda>c. c\<lparr>pcb_state := CLOSING\<rparr>) (tcp_ack_now pcb w)))
        else Some (if fin_acked pcb w then set_pcb pcb (\<lambda>c. c\<lparr>pcb_state := FIN_WAIT_2\<rparr>) w else w))
     else if st = FIN_WAIT_2 then (if fin then enter_time_wait env pcb (tcp_ack_now pcb w) else Some w)
     else if st = CLOSING then (if fin_acked pcb w then enter_time_wait env pcb w else Some w)
     else Some (if fin_acked pcb w then set_in (\<lambda>i. i\<lparr>recv_flags := recv_flags i OR TF_CLOSED\<rparr>) w else w)
   }"

definition tcp_process :: "'a tstate_scheme tcp_env \<Rightarrow> nat \<Rightarrow> 'a tstate_scheme \<Rightarrow> (err_t \<times> 'a tstate_scheme) option" where
  "tcp_process env pcb w =
     (let f = in_flags (tin w)
      in if f AND TCP_RST \<noteq> 0 then process_rst pcb w
         else if f AND TCP_SYN \<noteq> 0 \<and> pcb_state (tcp_pcbs w pcb) \<noteq> SYN_SENT \<and> pcb_state (tcp_pcbs w pcb) \<noteq> SYN_RCVD
         then Some (ERR_OK, tcp_ack_now pcb w)
         else do {
           let w = set_pcb pcb (\<lambda>c. if \<not> tcp_is_flag_set c TF_RXCLOSED then c\<lparr>tmr := tcp_ticks w\<rparr> else c) w;
           let w = set_pcb pcb (\<lambda>c. c\<lparr>keep_cnt_sent := 0, persist_probe := 0\<rparr>) w;
           w \<leftarrow> tcp_parseopt pcb w;
           (case pcb_state (tcp_pcbs w pcb) of
              SYN_SENT \<Rightarrow> process_syn_sent env pcb w
            | SYN_RCVD \<Rightarrow> process_syn_rcvd env pcb w
            | CLOSED \<Rightarrow> Some (ERR_OK, w)
            | LISTEN \<Rightarrow> Some (ERR_OK, w)
            | TIME_WAIT \<Rightarrow> Some (ERR_OK, w)
            | st \<Rightarrow> do { w \<leftarrow> process_synced env pcb st w; Some (ERR_OK, w) })
         })"

section \<open>Listening and TIME-WAIT\<close>

definition new_connection :: "nat \<Rightarrow> nat \<Rightarrow> u32 \<Rightarrow> 'a tstate_scheme \<Rightarrow> 'a tstate_scheme" where
  "new_connection lpcb npcb isn w =
     (let l = tcp_pcbs w lpcb; seqno = in_seqno (tin w)
      in set_pcb npcb (\<lambda>c. c\<lparr>local_ip := current_iphdr_dest (ip_data w), remote_ip := current_iphdr_src (ip_data w), local_port := local_port l,
           remote_port := get16 (in_tcphdr (tin w) + th_src) w, pcb_state := SYN_RCVD, rcv_nxt := seqno + 1, rcv_ann_right_edge := seqno + 1,
           snd_wl2 := isn, snd_nxt := isn, lastack := isn, snd_lbb := isn, snd_wl1 := seqno - 1, callback_arg := callback_arg l,
           listener := Some lpcb, so_options := so_options l AND SOF_INHERITED, netif_idx := netif_idx l\<rparr>) w)"

definition tcp_listen_input :: "'a tstate_scheme tcp_env \<Rightarrow> nat \<Rightarrow> 'a tstate_scheme \<Rightarrow> 'a tstate_scheme option" where
  "tcp_listen_input env lpcb w =
     (let f = in_flags (tin w)
      in if f AND TCP_RST \<noteq> 0 then Some w
         else if f AND TCP_ACK \<noteq> 0 then rst_reply (Some lpcb) w
         else if f AND TCP_SYN \<noteq> 0 then do {
           (r, w) \<leftarrow> tcp_alloc env (prio (tcp_pcbs w lpcb)) w;
           case r of
             None \<Rightarrow> do { (_, w) \<leftarrow> TCP_EVENT_ACCEPT env lpcb None (callback_arg (tcp_pcbs w lpcb)) ERR_MEM w; Some w }
           | Some npcb \<Rightarrow> do {
               let (isn, w) = tcp_next_iss w;
               w \<leftarrow> TCP_REG_ACTIVE env npcb (new_connection lpcb npcb isn w);
               w \<leftarrow> tcp_parseopt npcb w;
               let wnd = get16 (in_tcphdr (tin w) + th_wnd) w;
               let w = set_pcb npcb (\<lambda>c. c\<lparr>snd_wnd := wnd, snd_wnd_max := wnd\<rparr>) w;
               r \<leftarrow> ip4_route (remote_ip (tcp_pcbs w npcb)) w;
               let w = set_pcb npcb (\<lambda>c. c\<lparr>pcb_mss := tcp_eff_send_mss_netif (pcb_mss c) r w\<rparr>) w;
               (rc, w) \<leftarrow> tcp_enqueue_flags npcb (TCP_SYN OR TCP_ACK) w;
               if rc \<noteq> ERR_OK then tcp_abandon env (Some npcb) False w
               else do { (_, w) \<leftarrow> tcp_output npcb w; Some w }
             }
         }
         else Some w)"

definition tcp_timewait_input :: "nat \<Rightarrow> 'a tstate_scheme \<Rightarrow> 'a tstate_scheme option" where
  "tcp_timewait_input pcb w =
     (let f = in_flags (tin w); c = tcp_pcbs w pcb
      in if f AND TCP_RST \<noteq> 0 then Some w
         else if f AND TCP_SYN \<noteq> 0 \<and> TCP_SEQ_BETWEEN (in_seqno (tin w)) (rcv_nxt c) (rcv_nxt c + ucast (rcv_wnd c)) then rst_reply (Some pcb) w
         else
           (let w = (if f AND TCP_SYN = 0 \<and> f AND TCP_FIN \<noteq> 0 then set_pcb pcb (\<lambda>c. c\<lparr>tmr := tcp_ticks w\<rparr>) w else w)
            in if tcplen (tin w) > 0 then do { (_, w) \<leftarrow> tcp_output pcb (tcp_ack_now pcb w); Some w } else Some w))"

section \<open>Input\<close>

definition tcp_input_delayed_close :: "'a tstate_scheme tcp_env \<Rightarrow> nat \<Rightarrow> 'a tstate_scheme \<Rightarrow> (bool \<times> 'a tstate_scheme) option" where
  "tcp_input_delayed_close env pcb w =
     (if recv_flags (tin w) AND TF_CLOSED \<noteq> 0 then do {
        w \<leftarrow> (if \<not> tcp_is_flag_set (tcp_pcbs w pcb) TF_RXCLOSED
               then TCP_EVENT_ERR env (errf (tcp_pcbs w pcb)) (callback_arg (tcp_pcbs w pcb)) ERR_CLSD w else Some w);
        w \<leftarrow> tcp_pcb_remove Tcp_active_pcbs pcb w;
        w \<leftarrow> tcp_free pcb w;
        Some (True, w)
      }
      else Some (False, w))"

text \<open>
  Taking the header off. The first result is false when the segment is dropped; otherwise the globals describe the
  header, whose fields are now in host order.
\<close>

definition strip_options :: "nat \<Rightarrow> nat \<Rightarrow> 'a tstate_scheme \<Rightarrow> (bool \<times> 'a tstate_scheme) option" where
  "strip_options p hdrlen_bytes w =
     (let w = set_in (\<lambda>i. i\<lparr>tcphdr_optlen := of_nat (hdrlen_bytes - TCP_HLEN), tcphdr_opt2 := None\<rparr>) w
      in if unat (plen (pbufs w p)) \<ge> hdrlen_bytes then
           (let w = set_in (\<lambda>i. i\<lparr>tcphdr_opt1len := tcphdr_optlen i\<rparr>) w in Some (True, snd (pbuf_remove_header p hdrlen_bytes w)))
         else
           (case nxt (pbufs w p) of
              None \<Rightarrow> None
            | Some q \<Rightarrow>
                (let w = snd (pbuf_remove_header p TCP_HLEN w);
                     opt1len = plen (pbufs w p);
                     w = set_in (\<lambda>i. i\<lparr>tcphdr_opt1len := opt1len\<rparr>) w;
                     opt2len = tcphdr_optlen (tin w) - opt1len;
                     w = snd (pbuf_remove_header p (unat opt1len) w)
                 in if opt2len > plen (pbufs w q) then Some (False, w)
                    else
                      (let w = set_in (\<lambda>i. i\<lparr>tcphdr_opt2 := Some (payload (pbufs w q))\<rparr>) w;
                           w = snd (pbuf_remove_header q (unat opt2len) w);
                           w = set_pbuf p (\<lambda>b. b\<lparr>ptot := ptot b - opt2len\<rparr>) w
                       in if plen (pbufs w p) \<noteq> 0 \<or> ptot (pbufs w p) \<noteq> ptot (pbufs w q) then None else Some (True, w)))))"

definition host_order :: "nat \<Rightarrow> 'a tstate_scheme \<Rightarrow> 'a tstate_scheme" where
  "host_order h w =
     (let w = put16 (h + th_src) (lwip_htons (get16 (h + th_src) w)) w;
          w = put16 (h + th_dest) (lwip_htons (get16 (h + th_dest) w)) w;
          w = put32 (h + th_seqno) (lwip_htonl (get32 (h + th_seqno) w)) w;
          w = set_in (\<lambda>i. i\<lparr>in_seqno := get32 (h + th_seqno) w\<rparr>) w;
          w = put32 (h + th_ackno) (lwip_htonl (get32 (h + th_ackno) w)) w;
          w = set_in (\<lambda>i. i\<lparr>in_ackno := get32 (h + th_ackno) w\<rparr>) w;
          w = put16 (h + th_wnd) (lwip_htons (get16 (h + th_wnd) w)) w
      in set_in (\<lambda>i. i\<lparr>in_flags := TCPH_FLAGS h w\<rparr>) w)"

definition check_segment :: "nat \<Rightarrow> 'a tstate_scheme \<Rightarrow> (bool \<times> 'a tstate_scheme) option" where
  "check_segment p w =
     (let h = payload (pbufs w p); w = set_in (\<lambda>i. i\<lparr>in_tcphdr := h\<rparr>) w; dest = current_iphdr_dest (ip_data w)
      in if unat (plen (pbufs w p)) < TCP_HLEN then Some (False, w)
         else if ip4_addr_isbroadcast dest (the (current_netif (ip_data w))) w \<or> ip4_addr_ismulticast dest then Some (False, w)
         else do {
           s \<leftarrow> segments (Some p) w;
           if ip_chksum_pseudo s IP_PROTO_TCP (ptot (pbufs w p)) (current_iphdr_src (ip_data w)) dest \<noteq> 0 then Some (False, w)
           else
             (let hdrlen_bytes = unat (TCPH_HDRLEN_BYTES h w)
              in if hdrlen_bytes < TCP_HLEN \<or> hdrlen_bytes > unat (ptot (pbufs w p)) then Some (False, w)
                 else do {
                   (ok, w) \<leftarrow> strip_options p hdrlen_bytes w;
                   if \<not> ok then Some (False, w)
                   else
                     (let w = host_order h w;
                          tot = ptot (pbufs w p);
                          syn_fin = (in_flags (tin w) AND (TCP_FIN OR TCP_SYN) \<noteq> 0);
                          w = set_in (\<lambda>i. i\<lparr>tcplen := (if syn_fin then tot + 1 else tot)\<rparr>) w
                      in Some (\<not> (syn_fin \<and> tcplen (tin w) < tot), w))
                 })
         })"

text \<open>Finding the connection: the control block matches, and, if it is bound to an interface, so does the interface.\<close>

definition bound_elsewhere :: "tcp_pcb \<Rightarrow> 'a tstate_scheme \<Rightarrow> bool" where
  "bound_elsewhere c w \<longleftrightarrow>
     netif_idx c \<noteq> NETIF_NO_INDEX \<and> netif_idx c \<noteq> netif_get_index (netifs w (the (current_input_netif (ip_data w))))"

definition pcb_matches :: "tcp_pcb \<Rightarrow> 'a tstate_scheme \<Rightarrow> bool" where
  "pcb_matches c w \<longleftrightarrow>
     remote_port c = get16 (in_tcphdr (tin w) + th_src) w \<and> local_port c = get16 (in_tcphdr (tin w) + th_dest) w \<and>
     remote_ip c = current_iphdr_src (ip_data w) \<and> local_ip c = current_iphdr_dest (ip_data w)"

partial_function (option) find_active :: "nat option \<Rightarrow> nat option \<Rightarrow> 'a tstate_scheme \<Rightarrow> (nat option \<times> nat option) option" where
  "find_active prev pcb w =
     (case pcb of
        None \<Rightarrow> Some (prev, None)
      | Some p \<Rightarrow>
          (let c = tcp_pcbs w p
           in if pcb_state c = CLOSED \<or> pcb_state c = TIME_WAIT \<or> pcb_state c = LISTEN then None
              else if \<not> bound_elsewhere c w \<and> pcb_matches c w then Some (prev, Some p)
              else find_active (Some p) (pcb_next c) w))"

partial_function (option) find_timewait :: "nat option \<Rightarrow> 'a tstate_scheme \<Rightarrow> nat option option" where
  "find_timewait pcb w =
     (case pcb of
        None \<Rightarrow> Some None
      | Some p \<Rightarrow>
          (let c = tcp_pcbs w p
           in if pcb_state c \<noteq> TIME_WAIT then None
              else if \<not> bound_elsewhere c w \<and> pcb_matches c w then Some (Some p)
              else find_timewait (pcb_next c) w))"

partial_function (option) find_listener :: "nat option \<Rightarrow> nat option \<Rightarrow> 'a tstate_scheme \<Rightarrow> (nat option \<times> nat option) option" where
  "find_listener prev lpcb w =
     (case lpcb of
        None \<Rightarrow> Some (prev, None)
      | Some p \<Rightarrow>
          (let c = tcp_pcbs w p
           in if \<not> bound_elsewhere c w \<and> local_port c = get16 (in_tcphdr (tin w) + th_dest) w \<and>
                 (local_ip c = current_iphdr_dest (ip_data w) \<or> ip4_addr_isany_val (local_ip c))
              then Some (prev, Some p)
              else find_listener (Some p) (pcb_next c) w))"

text \<open>Moving the control block that was found to the front of its list.\<close>

definition move_to_front :: "tcp_pcb_list \<Rightarrow> nat option \<Rightarrow> nat \<Rightarrow> 'a tstate_scheme \<Rightarrow> 'a tstate_scheme" where
  "move_to_front l prev pcb w =
     (case prev of
        None \<Rightarrow> w
      | Some q \<Rightarrow>
          (let w = set_pcb q (\<lambda>c. c\<lparr>pcb_next := pcb_next (tcp_pcbs w pcb)\<rparr>) w;
               w = set_pcb pcb (\<lambda>c. c\<lparr>pcb_next := tcp_pcb_lists w l\<rparr>) w
           in set_list l (Some pcb) w))"

text \<open>
  Telling the application, in this order: data of it has been acknowledged, data has arrived, the peer has closed. The
  first result is whether the connection is gone.
\<close>

definition notify_sent :: "'a tstate_scheme tcp_env \<Rightarrow> nat \<Rightarrow> 'a tstate_scheme \<Rightarrow> (bool \<times> 'a tstate_scheme) option" where
  "notify_sent env pcb w =
     (if recv_acked (tin w) > 0 then do {
        (err, w) \<leftarrow> TCP_EVENT_SENT env pcb (recv_acked (tin w)) w;
        Some (if err = ERR_ABRT then (True, w) else (False, set_in (\<lambda>i. i\<lparr>recv_acked := 0\<rparr>) w))
      }
      else Some (False, w))"

definition notify_data :: "'a tstate_scheme tcp_env \<Rightarrow> nat \<Rightarrow> 'a tstate_scheme \<Rightarrow> (bool \<times> 'a tstate_scheme) option" where
  "notify_data env pcb w =
     (case recv_data (tin w) of
        None \<Rightarrow> Some (False, w)
      | Some q \<Rightarrow>
          if refused_data (tcp_pcbs w pcb) \<noteq> None then None
          else if tcp_is_flag_set (tcp_pcbs w pcb) TF_RXCLOSED then do {
            w \<leftarrow> free_packet q w;
            w \<leftarrow> tcp_abort env (Some pcb) w;
            Some (True, w)
          }
          else do {
            (err, w) \<leftarrow> TCP_EVENT_RECV env pcb (Some q) ERR_OK w;
            Some (if err = ERR_ABRT then (True, w)
                  else (False, if err \<noteq> ERR_OK then set_pcb pcb (\<lambda>c. c\<lparr>refused_data := recv_data (tin w)\<rparr>) w else w))
          })"

definition notify_fin :: "'a tstate_scheme tcp_env \<Rightarrow> nat \<Rightarrow> 'a tstate_scheme \<Rightarrow> (bool \<times> 'a tstate_scheme) option" where
  "notify_fin env pcb w =
     (if recv_flags (tin w) AND TF_GOT_FIN \<noteq> 0 then
        (case refused_data (tcp_pcbs w pcb) of
           Some q \<Rightarrow> Some (False, set_pbuf q (\<lambda>b. b\<lparr>pflags := pflags b OR PBUF_FLAG_TCP_FIN\<rparr>) w)
         | None \<Rightarrow> do {
             let w = set_pcb pcb (\<lambda>c. if rcv_wnd c \<noteq> TCP_WND_MAX c then c\<lparr>rcv_wnd := rcv_wnd c + 1\<rparr> else c) w;
             (err, w) \<leftarrow> TCP_EVENT_CLOSED env pcb w;
             Some (err = ERR_ABRT, w)
           })
      else Some (False, w))"

text \<open>One step of a sequence that ends early when the connection is gone.\<close>

definition unless_gone :: "('s \<Rightarrow> (bool \<times> 's) option) \<Rightarrow> ('s \<Rightarrow> (bool \<times> 's) option) \<Rightarrow> 's \<Rightarrow> (bool \<times> 's) option" where
  "unless_gone f g w = do { (gone, w) \<leftarrow> f w; if gone then Some (True, w) else g w }"

definition after_process :: "'a tstate_scheme tcp_env \<Rightarrow> nat \<Rightarrow> 'a tstate_scheme \<Rightarrow> 'a tstate_scheme option" where
  "after_process env pcb w =
     (if recv_flags (tin w) AND TF_RESET \<noteq> 0 then do {
        w \<leftarrow> TCP_EVENT_ERR env (errf (tcp_pcbs w pcb)) (callback_arg (tcp_pcbs w pcb)) ERR_RST w;
        w \<leftarrow> tcp_pcb_remove Tcp_active_pcbs pcb w;
        tcp_free pcb w
      }
      else do {
        (_, w) \<leftarrow>
          unless_gone (notify_sent env pcb)
            (unless_gone (tcp_input_delayed_close env pcb)
              (unless_gone (notify_data env pcb)
                (unless_gone (notify_fin env pcb)
                  (unless_gone (\<lambda>w. tcp_input_delayed_close env pcb (w\<lparr>tcp_input_pcb := None\<rparr>))
                    (\<lambda>w. do { (_, w) \<leftarrow> tcp_output pcb w; Some (False, w) }))))) w;
        Some w
      })"

definition finish_input :: "'a tstate_scheme \<Rightarrow> 'a tstate_scheme option" where
  "finish_input w = do {
     let w = set_in (\<lambda>i. i\<lparr>recv_data := None\<rparr>) (w\<lparr>tcp_input_pcb := None\<rparr>);
     case seg_p (inseg (tin w)) of
       None \<Rightarrow> Some w
     | Some p \<Rightarrow> do { w \<leftarrow> free_packet p w; Some (set_in (\<lambda>i. i\<lparr>inseg := (inseg i)\<lparr>seg_p := None\<rparr>\<rparr>) w) }
   }"

definition connection_input :: "'a tstate_scheme tcp_env \<Rightarrow> nat \<Rightarrow> nat \<Rightarrow> 'a tstate_scheme \<Rightarrow> 'a tstate_scheme option" where
  "connection_input env p pcb w = do {
     let w = set_in (\<lambda>i. i\<lparr>inseg := (inseg i)\<lparr>seg_next := None, seg_len := ptot (pbufs w p), seg_p := Some p, seg_tcphdr := in_tcphdr i\<rparr>,
               recv_data := None, recv_flags := 0, recv_acked := 0\<rparr>) w;
     let w = (if in_flags (tin w) AND TCP_PSH \<noteq> 0 then set_pbuf p (\<lambda>b. b\<lparr>pflags := pflags b OR PBUF_FLAG_PUSH\<rparr>) w else w);
     (drop', w) \<leftarrow>
       (if refused_data (tcp_pcbs w pcb) \<noteq> None then do {
          (e, w) \<leftarrow> tcp_process_refused_data env (Some pcb) w;
          Some (e = ERR_ABRT \<or> refused_data (tcp_pcbs w pcb) \<noteq> None \<and> tcplen (tin w) > 0, w)
        }
        else Some (False, w));
     if drop' then do {
       w \<leftarrow> (if rcv_ann_wnd (tcp_pcbs w pcb) = 0 then do { (_, w) \<leftarrow> tcp_send_empty_ack pcb w; Some w } else Some w);
       finish_input w
     }
     else do {
       (err, w) \<leftarrow> tcp_process env pcb (w\<lparr>tcp_input_pcb := Some pcb\<rparr>);
       w \<leftarrow> (if err \<noteq> ERR_ABRT then after_process env pcb w else Some w);
       finish_input w
     }
   }"

definition tcp_input :: "'a tstate_scheme tcp_env \<Rightarrow> nat \<Rightarrow> nat \<Rightarrow> 'a tstate_scheme \<Rightarrow> 'a tstate_scheme option" where
  "tcp_input env p inp w = do {
     (ok, w) \<leftarrow> check_segment p w;
     if \<not> ok then free_packet p w
     else do {
       (prev, r) \<leftarrow> find_active None (tcp_active_pcbs w) w;
       case r of
         Some pcb \<Rightarrow>
           if pcb_next (tcp_pcbs w pcb) = Some pcb then None
           else
             (let w = move_to_front Tcp_active_pcbs prev pcb w
              in if pcb_next (tcp_pcbs w pcb) = Some pcb then None else connection_input env p pcb w)
       | None \<Rightarrow> do {
           r \<leftarrow> find_timewait (tcp_tw_pcbs w) w;
           case r of
             Some pcb \<Rightarrow> do { w \<leftarrow> tcp_timewait_input pcb w; free_packet p w }
           | None \<Rightarrow> do {
               (prev, r) \<leftarrow> find_listener None (tcp_pcb_lists w Tcp_listen_pcbs) w;
               case r of
                 Some lpcb \<Rightarrow> do {
                   w \<leftarrow> tcp_listen_input env lpcb (move_to_front Tcp_listen_pcbs prev lpcb w);
                   free_packet p w
                 }
               | None \<Rightarrow> do {
                   w \<leftarrow> (if TCPH_FLAGS (in_tcphdr (tin w)) w AND TCP_RST = 0 then rst_reply None w else Some w);
                   free_packet p w
                 }
             }
         }
     }
   }"

end
