(* ===== verification/Tcp_Frame.thy ===== *)
theory Tcp_Frame
  imports Tcp_In
begin

text \<open>
  What sending leaves alone: the ARP layer changes its table and the layers below it, the IP layer counts its packets. So
  the control blocks, the lists and the globals of TCP change only where \<^verbatim>\<open>tcp.c\<close>, \<^verbatim>\<open>tcp_in.c\<close> and \<^verbatim>\<open>tcp_out.c\<close> assign them.
\<close>

section \<open>Partial correctness of option programs\<close>

definition post :: "('a \<Rightarrow> bool) \<Rightarrow> 'a option \<Rightarrow> bool" where
  "post Q m \<longleftrightarrow> (\<forall>y. m = Some y \<longrightarrow> Q y)"

lemma post_simps [simp]:
  "post Q None" "post Q (Some y) \<longleftrightarrow> Q y" "post Q (Option.bind m f) \<longleftrightarrow> post (\<lambda>x. post Q (f x)) m"
  by (auto simp: post_def bind_eq_Some_conv)

lemma post_if [simp]: "post Q (if b then m else n) \<longleftrightarrow> (b \<longrightarrow> post Q m) \<and> (\<not> b \<longrightarrow> post Q n)"
  by simp

lemma post_mono: "post P m \<Longrightarrow> (\<And>y. P y \<Longrightarrow> Q y) \<Longrightarrow> post Q m"
  by (auto simp: post_def)

lemma postI: "(\<And>y. m = Some y \<Longrightarrow> Q y) \<Longrightarrow> post Q m"
  by (simp add: post_def)

lemma postD: "post Q m \<Longrightarrow> m = Some y \<Longrightarrow> Q y"
  by (simp add: post_def)

section \<open>ARP\<close>

definition arp_rest :: "'a astate_scheme \<Rightarrow> nat \<times> (memp_t \<Rightarrow> memp_desc) \<times> (nat \<Rightarrow> netif) \<times> nat \<times> (nat \<Rightarrow> bool) \<times> 'a" where
  "arp_rest w = (ram (hp w), desc (pl w), netifs w, mac_base (mac w), reader_ready (mac w), astate.more w)"

lemma arp_rest_fixed: "fixed v = fixed w \<Longrightarrow> arp_rest v = arp_rest w"
  by (cases v; cases w; simp add: fixed_def arp_rest_def)

lemma arp_rest_static: "static v = static w \<Longrightarrow> arp_rest v = arp_rest w"
  using static_driver(5) arp_rest_fixed by blast

lemma arp_rest_upd [simp]: "arp_rest (set_arp i f w) = arp_rest w" "arp_rest (w\<lparr>etharp_cached_entry := e\<rparr>) = arp_rest w"
  by (simp_all add: arp_rest_def set_arp_def)

lemma arp_rest_calls:
  "post (\<lambda>v. arp_rest v = arp_rest w) (free_packet p w)" "post (\<lambda>v. arp_rest v = arp_rest w) (pbuf_ref q w)"
  "post (\<lambda>y. arp_rest (snd y) = arp_rest w) (pbuf_clone l t p w)" "post (\<lambda>y. arp_rest (snd y) = arp_rest w) (ethernet_output n p s d e w)"
  "post (\<lambda>y. arp_rest (snd y) = arp_rest w) (etharp_request_dst ni ip hw w)" "post (\<lambda>y. arp_rest (snd y) = arp_rest w) (etharp_request ni ip w)"
  by (auto intro!: postI intro: arp_rest_static arp_rest_fixed free_packet_static pbuf_ref_static pbuf_clone_static ethernet_output_fixed etharp_request_fixed)

lemmas arp_posts = arp_rest_calls [THEN post_mono]

lemma etharp_free_entry_rest: "post (\<lambda>v. arp_rest v = arp_rest w) (etharp_free_entry i w)"
  by (auto simp: etharp_free_entry_def split: option.splits intro!: arp_posts)

lemma recycle_rest: "post (\<lambda>y. arp_rest (snd y) = arp_rest w) (recycle c w)"
  by (auto simp: recycle_def split: option.splits intro!: etharp_free_entry_rest [THEN post_mono])

lemma etharp_find_entry_rest: "post (\<lambda>y. arp_rest (snd y) = arp_rest w) (etharp_find_entry a f n w)"
  by (auto simp: etharp_find_entry_def split: sum.splits option.splits intro!: recycle_rest [THEN post_mono])

lemma etharp_output_to_rest: "post (\<lambda>y. arp_rest (snd y) = arp_rest w) (etharp_output_to_arp_index n q i w)"
  by (auto simp: etharp_output_to_arp_index_def intro!: arp_posts)

lemma enqueue_rest: "post (\<lambda>y. arp_rest (snd y) = arp_rest w) (enqueue i q w)"
  by (auto simp: enqueue_def split: option.splits intro!: postI [of "copy_needed _ _"] arp_posts)

lemma etharp_query_rest: "post (\<lambda>y. arp_rest (snd y) = arp_rest w) (etharp_query n a q w)"
  by (auto simp: etharp_query_def Let_def split: option.splits sum.splits
      intro!: arp_posts etharp_find_entry_rest [THEN post_mono] enqueue_rest [THEN post_mono])

lemma etharp_output_rest: "post (\<lambda>y. arp_rest (snd y) = arp_rest w) (etharp_output n q a w)"
  by (auto simp: etharp_output_def Let_def split: option.splits
      intro!: arp_posts etharp_output_to_rest [THEN post_mono] etharp_query_rest [THEN post_mono])

section \<open>IP\<close>

definition ip_rest ::
  "'a istate_scheme \<Rightarrow> nat \<times> (memp_t \<Rightarrow> memp_desc) \<times> (nat \<Rightarrow> netif) \<times> nat \<times> (nat \<Rightarrow> bool) \<times> ip_globals \<times> nat option \<times> nat option \<times> 'a" where
  "ip_rest w = (ram (hp w), desc (pl w), netifs w, mac_base (mac w), reader_ready (mac w), ip_data w, netif_list w, netif_default w, istate.more w)"

lemma ip_rest_arp: "arp_rest v = arp_rest w \<Longrightarrow> ip_rest v = ip_rest w"
  by (cases v; cases w; simp add: arp_rest_def ip_rest_def)

lemma ip_rest_static: "static v = static w \<Longrightarrow> ip_rest v = ip_rest w"
  using arp_rest_static ip_rest_arp by blast

lemma ip_rest_upd [simp]:
  "ip_rest (w\<lparr>ip_id := i\<rparr>) = ip_rest w" "ip_rest (put_bytes a bs w) = ip_rest w" "ip_rest (put8 a x w) = ip_rest w"
  "ip_rest (put16 a y w) = ip_rest w" "ip_rest (put32 a z w) = ip_rest w" "ip_rest (set_pbuf p f w) = ip_rest w"
  "ip_rest (memcpy d s n w) = ip_rest w"
  by (simp_all add: ip_rest_def put_bytes_def put8_def put16_def put32_def set_pbuf_def memcpy_def)

lemma ip_rest_header [simp]: "ip_rest (snd (pbuf_add_header p n w)) = ip_rest w" "ip_rest (snd (pbuf_remove_header p n w)) = ip_rest w"
  by (auto intro!: ip_rest_static simp: static_simps)

lemma write_ip_hdr_rest [simp]: "ip_rest (write_ip_hdr h s d ttl tos pr l i w) = ip_rest w"
  by (simp add: write_ip_hdr_def Let_def)

lemma netif_output_rest: "post (\<lambda>y. ip_rest (snd y) = ip_rest w) (netif_output n p d w)"
  by (auto simp: netif_output_def split: netif_output_fn.splits intro!: etharp_output_rest [THEN post_mono] intro: ip_rest_arp)

lemma ip4_output_if_rest: "post (\<lambda>y. ip_rest (snd y) = ip_rest w) (ip4_output_if p src dest ttl tos proto n w)"
proof -
  have "ip_rest v = ip_rest w" if "pbuf_add_header p IP_HLEN w = (r, v)" for r v
    using ip_rest_header(1) [of p IP_HLEN w] that by simp
  then show ?thesis
    by (auto simp: ip4_output_if_def ip4_output_if_src_def Let_def split: option.splits prod.splits intro!: netif_output_rest [THEN post_mono])
qed

section \<open>An example\<close>

text \<open>A host that finds a frame in the receive slot, with TCP as it starts, for the examples.\<close>

definition tcp_host :: "bytes \<Rightarrow> tstate" where
  "tcp_host f = nstate.extend (istate.extend (wired f) (nstate.fields 1))
     (tstate.fields (\<lambda>_. fresh_pcb TCP_PRIO_NORMAL 0 0) (\<lambda>_. \<lparr>seg_next = None, seg_p = None, seg_len = 0, seg_flags = 0, seg_tcphdr = 0\<rparr>)
        (\<lambda>_. None) False TCP_LOCAL_PORT_RANGE_START 0 0 0 6510 None
        \<lparr>inseg = \<lparr>seg_next = None, seg_p = None, seg_len = 0, seg_flags = 0, seg_tcphdr = 0\<rparr>, in_tcphdr = 0, tcphdr_optlen = 0,
         tcphdr_opt1len = 0, tcphdr_opt2 = None, tcp_optidx = 0, in_seqno = 0, in_ackno = 0, recv_acked = 0, tcplen = 0, in_flags = 0,
         recv_flags = 0, recv_data = None\<rparr>)"

lemma tcp_host_sel [simp]:
  "dstate.truncate (tcp_host f) = dstate.truncate (wired f)" "arp_table (tcp_host f) = arp_table (wired f)"
  "etharp_cached_entry (tcp_host f) = etharp_cached_entry (wired f)" "ip_id (tcp_host f) = ip_id (wired f)" "ip_data (tcp_host f) = ip_data (wired f)"
  "netif_list (tcp_host f) = netif_list (wired f)" "netif_default (tcp_host f) = netif_default (wired f)"
  "tcp_pcbs (tcp_host f) = (\<lambda>_. fresh_pcb TCP_PRIO_NORMAL 0 0)" "tcp_pcb_lists (tcp_host f) = (\<lambda>_. None)" "tcp_ticks (tcp_host f) = 0"
  "iss (tcp_host f) = 6510" "tcp_input_pcb (tcp_host f) = None" "tcp_timer_ctr (tcp_host f) = 0"
  by (simp_all add: tcp_host_def mstate.defs dstate.defs astate.defs istate.defs nstate.defs tstate.defs)

lemmas tcp_host_lower [simp] = lower_sel [OF tcp_host_sel(1)] lower_cong [OF tcp_host_sel(1)]

end
