(* ===== verification/Tcp_Send.thy ===== *)
theory Tcp_Send
  imports Tcp_Frame
begin

text \<open>
  What \<^verbatim>\<open>tcp_output\<close> and the empty acknowledgement leave alone in a control block, and what they may do to its receive window.
\<close>

text \<open>What sending does to the receive window: nothing, but that the right edge may now be the one announced.\<close>

definition announced :: "tcp_pcb \<Rightarrow> tcp_pcb \<Rightarrow> bool" where
  "announced c d \<longleftrightarrow> rcv_nxt d = rcv_nxt c \<and> rcv_wnd d = rcv_wnd c \<and> rcv_ann_wnd d = rcv_ann_wnd c \<and>
     (rcv_ann_right_edge d = rcv_ann_right_edge c \<or> rcv_ann_right_edge d = rcv_nxt c + ucast (rcv_ann_wnd c))"

lemma announced_refl [simp]: "announced c c"
  by (simp add: announced_def)

lemma announced_trans [trans]: "announced c d \<Longrightarrow> announced d e \<Longrightarrow> announced c e"
  by (auto simp: announced_def)

lemma announced_snd [simp]:
  "announced c (d\<lparr>pcb_flags := a\<rparr>) = announced c d" "announced c (d\<lparr>unsent := b\<rparr>) = announced c d"
  "announced c (d\<lparr>unacked := b\<rparr>) = announced c d" "announced c (d\<lparr>snd_nxt := x\<rparr>) = announced c d"
  "announced c (d\<lparr>unsent_oversize := a\<rparr>) = announced c d" "announced c (d\<lparr>persist_backoff := g\<rparr>) = announced c d"
  "announced c (d\<lparr>persist_cnt := g\<rparr>) = announced c d" "announced c (d\<lparr>persist_probe := g\<rparr>) = announced c d"
  "announced c (d\<lparr>local_ip := x\<rparr>) = announced c d" "announced c (d\<lparr>rttest := x\<rparr>) = announced c d"
  "announced c (d\<lparr>rtseq := x\<rparr>) = announced c d" "announced c (d\<lparr>rtime := y\<rparr>) = announced c d"
  "announced (c\<lparr>local_ip := x\<rparr>) d = announced c d" "announced (c\<lparr>persist_backoff := g\<rparr>) d = announced c d"
  "announced (c\<lparr>persist_cnt := g\<rparr>) d = announced c d" "announced (c\<lparr>persist_probe := g\<rparr>) d = announced c d"
  "announced (c\<lparr>pcb_flags := a\<rparr>) d = announced c d"
  "announced c (c\<lparr>rcv_ann_right_edge := rcv_nxt c + ucast (rcv_ann_wnd c)\<rparr>)"
  by (simp_all add: announced_def)

lemma pcbs_rest: "ip_rest v = ip_rest w \<Longrightarrow> tcp_pcbs v = tcp_pcbs w"
  by (cases v; cases w; simp add: ip_rest_def)

lemma pcbs_static: "static v = static w \<Longrightarrow> tcp_pcbs v = tcp_pcbs w"
  using ip_rest_static pcbs_rest by blast

lemma pcbs_upd [simp]:
  "tcp_pcbs (put8 a x w) = tcp_pcbs w" "tcp_pcbs (put16 a y w) = tcp_pcbs w" "tcp_pcbs (put32 a z w) = tcp_pcbs w"
  "tcp_pcbs (set_pbuf p f w) = tcp_pcbs w" "tcp_pcbs (set_seg s g w) = tcp_pcbs w" "tcp_pcbs (set_in h w) = tcp_pcbs w"
  "tcp_pcbs (set_pcb p k w) = (tcp_pcbs w)(p := k (tcp_pcbs w p))"
  "tcp_pcbs (TCPH_SET_FLAG a fl w) = tcp_pcbs w" "tcp_pcbs (TCPH_FLAGS_SET a ff w) = tcp_pcbs w" "tcp_pcbs (TCPH_HDRLEN_FLAGS_SET a l ff w) = tcp_pcbs w"
  "tcp_pcbs (tcp_set_flags p fs w) = (tcp_pcbs w)(p := (tcp_pcbs w p)\<lparr>pcb_flags := pcb_flags (tcp_pcbs w p) OR fs\<rparr>)"
  "tcp_pcbs (tcp_clear_flags p fs w) = (tcp_pcbs w)(p := (tcp_pcbs w p)\<lparr>pcb_flags := pcb_flags (tcp_pcbs w p) AND NOT fs\<rparr>)"
  by (simp_all add: put8_def put16_def put32_def put_bytes_def set_pbuf_def set_seg_def set_in_def set_pcb_def TCPH_SET_FLAG_def
      TCPH_FLAGS_SET_def TCPH_HDRLEN_FLAGS_SET_def tcp_set_flags_def tcp_clear_flags_def)

lemma pcbs_calls:
  "post (\<lambda>v. tcp_pcbs v = tcp_pcbs w) (free_packet p w)" "post (\<lambda>v. tcp_pcbs v = tcp_pcbs w) (pool_free t s w)"
  "post (\<lambda>y. tcp_pcbs (snd y) = tcp_pcbs w) (pbuf_alloc l n ty w)"
  "post (\<lambda>y. tcp_pcbs (snd y) = tcp_pcbs w) (ip4_output_if p src dest ttl tos proto nif w)"
  by (auto intro!: postI [of "free_packet _ _"] postI [of "pool_free _ _ _"] postI [of "pbuf_alloc _ _ _ _"] pcbs_static
      dest: free_packet_static pool_static pbuf_alloc_static) (auto intro: pcbs_rest ip4_output_if_rest [THEN post_mono])

lemmas pcbs_posts = pcbs_calls [THEN post_mono]

lemma tcp_seg_free_pcbs: "post (\<lambda>v. tcp_pcbs v = tcp_pcbs w) (tcp_seg_free s w)"
  by (auto simp: tcp_seg_free_def split: option.splits intro!: pcbs_posts)

lemma alloc_header_common_pcbs:
  "post (\<lambda>y. tcp_pcbs (snd y) = tcp_pcbs w) (tcp_output_alloc_header_common a ol dl s sp dp fl wn w)"
  by (auto simp: tcp_output_alloc_header_common_def Let_def split: option.splits intro!: pcbs_posts)

lemma control_segment_pcbs: "post (\<lambda>y. tcp_pcbs (snd y) = tcp_pcbs w) (tcp_output_control_segment pcb p src dst w)"
  by (auto simp: tcp_output_control_segment_def Let_def split: option.splits intro!: postI [of "tcp_route _ _ _"] postI [of "segments _ _"] pcbs_posts)

lemma alloc_header_announces:
  "post (\<lambda>y. announced (tcp_pcbs w pcb) (tcp_pcbs (snd y) pcb)) (tcp_output_alloc_header pcb ol dl s w)"
  by (auto simp: tcp_output_alloc_header_def Let_def intro!: alloc_header_common_pcbs [THEN post_mono])

lemma send_empty_ack_announces:
  "post (\<lambda>y. announced (tcp_pcbs w pcb) (tcp_pcbs (snd y) pcb)) (tcp_send_empty_ack pcb w)"
  by (auto simp: tcp_send_empty_ack_def split: option.splits intro!: alloc_header_announces [THEN post_mono] control_segment_pcbs [THEN post_mono])

lemma output_segment_announces:
  "post (\<lambda>y. announced (tcp_pcbs w pcb) (tcp_pcbs (snd y) pcb)) (tcp_output_segment s pcb nif w)"
  by (auto simp: tcp_output_segment_def Let_def split: option.splits intro!: postI [of "tcp_output_segment_busy _ _"] postI [of "segments _ _"] pcbs_posts)

lemma after_sent_announces:
  "post (\<lambda>y. announced (tcp_pcbs w pcb) (tcp_pcbs (snd y) pcb)) (after_sent pcb s us w)"
  by (auto simp: after_sent_def add_unacked_def Let_def split: option.splits intro!: postI [of "sorted_place _ _ _ _"] tcp_seg_free_pcbs [THEN post_mono])

lemma output_loop_announces: "post (\<lambda>y. announced (tcp_pcbs w pcb) (tcp_pcbs (snd y) pcb)) (output_loop pcb wnd nif sg us w)"
proof (rule postI, erule output_loop.raw_induct [rotated], goal_cases)
  case (1 z loop pcb wnd nif sg us w y)
  have *: "post (\<lambda>y. announced (tcp_pcbs v pcb) (tcp_pcbs (snd y) pcb)) (loop pcb wnd nif s u v)" for s u v
    using 1(1) by (intro postI)
  show ?case
    by (rule postD [OF _ 1(2)])
      (auto split: option.splits intro!: output_segment_announces [THEN post_mono] after_sent_announces [THEN post_mono] * [THEN post_mono],
        (blast intro: announced_trans)+)
qed

lemma tcp_output_announces: "post (\<lambda>y. announced (tcp_pcbs w pcb) (tcp_pcbs (snd y) pcb)) (tcp_output pcb w)"
  by (auto simp: tcp_output_def output_done_def Let_def split: option.splits
      intro!: postI [of "tcp_route _ _ _"] postI [of "last_seg _ _"] send_empty_ack_announces [THEN post_mono] output_loop_announces [THEN post_mono])

end
