(* ===== verification/Tcp_Options.thy ===== *)
theory Tcp_Options
  imports Tcp_Frame
begin

text \<open>
  The option parser of \<^verbatim>\<open>tcp_in.c\<close> against a parser of byte lists: it ends, takes the last well-formed MSS option before the
  end of the options, and neither reads past a malformed option nor depends on the byte behind the options, which it may
  fetch as the length of an option that is cut off.
\<close>

definition clamp_mss :: "u16 \<Rightarrow> u16" where
  "clamp_mss m = (if m > Tcp_Types.TCP_MSS \<or> m = 0 then Tcp_Types.TCP_MSS else m)"

function scan_options :: "u16 \<Rightarrow> bytes \<Rightarrow> u16" where
  "scan_options m [] = m"
| "scan_options m (k # xs) =
     (if k = LWIP_TCP_OPT_EOL then m
      else if k = LWIP_TCP_OPT_NOP then scan_options m xs
      else (case xs of
              [] \<Rightarrow> m
            | l # ys \<Rightarrow>
                if k = LWIP_TCP_OPT_MSS then
                  (case ys of
                     hi # lo # zs \<Rightarrow> if l = LWIP_TCP_OPT_LEN_MSS then scan_options (clamp_mss (push_bit 8 (ucast hi) OR ucast lo)) zs else m
                   | _ \<Rightarrow> m)
                else if l < 2 then m
                else scan_options m (drop (unat l - 2) ys)))"
  by pat_completeness auto
termination by (relation "measure (\<lambda>(m, xs). length xs)") auto

text \<open>The byte at an index of the options, which may lie in two buffers.\<close>

definition opt_byte :: "'a tstate_scheme \<Rightarrow> nat \<Rightarrow> u8" where
  "opt_byte w i =
     (case tcphdr_opt2 (tin w) of
        Some a \<Rightarrow> if i < unat (tcphdr_opt1len (tin w)) then get8 (in_tcphdr (tin w) + TCP_HLEN + i) w else get8 (a + (i - unat (tcphdr_opt1len (tin w)))) w
      | None \<Rightarrow> get8 (in_tcphdr (tin w) + TCP_HLEN + i) w)"

definition options :: "'a tstate_scheme \<Rightarrow> bytes" where
  "options w = map (opt_byte w) [0..<unat (tcphdr_optlen (tin w))]"

text \<open>What the parser may change.\<close>

definition parsed :: "nat \<Rightarrow> u16 \<Rightarrow> u16 \<Rightarrow> 'a tstate_scheme \<Rightarrow> 'a tstate_scheme" where
  "parsed pcb m i w = set_pcb pcb (\<lambda>c. c\<lparr>pcb_mss := m\<rparr>) (set_in (\<lambda>t. t\<lparr>tcp_optidx := i\<rparr>) w)"

lemma parsed_sel [simp]:
  "tcp_optidx (tin (parsed pcb m i w)) = i" "tcphdr_optlen (tin (parsed pcb m i w)) = tcphdr_optlen (tin w)"
  "opt_byte (parsed pcb m i w) = opt_byte w" "options (parsed pcb m i w) = options w"
  "pcb_mss (tcp_pcbs (parsed pcb m i w) pcb) = m"
  "parsed pcb m' i' (parsed pcb m i w) = parsed pcb m' i' w"
  by (auto simp: parsed_def set_pcb_def set_in_def opt_byte_def options_def get8_def fun_eq_iff split: option.splits)

lemma opt1_index:
  assumes "i \<le> (40 :: u16)" "\<not> i < l"
  shows "unat (ucast (i - l) :: u8) = unat i - unat l"
proof -
  have "unat (i - l) = unat i - unat l" using assms(2) by (simp add: unat_sub not_less)
  moreover have "unat i \<le> 40" using assms(1) by (simp add: word_le_nat_alt)
  ultimately show ?thesis by (simp add: unsigned_ucast_eq take_bit_eq_mod)
qed

lemma next_optbyte:
  assumes "i \<le> 40"
  shows "tcp_get_next_optbyte (parsed pcb m i w) = (opt_byte w (unat i), parsed pcb m (i + 1) w)"
  using opt1_index [OF assms]
  by (auto simp: tcp_get_next_optbyte_def parsed_def set_pcb_def set_in_def opt_byte_def get8_def Let_def word_less_nat_alt
      split: option.splits)

lemma skip_parsed [simp]: "set_in (\<lambda>t. t\<lparr>tcp_optidx := tcp_optidx t + x\<rparr>) (parsed pcb m i w) = parsed pcb m (i + x) w"
  by (simp add: parsed_def set_in_def set_pcb_def)

lemma parse_mss_parsed:
  assumes "i + 1 \<le> 40" "i \<le> 40"
  shows "parse_mss pcb (parsed pcb m i w) =
    parsed pcb (clamp_mss (push_bit 8 (ucast (opt_byte w (unat i))) OR ucast (opt_byte w (unat (i + 1))))) (i + 1 + 1) w"
  unfolding parse_mss_def next_optbyte [OF assms(2)] Let_def prod.case next_optbyte [OF assms(1)]
  by (simp add: parsed_def clamp_mss_def set_pcb_def set_in_def)

lemma drop_options:
  assumes "i < unat (tcphdr_optlen (tin w))"
  shows "drop i (options w) = opt_byte w i # drop (Suc i) (options w)"
  using assms by (intro trans [OF Cons_nth_drop_Suc [symmetric]]) (simp_all add: options_def)

lemma drop_options_end: "unat (tcphdr_optlen (tin w)) \<le> i \<Longrightarrow> drop i (options w) = []"
  by (simp add: options_def)

lemma mss_length:
  "int (unat a) - 2 + int (unat LWIP_TCP_OPT_LEN_MSS) > int (unat b) \<longleftrightarrow> unat b < unat a + 2"
proof -
  have "int (unat LWIP_TCP_OPT_LEN_MSS) = 4" by (simp add: LWIP_TCP_OPT_LEN_MSS_def)
  then show ?thesis by linarith
qed

lemma parse_loop_step:
  assumes "i < tcphdr_optlen (tin w)" "tcphdr_optlen (tin w) \<le> 40"
  defines "k \<equiv> opt_byte w (unat i)" and "l \<equiv> opt_byte w (unat (i + 1))"
  shows "parse_loop pcb (parsed pcb m i w) =
    (if k = LWIP_TCP_OPT_EOL then Some (parsed pcb m (i + 1) w)
     else if k = LWIP_TCP_OPT_NOP then parse_loop pcb (parsed pcb m (i + 1) w)
     else if k = LWIP_TCP_OPT_MSS then
       (if l \<noteq> LWIP_TCP_OPT_LEN_MSS \<or> unat i + 4 > unat (tcphdr_optlen (tin w)) then Some (parsed pcb m (i + 2) w)
        else parse_loop pcb (parsed pcb (clamp_mss (push_bit 8 (ucast (opt_byte w (unat i + 2))) OR ucast (opt_byte w (unat i + 3)))) (i + 4) w))
     else if l < 2 then Some (parsed pcb m (i + 2) w)
     else parse_loop pcb (parsed pcb m (i + 2 + (ucast l - 2)) w))"
proof -
  have b: "unat i < 40" using assms(1,2) by (simp add: word_less_nat_alt word_le_nat_alt)
  have u: "unat (i + 1) = unat i + 1" "unat (i + 2) = unat i + 2" "unat (i + 3) = unat i + 3" using b by (simp_all add: unat_word_ariths(1))
  have le: "i \<le> 40" "i + 1 \<le> 40" using b u by (simp_all add: word_le_nat_alt)
  have mss: "unat i + 4 \<le> unat (tcphdr_optlen (tin w)) \<Longrightarrow> parse_mss pcb (parsed pcb m (i + 2) w) =
      parsed pcb (clamp_mss (push_bit 8 (ucast (opt_byte w (unat i + 2))) OR ucast (opt_byte w (unat i + 3)))) (i + 4) w"
    using parse_mss_parsed [of "i + 2" pcb m w] assms(2) u by (simp add: word_le_nat_alt add.assoc)
  have two: "i + 1 + 1 = i + 2" by simp
  show ?thesis
    unfolding k_def l_def
    by (subst parse_loop.simps)
      (simp only: parsed_sel next_optbyte [OF le(1)] next_optbyte [OF le(2)] prod.case mss_length two u(2) assms(1) skip_parsed
        not_True_eq_False if_False, use mss in auto)
qed

lemma skip_index:
  assumes "unat i < 40" "\<not> l < (2 :: u8)"
  shows "unat (i + 2 + (ucast l - 2) :: u16) = Suc (Suc (unat i)) + (unat l - 2)"
proof -
  have l: "unat l < 256" using unsigned_less [of l] by simp
  then have c: "unat (ucast l :: u16) = unat l" by (simp add: unsigned_ucast_eq take_bit_eq_mod)
  have "\<not> unat l < 2" using assms(2) by (simp add: word_less_nat_alt)
  then show ?thesis using assms(1) l by (simp add: unat_word_ariths(1) c)
qed

lemma scan_options_two:
  "scan_options m (k # l # ys) =
     (if k = LWIP_TCP_OPT_EOL then m else if k = LWIP_TCP_OPT_NOP then scan_options m (l # ys)
      else if k = LWIP_TCP_OPT_MSS then
        (case ys of hi # lo # zs \<Rightarrow> if l = LWIP_TCP_OPT_LEN_MSS then scan_options (clamp_mss (push_bit 8 (ucast hi) OR ucast lo)) zs else m
           | _ \<Rightarrow> m)
      else if l < 2 then m else scan_options m (drop (unat l - 2) ys))"
  by (subst scan_options.simps(2)) (simp only: list.case)

text \<open>What is left behind the kind and the length of an option: room for an MSS, or less than two bytes.\<close>

lemma mss_bytes:
  assumes "unat i + 4 \<le> unat (tcphdr_optlen (tin w))"
  shows "drop (Suc (Suc (unat i))) (options w) = opt_byte w (unat i + 2) # opt_byte w (unat i + 3) # drop (unat i + 4) (options w)"
  using assms by (simp add: drop_options eval_nat_numeral)

lemma no_mss_bytes:
  assumes "\<not> unat i + 4 \<le> unat (tcphdr_optlen (tin w))"
  shows "drop (Suc (Suc (unat i))) (options w) = [] \<or> (\<exists>x. drop (Suc (Suc (unat i))) (options w) = [x])"
proof -
  let ?ys = "drop (Suc (Suc (unat i))) (options w)"
  have "length ?ys < 2" using assms by (simp add: options_def)
  then show ?thesis by (cases ?ys; cases "tl ?ys") auto
qed

lemma parse_loop_scan:
  assumes "tcphdr_optlen (tin w) \<le> 40"
  shows "\<exists>j. parse_loop pcb (parsed pcb m i w) = Some (parsed pcb (scan_options m (drop (unat i) (options w))) j w)"
proof (induction "unat (tcphdr_optlen (tin w)) - unat i" arbitrary: m i rule: less_induct)
  case less
  let ?n = "unat (tcphdr_optlen (tin w))"
  have ih: "unat i < ?n \<Longrightarrow> unat i < unat j \<Longrightarrow>
      \<exists>k. parse_loop pcb (parsed pcb m' j w) = Some (parsed pcb (scan_options m' (drop (unat j) (options w))) k w)"
    for j m' by (intro less) simp
  consider "\<not> unat i < ?n" | "unat i < ?n" "\<not> Suc (unat i) < ?n" | "unat i < ?n" "Suc (unat i) < ?n" by blast
  then show ?case
  proof cases
    case 1
    then show ?thesis by (subst parse_loop.simps) (auto simp: drop_options_end word_less_nat_alt)
  next
    case 2
    then have "i < tcphdr_optlen (tin w)" "unat (i + 1) = Suc (unat i)" "unat i < 40"
      using assms by (simp_all add: unat_word_ariths(1) word_less_nat_alt word_le_nat_alt)
    then show ?thesis
      unfolding parse_loop_step [OF \<open>i < _\<close> assms] drop_options [OF 2(1)]
      using ih [OF 2(1), of "i + 1" m] ih [OF 2(1), of "i + 2 + (ucast (opt_byte w (Suc (unat i))) - 2)" m] 2
        skip_index [of i "opt_byte w (Suc (unat i))"]
      by (auto simp: drop_options_end)
  next
    case 3
    define k where "k = opt_byte w (unat i)"
    define l where "l = opt_byte w (Suc (unat i))"
    define ys where "ys = drop (Suc (Suc (unat i))) (options w)"
    have i: "i < tcphdr_optlen (tin w)" "unat i < 40" using 3(1) assms by (simp_all add: word_less_nat_alt word_le_nat_alt)
    then have u: "unat (i + 1) = Suc (unat i)" "unat (i + 4) = unat i + 4" by (simp_all add: unat_word_ariths(1))
    have d: "drop (Suc (unat i)) (options w) = l # ys" "drop (unat i) (options w) = k # l # ys"
      unfolding k_def l_def ys_def using drop_options [OF 3(1)] drop_options [OF 3(2)] by simp_all
    note st = parse_loop_step [OF i(1) assms, of pcb m, unfolded u(1), folded k_def l_def]
    have nop: "\<exists>j. parse_loop pcb (parsed pcb m (i + 1) w) = Some (parsed pcb (scan_options m (l # ys)) j w)"
      using ih [OF 3(1), of "i + 1" m] d by (simp only: u)
    have other: "\<exists>j. parse_loop pcb (parsed pcb m (i + 2 + (ucast l - 2)) w) = Some (parsed pcb (scan_options m (drop (unat l - 2) ys)) j w)"
      if "\<not> l < 2" using ih [OF 3(1), of "i + 2 + (ucast l - 2)" m] unfolding skip_index [OF i(2) that] ys_def by (simp add: add.commute)
    show ?thesis
    proof (cases "k = LWIP_TCP_OPT_MSS \<and> k \<noteq> LWIP_TCP_OPT_EOL \<and> k \<noteq> LWIP_TCP_OPT_NOP")
      case True
      then show ?thesis
        unfolding st d scan_options_two
        using ih [OF 3(1), of "i + 4"] u(2) mss_bytes [of i w, folded ys_def] no_mss_bytes [of i w, folded ys_def]
        by (cases "unat i + 4 \<le> ?n"; cases "l = LWIP_TCP_OPT_LEN_MSS") auto
    next
      case False
      then show ?thesis unfolding st d scan_options_two using nop other by (auto simp del: scan_options.simps)
    qed
  qed
qed

lemma scan_options_range: "scan_options m xs = m \<or> 1 \<le> scan_options m xs \<and> scan_options m xs \<le> Tcp_Types.TCP_MSS"
proof (induction m xs rule: scan_options.induct)
  case (2 m k xs)
  have "1 \<le> clamp_mss x \<and> clamp_mss x \<le> Tcp_Types.TCP_MSS" for x
    by (auto simp: clamp_mss_def Tcp_Types.TCP_MSS_def word_le_nat_alt word_less_nat_alt Suc_le_eq unat_gt_0)
  then show ?case unfolding scan_options.simps(2) [of m k xs] using 2 by (auto simp del: scan_options.simps split: list.splits) metis+
qed simp

text \<open> C10: For the at most 40 bytes of options a header can have, in one buffer or split over two, the parser ends and the segment size it
  stores is the one the reference parser finds in those bytes: the last well-formed MSS option before the end of the options or a
  malformed option, clamped to the range from 1 to TCP_MSS, or the old size when there is none. It changes nothing but the segment size and its own index,
  whatever the byte behind the options is.\<close>

theorem tcp_parseopt_scan:
  assumes "tcphdr_optlen (tin w) \<le> 40"
  shows "\<exists>i. tcp_parseopt pcb w = Some (parsed pcb (scan_options (pcb_mss (tcp_pcbs w pcb)) (options w)) i w) \<and>
    (let m = scan_options (pcb_mss (tcp_pcbs w pcb)) (options w)
     in m = pcb_mss (tcp_pcbs w pcb) \<or> 1 \<le> m \<and> m \<le> Tcp_Types.TCP_MSS)"
proof -
  have p: "parsed pcb (pcb_mss (tcp_pcbs w pcb)) i w = set_in (\<lambda>t. t\<lparr>tcp_optidx := i\<rparr>) w" for i
    by (simp add: parsed_def set_pcb_def set_in_def)
  have e: "set_in (\<lambda>t. t\<lparr>tcp_optidx := tcp_optidx t\<rparr>) w = w" by (simp add: set_in_def)
  show ?thesis
  proof (cases "tcphdr_optlen (tin w) = 0")
    case True
    then show ?thesis using p [of "tcp_optidx (tin w)"] by (auto simp: tcp_parseopt_def options_def set_in_def Let_def intro!: exI [of _ "tcp_optidx (tin w)"])
  next
    case False
    then show ?thesis
      using parse_loop_scan [OF assms, of pcb "pcb_mss (tcp_pcbs w pcb)" 0] scan_options_range [of "pcb_mss (tcp_pcbs w pcb)" "options w"]
      by (auto simp: tcp_parseopt_def p Let_def)
  qed
qed

text \<open>A SYN with a NOP, an MSS of 536, an unknown option and the kind of an option whose length is missing.\<close>

theorem tcp_parseopt_scan_witness:
  "\<exists>v. tcp_parseopt 7 (set_in (\<lambda>t. t\<lparr>in_tcphdr := 102028, tcphdr_optlen := 9\<rparr>) (tcp_host [1, 2, 4, 2, 24, 8, 3, 77, 30])) = Some v \<and>
     pcb_mss (tcp_pcbs v 7) = 536"
proof -
  let ?w = "set_in (\<lambda>t. t\<lparr>in_tcphdr := 102028, tcphdr_optlen := 9\<rparr>) (tcp_host [1, 2, 4, 2, 24, 8, 3, 77, 30])"
  have "tcphdr_opt2 (tin ?w) = None" "ram_bytes ?w = store 102048 [1, 2, 4, 2, 24, 8, 3, 77, 30] (\<lambda>_. 0)"
    by (simp_all add: set_in_def tcp_host_def nstate.defs istate.defs tstate.defs)
  then have "options ?w = [1, 2, 4, 2, 24, 8, 3, 77, 30]"
    by (simp add: options_def opt_byte_def get8_def set_in_def store_def TCP_HLEN_def upt_rec)
  then have "scan_options (pcb_mss (tcp_pcbs ?w 7)) (options ?w) = 536"
    by (simp add: LWIP_TCP_OPT_EOL_def LWIP_TCP_OPT_NOP_def LWIP_TCP_OPT_MSS_def LWIP_TCP_OPT_LEN_MSS_def clamp_mss_def Tcp_Types.TCP_MSS_def)
  then show ?thesis using tcp_parseopt_scan [of ?w 7] by (auto simp: set_in_def parsed_def set_pcb_def)
qed

end
