(* ===== verification/Tcp_Window.thy ===== *)
theory Tcp_Window
  imports Tcp_Send
begin

text \<open>
  The receive window of a connection: the right edge that has been announced never moves back, no more is announced than
  there is room for, and data within the window is always taken.
\<close>

section \<open>The receive window\<close>

text \<open>
  How far the announced right edge lies ahead of the next byte expected; negative when the peer has sent past it. It lies
  within the room that is left, and is not too far behind to be told from one ahead.
\<close>

definition ann_ahead :: "tcp_pcb \<Rightarrow> int" where
  "ann_ahead c = sint (rcv_ann_right_edge c - rcv_nxt c)"

definition rcv_ok :: "tcp_pcb \<Rightarrow> bool" where
  "rcv_ok c \<longleftrightarrow> rcv_wnd c \<le> TCP_WND \<and> - 0x60000000 \<le> ann_ahead c \<and> ann_ahead c \<le> uint (rcv_wnd c)"

text \<open>What announcing the window now would say: at most the room, and an edge that is not behind the old one.\<close>

definition announces :: "tcp_pcb \<Rightarrow> tcp_pcb \<Rightarrow> bool" where
  "announces c d \<longleftrightarrow> rcv_ann_wnd d \<le> rcv_wnd d \<and> TCP_SEQ_GEQ (rcv_nxt d + ucast (rcv_ann_wnd d)) (rcv_ann_right_edge c)"

lemma sint_add_u32:
  fixes x y :: u32
  shows "- (2 ^ 31) \<le> sint x + sint y \<Longrightarrow> sint x + sint y < 2 ^ 31 \<Longrightarrow> sint (x + y) = sint x + sint y"
    "- (2 ^ 31) \<le> sint x - sint y \<Longrightarrow> sint x - sint y < 2 ^ 31 \<Longrightarrow> sint (x - y) = sint x - sint y"
    "sint x > - (2 ^ 31) \<Longrightarrow> sint (- x) = - sint x"
  using sint_lt [of x] by (simp_all add: sint_word_add sint_word_diff sint_word_minus signed_take_bit_int_eq_self)

lemma uint_ucast_u16: "uint (ucast (x :: u16) :: u32) = uint x"
  by (rule uint_up_ucast) (simp add: is_up)

lemma sint_small_u32: "uint (x :: u32) < 2 ^ 16 \<Longrightarrow> sint x = uint x"
  using signed_take_bit_int_eq_self [of 31 "uint x"] order_trans [OF _ uint_ge_0, of "- (2 ^ 31)" x] by (simp add: sint_uint)

lemma sint_ucast_u16: "sint (ucast (x :: u16) :: u32) = uint x"
  using sint_small_u32 [of "ucast x"] uint_bounded [of x] by (simp add: uint_ucast_u16)

lemma sint_room:
  assumes "uint (m :: u16) \<le> 5840" "- 0x60000000 \<le> sint (e :: u32)" "sint e \<le> 5840"
  shows "sint (ucast m - e) = uint m - sint e"
proof -
  have "0 \<le> uint m" by simp
  then have "- 0x80000000 \<le> uint m - sint e" "uint m - sint e < 0x80000000" using assms by linarith+
  then show ?thesis by (subst sint_add_u32(2)) (simp_all add: sint_ucast_u16)
qed

lemma uint_sint_u32: "0 \<le> sint (x :: u32) \<Longrightarrow> uint x = sint x"
  using sint_lt [of x] by (simp add: uint_sint take_bit_int_eq_self)

lemma TCP_WND_nat: "uint TCP_WND = 5840" "uint (TCP_WND div 2) = 2920"
  by (simp_all add: TCP_WND_def Tcp_Types.TCP_MSS_def)

lemma tcp_update_rcv_ann_wnd_ok:
  assumes "rcv_ok (tcp_pcbs w pcb)"
  shows "\<exists>n m. tcp_update_rcv_ann_wnd pcb w = Some (n, set_pcb pcb (\<lambda>c. c\<lparr>rcv_ann_wnd := m\<rparr>) w) \<and>
    announces (tcp_pcbs w pcb) ((tcp_pcbs w pcb)\<lparr>rcv_ann_wnd := m\<rparr>)"
proof -
  let ?c = "tcp_pcbs w pcb"
  define e where "e = rcv_ann_right_edge ?c - rcv_nxt ?c"
  define t where "t = min (TCP_WND div 2) (pcb_mss ?c)"
  have edge: "rcv_ann_right_edge ?c = rcv_nxt ?c + e" by (simp add: e_def)
  have r: "uint (rcv_wnd ?c) \<le> 5840" "- 0x60000000 \<le> sint e" "sint e \<le> uint (rcv_wnd ?c)"
    using assms by (simp_all add: rcv_ok_def ann_ahead_def e_def TCP_WND_nat word_le_def)
  have t: "uint t \<le> 2920" using TCP_WND_nat(2) by (simp add: t_def min_def word_le_def)
  have room: "sint (ucast (rcv_wnd ?c) - e) = uint (rcv_wnd ?c) - sint e"
    using r by (intro sint_room) simp_all
  have ahead: "sint (- e) = - sint e" using r by (intro sint_add_u32(3)) simp
  show ?thesis
  proof (cases "TCP_SEQ_GEQ (rcv_nxt ?c + ucast (rcv_wnd ?c)) (rcv_ann_right_edge ?c + ucast t)")
    case True
    then show ?thesis
      using room r by (auto simp: tcp_update_rcv_ann_wnd_def Let_def t_def announces_def TCP_SEQ_GEQ_def edge set_pcb_def intro!: exI [of _ "rcv_wnd ?c"])
  next
    case full: False
    show ?thesis
    proof (cases "sint e < 0")
      case True
      then show ?thesis
        using full ahead r by (auto simp: tcp_update_rcv_ann_wnd_def Let_def t_def announces_def TCP_SEQ_GEQ_def TCP_SEQ_GT_def edge intro!: exI [of _ 0])
    next
      case False
      then have u: "uint e = sint e" by (simp add: uint_sint_u32)
      have "take_bit 16 (sint e) = sint e" using r False by (intro take_bit_int_eq_self) simp_all
      then have c: "ucast (ucast e :: u16) = e" and m: "uint (ucast e :: u16) = sint e"
        using u by (simp_all add: word_uint_eq_iff unsigned_ucast_eq unsigned_take_bit_eq)
      have "\<not> e > 0xffff" using u r by (simp add: word_less_def)
      then show ?thesis
        using full ahead r False c m
        by (auto simp: tcp_update_rcv_ann_wnd_def Let_def t_def announces_def TCP_SEQ_GEQ_def TCP_SEQ_GT_def edge word_le_def intro!: exI [of _ "ucast e"])
    qed
  qed
qed


text \<open>
  The invariant of the window, and how far it has moved when some bytes have been received: the next byte by as many, and
  the announced edge forward or not at all.
\<close>

definition window_ok :: "tcp_pcb \<Rightarrow> bool" where
  "window_ok c \<longleftrightarrow> rcv_wnd c \<le> TCP_WND \<and> rcv_ann_wnd c \<le> rcv_wnd c \<and> ann_ahead c \<le> uint (rcv_ann_wnd c)"

definition moved :: "tcp_pcb \<Rightarrow> nat \<Rightarrow> tcp_pcb \<Rightarrow> bool" where
  "moved c n d \<longleftrightarrow> rcv_nxt d = rcv_nxt c + of_nat n \<and> ann_ahead c \<le> ann_ahead d + int n"

lemma moved_trans: "moved c m d \<Longrightarrow> moved d n e \<Longrightarrow> moved c (m + n) e"
  by (simp add: moved_def)

lemma wnd_bound: "window_ok c \<Longrightarrow> uint (rcv_ann_wnd c) \<le> uint (rcv_wnd c) \<and> uint (rcv_wnd c) \<le> 5840"
  by (simp add: window_ok_def word_le_def TCP_WND_nat)

lemma announced_window: "window_ok c \<Longrightarrow> announced c d \<Longrightarrow> window_ok d \<and> moved c 0 d"
  by (auto simp: window_ok_def announced_def moved_def ann_ahead_def sint_ucast_u16)

lemma announces_window:
  assumes "rcv_ok c" "announces c (c\<lparr>rcv_ann_wnd := m\<rparr>)"
  shows "window_ok (c\<lparr>rcv_ann_wnd := m\<rparr>)"
proof -
  let ?e = "rcv_ann_right_edge c - rcv_nxt c"
  have m: "uint m \<le> 5840" "sint ?e \<le> 5840" "- 0x60000000 \<le> sint ?e"
    using assms by (simp_all add: rcv_ok_def announces_def word_le_def TCP_WND_nat ann_ahead_def)
  have "sint (rcv_nxt c + ucast m - rcv_ann_right_edge c) = sint (ucast m - ?e)" by (simp add: algebra_simps)
  also have "sint (ucast m - ?e) = uint m - sint ?e"
    using m by (intro sint_room)
  finally show ?thesis using assms by (simp add: rcv_ok_def announces_def window_ok_def TCP_SEQ_GEQ_def ann_ahead_def)
qed

lemma update_window:
  assumes "rcv_ok (tcp_pcbs w pcb)"
  shows "\<exists>k v. tcp_update_rcv_ann_wnd pcb w = Some (k, v) \<and> window_ok (tcp_pcbs v pcb) \<and> moved (tcp_pcbs w pcb) 0 (tcp_pcbs v pcb)"
proof -
  obtain k m where "tcp_update_rcv_ann_wnd pcb w = Some (k, set_pcb pcb (\<lambda>c. c\<lparr>rcv_ann_wnd := m\<rparr>) w)"
    "announces (tcp_pcbs w pcb) ((tcp_pcbs w pcb)\<lparr>rcv_ann_wnd := m\<rparr>)"
    using tcp_update_rcv_ann_wnd_ok [OF assms] by blast
  then show ?thesis using announces_window [OF assms] by (simp add: moved_def ann_ahead_def)
qed

lemma advance_window:
  assumes "window_ok (tcp_pcbs w pcb)" "- 0x50000000 \<le> ann_ahead (tcp_pcbs w pcb)" "len \<le> ucast (rcv_wnd (tcp_pcbs w pcb))"
  shows "\<exists>v. advance_rcv pcb (rcv_nxt (tcp_pcbs w pcb)) len w = Some v \<and> window_ok (tcp_pcbs v pcb) \<and>
    moved (tcp_pcbs w pcb) (unat len) (tcp_pcbs v pcb)"
proof -
  let ?c = "tcp_pcbs w pcb"
  let ?v = "set_pcb pcb (\<lambda>c. c\<lparr>rcv_wnd := rcv_wnd c - ucast len\<rparr>) (set_pcb pcb (\<lambda>c. c\<lparr>rcv_nxt := rcv_nxt ?c + len\<rparr>) w)"
  have l: "uint len \<le> uint (rcv_wnd ?c)" using assms(3) by (simp add: word_le_def uint_ucast_u16)
  have b: "uint (rcv_wnd ?c) \<le> 5840" "ann_ahead ?c \<le> uint (rcv_wnd ?c)" using assms(1) wnd_bound [OF assms(1)] by (simp_all add: window_ok_def)
  have "uint (ucast len :: u16) = uint len"
    using l b(1) by (simp add: unsigned_ucast_eq unsigned_take_bit_eq take_bit_int_eq_self)
  then have wnd: "uint (rcv_wnd ?c - ucast len) = uint (rcv_wnd ?c) - uint len" using l by (simp add: uint_sub_if')
  have s: "sint len = uint len" using l b(1) by (intro sint_small_u32) simp
  have a: "ann_ahead (tcp_pcbs ?v pcb) = ann_ahead ?c - uint len"
  proof -
    have "0 \<le> uint len" by simp
    then have "- 0x80000000 \<le> ann_ahead ?c - uint len" "ann_ahead ?c - uint len < 0x80000000" using b l assms(2) by linarith+
    then have "sint ((rcv_ann_right_edge ?c - rcv_nxt ?c) - len) = ann_ahead ?c - uint len"
      by (subst sint_add_u32(2)) (simp_all add: s ann_ahead_def)
    then show ?thesis by (simp add: ann_ahead_def diff_diff_eq)
  qed
  have "uint (rcv_wnd ?c) - uint len \<le> 5840" using b(1) uint_ge_0 [of len] by linarith
  then have "rcv_ok (tcp_pcbs ?v pcb)" using a wnd b l assms(2) by (simp add: rcv_ok_def word_le_def TCP_WND_nat)
  then obtain k v where "tcp_update_rcv_ann_wnd pcb ?v = Some (k, v)" "window_ok (tcp_pcbs v pcb)" "moved (tcp_pcbs ?v pcb) 0 (tcp_pcbs v pcb)"
    using update_window by blast
  then show ?thesis using assms(3) a by (simp add: advance_rcv_def Let_def moved_def not_less)
qed

lemma recved_window:
  assumes "window_ok (tcp_pcbs w pcb)" "- 0x60000000 \<le> ann_ahead (tcp_pcbs w pcb)"
  shows "post (\<lambda>v. window_ok (tcp_pcbs v pcb) \<and> moved (tcp_pcbs w pcb) 0 (tcp_pcbs v pcb)) (tcp_recved (Some pcb) len w)"
proof -
  let ?c = "tcp_pcbs w pcb"
  let ?n = "rcv_wnd ?c + len"
  let ?v = "set_pcb pcb (\<lambda>c. c\<lparr>rcv_wnd := (if ?n > TCP_WND_MAX c \<or> ?n < rcv_wnd c then TCP_WND_MAX c else ?n)\<rparr>) w"
  have "rcv_ok (tcp_pcbs ?v pcb)"
    using assms by (auto simp: rcv_ok_def window_ok_def ann_ahead_def TCP_WND_MAX_def word_le_def not_less)
  then obtain k v where "tcp_update_rcv_ann_wnd pcb ?v = Some (k, v)" "window_ok (tcp_pcbs v pcb)" "moved (tcp_pcbs ?v pcb) 0 (tcp_pcbs v pcb)"
    using update_window by blast
  moreover have "post (\<lambda>y. window_ok (tcp_pcbs (snd y) pcb) \<and> moved (tcp_pcbs v pcb) 0 (tcp_pcbs (snd y) pcb)) (tcp_output pcb (tcp_ack_now pcb v))"
    using calculation(2) announced_window by (intro tcp_output_announces [THEN post_mono]) (auto simp: tcp_ack_now_def)
  ultimately show ?thesis
    by (auto simp: tcp_recved_def Let_def elim!: post_mono) (auto simp: moved_def ann_ahead_def)
qed

section \<open>Every run of a connection\<close>

text \<open>
  What happens to a connection between two points, and how many bytes arrive in sequence: data is received, the application
  takes some of it, something is sent, and whatever else leaves the receive window alone.
\<close>

inductive window_run :: "nat \<Rightarrow> 'a tstate_scheme \<Rightarrow> nat \<Rightarrow> 'a tstate_scheme \<Rightarrow> bool" for pcb :: nat and w :: "'a tstate_scheme" where
  start: "window_run pcb w 0 w"
| receive: "window_run pcb w n u \<Longrightarrow> advance_rcv pcb (rcv_nxt (tcp_pcbs u pcb)) len u = Some v \<Longrightarrow> window_run pcb w (n + unat len) v"
| read: "window_run pcb w n u \<Longrightarrow> tcp_recved (Some pcb) len u = Some v \<Longrightarrow> window_run pcb w n v"
| send: "window_run pcb w n u \<Longrightarrow> tcp_output pcb u = Some (err, v) \<Longrightarrow> window_run pcb w n v"
| acknowledge: "window_run pcb w n u \<Longrightarrow> tcp_send_empty_ack pcb u = Some (err, v) \<Longrightarrow> window_run pcb w n v"
| other: "window_run pcb w n u \<Longrightarrow> rcv_nxt (tcp_pcbs v pcb) = rcv_nxt (tcp_pcbs u pcb) \<Longrightarrow> rcv_wnd (tcp_pcbs v pcb) = rcv_wnd (tcp_pcbs u pcb) \<Longrightarrow>
    rcv_ann_wnd (tcp_pcbs v pcb) = rcv_ann_wnd (tcp_pcbs u pcb) \<Longrightarrow>
    rcv_ann_right_edge (tcp_pcbs v pcb) = rcv_ann_right_edge (tcp_pcbs u pcb) \<Longrightarrow> window_run pcb w n v"

lemma window_run_moved:
  assumes "window_run pcb w n v" "window_ok (tcp_pcbs w pcb)" "- 0x40000000 \<le> ann_ahead (tcp_pcbs w pcb)" "n \<le> 0x10000000"
  shows "window_ok (tcp_pcbs v pcb) \<and> moved (tcp_pcbs w pcb) n (tcp_pcbs v pcb)"
  using assms
proof (induction rule: window_run.induct)
  case start
  then show ?case by (simp add: moved_def)
next
  case (receive n u len v)
  then have u: "window_ok (tcp_pcbs u pcb)" "moved (tcp_pcbs w pcb) n (tcp_pcbs u pcb)" "- 0x50000000 \<le> ann_ahead (tcp_pcbs u pcb)"
    by (auto simp: moved_def)
  have "len \<le> ucast (rcv_wnd (tcp_pcbs u pcb))" using receive(2) by (auto simp: advance_rcv_def Let_def not_less split: if_splits)
  then show ?case using advance_window [OF u(1,3)] receive(2) u(2) by (metis moved_trans option.inject)
next
  case (read n u len v)
  then have u: "window_ok (tcp_pcbs u pcb)" "moved (tcp_pcbs w pcb) n (tcp_pcbs u pcb)" "- 0x60000000 \<le> ann_ahead (tcp_pcbs u pcb)"
    by (auto simp: moved_def)
  then show ?case using postD [OF recved_window read(2)] moved_trans [of _ n _ 0] by force
next
  case (send n u err v)
  then show ?case using postD [OF tcp_output_announces send(2)] announced_window moved_trans [of _ n _ 0] by force
next
  case (acknowledge n u err v)
  then show ?case using postD [OF send_empty_ack_announces acknowledge(2)] announced_window moved_trans [of _ n _ 0] by force
next
  case (other n u v)
  then have "announced (tcp_pcbs u pcb) (tcp_pcbs v pcb)" by (simp add: announced_def)
  then show ?case using other announced_window moved_trans [of _ n _ 0] by force
qed

lemma sint_of_int_u32: "- 0x80000000 \<le> i \<Longrightarrow> i < 0x80000000 \<Longrightarrow> sint (word_of_int i :: u32) = i"
  by (simp add: sint_sbintrunc' signed_take_bit_int_eq_self)

lemma edge_forward:
  assumes "moved c n d" "window_ok d" "- 0x40000000 \<le> ann_ahead c" "ann_ahead c \<le> 5840" "n \<le> 0x10000000"
  shows "TCP_SEQ_GEQ (rcv_ann_right_edge d) (rcv_ann_right_edge c)"
proof -
  have "rcv_ann_right_edge x - rcv_nxt x = word_of_int (ann_ahead x)" for x by (simp add: ann_ahead_def)
  then have "rcv_ann_right_edge x = rcv_nxt x + word_of_int (ann_ahead x)" for x by (metis diff_add_cancel add.commute)
  then have "rcv_ann_right_edge d - rcv_ann_right_edge c = word_of_int (int n + ann_ahead d - ann_ahead c)"
    using assms(1) by (simp add: moved_def)
  moreover have "sint (word_of_int (int n + ann_ahead d - ann_ahead c) :: u32) = int n + ann_ahead d - ann_ahead c"
    using assms wnd_bound [OF assms(2)] by (intro sint_of_int_u32) (auto simp: moved_def window_ok_def)
  ultimately show ?thesis using assms(1) by (simp add: TCP_SEQ_GEQ_def moved_def)
qed

text \<open> C9: Take any two points in the life of a connection between which at most 256 MB arrive in sequence, interleaved in any order with
  reads of the application, output, acknowledgements and whatever else leaves the receive window alone. If the window is in order at the
  first, it is at the second: what is announced is at most the room and that at most the configured window, the next expected byte
  has moved by exactly what arrived, the announced right edge has not moved back and the next announcement will not move it back
  either, and receiving any amount that fits the window fails no assertion.\<close>

theorem receive_window_kept:
  assumes "window_ok (tcp_pcbs w pcb)" "- 0x40000000 \<le> ann_ahead (tcp_pcbs w pcb)" "window_run pcb w n v" "n \<le> 0x10000000"
  shows "rcv_ann_wnd (tcp_pcbs v pcb) \<le> rcv_wnd (tcp_pcbs v pcb) \<and> rcv_wnd (tcp_pcbs v pcb) \<le> TCP_WND \<and>
    rcv_nxt (tcp_pcbs v pcb) = rcv_nxt (tcp_pcbs w pcb) + of_nat n \<and>
    TCP_SEQ_GEQ (rcv_ann_right_edge (tcp_pcbs v pcb)) (rcv_ann_right_edge (tcp_pcbs w pcb)) \<and>
    TCP_SEQ_GEQ (rcv_nxt (tcp_pcbs v pcb) + ucast (rcv_ann_wnd (tcp_pcbs v pcb))) (rcv_ann_right_edge (tcp_pcbs v pcb)) \<and>
    (\<forall>len. len \<le> ucast (rcv_wnd (tcp_pcbs v pcb)) \<longrightarrow> advance_rcv pcb (rcv_nxt (tcp_pcbs v pcb)) len v \<noteq> None)"
proof -
  let ?c = "tcp_pcbs w pcb" and ?d = "tcp_pcbs v pcb"
  have r: "window_ok ?d" "moved ?c n ?d" using window_run_moved assms by blast+
  have a: "- 0x50000000 \<le> ann_ahead ?d" "ann_ahead ?d \<le> uint (rcv_ann_wnd ?d)" using r assms(2,4) by (auto simp: moved_def window_ok_def)
  have c: "ann_ahead ?c \<le> 5840" using assms(1) wnd_bound [OF assms(1)] by (simp add: window_ok_def)
  have "sint (rcv_nxt ?d + ucast (rcv_ann_wnd ?d) - rcv_ann_right_edge ?d) = sint (ucast (rcv_ann_wnd ?d) - (rcv_ann_right_edge ?d - rcv_nxt ?d))"
    by (simp add: algebra_simps)
  also have "\<dots> = uint (rcv_ann_wnd ?d) - ann_ahead ?d"
    unfolding ann_ahead_def using a wnd_bound [OF r(1)] by (intro sint_room) (simp_all add: ann_ahead_def)
  finally have "TCP_SEQ_GEQ (rcv_nxt ?d + ucast (rcv_ann_wnd ?d)) (rcv_ann_right_edge ?d)" using a(2) by (simp add: TCP_SEQ_GEQ_def)
  moreover have "advance_rcv pcb (rcv_nxt ?d) len v \<noteq> None" if "len \<le> ucast (rcv_wnd ?d)" for len
    using advance_window [OF r(1) a(1) that] by auto
  ultimately show ?thesis using r edge_forward [OF r(2,1) assms(2) c assms(4)] by (simp add: window_ok_def moved_def)
qed

text \<open>A new connection receives 1000 bytes and, in the callback, the application takes them: the whole window is open again.\<close>

theorem receive_window_kept_witness:
  "\<exists>v. window_run 7 ((tcp_host [])\<lparr>tcp_input_pcb := Some 7\<rparr>) 1000 v \<and> rcv_wnd (tcp_pcbs v 7) = TCP_WND \<and> rcv_nxt (tcp_pcbs v 7) = 1000 \<and>
     TCP_SEQ_GEQ (1000 + ucast (rcv_ann_wnd (tcp_pcbs v 7))) (rcv_ann_right_edge (tcp_pcbs v 7)) \<and>
     advance_rcv 7 1000 5840 v \<noteq> None"
proof -
  let ?w = "(tcp_host [])\<lparr>tcp_input_pcb := Some 7\<rparr>"
  let ?u = "set_pcb 7 (\<lambda>c. c\<lparr>rcv_nxt := 1000, rcv_wnd := 4840, rcv_ann_wnd := 4840\<rparr>) ?w"
  let ?v = "tcp_ack_now 7 (set_pcb 7 (\<lambda>c. c\<lparr>rcv_wnd := 5840, rcv_ann_wnd := 5840\<rparr>) ?u)"
  have ok: "window_ok (tcp_pcbs ?w 7)" "- 0x40000000 \<le> ann_ahead (tcp_pcbs ?w 7)"
    by (simp_all add: window_ok_def ann_ahead_def fresh_pcb_def)
  have "advance_rcv 7 (rcv_nxt (tcp_pcbs ?w 7)) 1000 ?w = Some ?u"
    by (simp add: advance_rcv_def tcp_update_rcv_ann_wnd_def fresh_pcb_def Let_def TCP_SEQ_GEQ_def TCP_WND_def Tcp_Types.TCP_MSS_def INITIAL_MSS_def min_def set_pcb_def)
  then have 1: "window_run 7 ?w 1000 ?u" using window_run.receive [OF window_run.start] by fastforce
  have "tcp_recved (Some 7) 1000 ?u = Some ?v"
    by (simp add: tcp_recved_def tcp_update_rcv_ann_wnd_def fresh_pcb_def Let_def TCP_SEQ_GEQ_def TCP_WND_def Tcp_Types.TCP_MSS_def INITIAL_MSS_def min_def set_pcb_def
        TCP_WND_MAX_def TCP_WND_UPDATE_THRESHOLD_def tcp_output_def tcp_ack_now_def tcp_set_flags_def)
  then have 2: "window_run 7 ?w 1000 ?v" by (rule window_run.read [OF 1])
  have "rcv_wnd (tcp_pcbs ?v 7) = TCP_WND" "rcv_nxt (tcp_pcbs ?v 7) = 1000"
    by (simp_all add: tcp_ack_now_def TCP_WND_def Tcp_Types.TCP_MSS_def)
  then obtain v where v: "window_run 7 ?w 1000 v" "rcv_wnd (tcp_pcbs v 7) = TCP_WND" "rcv_nxt (tcp_pcbs v 7) = 1000"
    using 2 by blast
  have "5840 \<le> (ucast TCP_WND :: u32)" by (simp add: TCP_WND_def Tcp_Types.TCP_MSS_def)
  then show ?thesis using receive_window_kept [OF ok v(1)] v by auto
qed

end
