(* ===== verification/Tcp_Rtt.thy ===== *)
theory Tcp_Rtt
  imports Tcp_Frame Tcp_Timers
begin

text \<open>
  The estimator of the round trip time: in 16 bits it follows Jacobson's recurrences over the integers, and the timeout
  stays between three and 20475 ticks, however it is backed off at most 32767.
\<close>

definition rtt_ok :: "tcp_pcb \<Rightarrow> bool" where
  "rtt_ok c \<longleftrightarrow> 0 \<le> sint (sa c) \<and> sint (sa c) \<le> 8 * 4095 \<and> 3 \<le> sint (sv c) \<and> sint (sv c) \<le> 4 * 4095"

lemma sint_of_int_u16: "- 0x8000 \<le> i \<Longrightarrow> i < 0x8000 \<Longrightarrow> sint (word_of_int i :: 16 word) = i"
  by (simp add: sint_sbintrunc' signed_take_bit_int_eq_self)

lemma word_of_sint_add: "(a :: 16 word) + word_of_int i = word_of_int (sint a + i)"
  by simp

lemma new_rtt_ok: "rtt_ok (fresh_pcb pr ctr ticks)"
  by (simp add: rtt_ok_def fresh_pcb_def TCP_SLOW_INTERVAL_def)

lemma smoothed_range: "0 \<le> a \<Longrightarrow> a \<le> 8 * 4095 \<Longrightarrow> 0 \<le> m \<Longrightarrow> m \<le> (4095 :: int) \<Longrightarrow> 0 \<le> a + (m - a div 8) \<and> a + (m - a div 8) \<le> 8 * 4095"
  by linarith

lemma deviation_range: "3 \<le> v \<Longrightarrow> v \<le> 4 * 4095 \<Longrightarrow> 0 \<le> m \<Longrightarrow> m \<le> (4095 :: int) \<Longrightarrow> 3 \<le> v + (m - v div 4) \<and> v + (m - v div 4) \<le> 4 * 4095"
  by linarith

lemma estimate_rtt_sint:
  fixes c ticks
  defines "m \<equiv> uint (ticks - rttest c)" and "a \<equiv> sint (sa c)" and "v \<equiv> sint (sv c)" and "d \<equiv> estimate_rtt ticks c"
  assumes "rtt_ok c" "m \<le> 4095"
  shows "sint (sa d) = a + (m - a div 8)" "sint (sv d) = v + (\<bar>m - a div 8\<bar> - v div 4)" "sint (rto d) = sint (sa d) div 8 + sint (sv d)"
    "rtt_ok d" "3 \<le> sint (rto d)" "sint (rto d) \<le> 5 * 4095"
proof -
  define e where "e = m - a div 8"
  have m: "0 \<le> m" by (simp add: m_def)
  have r: "0 \<le> a" "a \<le> 8 * 4095" "3 \<le> v" "v \<le> 4 * 4095" using assms(5) by (simp_all add: rtt_ok_def a_def v_def)
  have e: "\<bar>e\<bar> \<le> 4095" "0 \<le> \<bar>e\<bar>" using r assms(6) m unfolding e_def by linarith+
  have m16: "(ucast (ticks - rttest c) :: 16 word) = word_of_int m" unfolding m_def by (rule ucast_eq)
  have m1: "sint (word_of_int m :: 16 word) = m" using m assms(6) by (intro sint_of_int_u16) simp_all
  have e1: "sint (word_of_int e :: 16 word) = e" using e(1) by (intro sint_of_int_u16) linarith+
  have x: "sint (word_of_int m :: 16 word) - sint (sa c) div 8 = e" by (simp add: m1 e_def a_def)
  have abs: "(if e < 0 then - word_of_int e else word_of_int e :: 16 word) = word_of_int \<bar>e\<bar>" by simp
  have abs1: "sint (word_of_int \<bar>e\<bar> :: 16 word) = \<bar>e\<bar>" using e by (intro sint_of_int_u16) linarith+
  have sa: "0 \<le> a + e" "a + e \<le> 8 * 4095" using smoothed_range [OF r(1,2) m assms(6)] by (simp_all add: e_def)
  have sv: "3 \<le> v + (\<bar>e\<bar> - v div 4)" "v + (\<bar>e\<bar> - v div 4) \<le> 4 * 4095" using deviation_range [OF r(3,4) e(2,1)] by simp_all
  have d: "sa d = word_of_int (a + e)" "sv d = word_of_int (v + (\<bar>e\<bar> - v div 4))"
    "rto d = word_of_int (sint (sa d) div 8 + sint (sv d))"
    unfolding d_def estimate_rtt_def Let_def m16 x e1 abs by (simp_all add: abs1 a_def v_def)
  have 1: "sint (sa d) = a + e" "sint (sv d) = v + (\<bar>e\<bar> - v div 4)" unfolding d using sa sv by (intro sint_of_int_u16; linarith)+
  have rng: "3 \<le> sint (sa d) div 8 + sint (sv d)" "sint (sa d) div 8 + sint (sv d) \<le> 5 * 4095" unfolding 1 using sa sv by linarith+
  have 2: "sint (rto d) = sint (sa d) div 8 + sint (sv d)" unfolding d(3) using rng by (intro sint_of_int_u16; linarith)
  show "sint (sa d) = a + (m - a div 8)" "sint (sv d) = v + (\<bar>m - a div 8\<bar> - v div 4)" using 1 by (simp_all add: e_def)
  show "sint (rto d) = sint (sa d) div 8 + sint (sv d)" "3 \<le> sint (rto d)" "sint (rto d) \<le> 5 * 4095" using 2 rng by simp_all
  show "rtt_ok d" using 1 sa sv by (simp add: rtt_ok_def)
qed

lemma backed_off_range:
  assumes "rtt_ok c"
  shows "sint (backed_off_rto c) = min ((sint (sa c) div 8 + sint (sv c)) * 2 ^ (tcp_backoff ! min (unat (nrtx c)) 12)) 0x7FFF"
    "3 \<le> sint (backed_off_rto c)"
proof -
  let ?r = "sint (sa c) div 8 + sint (sv c)" and ?k = "tcp_backoff ! min (unat (nrtx c)) 12"
  have r: "3 \<le> ?r" using assms by (simp add: rtt_ok_def) linarith
  have "3 \<le> ?r * 2 ^ ?k" by (rule order_trans [OF r]) (use r in \<open>intro mult_le_cancel_left1 [THEN iffD2]\<close>, simp)
  then have m: "3 \<le> min (?r * 2 ^ ?k) 0x7FFF" by simp
  have "length tcp_backoff - 1 = 12" by (simp add: tcp_backoff_def)
  then have "backed_off_rto c = word_of_int (min (?r * 2 ^ ?k) 0x7FFF)" by (simp only: backed_off_rto_def Let_def)
  moreover have "sint (word_of_int (min (?r * 2 ^ ?k) 0x7FFF) :: 16 word) = min (?r * 2 ^ ?k) 0x7FFF"
    using m by (intro sint_of_int_u16) linarith+
  ultimately show "sint (backed_off_rto c) = min (?r * 2 ^ ?k) 0x7FFF" "3 \<le> sint (backed_off_rto c)" using m by simp_all
qed

text \<open> C11: One measurement of a round trip of at most 4095 ticks (34 minutes), taken on a connection whose estimate is in range, computes
  in 16 bits exactly what Jacobson's recurrences give over the integers: no step overflows. The new estimate is in range again, as
  that of a new connection is, the timeout is between 3 and 20475 ticks, and after any number of retransmissions the
  backed-off timeout is the shifted one, capped at 32767, and never below 3 ticks.\<close>

theorem rtt_estimate_exact:
  assumes "rtt_ok c" "uint (ticks - rttest c) \<le> 4095"
  shows "let d = estimate_rtt ticks c; m = uint (ticks - rttest c); a = sint (sa c); v = sint (sv c)
     in sint (sa d) = a + (m - a div 8) \<and> sint (sv d) = v + (\<bar>m - a div 8\<bar> - v div 4) \<and> sint (rto d) = sint (sa d) div 8 + sint (sv d) \<and>
        3 \<le> sint (rto d) \<and> sint (rto d) \<le> 20475 \<and> rtt_ok d \<and> rtt_ok (fresh_pcb pr ctr t) \<and> rttest d = 0 \<and>
        sint (backed_off_rto (d\<lparr>nrtx := n\<rparr>)) = min (sint (rto d) * 2 ^ (tcp_backoff ! min (unat n) 12)) 0x7FFF \<and>
        3 \<le> sint (backed_off_rto (d\<lparr>nrtx := n\<rparr>))"
proof -
  have "rtt_ok ((estimate_rtt ticks c)\<lparr>nrtx := n\<rparr>)" using estimate_rtt_sint(4) [OF assms] by (simp add: rtt_ok_def)
  note b = backed_off_range [OF this]
  let ?d = "estimate_rtt ticks c"
  have z: "rttest ?d = 0" by (simp add: estimate_rtt_def Let_def)
  have u: "sint (rto ?d) \<le> 20475" using estimate_rtt_sint(6) [OF assms] by simp
  have "sint (backed_off_rto (?d\<lparr>nrtx := n\<rparr>)) = min (sint (rto ?d) * 2 ^ (tcp_backoff ! min (unat n) 12)) 0x7FFF"
    unfolding b(1) estimate_rtt_sint(3) [OF assms] by simp
  then show ?thesis unfolding Let_def by (intro conjI estimate_rtt_sint [OF assms] new_rtt_ok z u b(2))
qed

text \<open>A first measurement of four ticks on a new connection.\<close>

theorem rtt_estimate_exact_witness:
  "let d = estimate_rtt 104 ((fresh_pcb 64 0 0)\<lparr>rttest := 100\<rparr>)
   in sint (sa d) = 4 \<and> sint (sv d) = 9 \<and> sint (rto d) = 9 \<and> sint (backed_off_rto (d\<lparr>nrtx := 3\<rparr>)) = 144"
proof -
  let ?c = "(fresh_pcb 64 0 0)\<lparr>rttest := 100\<rparr>"
  have "rtt_ok ?c" using new_rtt_ok [of 64 0 0] by (simp add: rtt_ok_def)
  moreover have "uint (104 - rttest ?c) \<le> 4095" "sint (sa ?c) = 0" "sint (sv ?c) = 6" by (simp_all add: fresh_pcb_def TCP_SLOW_INTERVAL_def)
  ultimately show ?thesis using rtt_estimate_exact [of ?c 104 0 0 0 3] by (simp add: Let_def tcp_backoff_def)
qed

end
