(* ===== verification/Stack_Timers.thy ===== *)
theory Stack_Timers
  imports Timeouts Tcp_Frame
begin

text \<open>
  The timer list running the timers of the stack: \<^verbatim>\<open>tcp_tmr\<close> and \<^verbatim>\<open>etharp_tmr\<close> are the handlers of \<^verbatim>\<open>lwip_cyclic_timers\<close>,
  \<^verbatim>\<open>sys_now\<close> is the clock, and out-of-sequence data is given up when the pool of buffers has run empty.
\<close>

section \<open>Giving up out-of-sequence data\<close>

partial_function (option) free_ooseq_loop :: "nat option \<Rightarrow> 'a tstate_scheme \<Rightarrow> 'a tstate_scheme option" where
  "free_ooseq_loop pcb w =
     (case pcb of
        None \<Rightarrow> Some w
      | Some c \<Rightarrow> if ooseq (tcp_pcbs w c) \<noteq> None then tcp_free_ooseq c w else free_ooseq_loop (pcb_next (tcp_pcbs w c)) w)"

definition pbuf_free_ooseq :: "'a tstate_scheme \<Rightarrow> 'a tstate_scheme option" where
  "pbuf_free_ooseq w = (let w = w\<lparr>ooseq_pending := False\<rparr> in free_ooseq_loop (tcp_active_pcbs w) w)"

definition PBUF_CHECK_FREE_OOSEQ :: "'a tstate_scheme \<Rightarrow> 'a tstate_scheme option" where
  "PBUF_CHECK_FREE_OOSEQ w = (if ooseq_pending w then pbuf_free_ooseq w else Some w)"

section \<open>The environment of the timers\<close>

text \<open>The handlers of \<^verbatim>\<open>lwip_cyclic_timers\<close>, in the order of their intervals.\<close>

definition cyclic_handler :: "'a tstate_scheme tcp_env \<Rightarrow> nat \<Rightarrow> 'a tstate_scheme \<Rightarrow> 'a tstate_scheme option" where
  "cyclic_handler tenv i w = (if i = 0 then tcp_tmr tenv w else etharp_tmr w)"

text \<open>
  The state of the environment is the stack and the number of times the clock has been read; the \<open>i\<close>-th reading happens
  \<open>ticks i\<close> clock cycles after the start. The handlers leave the list of timers alone: only \<^verbatim>\<open>tcp_timer_needed\<close> sets
  a timer outside this module, and it does nothing while the TCP timer is active, which it is when \<^verbatim>\<open>tcp_tmr\<close> runs. The firmware sets
  no other timers.
\<close>

definition stack_env ::
  "'a tstate_scheme tcp_env \<Rightarrow> u32 \<Rightarrow> (nat \<Rightarrow> u32) \<Rightarrow> (nat \<Rightarrow> nat) \<Rightarrow> ('a tstate_scheme \<times> nat) timer_env" where
  "stack_env tenv f timer ticks =
     \<lparr>env_now = (\<lambda>(w, j). (sys_now f (timer (ticks j)), (w, Suc j))),
      env_cyclic = (\<lambda>i ((w, j), ts). map_option (\<lambda>v. ((v, j), ts)) (cyclic_handler tenv i w)),
      env_other = (\<lambda>n arg s. None),
      env_tcp_pcbs = (\<lambda>(w, j). tcp_active_pcbs w \<noteq> None \<or> tcp_tw_pcbs w \<noteq> None),
      env_check_free_ooseq = (\<lambda>((w, j), ts). map_option (\<lambda>v. ((v, j), ts)) (PBUF_CHECK_FREE_OOSEQ w))\<rparr>"

lemma stack_env_sel [simp]:
  "env_now (stack_env tenv f timer ticks) (w, j) = (sys_now f (timer (ticks j)), (w, Suc j))"
  "env_cyclic (stack_env tenv f timer ticks) i ((w, j), ts) = map_option (\<lambda>v. ((v, j), ts)) (cyclic_handler tenv i w)"
  "env_other (stack_env tenv f timer ticks) m a s = None"
  "env_check_free_ooseq (stack_env tenv f timer ticks) ((w, j), ts) = map_option (\<lambda>v. ((v, j), ts)) (PBUF_CHECK_FREE_OOSEQ w)"
  by (simp_all add: stack_env_def)

text \<open>What a call of the timers runs, one after the other.\<close>

datatype stack_call = Tcp_tmr | Etharp_tmr | Check_free_ooseq

fun stack_calls :: "'a tstate_scheme tcp_env \<Rightarrow> stack_call list \<Rightarrow> 'a tstate_scheme \<Rightarrow> 'a tstate_scheme option" where
  "stack_calls tenv [] w = Some w"
| "stack_calls tenv (c # cs) w =
     Option.bind (case c of Tcp_tmr \<Rightarrow> tcp_tmr tenv w | Etharp_tmr \<Rightarrow> etharp_tmr w | Check_free_ooseq \<Rightarrow> PBUF_CHECK_FREE_OOSEQ w)
       (stack_calls tenv cs)"

section \<open>A call of the timers\<close>

text \<open>Within one period of the counter the clock does not fall back, and it moves less than 2^29 ms.\<close>

lemma sys_now_later:
  assumes "counts_down timer" "9000 \<le> f" "k \<le> k'" "k' div 2 ^ 32 = k div 2 ^ 32"
  shows "unat (sys_now f (timer k') - sys_now f (timer k)) < 2 ^ 29"
proof -
  let ?q = "unat f div 1000"
  have q: "9 \<le> ?q" using assms(2) div_le_mono [of 9000 "unat f" 1000] by (simp add: word_le_nat_alt)
  have "k mod 2 ^ 32 \<le> k' mod 2 ^ 32"
    using assms(3,4) by (metis add_le_cancel_left div_mult_mod_eq)
  then have le: "unat (sys_now f (timer k)) \<le> unat (sys_now f (timer k'))"
    unfolding sys_now_ticks [OF assms(1)] by (rule div_le_mono)
  have "(k' mod 2 ^ 32) div ?q \<le> (k' mod 2 ^ 32) div 9" using q by (intro div_le_mono2) simp_all
  also have "\<dots> < 2 ^ 29"
  proof -
    have "k' mod 2 ^ 32 < 9 * 2 ^ 29" by (rule less_trans [of _ "2 ^ 32"]) simp_all
    then show ?thesis by (simp add: less_mult_imp_div_less mult.commute)
  qed
  finally show ?thesis using le unfolding sys_now_ticks [OF assms(1), symmetric] by (simp add: unat_diff_u32)
qed

text \<open>The outcome of the loop: a handler fails, or it ends with no timer left that was due.\<close>

definition checked :: "u32 \<Rightarrow> 'a tstate_scheme option \<Rightarrow> (('a tstate_scheme \<times> nat) \<times> timers) option \<Rightarrow> bool" where
  "checked now calls result \<longleftrightarrow>
     (case calls of
        None \<Rightarrow> result = None
      | Some w \<Rightarrow> \<exists>j ts. result = Some ((w, j), ts) \<and> timers_inv ts \<and> time_window (window_base now) (next_timeout ts) \<and>
          (\<forall>t \<in> set (next_timeout ts). TIME_LESS_THAN now (timeo_time t)))"

text \<open>One round: the handler of the first timer, which is due, is one call of the stack and leaves less to do.\<close>

lemma due_timer_runs:
  fixes tenv :: "'a tstate_scheme tcp_env" and f timer ticks
  defines "env \<equiv> stack_env tenv f timer ticks"
  assumes inv: "timers_inv ts" "time_window (window_base now) (next_timeout ts)" and Cons: "next_timeout ts = t # rest"
    and t30: "toff (window_base now) t \<le> 2 ^ 30" and clk: "unat (sys_now f (timer (ticks j)) - now) < 2 ^ 29"
  shows "\<exists>c. case stack_calls tenv [c] w of
       None \<Rightarrow> call_handler env (timeo_h t) (timeo_arg t) ((w, j), popped t rest ts) = None
     | Some v \<Rightarrow> \<exists>j' ts'. call_handler env (timeo_h t) (timeo_arg t) ((w, j), popped t rest ts) = Some ((v, j'), ts') \<and> j \<le> j' \<and> j' \<le> Suc j \<and>
         timers_inv ts' \<and> time_window (window_base now) (next_timeout ts') \<and> workload now ts' < workload now ts"
    (is "\<exists>c. ?P c")
proof -
  have "(timeo_h t, timeo_arg t) \<in># timer_keys ts" using Cons by (simp add: timer_keys_def)
  then consider (arp) "timeo_h t = Some Lwip_cyclic_timer" "timeo_arg t = 1" | (tcp) "timeo_h t = Some Tcpip_tcp_timer" "timeo_arg t = 0"
    using inv(1) by (auto simp: timers_inv_def split: if_splits)
  then show ?thesis
  proof cases
    case arp
    have "?P Etharp_tmr"
    proof (cases "etharp_tmr w")
      case None
      then show ?thesis using arp by (simp add: call_handler_def lwip_cyclic_timer_def env_def cyclic_handler_def)
    next
      case (Some v)
      then have "env_cyclic env 1 ((w, j), popped t rest ts) = Some ((v, j), popped t rest ts)" "env_now env (v, j) = (sys_now f (timer (ticks j)), (v, Suc j))"
        by (simp_all add: env_def cyclic_handler_def)
      from cyclic_handler_step [OF inv Cons arp t30 this clk] show ?thesis using arp Some by (auto simp: call_handler_def)
    qed
    then show ?thesis by blast
  next
    case tcp
    have "?P Tcp_tmr"
    proof (cases "tcp_tmr tenv w")
      case None
      then show ?thesis using tcp by (simp add: call_handler_def tcpip_tcp_timer_def env_def cyclic_handler_def)
    next
      case (Some v)
      then have "env_cyclic env 0 ((w, j), popped t rest ts) = Some ((v, j), popped t rest ts)" "env_now env (v, j) = (sys_now f (timer (ticks j)), (v, Suc j))"
        by (simp_all add: env_def cyclic_handler_def)
      from tcp_handler_step [OF inv Cons tcp this clk] obtain w' ts2 where
        "tcpip_tcp_timer env ((w, j), popped t rest ts) = Some (w', ts2)" "w' = (v, j) \<or> w' = (v, Suc j)" "timers_inv ts2"
        "time_window (window_base now) (next_timeout ts2)" "workload now ts2 + weight now t \<le> workload now ts" by blast
      moreover have "0 < weight now t" using t30 by (simp add: weight_def)
      ultimately show ?thesis using tcp Some by (auto simp: call_handler_def)
    qed
    then show ?thesis by blast
  qed
qed

lemma check_loop_round:
  assumes "PBUF_CHECK_FREE_OOSEQ w = Some w1"
  shows "check_loop (stack_env tenv f timer ticks) now ((w, j), ts) =
    (case next_timeout ts of
       [] \<Rightarrow> Some ((w1, j), ts)
     | t # rest \<Rightarrow> if TIME_LESS_THAN now (timeo_time t) then Some ((w1, j), ts)
         else Option.bind (call_handler (stack_env tenv f timer ticks) (timeo_h t) (timeo_arg t) ((w1, j), popped t rest ts))
           (check_loop (stack_env tenv f timer ticks) now))"
  using assms by (subst check_loop.simps) (simp add: popped_def split: list.split option.split)

lemma check_loop_calls:
  fixes tenv :: "'a tstate_scheme tcp_env" and f timer ticks
  defines "env \<equiv> stack_env tenv f timer ticks"
  assumes "timers_inv ts" "time_window (window_base now) (next_timeout ts)" "workload now ts + j \<le> m"
    and clock: "\<And>i. j \<le> i \<Longrightarrow> i < m \<Longrightarrow> unat (sys_now f (timer (ticks i)) - now) < 2 ^ 29"
  shows "\<exists>cs. length cs \<le> Suc (2 * workload now ts) \<and> checked now (stack_calls tenv cs w) (check_loop env now ((w, j), ts))"
  using assms(2-5)
proof (induction "workload now ts" arbitrary: w j ts rule: less_induct)
  case less
  show ?case
  proof (cases "PBUF_CHECK_FREE_OOSEQ w")
    case None
    then show ?thesis
      by (intro exI [of _ "[Check_free_ooseq]"]) (simp add: checked_def env_def check_loop.simps)
  next
    case (Some w1)
    note step = check_loop_round [OF Some, of tenv f timer ticks now j ts, folded env_def]
    show ?thesis
    proof (cases "\<forall>t \<in> set (next_timeout ts). TIME_LESS_THAN now (timeo_time t)")
      case True
      then have "check_loop env now ((w, j), ts) = Some ((w1, j), ts)" using step by (auto split: list.splits)
      then show ?thesis using True Some less.prems by (intro exI [of _ "[Check_free_ooseq]"]) (auto simp: checked_def)
    next
      case False
      then obtain t rest where Cons: "next_timeout ts = t # rest" by (cases "next_timeout ts") auto
      have due: "\<not> TIME_LESS_THAN now (timeo_time t)"
        using False less.prems(2) Cons expired_off by (fastforce simp: time_window_def)
      then have t30: "toff (window_base now) t \<le> 2 ^ 30" using less.prems(2) Cons expired_off by (auto simp: time_window_def not_less)
      then have load: "0 < workload now ts" using Cons by (auto simp: workload_def weight_def)
      have clk: "unat (sys_now f (timer (ticks j)) - now) < 2 ^ 29" using load less.prems(3) by (intro less.prems(4)) simp_all
      from due_timer_runs [where f = f and timer = timer and ticks = ticks and j = j and tenv = tenv and w = w1,
          OF less.prems(1,2) Cons t30 clk, folded env_def] obtain c where c:
        "case stack_calls tenv [c] w1 of None \<Rightarrow> call_handler env (timeo_h t) (timeo_arg t) ((w1, j), popped t rest ts) = None
         | Some v \<Rightarrow> \<exists>j' ts'. call_handler env (timeo_h t) (timeo_arg t) ((w1, j), popped t rest ts) = Some ((v, j'), ts') \<and> j \<le> j' \<and> j' \<le> Suc j \<and>
             timers_inv ts' \<and> time_window (window_base now) (next_timeout ts') \<and> workload now ts' < workload now ts" by blast
      show ?thesis
      proof (cases "stack_calls tenv [c] w1")
        case None
        then have "check_loop env now ((w, j), ts) = None" using c step Cons due by auto
        moreover have "stack_calls tenv [Check_free_ooseq, c] w = None" using None Some by simp
        ultimately show ?thesis using load by (intro exI [of _ "[Check_free_ooseq, c]"]) (simp add: checked_def)
      next
        case (Some w2)
        then obtain j2 ts2 where s2: "call_handler env (timeo_h t) (timeo_arg t) ((w1, j), popped t rest ts) = Some ((w2, j2), ts2)" "j \<le> j2" "j2 \<le> Suc j"
          "timers_inv ts2" "time_window (window_base now) (next_timeout ts2)" "workload now ts2 < workload now ts" using c by auto
        have m: "workload now ts2 + j2 \<le> m" using s2(3,6) less.prems(3) by simp
        have "unat (sys_now f (timer (ticks i)) - now) < 2 ^ 29" if "j2 \<le> i" "i < m" for i using that s2(2) by (intro less.prems(4)) simp_all
        from less.hyps [OF s2(6,4,5) m this] obtain cs where cs: "length cs \<le> Suc (2 * workload now ts2)"
          "checked now (stack_calls tenv cs w2) (check_loop env now ((w2, j2), ts2))" by blast
        have "check_loop env now ((w, j), ts) = check_loop env now ((w2, j2), ts2)" using step Cons due s2(1) by simp
        moreover have "stack_calls tenv (Check_free_ooseq # c # cs) w = stack_calls tenv cs w2"
          using \<open>PBUF_CHECK_FREE_OOSEQ w = Some w1\<close> Some by (cases c) (auto simp: bind_eq_Some_conv)
        ultimately show ?thesis using cs s2(6) by (intro exI [of _ "Check_free_ooseq # c # cs"]) simp
      qed
    qed
  qed
qed

section \<open>A stack at rest\<close>

text \<open>No connection is open or in TIME-WAIT, and no address is being resolved: then the handlers always return.\<close>

definition quiet :: "'a tstate_scheme \<Rightarrow> bool" where
  "quiet w \<longleftrightarrow> tcp_active_pcbs w = None \<and> tcp_tw_pcbs w = None \<and> length (arp_table w) = ARP_TABLE_SIZE \<and>
     (\<forall>e \<in> set (arp_table w). arp_q e = None \<and> arp_state e \<noteq> ETHARP_STATE_PENDING)"

lemma quiet_set:
  assumes "quiet w" "i < ARP_TABLE_SIZE" "arp_q (g (arp w i)) = None" "arp_state (g (arp w i)) \<noteq> ETHARP_STATE_PENDING"
  shows "quiet (set_arp i g w)"
  using assms by (auto simp: quiet_def set_arp_def arp_def dest!: set_update_subset_insert [THEN subsetD])

lemma quiet_entry: "quiet w \<Longrightarrow> i < ARP_TABLE_SIZE \<Longrightarrow> arp_q (arp w i) = None \<and> arp_state (arp w i) \<noteq> ETHARP_STATE_PENDING"
  by (simp add: quiet_def arp_def)

lemma quiet_tmr_entry:
  assumes "quiet w" "i < ARP_TABLE_SIZE"
  shows "\<exists>v. tmr_entry i w = Some v \<and> quiet v"
proof -
  let ?w = "set_arp i (\<lambda>e. e\<lparr>arp_ctime := arp_ctime e + 1\<rparr>) w"
  have w: "quiet ?w" using quiet_entry [OF assms] by (intro quiet_set [OF assms]) simp_all
  note e = quiet_entry [OF w assms(2)]
  have s: "quiet (set_arp i (\<lambda>e. e\<lparr>arp_state := st\<rparr>) ?w)" if "st \<noteq> ETHARP_STATE_PENDING" for st
    using e that by (intro quiet_set [OF w assms(2)]) simp_all
  show ?thesis using assms(1) w e s by (auto simp: tmr_entry_def etharp_free_entry_def Let_def)
qed

lemma quiet_tmr_loop: "quiet w \<Longrightarrow> (\<And>i. i \<in> set ix \<Longrightarrow> i < ARP_TABLE_SIZE) \<Longrightarrow> \<exists>v. tmr_loop ix w = Some v \<and> quiet v"
proof (induction ix arbitrary: w)
  case (Cons i ix)
  then obtain u where "tmr_entry i w = Some u" "quiet u" using quiet_tmr_entry by (metis list.set_intros(1))
  then show ?case using Cons by simp
qed simp

lemma quiet_calls: "quiet w \<Longrightarrow> \<exists>v. stack_calls tenv cs w = Some v \<and> quiet v"
proof (induction cs arbitrary: w)
  case (Cons c cs)
  have q: "quiet (w\<lparr>tcp_timer_ctr := a, tcp_timer := b, tcp_ticks := d, tcp_timer_ctr := e\<rparr>)" "quiet (w\<lparr>tcp_timer_ctr := a, tcp_timer := b\<rparr>)"
    "quiet (w\<lparr>ooseq_pending := False\<rparr>)" for a b d e using Cons.prems by (simp_all add: quiet_def)
  have n: "tcp_active_pcbs w = None" "tcp_tw_pcbs w = None" using Cons.prems by (simp_all add: quiet_def)
  have "\<exists>u. (case c of Tcp_tmr \<Rightarrow> tcp_tmr tenv w | Etharp_tmr \<Rightarrow> etharp_tmr w | Check_free_ooseq \<Rightarrow> PBUF_CHECK_FREE_OOSEQ w) = Some u \<and> quiet u"
  proof (cases c)
    case Tcp_tmr
    then show ?thesis using n q
      by (simp add: tcp_tmr_def tcp_fasttmr_def tcp_slowtmr_def Let_def fast_loop.simps slow_loop.simps tw_loop.simps)
  next
    case Etharp_tmr
    then show ?thesis using quiet_tmr_loop [OF Cons.prems, of "[0..<ARP_TABLE_SIZE]"] by (simp add: etharp_tmr_def)
  next
    case Check_free_ooseq
    then show ?thesis using n q Cons.prems by (simp add: PBUF_CHECK_FREE_OOSEQ_def pbuf_free_ooseq_def free_ooseq_loop.simps)
  qed
  then show ?case using Cons.IH by fastforce
qed simp

section \<open>Properties\<close>

text \<open>
  C21: A call of \<^verbatim>\<open>sys_check_timeouts\<close> with the stack's own timers, the clock of \<^verbatim>\<open>sys_now\<close> and a list that holds the ARP timer and,
  when it is active, the TCP timer (the invariant that initialisation establishes) is a run of at most nine calls of
  \<^verbatim>\<open>tcp_tmr\<close>, \<^verbatim>\<open>etharp_tmr\<close> and the check for out-of-sequence data, whatever the state of the stack. It fails only if one of
  these fails. Otherwise it returns, with the stack as they leave it, with the invariant, without having exhausted the
  pool of two timers, and with no timer left that was due when it started. The premise on the clock is that the hardware counter
  does not wrap between the five readings that a call can make.
\<close>

theorem sys_check_timeouts_returns:
  assumes "counts_down timer" "9000 \<le> f" "timers_inv ts"
    "\<forall>i\<le>4. ticks j \<le> ticks (j + i) \<and> ticks (j + i) div 2 ^ 32 = ticks j div 2 ^ 32"
    "time_window (window_base (sys_now f (timer (ticks j)))) (next_timeout ts)"
  shows "\<exists>cs. length cs \<le> 9 \<and>
    (case stack_calls tenv cs w of
       None \<Rightarrow> sys_check_timeouts (stack_env tenv f timer ticks) ((w, j), ts) = None
     | Some w' \<Rightarrow> \<exists>j' ts'. sys_check_timeouts (stack_env tenv f timer ticks) ((w, j), ts) = Some ((w', j'), ts') \<and> timers_inv ts' \<and>
         time_window (window_base (sys_now f (timer (ticks j)))) (next_timeout ts') \<and>
         (\<forall>t \<in> set (next_timeout ts'). TIME_LESS_THAN (sys_now f (timer (ticks j))) (timeo_time t)))"
proof -
  let ?now = "sys_now f (timer (ticks j))"
  have m: "workload ?now ts + Suc j \<le> j + 5" using workload_bound [OF assms(3), of ?now] by simp
  have "unat (sys_now f (timer (ticks i)) - ?now) < 2 ^ 29" if "Suc j \<le> i" "i < j + 5" for i
  proof -
    have "i = j + (i - j)" "i - j \<le> 4" using that by simp_all
    then show ?thesis using sys_now_later [OF assms(1,2), of "ticks j" "ticks i"] assms(4) by metis
  qed
  from check_loop_calls [where f = f and timer = timer and ticks = ticks, OF assms(3,5) m this] obtain cs where "length cs \<le> Suc (2 * workload ?now ts)"
    "checked ?now (stack_calls tenv cs w) (check_loop (stack_env tenv f timer ticks) ?now ((w, Suc j), ts))" by blast
  moreover have eq: "sys_check_timeouts (stack_env tenv f timer ticks) ((w, j), ts) = check_loop (stack_env tenv f timer ticks) ?now ((w, Suc j), ts)"
    by (simp add: sys_check_timeouts_def)
  ultimately show ?thesis using workload_bound [OF assms(3), of ?now] unfolding checked_def eq by (intro exI [of _ cs]) simp
qed

text \<open>For the examples: an application that does nothing, and the start of the TCP and ARP timers.\<close>

definition idle_env :: "'s tcp_env" where
  "idle_env = \<lparr>timer_needed = Some, call_accept = (\<lambda>f a p e s. Some (ERR_OK, s)), call_recv = (\<lambda>f a c p e s. Some (ERR_OK, s)),
     call_sent = (\<lambda>f a c n s. Some (ERR_OK, s)), call_connected = (\<lambda>f a c e s. Some (ERR_OK, s)), call_poll = (\<lambda>f a c s. Some (ERR_OK, s)),
     call_err = (\<lambda>f a e s. Some s)\<rparr>"

lemma tcp_host_quiet: "quiet (tcp_host f)"
proof -
  have "arp_table (tcp_host f) = arp_table (host0 [])" by (simp add: wired_def)
  moreover have "arp_inv (host0 [])" by (rule host0_arp)
  moreover have "\<forall>e \<in> set (arp_table (host0 [])). arp_q e = None \<and> arp_state e \<noteq> ETHARP_STATE_PENDING"
    using arp0_sel(8) by (auto simp: host0_def heard_def arp0_def driver0_def sample_def mstate.defs dstate.defs astate.defs istate.defs arp_initial_def
        layout_simps numeral_eq_Suc)
  ultimately show ?thesis by (simp add: quiet_def arp_inv_def arp_ok_def)
qed

text \<open>One second after the start at 50 MHz both timers are overdue.\<close>

definition both_due :: timers where
  "both_due = \<lparr>next_timeout = [\<lparr>timeo_time = 900, timeo_h = Some Lwip_cyclic_timer, timeo_arg = 1\<rparr>,
     \<lparr>timeo_time = 950, timeo_h = Some Tcpip_tcp_timer, timeo_arg = 0\<rparr>], timeo_free = 0, current_timeout_due_time = 0,
     tcpip_tcp_timer_active = True\<rparr>"

theorem sys_check_timeouts_returns_witness:
  "\<exists>w' j' ts'. sys_check_timeouts (stack_env idle_env 50000000 (\<lambda>k. 0xffffffff - of_nat k) (\<lambda>i. 50000000 + 7 * i)) ((tcp_host [], 0), both_due) =
      Some ((w', j'), ts') \<and> quiet w' \<and> timers_inv ts' \<and> list_all (\<lambda>t. TIME_LESS_THAN 1000 (timeo_time t)) (next_timeout ts')"
proof -
  let ?timer = "\<lambda>k. 0xffffffff - of_nat k :: u32" and ?ticks = "\<lambda>i. 50000000 + 7 * i :: nat"
  have now: "sys_now 50000000 (?timer (?ticks 0)) = 1000" by (simp add: sys_now_def)
  have h: "timers_inv both_due" "time_window (window_base (sys_now 50000000 (?timer (?ticks 0)))) (next_timeout both_due)" "9000 \<le> (50000000 :: u32)"
    unfolding now by (simp_all add: both_due_def timers_inv_def timer_keys_def MEMP_NUM_SYS_TIMEOUT_def time_window_def off_def window_base_def)
  have c: "\<forall>i\<le>4. ?ticks 0 \<le> ?ticks (0 + i) \<and> ?ticks (0 + i) div 2 ^ 32 = ?ticks 0 div 2 ^ 32" by simp
  from sys_check_timeouts_returns [where ticks = ?ticks and j = 0, OF counts_down_example h(3,1) c h(2), of idle_env "tcp_host []"] obtain cs where
    cs: "case stack_calls idle_env cs (tcp_host []) of None \<Rightarrow> sys_check_timeouts (stack_env idle_env 50000000 ?timer ?ticks) ((tcp_host [], 0), both_due) = None
     | Some w' \<Rightarrow> \<exists>j' ts'. sys_check_timeouts (stack_env idle_env 50000000 ?timer ?ticks) ((tcp_host [], 0), both_due) = Some ((w', j'), ts') \<and> timers_inv ts' \<and>
         time_window (window_base 1000) (next_timeout ts') \<and> (\<forall>t \<in> set (next_timeout ts'). TIME_LESS_THAN 1000 (timeo_time t))"
    unfolding now by blast
  obtain w' where "stack_calls idle_env cs (tcp_host []) = Some w'" "quiet w'" using quiet_calls [OF tcp_host_quiet] by blast
  then show ?thesis using cs by (auto simp: list_all_iff)
qed

section \<open>The timers and the wrap of the clock\<close>

text \<open>
  What happens to the timers in the main loop: calls of \<^verbatim>\<open>sys_check_timeouts\<close>, the start of the TCP timer, any other timer that is
  set, and anything that the stack does besides.
\<close>

inductive timers_run :: "'w timer_env \<Rightarrow> 'w \<times> timers \<Rightarrow> 'w \<times> timers \<Rightarrow> bool" for env :: "'w timer_env" and s :: "'w \<times> timers" where
  start: "timers_run env s s"
| check: "timers_run env s u \<Longrightarrow> sys_check_timeouts env u = Some v \<Longrightarrow> timers_run env s v"
| needed: "timers_run env s u \<Longrightarrow> tcp_timer_needed env u = Some v \<Longrightarrow> timers_run env s v"
| set: "timers_run env s (w, ts) \<Longrightarrow> sys_timeout now msecs h arg ts = Some ts' \<Longrightarrow> timers_run env s (w, ts')"
| other: "timers_run env s (w, ts) \<Longrightarrow> timers_run env s (w', ts)"

lemma set_link_behind: "set (link_behind x t l) = insert x (insert t (set l))"
  by (induction l arbitrary: t) auto

lemma set_link_timeout: "set (link_timeout x l) = insert x (set l)"
  by (cases l) (auto simp: set_link_behind)

lemma sys_timeout_keeps:
  "sys_timeout_abs time h arg ts = Some ts' \<Longrightarrow> set (next_timeout ts) \<subseteq> set (next_timeout ts')"
  "sys_timeout now msecs h arg ts = Some ts' \<Longrightarrow> set (next_timeout ts) \<subseteq> set (next_timeout ts')"
  by (auto simp: sys_timeout_abs_def sys_timeout_def set_link_timeout split: if_splits)

lemma handler_keeps:
  assumes "call_handler (stack_env tenv f timer ticks) h arg s = Some s'"
  shows "set (next_timeout (snd s)) \<subseteq> set (next_timeout (snd s'))"
proof -
  obtain w j ts where s: "s = ((w, j), ts)" by (metis prod.exhaust)
  show ?thesis
    using assms unfolding s
    by (auto simp: call_handler_def tcpip_tcp_timer_def lwip_cyclic_timer_def Let_def
        split: option.splits timeout_handler.splits if_splits dest!: sys_timeout_keeps)
qed

lemma check_loop_keeps:
  "check_loop env now s = Some s' \<Longrightarrow> env = stack_env tenv f timer ticks \<longrightarrow> t \<in> set (next_timeout (snd s)) \<longrightarrow>
     TIME_LESS_THAN now (timeo_time t) \<longrightarrow> t \<in> set (next_timeout (snd s'))"
proof (erule check_loop.raw_induct [rotated], intro impI, goal_cases)
  case (1 loop env now s s')
  obtain w j ts where s: "s = ((w, j), ts)" by (metis prod.exhaust)
  obtain w1 where w1: "PBUF_CHECK_FREE_OOSEQ w = Some w1" using 1(2,3) by (auto simp: s split: option.splits)
  show ?case
  proof (cases "next_timeout ts")
    case Nil
    then show ?thesis using 1 by (simp add: s)
  next
    case (Cons u rest)
    show ?thesis
    proof (cases "TIME_LESS_THAN now (timeo_time u)")
      case True
      then show ?thesis using 1 w1 Cons by (auto simp: s)
    next
      case False
      then obtain v where v: "call_handler env (timeo_h u) (timeo_arg u) ((w1, j), popped u rest ts) = Some v" "loop env now v = Some s'"
        using 1(2,3) w1 Cons by (auto simp: s popped_def split: option.splits)
      have "t \<in> set rest" using 1(4,5) False Cons by (auto simp: s)
      then have "t \<in> set (next_timeout (snd v))" using handler_keeps [OF v(1) [unfolded 1(3)]] by auto
      then show ?thesis using 1(1) [OF v(2)] 1(3,5) by blast
    qed
  qed
qed

text \<open>No reading of the clock reaches a timer that is due after 85899 ms.\<close>

lemma never_due:
  assumes "counts_down timer" "85899 < unat due" "unat due < 2 ^ 31"
  shows "TIME_LESS_THAN (sys_now 50000000 (timer k)) due" "\<not> TIME_LESS_THAN due (sys_now 50000000 (timer k))"
proof -
  have "(k mod 2 ^ 32) div 50000 \<le> (2 ^ 32 - 1) div 50000" by (intro div_le_mono) (simp add: less_Suc_eq_le [symmetric])
  then have "unat (sys_now 50000000 (timer k)) \<le> 85899" using sys_now_ticks [OF assms(1), of 50000000 k] by simp
  then show "TIME_LESS_THAN (sys_now 50000000 (timer k)) due" "\<not> TIME_LESS_THAN due (sys_now 50000000 (timer k))"
    using time_less_off [of 0 "sys_now 50000000 (timer k)" due] time_less_off [of 0 due "sys_now 50000000 (timer k)"] assms(2,3)
    by (simp_all add: off_def)
qed

lemma run_keeps:
  assumes "timers_run (stack_env tenv 50000000 timer ticks) s s'" "counts_down timer" "t \<in> set (next_timeout (snd s))"
    "85899 < unat (timeo_time t)" "unat (timeo_time t) < 2 ^ 31"
  shows "t \<in> set (next_timeout (snd s'))"
  using assms(1)
proof induction
  case (check u v)
  obtain w j ts where u: "u = ((w, j), ts)" by (metis prod.exhaust)
  from check(2) have "check_loop (stack_env tenv 50000000 timer ticks) (sys_now 50000000 (timer (ticks j))) ((w, Suc j), ts) = Some v"
    by (simp add: u sys_check_timeouts_def)
  from check_loop_keeps [OF this] never_due(1) [OF assms(2,4,5)] show ?case using check(3) by (simp add: u)
next
  case (needed u v)
  obtain w j ts where u: "u = ((w, j), ts)" by (metis prod.exhaust)
  from needed(2,3) show ?case
    by (auto simp: u tcp_timer_needed_def Let_def split: if_splits option.splits dest!: sys_timeout_keeps(2))
qed (use assms(3) in \<open>auto dest!: sys_timeout_keeps(2)\<close>)

text \<open>
  C23: The ARP timer stops when the clock wraps. At 50 MHz, once \<^verbatim>\<open>etharp_tmr\<close> has been run for a time in the last second before the
  wrap (85 s after the start and after every wrap), the timer is set for a time that \<^verbatim>\<open>sys_now\<close> never shows. In
  everything that the main loop does from then on, in any order and for any length of time (checking the timers, starting the TCP timer,
  setting others), that entry stays in the list and is not due at any reading of the clock, so that it is never run
  or set again.
\<close>

theorem arp_timer_stops:
  assumes "counts_down timer" "lwip_cyclic_timer (stack_env tenv 50000000 timer ticks) 1 (s, ts) = Some s1"
    "84899 < unat (current_timeout_due_time ts)" "unat (current_timeout_due_time ts) \<le> 85899"
    "timers_run (stack_env tenv 50000000 timer ticks) s1 s2"
  shows "\<exists>t \<in> set (next_timeout (snd s2)). timeo_h t = Some Lwip_cyclic_timer \<and> timeo_arg t = 1 \<and>
    timeo_time t = current_timeout_due_time ts + 1000 \<and> (\<forall>i. TIME_LESS_THAN (sys_now 50000000 (timer (ticks i))) (timeo_time t))"
proof -
  let ?d = "current_timeout_due_time ts"
  let ?t = "\<lparr>timeo_time = ?d + 1000, timeo_h = Some Lwip_cyclic_timer, timeo_arg = 1\<rparr>"
  obtain w j where s: "s = (w, j)" by (metis prod.exhaust)
  have d: "unat (?d + 1000) = unat ?d + 1000" using assms(4) by (simp add: unat_word_ariths)
  have late: "TIME_LESS_THAN (sys_now 50000000 (timer k)) (?d + 1000)" "\<not> TIME_LESS_THAN (?d + 1000) (sys_now 50000000 (timer k))" for k
    using assms(1,3,4) d by (intro never_due; simp)+
  have "?t \<in> set (next_timeout (snd s1))"
    using assms(2) late(2) [of "ticks j"]
    by (auto simp: s lwip_cyclic_timer_def lwip_cyclic_timers_def ARP_TMR_INTERVAL_def sys_timeout_abs_def set_link_timeout Let_def
        split: option.splits if_splits)
  from run_keeps [OF assms(5,1) this] have "?t \<in> set (next_timeout (snd s2))" using assms(3,4) d by simp
  then show ?thesis using late(1) by force
qed

text \<open>
  The ARP timer runs for 85000 ms after the start; 85 s after each of the next two wraps the timers are checked again.
\<close>

theorem arp_timer_stops_witness:
  "\<exists>s1 s2 s3. lwip_cyclic_timer (stack_env idle_env 50000000 (\<lambda>k. 0xffffffff - of_nat k) (\<lambda>i. 4250000000 + i * 4294967296)) 1
       ((tcp_host [], 0), timers_reset\<lparr>current_timeout_due_time := 85000\<rparr>) = Some s1 \<and>
     sys_check_timeouts (stack_env idle_env 50000000 (\<lambda>k. 0xffffffff - of_nat k) (\<lambda>i. 4250000000 + i * 4294967296)) s1 = Some s2 \<and>
     sys_check_timeouts (stack_env idle_env 50000000 (\<lambda>k. 0xffffffff - of_nat k) (\<lambda>i. 4250000000 + i * 4294967296)) s2 = Some s3 \<and>
     (\<exists>t \<in> set (next_timeout (snd s3)). timeo_h t = Some Lwip_cyclic_timer \<and> timeo_time t = 86000)"
proof -
  let ?timer = "\<lambda>k. 0xffffffff - of_nat k :: u32" and ?ticks = "\<lambda>i. 4250000000 + i * 4294967296 :: nat"
  let ?env = "stack_env idle_env 50000000 ?timer ?ticks" and ?ts = "timers_reset\<lparr>current_timeout_due_time := 85000\<rparr>"
  let ?t = "\<lparr>timeo_time = 86000, timeo_h = Some Lwip_cyclic_timer, timeo_arg = 1\<rparr>"
  let ?ts1 = "?ts\<lparr>timeo_free := 1, next_timeout := [?t]\<rparr>"
  have now: "sys_now 50000000 (?timer (?ticks i)) = 85000" for i
    using sys_now_ticks [OF counts_down_example, of 50000000 "?ticks i"] by (simp add: word_unat_eq_iff)
  obtain v where v: "etharp_tmr (tcp_host []) = Some v" "quiet v"
    using quiet_tmr_loop [OF tcp_host_quiet, of "[0..<ARP_TABLE_SIZE]"] by (auto simp: etharp_tmr_def)
  then have 1: "lwip_cyclic_timer ?env 1 ((tcp_host [], 0), ?ts) = Some ((v, 1), ?ts1)"
    using now [of 0] by (simp add: lwip_cyclic_timer_def cyclic_handler_def lwip_cyclic_timers_def ARP_TMR_INTERVAL_def Let_def
        TIME_LESS_THAN_def LWIP_MAX_TIMEOUT_def sys_timeout_abs_def timers_reset_def MEMP_NUM_SYS_TIMEOUT_def)
  have check: "\<exists>u'. sys_check_timeouts ?env ((u, j), ?ts1) = Some ((u', Suc j), ?ts1) \<and> quiet u'" if q: "quiet u" for u j
  proof -
    obtain u' where "PBUF_CHECK_FREE_OOSEQ u = Some u'" "quiet u'" using quiet_calls [OF q, of idle_env "[Check_free_ooseq]"] by (auto simp: bind_eq_Some_conv)
    then show ?thesis using now [of j]
      by (simp add: sys_check_timeouts_def check_loop_round TIME_LESS_THAN_def LWIP_MAX_TIMEOUT_def)
  qed
  obtain u where u: "sys_check_timeouts ?env ((v, 1), ?ts1) = Some ((u, 2), ?ts1)" "quiet u" using check [OF v(2), of 1] by (auto simp: numeral_2_eq_2)
  obtain x where x: "sys_check_timeouts ?env ((u, 2), ?ts1) = Some ((x, Suc 2), ?ts1)" using check [OF u(2), of 2] by blast
  have "timers_run ?env ((v, 1), ?ts1) ((x, Suc 2), ?ts1)"
    by (rule timers_run.check [OF timers_run.check [OF timers_run.start u(1)] x])
  from arp_timer_stops [OF counts_down_example 1 _ _ this]
  have "\<exists>t \<in> set (next_timeout ?ts1). timeo_h t = Some Lwip_cyclic_timer \<and> timeo_time t = 86000" by simp
  then show ?thesis using 1 u(1) x by fastforce
qed

end
