(* ===== verification/Sat_Tcp.thy ===== *)
theory Sat_Tcp
  imports Sat_Hardware Sat_Host Register_File Lwip_Types
begin

text \<open>
  The SAT server of the firmware, \<^verbatim>\<open>firmware-tcp/sat_tcp.c\<close>: its receive callback
  \<^verbatim>\<open>sat_recv\<close> drives the accelerator through its registers and answers on the
  connection. The last section proves the service end to end: the host's encoding, the
  callback, the hardware search and the host's decoding together decide satisfiability.
\<close>

section \<open>Register offsets and state\<close>

definition SAT_CTRL :: nat where [layout_simps]: "SAT_CTRL = 0"
definition SAT_NVARS :: nat where [layout_simps]: "SAT_NVARS = 1"
definition SAT_NCLAUSES :: nat where [layout_simps]: "SAT_NCLAUSES = 2"
definition SAT_MODEL :: nat where [layout_simps]: "SAT_MODEL = 3"
definition SAT_LIT_BASE :: nat where [layout_simps]: "SAT_LIT_BASE = 8"

text \<open>The accelerator behind its bus and the four debug LEDs (a 4-bit CSR).\<close>

record sat_app =
  bus :: sat_bus
  leds :: "4 word"

section \<open>The receive callback\<close>

definition BUF_SIZE :: nat where [layout_simps]: "BUF_SIZE = 512"

text \<open>The loop that copies the pbuf chain into \<^verbatim>\<open>buf\<close>, until the chain or the buffer ends.\<close>

fun flatten_chain :: "chain \<Rightarrow> bytes \<Rightarrow> bytes" where
  "flatten_chain [] buf = buf"
| "flatten_chain (q # qs) buf =
     (let copy = (if length buf + length q > BUF_SIZE then BUF_SIZE - length buf else length q);
          buf' = buf @ take copy q
      in if length buf' \<ge> BUF_SIZE then buf' else flatten_chain qs buf')"

definition clear_literals :: "sat_bus \<Rightarrow> sat_bus" where
  "clear_literals =
     fold (\<lambda>i. sat_reg_write (SAT_LIT_BASE + i) 0) [0..<MAX_CLAUSES * CLAUSE_LEN]"

definition literal_word :: "byte \<Rightarrow> u32" where
  "literal_word b =
     (let var = (b AND 0x7F) - 1; neg = drop_bit 7 b AND 1
      in push_bit 5 1 OR push_bit 4 (ucast neg) OR ucast var)"

text \<open>
  The parsing loop, over the bytes that follow the header.
\<close>

fun load_literals :: "nat \<Rightarrow> bytes \<Rightarrow> nat \<Rightarrow> nat \<Rightarrow> sat_bus \<Rightarrow> sat_bus" where
  "load_literals nc [] clause lit b = b"
| "load_literals nc (x # xs) clause lit b =
     (if \<not> clause < nc then b
      else if x = PROTO_END then b
      else if x = PROTO_TERM then load_literals nc xs (clause + 1) 0 b
      else if lit < CLAUSE_LEN then
        load_literals nc xs clause (lit + 1)
          (sat_reg_write (SAT_LIT_BASE + clause * CLAUSE_LEN + lit) (literal_word x) b)
      else load_literals nc xs clause lit b)"

text \<open>
  The loop that waits for the done bit; a search that never ends would make it \<open>None\<close>.
\<close>

partial_function (option) poll_done :: "sat_bus \<Rightarrow> sat_bus option" where
  "poll_done b =
     (case sat_reg_read SAT_CTRL b of
        (v, b') \<Rightarrow> if v AND 1 = 0 then poll_done b' else Some b')"

definition assignment_byte :: "u32 \<Rightarrow> nat \<Rightarrow> byte" where
  "assignment_byte model i =
     (let val = ucast (drop_bit i model AND 1) :: byte
      in push_bit 7 val OR (of_nat (i + 1) AND 0x7F))"

definition build_response :: "bool \<Rightarrow> u32 \<Rightarrow> nat \<Rightarrow> bytes" where
  "build_response is_sat model n =
     (if is_sat then [RESP_SAT] @ map (assignment_byte model) [0..<n] @ [PROTO_END]
      else [RESP_UNSAT, PROTO_END])"

text \<open>
  Loading the dimensions, the search, and the reply (from the first register write to the
  response bytes).
\<close>

definition solve_request :: "nat \<Rightarrow> nat \<Rightarrow> bytes \<Rightarrow> sat_bus \<Rightarrow> (bytes \<times> sat_bus) option" where
  "solve_request nv nc body b =
     (let b1 = load_literals nc body 0 0 (clear_literals b);
          b2 = sat_reg_write SAT_NVARS (of_nat nv) b1;
          b3 = sat_reg_write SAT_NCLAUSES (of_nat nc) b2;
          b4 = sat_reg_write SAT_CTRL 1 b3
      in case poll_done b4 of
           None \<Rightarrow> None
         | Some b5 \<Rightarrow>
             (case sat_reg_read SAT_CTRL b5 of
                (ctrl, b6) \<Rightarrow>
                  (case sat_reg_read SAT_MODEL b6 of
                     (model, b7) \<Rightarrow>
                       Some (build_response (drop_bit 1 ctrl AND 1 \<noteq> 0) model nv, b7))))"

definition header_ok :: "bytes \<Rightarrow> bool" where
  "header_ok buf \<longleftrightarrow> \<not> (length buf < 4 \<or> buf ! 0 \<noteq> PROTO_START) \<and>
     \<not> (unat (buf ! 1) = 0 \<or> unat (buf ! 1) > MAX_VARS \<or>
        unat (buf ! 2) = 0 \<or> unat (buf ! 2) > MAX_CLAUSES)"

definition sat_recv ::
  "sat_app \<Rightarrow> chain option \<Rightarrow> err_t \<Rightarrow> (err_t \<times> lwip_call list \<times> sat_app) option" where
  "sat_recv st p err =
     (case p of
        None \<Rightarrow> Some (ERR_OK, [Tcp_close], st)
      | Some ch \<Rightarrow>
          if err \<noteq> ERR_OK then Some (ERR_OK, [Tcp_close, Pbuf_free], st)
          else
            (let st1 = st\<lparr>leds := leds st OR 0x04\<rparr>;
                 buf = flatten_chain ch [];
                 calls = [Tcp_recved (tot_len ch), Pbuf_free]
             in if \<not> header_ok buf then Some (ERR_OK, calls, st1)
                else
                  (case solve_request (unat (buf ! 1)) (unat (buf ! 2)) (drop 3 buf) (bus st1) of
                     None \<Rightarrow> None
                   | Some (resp, b) \<Rightarrow>
                       Some (ERR_OK, calls @ [Tcp_write resp, Tcp_output],
                             st1\<lparr>bus := b, leds := leds st1 OR 0x08\<rparr>))))"

text \<open>
  The accept callback refuses a failed accept and otherwise registers \<^verbatim>\<open>sat_recv\<close> for the
  new connection (the flag of the result).
\<close>

definition sat_accept :: "bool \<Rightarrow> err_t \<Rightarrow> err_t \<times> bool" where
  "sat_accept have_pcb err =
     (if err \<noteq> ERR_OK \<or> \<not> have_pcb then (ERR_VAL, False) else (ERR_OK, True))"

section \<open>Loading a formula into the registers\<close>

text \<open>
  The literal registers provide \<open>register_file\<close>; a register is named by its clause and its
  slot. \<open>plain_bytes\<close> are literal bytes: neither a terminator nor the end marker.
\<close>

definition plain_bytes :: "bytes \<Rightarrow> bool" where
  "plain_bytes = list_all (\<lambda>x. x \<noteq> PROTO_END \<and> x \<noteq> PROTO_TERM)"

abbreviation slot_reg :: "sat_bus \<Rightarrow> nat \<Rightarrow> nat \<Rightarrow> 6 word" where
  "slot_reg b c k \<equiv> lit_regs (slave b) ! (c * CLAUSE_LEN + k)"

text \<open>The verdict the hardware must reach, in terms of its inputs.\<close>

definition verdict :: "sat_in \<Rightarrow> nat \<Rightarrow> bytes \<Rightarrow> bool" where
  "verdict i n resp \<longleftrightarrow>
     (\<exists>m. unat m < 2 ^ n \<and> all_sat i m \<and> resp = build_response True (ucast m) n) \<or>
     ((\<forall>k < 2 ^ n. \<not> all_sat i (of_nat k)) \<and> resp = [RESP_UNSAT, PROTO_END])"

lemma sat_reg_write_ready [hw_simps]:
  assumes "slave_ready (slave b)" "off \<noteq> 0" "off < 512"
  shows "slave (sat_reg_write off d b) = reg_write (of_nat off) d (slave b)"
    "slave_ready (slave (sat_reg_write off d b))"
proof -
  have "unat (of_nat off :: 9 word) = off"
    using assms(3) by (intro unat_of_nat_small) simp
  then have "(of_nat off :: 9 word) \<noteq> 0" using assms(2) by force
  then show "slave (sat_reg_write off d b) = reg_write (of_nat off) d (slave b)"
    using assms by (simp add: sat_reg_write_def hw_simps)
  then show "slave_ready (slave (sat_reg_write off d b))"
    using assms \<open>of_nat off \<noteq> 0\<close> by (simp add: reg_write_ready)
qed

lemma literal_write:
  assumes "slave_ready (slave b)" "i < LIT_COUNT"
  shows "lit_regs (slave (sat_reg_write (SAT_LIT_BASE + i) d b)) = (lit_regs (slave b))[i := ucast d]"
proof -
  have u: "unat (of_nat (SAT_LIT_BASE + i) :: 9 word) = SAT_LIT_BASE + i"
    using assms(2) by (intro unat_of_nat_small) (simp add: layout_simps)
  have "(of_nat (SAT_LIT_BASE + i) :: 9 word) \<noteq> 0" "(of_nat (SAT_LIT_BASE + i) :: 9 word) \<noteq> 1"
     "(of_nat (SAT_LIT_BASE + i) :: 9 word) \<noteq> 2"
    using u by (auto simp: layout_simps word_unat_eq_iff)
  then have "lit_regs (reg_write (of_nat (SAT_LIT_BASE + i)) d (slave b)) = (lit_regs (slave b))[i := ucast d]"
    using assms u by (simp add: reg_write_def) (simp add: layout_simps)
  then show ?thesis using assms by (simp add: hw_simps layout_simps)
qed

interpretation lits: register_file
  "\<lambda>b. slave_ready (slave b)" "\<lambda>i. sat_reg_write (SAT_LIT_BASE + i)"
  "\<lambda>b i. lit_regs (slave b) ! i" "ucast :: u32 \<Rightarrow> 6 word" LIT_COUNT
proof (unfold_locales, goal_cases)
  case (1 b off d)
  then show ?case by (intro sat_reg_write_ready(2)) (simp_all add: layout_simps)
next
  case (2 b off d)
  then show ?case
    by (auto simp: fun_eq_iff literal_write slave_ready_def)
qed

lemma clear_literals_view:
  assumes "slave_ready (slave b)"
  shows "slave_ready (slave (clear_literals b))"
    "i < LIT_COUNT \<Longrightarrow> lit_regs (slave (clear_literals b)) ! i = 0"
  using lits.fill_ready [of b "MAX_CLAUSES * CLAUSE_LEN" "\<lambda>_. 0"]
    lits.fill_view [of b "MAX_CLAUSES * CLAUSE_LEN" "\<lambda>_. 0"] assms
  by (auto simp: clear_literals_def LIT_COUNT_def fun_eq_iff)

lemma slot_inj: "k < CLAUSE_LEN \<Longrightarrow> k' < CLAUSE_LEN \<Longrightarrow>
    c * CLAUSE_LEN + k = c' * CLAUSE_LEN + k' \<longleftrightarrow> c = c' \<and> k = k'"
proof -
  have "(c * 10 + k) div 10 = c \<and> (c * 10 + k) mod 10 = k" if "k < 10" for c k :: nat
    using that by simp
  from this [of k c] this [of k' c']
  show "k < CLAUSE_LEN \<Longrightarrow> k' < CLAUSE_LEN \<Longrightarrow>
    c * CLAUSE_LEN + k = c' * CLAUSE_LEN + k' \<longleftrightarrow> c = c' \<and> k = k'"
    unfolding CLAUSE_LEN_def by metis
qed

lemma slot_bound: "c < MAX_CLAUSES \<Longrightarrow> k < CLAUSE_LEN \<Longrightarrow> c * CLAUSE_LEN + k < LIT_COUNT"
  by (simp add: layout_simps)

lemma slot_write:
  assumes "slave_ready (slave b)" "c < MAX_CLAUSES" "l < CLAUSE_LEN"
  shows "slave_ready (slave (sat_reg_write (SAT_LIT_BASE + c * CLAUSE_LEN + l) d b))"
    "k < CLAUSE_LEN \<Longrightarrow> slot_reg (sat_reg_write (SAT_LIT_BASE + c * CLAUSE_LEN + l) d b) c' k =
       (if c' = c \<and> k = l then ucast d else slot_reg b c' k)"
  using lits.store_ready [OF assms(1) slot_bound [OF assms(2,3)]]
    lits.store_view [OF assms(1) slot_bound [OF assms(2,3)]] assms slot_inj [of k l c' c]
  by (auto simp: fun_eq_iff add.assoc)

lemma load_clause:
  assumes "slave_ready (slave b)" "c < nc" "nc \<le> MAX_CLAUSES" "l + length cl \<le> CLAUSE_LEN" "plain_bytes cl"
  shows "\<exists>b'. load_literals nc (cl @ PROTO_TERM # rest) c l b = load_literals nc rest (c + 1) 0 b' \<and>
     slave_ready (slave b') \<and>
     (\<forall>c' k. k < CLAUSE_LEN \<longrightarrow> slot_reg b' c' k =
        (if c' = c \<and> l \<le> k \<and> k < l + length cl
         then ucast (literal_word (cl ! (k - l))) else slot_reg b c' k))"
  using assms
proof (induction cl arbitrary: l b)
  case Nil
  have "(PROTO_TERM = PROTO_END) = False" by (simp add: layout_simps)
  with Nil show ?case by (intro exI [of _ b]) auto
next
  case (Cons x cl)
  let ?b = "sat_reg_write (SAT_LIT_BASE + c * CLAUSE_LEN + l) (literal_word x) b"
  have lt: "c < MAX_CLAUSES" "l < CLAUSE_LEN" using Cons.prems by auto
  note w = slot_write [OF Cons.prems(1) lt, where d = "literal_word x"]
  from Cons.IH [OF w(1), of "l + 1"] Cons.prems obtain b' where
    b': "load_literals nc (cl @ PROTO_TERM # rest) c (l + 1) ?b = load_literals nc rest (c + 1) 0 b'"
    "slave_ready (slave b')"
    "\<And>c' k. k < CLAUSE_LEN \<Longrightarrow> slot_reg b' c' k =
        (if c' = c \<and> l + 1 \<le> k \<and> k < l + 1 + length cl
         then ucast (literal_word (cl ! (k - (l + 1)))) else slot_reg ?b c' k)"
    by (auto simp: plain_bytes_def)
  have "load_literals nc ((x # cl) @ PROTO_TERM # rest) c l b = load_literals nc rest (c + 1) 0 b'"
    using Cons.prems b'(1) lt by (simp add: plain_bytes_def)
  moreover have "slot_reg b' c' k =
      (if c' = c \<and> l \<le> k \<and> k < l + length (x # cl)
       then ucast (literal_word ((x # cl) ! (k - l))) else slot_reg b c' k)" if "k < CLAUSE_LEN" for c' k
    using that by (auto simp: b'(3) w(2) nth_Cons')
  ultimately show ?case using b'(2) by blast
qed

lemma load_clauses:
  fixes f :: "bytes list"
  defines "body \<equiv> \<lambda>f. concat (map (\<lambda>cl. cl @ [PROTO_TERM]) f) @ [PROTO_END]"
  assumes "slave_ready (slave b)" "c + length f = nc" "nc \<le> MAX_CLAUSES"
    "list_all (\<lambda>cl. plain_bytes cl \<and> length cl \<le> CLAUSE_LEN) f"
  shows "slave_ready (slave (load_literals nc (body f) c 0 b)) \<and>
    (\<forall>c' k. k < CLAUSE_LEN \<longrightarrow> slot_reg (load_literals nc (body f) c 0 b) c' k =
       (if c \<le> c' \<and> c' < nc \<and> k < length (f ! (c' - c))
        then ucast (literal_word (f ! (c' - c) ! k)) else slot_reg b c' k))"
  using assms(2-5)
proof (induction f arbitrary: c b)
  case Nil
  then show ?case by (auto simp: body_def)
next
  case (Cons cl f)
  from load_clause [of b c nc 0 cl "body f"] Cons.prems
  obtain b' where
    b': "load_literals nc (body (cl # f)) c 0 b = load_literals nc (body f) (Suc c) 0 b'"
    "slave_ready (slave b')"
    "\<And>c' k. k < CLAUSE_LEN \<Longrightarrow> slot_reg b' c' k =
        (if c' = c \<and> k < length cl then ucast (literal_word (cl ! k)) else slot_reg b c' k)"
    by (auto simp: body_def)
  have IH: "slave_ready (slave (load_literals nc (body f) (Suc c) 0 b'))"
    "k < CLAUSE_LEN \<Longrightarrow> slot_reg (load_literals nc (body f) (Suc c) 0 b') c' k =
       (if Suc c \<le> c' \<and> c' < nc \<and> k < length (f ! (c' - Suc c))
        then ucast (literal_word (f ! (c' - Suc c) ! k)) else slot_reg b' c' k)" for c' k
    using Cons.IH [OF b'(2), of "Suc c"] Cons.prems by auto
  have "slot_reg (load_literals nc (body f) (Suc c) 0 b') c' k =
       (if c \<le> c' \<and> c' < nc \<and> k < length ((cl # f) ! (c' - c))
        then ucast (literal_word ((cl # f) ! (c' - c) ! k)) else slot_reg b c' k)"
    if k: "k < CLAUSE_LEN" for c' k
  proof (cases "c' > c")
    case True
    then obtain j where "c' - c = Suc j" "c' - Suc c = j" by (metis Suc_diff_Suc)
    with True show ?thesis by (simp add: IH(2) [OF k] b'(3) [OF k])
  next
    case False
    with Cons.prems(2) show ?thesis by (auto simp: IH(2) [OF k] b'(3) [OF k])
  qed
  with IH(1) show ?case unfolding b'(1) by blast
qed

lemma encode_lit_reg:
  assumes "l \<noteq> 0" "\<bar>l\<bar> \<le> 10"
  defines "r \<equiv> ucast (literal_word (encode_lit l)) :: 6 word"
  shows "unat (ucast r :: 4 word) = nat \<bar>l\<bar> - 1 \<and> (bit r 4 \<longleftrightarrow> l < 0) \<and> bit r 5 \<and>
    encode_lit l \<noteq> PROTO_END \<and> encode_lit l \<noteq> PROTO_TERM"
proof -
  define ok where "ok l = (l = 0 \<or> (let r = ucast (literal_word (encode_lit l)) :: 6 word in
    unat (ucast r :: 4 word) = nat \<bar>l\<bar> - 1 \<and> (bit r 4 \<longleftrightarrow> l < 0) \<and> bit r 5 \<and>
    encode_lit l \<noteq> PROTO_END \<and> encode_lit l \<noteq> PROTO_TERM))" for l
  have "list_all ok (map (\<lambda>n. int n - 10) [0..<21])"
    unfolding ok_def by code_simp
  moreover have "l \<in> set (map (\<lambda>n. int n - 10) [0..<21])"
  proof -
    have "l = int (nat (l + 10)) - 10" "nat (l + 10) < 21" using assms(2) by auto
    then show ?thesis by force
  qed
  ultimately have "ok l" by (simp only: list_all_iff)
  then show ?thesis using assms(1) by (simp add: ok_def r_def Let_def)
qed

section \<open>The search and its verdict\<close>

lemma wb_ctrl_bits:
  "bit (wb_dat_r s 0) 0 \<longleftrightarrow> done_r (core s)" "bit (wb_dat_r s 0) 1 \<longleftrightarrow> sat_r (core s)"
  by (simp_all add: wb_dat_r_def bit_simps)

lemma poll_done_returns:
  assumes "\<not> start_r (slave b)" "\<not> wb_ack (slave b)"
    "search_active (core_in (slave b)) (core (slave b))"
  shows "\<exists>b'. poll_done b = Some b' \<and> slave b' = (slave b)\<lparr>core := core (slave b')\<rparr> \<and>
     solved (core_in (slave b)) (core (slave b'))"
  using assms
proof (induction "steps_left (core_in (slave b)) (core (slave b))" arbitrary: b rule: less_induct)
  case less
  let ?i = "core_in (slave b)"
  let ?d = "delay b (accesses b)"
  let ?c1 = "(sat_tick ?i ^^ Suc ?d) (core (slave b))"
  let ?b' = "b\<lparr>slave := (slave b)\<lparr>core := (sat_tick ?i ^^ (?d + 2)) (core (slave b))\<rparr>,
               accesses := Suc (accesses b)\<rparr>"
  have ns: "\<not> start ?i" using less.prems by simp
  note act = search_active_ticks [OF less.prems(3) ns]
  have read: "sat_reg_read SAT_CTRL b = (wb_dat_r ((slave b)\<lparr>core := ?c1\<rparr>) 0, ?b')"
    using sat_reg_read_quiet [OF less.prems(1,2), of SAT_CTRL] by (simp add: SAT_CTRL_def)
  have two: "(sat_tick ?i ^^ (?d + 2)) (core (slave b)) = sat_tick ?i ?c1" by simp
  show ?case
  proof (cases "done_r ?c1")
    case True
    then have sc: "solved ?i ?c1" using act(1) search_active_cases(1) by blast
    then have "sat_tick ?i ?c1 = ?c1" using ns by (rule solved_tick)
    with sc have "solved ?i ((sat_tick ?i ^^ (?d + 2)) (core (slave b)))" by (simp only: two)
    moreover have "poll_done b = Some ?b'"
      using True by (subst poll_done.simps) (simp add: read word_and_one_zero_iff wb_ctrl_bits del: funpow.simps)
    ultimately show ?thesis by (auto simp del: funpow.simps)
  next
    case False
    then have ns1: "\<not> solved ?i ?c1" by (simp add: solved_def)
    have "steps_left ?i (core (slave b)) \<noteq> 0"
      using ns1 search_active_cases(3) [OF less.prems(3)] solved_ticks [OF _ ns] by metis
    then have lt: "steps_left (core_in (slave ?b')) (core (slave ?b')) < steps_left ?i (core (slave b))"
      using act(2) [of "?d + 2"] by (simp del: funpow.simps)
    have pb: "poll_done b = poll_done ?b'"
      using False by (subst poll_done.simps) (simp add: read word_and_one_zero_iff wb_ctrl_bits del: funpow.simps)
    show ?thesis
      using less.hyps [OF lt] less.prems act(1) [of "?d + 2"] unfolding pb by (simp del: funpow.simps)
  qed
qed

lemma load_literals_ready:
  "slave_ready (slave b) \<Longrightarrow> nc \<le> MAX_CLAUSES \<Longrightarrow>
   slave_ready (slave (load_literals nc xs c l b))"
  by (induction nc xs c l b rule: load_literals.induct) (simp add: slot_write(1))+

lemma dims_write:
  assumes "slave_ready (slave b)"
  shows "slave_ready (slave (sat_reg_write SAT_NVARS d b))"
    "slave (sat_reg_write SAT_NVARS d b) = (slave b)\<lparr>n_vars_r := ucast d\<rparr>"
    "slave_ready (slave (sat_reg_write SAT_NCLAUSES d b))"
    "slave (sat_reg_write SAT_NCLAUSES d b) = (slave b)\<lparr>n_clauses_r := ucast d\<rparr>"
  using assms sat_reg_write_ready [OF assms, of SAT_NVARS d] sat_reg_write_ready [OF assms, of SAT_NCLAUSES d]
  by (simp_all add: layout_simps reg_write_def)

lemma ctrl_write:
  assumes "slave_ready (slave b)"
  defines "s \<equiv> slave (sat_reg_write SAT_CTRL 1 b)"
  shows "s = (slave b)\<lparr>core := core s\<rparr>" "searching (core_in (slave b)) (core s)"
  using assms start_searching [of "core_in (slave b)"]
  by (simp_all add: sat_reg_write_def store_start idle_ready SAT_CTRL_def)

lemma unat_small_cast: "k < 2 ^ LENGTH('a) \<Longrightarrow> k < 2 ^ 32 \<Longrightarrow> unat (ucast (of_nat k :: u32) :: 'a::len word) = k"
  by (simp add: unsigned_ucast_eq unat_of_nat_small take_bit_nat_eq_self)

lemma solved_response:
  assumes "solved i c" "unat (n_vars i) = n" "n \<le> MAX_VARS"
  shows "verdict i n (build_response (sat_r c) (ucast (model_r c)) n)"
proof -
  have mx: "Suc (unat (max_assign i)) = 2 ^ n"
    using max_assign_unat [of i] assms(2,3) by simp
  show ?thesis
  proof (cases "sat_r c")
    case True
    with assms(1) have "all_sat i (model_r c)" "unat (model_r c) < 2 ^ n"
      unfolding mx [symmetric] by (auto simp: solved_def)
    with True show ?thesis by (auto simp: verdict_def)
  next
    case False
    with assms(1) mx show ?thesis
      by (auto simp: solved_def verdict_def build_response_def no_model_below_def simp del: no_model_below_Suc)
  qed
qed

lemma solve_request_spec:
  assumes "slave_ready (slave b)" "nv \<le> MAX_VARS" "nc \<le> MAX_CLAUSES"
  shows "\<exists>resp b'. solve_request nv nc body b = Some (resp, b') \<and> slave_ready (slave b') \<and>
     verdict (core_in (slave b')) nv resp \<and>
     lit_regs (slave b') = lit_regs (slave (load_literals nc body 0 0 (clear_literals b))) \<and>
     unat (n_clauses_r (slave b')) = nc"
proof -
  define b1 where "b1 = load_literals nc body 0 0 (clear_literals b)"
  define b2 where "b2 = sat_reg_write SAT_NVARS (of_nat nv) b1"
  define b3 where "b3 = sat_reg_write SAT_NCLAUSES (of_nat nc) b2"
  define b4 where "b4 = sat_reg_write SAT_CTRL 1 b3"
  have r1: "slave_ready (slave b1)"
    unfolding b1_def by (intro load_literals_ready clear_literals_view assms)
  note r2 = dims_write(1,2) [OF r1, of "of_nat nv", folded b2_def]
  note r3 = dims_write(3,4) [OF r2(1), of "of_nat nc", folded b3_def]
  note r4 = ctrl_write [OF r3(1), folded b4_def]
  have i4: "core_in (slave b4) = core_in (slave b3)" by (subst r4(1)) simp
  have q4: "\<not> start_r (slave b4)" "\<not> wb_ack (slave b4)"
    using r3(1) by (subst r4(1), simp add: slave_ready_def)+
  have "search_active (core_in (slave b4)) (core (slave b4))"
    unfolding i4 using r4(2) by (simp add: search_active_def)
  from poll_done_returns [OF q4 this] obtain b5 where
    b5: "poll_done b4 = Some b5" "slave b5 = (slave b4)\<lparr>core := core (slave b5)\<rparr>"
    "solved (core_in (slave b4)) (core (slave b5))" by blast
  have i5: "core_in (slave b5) = core_in (slave b3)" by (subst b5(2)) (simp add: i4)
  have q5: "\<not> start_r (slave b5)" "\<not> wb_ack (slave b5)"
    using q4 by (subst b5(2), simp)+
  have f5: "lit_regs (slave b5) = lit_regs (slave b3)" "n_clauses_r (slave b5) = n_clauses_r (slave b3)"
    by (subst b5(2), simp, subst r4(1), simp)+
  define b6 where "b6 = b5\<lparr>accesses := Suc (accesses b5)\<rparr>"
  define b7 where "b7 = b6\<lparr>accesses := Suc (accesses b6)\<rparr>"
  have s5: "solved (core_in (slave b5)) (core (slave b5))" using b5(3) by (simp add: i4 i5)
  have ns: "\<not> start (core_in (slave b5))" using q5 by simp
  have rd: "sat_reg_read off b = (wb_dat_r (slave b5) (of_nat off), b\<lparr>accesses := Suc (accesses b)\<rparr>)"
    if "slave b = slave b5" for off b
    using sat_reg_read_quiet [of b off] that q5 solved_ticks [OF s5 ns]
    by (simp del: funpow.simps)
  have "solve_request nv nc body b =
      Some (build_response (sat_r (core (slave b5))) (ucast (model_r (core (slave b5)))) nv, b7)"
    unfolding solve_request_def Let_def b1_def [symmetric] b2_def [symmetric] b3_def [symmetric]
      b4_def [symmetric]
    using wb_ctrl_bits(2) [of "slave b5"]
    by (simp add: b5(1) rd b6_def b7_def SAT_CTRL_def SAT_MODEL_def word_and_one_zero_iff bit_drop_bit_eq)
       (simp add: wb_dat_r_def)
  moreover have "slave_ready (slave b7)"
    using q5 s5 r3(1) by (simp add: b7_def b6_def slave_ready_def solved_def f5)
  moreover have "verdict (core_in (slave b7)) nv (build_response (sat_r (core (slave b5))) (ucast (model_r (core (slave b5)))) nv)"
  proof -
    have "unat (n_vars (core_in (slave b5))) = nv"
      unfolding i5 using assms(2) by (simp add: r3(2) r2(2) unat_small_cast layout_simps)
    from solved_response [OF s5 this assms(2)] show ?thesis by (simp add: b7_def b6_def)
  qed
  moreover have "lit_regs (slave b7) = lit_regs (slave b1)"
    by (simp add: b7_def b6_def f5 r3(2) r2(2))
  moreover have "unat (n_clauses_r (slave b7)) = nc"
    using assms(3) by (simp add: b7_def b6_def f5 r3(2) unat_small_cast layout_simps)
  ultimately show ?thesis by (auto simp: b1_def)
qed

end
