(* ===== verification/Sat_Service.thy ===== *)
theory Sat_Service
  imports Sat_Tcp
begin

text \<open>
  The SAT service end to end: the request bytes of the host, the registers the firmware
  loads from them, the verdict of the hardware over these registers, the reply bytes and
  their decoding by the host.
\<close>

section \<open>Definitions\<close>

text \<open>The state in which \<^verbatim>\<open>main\<close> enters its loop.\<close>

definition sat_app_init :: sat_app where
  "sat_app_init =
     \<lparr>bus = \<lparr>slave = sat_slave_reset, accesses = 0, delay = (\<lambda>_. 0)\<rparr>, leds = 0x0B\<rparr>"

text \<open>The literal registers hold exactly the formula.\<close>

definition registers_hold :: "sat_slave \<Rightarrow> cnf \<Rightarrow> bool" where
  "registers_hold s f \<longleftrightarrow> unat (n_clauses_r s) = length f \<and>
     (\<forall>c < MAX_CLAUSES. \<forall>k < CLAUSE_LEN. lit_regs s ! (c * CLAUSE_LEN + k) =
        (if c < length f \<and> k < length (f ! c) then ucast (literal_word (encode_lit (f ! c ! k))) else 0))"

text \<open>A satisfiable formula with one clause too long for the accelerator.\<close>

definition overlong_cnf :: cnf where
  "overlong_cnf = [1, 2, 3, 4, 5, 6, 7, 8, 9, 10, -1] #
     [[-1], [-2], [-3], [-4], [-5], [-6], [-7], [-8], [-9], [-10]]"

section \<open>From bytes to registers to the verdict\<close>

lemma flatten_chain_take:
  "length buf < BUF_SIZE \<Longrightarrow> flatten_chain ch buf = take BUF_SIZE (buf @ concat ch)"
proof (induction ch arbitrary: buf)
  case (Cons q qs)
  show ?case
  proof (cases "length buf + length q < BUF_SIZE")
    case True
    with Cons.IH [of "buf @ q"] show ?thesis by simp
  next
    case False
    with Cons.prems show ?thesis by auto
  qed
qed simp

lemma slot_lit_val:
  assumes "l \<noteq> 0" "\<bar>l\<bar> \<le> 10"
    and "lit_regs s ! (c * CLAUSE_LEN + k) = ucast (literal_word (encode_lit l))"
  shows "lit_val (core_in s) a c k = lit_holds (\<lambda>v. bit a (v - 1)) l"
  using encode_lit_reg [OF assms(1,2)] assms(1,3)
  by (auto simp: lit_val_def core_in_def lit_holds_def)

lemma slot_unused: "lit_regs s ! (c * CLAUSE_LEN + k) = 0 \<Longrightarrow> \<not> lit_val (core_in s) a c k"
  by (simp add: lit_val_def core_in_def)

lemma wf_cnf_lit:
  "wf_cnf n f \<Longrightarrow> c < length f \<Longrightarrow> k < length (f ! c) \<Longrightarrow>
   f ! c ! k \<noteq> 0 \<and> \<bar>f ! c ! k\<bar> \<le> int n \<and> n \<le> 10"
  by (auto simp: wf_cnf_def list_all_length)

lemma all_sat_cnf:
  assumes h: "registers_hold s f" and wf: "wf_cnf n f"
  shows "all_sat (core_in s) a = cnf_holds (\<lambda>v. bit a (v - 1)) f"
proof -
  have lit: "lit_val (core_in s) a c k \<longleftrightarrow> k < length (f ! c) \<and> lit_holds (\<lambda>v. bit a (v - 1)) (f ! c ! k)"
    if "c < length f" "k < CLAUSE_LEN" for c k
  proof (cases "k < length (f ! c)")
    case True
    with wf that have "f ! c ! k \<noteq> 0" "\<bar>f ! c ! k\<bar> \<le> 10"
      using wf_cnf_lit [OF wf that(1) True] by auto
    with True that h wf show ?thesis
      by (subst slot_lit_val [of "f ! c ! k"]) (auto simp: registers_hold_def wf_cnf_def layout_simps)
  next
    case False
    with that h wf show ?thesis
      by (simp add: registers_hold_def slot_unused wf_cnf_def layout_simps)
  qed
  have clause: "clause_sat (core_in s) a c \<longleftrightarrow> list_ex (lit_holds (\<lambda>v. bit a (v - 1))) (f ! c)"
    if "c < length f" for c
  proof -
    have "length (f ! c) \<le> CLAUSE_LEN" using that wf by (simp add: wf_cnf_def list_all_length layout_simps)
    with lit [OF that] show ?thesis
      by (auto simp: clause_sat_def list_ex_length intro: order.strict_trans2)
  qed
  have "length f \<le> MAX_CLAUSES" using wf by (simp add: wf_cnf_def layout_simps)
  then have "(\<forall>c<MAX_CLAUSES. clause_sat (core_in s) a c \<or> length f \<le> c) \<longleftrightarrow>
      (\<forall>c<length f. list_ex (lit_holds (\<lambda>v. bit a (v - 1))) (f ! c))"
    using clause by (meson leD leI order.strict_trans2)
  then show ?thesis using h
    by (simp add: all_sat_def cnf_holds_def list_all_length registers_hold_def)
qed

lemma cnf_holds_cong:
  assumes "wf_cnf n f" "\<And>x. 1 \<le> x \<Longrightarrow> x \<le> n \<Longrightarrow> v x = v' x"
  shows "cnf_holds v f = cnf_holds v' f"
proof -
  have "lit_holds v l = lit_holds v' l" if "c \<in> set f" "l \<in> set c" for c l
  proof -
    have "l \<noteq> 0" "\<bar>l\<bar> \<le> int n" using assms(1) that by (force simp: wf_cnf_def list_all_iff)+
    then show ?thesis using assms(2) by (auto simp: lit_holds_def)
  qed
  then show ?thesis by (auto simp: cnf_holds_def list_all_iff list_ex_iff)
qed

lemma assignment_of_word:
  assumes "n \<le> 10"
  obtains k where "k < 2 ^ n" "\<And>x. 1 \<le> x \<Longrightarrow> x \<le> n \<Longrightarrow> bit (of_nat k :: 10 word) (x - 1) = v x"
proof -
  define k :: nat where "k = horner_sum of_bool 2 (map (\<lambda>j. v (Suc j)) [0..<n])"
  have "k < 2 ^ n" using horner_sum_of_bool_2_less [of "map (\<lambda>j. v (Suc j)) [0..<n]", where 'a = nat]
    by (simp add: k_def)
  moreover have "bit (of_nat k :: 10 word) (x - 1) = v x" if x: "1 \<le> x" "x \<le> n" for x
  proof -
    obtain j where j: "x = Suc j" using x(1) by (cases x) auto
    have "bit (of_nat k :: 10 word) (x - 1) = bit k (x - 1)"
      using x assms by (auto simp: bit_simps)
    also have "\<dots> = v x" using x by (simp add: j k_def bit_horner_sum_bit_iff)
    finally show ?thesis .
  qed
  ultimately show ?thesis by (rule that)
qed

lemma verdict_cnf:
  assumes "verdict (core_in s) n resp" "registers_hold s f" "wf_cnf n f"
  shows "(\<exists>m. cnf_holds (\<lambda>v. bit m (v - 1)) f \<and> resp = build_response True m n) \<or>
    \<not> satisfiable f \<and> resp = [RESP_UNSAT, PROTO_END]"
  using assms(1) unfolding verdict_def
proof (elim disjE exE conjE)
  fix m :: "10 word"
  assume m: "unat m < 2 ^ n" "all_sat (core_in s) m" "resp = build_response True (ucast m) n"
  have "cnf_holds (\<lambda>v. bit (ucast m :: u32) (v - 1)) f"
    using m(2) unfolding all_sat_cnf [OF assms(2,3)]
    by (subst cnf_holds_cong [OF assms(3), where v' = "\<lambda>v. bit m (v - 1)"])
       (use assms(3) in \<open>auto simp: bit_ucast_iff wf_cnf_def\<close>)
  with m(3) show ?thesis by blast
next
  assume u: "\<forall>k<2 ^ n. \<not> all_sat (core_in s) (of_nat k)" "resp = [RESP_UNSAT, PROTO_END]"
  have "\<not> cnf_holds v f" for v
  proof
    assume v: "cnf_holds v f"
    obtain k where k: "k < 2 ^ n" "\<And>x. 1 \<le> x \<Longrightarrow> x \<le> n \<Longrightarrow> bit (of_nat k :: 10 word) (x - 1) = v x"
      using assignment_of_word [of n v] assms(3) by (auto simp: wf_cnf_def)
    have "cnf_holds (\<lambda>x. bit (of_nat k :: 10 word) (x - 1)) f"
      using v cnf_holds_cong [OF assms(3), of "\<lambda>x. bit (of_nat k :: 10 word) (x - 1)" v] k(2) by blast
    then show False using u(1) k(1) all_sat_cnf [OF assms(2,3)] by blast
  qed
  with u(2) show ?thesis by (simp add: satisfiable_def)
qed

lemma load_packet:
  assumes "slave_ready (slave b)" "wf_cnf n f"
    and regs: "lit_regs s = lit_regs (slave (load_literals (length f) (concat (map encode_clause f) @ [PROTO_END]) 0 0 (clear_literals b)))"
    and nc: "unat (n_clauses_r s) = length f"
  shows "registers_hold s f"
proof -
  have enc: "concat (map encode_clause f) = concat (map (\<lambda>cl. cl @ [PROTO_TERM]) (map (map encode_lit) f))"
    by (induction f) (simp_all add: encode_clause_def)
  have plain: "list_all (\<lambda>cl. plain_bytes cl \<and> length cl \<le> CLAUSE_LEN) (map (map encode_lit) f)"
    unfolding list_all_length
  proof (intro allI impI)
    fix c assume c: "c < length (map (map encode_lit) f)"
    have "plain_bytes (map encode_lit (f ! c))"
      unfolding plain_bytes_def list_all_length
    proof (intro allI impI)
      fix k assume "k < length (map encode_lit (f ! c))"
      then have "f ! c ! k \<noteq> 0" "\<bar>f ! c ! k\<bar> \<le> 10" "k < length (f ! c)"
        using wf_cnf_lit [OF assms(2), of c k] c by auto
      then show "map encode_lit (f ! c) ! k \<noteq> PROTO_END \<and> map encode_lit (f ! c) ! k \<noteq> PROTO_TERM"
        using encode_lit_reg [of "f ! c ! k"] by simp
    qed
    moreover have "length (f ! c) \<le> CLAUSE_LEN"
      using c assms(2) by (simp add: wf_cnf_def list_all_length layout_simps)
    ultimately show "plain_bytes (map (map encode_lit) f ! c) \<and> length (map (map encode_lit) f ! c) \<le> CLAUSE_LEN"
      using c by simp
  qed
  have le: "length f \<le> MAX_CLAUSES" using assms(2) by (simp add: wf_cnf_def layout_simps)
  from load_clauses [OF clear_literals_view(1) [OF assms(1)], of 0 "map (map encode_lit) f" "length f"] plain le
  have "slot_reg (load_literals (length f) (concat (map encode_clause f) @ [PROTO_END]) 0 0 (clear_literals b)) c k =
       (if c < length f \<and> k < length (f ! c)
        then ucast (literal_word (encode_lit (f ! c ! k))) else slot_reg (clear_literals b) c k)"
    if "k < CLAUSE_LEN" for c k
    using that unfolding enc by auto
  then show ?thesis
    using nc clear_literals_view(2) [OF assms(1)] slot_bound
    by (auto simp: registers_hold_def regs)
qed

lemma assignment_byte_parts:
  assumes "i < 10"
  shows "unat (assignment_byte m i AND 0x7F) = Suc i" "bit (drop_bit 7 (assignment_byte m i)) 0 = bit m i"
    "assignment_byte m i \<noteq> PROTO_END"
proof -
  define mk :: "bool \<Rightarrow> nat \<Rightarrow> byte" where "mk v i = push_bit 7 (of_bool v) OR (of_nat (i + 1) AND 0x7F)" for v i
  have v: "(ucast (drop_bit i m AND 1 :: u32) :: byte) = of_bool (bit m i)"
    by (rule bit_word_eqI) (auto simp: bit_simps)
  have "list_all (\<lambda>i. list_all (\<lambda>v. unat (mk v i AND 0x7F) = Suc i \<and> bit (drop_bit 7 (mk v i)) 0 = v \<and>
      mk v i \<noteq> PROTO_END) [False, True]) [0..<10]"
    unfolding mk_def by code_simp
  then have "unat (mk v i AND 0x7F) = Suc i \<and> bit (drop_bit 7 (mk v i)) 0 = v \<and> mk v i \<noteq> PROTO_END" for v
    using assms unfolding list_all_upt by (cases v) auto
  moreover have "assignment_byte m i = mk (bit m i) i"
    by (simp only: assignment_byte_def Let_def v mk_def)
  ultimately show "unat (assignment_byte m i AND 0x7F) = Suc i" "bit (drop_bit 7 (assignment_byte m i)) 0 = bit m i"
    "assignment_byte m i \<noteq> PROTO_END"
    by metis+
qed

lemma decode_assignment_bytes:
  assumes "n \<le> 10" "k \<le> n"
  shows "decode_assignment (map (assignment_byte m) [k..<n] @ PROTO_END # rest) a =
    (\<lambda>v. if k < v \<and> v \<le> n then Some (bit m (v - 1)) else a v)"
  using assms(2)
proof (induction "n - k" arbitrary: k a)
  case 0
  then show ?case by (auto simp: fun_eq_iff)
next
  case (Suc d)
  then have k: "k < n" "k < 10" using assms(1) by auto
  have up: "[k..<n] = k # [Suc k..<n]" using k by (simp add: upt_conv_Cons)
  have IH: "decode_assignment (map (assignment_byte m) [Suc k..<n] @ PROTO_END # rest) a' =
    (\<lambda>v. if Suc k < v \<and> v \<le> n then Some (bit m (v - 1)) else a' v)" for a'
    using Suc.hyps k by (intro Suc.hyps) auto
  show ?case unfolding up using assignment_byte_parts [OF k(2)] k
    by (auto simp: IH fun_eq_iff)
qed

lemma solve_reply_sat:
  assumes "n \<le> 10"
  shows "solve_reply n (build_response True m n @ rest) =
    SAT (\<lambda>v. if 1 \<le> v \<and> v \<le> n then Some (bit m (v - 1)) else None)"
proof -
  have "RESP_SAT \<noteq> RESP_UNSAT" by (simp add: layout_simps)
  then show ?thesis
    using decode_assignment_bytes [OF assms, of 0 m "[]" Map.empty] 
    by (auto simp: solve_reply_def build_response_def recv_exact_def decode_response_def fun_eq_iff)
qed

lemma solve_reply_unsat: "solve_reply n ([RESP_UNSAT, PROTO_END] @ rest) = UNSAT"
  by (simp add: solve_reply_def recv_exact_def decode_response_def)

lemma length_encode_packet: "wf_cnf n f \<Longrightarrow> length (encode_packet n f) \<le> 224"
proof -
  assume wf: "wf_cnf n f"
  have "list_all (\<lambda>c. length c \<le> 10) g \<Longrightarrow> length (concat (map encode_clause g)) \<le> 11 * length g" for g
    by (induction g) (auto simp: encode_clause_def)
  from this [of f] wf have "length (concat (map encode_clause f)) \<le> 220"
    by (auto simp: wf_cnf_def list_all_iff)
  then show ?thesis by (simp add: encode_packet_def)
qed

lemma encode_packet_header:
  assumes "wf_cnf n f"
  shows "unat (encode_packet n f ! 1) = n" "unat (encode_packet n f ! 2) = length f"
    "header_ok (encode_packet n f)"
    "drop 3 (encode_packet n f) = concat (map encode_clause f) @ [PROTO_END]"
proof -
  have b: "unat (word_of_int (int k AND 0xFF) :: byte) = k" if "k < 256" for k
  proof -
    have "int k AND 0xFF = int k mod 2 ^ 8" using take_bit_eq_mask [of 8 "int k"] by (simp add: take_bit_eq_mod mask_eq_exp_minus_1)
    then show ?thesis using that by (simp add: unat_of_nat_small)
  qed
  have "n < 256" "length f < 256" using assms by (auto simp: wf_cnf_def)
  then show 1: "unat (encode_packet n f ! 1) = n" "unat (encode_packet n f ! 2) = length f"
    by (simp_all add: encode_packet_def b)
  show "header_ok (encode_packet n f)"
    unfolding header_ok_def 1 using assms by (auto simp: encode_packet_def wf_cnf_def layout_simps)
  show "drop 3 (encode_packet n f) = concat (map encode_clause f) @ [PROTO_END]"
    by (simp add: encode_packet_def)
qed

lemma solve_request_cnf:
  assumes "wf_cnf n f" "slave_ready (slave b)"
  shows "\<exists>resp b'. solve_request n (length f) (concat (map encode_clause f) @ [PROTO_END]) b = Some (resp, b') \<and>
    slave_ready (slave b') \<and>
    ((\<exists>m. cnf_holds (\<lambda>v. bit m (v - 1)) f \<and> resp = build_response True m n) \<or>
     \<not> satisfiable f \<and> resp = [RESP_UNSAT, PROTO_END])"
proof -
  have nv: "n \<le> MAX_VARS" "length f \<le> MAX_CLAUSES" using assms(1) by (auto simp: wf_cnf_def layout_simps)
  from solve_request_spec [OF assms(2) nv, of "concat (map encode_clause f) @ [PROTO_END]"]
  obtain resp b' where r: "solve_request n (length f) (concat (map encode_clause f) @ [PROTO_END]) b = Some (resp, b')"
    "slave_ready (slave b')" "verdict (core_in (slave b')) n resp"
    "lit_regs (slave b') = lit_regs (slave (load_literals (length f) (concat (map encode_clause f) @ [PROTO_END]) 0 0 (clear_literals b)))"
    "unat (n_clauses_r (slave b')) = length f"
    by blast
  have "registers_hold (slave b') f" by (rule load_packet [OF assms(2,1) r(4,5)])
  from verdict_cnf [OF r(3) this assms(1)] r(1,2) show ?thesis by blast
qed

lemma reply_verdict:
  assumes "wf_cnf n f"
    "(\<exists>m. cnf_holds (\<lambda>v. bit m (v - 1)) f \<and> resp = build_response True m n) \<or>
     \<not> satisfiable f \<and> resp = [RESP_UNSAT, PROTO_END]"
  shows "case solve_reply n (resp @ rest) of
       SAT m \<Rightarrow> dom m = {1..n} \<and> cnf_holds (\<lambda>v. the (m v)) f
     | UNSAT \<Rightarrow> \<not> satisfiable f
     | _ \<Rightarrow> False"
  using assms(2)
proof (elim disjE exE conjE)
  fix m :: u32 assume m: "cnf_holds (\<lambda>v. bit m (v - 1)) f" "resp = build_response True m n"
  have n10: "n \<le> 10" using assms(1) by (simp add: wf_cnf_def)
  let ?m = "\<lambda>v. if 1 \<le> v \<and> v \<le> n then Some (bit m (v - 1)) else None"
  have "cnf_holds (\<lambda>v. the (?m v)) f"
    using m(1) cnf_holds_cong [OF assms(1), of "\<lambda>v. the (?m v)" "\<lambda>v. bit m (v - 1)"] by auto
  then show ?thesis by (auto simp: m(2) solve_reply_sat [OF n10] dom_def)
next
  assume "\<not> satisfiable f" "resp = [RESP_UNSAT, PROTO_END]"
  then show ?thesis using solve_reply_unsat [of n rest] by simp
qed

text \<open>
  C1: The SAT service is correct end to end. For every formula the accelerator has room for,
  whatever the pbuf boundaries of the request and however many idle cycles the CPU leaves between its bus
  accesses, the callback consumes and frees the request, sends exactly one reply, and leaves the accelerator
  ready; the host's decoding of that reply, whatever follows it in the stream, is either an assignment of
  exactly the declared variables that satisfies the formula, or UNSAT, and then no assignment satisfies it.
\<close>

theorem sat_service:
  assumes "wf_cnf n f" "slave_ready (slave (bus st))" "concat ch = encode_packet n f"
  shows "\<exists>resp st'. sat_recv st (Some ch) ERR_OK =
      Some (ERR_OK, [Tcp_recved (tot_len ch), Pbuf_free, Tcp_write resp, Tcp_output], st') \<and>
    slave_ready (slave (bus st')) \<and>
    (\<forall>rest. case solve_reply n (resp @ rest) of
       SAT m \<Rightarrow> dom m = {1..n} \<and> cnf_holds (\<lambda>v. the (m v)) f
     | UNSAT \<Rightarrow> \<not> satisfiable f
     | _ \<Rightarrow> False)"
proof -
  have flat: "flatten_chain ch [] = encode_packet n f"
    using length_encode_packet [OF assms(1)] assms(3)
    by (simp add: flatten_chain_take BUF_SIZE_def)
  from solve_request_cnf [OF assms(1,2)] obtain resp b' where
    r: "solve_request n (length f) (concat (map encode_clause f) @ [PROTO_END]) (bus st) = Some (resp, b')"
      "slave_ready (slave b')"
    and v: "(\<exists>m. cnf_holds (\<lambda>v. bit m (v - 1)) f \<and> resp = build_response True m n) \<or>
     \<not> satisfiable f \<and> resp = [RESP_UNSAT, PROTO_END]" by blast
  have "sat_recv st (Some ch) ERR_OK =
      Some (ERR_OK, [Tcp_recved (tot_len ch), Pbuf_free, Tcp_write resp, Tcp_output],
        st\<lparr>bus := b', leds := leds st OR 0x04 OR 0x08\<rparr>)"
    using encode_packet_header [OF assms(1)] r(1) by (simp add: sat_recv_def flat Let_def or.assoc)
  then show ?thesis using r(2) reply_verdict [OF assms(1) v] by auto
qed

theorem sat_service_witness:
  "wf_cnf 2 [[1, -2], [2]] \<and> slave_ready (slave (bus sat_app_init)) \<and>
   (\<exists>resp st'. sat_recv sat_app_init (Some [encode_packet 2 [[1, -2], [2]]]) ERR_OK =
      Some (ERR_OK, [Tcp_recved (tot_len [encode_packet 2 [[1, -2], [2]]]), Pbuf_free, Tcp_write resp, Tcp_output], st') \<and>
    slave_ready (slave (bus st')) \<and>
    (\<forall>rest. case solve_reply 2 (resp @ rest) of
       SAT m \<Rightarrow> dom m = {1..2} \<and> cnf_holds (\<lambda>v. the (m v)) [[1, -2], [2]]
     | UNSAT \<Rightarrow> \<not> satisfiable [[1, -2], [2]]
     | _ \<Rightarrow> False))"
proof -
  have h: "wf_cnf 2 [[1, -2], [2]]" "slave_ready (slave (bus sat_app_init))"
    "concat [encode_packet 2 [[1, -2], [2]]] = encode_packet 2 [[1, -2], [2]]"
    by (simp_all add: wf_cnf_def sat_app_init_def sat_slave_reset_def slave_ready_def)
  show ?thesis using h(1,2) sat_service [OF h] by (intro conjI)
qed


lemma header_bounds:
  "header_ok buf \<Longrightarrow> unat (buf ! 1) \<le> MAX_VARS \<and> unat (buf ! 2) \<le> MAX_CLAUSES"
  by (auto simp: header_ok_def)

text \<open>
  C2: The receive callback returns on every input: any pbuf chain, well formed or not, any error
  code, and any timing of the bus accesses. Its wait for the done bit always ends, it returns ERR\_OK, and the
  accelerator is ready for the next request.
\<close>

theorem sat_recv_returns:
  assumes "slave_ready (slave (bus st))"
  shows "\<exists>calls st'. sat_recv st p err = Some (ERR_OK, calls, st') \<and> slave_ready (slave (bus st'))"
proof (cases p)
  case None
  then show ?thesis using assms by (simp add: sat_recv_def)
next
  case (Some ch)
  let ?buf = "flatten_chain ch []"
  show ?thesis
  proof (cases "err = ERR_OK \<and> header_ok ?buf")
    case True
    from header_bounds [of ?buf] True
    obtain resp b' where "solve_request (unat (?buf ! 1)) (unat (?buf ! 2)) (drop 3 ?buf) (bus st) = Some (resp, b')"
      "slave_ready (slave b')"
      using solve_request_spec [OF assms] by blast
    with True Some show ?thesis by (simp add: sat_recv_def Let_def)
  next
    case False
    with assms Some show ?thesis by (auto simp: sat_recv_def Let_def)
  qed
qed

theorem sat_recv_returns_witness:
  "slave_ready (slave (bus sat_app_init)) \<and>
   (\<exists>calls st'. sat_recv sat_app_init (Some [[0xAA, 3, 2, 0x81], [0x80, 0, 0x7F]]) ERR_OK =
      Some (ERR_OK, calls, st') \<and> slave_ready (slave (bus st')))"
proof -
  have h: "slave_ready (slave (bus sat_app_init))"
    by (simp add: sat_app_init_def sat_slave_reset_def slave_ready_def)
  show ?thesis using h sat_recv_returns [OF h] by blast
qed


text \<open>What the protocol asks of a request: a start marker, 1 to 10 variables, 1 to 20 clauses, and at least one byte more.\<close>

definition well_headed :: "bytes \<Rightarrow> bool" where
  "well_headed req \<longleftrightarrow>
     (case req of
        mark # nv # nc # _ # _ \<Rightarrow> mark = 0xAA \<and> 1 \<le> unat nv \<and> unat nv \<le> 10 \<and> 1 \<le> unat nc \<and> unat nc \<le> 20
      | _ \<Rightarrow> False)"

lemma header_ok_iff: "header_ok (take BUF_SIZE req) \<longleftrightarrow> well_headed req"
  by (auto simp: header_ok_def well_headed_def layout_simps BUF_SIZE_def Suc_le_eq nth_Cons' numeral_eq_Suc not_less split: list.splits)

text \<open>
  C3: A request is answered exactly when its header is that of the protocol, however the bytes are cut into pbufs. Then it is
  consumed and freed and one reply is written and sent. With a bad header (shorter than four bytes, a wrong start
  marker, a variable or clause count of zero or beyond 10 and 20) it is consumed and freed without touching the accelerator
  and without a reply; an error indication closes the connection and frees the pbuf.
\<close>

theorem sat_recv_rejects:
  assumes "slave_ready (slave (bus st))"
  shows "\<exists>calls st'. sat_recv st (Some ch) err = Some (ERR_OK, calls, st') \<and>
    (if err = ERR_OK \<and> well_headed (concat ch)
     then \<exists>resp. calls = [Tcp_recved (tot_len ch), Pbuf_free, Tcp_write resp, Tcp_output]
     else bus st' = bus st \<and> calls = (if err = ERR_OK then [Tcp_recved (tot_len ch), Pbuf_free] else [Tcp_close, Pbuf_free]))"
proof -
  have buf: "flatten_chain ch [] = take BUF_SIZE (concat ch)" using flatten_chain_take [of "[]" ch] by (simp add: BUF_SIZE_def)
  show ?thesis
  proof (cases "err = ERR_OK \<and> well_headed (concat ch)")
    case True
    let ?buf = "take BUF_SIZE (concat ch)"
    have h: "header_ok ?buf" using True by (simp add: header_ok_iff)
    then obtain resp b' where "solve_request (unat (?buf ! 1)) (unat (?buf ! 2)) (drop 3 ?buf) (bus st) = Some (resp, b')"
      using header_bounds [of ?buf] solve_request_spec [OF assms] by blast
    then show ?thesis using True h by (simp add: sat_recv_def Let_def buf)
  next
    case False
    then show ?thesis by (auto simp: sat_recv_def Let_def buf header_ok_iff)
  qed
qed

theorem sat_recv_rejects_witness:
  "slave_ready (slave (bus sat_app_init)) \<and>
   (\<exists>st'. sat_recv sat_app_init (Some [[0xAA, 3], [21, 0xFF]]) ERR_OK = Some (ERR_OK, [Tcp_recved 4, Pbuf_free], st') \<and>
     bus st' = bus sat_app_init) \<and>
   (\<exists>resp st'. sat_recv sat_app_init (Some [[0xAA, 3], [20, 0xFF]]) ERR_OK =
     Some (ERR_OK, [Tcp_recved 4, Pbuf_free, Tcp_write resp, Tcp_output], st'))"
proof -
  have h: "slave_ready (slave (bus sat_app_init))"
    by (simp add: sat_app_init_def sat_slave_reset_def slave_ready_def)
  show ?thesis
    using h sat_recv_rejects [OF h, of "[[0xAA, 3], [21, 0xFF]]" ERR_OK] sat_recv_rejects [OF h, of "[[0xAA, 3], [20, 0xFF]]" ERR_OK]
    by (auto simp: well_headed_def tot_len_def)
qed


text \<open>
  C4: A search over n variables ends within 2\^n clock cycles of the start pulse, and the cycle
  counter of the hardware never shows more than that; so the firmware's wait is bounded by 1024 cycles.
\<close>

theorem search_time_bound:
  assumes "slave_ready (slave b)" "unat (n_vars_r (slave b)) = n" "n \<le> MAX_VARS" "2 ^ n \<le> k"
  defines "s \<equiv> idle_ticks k (slave (sat_reg_write SAT_CTRL 1 b))"
  shows "done_r (core s) \<and> \<not> running (core s) \<and> unat (cycles_r (core s)) \<le> 2 ^ n \<and> solved (core_in s) (core s)"
proof -
  let ?s = "slave (sat_reg_write SAT_CTRL 1 b)"
  note w = ctrl_write [OF assms(1)]
  have i: "core_in ?s = core_in (slave b)" by (subst w(1)) simp
  have q: "\<not> start_r ?s" "\<not> wb_ack ?s" using assms(1) by (subst w(1), simp add: slave_ready_def)+
  have mx: "Suc (unat (max_assign (core_in ?s))) = 2 ^ n"
    using max_assign_unat [of "core_in ?s"] assms(2,3) unfolding i by simp
  have sr: "searching (core_in ?s) (core ?s)" using w(2) by (simp only: i)
  have act: "search_active (core_in ?s) (core ?s)" using sr by (simp add: search_active_def)
  have "steps_left (core_in ?s) (core ?s) \<le> 2 ^ n"
    unfolding mx [symmetric] by (simp add: steps_left_def)
  with assms(4) have "steps_left (core_in ?s) (core ?s) \<le> k" by linarith
  from search_terminates [OF act _ this] q
  have "solved (core_in ?s) ((sat_tick (core_in ?s) ^^ k) (core ?s))" by simp
  then show ?thesis
    using mx by (auto simp: s_def idle_quiet [OF q] solved_def)
qed

theorem search_time_bound_witness:
  "slave_ready (slave ((bus sat_app_init)\<lparr>slave := sat_slave_reset\<lparr>n_vars_r := 3\<rparr>\<rparr>)) \<and>
   done_r (core (idle_ticks 8 (slave (sat_reg_write SAT_CTRL 1
     ((bus sat_app_init)\<lparr>slave := sat_slave_reset\<lparr>n_vars_r := 3\<rparr>\<rparr>)))))"
proof -
  let ?b = "(bus sat_app_init)\<lparr>slave := sat_slave_reset\<lparr>n_vars_r := 3\<rparr>\<rparr>"
  have h: "slave_ready (slave ?b)" "unat (n_vars_r (slave ?b)) = 3" "(3::nat) \<le> MAX_VARS" "(2::nat) ^ 3 \<le> 8"
    by (simp_all add: sat_slave_reset_def slave_ready_def layout_simps)
  show ?thesis using h(1) search_time_bound [OF h] by blast
qed


lemma load_literals_skip:
  assumes "plain_bytes cl" "c < nc" "CLAUSE_LEN \<le> l"
  shows "load_literals nc (cl @ rest) c l b = load_literals nc rest c l b"
  using assms by (induction cl) (auto simp: plain_bytes_def)

lemma load_literals_take:
  assumes "plain_bytes cl" "c < nc" "l \<le> CLAUSE_LEN"
  shows "load_literals nc (cl @ PROTO_TERM # rest) c l b =
    load_literals nc (take (CLAUSE_LEN - l) cl @ PROTO_TERM # rest) c l b"
  using assms
proof (induction cl arbitrary: l b)
  case (Cons x cl)
  show ?case
  proof (cases "l < CLAUSE_LEN")
    case True
    then have "take (CLAUSE_LEN - l) (x # cl) = x # take (CLAUSE_LEN - Suc l) cl"
      by (metis Suc_diff_Suc take_Suc_Cons)
    with Cons True show ?thesis by (simp add: plain_bytes_def)
  next
    case False
    with Cons.prems show ?thesis using load_literals_skip [of "x # cl" c nc l] by simp
  qed
qed simp

lemma load_literals_truncates:
  assumes "list_all plain_bytes f" 
  shows "load_literals nc (concat (map (\<lambda>cl. cl @ [PROTO_TERM]) f) @ rest) c 0 b =
    load_literals nc (concat (map (\<lambda>cl. cl @ [PROTO_TERM]) (map (take CLAUSE_LEN) f)) @ rest) c 0 b"
  using assms
proof (induction f arbitrary: c b)
  case (Cons cl f)
  have P: "PROTO_TERM \<noteq> PROTO_END" by (simp add: layout_simps)
  show ?case
  proof (cases "c < nc")
    case True
    let ?r = "concat (map (\<lambda>cl. cl @ [PROTO_TERM]) f) @ rest"
    let ?r' = "concat (map (\<lambda>cl. cl @ [PROTO_TERM]) (map (take CLAUSE_LEN) f)) @ rest"
    have tail: "load_literals nc (xs @ PROTO_TERM # ?r) c l b' = load_literals nc (xs @ PROTO_TERM # ?r') c l b'"
      if "plain_bytes xs" for xs l b'
      using that
    proof (induction xs arbitrary: l b')
      case Nil
      then show ?case using Cons P True by simp
    qed (simp add: plain_bytes_def)
    have "plain_bytes cl" using Cons.prems by simp
    moreover then have "plain_bytes (take CLAUSE_LEN cl)"
      by (auto simp: plain_bytes_def list_all_iff dest: in_set_takeD)
    ultimately show ?thesis
      using load_literals_take [of cl c nc 0 ?r b] tail [of "take CLAUSE_LEN cl" 0 b] True by simp
  next
    case False
    have "load_literals nc ys c 0 b = b" for ys using False by (cases ys) auto
    then show ?thesis by simp
  qed
qed simp

text \<open>
  C5: A clause of more than ten literals is cut to its first ten without an error: for a formula
  over ten variables and eleven clauses, within the advertised limits of both, one of whose clauses has eleven
  literals, the service replies UNSAT although the formula is satisfiable.
\<close>

theorem overlong_clause_wrong_verdict:
  assumes "slave_ready (slave (bus st))" "concat ch = encode_packet 10 overlong_cnf"
  shows "satisfiable overlong_cnf \<and>
    (\<exists>st'. sat_recv st (Some ch) ERR_OK =
      Some (ERR_OK, [Tcp_recved (tot_len ch), Pbuf_free, Tcp_write [RESP_UNSAT, PROTO_END], Tcp_output], st'))"
proof
  have "cnf_holds (\<lambda>_. False) overlong_cnf" by (simp add: cnf_holds_def overlong_cnf_def lit_holds_def)
  then show "satisfiable overlong_cnf" by (auto simp: satisfiable_def)
  define g where "g = map (take CLAUSE_LEN) overlong_cnf"
  have wf: "wf_cnf 10 g" by (simp add: g_def wf_cnf_def overlong_cnf_def CLAUSE_LEN_def)
  have un: "\<not> satisfiable g"
    by (auto simp: g_def satisfiable_def cnf_holds_def lit_holds_def overlong_cnf_def CLAUSE_LEN_def)
  have enc: "concat (map encode_clause h) = concat (map (\<lambda>cl. cl @ [PROTO_TERM]) (map (map encode_lit) h))" for h
    by (induction h) (simp_all add: encode_clause_def)
  have plain: "list_all plain_bytes (map (map encode_lit) overlong_cnf)"
    by (simp add: overlong_cnf_def plain_bytes_def encode_lit_reg)
  have tk: "map (take CLAUSE_LEN) (map (map encode_lit) overlong_cnf) = map (map encode_lit) g"
    by (simp add: g_def take_map)
  have ld: "load_literals nc (concat (map encode_clause overlong_cnf) @ [PROTO_END]) 0 0 b =
      load_literals nc (concat (map encode_clause g) @ [PROTO_END]) 0 0 b" for nc b
    using load_literals_truncates [OF plain, of nc "[PROTO_END]" 0 b] by (simp only: enc tk)
  have "length g = length overlong_cnf" by (simp add: g_def)
  then have "solve_request 10 (length overlong_cnf) (concat (map encode_clause overlong_cnf) @ [PROTO_END]) b =
      solve_request 10 (length g) (concat (map encode_clause g) @ [PROTO_END]) b" for b
    by (simp only: solve_request_def ld)
  with solve_request_cnf [OF wf assms(1)] un obtain b' where
    r: "solve_request 10 (length overlong_cnf) (concat (map encode_clause overlong_cnf) @ [PROTO_END]) (bus st) =
       Some ([RESP_UNSAT, PROTO_END], b')"
    by (auto simp: satisfiable_def)
  have flat: "flatten_chain ch [] = encode_packet 10 overlong_cnf"
    using assms(2) by (simp add: flatten_chain_take BUF_SIZE_def)
      (simp add: encode_packet_def overlong_cnf_def encode_clause_def)
  have hdr: "encode_packet 10 overlong_cnf = [PROTO_START, 10, 11] @ concat (map encode_clause overlong_cnf) @ [PROTO_END]"
    by (simp add: encode_packet_def overlong_cnf_def)
  have "header_ok (encode_packet 10 overlong_cnf)"
    unfolding hdr by (simp add: header_ok_def layout_simps overlong_cnf_def encode_clause_def)
  moreover have "unat (encode_packet 10 overlong_cnf ! 1) = 10"
    "unat (encode_packet 10 overlong_cnf ! 2) = length overlong_cnf"
    "drop 3 (encode_packet 10 overlong_cnf) = concat (map encode_clause overlong_cnf) @ [PROTO_END]"
    unfolding hdr by (simp_all add: overlong_cnf_def)
  ultimately show "\<exists>st'. sat_recv st (Some ch) ERR_OK =
      Some (ERR_OK, [Tcp_recved (tot_len ch), Pbuf_free, Tcp_write [RESP_UNSAT, PROTO_END], Tcp_output], st')"
    using r by (simp add: sat_recv_def flat Let_def)
qed

theorem overlong_clause_wrong_verdict_witness:
  "slave_ready (slave (bus sat_app_init)) \<and> satisfiable overlong_cnf \<and>
    (\<exists>st'. sat_recv sat_app_init (Some [encode_packet 10 overlong_cnf]) ERR_OK =
      Some (ERR_OK, [Tcp_recved (tot_len [encode_packet 10 overlong_cnf]), Pbuf_free,
        Tcp_write [RESP_UNSAT, PROTO_END], Tcp_output], st'))"
proof -
  have h: "slave_ready (slave (bus sat_app_init))"
    "concat [encode_packet 10 overlong_cnf] = encode_packet 10 overlong_cnf"
    by (simp_all add: sat_app_init_def sat_slave_reset_def slave_ready_def)
  show ?thesis using h(1) overlong_clause_wrong_verdict [OF h] by blast
qed


end
