(* ===== verification/Echo_Slave.thy ===== *)
theory Echo_Slave
  imports Wishbone Register_File
begin

text \<open>
  The EchoSlave of \<^verbatim>\<open>soc/echo_slave.py\<close>: 512 words of block RAM behind a Wishbone port, and
  the firmware's accessors \<^verbatim>\<open>slave_write\<close> and \<^verbatim>\<open>slave_read\<close>, which are the same in
  \<^verbatim>\<open>firmware/echo.c\<close> and \<^verbatim>\<open>firmware-tcp/echo_tcp.c\<close>.
\<close>

definition DEPTH :: nat where [layout_simps]: "DEPTH = 512"

record echo_slave =
  bram :: "u32 list"
  rd_data :: u32
  echo_ack :: bool

text \<open>
  One clock edge: the registered read port latches the addressed word as it was before the edge;
  the write port stores on the first cycle of a request; the acknowledge follows the request by
  one cycle and then clears.
\<close>

definition echo_tick :: "wb_in \<Rightarrow> echo_slave \<Rightarrow> echo_slave" where
  "echo_tick w s =
     (let s1 = s\<lparr>rd_data := bram s ! unat (wb_adr w),
                 echo_ack := (wb_cyc w \<and> wb_stb w \<and> \<not> echo_ack s)\<rparr>
      in if wb_cyc w \<and> wb_stb w \<and> wb_we w \<and> \<not> echo_ack s
         then s1\<lparr>bram := (bram s)[unat (wb_adr w) := wb_dat_w w]\<rparr> else s1)"

definition echo_slave_reset :: echo_slave where
  "echo_slave_reset = \<lparr>bram = replicate DEPTH 0, rd_data = 0, echo_ack = False\<rparr>"

definition echo_bus_cycle :: "wb_in \<Rightarrow> echo_slave \<Rightarrow> u32 \<times> echo_slave" where
  "echo_bus_cycle w s = (let s1 = echo_tick w s in (rd_data s1, echo_tick w s1))"

record echo_bus =
  eslave :: echo_slave
  eaccesses :: nat
  edelay :: "nat \<Rightarrow> nat"

text \<open>
  The accessors of the firmware. \<^verbatim>\<open>slave[offset]\<close> reaches this slave for the word offsets
  of its region, 0 to 511, which are the nine address bits it sees; the theorems keep to them.
\<close>

definition slave_write :: "nat \<Rightarrow> u32 \<Rightarrow> echo_bus \<Rightarrow> echo_bus" where
  "slave_write off v b =
     b\<lparr>eslave := snd (echo_bus_cycle (wb_store (of_nat off) v)
                       ((echo_tick wb_idle ^^ edelay b (eaccesses b)) (eslave b))),
       eaccesses := Suc (eaccesses b)\<rparr>"

definition slave_read :: "nat \<Rightarrow> echo_bus \<Rightarrow> u32 \<times> echo_bus" where
  "slave_read off b =
     (case echo_bus_cycle (wb_load (of_nat off))
             ((echo_tick wb_idle ^^ edelay b (eaccesses b)) (eslave b))
      of (v, s) \<Rightarrow> (v, b\<lparr>eslave := s, eaccesses := Suc (eaccesses b)\<rparr>))"

definition echo_ready :: "echo_bus \<Rightarrow> bool" where
  "echo_ready b \<longleftrightarrow> \<not> echo_ack (eslave b) \<and> length (bram (eslave b)) = DEPTH"

section \<open>The block RAM as a register file\<close>

lemma echo_ack_handshake:
  assumes "\<not> echo_ack s" "wb_cyc w" "wb_stb w"
  shows "echo_ack (echo_tick w s)" "\<not> echo_ack (echo_tick w (echo_tick w s))"
  using assms by (auto simp: echo_tick_def Let_def)

lemma echo_idle:
  assumes "\<not> echo_ack s"
  shows "bram ((echo_tick wb_idle ^^ n) s) = bram s" "\<not> echo_ack ((echo_tick wb_idle ^^ n) s)"
  using assms by (induction n) (simp_all add: echo_tick_def wb_idle_def Let_def)

lemma unat_adr: "off < DEPTH \<Longrightarrow> unat (of_nat off :: 9 word) = off"
  by (intro unat_of_nat_small) (simp add: layout_simps)

lemma slave_write_ready:
  assumes "echo_ready b" "off < DEPTH"
  shows "echo_ready (slave_write off v b)" "bram (eslave (slave_write off v b)) = (bram (eslave b))[off := v]"
  using assms echo_idle [of "eslave b" "edelay b (eaccesses b)"]
  by (simp_all add: slave_write_def echo_ready_def echo_bus_cycle_def echo_tick_def wb_store_def Let_def unat_adr)

lemma slave_read_ready [hw_simps]:
  assumes "echo_ready b" "off < DEPTH"
  shows "fst (slave_read off b) = bram (eslave b) ! off" "echo_ready (snd (slave_read off b))"
    "bram (eslave (snd (slave_read off b))) = bram (eslave b)"
  using assms echo_idle [of "eslave b" "edelay b (eaccesses b)"]
  by (simp_all add: slave_read_def echo_ready_def echo_bus_cycle_def echo_tick_def wb_load_def Let_def unat_adr)

interpretation bram: register_file echo_ready slave_write "\<lambda>b i. bram (eslave b) ! i" "\<lambda>v. v" DEPTH
proof (unfold_locales, goal_cases)
  case (1 b off d)
  then show ?case by (rule slave_write_ready(1))
next
  case (2 b off d)
  then show ?case by (auto simp: slave_write_ready(2) fun_eq_iff echo_ready_def)
qed

end
