(* ===== verification/Echo_Tcp.thy ===== *)
theory Echo_Tcp
  imports Echo_Slave Lwip_Types
begin

text \<open>
  The TCP echo server, \<^verbatim>\<open>firmware-tcp/echo_tcp.c\<close>: the round trip of a buffer through the
  EchoSlave and the receive and accept callbacks.
\<close>

section \<open>The round trip through the slave\<close>

definition words_of :: "nat \<Rightarrow> nat" where
  "words_of len = (len + 3) div 4"

text \<open>The chunk of word \<open>i\<close>: four bytes, or what is left of the buffer.\<close>

definition chunk_len :: "nat \<Rightarrow> nat \<Rightarrow> nat" where
  "chunk_len len i = (if len - i * 4 \<ge> 4 then 4 else len - i * 4)"

fun read_back :: "nat \<Rightarrow> nat list \<Rightarrow> echo_bus \<Rightarrow> bytes \<times> echo_bus" where
  "read_back len [] b = ([], b)"
| "read_back len (i # is) b =
     (case slave_read i b of
        (w, b1) \<Rightarrow>
          (case read_back len is b1 of
             (out, b2) \<Rightarrow> (take (chunk_len len i) (le_bytes w) @ out, b2)))"

definition echo_through_slave :: "bytes \<Rightarrow> echo_bus \<Rightarrow> bytes \<times> echo_bus" where
  "echo_through_slave inp b =
     (let len = length inp; words = words_of len;
          b1 = fold (\<lambda>i. slave_write i (le_word (take (chunk_len len i) (drop (i * 4) inp)))) [0..<words] b
      in read_back len [0..<words] b1)"

section \<open>The callbacks\<close>

definition TCP_MSS :: nat where [layout_simps]: "TCP_MSS = 1460"

record echo_app =
  ebus :: echo_bus
  eleds :: "4 word"

text \<open>
  The loop over the pbuf chain. \<open>wr\<close> is the result of \<^verbatim>\<open>tcp_write\<close>, which depends on the
  connection: on what was called on it before and on the bytes to write. The result is the
  outcome of the loop (an early return with its error, or none), the calls so far and the slave.
\<close>

fun echo_chain ::
  "(lwip_call list \<Rightarrow> bytes \<Rightarrow> err_t) \<Rightarrow> chain \<Rightarrow> lwip_call list \<Rightarrow> echo_bus \<Rightarrow>
   err_t option \<times> lwip_call list \<times> echo_bus" where
  "echo_chain wr [] calls b = (None, calls, b)"
| "echo_chain wr (q # qs) calls b =
     (if length q > TCP_MSS then (Some ERR_MEM, calls, b)
      else
        (case echo_through_slave q b of
           (out, b') \<Rightarrow>
             (let e = wr calls out; calls' = calls @ [Tcp_write out]
              in if e \<noteq> ERR_OK then (Some e, calls', b') else echo_chain wr qs calls' b')))"

definition echo_recv ::
  "(lwip_call list \<Rightarrow> bytes \<Rightarrow> err_t) \<Rightarrow> echo_app \<Rightarrow> chain option \<Rightarrow> err_t \<Rightarrow>
   err_t \<times> lwip_call list \<times> echo_app" where
  "echo_recv wr st p err =
     (case p of
        None \<Rightarrow> (ERR_OK, [Tcp_close], st\<lparr>eleds := eleds st AND NOT 0x08\<rparr>)
      | Some ch \<Rightarrow>
          if err \<noteq> ERR_OK then
            (ERR_OK, [Tcp_close, Pbuf_free], st\<lparr>eleds := eleds st AND NOT 0x08\<rparr>)
          else
            (let st1 = st\<lparr>eleds := eleds st OR 0x04\<rparr>
             in case echo_chain wr ch [] (ebus st1) of
                  (Some e, calls, b) \<Rightarrow>
                    (e, calls @ [Tcp_recved (tot_len ch), Pbuf_free], st1\<lparr>ebus := b\<rparr>)
                | (None, calls, b) \<Rightarrow>
                    (ERR_OK, calls @ [Tcp_output, Tcp_recved (tot_len ch), Pbuf_free],
                     st1\<lparr>ebus := b, eleds := eleds st1 OR 0x08\<rparr>)))"

definition echo_accept :: "bool \<Rightarrow> err_t \<Rightarrow> echo_app \<Rightarrow> err_t \<times> bool \<times> echo_app" where
  "echo_accept have_pcb err st =
     (if err \<noteq> ERR_OK \<or> \<not> have_pcb then (ERR_VAL, False, st)
      else (ERR_OK, True, st\<lparr>eleds := eleds st OR 0x04\<rparr>))"

definition echo_app_init :: echo_app where
  "echo_app_init =
     \<lparr>ebus = \<lparr>eslave = echo_slave_reset, eaccesses = 0, edelay = (\<lambda>_. 0)\<rparr>, eleds = 0x0A\<rparr>"

text \<open>The bytes a call sequence queues for sending.\<close>

fun written :: "lwip_call list \<Rightarrow> bytes" where
  "written [] = []"
| "written (Tcp_write bs # cs) = bs @ written cs"
| "written (_ # cs) = written cs"

section \<open>Correctness\<close>

lemma read_back_bram:
  assumes "echo_ready b" "\<forall>i \<in> set is. i < DEPTH"
  shows "fst (read_back len is b) = concat (map (\<lambda>i. take (chunk_len len i) (le_bytes (bram (eslave b) ! i))) is)"
    "echo_ready (snd (read_back len is b))"
proof -
  have "fst (read_back len is b) = concat (map (\<lambda>i. take (chunk_len len i) (le_bytes (bram (eslave b) ! i))) is) \<and>
    echo_ready (snd (read_back len is b))"
    using assms
  proof (induction "is" arbitrary: b)
    case (Cons i "is")
    then have i: "echo_ready b" "i < DEPTH" by auto
    note r = slave_read_ready [OF i]
    from Cons.IH [OF r(2)] Cons.prems r show ?case
      by (auto simp: split_beta)
  qed simp
  then show "fst (read_back len is b) = concat (map (\<lambda>i. take (chunk_len len i) (le_bytes (bram (eslave b) ! i))) is)"
    "echo_ready (snd (read_back len is b))" by auto
qed

lemma chunks_concat:
  assumes "length xs \<le> 4 * n"
  shows "concat (map (\<lambda>i. take 4 (drop (i * 4) xs)) [0..<n]) = xs"
  using assms
proof (induction n arbitrary: xs)
  case (Suc n)
  have "concat (map (\<lambda>i. take 4 (drop (i * 4) xs)) [0..<Suc n]) =
      take 4 xs @ concat (map (\<lambda>i. take 4 (drop (i * 4) (drop 4 xs))) [0..<n])"
    unfolding upt_conv_Cons [OF zero_less_Suc] map_Suc_upt [symmetric] by (simp add: comp_def add.commute)
  also have "\<dots> = xs" using Suc.IH [of "drop 4 xs"] Suc.prems by simp
  finally show ?case .
qed simp

lemma take_chunk: "take (chunk_len (length xs) i) (drop (i * 4) xs) = take 4 (drop (i * 4) xs)"
  by (simp add: chunk_len_def)

lemma echo_through_slave_id:
  assumes "echo_ready b" "length inp \<le> 4 * DEPTH"
  shows "fst (echo_through_slave inp b) = inp" "echo_ready (snd (echo_through_slave inp b))"
proof -
  let ?len = "length inp" and ?n = "words_of (length inp)"
  let ?f = "\<lambda>i. le_word (take (chunk_len ?len i) (drop (i * 4) inp))"
  define b1 where "b1 = fold (\<lambda>i. slave_write i (?f i)) [0..<?n] b"
  have n: "?n \<le> DEPTH" "?len \<le> 4 * ?n" using assms(2) by (auto simp: words_of_def layout_simps)
  have r1: "echo_ready b1" unfolding b1_def using bram.fill_ready [OF assms(1) n(1), of ?f] by simp
  have v1: "bram (eslave b1) ! i = ?f i" if "i < ?n" for i
    unfolding b1_def using bram.fill_view [OF assms(1) n(1), of ?f] that by (simp add: fun_eq_iff)
  have piece: "take (chunk_len ?len i) (le_bytes (bram (eslave b1) ! i)) = take 4 (drop (i * 4) inp)"
    if "i < ?n" for i
  proof -
    have "length (take 4 (drop (i * 4) inp)) = chunk_len ?len i" by (simp add: chunk_len_def)
    with le_bytes_le_word [of "take 4 (drop (i * 4) inp)"] show ?thesis
      unfolding v1 [OF that] take_chunk by simp
  qed
  have mem: "\<forall>i \<in> set [0..<?n]. i < DEPTH" using n(1) by auto
  have "fst (read_back ?len [0..<?n] b1) = concat (map (\<lambda>i. take 4 (drop (i * 4) inp)) [0..<?n])"
    unfolding read_back_bram(1) [OF r1 mem] by (intro arg_cong [where f = concat] map_cong refl piece) simp
  then show "fst (echo_through_slave inp b) = inp"
    by (simp only: echo_through_slave_def Let_def b1_def [symmetric] chunks_concat [OF n(2)])
  show "echo_ready (snd (echo_through_slave inp b))"
    by (simp only: echo_through_slave_def Let_def b1_def [symmetric] read_back_bram(2) [OF r1 mem])
qed


lemma written_append [simp]: "written (xs @ ys) = written xs @ written ys"
  by (induction xs rule: written.induct) auto

lemma echo_chain_ok:
  assumes "echo_ready b" "\<forall>q \<in> set ch. length q \<le> TCP_MSS" "\<And>cs bs. wr cs bs = ERR_OK"
  shows "\<exists>b'. echo_chain wr ch calls b = (None, calls @ map Tcp_write ch, b') \<and> echo_ready b'"
  using assms(1,2)
proof (induction ch arbitrary: calls b)
  case (Cons q ch)
  have "length q \<le> 4 * DEPTH" using Cons.prems by (simp add: layout_simps)
  note e = echo_through_slave_id [OF Cons.prems(1) this]
  from Cons.IH [OF e(2), of "calls @ [Tcp_write q]"] Cons.prems e assms(3)
  show ?case by (auto simp: split_beta Let_def)
qed simp

lemma echo_chain_outcome:
  assumes "echo_ready b" "echo_chain wr ch calls b = (r, calls', b')"
  shows "echo_ready b' \<and> (\<exists>qs. calls' = calls @ map Tcp_write qs \<and> length qs \<le> length ch \<and> take (length qs) ch = qs)
    \<and> r \<noteq> Some ERR_OK"
  using assms
proof (induction ch arbitrary: calls b)
  case (Cons q ch)
  show ?case
  proof (cases "length q > TCP_MSS")
    case True
    with Cons.prems show ?thesis by (auto intro: exI [of _ "[]"])
  next
    case False
    then have "length q \<le> 4 * DEPTH" by (simp add: layout_simps)
    note e = echo_through_slave_id [OF Cons.prems(1) this]
    show ?thesis
    proof (cases "wr calls q = ERR_OK")
      case True
      with Cons.prems(2) False e
      have "echo_chain wr ch (calls @ [Tcp_write q]) (snd (echo_through_slave q b)) = (r, calls', b')"
        by (auto simp: split_beta Let_def)
      from Cons.IH [OF e(2) this] obtain qs where "calls' = (calls @ [Tcp_write q]) @ map Tcp_write qs"
        "length qs \<le> length ch" "take (length qs) ch = qs" "echo_ready b'" "r \<noteq> Some ERR_OK" by blast
      then show ?thesis by (intro conjI exI [of _ "q # qs"]) auto
    next
      case w: False
      with Cons.prems(2) False e show ?thesis
        by (auto simp: split_beta Let_def intro!: exI [of _ "[q]"])
    qed
  qed
qed auto

section \<open>Claims\<close>

text \<open>
  C14: The TCP echo server echoes. When every pbuf of the chain holds at most one maximum segment and the
  stack accepts the writes, the callback queues, pbuf by pbuf and in order, exactly the bytes it received, after
  their round trip through the block RAM, sends them, opens the receive window by the chain's length and
  frees the chain once.
\<close>

theorem echo_recv_echoes:
  assumes "echo_ready (ebus st)" "\<forall>q \<in> set ch. length q \<le> TCP_MSS" "\<And>cs bs. wr cs bs = ERR_OK"
  shows "\<exists>st'. echo_recv wr st (Some ch) ERR_OK =
      (ERR_OK, map Tcp_write ch @ [Tcp_output, Tcp_recved (tot_len ch), Pbuf_free], st') \<and>
    written (map Tcp_write ch @ [Tcp_output, Tcp_recved (tot_len ch), Pbuf_free]) = concat ch \<and>
    echo_ready (ebus st')"
proof -
  have "written (map Tcp_write ch) = concat ch" by (induction ch) auto
  moreover obtain b' where "echo_chain wr ch [] (ebus st) = (None, map Tcp_write ch, b')" "echo_ready b'"
    using echo_chain_ok [of "ebus st" ch wr "[]"] assms by auto
  ultimately show ?thesis by (auto simp: echo_recv_def Let_def)
qed

theorem echo_recv_echoes_witness:
  "echo_ready (ebus echo_app_init) \<and>
   (\<exists>st'. echo_recv (\<lambda>_ _. ERR_OK) echo_app_init (Some [[1, 2, 3], [4, 5, 6, 7, 8]]) ERR_OK =
      (ERR_OK, map Tcp_write [[1, 2, 3], [4, 5, 6, 7, 8]] @
        [Tcp_output, Tcp_recved (tot_len [[1, 2, 3], [4, 5, 6, 7, 8]]), Pbuf_free], st') \<and>
    written (map Tcp_write [[1, 2, 3], [4, 5, 6, 7, 8]] @
        [Tcp_output, Tcp_recved (tot_len [[1, 2, 3], [4, 5, 6, 7, 8]]), Pbuf_free]) = concat [[1, 2, 3], [4, 5, 6, 7, 8]] \<and>
    echo_ready (ebus st'))"
proof -
  have h: "echo_ready (ebus echo_app_init)"
    "\<forall>q \<in> set [[1, 2, 3], [4, 5, 6, 7, 8 :: byte]]. length q \<le> TCP_MSS"
    by (simp_all add: echo_app_init_def echo_slave_reset_def echo_ready_def layout_simps)
  show ?thesis using h(1) echo_recv_echoes [of echo_app_init "[[1, 2, 3], [4, 5, 6, 7, 8]]" "\<lambda>_ _. ERR_OK", OF h refl] by blast
qed

text \<open>
  C15: When the callback refuses data (it returns an error, because a pbuf is longer than a segment or
  because a write failed) it has already freed the pbuf chain and acknowledged all of its bytes, and it may
  have queued an echo of part of it. The stack keeps a refused chain and delivers it again
  (\<^verbatim>\<open>tcp_in.c\<close>: \<^verbatim>\<open>pcb->refused_data = recv_data\<close>), so the chain it then uses is a freed one.
\<close>

theorem echo_recv_refusal_frees:
  assumes "echo_ready (ebus st)" "echo_recv wr st p err = (e, calls, st')" "e \<noteq> ERR_OK"
  shows "\<exists>ch n. p = Some ch \<and> n \<le> length ch \<and>
    calls = map Tcp_write (take n ch) @ [Tcp_recved (tot_len ch), Pbuf_free]"
proof -
  from assms(2,3) obtain ch where p: "p = Some ch" "err = ERR_OK"
    by (auto simp: echo_recv_def split: option.splits if_splits)
  obtain r cs b where c: "echo_chain wr ch [] (ebus st) = (r, cs, b)" by (metis prod_cases3)
  from echo_chain_outcome [OF assms(1) c] obtain qs where
    "cs = map Tcp_write qs" "length qs \<le> length ch" "take (length qs) ch = qs" by auto
  with assms(2,3) p c show ?thesis
    by (cases r) (auto simp: echo_recv_def Let_def intro!: exI [of _ "length qs"])
qed

theorem echo_recv_refusal_frees_witness:
  "echo_ready (ebus echo_app_init) \<and>
   (\<exists>st'. echo_recv (\<lambda>cs _. if cs = [] then ERR_OK else ERR_MEM) echo_app_init (Some [[1, 2], [3]]) ERR_OK =
      (ERR_MEM, [Tcp_write [1, 2], Tcp_write [3], Tcp_recved 3, Pbuf_free], st')) \<and>
   (\<exists>ch n. Some [[1, 2], [3 :: byte]] = Some ch \<and> n \<le> length ch \<and>
    [Tcp_write [1, 2], Tcp_write [3], Tcp_recved 3, Pbuf_free] =
      map Tcp_write (take n ch) @ [Tcp_recved (tot_len ch), Pbuf_free])"
proof -
  let ?wr = "\<lambda>(cs :: lwip_call list) (_ :: bytes). if cs = [] then ERR_OK else ERR_MEM"
  have r: "echo_ready (ebus echo_app_init)"
    by (simp add: echo_app_init_def echo_slave_reset_def echo_ready_def)
  note e1 = echo_through_slave_id [OF r, of "[1, 2]"]
  note e2 = echo_through_slave_id [of "snd (echo_through_slave [1, 2] (ebus echo_app_init))" "[3]"]
  obtain st' where run: "echo_recv ?wr echo_app_init (Some [[1, 2], [3]]) ERR_OK =
      (ERR_MEM, [Tcp_write [1, 2], Tcp_write [3], Tcp_recved 3, Pbuf_free], st')"
    using e1 e2 by (auto simp: echo_recv_def split_beta Let_def layout_simps tot_len_def)
  from echo_recv_refusal_frees [OF r run] r run show ?thesis by auto
qed

end
