(* ===== verification/Echo_Udp.thy ===== *)
theory Echo_Udp
  imports Echo_Slave
begin

text \<open>
  The bare-metal UDP echo firmware, \<^verbatim>\<open>firmware/echo.c\<close>. The UDP stack it links against,
  LiteX's libliteeth, is not part of the repository. What the firmware sees of it is an input of
  the main loop's iteration: which datagrams \<^verbatim>\<open>udp_service\<close> hands to the callback, whether
  \<^verbatim>\<open>udp_arp_resolve\<close> succeeds, and which datagrams reach the callback while it runs, since
  (as the comment above the pending state says) it calls \<^verbatim>\<open>udp_service\<close> itself.
\<close>

section \<open>State and callback\<close>

definition ECHO_PORT :: u16 where [layout_simps]: "ECHO_PORT = 1234"

text \<open>A received datagram; \<open>payload\<close> is the memory from the data pointer on, of which the first
  \<open>payload_len\<close> bytes are the datagram.\<close>

record datagram =
  src_ip :: u32
  src_port :: u16
  dst_port :: u16
  payload :: bytes
  payload_len :: u32

record udp_echo =
  ubus :: echo_bus
  uleds :: "4 word"
  pending_src_ip :: u32
  pending_src_port :: u16
  pending_dst_port :: u16
  pending_length :: u32
  pending_reply :: bool

definition udp_words :: "u32 \<Rightarrow> nat" where
  "udp_words len = unat ((len + 3) div 4)"

definition echo_rx :: "datagram \<Rightarrow> udp_echo \<Rightarrow> udp_echo" where
  "echo_rx d st =
     (if dst_port d \<noteq> ECHO_PORT then st
      else
        st\<lparr>uleds := uleds st OR 0x04,
           ubus := fold (\<lambda>i. slave_write i (le_word (take 4 (drop (i * 4) (payload d)))))
                        [0..<udp_words (payload_len d)] (ubus st),
           pending_src_ip := src_ip d, pending_src_port := src_port d,
           pending_dst_port := dst_port d, pending_length := payload_len d,
           pending_reply := True\<rparr>)"

section \<open>The main loop\<close>

fun read_words :: "nat list \<Rightarrow> echo_bus \<Rightarrow> bytes \<times> echo_bus" where
  "read_words [] b = ([], b)"
| "read_words (i # is) b =
     (case slave_read i b of
        (w, b1) \<Rightarrow> (case read_words is b1 of (out, b2) \<Rightarrow> (le_bytes w @ out, b2)))"

text \<open>A datagram handed to \<^verbatim>\<open>udp_send\<close>: it goes to the address resolved last.\<close>

record reply =
  to_ip :: u32
  from_port :: u16
  to_port :: u16
  contents :: bytes

definition loop_iteration ::
  "datagram list \<Rightarrow> bool \<Rightarrow> datagram list \<Rightarrow> udp_echo \<Rightarrow> reply option \<times> udp_echo" where
  "loop_iteration serviced arp_ok during_arp st =
     (let st1 = fold echo_rx serviced st
      in if \<not> pending_reply st1 then (None, st1)
         else
           (let resolved = pending_src_ip st1;
                st2 = fold echo_rx during_arp (st1\<lparr>pending_reply := False\<rparr>)
            in if \<not> arp_ok then (None, st2)
               else
                 (case read_words [0..<udp_words (pending_length st2)] (ubus st2) of
                    (out, b) \<Rightarrow>
                      (Some \<lparr>to_ip = resolved, from_port = pending_dst_port st2,
                             to_port = pending_src_port st2,
                             contents = take (unat (pending_length st2)) out\<rparr>,
                       st2\<lparr>ubus := b, uleds := uleds st2 OR 0x08\<rparr>))))"

text \<open>The state in which \<^verbatim>\<open>main\<close> enters the loop.\<close>

definition udp_echo_init :: udp_echo where
  "udp_echo_init =
     \<lparr>ubus = \<lparr>eslave = echo_slave_reset, eaccesses = 0, edelay = (\<lambda>_. 0)\<rparr>, uleds = 0x03,
      pending_src_ip = 0, pending_src_port = 0, pending_dst_port = 0, pending_length = 0,
      pending_reply = False\<rparr>"

text \<open>A datagram fits the block RAM, and the memory behind its data pointer covers its last word.\<close>

definition datagram_ok :: "datagram \<Rightarrow> bool" where
  "datagram_ok d \<longleftrightarrow> unat (payload_len d) \<le> 4 * DEPTH \<and>
     4 * udp_words (payload_len d) \<le> length (payload d)"

section \<open>Correctness\<close>

lemma udp_words_bound:
  assumes "unat len \<le> 4 * DEPTH"
  shows "udp_words len = (unat len + 3) div 4" "udp_words len \<le> DEPTH"
proof -
  have "unat (len + 3) = unat len + 3"
    using assms by (simp add: unat_word_ariths layout_simps)
  then show "udp_words len = (unat len + 3) div 4"
    by (simp add: udp_words_def unat_div)
  then show "udp_words len \<le> DEPTH" using assms by (simp add: layout_simps)
qed

lemma echo_rx_ready:
  assumes "datagram_ok d" "echo_ready (ubus st)"
  shows "echo_ready (ubus (echo_rx d st))"
  using assms udp_words_bound(2) [of "payload_len d"] bram.fill_ready [OF assms(2)]
  by (simp add: echo_rx_def datagram_ok_def)

lemma fold_echo_rx_ready:
  "\<forall>d \<in> set ds. datagram_ok d \<Longrightarrow> echo_ready (ubus st) \<Longrightarrow> echo_ready (ubus (fold echo_rx ds st))"
  by (induction ds arbitrary: st) (auto simp: echo_rx_ready)

lemma fold_echo_rx_other:
  "\<forall>d \<in> set ds. dst_port d \<noteq> ECHO_PORT \<Longrightarrow> fold echo_rx ds st = st"
  by (induction ds arbitrary: st) (auto simp: echo_rx_def)

lemma read_words_bram:
  assumes "echo_ready b" "\<forall>i \<in> set is. i < DEPTH"
  shows "fst (read_words is b) = concat (map (\<lambda>i. le_bytes (bram (eslave b) ! i)) is)"
    "echo_ready (snd (read_words is b))"
proof -
  have "fst (read_words is b) = concat (map (\<lambda>i. le_bytes (bram (eslave b) ! i)) is) \<and>
    echo_ready (snd (read_words is b))"
    using assms
  proof (induction "is" arbitrary: b)
    case (Cons i "is")
    then have i: "echo_ready b" "i < DEPTH" by auto
    note r = slave_read_ready [OF i]
    from Cons.IH [OF r(2)] Cons.prems r show ?case
      by (auto simp: split_beta)
  qed simp
  then show "fst (read_words is b) = concat (map (\<lambda>i. le_bytes (bram (eslave b) ! i)) is)"
    "echo_ready (snd (read_words is b))" by auto
qed

lemma word_chunks_concat:
  assumes "4 * n \<le> length xs"
  shows "concat (map (\<lambda>i. take 4 (drop (i * 4) xs)) [0..<n]) = take (4 * n) xs"
  using assms
proof (induction n)
  case (Suc n)
  then have "concat (map (\<lambda>i. take 4 (drop (i * 4) xs)) [0..<Suc n]) =
      take (4 * n) xs @ take 4 (drop (4 * n) xs)" by (simp add: mult.commute)
  also have "\<dots> = take (4 * n + 4) xs" by (simp add: take_add)
  finally show ?case by (simp add: add.commute)
qed simp

text \<open>Reading back what the callback stored for a datagram gives its payload.\<close>

lemma read_stored:
  assumes "datagram_ok d" "dst_port d = ECHO_PORT" "echo_ready (ubus st)"
  shows "take (unat (payload_len d)) (fst (read_words [0..<udp_words (payload_len d)] (ubus (echo_rx d st)))) =
    take (unat (payload_len d)) (payload d)"
proof -
  let ?n = "udp_words (payload_len d)"
  let ?f = "\<lambda>i. le_word (take 4 (drop (i * 4) (payload d)))"
  have len: "unat (payload_len d) \<le> 4 * DEPTH" "4 * ?n \<le> length (payload d)"
    using assms(1) by (auto simp: datagram_ok_def)
  note n = udp_words_bound [OF len(1)]
  have r: "echo_ready (ubus (echo_rx d st))" by (rule echo_rx_ready [OF assms(1,3)])
  have v: "bram (eslave (ubus (echo_rx d st))) ! i = ?f i" if "i < ?n" for i
    using bram.fill_view [OF assms(3) n(2), of ?f] that assms(2) by (simp add: echo_rx_def fun_eq_iff)
  have piece: "le_bytes (bram (eslave (ubus (echo_rx d st))) ! i) = take 4 (drop (i * 4) (payload d))"
    if "i < ?n" for i
  proof -
    have "4 * i + 4 \<le> length (payload d)" using that len(2) by linarith
    then have "length (take 4 (drop (i * 4) (payload d))) = 4" by simp
    with le_bytes_le_word [of "take 4 (drop (i * 4) (payload d))"] show ?thesis
      unfolding v [OF that] by (simp add: le_bytes_def)
  qed
  have "fst (read_words [0..<?n] (ubus (echo_rx d st))) = concat (map (\<lambda>i. take 4 (drop (i * 4) (payload d))) [0..<?n])"
    using n(2) unfolding read_words_bram(1) [OF r, of "[0..<?n]", simplified]
    by (subst read_words_bram(1) [OF r]) (auto intro!: arg_cong [where f = concat] map_cong piece)
  also have "\<dots> = take (4 * ?n) (payload d)" by (rule word_chunks_concat [OF len(2)])
  finally have "fst (read_words [0..<?n] (ubus (echo_rx d st))) = take (4 * ?n) (payload d)" .
  moreover have "min (unat (payload_len d)) (4 * ?n) = unat (payload_len d)" unfolding n(1) by linarith
  ultimately show ?thesis by simp
qed

lemma echo_rx_pending:
  assumes "dst_port d = ECHO_PORT"
  shows "pending_src_ip (echo_rx d st) = src_ip d" "pending_src_port (echo_rx d st) = src_port d"
    "pending_dst_port (echo_rx d st) = ECHO_PORT" "pending_length (echo_rx d st) = payload_len d"
    "pending_reply (echo_rx d st)"
  using assms by (simp_all add: echo_rx_def)

text \<open>What one iteration sends, when the state \<open>st2\<close> after the address resolution was left by a datagram
  \<open>d\<close> handled in a state with a ready bus.\<close>

lemma loop_reply:
  assumes "pending_reply (fold echo_rx serviced st)"
    "fold echo_rx during ((fold echo_rx serviced st)\<lparr>pending_reply := False\<rparr>) = (echo_rx d s)\<lparr>pending_reply := pr\<rparr>"
    "datagram_ok d" "dst_port d = ECHO_PORT" "echo_ready (ubus s)"
  shows "\<exists>st'. loop_iteration serviced True during st =
      (Some \<lparr>to_ip = pending_src_ip (fold echo_rx serviced st), from_port = ECHO_PORT, to_port = src_port d,
         contents = take (unat (payload_len d)) (payload d)\<rparr>, st') \<and>
    pending_reply st' = pr \<and> echo_ready (ubus st')"
proof -
  let ?n = "udp_words (payload_len d)"
  have n: "?n \<le> DEPTH" using udp_words_bound assms(3) by (simp add: datagram_ok_def)
  have r: "echo_ready (ubus (echo_rx d s))" by (rule echo_rx_ready [OF assms(3,5)])
  have "echo_ready (snd (read_words [0..<?n] (ubus (echo_rx d s))))"
    by (rule read_words_bram(2) [OF r]) (use n in auto)
  then show ?thesis
    using assms(1) read_stored [OF assms(3-5)]
    by (simp add: loop_iteration_def assms(2) echo_rx_pending [OF assms(4)] split_beta Let_def)
qed

section \<open>Claims\<close>

text \<open>
  C16: The UDP echo server echoes. When \<^verbatim>\<open>udp_service\<close> delivers datagrams of which \<open>d\<close> is the
  last on the echo port, the sender's address resolves and no other echo datagram arrives meanwhile, the
  iteration sends one reply: to the sender's address and port, from the echo port, with exactly the payload
  of \<open>d\<close> after its round trip through the block RAM. No reply stays pending.
\<close>

theorem loop_iteration_echoes:
  assumes "\<forall>d' \<in> set before. datagram_ok d'" "datagram_ok d" "dst_port d = ECHO_PORT"
    "\<forall>d' \<in> set (behind @ during). dst_port d' \<noteq> ECHO_PORT" "echo_ready (ubus st)"
  shows "\<exists>st'. loop_iteration (before @ d # behind) True during st =
      (Some \<lparr>to_ip = src_ip d, from_port = ECHO_PORT, to_port = src_port d,
         contents = take (unat (payload_len d)) (payload d)\<rparr>, st') \<and>
    \<not> pending_reply st' \<and> echo_ready (ubus st')"
proof -
  let ?s = "fold echo_rx before st"
  have f: "fold echo_rx (before @ d # behind) st = echo_rx d ?s"
    using assms(4) by (simp add: fold_echo_rx_other)
  have g: "fold echo_rx during ((echo_rx d ?s)\<lparr>pending_reply := False\<rparr>) = (echo_rx d ?s)\<lparr>pending_reply := False\<rparr>"
    using assms(4) by (simp add: fold_echo_rx_other)
  have r: "echo_ready (ubus ?s)" by (rule fold_echo_rx_ready [OF assms(1,5)])
  show ?thesis
    using loop_reply [where serviced = "before @ d # behind" and st = st, unfolded f, OF _ g assms(2,3) r]
    by (simp add: echo_rx_pending [OF assms(3)])
qed

text \<open>
  C17: A datagram that reaches the callback while the main loop resolves the address of an earlier sender
  overwrites the pending reply and the block RAM. The iteration then sends the later payload, with the later
  sender's port, to the earlier sender's address, and the earlier payload is never echoed. (The comment above
  \<^verbatim>\<open>echo_rx\<close> says that nothing else writes the block RAM in between.)
\<close>

theorem loop_iteration_misdelivers:
  assumes "datagram_ok d" "dst_port d = ECHO_PORT" "datagram_ok d'" "dst_port d' = ECHO_PORT"
    "echo_ready (ubus st)"
  shows "\<exists>st'. loop_iteration [d] True [d'] st =
      (Some \<lparr>to_ip = src_ip d, from_port = ECHO_PORT, to_port = src_port d',
         contents = take (unat (payload_len d')) (payload d')\<rparr>, st') \<and> pending_reply st'"
proof -
  let ?s = "(echo_rx d st)\<lparr>pending_reply := False\<rparr>"
  have r: "echo_ready (ubus ?s)" using echo_rx_ready [OF assms(1,5)] by simp
  have g: "fold echo_rx [d'] ((fold echo_rx [d] st)\<lparr>pending_reply := False\<rparr>) = (echo_rx d' ?s)\<lparr>pending_reply := True\<rparr>"
    using assms(4) by (simp add: echo_rx_def)
  show ?thesis
    using loop_reply [OF _ g assms(3,4) r] by (auto simp: echo_rx_pending [OF assms(2)])
qed

definition datagram_a :: datagram where
  "datagram_a = \<lparr>src_ip = 0xC0A80164, src_port = 4000, dst_port = 1234, payload = [1, 2, 3, 4, 5, 6, 7, 8], payload_len = 6\<rparr>"

definition datagram_b :: datagram where
  "datagram_b = \<lparr>src_ip = 0xC0A80165, src_port = 5000, dst_port = 1234, payload = [9, 9, 9, 0], payload_len = 3\<rparr>"

lemma sample_datagrams:
  "datagram_ok datagram_a" "datagram_ok datagram_b" "dst_port datagram_a = ECHO_PORT"
  "dst_port datagram_b = ECHO_PORT" "echo_ready (ubus udp_echo_init)"
  by (simp_all add: datagram_a_def datagram_b_def datagram_ok_def udp_words_def unat_div layout_simps
      udp_echo_init_def echo_slave_reset_def echo_ready_def)

theorem loop_iteration_echoes_witness:
  "\<exists>st'. loop_iteration ([datagram_b] @ datagram_a # []) True [] udp_echo_init =
      (Some \<lparr>to_ip = src_ip datagram_a, from_port = ECHO_PORT, to_port = src_port datagram_a,
         contents = take (unat (payload_len datagram_a)) (payload datagram_a)\<rparr>, st') \<and>
    \<not> pending_reply st' \<and> echo_ready (ubus st')"
  by (rule loop_iteration_echoes) (simp_all add: sample_datagrams)

theorem loop_iteration_misdelivers_witness:
  "\<exists>st'. loop_iteration [datagram_a] True [datagram_b] udp_echo_init =
      (Some \<lparr>to_ip = src_ip datagram_a, from_port = ECHO_PORT, to_port = src_port datagram_b,
         contents = take (unat (payload_len datagram_b)) (payload datagram_b)\<rparr>, st') \<and> pending_reply st'"
  by (rule loop_iteration_misdelivers) (simp_all add: sample_datagrams)

end
