(* ===== verification/Spec2Isabelle.thy ===== *)
theory Spec2Isabelle
  imports Prelude Register_File Sat_Hardware Sat_Host Lwip_Types Lwip_Def Inet_Chksum Ip4_Addr Sys_Arch Timeouts Mem Mem_Heap Memp Pbuf Pbuf_Data Pbuf_Alloc Pbuf_Frame Header_Fields Ethernetif Etharp Etharp_Frame Etharp_Inv Ethernet_Send Etharp_Send Etharp_Reply Etharp_Resolve Ip4 Ip4_Send Ip4_Header Pbuf_Headers Icmp_Echo Ping Ip4_Drop Netif Tcp_Types Tcp_Out Tcp Tcp_Timers Tcp_In Tcp_Frame Tcp_Send Tcp_Options Tcp_Window Tcp_Rtt Stack_Timers Sat_Tcp Sat_Service Echo_Slave Echo_Tcp Echo_Udp
begin

text \<open>
  Verification of the ECP5 Ethernet SoC: a RISC-V system on an FPGA that serves two small network services, an echo
  server and a brute-force SAT solver, over a hardware Ethernet MAC.

  \<^bold>\<open>The program and its parts.\<close> A client on the host (\<^verbatim>\<open>host/sat_host.py\<close>) sends a CNF formula over TCP. The MAC of the
  board receives the frames; the driver \<^verbatim>\<open>firmware-tcp/ethernetif.c\<close> turns each into a packet buffer and hands it to the
  lwIP stack under \<^verbatim>\<open>firmware-tcp/lwip\<close> (Ethernet, ARP, IPv4, ICMP, TCP). TCP calls the receive callback of the
  application, \<^verbatim>\<open>sat_tcp.c\<close> or \<^verbatim>\<open>echo_tcp.c\<close>, which drives a Wishbone slave of the SoC, \<^verbatim>\<open>soc/sat_slave.py\<close> around
  \<^verbatim>\<open>soc/sat_solver.py\<close> or \<^verbatim>\<open>soc/echo_slave.py\<close>, and writes the reply. The older firmware \<^verbatim>\<open>firmware/echo.c\<close> does the same for
  UDP on LiteX's own stack.

  \<^bold>\<open>Hardware and applications.\<close>
  \<^item> \<open>Wishbone\<close>, \<open>Register_File\<close>: bus signals, and the interface of a memory-mapped register file as a locale.
  \<^item> \<open>Sat_Hardware\<close>: \<open>sat_tick\<close> is one clock of \<^verbatim>\<open>BruteForceSAT\<close>, \<open>slave_tick\<close> one clock of \<^verbatim>\<open>SATSlave\<close> around it; a bus
    access of the firmware is the sequence of ticks until the acknowledge. Shown: the search visits every assignment, ends
    within two to the number of variables cycles and reports a model exactly when there is one.
  \<^item> \<open>Sat_Host\<close>, \<open>Sat_Tcp\<close>, \<open>Sat_Service\<close>: the encoder and decoder of the host, the callbacks of \<^verbatim>\<open>sat_tcp.c\<close>, and the
    composition: for a formula within the limits the host decodes a satisfying assignment exactly when there is one. The
    callback always returns; malformed requests are dropped; a clause with more than ten literals can get a wrong answer.
  \<^item> \<open>Echo_Slave\<close>, \<open>Echo_Tcp\<close>, \<open>Echo_Udp\<close>: the block RAM slave and the two echo servers. Shown: the bytes written back are the
    bytes received; what refusing a packet does to its buffers; how a datagram that arrives during address resolution is
    sent to the wrong peer.

  \<^bold>\<open>The stack, bottom up.\<close>
  \<^item> \<open>Lwip_Types\<close>, \<open>Lwip_Def\<close>, \<open>Sys_Arch\<close>: error codes and the calls a callback makes; byte order and the string routines of
    \<^verbatim>\<open>def.c\<close>; the clock, the random numbers and \<^verbatim>\<open>memcmp\<close> of \<^verbatim>\<open>sys_arch.c\<close>. The hardware
    counter behind the clock is an argument, assumed (\<open>counts_down\<close>) to count down once in every cycle; the clock then falls
    back to zero at every wrap of the counter.
  \<^item> \<open>Inet_Chksum\<close>: the three summation algorithms of \<^verbatim>\<open>inet_chksum.c\<close>, equal to the sum of RFC 1071 for every address and
    length, and the checksums over headers, chains of buffers and pseudo headers.
  \<^item> \<open>Ip4_Addr\<close>: printing, parsing and classifying addresses, \<^verbatim>\<open>ip4_addr.c\<close>.
  \<^item> \<open>Timeouts\<close>: the sorted list of \<^verbatim>\<open>timeouts.c\<close>, over handlers and a clock that are parameters. \<open>Stack_Timers\<close> puts in the
    stack's own: \<^verbatim>\<open>tcp_tmr\<close>, \<^verbatim>\<open>etharp_tmr\<close>, \<^verbatim>\<open>pbuf_free_ooseq\<close> and \<^verbatim>\<open>sys_now\<close>. Shown: processing the list is at most nine calls of them,
    returns if they do and restarts the cyclic timers; the ARP timer is never due again once it has been set across a wrap of
    the clock.
  \<^item> \<open>Mem\<close>, \<open>Mem_Heap\<close>, \<open>Memp\<close>, \<open>Allocator\<close>: the heap as a list of blocks in memory, refined to first fit with coalescing; the
    pools as linked free lists; both interpret one allocator locale, whose clients never see overlapping memory.
  \<^item> \<open>Pbuf\<close>, \<open>Pbuf_Data\<close>, \<open>Pbuf_Alloc\<close>, \<open>Pbuf_Frame\<close>: packet buffers in a byte-addressed memory. Shown: allocation is fresh and
    complete or leaves nothing, freeing follows the reference counts and leaks nothing, reading, writing and searching
    work as on one contiguous buffer, and no operation touches the layers above.
  \<^item> \<open>Header_Fields\<close>, \<open>Ethernetif\<close>: header fields in memory, and the driver: a frame that is sent is the bytes of the packet, a
    packet that is received is the bytes of the frame.
  \<^item> \<open>Etharp\<close>, \<open>Etharp_Frame\<close>, \<open>Etharp_Inv\<close>: \<^verbatim>\<open>etharp.c\<close> and the sending half of \<^verbatim>\<open>ethernet.c\<close>; the table stays well formed in
    every state that the operations, as steps of a transition relation, can reach.
  \<^item> \<open>Ethernet_Send\<close>, \<open>Etharp_Send\<close>, \<open>Etharp_Reply\<close>, \<open>Etharp_Resolve\<close>: the exact frames: a request for our address is answered,
    a packet for an unknown neighbour waits for the reply and then leaves.
  \<^item> \<open>Ip4\<close>, \<open>Ip4_Send\<close>, \<open>Ip4_Header\<close>: routing, sending and receiving of \<^verbatim>\<open>ip4.c\<close>, \<^verbatim>\<open>icmp.c\<close>, the receiving half of \<^verbatim>\<open>ethernet.c\<close>
    and the poll of the driver. Shown: the header checksum that is accumulated while the header is written is the one
    \<^verbatim>\<open>inet_chksum\<close> computes, and a packet for a known neighbour leaves in one frame with exactly that header and its bytes.
  \<^item> \<open>Pbuf_Headers\<close>, \<open>Icmp_Echo\<close>, \<open>Ping\<close>, \<open>Ip4_Drop\<close>: taking headers off and turning a packet round in place. Shown, from the
    receive slot of the MAC to its transmit slot: an echo request is answered with a reply whose adjusted checksum is valid,
    and a packet that is malformed, a fragment or not for us is dropped without any effect.
  \<^item> \<open>Netif\<close>: the interfaces of \<^verbatim>\<open>netif.c\<close> and the first half of \<^verbatim>\<open>main\<close>. Shown: the numbering of interfaces ends with a
    number of its own, and from cold memory the start of the program establishes every premise of the theorems above.
  \<^item> \<open>Tcp_Types\<close>, \<open>Tcp_Out\<close>, \<open>Tcp\<close>, \<open>Tcp_Timers\<close>, \<open>Tcp_In\<close>: TCP. Control blocks, segments, lists and the macros of the headers; all
    of \<^verbatim>\<open>tcp_out.c\<close> (queueing, sending, retransmitting, resets, probes); the connections and the timers of \<^verbatim>\<open>tcp.c\<close>; the
    receiver and the state machine of \<^verbatim>\<open>tcp_in.c\<close>. \<open>tcp_input\<close> is the entry point that \<open>ip4_input\<close> calls. The callbacks of the
    application and the start of the timer are the parameters \<open>tcp_env\<close>.
  \<^item> \<open>Tcp_Frame\<close>, \<open>Tcp_Send\<close>, \<open>Tcp_Options\<close>, \<open>Tcp_Window\<close>, \<open>Tcp_Rtt\<close>: theorems on TCP. A calculus of postconditions for option
    programs gives what sending leaves alone, down to the ARP table. Shown: the receive window keeps its invariant and the
    announced edge never moves back in any run of a connection; the option parser ends and agrees with a parser of byte lists;
    the estimator of the round trip time is exact in its 16 bits.

  \<^bold>\<open>State and errors.\<close> The stack works on one extensible record: \<open>mstate\<close> holds the heap, the pools, the bytes and the
  buffers; \<open>dstate\<close> adds the interfaces and the registers of the MAC, \<open>astate\<close> the ARP table, \<open>istate\<close> the globals of the IP
  layer, \<open>nstate\<close> the numbering of interfaces and \<open>tstate\<close> the control blocks, segments and globals of TCP. Every operation is polymorphic in the layers above it. Error codes are the datatype \<open>err_t\<close>; an assertion that
  fails, and a loop that does not end, is \<open>None\<close>. So each theorem with a result \<open>Some\<close> also says that no assertion fails and
  every loop ends.

  \<^bold>\<open>Bounds.\<close> Machine integers are words of their width. Walks over the blocks of the heap take fuel 154, one more than the
  3072 bytes of the heap hold blocks of 20 bytes; walks over the free list of a pool take one more than its number of
  elements; both are proved to suffice. Loops over chains of buffers, the timers, the bus handshake and the polling of the
  solver are partial functions in the option monad, with separate proofs that they return. Pointers are natural numbers;
  the premise \<open>layout_ok\<close> of the theorems on frames places heap, pools and MAC buffers apart within 32 bits.

  \<^bold>\<open>Not modelled.\<close> The callbacks of \<open>sat_tcp.c\<close> and \<open>echo_tcp.c\<close> run on their own model of the calls they make of TCP, not on \<open>tstate\<close>.
  The debug output of TCP and the options that \<^verbatim>\<open>lwipopts.h\<close> leaves out of it (window scaling, timestamps, selective
  acknowledgements, the backlog of listeners, extension arguments). LiteX's UDP stack and MAC, which are not in the repository: what they deliver is an input. The scripts
  that build the SoC, start-up assembly and linker scripts, the measuring scripts and the socket code of the client: I/O
  without a result to state. The files of lwIP that \<^verbatim>\<open>lwipopts.h\<close> or the Makefile leave out.
\<close>

end
